(* ===== verification/Prelude.thy ===== *)
theory Prelude
  imports Main "HOL-Library.Word" "HOL-Library.List_Lexorder" "HOL-Library.Char_ord"
    "HOL-Library.Sublist"
begin

text \<open>
  Shared vocabulary of the development: the names of Rust's integer types, results and
  byte strings, checked and saturating arithmetic of the standard library, the propagation
  of errors by the question-mark operator with and without mutable state, and the generic
  lemmas on lists the components use.
\<close>

unbundle bit_operations_syntax

section \<open>Types\<close>

type_synonym u8 = "8 word"
type_synonym u16 = "16 word"
type_synonym u32 = "32 word"
type_synonym u64 = "64 word"
type_synonym i128 = "128 word"

text \<open>
  A target of 64 bits: \<open>usize\<close> has the width of \<open>u64\<close>.  A Rust \<open>&str\<close> is its sequence of
  UTF-8 bytes, here the Isabelle type \<open>string\<close>, whose characters are exactly the 256 bytes;
  a \<open>Vec<u8>\<close> is a list of 8-bit words.
\<close>

type_synonym usize = "64 word"
type_synonym bytes = "8 word list"

text \<open>A \<open>Result<T, E>\<close> is a sum.\<close>

abbreviation Ok :: "'a \<Rightarrow> 'e + 'a" where "Ok \<equiv> Inr"
abbreviation Err :: "'e \<Rightarrow> 'e + 'a" where "Err \<equiv> Inl"

named_theorems keeps_intros \<open>rules that carry an invariant through a stateful operation\<close>
named_theorems codec_simps \<open>equations of byte encoders and decoders\<close>

section \<open>Arithmetic of the standard library\<close>

definition u64_max :: u64 where "u64_max = - 1"

definition checked_add :: "'a::len word \<Rightarrow> 'a word \<Rightarrow> 'a word option" where
  "checked_add a b = (if unat a + unat b < 2 ^ LENGTH('a) then Some (a + b) else None)"

definition saturating_add :: "'a::len word \<Rightarrow> 'a word \<Rightarrow> 'a word" where
  "saturating_add a b = (if unat a + unat b < 2 ^ LENGTH('a) then a + b else - 1)"

definition saturating_mul :: "'a::len word \<Rightarrow> 'a word \<Rightarrow> 'a word" where
  "saturating_mul a b = (if unat a * unat b < 2 ^ LENGTH('a) then a * b else - 1)"

definition saturating_sub :: "'a::len word \<Rightarrow> 'a word \<Rightarrow> 'a word" where
  "saturating_sub a b = (if b \<le> a then a - b else 0)"

text \<open>The length of an in-memory object as a \<open>u64\<close>.\<close>

definition len64 :: "'a list \<Rightarrow> u64" where
  "len64 xs = word_of_nat (length xs)"

lemma checked_add_Some:
  "checked_add a b = Some c \<Longrightarrow> unat c = unat a + unat b"
  by (auto simp: checked_add_def unat_word_ariths split: if_splits)

lemma checked_add_Some_iff:
  "checked_add a b = Some (c::'a::len word) \<longleftrightarrow>
     unat a + unat b < 2 ^ LENGTH('a) \<and> c = a + b"
  by (auto simp: checked_add_def)

lemma checked_add_None_iff:
  "checked_add a (b::'a::len word) = None \<longleftrightarrow> 2 ^ LENGTH('a) \<le> unat a + unat b"
  by (auto simp: checked_add_def)

lemma checked_add_0 [simp]: "checked_add a 0 = Some a"
  by (simp add: checked_add_def)

lemma unat_minus_one_max: "unat (- 1 :: 'a::len word) = 2 ^ LENGTH('a) - 1"
  by transfer (simp add: take_bit_minus_one_eq_mask mask_eq_exp_minus_1 nat_diff_distrib nat_power_eq)

lemma unat_saturating_add:
  "unat (saturating_add a (b::'a::len word)) = min (unat a + unat b) (2 ^ LENGTH('a) - 1)"
  by (auto simp: saturating_add_def unat_word_ariths unat_minus_one_max)

lemma unat_saturating_mul:
  "unat (saturating_mul a (b::'a::len word)) = min (unat a * unat b) (2 ^ LENGTH('a) - 1)"
  by (auto simp: saturating_mul_def unat_word_ariths unat_minus_one_max)

lemma unat_saturating_sub: "unat (saturating_sub a b) = unat a - unat b"
  by (auto simp: saturating_sub_def word_le_nat_alt unat_sub)

lemma unat_len64: "length xs < 2 ^ 64 \<Longrightarrow> unat (len64 xs) = length xs"
  by (simp add: len64_def unat_of_nat take_bit_nat_eq_self)

lemma len64_inj:
  "length xs < 2 ^ 64 \<Longrightarrow> length ys < 2 ^ 64 \<Longrightarrow> len64 xs = len64 ys \<Longrightarrow> length xs = length ys"
  by (metis unat_len64)

section \<open>Results\<close>

text \<open>\<open>expr?\<close> in a function without mutable state.\<close>

definition bindR :: "'e + 'a \<Rightarrow> ('a \<Rightarrow> 'e + 'b) \<Rightarrow> 'e + 'b" where
  "bindR r f = (case r of Inl e \<Rightarrow> Inl e | Inr x \<Rightarrow> f x)"

definition map_err :: "('e \<Rightarrow> 'f) \<Rightarrow> 'e + 'a \<Rightarrow> 'f + 'a" where
  "map_err g r = (case r of Inl e \<Rightarrow> Inl (g e) | Inr x \<Rightarrow> Inr x)"

definition ok_or :: "'a option \<Rightarrow> 'e \<Rightarrow> 'e + 'a" where
  "ok_or x e = (case x of None \<Rightarrow> Inl e | Some y \<Rightarrow> Inr y)"

lemma bindR_simps [simp]: "bindR (Inl e) f = Inl e" "bindR (Inr x) f = f x"
  by (simp_all add: bindR_def)

lemma bindR_Inr_iff: "bindR r f = Inr y \<longleftrightarrow> (\<exists>x. r = Inr x \<and> f x = Inr y)"
  by (cases r) auto

lemma map_err_simps [simp]: "map_err g (Inl e) = Inl (g e)" "map_err g (Inr x) = Inr x"
  by (simp_all add: map_err_def)

lemma map_err_Inr_iff [simp]: "map_err g r = Inr x \<longleftrightarrow> r = Inr x"
  by (cases r) auto

lemma ok_or_simps [simp]: "ok_or None e = Inl e" "ok_or (Some y) e = Inr y"
  by (simp_all add: ok_or_def)

lemma ok_or_Inr_iff [simp]: "ok_or x e = Inr y \<longleftrightarrow> x = Some y"
  by (cases x) auto

section \<open>Results with mutable state\<close>

text \<open>
  A method on \<open>&mut self\<close> that returns a \<open>Result\<close> maps the state to the result and the new
  state; an error keeps every mutation made before it.  \<open>bindS m f\<close> is \<open>let x = m?; f(x)\<close>.
\<close>

type_synonym ('s, 'e, 'a) op = "'s \<Rightarrow> ('e + 'a) \<times> 's"

definition returnS :: "'a \<Rightarrow> ('s, 'e, 'a) op" where
  "returnS x s = (Inr x, s)"

definition failS :: "'e \<Rightarrow> ('s, 'e, 'a) op" where
  "failS e s = (Inl e, s)"

definition bindS :: "('s, 'e, 'a) op \<Rightarrow> ('a \<Rightarrow> ('s, 'e, 'b) op) \<Rightarrow> ('s, 'e, 'b) op" where
  "bindS m f s = (case m s of (Inl e, t) \<Rightarrow> (Inl e, t) | (Inr x, t) \<Rightarrow> f x t)"

definition getS :: "('s \<Rightarrow> 'a) \<Rightarrow> ('s, 'e, 'a) op" where
  "getS f s = (Inr (f s), s)"

definition modifyS :: "('s \<Rightarrow> 's) \<Rightarrow> ('s, 'e, unit) op" where
  "modifyS f s = (Inr (), f s)"

definition liftS :: "'e + 'a \<Rightarrow> ('s, 'e, 'a) op" where
  "liftS r s = (r, s)"

text \<open>A method whose error is converted by \<open>map_err\<close> or \<open>From\<close>.\<close>

definition map_errS :: "('e \<Rightarrow> 'f) \<Rightarrow> ('s, 'e, 'a) op \<Rightarrow> ('s, 'f, 'a) op" where
  "map_errS g m s = (map_err g (fst (m s)), snd (m s))"

text \<open>\<open>for x in xs { body(x)?; }\<close>\<close>

primrec forS :: "'a list \<Rightarrow> ('a \<Rightarrow> ('s, 'e, unit) op) \<Rightarrow> ('s, 'e, unit) op" where
  "forS [] f = returnS ()"
| "forS (x # xs) f = bindS (f x) (\<lambda>_. forS xs f)"

lemma bindS_Inr:
  "bindS m f s = (Inr y, t) \<longleftrightarrow> (\<exists>x u. m s = (Inr x, u) \<and> f x u = (Inr y, t))"
  by (auto simp: bindS_def split: prod.splits sum.splits)

lemma bindS_Inl:
  "bindS m f s = (Inl e, t) \<longleftrightarrow>
     m s = (Inl e, t) \<or> (\<exists>x u. m s = (Inr x, u) \<and> f x u = (Inl e, t))"
  by (auto simp: bindS_def split: prod.splits sum.splits)

lemma bindS_simps [simp]:
  "bindS (returnS x) f = f x"
  "bindS (failS e) f = failS e"
  by (rule ext, simp add: bindS_def returnS_def failS_def)+

lemma bindS_assoc: "bindS (bindS m f) g = bindS m (\<lambda>x. bindS (f x) g)"
  by (rule ext) (auto simp: bindS_def split: prod.splits sum.splits)

lemma opS_apply [simp]:
  "returnS x s = (Inr x, s)" "failS e s = (Inl e, s)" "getS g s = (Inr (g s), s)"
  "modifyS h s = (Inr (), h s)" "liftS r s = (r, s)"
  by (simp_all add: returnS_def failS_def getS_def modifyS_def liftS_def)

text \<open>
  \<open>keeps I m\<close>: the operation preserves \<open>I\<close> on every exit, errors included;
  \<open>rel_kept R m\<close>: initial and final state are related by \<open>R\<close> on every exit.
\<close>

definition keeps :: "('s \<Rightarrow> bool) \<Rightarrow> ('s, 'e, 'a) op \<Rightarrow> bool" where
  "keeps I m \<longleftrightarrow> (\<forall>s. I s \<longrightarrow> I (snd (m s)))"

definition rel_kept :: "('s \<Rightarrow> 's \<Rightarrow> bool) \<Rightarrow> ('s, 'e, 'a) op \<Rightarrow> bool" where
  "rel_kept R m \<longleftrightarrow> (\<forall>s. R s (snd (m s)))"

lemma keepsD: "keeps I m \<Longrightarrow> I s \<Longrightarrow> I (snd (m s))"
  by (simp add: keeps_def)

lemma keeps_returnS [keeps_intros]: "keeps I (returnS x)"
  and keeps_failS [keeps_intros]: "keeps I (failS e)"
  and keeps_getS [keeps_intros]: "keeps I (getS f)"
  and keeps_liftS [keeps_intros]: "keeps I (liftS r)"
  by (simp_all add: keeps_def)

lemma keeps_bindS [keeps_intros]:
  "keeps I m \<Longrightarrow> (\<And>x. keeps I (f x)) \<Longrightarrow> keeps I (bindS m f)"
  by (fastforce simp: keeps_def bindS_def split: prod.splits sum.splits)

lemma keeps_map_errS [keeps_intros]: "keeps I m \<Longrightarrow> keeps I (map_errS g m)"
  by (simp add: keeps_def map_errS_def)

lemma keeps_if [keeps_intros]:
  "(b \<Longrightarrow> keeps I m) \<Longrightarrow> (\<not> b \<Longrightarrow> keeps I n) \<Longrightarrow> keeps I (if b then m else n)"
  by simp

lemma keeps_forS [keeps_intros]: "(\<And>x. x \<in> set xs \<Longrightarrow> keeps I (f x)) \<Longrightarrow> keeps I (forS xs f)"
  by (induction xs) (auto intro!: keeps_intros)

lemma rel_kept_bindS:
  assumes "\<And>a b c. R a b \<Longrightarrow> R b c \<Longrightarrow> R a c" "rel_kept R m" "\<And>x. rel_kept R (f x)"
  shows "rel_kept R (bindS m f)"
  unfolding rel_kept_def
proof
  fix s
  show "R s (snd (bindS m f s))"
  proof (cases "m s")
    case (Pair r t)
    with assms(2) have "R s t" by (metis rel_kept_def snd_conv)
    then show ?thesis using Pair assms(1,3)
      by (auto simp: bindS_def rel_kept_def split: sum.splits)
  qed
qed

section \<open>Splitting and joining byte strings\<close>

text \<open>\<open>str::split(c)\<close>: the pieces between separators, one piece for an empty string.\<close>

fun split_on :: "'a \<Rightarrow> 'a list \<Rightarrow> 'a list list" where
  "split_on c [] = [[]]"
| "split_on c (x # xs) =
     (if x = c then [] # split_on c xs
      else (case split_on c xs of [] \<Rightarrow> [[x]] | p # ps \<Rightarrow> (x # p) # ps))"

text \<open>\<open>[&str]::join(c)\<close>\<close>

fun join_with :: "'a \<Rightarrow> 'a list list \<Rightarrow> 'a list" where
  "join_with c [] = []"
| "join_with c [p] = p"
| "join_with c (p # q # ps) = p @ c # join_with c (q # ps)"

text \<open>\<open>str::rsplit_once(c)\<close>: the parts around the last separator.\<close>

fun rsplit_once :: "'a \<Rightarrow> 'a list \<Rightarrow> ('a list \<times> 'a list) option" where
  "rsplit_once c [] = None"
| "rsplit_once c (x # xs) =
     (case rsplit_once c xs of
        Some (l, r) \<Rightarrow> Some (x # l, r)
      | None \<Rightarrow> (if x = c then Some ([], xs) else None))"

text \<open>\<open>str::strip_prefix\<close>\<close>

fun strip_prefix :: "'a list \<Rightarrow> 'a list \<Rightarrow> 'a list option" where
  "strip_prefix [] xs = Some xs"
| "strip_prefix (p # ps) [] = None"
| "strip_prefix (p # ps) (x # xs) = (if p = x then strip_prefix ps xs else None)"

lemma strip_prefix_Some_iff: "strip_prefix p s = Some r \<longleftrightarrow> s = p @ r"
  by (induction p s rule: strip_prefix.induct) auto

lemma split_on_not_Nil [simp]: "split_on c s \<noteq> []"
  by (induction s) (auto split: list.splits)

lemma join_split_on [simp]: "join_with c (split_on c s) = s"
proof (induction s)
  case Nil
  then show ?case by simp
next
  case (Cons x xs)
  then show ?case
    by (auto split: list.splits) (metis join_with.simps(2,3) neq_Nil_conv append_Cons)+
qed

lemma split_on_free: "p \<in> set (split_on c s) \<Longrightarrow> c \<notin> set p"
  by (induction s arbitrary: p) (auto split: list.splits if_splits)

lemma split_on_append_sep:
  "c \<notin> set p \<Longrightarrow> split_on c (p @ c # s) = p # split_on c s"
  by (induction p) auto

lemma split_on_free_id: "c \<notin> set p \<Longrightarrow> split_on c p = [p]"
  by (induction p) auto

lemma split_join_with:
  "ps \<noteq> [] \<Longrightarrow> (\<forall>p \<in> set ps. c \<notin> set p) \<Longrightarrow> split_on c (join_with c ps) = ps"
  by (induction c ps rule: join_with.induct) (auto simp: split_on_append_sep split_on_free_id)

lemma split_on_append:
  "split_on c (s @ c # t) = split_on c s @ split_on c t"
  by (induction s) (auto split: list.splits)

lemma set_split_on: "x \<in> set s \<Longrightarrow> x = c \<or> (\<exists>p \<in> set (split_on c s). x \<in> set p)"
  by (induction s) (fastforce split: list.splits if_splits)+

lemma set_in_split_on: "p \<in> set (split_on c s) \<Longrightarrow> set p \<subseteq> set s"
  by (induction s arbitrary: p) (fastforce split: list.splits if_splits)+

lemma rsplit_once_None_iff: "rsplit_once c s = None \<longleftrightarrow> c \<notin> set s"
  by (induction s) (auto split: option.splits)

lemma rsplit_once_Some: "rsplit_once c s = Some (l, r) \<Longrightarrow> s = l @ c # r \<and> c \<notin> set r"
  by (induction s arbitrary: l r)
     (auto split: option.splits if_splits simp: rsplit_once_None_iff)

lemma rsplit_once_append: "c \<notin> set r \<Longrightarrow> rsplit_once c (l @ c # r) = Some (l, r)"
  by (induction l) (auto simp: rsplit_once_None_iff[THEN iffD2])

lemma join_with_append:
  "ps \<noteq> [] \<Longrightarrow> qs \<noteq> [] \<Longrightarrow> join_with c (ps @ qs) = join_with c ps @ c # join_with c qs"
proof (induction c ps rule: join_with.induct)
  case (2 c p)
  then show ?case by (cases qs) auto
qed auto

end
