(* ===== verification/OrdMap.thy ===== *)
theory OrdMap
  imports Prelude
begin

text \<open>
  \<open>std::collections::BTreeMap\<close> and \<open>BTreeSet\<close>.  A map is the list of its entries in strictly
  increasing key order, which is exactly what its iterators show; the locale \<open>ordered_map\<close>
  states the contract the components use (lookup after insertion, iteration in key order,
  extensionality), and the list model provides it.
\<close>

section \<open>The contract of an ordered map\<close>

locale ordered_map =
  fixes empty :: 'm
    and get :: "'m \<Rightarrow> 'k::linorder \<Rightarrow> 'v option"
    and ins :: "'k \<Rightarrow> 'v \<Rightarrow> 'm \<Rightarrow> 'm"
    and entries :: "'m \<Rightarrow> ('k \<times> 'v) list"
    and ok :: "'m \<Rightarrow> bool"
  assumes ok_empty: "ok empty"
    and ok_ins: "ok m \<Longrightarrow> ok (ins k v m)"
    and get_empty: "get empty k = None"
    and get_ins: "ok m \<Longrightarrow> get (ins k v m) = (get m)(k \<mapsto> v)"
    and entries_iff: "ok m \<Longrightarrow> (k, v) \<in> set (entries m) \<longleftrightarrow> get m k = Some v"
    and entries_sorted: "ok m \<Longrightarrow> sorted_wrt (<) (map fst (entries m))"
begin

lemma keys_iff: "ok m \<Longrightarrow> k \<in> set (map fst (entries m)) \<longleftrightarrow> get m k \<noteq> None"
  using entries_iff[of m k] by force

lemma keys_ins: "ok m \<Longrightarrow> set (map fst (entries (ins k v m))) = insert k (set (map fst (entries m)))"
  by (rule set_eqI) (simp only: keys_iff ok_ins get_ins insert_iff fun_upd_apply, auto)

lemma finite_dom: "ok m \<Longrightarrow> finite (dom (get m))"
proof -
  assume "ok m"
  then have "dom (get m) = set (map fst (entries m))" using keys_iff by blast
  then show ?thesis by (metis List.finite_set)
qed

lemma entries_distinct: "ok m \<Longrightarrow> distinct (map fst (entries m))"
  using entries_sorted strict_sorted_iff by blast

text \<open>Two maps with the same lookups are iterated in the same way.\<close>

lemma entries_ext:
  assumes "ok m" "ok n" "get m = get n"
  shows "entries m = entries n"
proof -
  have "set (entries m) = set (entries n)"
    using assms entries_iff by (metis subrelI subset_antisym)
  moreover have "inj_on fst (set (entries m) \<union> set (entries n))"
    using calculation entries_distinct[OF assms(2)] by (simp add: distinct_map)
  moreover have "sorted (map fst (entries m))" "sorted (map fst (entries n))"
    using assms(1,2) entries_sorted strict_sorted_iff by blast+
  ultimately show ?thesis
    using entries_distinct assms(1,2) by (metis map_sorted_distinct_set_unique)
qed

lemma ins_commute:
  assumes "ok m" "j \<noteq> k"
  shows "entries (ins j v (ins k w m)) = entries (ins k w (ins j v m))"
  by (rule entries_ext) (use assms in \<open>auto simp: ok_ins get_ins fun_upd_twist\<close>)

end

section \<open>The list model\<close>

type_synonym ('k, 'v) btree = "('k \<times> 'v) list"

definition bt_ok :: "('k::linorder, 'v) btree \<Rightarrow> bool" where
  "bt_ok m \<longleftrightarrow> sorted_wrt (<) (map fst m)"

fun bt_insert :: "'k::linorder \<Rightarrow> 'v \<Rightarrow> ('k, 'v) btree \<Rightarrow> ('k, 'v) btree" where
  "bt_insert k v [] = [(k, v)]"
| "bt_insert k v ((j, w) # m) =
     (if k < j then (k, v) # (j, w) # m
      else if k = j then (k, v) # m
      else (j, w) # bt_insert k v m)"

text \<open>Lookup is \<open>map_of\<close>, iteration is the list itself.\<close>

abbreviation bt_keys :: "('k, 'v) btree \<Rightarrow> 'k list" where
  "bt_keys m \<equiv> map fst m"

definition bt_contains :: "('k, 'v) btree \<Rightarrow> 'k \<Rightarrow> bool" where
  "bt_contains m k \<longleftrightarrow> map_of m k \<noteq> None"

lemma bt_get_insert [simp]: "map_of (bt_insert k v m) = (map_of m)(k \<mapsto> v)"
  by (induction k v m rule: bt_insert.induct) auto

lemma bt_keys_insert [simp]: "fst ` set (bt_insert k v m) = insert k (fst ` set m)"
  by (induction k v m rule: bt_insert.induct) auto

lemma bt_contains_insert [simp]: "bt_contains (bt_insert k v m) j \<longleftrightarrow> j = k \<or> bt_contains m j"
  by (auto simp: bt_contains_def)

lemma bt_ok_Nil [simp]: "bt_ok []"
  by (simp add: bt_ok_def)

lemma bt_ok_Cons: "bt_ok ((k, v) # m) \<longleftrightarrow> (\<forall>j \<in> fst ` set m. k < j) \<and> bt_ok m"
  by (auto simp: bt_ok_def)

lemma bt_ok_insert [simp]: "bt_ok m \<Longrightarrow> bt_ok (bt_insert k v m)"
  by (induction k v m rule: bt_insert.induct) (auto simp: bt_ok_Cons)

lemma bt_ok_distinct: "bt_ok m \<Longrightarrow> distinct (map fst m)"
  by (simp add: bt_ok_def strict_sorted_iff)

lemma bt_entry_iff: "bt_ok m \<Longrightarrow> (k, v) \<in> set m \<longleftrightarrow> map_of m k = Some v"
  by (simp add: bt_ok_distinct map_of_eq_Some_iff)

lemma bt_contains_iff: "bt_contains m k \<longleftrightarrow> k \<in> fst ` set m"
  by (simp add: bt_contains_def map_of_eq_None_iff)

lemma bt_insert_not_Nil [simp]: "bt_insert k v m \<noteq> []"
  by (cases "(k, v, m)" rule: bt_insert.cases) auto

lemma length_bt_insert:
  "length (bt_insert k v m) \<le> Suc (length m)"
  by (induction k v m rule: bt_insert.induct) auto

interpretation bt: ordered_map "[]" map_of bt_insert "\<lambda>m. m" bt_ok
  by unfold_locales (auto simp: bt_entry_iff, simp add: bt_ok_def)

section \<open>Ordered sets\<close>

text \<open>
  A \<open>BTreeSet\<close> is the strictly increasing list of its elements; \<open>insert\<close> is
  \<open>insort_insert\<close> and \<open>extend\<close> inserts in iteration order.
\<close>

definition bs_insert :: "'k::linorder \<Rightarrow> 'k list \<Rightarrow> 'k list" where
  "bs_insert k s = insort_insert k s"

definition bs_extend :: "'k::linorder list \<Rightarrow> 'k list \<Rightarrow> 'k list" where
  "bs_extend ks s = fold bs_insert ks s"

definition bs_ok :: "'k::linorder list \<Rightarrow> bool" where
  "bs_ok s \<longleftrightarrow> sorted_wrt (<) s"

lemma set_bs_insert [simp]: "set (bs_insert k s) = insert k (set s)"
  by (simp add: bs_insert_def set_insort_insert)

lemma bs_ok_Nil [simp]: "bs_ok []"
  by (simp add: bs_ok_def)

lemma bs_ok_insert [simp]: "bs_ok s \<Longrightarrow> bs_ok (bs_insert k s)"
  by (simp add: bs_ok_def bs_insert_def strict_sorted_iff sorted_insort_insert
      distinct_insort_insert)

lemma set_bs_extend [simp]: "set (bs_extend ks s) = set ks \<union> set s"
  by (induction ks arbitrary: s) (auto simp: bs_extend_def)

lemma bs_ok_extend [simp]: "bs_ok s \<Longrightarrow> bs_ok (bs_extend ks s)"
  by (induction ks arbitrary: s) (auto simp: bs_extend_def)

end
