(* ===== verification/Codec.thy ===== *)
theory Codec
  imports Prelude
begin

text \<open>
  Byte encodings.  The first section gives \<open>to_le_bytes\<close> and \<open>from_le_bytes\<close> of the standard
  library and the 32-byte digest arrays; the second states the interface every canonical
  encoder of the program implements (\<open>prefix_code\<close>: an encoding determines its value and where
  it ends) and the one of encoders that come with a decoder (\<open>codec\<close>), with the facts about
  sequences and options that the components share.
\<close>

section \<open>Machine words as bytes\<close>

primrec le_bytes :: "nat \<Rightarrow> 'a::len word \<Rightarrow> bytes" where
  "le_bytes 0 w = []"
| "le_bytes (Suc n) w = ucast w # le_bytes n (drop_bit 8 w)"

primrec le_word :: "bytes \<Rightarrow> 'a::len word" where
  "le_word [] = 0"
| "le_word (b # bs) = ucast b OR push_bit 8 (le_word bs)"

definition u16_bytes :: "u16 \<Rightarrow> bytes" where "u16_bytes = le_bytes 2"
definition u32_bytes :: "u32 \<Rightarrow> bytes" where "u32_bytes = le_bytes 4"
definition u64_bytes :: "u64 \<Rightarrow> bytes" where "u64_bytes = le_bytes 8"
definition i128_bytes :: "i128 \<Rightarrow> bytes" where "i128_bytes = le_bytes 16"

lemma length_le_bytes [simp]: "length (le_bytes n w) = n"
  by (induction n arbitrary: w) auto

lemma bit_le_word_bytes:
  "bit (le_word (le_bytes n (w::'a::len word)) :: 'a word) i \<longleftrightarrow> i < 8 * n \<and> bit w i"
proof (induction n arbitrary: w i)
  case 0
  then show ?case by simp
next
  case (Suc n)
  show ?case
  proof (cases "i < 8")
    case True
    then show ?thesis
      by (auto simp: bit_or_iff bit_push_bit_iff bit_ucast_iff dest: bit_imp_le_length)
  next
    case False
    then obtain j where j: "i = 8 + j" using le_Suc_ex not_less by blast
    show ?thesis
      using Suc[of "drop_bit 8 w" j]
      by (auto simp: j bit_or_iff bit_push_bit_iff bit_ucast_iff bit_drop_bit_eq
          dest: bit_imp_le_length)
  qed
qed

lemma le_word_bytes: "LENGTH('a) \<le> 8 * n \<Longrightarrow> le_word (le_bytes n (w::'a::len word)) = w"
  by (rule bit_word_eqI) (auto simp: bit_le_word_bytes)

lemma le_bytes_word:
  "length bs = n \<Longrightarrow> 8 * n \<le> LENGTH('a) \<Longrightarrow> le_bytes n (le_word bs :: 'a::len word) = bs"
proof (induction bs arbitrary: n)
  case Nil
  then show ?case by simp
next
  case (Cons b bs)
  then obtain m where n: "n = Suc m" "length bs = m" by (cases n) auto
  have fits: "8 \<le> LENGTH('a)" "8 * m \<le> LENGTH('a)" using Cons.prems n by auto
  have hd: "ucast (ucast b OR push_bit 8 (le_word bs) :: 'a word) = b"
    by (rule bit_word_eqI) (use fits in \<open>auto simp: bit_or_iff bit_push_bit_iff bit_ucast_iff\<close>)
  have tl: "le_bytes m (drop_bit 8 (ucast b OR push_bit 8 (le_word bs) :: 'a word))
      = le_bytes m (le_word bs :: 'a word)"
  proof -
    have cut: "le_bytes k (v :: 'a word) = le_bytes k w"
      if "\<forall>i < 8 * k. bit v i = bit w i" for k and v w :: "'a word"
      using that
    proof (induction k arbitrary: v w)
      case (Suc k)
      have "ucast v = (ucast w :: u8)"
        by (rule bit_word_eqI) (use Suc.prems in \<open>auto simp: bit_ucast_iff\<close>)
      moreover have "\<forall>i < 8 * k. bit (drop_bit 8 v) i = bit (drop_bit 8 w) i"
        using Suc.prems by (simp add: bit_drop_bit_eq)
      ultimately show ?case using Suc.IH by simp
    qed simp
    show ?thesis
      by (rule cut, intro allI impI) (use fits n Cons.prems in
          \<open>auto simp: bit_or_iff bit_push_bit_iff bit_ucast_iff bit_drop_bit_eq
            dest: bit_imp_le_length\<close>)
  qed
  show ?case using Cons.IH[OF n(2) fits(2)]
    by (simp only: n le_bytes.simps le_word.simps hd tl)
qed

lemma le_bytes_inj: "LENGTH('a) \<le> 8 * n \<Longrightarrow> le_bytes n (v::'a::len word) = le_bytes n w \<longleftrightarrow> v = w"
  by (metis le_word_bytes)

lemma length_ints [simp, codec_simps]:
  "length (u16_bytes a) = 2" "length (u32_bytes b) = 4" "length (u64_bytes c) = 8"
  "length (i128_bytes d) = 16"
  by (simp_all add: u16_bytes_def u32_bytes_def u64_bytes_def i128_bytes_def)

lemma le_word_ints [simp, codec_simps]:
  "le_word (u16_bytes a) = a" "le_word (u32_bytes b) = b" "le_word (u64_bytes c) = c"
  "le_word (i128_bytes d) = d"
  by (simp_all add: u16_bytes_def u32_bytes_def u64_bytes_def i128_bytes_def le_word_bytes)

section \<open>Digests\<close>

text \<open>
  A \<open>[u8; 32]\<close> is a 256-bit word read big-endian, so that Rust's derived (lexicographic) order
  on the array is the order of the words.  The identifier newtypes share this type.
\<close>

type_synonym digest = "256 word"

definition as_bytes :: "digest \<Rightarrow> bytes" where
  "as_bytes d = rev (le_bytes 32 d)"

definition from_bytes :: "bytes \<Rightarrow> digest" where
  "from_bytes bs = le_word (rev bs)"

lemma length_as_bytes [simp, codec_simps]: "length (as_bytes d) = 32"
  by (simp add: as_bytes_def)

lemma from_as_bytes [simp, codec_simps]: "from_bytes (as_bytes d) = d"
  by (simp add: as_bytes_def from_bytes_def le_word_bytes)

lemma as_from_bytes: "length bs = 32 \<Longrightarrow> as_bytes (from_bytes bs) = bs"
  by (simp add: as_bytes_def from_bytes_def le_bytes_word)

section \<open>Byte strings of text\<close>

text \<open>\<open>str::as_bytes\<close> and its inverse.\<close>

definition str_bytes :: "string \<Rightarrow> bytes" where
  "str_bytes s = map (\<lambda>c. of_char c) s"

definition bytes_str :: "bytes \<Rightarrow> string" where
  "bytes_str bs = map (\<lambda>b. char_of (unat b)) bs"

lemma bytes_str_bytes [simp]: "bytes_str (str_bytes s) = s"
proof -
  have "char_of (unat (of_char c :: u8)) = c" for c
  proof -
    have lt: "of_char c < (256::nat)" by (rule nat_of_char_less_256)
    have "(of_char c :: u8) = word_of_nat (of_char c)" by (metis of_nat_of_char)
    then have "unat (of_char c :: u8) = of_char c"
      using lt by (simp add: unat_of_nat take_bit_nat_eq_self)
    then show ?thesis by simp
  qed
  then show ?thesis by (simp add: bytes_str_def str_bytes_def comp_def)
qed

lemma str_bytes_str [simp]: "str_bytes (bytes_str bs) = bs"
proof -
  have "of_char (char_of (unat b)) = b" for b :: u8
  proof -
    have "unat b < 2 ^ LENGTH(8)" by (rule unsigned_less)
    then have lt: "unat b < 256" by simp
    have "(of_char (char_of (unat b)) :: u8) = word_of_nat (of_char (char_of (unat b)))"
      by (metis of_nat_of_char)
    also have "\<dots> = word_of_nat (unat b)"
      using lt by (simp add: of_char_of)
    finally show ?thesis by simp
  qed
  then show ?thesis by (simp add: bytes_str_def str_bytes_def comp_def)
qed

lemma length_str_bytes [simp]: "length (str_bytes s) = length s"
  by (simp add: str_bytes_def)

lemma length_bytes_str [simp]: "length (bytes_str b) = length b"
  by (simp add: bytes_str_def)

lemma str_bytes_inj: "str_bytes s = str_bytes t \<longleftrightarrow> s = t"
  by (metis bytes_str_bytes)

section \<open>Self-delimiting encodings\<close>

locale prefix_code =
  fixes enc :: "'a \<Rightarrow> bytes" and valid :: "'a \<Rightarrow> bool"
  assumes prefix_free: "valid x \<Longrightarrow> valid y \<Longrightarrow> enc x @ r = enc y @ s \<Longrightarrow> x = y \<and> r = s"
begin

lemma enc_inj: "valid x \<Longrightarrow> valid y \<Longrightarrow> enc x = enc y \<Longrightarrow> x = y"
  using prefix_free[of x y "[]" "[]"] by simp

text \<open>A sequence without a count is unambiguous when no encoding is empty.\<close>

lemma concat_inj:
  assumes "\<forall>x. enc x \<noteq> []"
  shows "\<forall>x \<in> set xs. valid x \<Longrightarrow> \<forall>y \<in> set ys. valid y \<Longrightarrow>
    concat (map enc xs) = concat (map enc ys) \<Longrightarrow> xs = ys"
proof (induction xs arbitrary: ys)
  case Nil
  then show ?case using assms by (cases ys) auto
next
  case (Cons x xs)
  have "ys \<noteq> []" using Cons.prems(3) assms by (intro notI) simp
  then obtain y ys' where ys: "ys = y # ys'" by (cases ys) auto
  have eq: "x = y \<and> concat (map enc xs) = concat (map enc ys')"
    by (rule prefix_free) (use Cons.prems ys in simp_all)
  have "xs = ys'" by (rule Cons.IH) (use Cons.prems ys eq in simp_all)
  then show ?case using eq ys by simp
qed

text \<open>A sequence of known length is self-delimiting.\<close>

lemma concat_prefix_free:
  "length xs = length ys \<Longrightarrow> \<forall>x \<in> set xs. valid x \<Longrightarrow> \<forall>y \<in> set ys. valid y \<Longrightarrow>
    concat (map enc xs) @ r = concat (map enc ys) @ s \<Longrightarrow> xs = ys \<and> r = s"
proof (induction xs ys rule: list_induct2)
  case (Cons x xs y ys)
  have "x = y \<and> concat (map enc xs) @ r = concat (map enc ys) @ s"
    by (rule prefix_free) (use Cons.prems in simp_all)
  then show ?case using Cons.IH Cons.prems by simp
qed simp

end

text \<open>With a decoder: for inputs that fit into the address space.\<close>

locale codec =
  fixes enc :: "'a \<Rightarrow> bytes" and dec :: "bytes \<Rightarrow> 'e + 'a \<times> bytes" and valid :: "'a \<Rightarrow> bool"
  assumes dec_enc: "valid x \<Longrightarrow> length (enc x @ rest) < 2 ^ 64 \<Longrightarrow> dec (enc x @ rest) = Ok (x, rest)"
    and enc_fits: "valid x \<Longrightarrow> length (enc x) < 2 ^ 64"
begin

lemma enc_shorter:
  assumes "valid x" "valid y" "enc x @ r = enc y @ s" "length (enc x) \<le> length (enc y)"
  shows "x = y \<and> r = s"
proof -
  have "take (length (enc x)) (enc y) = enc x"
    using arg_cong[OF assms(3), of "take (length (enc x))"] assms(4) by simp
  then obtain u where u: "enc y = enc x @ u" by (metis append_take_drop_id)
  have "dec (enc y) = Ok (y, [])" using dec_enc[of y "[]"] enc_fits[OF assms(2)] assms(2) by simp
  moreover have "dec (enc y) = Ok (x, u)"
    unfolding u by (rule dec_enc[OF assms(1)]) (use enc_fits[OF assms(2)] u in argo)
  ultimately have "x = y" by simp
  then show ?thesis using assms(3) by simp
qed

end

sublocale codec \<subseteq> prefix_code enc valid
proof
  fix x y r s
  assume "valid x" "valid y" "enc x @ r = enc y @ s"
  then show "x = y \<and> r = s"
    using enc_shorter[of x y r s] enc_shorter[of y x s r] by (cases "length (enc x) \<le> length (enc y)") auto
qed

lemma prefix_code_const_length:
  assumes "\<And>x. length (enc x) = n" "\<And>x y. valid x \<Longrightarrow> valid y \<Longrightarrow> enc x = enc y \<Longrightarrow> x = y"
  shows "prefix_code enc valid"
  by unfold_locales (metis append_eq_append_conv assms)

interpretation u64_code: prefix_code u64_bytes "\<lambda>_. True"
  by (rule prefix_code_const_length) (auto, metis le_word_ints(3))

interpretation u32_code: prefix_code u32_bytes "\<lambda>_. True"
  by (rule prefix_code_const_length) (auto, metis le_word_ints(2))

interpretation u16_code: prefix_code u16_bytes "\<lambda>_. True"
  by (rule prefix_code_const_length) (auto, metis le_word_ints(1))

interpretation i128_code: prefix_code i128_bytes "\<lambda>_. True"
  by (rule prefix_code_const_length) (auto, metis le_word_ints(4))

interpretation digest_code: prefix_code as_bytes "\<lambda>_. True"
  by (rule prefix_code_const_length) (auto, metis from_as_bytes)

lemma u64_bytes_append [simp]: "u64_bytes a @ r = u64_bytes b @ s \<longleftrightarrow> a = b \<and> r = s"
  using u64_code.prefix_free by blast

lemma u32_bytes_append [simp]: "u32_bytes a @ r = u32_bytes b @ s \<longleftrightarrow> a = b \<and> r = s"
  using u32_code.prefix_free by blast

lemma u16_bytes_append [simp]: "u16_bytes a @ r = u16_bytes b @ s \<longleftrightarrow> a = b \<and> r = s"
  using u16_code.prefix_free by blast

lemma i128_bytes_append [simp]: "i128_bytes a @ r = i128_bytes b @ s \<longleftrightarrow> a = b \<and> r = s"
  using i128_code.prefix_free by blast

lemma as_bytes_append [simp]: "as_bytes a @ r = as_bytes b @ s \<longleftrightarrow> a = b \<and> r = s"
  using digest_code.prefix_free by blast

lemma as_bytes_inj [simp]: "as_bytes a = as_bytes b \<longleftrightarrow> a = b"
  using digest_code.enc_inj by blast

text \<open>Optional values: a presence tag, then the value.\<close>

definition enc_option :: "('a \<Rightarrow> bytes) \<Rightarrow> 'a option \<Rightarrow> bytes" where
  "enc_option enc x = (case x of None \<Rightarrow> [0] | Some y \<Rightarrow> 1 # enc y)"

lemma prefix_code_option:
  assumes "prefix_code enc valid"
  shows "prefix_code (enc_option enc) (\<lambda>x. \<forall>y. x = Some y \<longrightarrow> valid y)"
proof
  fix x y r s
  assume h: "\<forall>z. x = Some z \<longrightarrow> valid z" "\<forall>z. y = Some z \<longrightarrow> valid z"
    "enc_option enc x @ r = enc_option enc y @ s"
  show "x = y \<and> r = s"
  proof (cases x; cases y)
    fix a b
    assume xy: "x = Some a" "y = Some b"
    with h have "a = b \<and> r = s"
      by (intro prefix_code.prefix_free[OF assms]) (simp_all add: enc_option_def)
    with xy show ?thesis by simp
  qed (use h in \<open>simp_all add: enc_option_def\<close>)
qed

end
