(* ===== verification/Paths.thy ===== *)
theory Paths
  imports OrdMap
begin

text \<open>
  Virtual paths (\<open>crates/vsh-types/src/lib.rs\<close>, type \<open>VPath\<close>): parsing and normalization,
  parent, final component, joining, subtree tests and rebasing.  The abstract view of a
  canonical path is its list of components (\<open>components\<close>); the lemmas relate every operation
  on the text to the operation on components.
\<close>

section \<open>The type and its order\<close>

datatype vpath = VPath (as_str: string)

instantiation vpath :: linorder
begin

definition less_eq_vpath :: "vpath \<Rightarrow> vpath \<Rightarrow> bool" where
  "less_eq_vpath p q \<longleftrightarrow> as_str p \<le> as_str q"

definition less_vpath :: "vpath \<Rightarrow> vpath \<Rightarrow> bool" where
  "less_vpath p q \<longleftrightarrow> as_str p < as_str q"

instance
  by standard (auto simp: less_eq_vpath_def less_vpath_def vpath.expand)

end

datatype vpath_error =
  Path_Empty | Path_Absolute | Path_EscapesRoot | Path_NulByte | Path_PlatformPrefix

abbreviation slash :: char where "slash \<equiv> CHR ''/''"
abbreviation backslash :: char where "backslash \<equiv> CHR 0x5C"
abbreviation nul :: char where "nul \<equiv> CHR 0x00"

section \<open>Operations\<close>

definition root :: vpath where "root = VPath ''.''"

definition is_root :: "vpath \<Rightarrow> bool" where
  "is_root p \<longleftrightarrow> as_str p = ''.''"

definition is_ascii_alphabetic :: "char \<Rightarrow> bool" where
  "is_ascii_alphabetic c \<longleftrightarrow>
     CHR ''A'' \<le> c \<and> c \<le> CHR ''Z'' \<or> CHR ''a'' \<le> c \<and> c \<le> CHR ''z''"

definition is_windows_prefix :: "string \<Rightarrow> bool" where
  "is_windows_prefix c \<longleftrightarrow> length c = 2 \<and> is_ascii_alphabetic (c ! 0) \<and> c ! 1 = CHR '':''"

text \<open>\<open>str::replace\<close> of every backslash by a slash.\<close>

definition portable_str :: "string \<Rightarrow> string" where
  "portable_str s = map (\<lambda>c. if c = backslash then slash else c) s"

text \<open>The component loop of \<open>VPath::normalize\<close>; the vector grows and shrinks at its end.\<close>

fun norm_components :: "string list \<Rightarrow> string list \<Rightarrow> vpath_error + string list" where
  "norm_components components [] = Ok components"
| "norm_components components (c # rest) =
     (if c = '''' \<or> c = ''.'' then norm_components components rest
      else if c = ''..'' then
        (if components = [] then Err Path_EscapesRoot
         else norm_components (butlast components) rest)
      else norm_components (components @ [c]) rest)"

definition normalize :: "string \<Rightarrow> vpath_error + vpath" where
  "normalize input =
     (if input = [] then Err Path_Empty
      else if nul \<in> set input then Err Path_NulByte
      else
        let portable = (if backslash \<in> set input then portable_str input else input) in
        if portable \<noteq> [] \<and> hd portable = slash then Err Path_Absolute
        else if is_windows_prefix (hd (split_on slash portable)) then Err Path_PlatformPrefix
        else if portable = ''.'' \<or>
            list_all (\<lambda>c. c \<noteq> '''' \<and> c \<noteq> ''.'' \<and> c \<noteq> ''..'') (split_on slash portable)
        then Ok (VPath portable)
        else bindR (norm_components [] (split_on slash portable)) (\<lambda>components.
          Ok (VPath (if components = [] then ''.'' else join_with slash components))))"

definition parse :: "string \<Rightarrow> vpath_error + vpath" where
  "parse input = normalize input"

definition parent :: "vpath \<Rightarrow> vpath option" where
  "parent p =
     (if is_root p then None
      else case rsplit_once slash (as_str p) of
        Some (par, _) \<Rightarrow> Some (VPath par)
      | None \<Rightarrow> Some (VPath ''.''))"

definition file_name :: "vpath \<Rightarrow> string option" where
  "file_name p = (if is_root p then None else Some (last (split_on slash (as_str p))))"

definition join :: "vpath \<Rightarrow> string \<Rightarrow> vpath_error + vpath" where
  "join p child =
     (let combined = (if is_root p then child else as_str p @ slash # child)
      in normalize combined)"

definition is_within :: "vpath \<Rightarrow> vpath \<Rightarrow> bool" where
  "is_within p ancestor \<longleftrightarrow>
     is_root ancestor \<or> p = ancestor \<or>
     (case strip_prefix (as_str ancestor) (as_str p) of
        Some sfx \<Rightarrow> sfx \<noteq> [] \<and> hd sfx = slash
      | None \<Rightarrow> False)"

definition relative_to :: "vpath \<Rightarrow> vpath \<Rightarrow> string option" where
  "relative_to p ancestor =
     (if p = ancestor then Some []
      else if is_root ancestor then Some (as_str p)
      else Option.bind (strip_prefix (as_str ancestor) (as_str p)) (strip_prefix [slash]))"

definition rebase :: "vpath \<Rightarrow> vpath \<Rightarrow> vpath \<Rightarrow> vpath_error + vpath option" where
  "rebase p source target =
     (case relative_to p source of
        None \<Rightarrow> Ok None
      | Some sfx \<Rightarrow>
          if sfx = [] then Ok (Some target)
          else bindR (join target sfx) (\<lambda>q. Ok (Some q)))"

section \<open>Canonical paths and their components\<close>

definition comp_ok :: "string \<Rightarrow> bool" where
  "comp_ok c \<longleftrightarrow> c \<noteq> '''' \<and> c \<noteq> ''.'' \<and> c \<noteq> ''..'' \<and>
     slash \<notin> set c \<and> backslash \<notin> set c \<and> nul \<notin> set c"

definition components :: "vpath \<Rightarrow> string list" where
  "components p = (if is_root p then [] else split_on slash (as_str p))"

definition of_components :: "string list \<Rightarrow> vpath" where
  "of_components cs = (if cs = [] then root else VPath (join_with slash cs))"

text \<open>The representation invariant of \<open>VPath\<close>.\<close>

definition vpath_ok :: "vpath \<Rightarrow> bool" where
  "vpath_ok p \<longleftrightarrow> list_all comp_ok (components p)"

lemma vpath_ok_root [simp]: "vpath_ok root"
  by (simp add: vpath_ok_def components_def is_root_def root_def)

lemma is_root_root [simp]: "is_root root"
  by (simp add: is_root_def root_def)

lemma is_root_iff: "is_root p \<longleftrightarrow> p = root"
  by (cases p) (simp add: is_root_def root_def)

lemma components_root [simp]: "components root = []"
  by (simp add: components_def)

lemma comp_ok_slash: "comp_ok c \<Longrightarrow> slash \<notin> set c"
  by (simp add: comp_ok_def)

lemma of_components_components [simp]: "of_components (components p) = p"
  by (cases p) (simp add: of_components_def components_def is_root_def root_def)

lemma join_with_eq_dot:
  "list_all comp_ok cs \<Longrightarrow> cs \<noteq> [] \<Longrightarrow> join_with slash cs \<noteq> ''.''"
proof
  assume cs: "list_all comp_ok cs" "cs \<noteq> []" and dot: "join_with slash cs = ''.''"
  have "split_on slash (join_with slash cs) = cs"
    by (rule split_join_with) (use cs in \<open>auto simp: list_all_iff comp_ok_def\<close>)
  then show False using cs by (simp add: dot comp_ok_def list_all_iff) (metis list.set_intros(1))
qed

lemma components_of_components [simp]:
  assumes "list_all comp_ok cs" shows "components (of_components cs) = cs"
proof (cases "cs = []")
  case False
  then have "split_on slash (join_with slash cs) = cs"
    using assms by (intro split_join_with) (auto simp: list_all_iff comp_ok_def)
  then show ?thesis
    using False assms join_with_eq_dot by (simp add: components_def of_components_def is_root_def)
qed (simp add: of_components_def)

lemma vpath_ok_of_components: "list_all comp_ok cs \<Longrightarrow> vpath_ok (of_components cs)"
  by (simp add: vpath_ok_def)

lemma components_inj: "components p = components q \<Longrightarrow> p = q"
  by (metis of_components_components)

lemma components_Nil_iff: "vpath_ok p \<Longrightarrow> components p = [] \<longleftrightarrow> p = root"
  by (metis components_inj components_root)

section \<open>Normalization\<close>

text \<open>A component that normalization keeps as it is.\<close>

abbreviation plain_comp :: "string \<Rightarrow> bool" where
  "plain_comp c \<equiv> c \<noteq> '''' \<and> c \<noteq> ''.'' \<and> c \<noteq> ''..''"

lemma norm_components_plain:
  "list_all plain_comp cs \<Longrightarrow> norm_components acc cs = Ok (acc @ cs)"
  by (induction cs arbitrary: acc) auto

lemma norm_components_ok:
  "norm_components acc cs = Ok out \<Longrightarrow> list_all comp_ok acc \<Longrightarrow>
   \<forall>c \<in> set cs. slash \<notin> set c \<and> backslash \<notin> set c \<and> nul \<notin> set c \<Longrightarrow> list_all comp_ok out"
proof (induction acc cs rule: norm_components.induct)
  case (2 acc c rest)
  have rest: "\<forall>c \<in> set rest. slash \<notin> set c \<and> backslash \<notin> set c \<and> nul \<notin> set c"
    using 2(6) by simp
  consider "c = '''' \<or> c = ''.''" | "\<not> (c = '''' \<or> c = ''.'')" "c = ''..''" | "plain_comp c"
    by blast
  then show ?case
  proof cases
    case 1
    then show ?thesis using 2(1,4,5) rest by simp
  next
    case 2
    moreover have "list_all comp_ok (butlast acc)"
      using \<open>list_all comp_ok acc\<close> by (auto simp: list_all_iff dest: in_set_butlastD)
    ultimately show ?thesis using "2.IH"(2) "2.prems"(1) rest by (simp split: if_splits)
  next
    case 3
    then have "list_all comp_ok (acc @ [c])" using 2(5,6) by (simp add: comp_ok_def[of c])
    then show ?thesis using 2(3,4) 3 rest by simp
  qed
qed simp

text \<open>
  The declarative reading of the escape check: some initial run of components has more
  parent steps than names.
\<close>

definition names :: "string list \<Rightarrow> nat" where
  "names cs = length (filter plain_comp cs)"

definition ups :: "string list \<Rightarrow> nat" where
  "ups cs = length (filter (\<lambda>c. c = ''..'') cs)"

definition climbs :: "nat \<Rightarrow> string list \<Rightarrow> bool" where
  "climbs d cs \<longleftrightarrow> (\<exists>n \<le> length cs. d + names (take n cs) < ups (take n cs))"

lemma climbs_Nil [simp]: "\<not> climbs d []"
  by (simp add: climbs_def names_def ups_def)

lemma climbs_Cons:
  "climbs d (c # cs) \<longleftrightarrow>
     (if c = '''' \<or> c = ''.'' then climbs d cs
      else if c = ''..'' then d = 0 \<or> climbs (d - 1) cs
      else climbs (Suc d) cs)"
proof -
  have shift: "climbs d (c # cs) \<longleftrightarrow>
      (\<exists>n \<le> length cs. d + names (c # take n cs) < ups (c # take n cs))" (is "_ \<longleftrightarrow> ?R")
  proof
    assume "climbs d (c # cs)"
    then obtain n where n: "n \<le> Suc (length cs)"
      "d + names (take n (c # cs)) < ups (take n (c # cs))" by (auto simp: climbs_def)
    then obtain m where "n = Suc m" by (cases n) (auto simp: ups_def)
    then show ?R using n by auto
  next
    assume ?R
    then obtain n where "n \<le> length cs" "d + names (c # take n cs) < ups (c # take n cs)"
      by blast
    then show "climbs d (c # cs)"
      unfolding climbs_def by (intro exI[of _ "Suc n"]) simp
  qed
  show ?thesis
  proof (cases "c = ''..''")
    case True
    then show ?thesis
      unfolding shift unfolding climbs_def
      by (cases d) (auto simp: names_def ups_def intro!: exI[of _ 0])
  next
    case False
    then show ?thesis unfolding shift unfolding climbs_def by (auto simp: names_def ups_def)
  qed
qed

lemma norm_components_Err_iff:
  "norm_components acc cs = Err e \<longleftrightarrow> e = Path_EscapesRoot \<and> climbs (length acc) cs"
  by (induction acc cs rule: norm_components.induct) (auto simp: climbs_Cons)

lemma hd_split_portable: "portable_str s = s" if "backslash \<notin> set s"
  using that by (induction s) (auto simp: portable_str_def)

lemma portable_str_chars:
  "backslash \<notin> set (portable_str s)" "nul \<notin> set s \<Longrightarrow> nul \<notin> set (portable_str s)"
  by (auto simp: portable_str_def)

text \<open>Normalization without the fast path, as the component loop alone gives it.\<close>

definition normalize_ref :: "string \<Rightarrow> vpath_error + vpath" where
  "normalize_ref input =
     (if input = [] then Err Path_Empty
      else if nul \<in> set input then Err Path_NulByte
      else if hd (portable_str input) = slash then Err Path_Absolute
      else if is_windows_prefix (hd (split_on slash (portable_str input)))
      then Err Path_PlatformPrefix
      else bindR (norm_components [] (split_on slash (portable_str input)))
        (\<lambda>cs. Ok (of_components cs)))"

lemma normalize_eq_ref: "normalize input = normalize_ref input"
proof -
  define s where "s = portable_str input"
  have s: "(if backslash \<in> set input then portable_str input else input) = s"
    by (simp add: s_def hd_split_portable)
  have ne: "input \<noteq> [] \<Longrightarrow> s \<noteq> []" by (simp add: s_def portable_str_def)
  have fast: "bindR (norm_components [] (split_on slash s)) (\<lambda>cs. Ok (of_components cs))
      = Ok (VPath s)"
    if "s = ''.'' \<or> list_all plain_comp (split_on slash s)"
    using that
  proof
    assume "s = ''.''"
    then show ?thesis by (simp add: of_components_def root_def)
  next
    assume all: "list_all plain_comp (split_on slash s)"
    then show ?thesis by (simp add: norm_components_plain of_components_def)
  qed
  have slow: "VPath (if cs = [] then ''.'' else join_with slash cs) = of_components cs" for cs
    by (simp add: of_components_def root_def)
  have both: "(if s = ''.'' \<or> list_all plain_comp (split_on slash s) then Ok (VPath s)
      else bindR (norm_components [] (split_on slash s)) (\<lambda>cs. Ok (of_components cs)))
    = bindR (norm_components [] (split_on slash s)) (\<lambda>cs. Ok (of_components cs))"
    using fast by presburger
  show ?thesis
    unfolding normalize_def normalize_ref_def s Let_def
    unfolding slow s_def[symmetric] both
    using ne by (cases "input = []") (simp_all only: refl if_True if_False simp_thms)
qed

lemma normalize_ok: "normalize s = Ok p \<Longrightarrow> vpath_ok p"
proof -
  assume "normalize s = Ok p"
  then obtain cs where cs: "norm_components [] (split_on slash (portable_str s)) = Ok cs"
    and p: "p = of_components cs" and nul: "nul \<notin> set s"
    unfolding normalize_eq_ref normalize_ref_def by (auto simp: bindR_Inr_iff split: if_splits)
  have "list_all comp_ok cs"
  proof (rule norm_components_ok[OF cs])
    show "\<forall>c \<in> set (split_on slash (portable_str s)).
        slash \<notin> set c \<and> backslash \<notin> set c \<and> nul \<notin> set c"
    proof
      fix c assume c: "c \<in> set (split_on slash (portable_str s))"
      from split_on_free[OF c] set_in_split_on[OF c] portable_str_chars(1)[of s]
        portable_str_chars(2)[OF nul]
      show "slash \<notin> set c \<and> backslash \<notin> set c \<and> nul \<notin> set c" by (metis subsetD)
    qed
  qed simp
  then show "vpath_ok p" by (simp add: p vpath_ok_of_components)
qed

text \<open>Paths whose first component is not a drive prefix.\<close>

definition no_drive :: "string list \<Rightarrow> bool" where
  "no_drive cs \<longleftrightarrow> cs = [] \<or> \<not> is_windows_prefix (hd cs)"

lemma join_with_chars:
  "x \<in> set (join_with c ps) \<Longrightarrow> x = c \<or> (\<exists>p \<in> set ps. x \<in> set p)"
  by (induction c ps rule: join_with.induct) auto

lemma join_with_eq_Nil: "join_with c ps = [] \<longleftrightarrow> ps = [] \<or> ps = [[]]"
  by (induction c ps rule: join_with.induct) auto

lemma hd_join_with: "ps \<noteq> [] \<Longrightarrow> hd ps \<noteq> [] \<Longrightarrow> hd (join_with c ps) = hd (hd ps)"
  by (induction c ps rule: join_with.induct) auto

lemma normalize_components:
  assumes "list_all comp_ok cs" "cs \<noteq> []" "no_drive cs"
  shows "normalize (join_with slash cs) = Ok (of_components cs)"
proof -
  let ?s = "join_with slash cs"
  have ok: "\<forall>c \<in> set cs. comp_ok c" using assms(1) by (simp add: list_all_iff)
  have split: "split_on slash ?s = cs"
    by (rule split_join_with) (use assms in \<open>auto simp: list_all_iff comp_ok_def\<close>)
  have bs: "backslash \<notin> set ?s" "nul \<notin> set ?s"
    using ok join_with_chars[of backslash slash cs] join_with_chars[of nul slash cs]
    by (auto simp: comp_ok_def)
  have hd: "hd cs \<in> set cs" using assms(2) by simp
  have hd_ne: "hd cs \<noteq> []" and hd_slash: "slash \<notin> set (hd cs)"
    using ok hd by (auto simp: comp_ok_def)
  then have ne: "?s \<noteq> []" using assms(2) by (auto simp: join_with_eq_Nil)
  have "hd ?s \<noteq> slash"
    using hd_ne hd_slash assms(2) by (metis hd_join_with list.set_sel(1))
  moreover have "list_all plain_comp cs" using ok by (auto simp: list_all_iff comp_ok_def)
  ultimately show ?thesis
    unfolding normalize_eq_ref normalize_ref_def hd_split_portable[OF bs(1)]
    using ne bs assms(3,2) by (simp add: split norm_components_plain no_drive_def)
qed

lemma parse_canonical_path:
  assumes "vpath_ok p" "no_drive (components p)" shows "parse (as_str p) = Ok p"
proof (cases "p = root")
  case True
  then show ?thesis by (simp add: parse_def root_def normalize_def is_windows_prefix_def)
next
  case False
  then have ne: "components p \<noteq> []" using assms(1) components_Nil_iff by blast
  then have "as_str p = join_with slash (components p)"
    by (simp add: components_def split: if_splits)
  then show ?thesis
    using normalize_components[OF _ ne assms(2)] assms(1) by (simp add: parse_def vpath_ok_def)
qed

section \<open>Operations on components\<close>

lemma as_str_join: "p \<noteq> root \<Longrightarrow> as_str p = join_with slash (components p)"
  by (simp add: components_def is_root_iff)

lemma components_split: "p \<noteq> root \<Longrightarrow> components p = split_on slash (as_str p)"
  by (simp add: components_def is_root_iff)

lemma components_not_Nil: "p \<noteq> root \<Longrightarrow> components p \<noteq> []"
  by (simp add: components_split)

lemma below_iff:
  assumes "a \<noteq> root" "p \<noteq> root"
  shows "as_str p = as_str a @ slash # r \<longleftrightarrow>
    (\<exists>es. es \<noteq> [] \<and> components p = components a @ es \<and> r = join_with slash es)" (is "_ = ?R")
proof
  assume eq: "as_str p = as_str a @ slash # r"
  have "components p = components a @ split_on slash r"
    using assms by (simp add: components_split eq split_on_append)
  then show ?R by (intro exI[of _ "split_on slash r"]) simp
next
  assume ?R
  then show "as_str p = as_str a @ slash # r"
    using assms by (auto simp: as_str_join join_with_append components_not_Nil)
qed

lemma root_not_below:
  assumes "vpath_ok a" "a \<noteq> root" shows "as_str root \<noteq> as_str a @ slash # r"
proof
  assume "as_str root = as_str a @ slash # r"
  then have "as_str a = []" by (cases "as_str a") (auto simp: root_def)
  then have "components a = [[]]" using assms(2) by (simp add: components_split)
  then show False using assms(1) by (simp add: vpath_ok_def comp_ok_def)
qed

lemma strictly_below:
  assumes "vpath_ok a" "vpath_ok p" "a \<noteq> root"
  shows "as_str p = as_str a @ slash # r \<longleftrightarrow>
    (\<exists>es. es \<noteq> [] \<and> components p = components a @ es \<and> r = join_with slash es)"
  using assms below_iff root_not_below components_not_Nil
  by (cases "p = root") auto

lemma is_within_iff_prefix:
  assumes "vpath_ok p" "vpath_ok a"
  shows "is_within p a \<longleftrightarrow> prefix (components a) (components p)"
proof (cases "a = root \<or> p = a")
  case True
  then show ?thesis by (auto simp: is_within_def is_root_iff)
next
  case False
  have "is_within p a \<longleftrightarrow> (\<exists>r. as_str p = as_str a @ slash # r)"
    using False
    by (auto simp: is_within_def is_root_iff strip_prefix_Some_iff split: option.splits)
       (metis list.exhaust_sel strip_prefix_Some_iff option.distinct(1))+
  also have "\<dots> \<longleftrightarrow> prefix (components a) (components p)"
    using False assms strictly_below components_inj by (fastforce simp: prefix_def)
  finally show ?thesis .
qed

lemma relative_to_iff:
  assumes "vpath_ok p" "vpath_ok a"
  shows "relative_to p a = (if prefix (components a) (components p)
    then Some (join_with slash (drop (length (components a)) (components p))) else None)"
proof (cases "a = root \<or> p = a")
  case True
  then show ?thesis by (auto simp: relative_to_def is_root_iff as_str_join)
next
  case False
  have "relative_to p a = Some r \<longleftrightarrow> as_str p = as_str a @ slash # r" for r
    using False
    by (auto simp: relative_to_def is_root_iff strip_prefix_Some_iff bind_eq_Some_conv)
  then have rel: "relative_to p a = Some r \<longleftrightarrow>
      (\<exists>es. es \<noteq> [] \<and> components p = components a @ es \<and> r = join_with slash es)" for r
    using False assms strictly_below by auto
  show ?thesis
  proof (cases "prefix (components a) (components p)")
    case True
    then obtain es where es: "components p = components a @ es" by (auto simp: prefix_def)
    then have "es \<noteq> []" using False components_inj by auto
    then show ?thesis using rel es by auto
  next
    case False
    then have "relative_to p a \<noteq> Some r" for r using rel by (auto simp: prefix_def)
    then show ?thesis using False by auto
  qed
qed

lemma no_drive_append: "cs \<noteq> [] \<Longrightarrow> no_drive (cs @ ds) \<longleftrightarrow> no_drive cs"
  by (simp add: no_drive_def)

text \<open>Joining a canonical relative text appends its components.\<close>

lemma join_components:
  assumes "vpath_ok p" "list_all comp_ok cs" "cs \<noteq> []" "no_drive (components p @ cs)"
  shows "join p (join_with slash cs) = Ok (of_components (components p @ cs))"
proof -
  have "(if is_root p then join_with slash cs else as_str p @ slash # join_with slash cs)
      = join_with slash (components p @ cs)"
    using assms(3) components_not_Nil[of p]
    by (auto simp: is_root_iff join_with_append as_str_join)
  then show ?thesis
    using normalize_components[of "components p @ cs"] assms
    by (simp add: join_def vpath_ok_def)
qed

lemma join_ok: "join p child = Ok q \<Longrightarrow> vpath_ok q"
  by (auto simp: join_def Let_def intro: normalize_ok)

lemma rebase_components:
  assumes "vpath_ok p" "vpath_ok source" "vpath_ok target"
    and "prefix (components source) (components p)"
    and "no_drive (components target @ drop (length (components source)) (components p))"
  shows "rebase p source target =
    Ok (Some (of_components (components target @ drop (length (components source)) (components p))))"
proof -
  let ?es = "drop (length (components source)) (components p)"
  have ok: "list_all comp_ok ?es"
    using assms(1) by (auto simp: vpath_ok_def list_all_iff dest: in_set_dropD)
  have rel: "relative_to p source = Some (join_with slash ?es)"
    using assms relative_to_iff by simp
  show ?thesis
  proof (cases "?es = []")
    case True
    then show ?thesis by (simp add: rebase_def rel)
  next
    case False
    then have "join_with slash ?es \<noteq> []"
      using ok by (cases ?es) (auto simp: join_with_eq_Nil comp_ok_def)
    then show ?thesis
      using join_components[OF assms(3) ok False assms(5)] by (simp add: rebase_def rel)
  qed
qed

lemma rebase_outside:
  "vpath_ok p \<Longrightarrow> vpath_ok source \<Longrightarrow> \<not> prefix (components source) (components p) \<Longrightarrow>
   rebase p source target = Ok None"
  by (simp add: rebase_def relative_to_iff)

lemma rebase_ok: "vpath_ok target \<Longrightarrow> rebase p source target = Ok (Some q) \<Longrightarrow> vpath_ok q"
  by (auto simp: rebase_def bindR_Inr_iff split: option.splits if_splits intro: join_ok)

lemma comp_ok_no_slash: "vpath_ok p \<Longrightarrow> c \<in> set (components p) \<Longrightarrow> slash \<notin> set c"
  by (auto simp: vpath_ok_def list_all_iff comp_ok_def)

lemma parent_components:
  assumes "vpath_ok p" "p \<noteq> root"
  shows "parent p = Some (of_components (butlast (components p)))"
proof -
  have ne: "components p \<noteq> []" using assms components_not_Nil by blast
  let ?b = "butlast (components p)" and ?l = "last (components p)"
  have l: "slash \<notin> set ?l" using assms(1) ne by (intro comp_ok_no_slash) auto
  show ?thesis
  proof (cases "?b = []")
    case True
    then have "components p = [?l]" using ne by (metis append_butlast_last_id append_Nil)
    then have "as_str p = ?l" using assms(2) as_str_join by (metis join_with.simps(2))
    then have "rsplit_once slash (as_str p) = None" using l by (simp add: rsplit_once_None_iff)
    then show ?thesis
      using True assms(2) by (simp add: parent_def is_root_iff of_components_def root_def)
  next
    case False
    have "as_str p = join_with slash ?b @ slash # ?l"
      using False ne join_with_append[of ?b "[?l]" slash] assms(2)
      by (simp add: as_str_join)
    then have "rsplit_once slash (as_str p) = Some (join_with slash ?b, ?l)"
      using l rsplit_once_append by simp
    then show ?thesis
      using False assms(2) by (simp add: parent_def is_root_iff of_components_def)
  qed
qed

lemma components_parent:
  "vpath_ok p \<Longrightarrow> p \<noteq> root \<Longrightarrow> components (of_components (butlast (components p)))
    = butlast (components p)"
  by (rule components_of_components) (auto simp: vpath_ok_def list_all_iff dest: in_set_butlastD)

lemma parent_root [simp]: "parent root = None"
  by (simp add: parent_def)

lemma parent_ok: "vpath_ok p \<Longrightarrow> parent p = Some q \<Longrightarrow> vpath_ok q"
proof (cases "p = root")
  case False
  assume "vpath_ok p" "parent p = Some q"
  moreover from this have "components q = butlast (components p)"
    using False parent_components[of p] components_parent[of p] by auto
  ultimately show ?thesis by (auto simp: vpath_ok_def list_all_iff dest: in_set_butlastD)
qed simp

lemma file_name_components:
  "p \<noteq> root \<Longrightarrow> file_name p = Some (last (components p))"
  by (simp add: file_name_def is_root_iff components_split)

lemma parent_join_file_name:
  assumes "vpath_ok p" "p \<noteq> root" "parent p = Some q" "file_name p = Some n"
    "no_drive (components p)"
  shows "join q n = Ok p"
proof -
  have ne: "components p \<noteq> []" using assms(2) components_not_Nil by blast
  have q: "components q = butlast (components p)" "vpath_ok q"
    using assms(1,2,3) parent_components[of p] components_parent[of p] parent_ok[of p] by auto
  have n: "n = last (components p)" using assms(2,4) file_name_components by simp
  have "comp_ok n" using assms(1) ne by (auto simp: n vpath_ok_def list_all_iff)
  then have "join q (join_with slash [n]) = Ok (of_components (components q @ [n]))"
    using q assms(5) ne by (intro join_components) (auto simp: n)
  then show ?thesis using ne by (simp add: q n)
qed

section \<open>Ranges of keys\<close>

text \<open>
  In the order of strings the texts with a given prefix are contiguous and start at the
  prefix itself: the facts behind every range query over paths.
\<close>

lemma prefix_imp_le: "prefix (p::string) s \<Longrightarrow> p \<le> s"
proof (induction p arbitrary: s)
  case Nil
  then show ?case by simp
next
  case (Cons a p)
  then obtain t where "s = a # t" "prefix p t" by (cases s) auto
  then show ?case using Cons.IH by simp
qed

lemma prefix_convex:
  "(p::string) \<le> s \<Longrightarrow> s \<le> t \<Longrightarrow> prefix p t \<Longrightarrow> prefix p s"
proof (induction p arbitrary: s t)
  case Nil
  then show ?case by simp
next
  case (Cons a p)
  then obtain t' where t: "t = a # t'" "prefix p t'" by (cases t) auto
  obtain b s' where s: "s = b # s'" using Cons.prems(1) by (cases s) auto
  have "a = b" using Cons.prems(1,2) s t by auto
  then show ?case using Cons s t by auto
qed

end
