(* ===== verification/Types.thy ===== *)
theory Types
  imports Paths Codec
begin

text \<open>
  The value types of \<open>crates/vsh-types/src/lib.rs\<close>: node kinds, host stamps, node states with
  their canonical encoding, diff entries, the textual form of digests, and the transaction
  binding whose canonical bytes every approval and commit is bound to.  The BLAKE3 hash is a
  parameter \<open>blake3\<close> of the definitions that use it.
\<close>

section \<open>Node states\<close>

datatype node_kind = File | Directory | Symlink

fun canonical_tag :: "node_kind \<Rightarrow> u8" where
  "canonical_tag File = 1"
| "canonical_tag Directory = 2"
| "canonical_tag Symlink = 3"

record platform_file_id =
  high :: u64
  low :: u64

record file_stamp =
  stamp_kind :: node_kind
  stamp_size :: u64
  stamp_mode :: u32
  mtime_ns :: i128
  ctime_ns :: "i128 option"
  file_id :: platform_file_id

datatype content_version = Blob digest | Stamp file_stamp

record node_state =
  kind :: node_kind
  nsize :: u64
  mode :: u32
  content :: "content_version option"

definition directory_state :: "u32 \<Rightarrow> node_state" where
  "directory_state m = \<lparr>kind = Directory, nsize = 0, mode = m, content = None\<rparr>"

definition file_state :: "digest \<Rightarrow> u64 \<Rightarrow> u32 \<Rightarrow> node_state" where
  "file_state blob n m = \<lparr>kind = File, nsize = n, mode = m, content = Some (Blob blob)\<rparr>"

definition symlink_state :: "digest \<Rightarrow> u64 \<Rightarrow> u32 \<Rightarrow> node_state" where
  "symlink_state blob n m = \<lparr>kind = Symlink, nsize = n, mode = m, content = Some (Blob blob)\<rparr>"

definition from_stamp :: "file_stamp \<Rightarrow> node_state" where
  "from_stamp st = \<lparr>kind = stamp_kind st, nsize = stamp_size st, mode = stamp_mode st,
     content = Some (Stamp st)\<rparr>"

definition with_mode :: "node_state \<Rightarrow> u32 \<Rightarrow> node_state" where
  "with_mode st m = st\<lparr>mode := m\<rparr>"

definition with_blob :: "node_state \<Rightarrow> digest \<Rightarrow> u64 \<Rightarrow> node_state option" where
  "with_blob st blob n = (case kind st of
     Directory \<Rightarrow> None
   | _ \<Rightarrow> Some \<lparr>kind = kind st, nsize = n, mode = mode st, content = Some (Blob blob)\<rparr>)"

definition content_equivalent :: "node_state \<Rightarrow> node_state \<Rightarrow> bool" where
  "content_equivalent a b \<longleftrightarrow> kind a = kind b \<and> nsize a = nsize b \<and> content a = content b"

definition encode_stamp :: "file_stamp \<Rightarrow> bytes" where
  "encode_stamp st =
     canonical_tag (stamp_kind st) # u64_bytes (stamp_size st) @ u32_bytes (stamp_mode st) @
     i128_bytes (mtime_ns st) @
     (case ctime_ns st of Some v \<Rightarrow> 1 # i128_bytes v | None \<Rightarrow> [0]) @
     u64_bytes (high (file_id st)) @ u64_bytes (low (file_id st))"

definition encode_canonical :: "node_state \<Rightarrow> bytes" where
  "encode_canonical st =
     canonical_tag (kind st) # u64_bytes (nsize st) @ u32_bytes (mode st) @
     (case content st of
        None \<Rightarrow> [0]
      | Some (Blob blob) \<Rightarrow> 1 # as_bytes blob
      | Some (Stamp stamp) \<Rightarrow> 2 # encode_stamp stamp)"

lemma canonical_tag_inj [simp]: "canonical_tag a = canonical_tag b \<longleftrightarrow> a = b"
  by (cases a; cases b) auto

lemma encode_stamp_prefix_free:
  "encode_stamp a @ r = encode_stamp b @ s \<longleftrightarrow> a = b \<and> r = s"
  by (auto simp: encode_stamp_def split: option.splits
      intro!: file_stamp.equality platform_file_id.equality)

lemma encode_canonical_prefix_free:
  "encode_canonical a @ r = encode_canonical b @ s \<longleftrightarrow> a = b \<and> r = s"
  by (auto simp: encode_canonical_def encode_stamp_prefix_free
      split: option.splits content_version.splits intro!: node_state.equality)

interpretation state_code: prefix_code encode_canonical "\<lambda>_. True"
  by unfold_locales (simp add: encode_canonical_prefix_free)

lemma length_encode_stamp:
  "length (encode_stamp st) = (if ctime_ns st = None then 46 else 62)"
  by (auto simp: encode_stamp_def)

lemma encode_canonical_not_Nil [simp]: "encode_canonical st \<noteq> []"
  by (simp add: encode_canonical_def)

section \<open>Diff entries\<close>

datatype diff_kind = DCreate | DDelete | DModify | DMetadataChange

record diff_entry =
  entry_path :: vpath
  entry_before :: "node_state option"
  entry_after :: "node_state option"
  entry_kind :: diff_kind

section \<open>Digests as text\<close>

datatype parse_digest_error = InvalidLength nat | InvalidHex nat

definition decode_hex_digit :: "u8 \<Rightarrow> u8 option" where
  "decode_hex_digit v =
     (if of_char (CHR ''0'') \<le> v \<and> v \<le> of_char (CHR ''9'') then Some (v - of_char (CHR ''0''))
      else if of_char (CHR ''a'') \<le> v \<and> v \<le> of_char (CHR ''f'')
      then Some (v - of_char (CHR ''a'') + 10)
      else if of_char (CHR ''A'') \<le> v \<and> v \<le> of_char (CHR ''F'')
      then Some (v - of_char (CHR ''A'') + 10)
      else None)"

text \<open>The loop over \<open>chunks_exact(2)\<close>, with the running chunk index.\<close>

fun decode_pairs :: "nat \<Rightarrow> bytes \<Rightarrow> parse_digest_error + bytes" where
  "decode_pairs index (a # b # rest) =
     bindR (ok_or (decode_hex_digit a) (InvalidHex (index * 2))) (\<lambda>hi.
     bindR (ok_or (decode_hex_digit b) (InvalidHex (index * 2 + 1))) (\<lambda>lo.
     bindR (decode_pairs (Suc index) rest) (\<lambda>out.
       Ok ((push_bit 4 hi OR lo) # out))))"
| "decode_pairs index _ = Ok []"

definition decode_digest :: "string \<Rightarrow> parse_digest_error + digest" where
  "decode_digest value =
     (let bytes = str_bytes value in
      if length bytes \<noteq> 64 then Err (InvalidLength (length bytes))
      else bindR (decode_pairs 0 bytes) (\<lambda>out. Ok (from_bytes out)))"

text \<open>\<open>Display\<close>: two lower-case digits per byte.\<close>

definition hex_digit :: "u8 \<Rightarrow> u8" where
  "hex_digit v = (if v < 10 then v + of_char (CHR ''0'') else v - 10 + of_char (CHR ''a''))"

definition hex_byte :: "u8 \<Rightarrow> bytes" where
  "hex_byte b = [hex_digit (drop_bit 4 b), hex_digit (b AND 15)]"

definition digest_to_string :: "digest \<Rightarrow> string" where
  "digest_to_string d = bytes_str (concat (map hex_byte (as_bytes d)))"

lemma decode_hex_digit_hex: "v < 16 \<Longrightarrow> decode_hex_digit (hex_digit v) = Some v"
proof -
  assume "v < 16"
  then have "unat v < 16" by (simp add: word_less_nat_alt)
  then have "unat v \<in> {0..<16}" by simp
  moreover have "v = word_of_nat (unat v)" by simp
  ultimately have "v \<in> word_of_nat ` {0..<16}" by (metis image_eqI)
  then show ?thesis
    by (simp add: atLeastLessThan_nat_numeral hex_digit_def decode_hex_digit_def)
       (elim disjE, simp_all)
qed

lemma hex_byte_parts:
  "drop_bit 4 b < (16::u8)" "b AND 15 < (16::u8)" "push_bit 4 (drop_bit 4 b) OR b AND 15 = (b::u8)"
proof -
  show "drop_bit 4 b < (16::u8)"
  proof -
    have "unat b < 2 ^ LENGTH(8)" by (rule unsigned_less)
    then have "unat b div 2 ^ 4 < 16" by simp
    then show ?thesis
      by (simp only: word_less_nat_alt unat_drop_bit_eq) (simp add: drop_bit_eq_div)
  qed
  have "b AND 15 \<le> (15::u8)" by (rule word_and_le1)
  then show "b AND 15 < (16::u8)" by (rule order_le_less_trans) simp
  show "push_bit 4 (drop_bit 4 b) OR b AND 15 = b"
  proof (rule bit_word_eqI)
    fix n assume "n < LENGTH(8)"
    have fifteen: "(15::u8) = mask 4" by (simp add: mask_eq_exp_minus_1)
    show "bit (push_bit 4 (drop_bit 4 b) OR b AND 15) n \<longleftrightarrow> bit b n"
      unfolding fifteen
      by (auto simp: bit_or_iff bit_and_iff bit_push_bit_iff bit_drop_bit_eq bit_mask_iff
          dest: bit_imp_le_length)
  qed
qed

lemma decode_pairs_hex: "decode_pairs index (concat (map hex_byte bs)) = Ok bs"
  by (induction bs arbitrary: index)
     (auto simp: hex_byte_def decode_hex_digit_hex hex_byte_parts)

lemma digest_text_roundtrip: "decode_digest (digest_to_string d) = Ok d"
proof -
  have "length (concat (map hex_byte bs)) = 2 * length bs" for bs
    by (induction bs) (auto simp: hex_byte_def)
  then show ?thesis by (simp add: decode_digest_def digest_to_string_def decode_pairs_hex)
qed

section \<open>Domain-separated hashing\<close>

text \<open>
  \<open>domain_hasher\<close> feeds the hash with a tag, the length of the domain, the domain and the
  length of the payload; a BLAKE3 hasher is the byte string it has absorbed.
\<close>

definition domain_hasher :: "bytes \<Rightarrow> u64 \<Rightarrow> bytes" where
  "domain_hasher domain payload_bytes =
     str_bytes ''vsh'' @ [0] @ u64_bytes (len64 domain) @ domain @ u64_bytes payload_bytes"

definition domain_hash :: "(bytes \<Rightarrow> digest) \<Rightarrow> bytes \<Rightarrow> bytes \<Rightarrow> digest" where
  "domain_hash blake3 domain payload = blake3 (domain_hasher domain (len64 payload) @ payload)"

lemma domain_hasher_inj:
  assumes "length d < 2 ^ 64" "length e < 2 ^ 64"
    and "domain_hasher d (len64 p) @ p = domain_hasher e (len64 q) @ q"
  shows "d = e \<and> p = q"
proof -
  have "len64 d = len64 e \<and> d @ u64_bytes (len64 p) @ p = e @ u64_bytes (len64 q) @ q"
    using assms(3) by (simp add: domain_hasher_def)
  moreover from this have "length d = length e" using assms(1,2) len64_inj by blast
  ultimately show ?thesis by auto
qed

definition blob_digest :: "(bytes \<Rightarrow> digest) \<Rightarrow> bytes \<Rightarrow> digest" where
  "blob_digest blake3 b = blake3 b"

definition snapshot_digest :: "(bytes \<Rightarrow> digest) \<Rightarrow> bytes \<Rightarrow> digest" where
  "snapshot_digest blake3 m = domain_hash blake3 (str_bytes ''snapshot-v1'') m"

definition diff_digest :: "(bytes \<Rightarrow> digest) \<Rightarrow> bytes \<Rightarrow> digest" where
  "diff_digest blake3 m = domain_hash blake3 (str_bytes ''diff-v1'') m"

definition directory_digest_canonical :: "(bytes \<Rightarrow> digest) \<Rightarrow> bytes \<Rightarrow> digest" where
  "directory_digest_canonical blake3 m = domain_hash blake3 (str_bytes ''directory-v1'') m"

definition program_digest :: "(bytes \<Rightarrow> digest) \<Rightarrow> string \<Rightarrow> digest" where
  "program_digest blake3 source = domain_hash blake3 (str_bytes ''program-v1'') (str_bytes source)"

definition read_set_digest_canonical :: "(bytes \<Rightarrow> digest) \<Rightarrow> bytes \<Rightarrow> digest" where
  "read_set_digest_canonical blake3 m = domain_hash blake3 (str_bytes ''read-set-v1'') m"

definition write_set_digest_canonical :: "(bytes \<Rightarrow> digest) \<Rightarrow> bytes \<Rightarrow> digest" where
  "write_set_digest_canonical blake3 m = domain_hash blake3 (str_bytes ''write-set-v1'') m"

definition policy_digest_canonical :: "(bytes \<Rightarrow> digest) \<Rightarrow> bytes \<Rightarrow> digest" where
  "policy_digest_canonical blake3 m = domain_hash blake3 (str_bytes ''policy-v1'') m"

definition intent_digest :: "(bytes \<Rightarrow> digest) \<Rightarrow> string \<Rightarrow> digest" where
  "intent_digest blake3 intent = domain_hash blake3 (str_bytes ''intent-v1'') (str_bytes intent)"

section \<open>Transaction identity\<close>

record transaction_binding =
  base_snapshot :: digest
  diff :: digest
  read_set :: digest
  write_set :: digest
  program :: digest
  policy :: digest
  runtime_config :: digest
  intent :: "digest option"
  invocation :: "digest option"
  commit_hook :: "digest option"
  execution_evidence :: "digest option"

text \<open>The domain and the canonical bytes \<open>transaction_id\<close> hashes.\<close>

definition transaction_message :: "transaction_binding \<Rightarrow> bytes \<times> bytes" where
  "transaction_message b =
     (let canonical =
        as_bytes (base_snapshot b) @ as_bytes (diff b) @ as_bytes (read_set b) @
        as_bytes (write_set b) @ as_bytes (program b) @ as_bytes (policy b) @
        as_bytes (runtime_config b) @
        (case intent b of Some i \<Rightarrow> 1 # as_bytes i | None \<Rightarrow> [0]);
        (canonical1, domain) = (case execution_evidence b of
          Some e \<Rightarrow> (canonical @ as_bytes e, str_bytes ''transaction-v2'')
        | None \<Rightarrow> (canonical, str_bytes ''transaction-v1''))
      in if invocation b \<noteq> None \<or> commit_hook b \<noteq> None then
           (str_bytes ''transaction-v3'',
            canonical1 @
            concat (map (\<lambda>v. case v of Some d \<Rightarrow> 1 # as_bytes d | None \<Rightarrow> [0])
              [invocation b, commit_hook b]) @
            [if execution_evidence b \<noteq> None then 1 else 0])
         else (domain, canonical1))"

definition transaction_id :: "(bytes \<Rightarrow> digest) \<Rightarrow> transaction_binding \<Rightarrow> digest" where
  "transaction_id blake3 b =
     (let (domain, canonical) = transaction_message b in domain_hash blake3 domain canonical)"

record approval_binding =
  ab_transaction :: digest
  ab_principal :: digest
  ab_issued_at :: u64
  ab_expires_at :: u64

definition approval_id :: "(bytes \<Rightarrow> digest) \<Rightarrow> approval_binding \<Rightarrow> digest" where
  "approval_id blake3 b = domain_hash blake3 (str_bytes ''approval-v1'')
     (as_bytes (ab_transaction b) @ as_bytes (ab_principal b) @
      u64_bytes (ab_issued_at b) @ u64_bytes (ab_expires_at b))"

definition request_event_id :: "(bytes \<Rightarrow> digest) \<Rightarrow> digest \<Rightarrow> digest \<Rightarrow> u8 \<Rightarrow> digest" where
  "request_event_id blake3 transaction hook scope_tag =
     domain_hash blake3 (str_bytes ''request-event-v1'')
       (as_bytes transaction @ as_bytes hook @ [scope_tag])"

text \<open>
  The parts of the canonical bytes: a head of fixed shape, then the optional evidence, then
  (third version only) the presence tags, of which the last byte says whether evidence was
  written.
\<close>

definition tx_head :: "transaction_binding \<Rightarrow> bytes" where
  "tx_head b = as_bytes (base_snapshot b) @ as_bytes (diff b) @ as_bytes (read_set b) @
     as_bytes (write_set b) @ as_bytes (program b) @ as_bytes (policy b) @
     as_bytes (runtime_config b) @ enc_option as_bytes (intent b)"

definition tx_bare :: "transaction_binding \<Rightarrow> bytes" where
  "tx_bare b = tx_head b @
     (case execution_evidence b of Some e \<Rightarrow> as_bytes e | None \<Rightarrow> [])"

lemma transaction_message_parts:
  "transaction_message b =
     (if invocation b \<noteq> None \<or> commit_hook b \<noteq> None then
        (str_bytes ''transaction-v3'', tx_bare b @ enc_option as_bytes (invocation b) @
          enc_option as_bytes (commit_hook b) @ [if execution_evidence b \<noteq> None then 1 else 0])
      else if execution_evidence b \<noteq> None then (str_bytes ''transaction-v2'', tx_bare b)
      else (str_bytes ''transaction-v1'', tx_bare b))"
  by (auto simp: transaction_message_def tx_bare_def tx_head_def enc_option_def Let_def
      split: option.splits)

lemma enc_option_digest_append [simp]:
  "enc_option as_bytes x @ r = enc_option as_bytes y @ s \<longleftrightarrow> x = y \<and> r = s"
  by (auto simp: enc_option_def split: option.splits)

lemma enc_option_digest_inj [simp]: "enc_option as_bytes x = enc_option as_bytes y \<longleftrightarrow> x = y"
  using enc_option_digest_append[of x "[]" y "[]"] by simp

definition same_head :: "transaction_binding \<Rightarrow> transaction_binding \<Rightarrow> bool" where
  "same_head a b \<longleftrightarrow> base_snapshot a = base_snapshot b \<and> diff a = diff b \<and>
     read_set a = read_set b \<and> write_set a = write_set b \<and> program a = program b \<and>
     policy a = policy b \<and> runtime_config a = runtime_config b \<and> intent a = intent b"

lemma tx_head_append: "tx_head a @ r = tx_head b @ s \<longleftrightarrow> same_head a b \<and> r = s"
  by (auto simp: tx_head_def same_head_def)

lemma tx_bare_append:
  "(execution_evidence a = None) = (execution_evidence b = None) \<Longrightarrow>
   tx_bare a @ r = tx_bare b @ s \<longleftrightarrow>
     same_head a b \<and> execution_evidence a = execution_evidence b \<and> r = s"
  by (auto simp: tx_bare_def tx_head_append split: option.splits)

lemma domains_distinct:
  "str_bytes ''transaction-v1'' \<noteq> str_bytes ''transaction-v2''"
  "str_bytes ''transaction-v1'' \<noteq> str_bytes ''transaction-v3''"
  "str_bytes ''transaction-v2'' \<noteq> str_bytes ''transaction-v3''"
  by (simp_all add: str_bytes_inj)

lemma transaction_message_inj:
  assumes "transaction_message a = transaction_message b" shows "a = b"
proof -
  have flag: "(execution_evidence a = None) = (execution_evidence b = None)"
    using assms unfolding transaction_message_parts
    by (auto simp: str_bytes_inj split: if_splits dest!: arg_cong[where f = last])
  have hooks: "(invocation a \<noteq> None \<or> commit_hook a \<noteq> None) =
      (invocation b \<noteq> None \<or> commit_hook b \<noteq> None)"
    using assms unfolding transaction_message_parts
    by (auto simp: str_bytes_inj split: if_splits)
  have "same_head a b \<and> execution_evidence a = execution_evidence b \<and>
      invocation a = invocation b \<and> commit_hook a = commit_hook b"
  proof (cases "invocation a \<noteq> None \<or> commit_hook a \<noteq> None")
    case True
    with assms hooks show ?thesis
      unfolding transaction_message_parts by (simp add: tx_bare_append[OF flag])
  next
    case False
    with assms hooks flag have "tx_bare a @ [] = tx_bare b @ []"
      unfolding transaction_message_parts by (simp split: if_splits)
    then have "same_head a b \<and> execution_evidence a = execution_evidence b"
      by (simp only: tx_bare_append[OF flag])
    then show ?thesis using False hooks by simp
  qed
  then show ?thesis by (intro transaction_binding.equality) (auto simp: same_head_def)
qed

end
