(* ===== verification/DirDigest.thy ===== *)
theory DirDigest
  imports Types
begin

text \<open>
  Directory listings (\<open>crates/vsh-types/src/directory.rs\<close>): the digest of a listing is
  streamed through a 4096-byte buffer after a first pass that computes the payload length.
  The main lemma is that streaming gives the digest of the whole canonical encoding.
\<close>

definition state_bytes_len :: "node_state \<Rightarrow> u64" where
  "state_bytes_len st = (case content st of
     None \<Rightarrow> 14
   | Some (Blob _) \<Rightarrow> 46
   | Some (Stamp stamp) \<Rightarrow> 60 + (if ctime_ns stamp \<noteq> None then 1 else 0) * 16)"

text \<open>The first pass; \<open>None\<close> is the panic of \<open>expect\<close>.\<close>

fun payload_length :: "u64 \<Rightarrow> (vpath \<times> node_state) list \<Rightarrow> u64 option" where
  "payload_length acc [] = Some acc"
| "payload_length acc ((path, state) # rest) =
     (case checked_add acc (8 + len64 (as_str path) + state_bytes_len state) of
        None \<Rightarrow> None
      | Some t \<Rightarrow> payload_length t rest)"

text \<open>The buffered hasher; a hasher is the byte string it has absorbed.\<close>

record directory_hasher =
  hasher :: bytes
  buffer :: bytes
  buffered :: nat

function sink_update :: "directory_hasher \<Rightarrow> bytes \<Rightarrow> directory_hasher" where
  "sink_update sink bytes =
     (if bytes = [] then sink
      else if buffered sink = 0 \<and> length (buffer sink) \<le> length bytes
      then sink\<lparr>hasher := hasher sink @ bytes\<rparr>
      else
        let copied = min (length bytes) (length (buffer sink) - buffered sink);
            buf = take (buffered sink) (buffer sink) @ take copied bytes @
                  drop (buffered sink + copied) (buffer sink);
            n = buffered sink + copied;
            sink1 = sink\<lparr>buffer := buf, buffered := n\<rparr>;
            sink2 = (if n = length buf then sink1\<lparr>hasher := hasher sink1 @ buf, buffered := 0\<rparr>
                     else sink1)
        in if copied = 0 then sink2 else sink_update sink2 (drop copied bytes))"
  by pat_completeness auto
termination
  by (relation "measure (\<lambda>(sink, bytes). length bytes)") auto

text \<open>
  In the code the buffer always has free room before a copy, so \<open>copied\<close> is positive; the
  model stops where the code would spin for ever (\<open>sink_ok\<close> below excludes it).
\<close>

declare sink_update.simps [simp del]

definition sink_ok :: "directory_hasher \<Rightarrow> bool" where
  "sink_ok sink \<longleftrightarrow> buffered sink < length (buffer sink)"

text \<open>What the sink has received so far.\<close>

definition absorbed :: "directory_hasher \<Rightarrow> bytes" where
  "absorbed sink = hasher sink @ take (buffered sink) (buffer sink)"

text \<open>The length-delimited canonical encoding of one listing entry.\<close>

definition entry_bytes :: "vpath \<times> node_state \<Rightarrow> bytes" where
  "entry_bytes e = u64_bytes (len64 (as_str (fst e))) @ str_bytes (as_str (fst e)) @
     encode_canonical (snd e)"

fun feed_entries :: "directory_hasher \<Rightarrow> (vpath \<times> node_state) list \<Rightarrow> directory_hasher" where
  "feed_entries sink [] = sink"
| "feed_entries sink ((path, state) # rest) =
     feed_entries
       (sink_update
         (sink_update
           (sink_update sink (u64_bytes (len64 (as_str path))))
           (str_bytes (as_str path)))
         (encode_canonical state)) rest"

definition digest_entries ::
  "(bytes \<Rightarrow> digest) \<Rightarrow> (vpath \<times> node_state) list \<Rightarrow> digest option" where
  "digest_entries blake3 entries =
     (case payload_length 0 entries of
        None \<Rightarrow> None
      | Some payload_bytes \<Rightarrow>
          let sink = \<lparr>hasher = domain_hasher (str_bytes ''directory-v1'') payload_bytes,
                      buffer = replicate 4096 0, buffered = 0\<rparr>;
              sink = feed_entries sink entries
          in Some (blake3 (hasher sink @ take (buffered sink) (buffer sink))))"

section \<open>Streaming equals the canonical encoding\<close>

lemma sink_update_Nil: "sink_update sink [] = sink"
  by (subst sink_update.simps) simp

lemma sink_update_direct:
  "b \<noteq> [] \<Longrightarrow> buffered sink = 0 \<Longrightarrow> length (buffer sink) \<le> length b \<Longrightarrow>
    sink_update sink b = sink\<lparr>hasher := hasher sink @ b\<rparr>"
  by (subst sink_update.simps) simp

lemma sink_update_absorbed:
  "sink_ok sink \<Longrightarrow>
    sink_ok (sink_update sink b) \<and> absorbed (sink_update sink b) = absorbed sink @ b"
proof (induction sink b rule: sink_update.induct)
  case (1 sink b)
  show ?case
  proof (cases "b = [] \<or> buffered sink = 0 \<and> length (buffer sink) \<le> length b")
    case True
    with "1.prems" show ?thesis
      by (cases "b = []")
        (simp_all add: sink_update_Nil sink_update_direct absorbed_def sink_ok_def)
  next
    case False
    define copied where "copied = min (length b) (length (buffer sink) - buffered sink)"
    define buf where "buf = take (buffered sink) (buffer sink) @ take copied b @
      drop (buffered sink + copied) (buffer sink)"
    define n where "n = buffered sink + copied"
    define sink1 where "sink1 = sink\<lparr>buffer := buf, buffered := n\<rparr>"
    define sink2 where "sink2 =
      (if n = length buf then sink1\<lparr>hasher := hasher sink1 @ buf, buffered := 0\<rparr> else sink1)"
    have room: "buffered sink < length (buffer sink)" using "1.prems" by (simp add: sink_ok_def)
    have pos: "copied \<noteq> 0" using False room by (auto simp: copied_def)
    have len: "length buf = length (buffer sink)"
      using room by (auto simp: buf_def copied_def)
    have tk: "take n buf = take (buffered sink) (buffer sink) @ take copied b"
      using room by (simp add: buf_def n_def copied_def)
    have n: "n \<le> length buf" using room by (simp add: n_def len copied_def)
    have step: "sink_update sink b = sink_update sink2 (drop copied b)"
    proof -
      have c: "b \<noteq> []" "\<not> (buffered sink = 0 \<and> length (buffer sink) \<le> length b)"
        "min (length b) (length (buffer sink) - buffered sink) \<noteq> 0"
        using False pos by (auto simp: copied_def)
      show ?thesis
        by (subst sink_update.simps)
          (simp only: c Let_def if_False sink2_def sink1_def n_def buf_def copied_def)
    qed
    have ok: "sink_ok sink2"
      using n room len by (auto simp: sink2_def sink1_def sink_ok_def)
    have ab: "absorbed sink2 = absorbed sink @ take copied b"
      using tk by (auto simp: sink2_def sink1_def absorbed_def)
    have "sink_ok (sink_update sink2 (drop copied b)) \<and>
        absorbed (sink_update sink2 (drop copied b)) = absorbed sink2 @ drop copied b"
      using "1.IH"[OF _ _ copied_def buf_def n_def sink1_def sink2_def pos ok] False by simp
    then show ?thesis by (simp add: step ab)
  qed
qed

lemma feed_entries_absorbed:
  "sink_ok sink \<Longrightarrow> sink_ok (feed_entries sink es) \<and>
    absorbed (feed_entries sink es) = absorbed sink @ concat (map entry_bytes es)"
  by (induction sink es rule: feed_entries.induct)
     (simp_all add: sink_update_absorbed entry_bytes_def)

lemma state_bytes_len_correct:
  "state_bytes_len st = word_of_nat (length (encode_canonical st))"
  by (auto simp: state_bytes_len_def encode_canonical_def length_encode_stamp
      split: option.splits content_version.splits)

lemma payload_length_correct:
  "unat acc + length (concat (map entry_bytes es)) < 2 ^ 64 \<Longrightarrow>
    payload_length acc es = Some (acc + len64 (concat (map entry_bytes es)))"
proof (induction acc es rule: payload_length.induct)
  case (1 acc)
  then show ?case by (simp add: len64_def)
next
  case (2 acc path state rest)
  let ?b = "entry_bytes (path, state)" and ?r = "concat (map entry_bytes rest)"
  have lb: "8 + len64 (as_str path) + state_bytes_len state = (word_of_nat (length ?b) :: u64)"
    by (simp add: entry_bytes_def state_bytes_len_correct len64_def)
  have fit: "unat acc + length ?b + length ?r < 2 ^ 64" using "2.prems" by simp
  then have ub: "unat (word_of_nat (length ?b) :: u64) = length ?b"
    by (simp add: unat_of_nat take_bit_nat_eq_self)
  have add: "checked_add acc (8 + len64 (as_str path) + state_bytes_len state) =
      Some (acc + word_of_nat (length ?b))"
    unfolding lb using fit ub by (simp add: checked_add_def)
  have ut: "unat (acc + word_of_nat (length ?b)) = unat acc + length ?b"
    using fit ub by (simp add: unat_word_ariths)
  show ?case
    using "2.IH"[OF add] fit ut by (simp add: add[unfolded len64_def] len64_def)
qed

lemma digest_entries_canonical:
  assumes "length (concat (map entry_bytes es)) < 2 ^ 64"
  shows "digest_entries blake3 es =
    Some (directory_digest_canonical blake3 (concat (map entry_bytes es)))"
proof -
  let ?p = "concat (map entry_bytes es)"
  let ?s = "\<lparr>hasher = domain_hasher (str_bytes ''directory-v1'') (len64 ?p),
    buffer = replicate 4096 0, buffered = 0\<rparr>"
  have "payload_length 0 es = Some (len64 ?p)"
    using payload_length_correct[of 0 es] assms by simp
  moreover have "absorbed (feed_entries ?s es) = absorbed ?s @ ?p"
    by (rule feed_entries_absorbed[THEN conjunct2]) (simp add: sink_ok_def)
  ultimately show ?thesis
    by (simp add: digest_entries_def directory_digest_canonical_def domain_hash_def absorbed_def
        Let_def)
qed

lemma entry_code_prefix_free:
  assumes "length (as_str (fst a)) < 2 ^ 64" "length (as_str (fst b)) < 2 ^ 64"
    and "entry_bytes a @ r = entry_bytes b @ s"
  shows "a = b \<and> r = s"
proof -
  have "length (as_str (fst a)) = length (as_str (fst b))"
    using assms by (auto simp: entry_bytes_def intro: len64_inj)
  then have "as_str (fst a) = as_str (fst b) \<and> snd a = snd b \<and> r = s"
    using assms(3) by (auto simp: entry_bytes_def str_bytes_inj encode_canonical_prefix_free)
  then show ?thesis by (metis prod.expand vpath.expand)
qed

interpretation entry_code: prefix_code entry_bytes "\<lambda>e. length (as_str (fst e)) < 2 ^ 64"
  by unfold_locales (rule entry_code_prefix_free)

lemma entry_bytes_not_Nil [simp]: "entry_bytes e \<noteq> []"
  by (simp add: entry_bytes_def)

end
