(* ===== verification/TxState.thy ===== *)
theory TxState
  imports Prelude
begin

text \<open>
  The life cycle of a transaction (\<open>TransactionState\<close> in \<open>crates/vsh-types/src/lib.rs\<close>): the
  transition relation, terminal states, and what every run from \<open>Created\<close> satisfies.
\<close>

datatype tx_state =
  Created | Running | VirtualComplete | Denied | AutoApproved | PendingApproval | Rejected
| Approved | Reserved | Revalidating | Committing | Committed | Stale | Expired
| RecoveryRequired | Failed

definition can_transition_to :: "tx_state \<Rightarrow> tx_state \<Rightarrow> bool" where
  "can_transition_to s next \<longleftrightarrow>
     s = Created \<and> next = Running
   \<or> s = Running \<and> next \<in> {VirtualComplete, Failed}
   \<or> s = VirtualComplete \<and> next \<in> {Denied, AutoApproved, PendingApproval, Failed}
   \<or> s = PendingApproval \<and> next \<in> {Approved, Denied, Rejected, Expired, Failed}
   \<or> s = AutoApproved \<and> next \<in> {PendingApproval, Rejected}
   \<or> s \<in> {AutoApproved, Approved} \<and> next = Reserved
   \<or> s = Approved \<and> next = Expired
   \<or> s = Reserved \<and> next \<in> {Revalidating, Failed}
   \<or> s = Revalidating \<and> next \<in> {Committing, Stale, Failed}
   \<or> s = Committing \<and> next \<in> {Committed, RecoveryRequired}
   \<or> s = RecoveryRequired \<and> next \<in> {Committed, Failed}"

definition is_terminal :: "tx_state \<Rightarrow> bool" where
  "is_terminal s \<longleftrightarrow> s \<in> {Denied, Rejected, Committed, Stale, Expired, Failed}"

record transition_error =
  te_from :: tx_state
  te_to :: tx_state

text \<open>A rank that every transition raises.\<close>

fun tx_rank :: "tx_state \<Rightarrow> nat" where
  "tx_rank Created = 0"
| "tx_rank Running = 1"
| "tx_rank VirtualComplete = 2"
| "tx_rank AutoApproved = 3"
| "tx_rank PendingApproval = 4"
| "tx_rank Approved = 5"
| "tx_rank Reserved = 6"
| "tx_rank Revalidating = 7"
| "tx_rank Committing = 8"
| "tx_rank RecoveryRequired = 9"
| "tx_rank _ = 10"

lemma transition_rank: "can_transition_to s t \<Longrightarrow> tx_rank s < tx_rank t"
  by (auto simp: can_transition_to_def)

lemma tx_rank_le: "tx_rank s \<le> 10"
  by (cases s) auto

lemma terminal_iff_stuck: "is_terminal s \<longleftrightarrow> (\<forall>t. \<not> can_transition_to s t)"
  by (cases s) (auto simp: is_terminal_def can_transition_to_def)

section \<open>Runs\<close>

text \<open>The states a record has gone through, the latest first.\<close>

inductive tx_run :: "tx_state list \<Rightarrow> bool" where
  tx_start: "tx_run [Created]"
| tx_step: "tx_run (s # h) \<Longrightarrow> can_transition_to s t \<Longrightarrow> tx_run (t # s # h)"

inductive_cases tx_run_ConsE: "tx_run (t # h)"
inductive_simps tx_run_Nil [simp]: "tx_run []"

lemma tx_run_rank: "tx_run (t # h) \<Longrightarrow> \<forall>s \<in> set h. tx_rank s < tx_rank t"
proof (induction "t # h" arbitrary: t h rule: tx_run.induct)
  case (tx_step s h t)
  then show ?case using transition_rank[of s t] by fastforce
qed simp

lemma tx_run_distinct: "tx_run h \<Longrightarrow> distinct h"
proof (induction rule: tx_run.induct)
  case (tx_step s h t)
  moreover from tx_step have "tx_run (t # s # h)" by (blast intro: tx_run.intros)
  ultimately show ?case using tx_run_rank[of t "s # h"] by auto
qed simp

lemma tx_run_length: "tx_run h \<Longrightarrow> length h \<le> Suc (tx_rank (hd h))"
proof (induction rule: tx_run.induct)
  case (tx_step s h t)
  then show ?case using transition_rank[of s t] by simp
qed simp

text \<open>The phases behind the commit boundary.\<close>

definition past_reservation :: "tx_state \<Rightarrow> bool" where
  "past_reservation s \<longleftrightarrow>
     s \<in> {Reserved, Revalidating, Committing, Committed, Stale, RecoveryRequired}"

definition commit_history :: "tx_state list \<Rightarrow> bool" where
  "commit_history h \<longleftrightarrow>
     (past_reservation (hd h) \<longrightarrow>
        Reserved \<in> set h \<and> (AutoApproved \<in> set h \<or> Approved \<in> set h) \<and>
        VirtualComplete \<in> set h) \<and>
     (hd h = Approved \<longrightarrow> PendingApproval \<in> set h) \<and>
     (hd h \<in> {Committing, Committed, RecoveryRequired} \<longrightarrow>
        Revalidating \<in> set h \<and> Committing \<in> set h) \<and>
     (hd h \<in> {AutoApproved, PendingApproval, Approved, Denied, Rejected, Expired}
        \<longrightarrow> VirtualComplete \<in> set h)"

lemma tx_run_commit_history: "tx_run h \<Longrightarrow> commit_history h"
proof (induction rule: tx_run.induct)
  case tx_start
  then show ?case by (simp add: commit_history_def past_reservation_def)
next
  case (tx_step s h t)
  then show ?case
    by (cases s) (auto simp: commit_history_def past_reservation_def can_transition_to_def)
qed

end
