(* ===== verification/Store.thy ===== *)
theory Store
  imports Types TxState
begin

text \<open>
  The transaction store of \<open>crates/vsh-store/src/lib.rs\<close>: transaction records, approval grants,
  the contract of the trait \<open>TransactionStore\<close> (locale \<open>transaction_store\<close>) and the in-memory
  implementation \<open>MemoryTransactionStore\<close>.  A store is used through any number of handles (clones, processes).  The client lemmas proved in the locale (records only
  move forward, a reservation is won at most once) hold for every implementation.
\<close>

section \<open>Records and grants\<close>

record approval_grant =
  grant_binding :: approval_binding
  grant_id :: digest

record transaction_record =
  rec_id :: digest
  rec_base :: digest
  rec_state :: tx_state
  rec_artifact :: "digest option"
  rec_approval :: "approval_grant option"

record commit_reservation =
  res_transaction :: digest
  res_base :: digest

datatype approval_grant_error = InvalidWindow u64 u64

datatype tx_store_error =
  Duplicate digest
| NotFound digest
| StateConflict digest tx_state tx_state
| Transition transition_error
| ApprovalBindingMismatch digest digest
| MissingApproval digest
| ApprovalExpired digest u64 u64
| NotReservable digest tx_state
| PersistentIo string nat
| PersistentCorrupt u64 string
| PersistentLogLimit u64 u64
| PersistentRecordLimit nat nat
| Poisoned

definition new_record :: "digest \<Rightarrow> digest \<Rightarrow> transaction_record" where
  "new_record i base = \<lparr>rec_id = i, rec_base = base, rec_state = Created, rec_artifact = None,
     rec_approval = None\<rparr>"

definition with_artifact :: "transaction_record \<Rightarrow> digest \<Rightarrow> transaction_record" where
  "with_artifact r a = r\<lparr>rec_artifact := Some a\<rparr>"

definition transition ::
  "transaction_record \<Rightarrow> tx_state \<Rightarrow> transition_error + transaction_record" where
  "transition r next =
     (if \<not> can_transition_to (rec_state r) next
      then Err \<lparr>te_from = rec_state r, te_to = next\<rparr>
      else Ok (r\<lparr>rec_state := next\<rparr>))"

definition new_grant ::
  "(bytes \<Rightarrow> digest) \<Rightarrow> digest \<Rightarrow> digest \<Rightarrow> u64 \<Rightarrow> u64 \<Rightarrow> approval_grant_error + approval_grant" where
  "new_grant blake3 tx princ issued expires =
     (if expires \<le> issued then Err (InvalidWindow issued expires)
      else let binding = \<lparr>ab_transaction = tx, ab_principal = princ,
                          ab_issued_at = issued, ab_expires_at = expires\<rparr>
           in Ok \<lparr>grant_binding = binding, grant_id = approval_id blake3 binding\<rparr>)"

definition grant_transaction :: "approval_grant \<Rightarrow> digest" where
  "grant_transaction g = ab_transaction (grant_binding g)"

definition grant_expires :: "approval_grant \<Rightarrow> u64" where
  "grant_expires g = ab_expires_at (grant_binding g)"

definition is_expired_at :: "approval_grant \<Rightarrow> u64 \<Rightarrow> bool" where
  "is_expired_at g now \<longleftrightarrow> grant_expires g \<le> now"

lemma transition_Inr_iff:
  "transition r next = Inr r' \<longleftrightarrow>
     can_transition_to (rec_state r) next \<and> r' = r\<lparr>rec_state := next\<rparr>"
  by (auto simp: transition_def)

section \<open>The contract of a transaction store\<close>

text \<open>
  How the contents of a store may change: a record keeps its identity, base and artifact, its
  state follows the transition relation, and a grant once bound is never replaced.
\<close>

definition rec_evolves :: "transaction_record \<Rightarrow> transaction_record \<Rightarrow> bool" where
  "rec_evolves r r' \<longleftrightarrow> rec_id r' = rec_id r \<and> rec_base r' = rec_base r \<and>
     rec_artifact r' = rec_artifact r \<and> can_transition_to\<^sup>*\<^sup>* (rec_state r) (rec_state r') \<and>
     (rec_approval r \<noteq> None \<longrightarrow> rec_approval r' = rec_approval r)"

definition evolves ::
  "(digest \<Rightarrow> transaction_record option) \<Rightarrow> (digest \<Rightarrow> transaction_record option) \<Rightarrow> bool" where
  "evolves m m' \<longleftrightarrow> (\<forall>i r. m i = Some r \<longrightarrow> (\<exists>r'. m' i = Some r' \<and> rec_evolves r r'))"

text \<open>A state before the approval decision binds no grant.\<close>

definition unapproved :: "transaction_record \<Rightarrow> bool" where
  "unapproved r \<longleftrightarrow>
     (rec_state r \<in> {Created, Running, VirtualComplete, AutoApproved, PendingApproval} \<longrightarrow>
        rec_approval r = None)"

lemma evolves_refl [simp]: "evolves m m"
  by (auto simp: evolves_def rec_evolves_def)

lemma rec_evolves_trans: "rec_evolves a b \<Longrightarrow> rec_evolves b c \<Longrightarrow> rec_evolves a c"
  by (auto simp: rec_evolves_def)

lemma evolves_trans: "evolves a b \<Longrightarrow> evolves b c \<Longrightarrow> evolves a c"
  unfolding evolves_def by (metis rec_evolves_trans)

lemma evolves_upd:
  "m i = Some r \<Longrightarrow> rec_evolves r r' \<Longrightarrow> evolves m (m(i \<mapsto> r'))"
  by (auto simp: evolves_def rec_evolves_def)

lemma path_rank: "can_transition_to\<^sup>*\<^sup>* s t \<Longrightarrow> s = t \<or> tx_rank s < tx_rank t"
  by (induction rule: rtranclp_induct) (auto dest: transition_rank)

locale transaction_store =
  fixes grant_valid :: "approval_grant \<Rightarrow> bool"
    and lookup :: "'s \<Rightarrow> digest \<Rightarrow> transaction_record option"
    and inv :: "'s \<Rightarrow> bool"
    and create :: "'h \<Rightarrow> transaction_record \<Rightarrow> ('s, tx_store_error, unit) op"
    and get :: "'h \<Rightarrow> digest \<Rightarrow> ('s, tx_store_error, transaction_record) op"
    and compare_and_transition ::
      "'h \<Rightarrow> digest \<Rightarrow> tx_state \<Rightarrow> tx_state \<Rightarrow> ('s, tx_store_error, transaction_record) op"
    and approve :: "'h \<Rightarrow> digest \<Rightarrow> approval_grant \<Rightarrow> ('s, tx_store_error, transaction_record) op"
    and reserve :: "'h \<Rightarrow> digest \<Rightarrow> u64 \<Rightarrow> ('s, tx_store_error, commit_reservation) op"
  assumes create_inv: "rec_approval r = None \<Longrightarrow> keeps inv (create h r)"
    and get_inv: "keeps inv (get h i)"
    and cat_inv: "keeps inv (compare_and_transition h i e n)"
    and approve_inv: "grant_valid g \<Longrightarrow> keeps inv (approve h i g)"
    and reserve_inv: "keeps inv (reserve h i now)"
    and create_law: "inv s \<Longrightarrow> rec_approval r = None \<Longrightarrow> lookup (snd (create h r s)) = lookup s \<or>
      lookup s (rec_id r) = None \<and> lookup (snd (create h r s)) = (lookup s)(rec_id r \<mapsto> r)"
    and get_law: "inv s \<Longrightarrow> lookup (snd (get h i s)) = lookup s"
    and get_result: "inv s \<Longrightarrow> fst (get h i s) = Inr r \<Longrightarrow> lookup s i = Some r"
    and cat_law: "inv s \<Longrightarrow> lookup (snd (compare_and_transition h i e n s)) = lookup s \<or>
      (\<exists>r. lookup s i = Some r \<and> rec_state r = e \<and> can_transition_to e n \<and>
        lookup (snd (compare_and_transition h i e n s)) = (lookup s)(i \<mapsto> r\<lparr>rec_state := n\<rparr>))"
    and approve_law: "inv s \<Longrightarrow> grant_valid g \<Longrightarrow> lookup (snd (approve h i g s)) = lookup s \<or>
      (\<exists>r. lookup s i = Some r \<and> rec_state r = PendingApproval \<and> grant_transaction g = i \<and>
        lookup (snd (approve h i g s)) =
          (lookup s)(i \<mapsto> r\<lparr>rec_state := Approved, rec_approval := Some g\<rparr>))"
    and reserve_law: "inv s \<Longrightarrow> lookup (snd (reserve h i now s)) = lookup s \<or>
      (\<exists>r n. lookup s i = Some r \<and> can_transition_to (rec_state r) n \<and> n \<in> {Reserved, Expired} \<and>
        lookup (snd (reserve h i now s)) = (lookup s)(i \<mapsto> r\<lparr>rec_state := n\<rparr>))"
    and reserve_result: "inv s \<Longrightarrow> fst (reserve h i now s) = Inr c \<Longrightarrow>
      (\<exists>r. lookup s i = Some r \<and>
        (rec_state r = AutoApproved \<or> rec_state r = Approved \<and>
          (\<exists>g. rec_approval r = Some g \<and> \<not> is_expired_at g now)) \<and>
        lookup (snd (reserve h i now s)) = (lookup s)(i \<mapsto> r\<lparr>rec_state := Reserved\<rparr>) \<and>
        c = \<lparr>res_transaction = i, res_base = rec_base r\<rparr>)"
    and pending_unapproved: "inv s \<Longrightarrow> lookup s i = Some r \<Longrightarrow> unapproved r"
begin

lemma create_evolves: "inv s \<Longrightarrow> rec_approval r = None \<Longrightarrow> evolves (lookup s) (lookup (snd (create h r s)))"
  using create_law[of s r h] by (auto simp: evolves_def rec_evolves_def)

lemma get_evolves: "inv s \<Longrightarrow> evolves (lookup s) (lookup (snd (get h i s)))"
  by (simp add: get_law)

lemma cat_evolves: "inv s \<Longrightarrow> evolves (lookup s) (lookup (snd (compare_and_transition h i e n s)))"
  using cat_law[of s h i e n] by (auto intro!: evolves_upd simp: rec_evolves_def)

lemma approve_evolves:
  assumes inv: "inv s" and g: "grant_valid g"
  shows "evolves (lookup s) (lookup (snd (approve h i g s)))"
proof -
  have "rec_evolves r (r\<lparr>rec_state := Approved, rec_approval := Some g\<rparr>)"
    if "lookup s i = Some r" "rec_state r = PendingApproval" for r
    using that pending_unapproved[OF inv that(1)]
    by (auto simp: rec_evolves_def unapproved_def can_transition_to_def)
  then show ?thesis using approve_law[OF inv g, of h i] by (auto intro!: evolves_upd)
qed

lemma reserve_evolves: "inv s \<Longrightarrow> evolves (lookup s) (lookup (snd (reserve h i now s)))"
  using reserve_law[of s h i now] by (auto intro!: evolves_upd simp: rec_evolves_def)

text \<open>Once a reservation is won, no later state lets it be won again.\<close>

lemma reserve_once:
  assumes "inv s" "fst (reserve h i now s) = Inr c"
    and "inv t" "evolves (lookup (snd (reserve h i now s))) (lookup t)"
  shows "fst (reserve h' i now' t) \<noteq> Inr c'"
proof
  assume "fst (reserve h' i now' t) = Inr c'"
  then obtain r' where r': "lookup t i = Some r'" "rec_state r' \<in> {AutoApproved, Approved}"
    using reserve_result[OF assms(3)] by blast
  from reserve_result[OF assms(1,2)] obtain r where
    "lookup (snd (reserve h i now s)) i = Some (r\<lparr>rec_state := Reserved\<rparr>)" by auto
  with assms(4) r'(1) have "can_transition_to\<^sup>*\<^sup>* Reserved (rec_state r')"
    by (fastforce simp: evolves_def rec_evolves_def)
  then show False using path_rank[of Reserved "rec_state r'"] r'(2) by auto
qed

end

section \<open>Sequences of operations\<close>

datatype store_op =
  OpCreate transaction_record
| OpGet digest
| OpCat digest tx_state tx_state
| OpApprove digest approval_grant
| OpReserve digest u64

text \<open>
  \<open>exec_op\<close> is one operation of a store given by its five methods; \<open>wins\<close> counts the
  reservations of \<open>i\<close> that succeed along a sequence of operations.
\<close>

fun exec_op ::
  "('h \<Rightarrow> transaction_record \<Rightarrow> ('s, tx_store_error, unit) op) \<Rightarrow>
   ('h \<Rightarrow> digest \<Rightarrow> ('s, tx_store_error, transaction_record) op) \<Rightarrow>
   ('h \<Rightarrow> digest \<Rightarrow> tx_state \<Rightarrow> tx_state \<Rightarrow> ('s, tx_store_error, transaction_record) op) \<Rightarrow>
   ('h \<Rightarrow> digest \<Rightarrow> approval_grant \<Rightarrow> ('s, tx_store_error, transaction_record) op) \<Rightarrow>
   ('h \<Rightarrow> digest \<Rightarrow> u64 \<Rightarrow> ('s, tx_store_error, commit_reservation) op) \<Rightarrow>
   'h \<times> store_op \<Rightarrow> 's \<Rightarrow> 's" where
  "exec_op cr ge ca ap re (h, OpCreate r) s = snd (cr h r s)"
| "exec_op cr ge ca ap re (h, OpGet i) s = snd (ge h i s)"
| "exec_op cr ge ca ap re (h, OpCat i e n) s = snd (ca h i e n s)"
| "exec_op cr ge ca ap re (h, OpApprove i g) s = snd (ap h i g s)"
| "exec_op cr ge ca ap re (h, OpReserve i now) s = snd (re h i now s)"

text \<open>
  A record can only be built by \<open>new\<close>, \<open>with_artifact\<close> and \<open>transition\<close>, so the records handed
  to \<open>create\<close> carry no grant.
\<close>

definition op_ok :: "(approval_grant \<Rightarrow> bool) \<Rightarrow> 'h \<times> store_op \<Rightarrow> bool" where
  "op_ok grant_valid opn = (case snd opn of
     OpCreate r \<Rightarrow> rec_approval r = None
   | OpApprove i g \<Rightarrow> grant_valid g
   | _ \<Rightarrow> True)"

definition wins_op :: "('h \<Rightarrow> digest \<Rightarrow> u64 \<Rightarrow> ('s, tx_store_error, commit_reservation) op) \<Rightarrow>
    digest \<Rightarrow> 'h \<times> store_op \<Rightarrow> 's \<Rightarrow> bool" where
  "wins_op re i opn s = (case snd opn of
     OpReserve j now \<Rightarrow> j = i \<and> (case fst (re (fst opn) j now s) of Inr _ \<Rightarrow> True | Inl _ \<Rightarrow> False)
   | _ \<Rightarrow> False)"

fun wins :: "('h \<Rightarrow> digest \<Rightarrow> u64 \<Rightarrow> ('s, tx_store_error, commit_reservation) op) \<Rightarrow>
    ('h \<times> store_op \<Rightarrow> 's \<Rightarrow> 's) \<Rightarrow> digest \<Rightarrow> ('h \<times> store_op) list \<Rightarrow> 's \<Rightarrow> nat" where
  "wins re ex i [] s = 0"
| "wins re ex i (opn # ops) s =
     (if wins_op re i opn s then 1 else 0) + wins re ex i ops (ex opn s)"

context transaction_store
begin

lemma exec_evolves:
  "inv s \<Longrightarrow> op_ok grant_valid opn \<Longrightarrow>
   inv (exec_op create get compare_and_transition approve reserve opn s) \<and>
   evolves (lookup s) (lookup (exec_op create get compare_and_transition approve reserve opn s))"
  by (cases "(create, get, compare_and_transition, approve, reserve, opn, s)" rule: exec_op.cases)
     (simp_all add: create_evolves get_evolves cat_evolves approve_evolves reserve_evolves
       create_inv[THEN keepsD] get_inv[THEN keepsD] cat_inv[THEN keepsD]
       approve_inv[THEN keepsD] reserve_inv[THEN keepsD] op_ok_def)

lemma fold_evolves:
  "inv s \<Longrightarrow> list_all (op_ok grant_valid) ops \<Longrightarrow>
   evolves (lookup s)
     (lookup (fold (exec_op create get compare_and_transition approve reserve) ops s))"
proof (induction ops arbitrary: s)
  case (Cons opn ops)
  then show ?case using exec_evolves[of s opn] by (auto intro: evolves_trans)
qed simp

lemma no_win_after:
  assumes "inv s" "fst (reserve h i now s) = Inr c"
    and "inv t" "evolves (lookup (snd (reserve h i now s))) (lookup t)" "list_all (op_ok grant_valid) ops"
  shows "wins reserve (exec_op create get compare_and_transition approve reserve) i ops t = 0"
  using assms(3,4,5)
proof (induction ops arbitrary: t)
  case (Cons opn ops)
  have "\<not> wins_op reserve i opn t"
    using reserve_once[OF assms(1,2) Cons.prems(1,2)]
    by (auto simp: wins_op_def split: store_op.splits sum.splits)
  then show ?case
    using Cons exec_evolves[of t opn] evolves_trans by fastforce
qed simp

lemma wins_at_most_once:
  "inv s \<Longrightarrow> list_all (op_ok grant_valid) ops \<Longrightarrow>
   wins reserve (exec_op create get compare_and_transition approve reserve) i ops s \<le> 1"
proof (induction ops arbitrary: s)
  case (Cons opn ops)
  let ?ex = "exec_op create get compare_and_transition approve reserve"
  show ?case
  proof (cases "wins_op reserve i opn s")
    case True
    then obtain h now c where w: "opn = (h, OpReserve i now)" "fst (reserve h i now s) = Inr c"
      by (cases opn) (auto simp: wins_op_def split: store_op.splits sum.splits)
    have "wins reserve ?ex i ops (snd (reserve h i now s)) = 0"
      using no_win_after[OF Cons.prems(1) w(2), of "snd (reserve h i now s)"]
        reserve_inv[THEN keepsD, OF Cons.prems(1)] Cons.prems(2) by simp
    then show ?thesis using w(1) by simp
  next
    case False
    then show ?thesis using Cons exec_evolves[of s opn] by simp
  qed
qed simp

end

section \<open>The in-memory store\<close>

record memory_store =
  records :: "(digest, transaction_record) btree"
  poisoned :: bool

definition mem_lock :: "(memory_store, tx_store_error, unit) op" where
  "mem_lock s = (if poisoned s then Err Poisoned else Ok (), s)"

definition mem_find :: "digest \<Rightarrow> (memory_store, tx_store_error, transaction_record) op" where
  "mem_find i = bindS mem_lock (\<lambda>_.
     bindS (getS records) (\<lambda>rs. liftS (ok_or (map_of rs i) (NotFound i))))"

definition mem_put :: "digest \<Rightarrow> transaction_record \<Rightarrow> (memory_store, tx_store_error, unit) op" where
  "mem_put i r = modifyS (\<lambda>s. s\<lparr>records := bt_insert i r (records s)\<rparr>)"

definition mem_create :: "transaction_record \<Rightarrow> (memory_store, tx_store_error, unit) op" where
  "mem_create r = bindS mem_lock (\<lambda>_.
     bindS (getS records) (\<lambda>rs.
       if bt_contains rs (rec_id r) then failS (Duplicate (rec_id r))
       else mem_put (rec_id r) r))"

definition mem_get :: "digest \<Rightarrow> (memory_store, tx_store_error, transaction_record) op" where
  "mem_get i = mem_find i"

definition mem_compare_and_transition ::
  "digest \<Rightarrow> tx_state \<Rightarrow> tx_state \<Rightarrow> (memory_store, tx_store_error, transaction_record) op" where
  "mem_compare_and_transition i expected next = bindS (mem_find i) (\<lambda>r.
     if rec_state r \<noteq> expected then failS (StateConflict i expected (rec_state r))
     else bindS (liftS (map_err Transition (transition r next))) (\<lambda>r'.
       bindS (mem_put i r') (\<lambda>_. returnS r')))"

definition mem_approve ::
  "digest \<Rightarrow> approval_grant \<Rightarrow> (memory_store, tx_store_error, transaction_record) op" where
  "mem_approve i grant =
     (if grant_transaction grant \<noteq> i
      then failS (ApprovalBindingMismatch i (grant_transaction grant))
      else bindS (mem_find i) (\<lambda>r.
        if rec_state r \<noteq> PendingApproval then failS (StateConflict i PendingApproval (rec_state r))
        else bindS (liftS (map_err Transition (transition r Approved))) (\<lambda>r'.
          let r'' = r'\<lparr>rec_approval := Some grant\<rparr>
          in bindS (mem_put i r'') (\<lambda>_. returnS r''))))"

text \<open>The last lines of \<open>reserve\<close>, shared by both reservable states.\<close>

definition mem_reserve_record ::
  "digest \<Rightarrow> transaction_record \<Rightarrow> (memory_store, tx_store_error, commit_reservation) op" where
  "mem_reserve_record i r = bindS (liftS (map_err Transition (transition r Reserved))) (\<lambda>r'.
     bindS (mem_put i r') (\<lambda>_. returnS \<lparr>res_transaction = i, res_base = rec_base r'\<rparr>))"

definition mem_reserve ::
  "digest \<Rightarrow> u64 \<Rightarrow> (memory_store, tx_store_error, commit_reservation) op" where
  "mem_reserve i now = bindS (mem_find i) (\<lambda>r.
     if rec_state r = AutoApproved then mem_reserve_record i r
     else if rec_state r = Approved then
       (case rec_approval r of
          None \<Rightarrow> failS (MissingApproval i)
        | Some grant \<Rightarrow>
            if is_expired_at grant now then
              bindS (liftS (map_err Transition (transition r Expired))) (\<lambda>r'.
                bindS (mem_put i r') (\<lambda>_. failS (ApprovalExpired i (grant_expires grant) now)))
            else mem_reserve_record i r)
     else failS (NotReservable i (rec_state r)))"

definition mem_lookup :: "memory_store \<Rightarrow> digest \<Rightarrow> transaction_record option" where
  "mem_lookup s = map_of (records s)"

definition mem_inv :: "memory_store \<Rightarrow> bool" where
  "mem_inv s \<longleftrightarrow> bt_ok (records s) \<and>
     list_all (\<lambda>(i, r). rec_id r = i \<and> unapproved r) (records s)"

lemmas mem_ops_defs = mem_create_def mem_get_def mem_compare_and_transition_def mem_approve_def
  mem_reserve_def mem_reserve_record_def mem_find_def mem_put_def mem_lock_def

lemma bindS_apply: "bindS m f s = (case m s of (Inl e, t) \<Rightarrow> (Inl e, t) | (Inr x, t) \<Rightarrow> f x t)"
  by (rule bindS_def)

lemma mem_invD: "mem_inv s \<Longrightarrow> map_of (records s) i = Some r \<Longrightarrow> rec_id r = i \<and> unapproved r"
  by (auto simp: mem_inv_def list_all_iff dest!: map_of_SomeD)

lemma mem_inv_put:
  "mem_inv s \<Longrightarrow> rec_id r = i \<Longrightarrow> unapproved r \<Longrightarrow> mem_inv (s\<lparr>records := bt_insert i r (records s)\<rparr>)"
proof -
  have "set (bt_insert i r m) \<subseteq> insert (i, r) (set m)" for m :: "(digest, transaction_record) btree"
    by (induction i r m rule: bt_insert.induct) auto
  then show "mem_inv s \<Longrightarrow> rec_id r = i \<Longrightarrow> unapproved r \<Longrightarrow>
      mem_inv (s\<lparr>records := bt_insert i r (records s)\<rparr>)"
    unfolding mem_inv_def list_all_iff by fastforce
qed

text \<open>The laws, one lemma for each method: where the contents change, and how.\<close>

lemma mem_find_apply:
  "mem_find i s = (if poisoned s then Inl Poisoned else ok_or (mem_lookup s i) (NotFound i), s)"
  by (simp add: mem_find_def mem_lock_def bindS_apply mem_lookup_def)

lemma mem_create_apply:
  "mem_create r s =
     (if poisoned s then (Inl Poisoned, s)
      else if mem_lookup s (rec_id r) \<noteq> None then (Inl (Duplicate (rec_id r)), s)
      else (Inr (), s\<lparr>records := bt_insert (rec_id r) r (records s)\<rparr>))"
  by (simp add: mem_create_def mem_put_def mem_lock_def bindS_apply mem_lookup_def bt_contains_def)

lemma mem_cat_apply:
  "mem_compare_and_transition i e n s =
     (if poisoned s then (Inl Poisoned, s)
      else case mem_lookup s i of
        None \<Rightarrow> (Inl (NotFound i), s)
      | Some r \<Rightarrow>
          if rec_state r \<noteq> e then (Inl (StateConflict i e (rec_state r)), s)
          else if \<not> can_transition_to e n then (Inl (Transition \<lparr>te_from = e, te_to = n\<rparr>), s)
          else (Inr (r\<lparr>rec_state := n\<rparr>),
                s\<lparr>records := bt_insert i (r\<lparr>rec_state := n\<rparr>) (records s)\<rparr>))"
  by (auto simp: mem_compare_and_transition_def mem_find_apply mem_put_def transition_def
      bindS_apply split: option.splits)

lemma mem_approve_apply:
  "mem_approve i g s =
     (if grant_transaction g \<noteq> i then (Inl (ApprovalBindingMismatch i (grant_transaction g)), s)
      else if poisoned s then (Inl Poisoned, s)
      else case mem_lookup s i of
        None \<Rightarrow> (Inl (NotFound i), s)
      | Some r \<Rightarrow>
          if rec_state r \<noteq> PendingApproval
          then (Inl (StateConflict i PendingApproval (rec_state r)), s)
          else let r' = r\<lparr>rec_state := Approved, rec_approval := Some g\<rparr>
            in (Inr r', s\<lparr>records := bt_insert i r' (records s)\<rparr>))"
  by (auto simp: mem_approve_def mem_find_apply mem_put_def transition_def can_transition_to_def
      bindS_apply Let_def split: option.splits)

lemma mem_reserve_apply:
  "mem_reserve i now s =
     (if poisoned s then (Inl Poisoned, s)
      else case mem_lookup s i of
        None \<Rightarrow> (Inl (NotFound i), s)
      | Some r \<Rightarrow>
          let won = (Inr \<lparr>res_transaction = i, res_base = rec_base r\<rparr>,
            s\<lparr>records := bt_insert i (r\<lparr>rec_state := Reserved\<rparr>) (records s)\<rparr>)
          in if rec_state r = AutoApproved then won
             else if rec_state r = Approved then
               (case rec_approval r of
                  None \<Rightarrow> (Inl (MissingApproval i), s)
                | Some g \<Rightarrow>
                    if is_expired_at g now then
                      (Inl (ApprovalExpired i (grant_expires g) now),
                       s\<lparr>records := bt_insert i (r\<lparr>rec_state := Expired\<rparr>) (records s)\<rparr>)
                    else won)
             else (Inl (NotReservable i (rec_state r)), s))"
  by (auto simp: mem_reserve_def mem_reserve_record_def mem_find_apply mem_put_def transition_def
      can_transition_to_def bindS_apply Let_def split: option.splits)

lemma mem_lookup_put:
  "mem_lookup (s\<lparr>records := bt_insert i r (records s)\<rparr>) = (mem_lookup s)(i \<mapsto> r)"
  by (simp add: mem_lookup_def)

lemma mem_inv_lookup: "mem_inv s \<Longrightarrow> mem_lookup s i = Some r \<Longrightarrow> rec_id r = i \<and> unapproved r"
  by (simp add: mem_lookup_def mem_invD)

lemma unapproved_step:
  "unapproved r \<Longrightarrow> can_transition_to (rec_state r) n \<Longrightarrow> unapproved (r\<lparr>rec_state := n\<rparr>)"
  by (auto simp: unapproved_def can_transition_to_def)

lemma unapproved_late:
  "rec_state r \<in> {Approved, Reserved, Expired} \<Longrightarrow> unapproved r"
  by (auto simp: unapproved_def)

lemma mem_inv_put_lookup:
  "mem_inv s \<Longrightarrow> mem_lookup s i = Some r \<Longrightarrow> rec_id r' = rec_id r \<Longrightarrow> unapproved r' \<Longrightarrow>
   mem_inv (s\<lparr>records := bt_insert i r' (records s)\<rparr>)"
  using mem_inv_lookup[of s i r] by (simp add: mem_inv_put)

lemma mem_inv_step:
  assumes "mem_inv s" "mem_lookup s i = Some r" "can_transition_to (rec_state r) n"
  shows "mem_inv (s\<lparr>records := bt_insert i (r\<lparr>rec_state := n\<rparr>) (records s)\<rparr>)"
  using mem_inv_put_lookup[OF assms(1,2)] unapproved_step[OF _ assms(3)] mem_inv_lookup[OF assms(1,2)]
  by simp

lemma mem_keeps:
  "rec_approval r = None \<Longrightarrow> keeps mem_inv (mem_create r)"
  "keeps mem_inv (mem_get i)"
  "keeps mem_inv (mem_compare_and_transition i e n)"
  "keeps mem_inv (mem_approve i g)"
  "keeps mem_inv (mem_reserve i now)"
proof -
  show "rec_approval r = None \<Longrightarrow> keeps mem_inv (mem_create r)"
    by (auto simp: keeps_def mem_create_apply unapproved_def intro!: mem_inv_put)
  show "keeps mem_inv (mem_get i)"
    by (simp add: keeps_def mem_get_def mem_find_apply)
  show "keeps mem_inv (mem_compare_and_transition i e n)"
    unfolding keeps_def mem_cat_apply
    by (auto split: option.splits intro!: mem_inv_step
        dest: mem_inv_lookup)
  show "keeps mem_inv (mem_approve i g)"
    unfolding keeps_def mem_approve_apply
    by (auto split: option.splits simp: Let_def intro!: mem_inv_put_lookup unapproved_late)
  show "keeps mem_inv (mem_reserve i now)"
    unfolding keeps_def mem_reserve_apply
    by (auto split: option.splits simp: Let_def intro!: mem_inv_put_lookup unapproved_late)
qed

text \<open>Clones of the store share its contents, so every handle acts alike.\<close>

interpretation mem: transaction_store "\<lambda>_. True" mem_lookup mem_inv "\<lambda>_. mem_create" "\<lambda>_. mem_get"
  "\<lambda>_. mem_compare_and_transition" "\<lambda>_. mem_approve" "\<lambda>_. mem_reserve"
proof (unfold_locales, goal_cases)
  case (1 r) then show ?case by (rule mem_keeps)
next
  case 2 show ?case by (rule mem_keeps)
next
  case 3 show ?case by (rule mem_keeps)
next
  case 4 show ?case by (rule mem_keeps)
next
  case 5 show ?case by (rule mem_keeps)
next
  case (6 s r) then show ?case by (auto simp: mem_create_apply mem_lookup_put)
next
  case (7 s i) then show ?case by (simp add: mem_get_def mem_find_apply)
next
  case (8 s i r) then show ?case by (auto simp: mem_get_def mem_find_apply split: if_splits)
next
  case (9 s i e n) then show ?case
    by (auto simp: mem_cat_apply mem_lookup_put split: option.splits)
next
  case (10 s i g) then show ?case
    by (auto simp: mem_approve_apply mem_lookup_put Let_def split: option.splits)
next
  case (11 s i now) then show ?case
    by (auto simp: mem_reserve_apply mem_lookup_put Let_def can_transition_to_def
        split: option.splits)
next
  case (12 s i now c) then show ?case
    by (auto simp: mem_reserve_apply mem_lookup_put Let_def split: option.splits if_splits)
next
  case (13 s i r) then show ?case using mem_inv_lookup by blast
qed

definition mem_empty :: memory_store where
  "mem_empty = \<lparr>records = [], poisoned = False\<rparr>"

lemma mem_inv_empty [simp]: "mem_inv mem_empty"
  by (simp add: mem_inv_def mem_empty_def)

end
