(* ===== verification/Persist.thy ===== *)
theory Persist
  imports Store
begin

text \<open>
  The durable transaction store (\<open>crates/vsh-store/src/persistent.rs\<close>): an append-only log of
  checksummed record frames in one of two files, selected by a double-buffered control file.
  The disk is the three files as byte strings; every method takes the file lock, so it is one
  step on the disk and on the cached state of the handle.  Operating-system failures other than
  a torn tail are outside the model (\<open>PersistentIo\<close> is never returned); file offsets are \<open>nat\<close>
  with the saturation of the \<open>u64\<close> additions written out.
\<close>

section \<open>Constants and configuration\<close>

definition log_magic :: bytes where "log_magic = str_bytes ''VSHST001''"
definition control_magic :: bytes where "control_magic = str_bytes ''VSHCT001''"

definition header_bytes :: nat where "header_bytes = 8"
definition control_header_bytes :: nat where "control_header_bytes = 8"
definition digest_bytes :: nat where "digest_bytes = 32"
definition control_payload_bytes :: nat where "control_payload_bytes = 8 + 1"
definition control_record_bytes :: nat where
  "control_record_bytes = control_payload_bytes + digest_bytes"
definition control_bytes :: nat where
  "control_bytes = control_header_bytes + control_record_bytes * 2"
definition old_min_payload_bytes :: nat where "old_min_payload_bytes = 32 + 32 + 1 + 1"
definition min_payload_bytes :: nat where "min_payload_bytes = 32 + 32 + 1 + 1 + 1"
definition artifact_payload_bytes :: nat where "artifact_payload_bytes = 32"
definition approval_payload_bytes :: nat where "approval_payload_bytes = 32 + 8 + 8"
definition old_max_payload_bytes :: nat where
  "old_max_payload_bytes = old_min_payload_bytes + approval_payload_bytes"
definition max_payload_bytes :: nat where
  "max_payload_bytes = min_payload_bytes + artifact_payload_bytes + approval_payload_bytes"

lemmas size_defs = header_bytes_def control_header_bytes_def digest_bytes_def
  control_payload_bytes_def control_record_bytes_def control_bytes_def old_min_payload_bytes_def
  min_payload_bytes_def artifact_payload_bytes_def approval_payload_bytes_def
  old_max_payload_bytes_def max_payload_bytes_def

record file_store_config =
  max_log_bytes :: nat
  max_records :: nat

definition validate_config :: "file_store_config \<Rightarrow> tx_store_error + unit" where
  "validate_config config =
     (if max_log_bytes config < header_bytes
      then Err (PersistentLogLimit (of_nat header_bytes) (of_nat (max_log_bytes config)))
      else if max_records config = 0 then Err (PersistentRecordLimit 1 0)
      else Ok ())"

text \<open>\<open>u64::saturating_add\<close> on offsets.\<close>

definition sat_add :: "nat \<Rightarrow> nat \<Rightarrow> nat" where
  "sat_add a b = min (a + b) (2 ^ 64 - 1)"

definition corrupt :: "nat \<Rightarrow> string \<Rightarrow> tx_store_error" where
  "corrupt offset reason = PersistentCorrupt (of_nat offset) reason"

section \<open>Record payloads\<close>

fun state_tag :: "tx_state \<Rightarrow> u8" where
  "state_tag Created = 1"
| "state_tag Running = 2"
| "state_tag VirtualComplete = 3"
| "state_tag Denied = 4"
| "state_tag AutoApproved = 5"
| "state_tag PendingApproval = 6"
| "state_tag Approved = 7"
| "state_tag Reserved = 8"
| "state_tag Revalidating = 9"
| "state_tag Committing = 10"
| "state_tag Committed = 11"
| "state_tag Stale = 12"
| "state_tag Expired = 13"
| "state_tag RecoveryRequired = 14"
| "state_tag Failed = 15"
| "state_tag Rejected = 16"

definition decode_state_tag :: "u8 \<Rightarrow> tx_state option" where
  "decode_state_tag tag =
     (if tag = 1 then Some Created
      else if tag = 2 then Some Running
      else if tag = 3 then Some VirtualComplete
      else if tag = 4 then Some Denied
      else if tag = 5 then Some AutoApproved
      else if tag = 6 then Some PendingApproval
      else if tag = 7 then Some Approved
      else if tag = 8 then Some Reserved
      else if tag = 9 then Some Revalidating
      else if tag = 10 then Some Committing
      else if tag = 11 then Some Committed
      else if tag = 12 then Some Stale
      else if tag = 13 then Some Expired
      else if tag = 14 then Some RecoveryRequired
      else if tag = 15 then Some Failed
      else if tag = 16 then Some Rejected
      else None)"

definition encode_record :: "transaction_record \<Rightarrow> bytes" where
  "encode_record r =
     as_bytes (rec_id r) @ as_bytes (rec_base r) @ [state_tag (rec_state r)] @
     (case rec_artifact r of None \<Rightarrow> [0] | Some a \<Rightarrow> 1 # as_bytes a) @
     (case rec_approval r of
        None \<Rightarrow> [0]
      | Some g \<Rightarrow> 1 # as_bytes (ab_principal (grant_binding g)) @
          u64_bytes (ab_issued_at (grant_binding g)) @ u64_bytes (ab_expires_at (grant_binding g)))"

definition validate_record :: "transaction_record \<Rightarrow> nat \<Rightarrow> tx_store_error + unit" where
  "validate_record r offset =
     (if (case rec_approval r of Some g \<Rightarrow> grant_transaction g \<noteq> rec_id r | None \<Rightarrow> False)
      then Err (corrupt offset ''approval does not bind its transaction'')
      else if rec_state r \<in> {Created, Running, VirtualComplete, Denied, AutoApproved,
          PendingApproval} \<and> rec_approval r \<noteq> None
      then Err (corrupt offset ''approval exists before the approved state'')
      else if rec_state r \<in> {Approved, Expired} \<and> rec_approval r = None
      then Err (corrupt offset ''manual approval state lacks its grant'')
      else Ok ())"

text \<open>The bytes \<open>payload[from..to]\<close> of a slice known to be long enough.\<close>

definition slice :: "nat \<Rightarrow> nat \<Rightarrow> bytes \<Rightarrow> bytes" where
  "slice i j bs = take (j - i) (drop i bs)"

definition decode_legacy_record ::
  "(bytes \<Rightarrow> digest) \<Rightarrow> bytes \<Rightarrow> nat \<Rightarrow> tx_store_error + transaction_record" where
  "decode_legacy_record blake3 payload offset =
     (let i = from_bytes (slice 0 32 payload);
          base = from_bytes (slice 32 64 payload) in
      bindR (ok_or (decode_state_tag (payload ! 64))
        (corrupt offset ''unknown legacy transaction state tag'')) (\<lambda>st.
      bindR
        (if payload ! 65 = 0 \<and> length payload = old_min_payload_bytes then Ok None
         else if payload ! 65 = 1 \<and> length payload = old_max_payload_bytes then
           bindR (map_err (\<lambda>_. corrupt offset ''invalid legacy approval window'')
             (new_grant blake3 i (from_bytes (slice 66 98 payload))
               (le_word (slice 98 106 payload)) (le_word (slice 106 114 payload))))
             (\<lambda>g. Ok (Some g))
         else Err (corrupt offset ''invalid legacy approval encoding'')) (\<lambda>approval.
      let r = \<lparr>rec_id = i, rec_base = base, rec_state = st, rec_artifact = None,
               rec_approval = approval\<rparr> in
      bindR (validate_record r offset) (\<lambda>_. Ok r))))"

definition decode_record ::
  "(bytes \<Rightarrow> digest) \<Rightarrow> bytes \<Rightarrow> nat \<Rightarrow> tx_store_error + transaction_record" where
  "decode_record blake3 payload offset =
     (if length payload = old_min_payload_bytes \<or> length payload = old_max_payload_bytes
      then decode_legacy_record blake3 payload offset
      else if length payload \<notin> {min_payload_bytes, min_payload_bytes + artifact_payload_bytes,
          min_payload_bytes + approval_payload_bytes, max_payload_bytes}
      then Err (corrupt offset ''invalid transaction-record size'')
      else
      let i = from_bytes (slice 0 32 payload);
          base = from_bytes (slice 32 64 payload) in
      bindR (ok_or (decode_state_tag (payload ! 64))
        (corrupt offset ''unknown transaction state tag'')) (\<lambda>st.
      bindR
        (if payload ! 65 = 0 then Ok (None, 66)
         else if payload ! 65 = 1 then
           (if 66 + artifact_payload_bytes \<le> length payload
            then Ok (Some (from_bytes (slice 66 (66 + artifact_payload_bytes) payload)),
                     66 + artifact_payload_bytes)
            else Err (corrupt offset ''truncated persisted artifact identity''))
         else Err (corrupt offset ''invalid persisted artifact encoding'')) (\<lambda>(artifact, cursor).
      bindR
        (if cursor < length payload then Ok (payload ! cursor)
         else Err (corrupt offset ''missing persisted approval encoding'')) (\<lambda>approval_tag.
      let cursor = cursor + 1 in
      bindR
        (if approval_tag = 0 \<and> cursor = length payload then Ok None
         else if approval_tag = 1 \<and> cursor + approval_payload_bytes = length payload then
           bindR (map_err (\<lambda>_. corrupt offset ''invalid persisted approval window'')
             (new_grant blake3 i (from_bytes (slice cursor (cursor + 32) payload))
               (le_word (slice (cursor + 32) (cursor + 40) payload))
               (le_word (slice (cursor + 40) (cursor + 48) payload))))
             (\<lambda>g. Ok (Some g))
         else Err (corrupt offset ''invalid persisted approval encoding'')) (\<lambda>approval.
      let r = \<lparr>rec_id = i, rec_base = base, rec_state = st, rec_artifact = artifact,
               rec_approval = approval\<rparr> in
      bindR (validate_record r offset) (\<lambda>_. Ok r))))))"

text \<open>A grant as \<open>ApprovalGrant::new\<close> builds it, and a record a store may hold.\<close>

definition grant_ok :: "(bytes \<Rightarrow> digest) \<Rightarrow> approval_grant \<Rightarrow> bool" where
  "grant_ok blake3 g \<longleftrightarrow> grant_id g = approval_id blake3 (grant_binding g) \<and>
     ab_issued_at (grant_binding g) < ab_expires_at (grant_binding g)"

definition record_ok :: "(bytes \<Rightarrow> digest) \<Rightarrow> transaction_record \<Rightarrow> bool" where
  "record_ok blake3 r \<longleftrightarrow> validate_record r 0 = Ok () \<and>
     (\<forall>g. rec_approval r = Some g \<longrightarrow> grant_ok blake3 g)"

lemma validate_record_offset:
  "validate_record r 0 = Inr () \<Longrightarrow> validate_record r offset = Inr ()"
  by (auto simp: validate_record_def split: if_splits option.splits)

lemma decode_state_tag [simp]: "decode_state_tag (state_tag s) = Some s"
  by (cases s) (simp_all add: decode_state_tag_def)

lemma slice_prefix: "length a = n \<Longrightarrow> slice 0 n (a @ b) = a"
  by (simp add: slice_def)

lemma slice_all: "length a = n \<Longrightarrow> slice 0 n a = a"
  by (simp add: slice_def)

lemma slice_skip: "length a \<le> i \<Longrightarrow> slice i j (a @ b) = slice (i - length a) (j - length a) b"
  by (simp add: slice_def)

lemma nth_skip: "length a \<le> i \<Longrightarrow> (a @ b) ! i = b ! (i - length a)"
  by (simp add: nth_append)

lemma slice_Cons: "0 < i \<Longrightarrow> slice i j (x # b) = slice (i - 1) (j - 1) b"
  by (cases i) (simp_all add: slice_def)

lemma length_encode_record:
  "length (encode_record r) = min_payload_bytes +
     (if rec_artifact r = None then 0 else artifact_payload_bytes) +
     (if rec_approval r = None then 0 else approval_payload_bytes)"
  by (auto simp: encode_record_def size_defs split: option.splits)

lemma decode_encode_record:
  assumes "record_ok blake3 r"
  shows "decode_record blake3 (encode_record r) offset = Ok r"
proof -
  have valid: "validate_record r offset = Ok ()"
    using assms validate_record_offset by (simp add: record_ok_def)
  have grant: "new_grant blake3 (rec_id r) (ab_principal (grant_binding g))
      (ab_issued_at (grant_binding g)) (ab_expires_at (grant_binding g)) = Ok g"
    if "rec_approval r = Some g" for g
  proof -
    have "ab_transaction (grant_binding g) = rec_id r"
      using valid that by (auto simp: validate_record_def grant_transaction_def split: if_splits)
    then show ?thesis
      using assms that
      by (auto simp: record_ok_def grant_ok_def new_grant_def Let_def not_le
          intro!: approval_grant.equality arg_cong[where f = "approval_id blake3"])
  qed
  obtain i base st art app where r: "r = \<lparr>rec_id = i, rec_base = base, rec_state = st,
    rec_artifact = art, rec_approval = app\<rparr>" by (cases r)
  show ?thesis
    using valid grant unfolding r
    by (cases art; cases app)
       (simp_all add: decode_record_def encode_record_def size_defs slice_prefix slice_all slice_skip
         slice_Cons nth_skip Let_def)
qed

end
