(* ===== verification/PersistLog.thy ===== *)
theory PersistLog
  imports Persist
begin

text \<open>
  The files of the durable transaction store (\<open>crates/vsh-store/src/persistent.rs\<close>): the control
  file with its two checksummed slots, the two log files, replay and repair of the active log,
  appending and compaction, and the five operations of \<open>FileTransactionStore\<close>.
\<close>

section \<open>Files\<close>

text \<open>\<open>File::set_len\<close>, and \<open>write_all\<close> after a seek.\<close>

definition set_len :: "nat \<Rightarrow> bytes \<Rightarrow> bytes" where
  "set_len n f = take n f @ replicate (n - length f) 0"

definition write_at :: "nat \<Rightarrow> bytes \<Rightarrow> bytes \<Rightarrow> bytes" where
  "write_at off data f =
     take off f @ replicate (off - length f) 0 @ data @ drop (off + length data) f"

record disk =
  control_file :: bytes
  log_file :: bytes
  alternate_log_file :: bytes

record control_state =
  generation :: u64
  slot :: u8

record persistent_state =
  ps_records :: "(digest, transaction_record) btree"
  ps_offset :: nat
  ps_generation :: u64
  ps_slot :: u8

definition log_of :: "u8 \<Rightarrow> disk \<Rightarrow> bytes" where
  "log_of s d = (if s = 0 then log_file d else alternate_log_file d)"

definition set_log :: "u8 \<Rightarrow> bytes \<Rightarrow> disk \<Rightarrow> disk" where
  "set_log s f d = (if s = 0 then d\<lparr>log_file := f\<rparr> else d\<lparr>alternate_log_file := f\<rparr>)"

section \<open>The control file\<close>

definition control_slot_offset :: "nat \<Rightarrow> nat" where
  "control_slot_offset n = control_header_bytes + n * control_record_bytes"

definition control_payload :: "control_state \<Rightarrow> bytes" where
  "control_payload c = u64_bytes (generation c) @ [slot c]"

definition control_record :: "(bytes \<Rightarrow> digest) \<Rightarrow> control_state \<Rightarrow> bytes" where
  "control_record blake3 c =
     control_payload c @ as_bytes (blob_digest blake3 (control_payload c))"

text \<open>One turn of the loop over the slots: \<open>None\<close> is a slot skipped for its checksum.\<close>

definition read_slot ::
  "(bytes \<Rightarrow> digest) \<Rightarrow> bytes \<Rightarrow> nat \<Rightarrow> tx_store_error + control_state option" where
  "read_slot blake3 control n =
     (let offset = control_slot_offset n;
          encoded = slice offset (offset + control_record_bytes) control;
          payload = take control_payload_bytes encoded;
          digest = drop control_payload_bytes encoded in
      if as_bytes (blob_digest blake3 payload) \<noteq> digest then Ok None
      else
      let candidate = \<lparr>generation = le_word (take 8 payload), slot = payload ! 8\<rparr> in
      if unat (slot candidate) \<noteq> n then Err (corrupt offset ''invalid state-control slot'')
      else if unat (generation candidate AND 1) \<noteq> n
      then Err (corrupt offset ''state-control generation is in the wrong slot'')
      else Ok (Some candidate))"

definition candidates_of :: "control_state option \<Rightarrow> control_state option \<Rightarrow> control_state list" where
  "candidates_of a b = sort_key generation (List.map_filter id [a, b])"

definition read_control :: "(bytes \<Rightarrow> digest) \<Rightarrow> bytes \<Rightarrow> tx_store_error + control_state" where
  "read_control blake3 control =
     (if length control \<noteq> control_bytes
      then Err (corrupt 0 ''invalid state-control file length'')
      else if take control_header_bytes control \<noteq> control_magic
      then Err (corrupt 0 ''invalid state-control header'')
      else bindR (read_slot blake3 control 0) (\<lambda>a. bindR (read_slot blake3 control 1) (\<lambda>b.
        case candidates_of a b of
          [] \<Rightarrow> Err (corrupt control_header_bytes ''state-control file has no valid slot'')
        | [c] \<Rightarrow> Ok c
        | [older, newer] \<Rightarrow>
            if generation newer \<noteq> saturating_add (generation older) 1
            then Err (corrupt control_header_bytes ''state-control generations are not consecutive'')
            else Ok newer
        | cs \<Rightarrow> Ok (last cs))))"

definition initialize_control_slots :: "(bytes \<Rightarrow> digest) \<Rightarrow> bytes" where
  "initialize_control_slots blake3 =
     control_magic @ control_record blake3 \<lparr>generation = 0, slot = 0\<rparr> @
     replicate control_record_bytes 0"

definition initialize_control ::
  "(bytes \<Rightarrow> digest) \<Rightarrow> (bytes, tx_store_error, control_state) op" where
  "initialize_control blake3 control =
     (if length control < control_header_bytes then
        (if \<not> prefix control control_magic
         then (Err (corrupt 0 ''invalid state-control header''), control)
         else let fresh = initialize_control_slots blake3 in (read_control blake3 fresh, fresh))
      else if take control_header_bytes control \<noteq> control_magic
      then (Err (corrupt 0 ''invalid state-control header''), control)
      else
      let repaired = (if length control \<noteq> control_bytes then set_len control_bytes control
                      else control) in
      case read_control blake3 repaired of
        Inr c \<Rightarrow> (Ok c, repaired)
      | Inl e \<Rightarrow>
          if e = corrupt control_header_bytes ''state-control file has no valid slot''
            \<and> length control < control_bytes
          then let fresh = initialize_control_slots blake3 in (read_control blake3 fresh, fresh)
          else (Err e, repaired))"

definition append_control ::
  "(bytes \<Rightarrow> digest) \<Rightarrow> control_state \<Rightarrow> control_state \<Rightarrow> (bytes, tx_store_error, unit) op" where
  "append_control blake3 current next control =
     (if generation next \<noteq> saturating_add (generation current) 1 \<or>
         slot next \<noteq> slot current XOR 1
      then (Err (corrupt control_header_bytes ''invalid state-control append''), control)
      else case read_control blake3 control of
        Inl e \<Rightarrow> (Err e, control)
      | Inr c \<Rightarrow>
          if c \<noteq> current
          then (Err (corrupt control_header_bytes
                  ''state-control changed while exclusively locked''), control)
          else (Ok (), write_at (control_slot_offset (unat (slot next)))
                         (control_record blake3 next) control))"

section \<open>The active log\<close>

definition initialize_header :: "(bytes, tx_store_error, unit) op" where
  "initialize_header log =
     (if length log = 0 then (Ok (), log_magic)
      else if length log < header_bytes then
        (if \<not> prefix log log_magic then (Err (corrupt 0 ''invalid state-log header''), log)
         else (Ok (), log_magic))
      else if take header_bytes log \<noteq> log_magic
      then (Err (corrupt 0 ''invalid state-log header''), log)
      else (Ok (), log))"

definition apply_replayed_record ::
  "(digest, transaction_record) btree \<Rightarrow> transaction_record \<Rightarrow> nat \<Rightarrow> nat \<Rightarrow>
   tx_store_error + (digest, transaction_record) btree" where
  "apply_replayed_record rs r offset maximum =
     bindR
       (case map_of rs (rec_id r) of
          None \<Rightarrow>
            if maximum \<le> length rs then Err (PersistentRecordLimit (sat_add (length rs) 1) maximum)
            else Ok ()
        | Some previous \<Rightarrow>
            if rec_base previous \<noteq> rec_base r
            then Err (corrupt offset ''transaction base snapshot changed'')
            else if rec_artifact previous \<noteq> rec_artifact r
            then Err (corrupt offset ''transaction artifact binding changed'')
            else if \<not> can_transition_to (rec_state previous) (rec_state r)
            then Err (corrupt offset ''invalid persisted transaction transition'')
            else (case (rec_approval previous, rec_approval r) of
                (None, Some g) \<Rightarrow>
                  if rec_state previous = PendingApproval \<and> rec_state r = Approved then Ok ()
                  else Err (corrupt offset ''persisted approval binding changed'')
              | (Some before, Some after) \<Rightarrow>
                  if before = after then Ok ()
                  else Err (corrupt offset ''persisted approval binding changed'')
              | (None, None) \<Rightarrow> Ok ()
              | (Some before, None) \<Rightarrow>
                  Err (corrupt offset ''persisted approval binding changed'')))
       (\<lambda>_. Ok (bt_insert (rec_id r) r rs))"

definition truncate_torn_tail ::
  "nat \<Rightarrow> bytes \<times> persistent_state \<Rightarrow> bytes \<times> persistent_state" where
  "truncate_torn_tail frame_start f =
     (set_len frame_start (fst f), (snd f)\<lparr>ps_offset := frame_start\<rparr>)"

text \<open>
  The loop of \<open>refresh\<close>: every turn reads one frame behind the cached offset.  An error leaves
  the records replayed so far in the cached state.
\<close>

function refresh_loop ::
  "(bytes \<Rightarrow> digest) \<Rightarrow> file_store_config \<Rightarrow> nat \<Rightarrow> (bytes \<times> persistent_state, tx_store_error, unit) op"
where
  "refresh_loop blake3 config log_length (log, st) =
     (let frame_start = ps_offset st in
      if \<not> frame_start < log_length then (Ok (), log, st)
      else if length log < frame_start + 4
      then (Ok (), truncate_torn_tail frame_start (log, st))
      else
      let payload_length = unat (le_word (slice frame_start (frame_start + 4) log) :: u32);
          payload_end = frame_start + 4 + payload_length in
      if payload_length < old_min_payload_bytes \<or> max_payload_bytes < payload_length
      then (Err (corrupt frame_start ''invalid state-frame length''), log, st)
      else if length log < payload_end + digest_bytes
      then (Ok (), truncate_torn_tail frame_start (log, st))
      else
      let payload = slice (frame_start + 4) payload_end log;
          encoded_digest = slice payload_end (payload_end + digest_bytes) log in
      if as_bytes (blob_digest blake3 payload) \<noteq> encoded_digest
      then (Err (corrupt frame_start ''state-frame checksum mismatch''), log, st)
      else case bindR (decode_record blake3 payload frame_start) (\<lambda>r.
          apply_replayed_record (ps_records st) r frame_start (max_records config)) of
        Inl e \<Rightarrow> (Err e, log, st)
      | Inr rs \<Rightarrow> refresh_loop blake3 config log_length
          (log, st\<lparr>ps_records := rs, ps_offset := payload_end + digest_bytes\<rparr>))"
  by pat_completeness auto
termination
  by (relation "measure (\<lambda>(_, _, n, _, st). n - ps_offset st)") auto

declare refresh_loop.simps [simp del]

definition refresh ::
  "(bytes \<Rightarrow> digest) \<Rightarrow> file_store_config \<Rightarrow> control_state \<Rightarrow>
   (bytes \<times> persistent_state, tx_store_error, unit) op" where
  "refresh blake3 config control f =
     (let log = fst f;
          st = (if ps_generation (snd f) \<noteq> generation control \<or> ps_slot (snd f) \<noteq> slot control
                then \<lparr>ps_records = [], ps_offset = header_bytes,
                      ps_generation = generation control, ps_slot = slot control\<rparr>
                else snd f);
          log_length = length log in
      if max_log_bytes config < log_length
      then (Err (PersistentLogLimit (of_nat log_length) (of_nat (max_log_bytes config))), log, st)
      else if log_length < ps_offset st \<or> ps_offset st < header_bytes
      then (Err (corrupt (ps_offset st) ''state log moved backwards''), log, st)
      else refresh_loop blake3 config log_length (log, st))"

definition write_record_frame ::
  "(bytes \<Rightarrow> digest) \<Rightarrow> file_store_config \<Rightarrow> transaction_record \<Rightarrow> nat \<Rightarrow>
   (bytes, tx_store_error, nat) op" where
  "write_record_frame blake3 config r offset log =
     (case validate_record r offset of
        Inl e \<Rightarrow> (Err e, log)
      | Inr _ \<Rightarrow>
          let payload = encode_record r;
              observed = sat_add offset (sat_add (sat_add 4 (length payload)) digest_bytes) in
          if max_log_bytes config < observed
          then (Err (PersistentLogLimit (of_nat observed) (of_nat (max_log_bytes config))), log)
          else (Ok observed, write_at offset
                  (u32_bytes (of_nat (length payload)) @ payload @
                   as_bytes (blob_digest blake3 payload)) log))"

text \<open>\<open>append_record\<close>: the frame is written and synchronized, then the cached offset moves.\<close>

definition append_record ::
  "(bytes \<Rightarrow> digest) \<Rightarrow> file_store_config \<Rightarrow> transaction_record \<Rightarrow>
   (bytes \<times> persistent_state, tx_store_error, unit) op" where
  "append_record blake3 config r f =
     (case write_record_frame blake3 config r (ps_offset (snd f)) (fst f) of
        (Inl e, log) \<Rightarrow> (Err e, log, snd f)
      | (Inr observed, log) \<Rightarrow> (Ok (), log, (snd f)\<lparr>ps_offset := observed\<rparr>))"

section \<open>Compaction\<close>

text \<open>The loop over the cached records, with the pair \<open>(offset, wrote_record)\<close>.\<close>

fun compact_loop ::
  "(bytes \<Rightarrow> digest) \<Rightarrow> file_store_config \<Rightarrow> transaction_record \<Rightarrow>
   (digest, transaction_record) btree \<Rightarrow> nat \<times> bool \<Rightarrow> (bytes, tx_store_error, nat \<times> bool) op" where
  "compact_loop blake3 config r [] cur = returnS cur"
| "compact_loop blake3 config r ((i, existing) # es) cur =
     bindS
       (if \<not> snd cur \<and> rec_id r < i
        then bindS (write_record_frame blake3 config r (fst cur)) (\<lambda>offset. returnS (offset, True))
        else returnS cur) (\<lambda>cur.
     bindS
       (if i = rec_id r
        then bindS (write_record_frame blake3 config r (fst cur)) (\<lambda>offset. returnS (offset, True))
        else bindS (write_record_frame blake3 config existing (fst cur))
               (\<lambda>offset. returnS (offset, snd cur)))
       (compact_loop blake3 config r es))"

definition compact_log ::
  "(bytes \<Rightarrow> digest) \<Rightarrow> file_store_config \<Rightarrow> transaction_record \<Rightarrow>
   (digest, transaction_record) btree \<Rightarrow> (bytes, tx_store_error, nat) op" where
  "compact_log blake3 config r rs =
     bindS (modifyS (\<lambda>_. log_magic)) (\<lambda>_.
     bindS (compact_loop blake3 config r rs (header_bytes, False)) (\<lambda>cur.
       if \<not> snd cur then write_record_frame blake3 config r (fst cur) else returnS (fst cur)))"

definition compact ::
  "(bytes \<Rightarrow> digest) \<Rightarrow> file_store_config \<Rightarrow> control_state \<Rightarrow> transaction_record \<Rightarrow>
   (disk \<times> persistent_state, tx_store_error, unit) op" where
  "compact blake3 config control r f =
     (let d = fst f; st = snd f in
      case checked_add (generation control) 1 of
        None \<Rightarrow> (Err (corrupt control_header_bytes ''state-log control generation exhausted''), d, st)
      | Some g \<Rightarrow>
          let next = \<lparr>generation = g, slot = slot control XOR 1\<rparr> in
          (case compact_log blake3 config r (ps_records st) (log_of (slot next) d) of
             (Inl e, log) \<Rightarrow> (Err e, set_log (slot next) log d, st)
           | (Inr offset, log) \<Rightarrow>
               let d' = set_log (slot next) log d in
               (case append_control blake3 control next (control_file d') of
                  (Inl e, c) \<Rightarrow> (Err e, d'\<lparr>control_file := c\<rparr>, st)
                | (Inr _, c) \<Rightarrow> (Ok (), d'\<lparr>control_file := c\<rparr>,
                    \<lparr>ps_records = bt_insert (rec_id r) r (ps_records st), ps_offset = offset,
                     ps_generation = generation next, ps_slot = slot next\<rparr>))))"

section \<open>Operations\<close>

record 'r mutation =
  mut_persist :: "transaction_record option"
  mut_result :: "tx_store_error + 'r"

definition on_log ::
  "u8 \<Rightarrow> (bytes \<times> persistent_state, 'e, 'a) op \<Rightarrow> (disk \<times> persistent_state, 'e, 'a) op" where
  "on_log s m f =
     (case m (log_of s (fst f), snd f) of (r, log, st) \<Rightarrow> (r, set_log s log (fst f), st))"

text \<open>
  \<open>transact\<close>: both locks are held from the first to the last line, so the method is one step.
\<close>

definition persist_record ::
  "(bytes \<Rightarrow> digest) \<Rightarrow> file_store_config \<Rightarrow> control_state \<Rightarrow> transaction_record \<Rightarrow>
   (disk \<times> persistent_state, tx_store_error, unit) op" where
  "persist_record blake3 config control r f =
     (let rs = ps_records (snd f) in
      if \<not> bt_contains rs (rec_id r) \<and> max_records config \<le> length rs
      then (Err (PersistentRecordLimit (sat_add (length rs) 1) (max_records config)), f)
      else case on_log (slot control) (append_record blake3 config r) f of
        (Inr _, d, st) \<Rightarrow> (Ok (), d, st\<lparr>ps_records := bt_insert (rec_id r) r rs\<rparr>)
      | (Inl (PersistentLogLimit observed maximum), f) \<Rightarrow> compact blake3 config control r f
      | (Inl e, f) \<Rightarrow> (Err e, f))"

definition transact ::
  "(bytes \<Rightarrow> digest) \<Rightarrow> file_store_config \<Rightarrow>
   ((digest, transaction_record) btree \<Rightarrow> tx_store_error + 'r mutation) \<Rightarrow>
   (disk \<times> persistent_state, tx_store_error, 'r) op" where
  "transact blake3 config operation =
     bindS (\<lambda>f. (read_control blake3 (control_file (fst f)), f)) (\<lambda>control.
     bindS (on_log (slot control) (\<lambda>(log, st). let (r, log') = initialize_header log in (r, log', st)))
       (\<lambda>_.
     bindS (on_log (slot control) (refresh blake3 config control)) (\<lambda>_.
     bindS (\<lambda>f. (operation (ps_records (snd f)), f)) (\<lambda>mutation.
     bindS (case mut_persist mutation of
              None \<Rightarrow> returnS ()
            | Some r \<Rightarrow> persist_record blake3 config control r) (\<lambda>_.
       liftS (mut_result mutation))))))"

definition file_create ::
  "(bytes \<Rightarrow> digest) \<Rightarrow> file_store_config \<Rightarrow> transaction_record \<Rightarrow>
   (disk \<times> persistent_state, tx_store_error, unit) op" where
  "file_create blake3 config r =
     bindS (liftS (validate_record r 0)) (\<lambda>_. transact blake3 config (\<lambda>rs.
       if bt_contains rs (rec_id r) then Err (Duplicate (rec_id r))
       else Ok \<lparr>mut_persist = Some r, mut_result = Ok ()\<rparr>))"

definition file_get ::
  "(bytes \<Rightarrow> digest) \<Rightarrow> file_store_config \<Rightarrow> digest \<Rightarrow>
   (disk \<times> persistent_state, tx_store_error, transaction_record) op" where
  "file_get blake3 config i = transact blake3 config (\<lambda>rs.
     ok_or (map_option (\<lambda>r. \<lparr>mut_persist = None, mut_result = Ok r\<rparr>) (map_of rs i)) (NotFound i))"

definition file_compare_and_transition ::
  "(bytes \<Rightarrow> digest) \<Rightarrow> file_store_config \<Rightarrow> digest \<Rightarrow> tx_state \<Rightarrow> tx_state \<Rightarrow>
   (disk \<times> persistent_state, tx_store_error, transaction_record) op" where
  "file_compare_and_transition blake3 config i expected next = transact blake3 config (\<lambda>rs.
     bindR (ok_or (map_of rs i) (NotFound i)) (\<lambda>r.
     if rec_state r \<noteq> expected then Err (StateConflict i expected (rec_state r))
     else bindR (map_err Transition (transition r next)) (\<lambda>r'.
       Ok \<lparr>mut_persist = Some r', mut_result = Ok r'\<rparr>)))"

definition file_approve ::
  "(bytes \<Rightarrow> digest) \<Rightarrow> file_store_config \<Rightarrow> digest \<Rightarrow> approval_grant \<Rightarrow>
   (disk \<times> persistent_state, tx_store_error, transaction_record) op" where
  "file_approve blake3 config i grant =
     (if grant_transaction grant \<noteq> i
      then failS (ApprovalBindingMismatch i (grant_transaction grant))
      else transact blake3 config (\<lambda>rs.
        bindR (ok_or (map_of rs i) (NotFound i)) (\<lambda>r.
        if rec_state r \<noteq> PendingApproval then Err (StateConflict i PendingApproval (rec_state r))
        else bindR (map_err Transition (transition r Approved)) (\<lambda>r'.
          let r'' = r'\<lparr>rec_approval := Some grant\<rparr>
          in Ok \<lparr>mut_persist = Some r'', mut_result = Ok r''\<rparr>))))"

definition file_reserve ::
  "(bytes \<Rightarrow> digest) \<Rightarrow> file_store_config \<Rightarrow> digest \<Rightarrow> u64 \<Rightarrow>
   (disk \<times> persistent_state, tx_store_error, commit_reservation) op" where
  "file_reserve blake3 config i now = transact blake3 config (\<lambda>rs.
     bindR (ok_or (map_of rs i) (NotFound i)) (\<lambda>r.
     let reserved = bindR (map_err Transition (transition r Reserved)) (\<lambda>r'.
           Ok \<lparr>mut_persist = Some r',
               mut_result = Ok \<lparr>res_transaction = i, res_base = rec_base r'\<rparr>\<rparr>) in
     if rec_state r = AutoApproved then reserved
     else if rec_state r = Approved then
       bindR (ok_or (rec_approval r) (MissingApproval i)) (\<lambda>grant.
         if is_expired_at grant now then
           bindR (map_err Transition (transition r Expired)) (\<lambda>r'.
             Ok \<lparr>mut_persist = Some r',
                 mut_result = Err (ApprovalExpired i (grant_expires grant) now)\<rparr>)
         else reserved)
     else Err (NotReservable i (rec_state r))))"

text \<open>\<open>open_validated_in\<close> after the lock file is open; the handle is the state it returns.\<close>

definition file_open ::
  "(bytes \<Rightarrow> digest) \<Rightarrow> file_store_config \<Rightarrow> (disk, tx_store_error, persistent_state) op" where
  "file_open blake3 config d =
     (case validate_config config of
        Inl e \<Rightarrow> (Err e, d)
      | Inr _ \<Rightarrow>
      (case initialize_control blake3 (control_file d) of
         (Inl e, c) \<Rightarrow> (Err e, d\<lparr>control_file := c\<rparr>)
       | (Inr control, c) \<Rightarrow>
           let d' = d\<lparr>control_file := c\<rparr> in
           (case initialize_header (log_of (slot control) d') of
              (Inl e, log) \<Rightarrow> (Err e, set_log (slot control) log d')
            | (Inr _, log) \<Rightarrow>
                (case refresh blake3 config control
                   (log, \<lparr>ps_records = [], ps_offset = header_bytes,
                          ps_generation = generation control, ps_slot = slot control\<rparr>) of
                   (Inl e, log, st) \<Rightarrow> (Err e, set_log (slot control) log d')
                 | (Inr _, log, st) \<Rightarrow> (Ok st, set_log (slot control) log d')))))"

end
