(* ===== verification/PersistInv.thy ===== *)
theory PersistInv
  imports PersistLog
begin

text \<open>
  Correctness of the durable transaction store: a log is the magic followed by the frames of a
  history of records, replay of it (torn tail included) gives the latest record of every
  transaction, a handle caches a prefix of the history, and every operation extends the history
  or compacts it.  The store provides the contract \<open>transaction_store\<close> for any number of handles.
\<close>

section \<open>Frames and histories\<close>

definition frame :: "(bytes \<Rightarrow> digest) \<Rightarrow> transaction_record \<Rightarrow> bytes" where
  "frame blake3 r =
     (let payload = encode_record r in
      u32_bytes (of_nat (length payload)) @ payload @ as_bytes (blob_digest blake3 payload))"

definition frames :: "(bytes \<Rightarrow> digest) \<Rightarrow> transaction_record list \<Rightarrow> bytes" where
  "frames blake3 h = concat (map (frame blake3) h)"

definition log_bytes :: "(bytes \<Rightarrow> digest) \<Rightarrow> transaction_record list \<Rightarrow> bytes" where
  "log_bytes blake3 h = log_magic @ frames blake3 h"

text \<open>The records a replay of a history gives, from the records cached before it.\<close>

fun replay ::
  "nat \<Rightarrow> (digest, transaction_record) btree \<Rightarrow> transaction_record list \<Rightarrow>
   (digest, transaction_record) btree option" where
  "replay m rs [] = Some rs"
| "replay m rs (r # h) =
     (case apply_replayed_record rs r 0 m of Inl _ \<Rightarrow> None | Inr rs' \<Rightarrow> replay m rs' h)"

text \<open>A tail that is recognised as an interrupted append.\<close>

definition torn :: "bytes \<Rightarrow> bool" where
  "torn t \<longleftrightarrow> length t < 4 \<or>
     (let n = unat (le_word (take 4 t) :: u32) in
      old_min_payload_bytes \<le> n \<and> n \<le> max_payload_bytes \<and> length t < 4 + n + digest_bytes)"

lemma torn_Nil [simp]: "torn []"
  by (simp add: torn_def)

lemma length_magic [simp]: "length log_magic = header_bytes" "length control_magic = 8"
  by (simp_all add: log_magic_def control_magic_def header_bytes_def)

lemma frames_simps [simp]:
  "frames blake3 [] = []"
  "frames blake3 (r # h) = frame blake3 r @ frames blake3 h"
  "frames blake3 (h @ h') = frames blake3 h @ frames blake3 h'"
  by (simp_all add: frames_def)

lemma log_bytes_append: "log_bytes blake3 (h @ h') = log_bytes blake3 h @ frames blake3 h'"
  by (simp add: log_bytes_def)

lemma payload_bounds:
  "old_min_payload_bytes \<le> length (encode_record r)" "length (encode_record r) \<le> max_payload_bytes"
  by (simp_all add: length_encode_record size_defs)

lemma payload_length_u32: "unat (of_nat (length (encode_record r)) :: u32) = length (encode_record r)"
  using payload_bounds[of r] by (simp add: unat_of_nat take_bit_nat_eq_self size_defs)

lemma length_frame: "length (frame blake3 r) = 4 + length (encode_record r) + digest_bytes"
  by (simp add: frame_def Let_def digest_bytes_def)

lemma take4_frame: "le_word (take 4 (frame blake3 r @ t)) = (of_nat (length (encode_record r)) :: u32)"
  by (simp add: frame_def Let_def)

lemma torn_strict_prefix: "strict_prefix t (frame blake3 r) \<Longrightarrow> torn t"
proof -
  assume p: "strict_prefix t (frame blake3 r)"
  then obtain u where u: "frame blake3 r = t @ u" by (auto simp: strict_prefix_def prefix_def)
  have len: "length t < 4 + length (encode_record r) + digest_bytes"
    using prefix_length_less[OF p] by (simp add: length_frame)
  show "torn t"
  proof (cases "length t < 4")
    case False
    then have "take 4 t = take 4 (frame blake3 r @ [])" by (simp add: u)
    then show ?thesis using len payload_bounds[of r]
      by (simp add: torn_def take4_frame[of _ _ "[]", simplified] payload_length_u32)
  qed (simp add: torn_def)
qed

lemma apply_replayed_offset:
  "apply_replayed_record rs r i m = Inr rs' \<Longrightarrow> apply_replayed_record rs r j m = Inr rs'"
  by (auto simp: apply_replayed_record_def bindR_Inr_iff split: option.splits if_splits)

lemma apply_replayed_insert:
  "apply_replayed_record rs r i m = Inr rs' \<Longrightarrow> rs' = bt_insert (rec_id r) r rs"
  by (auto simp: apply_replayed_record_def bindR_Inr_iff)

lemma replay_append:
  "replay m rs (h @ h') = (case replay m rs h of None \<Rightarrow> None | Some rs' \<Rightarrow> replay m rs' h')"
  by (induction h arbitrary: rs) (auto split: sum.splits)

section \<open>Replay of the active log\<close>

lemma slice_at: "slice (length a) (length a + n) (a @ b) = take n b"
  by (simp add: slice_def)

lemma set_len_prefix: "set_len (length a) (a @ b) = a"
  by (simp add: set_len_def)

lemma refresh_loop_torn:
  assumes "torn t" "ps_offset st = length pre"
  shows "refresh_loop blake3 config (length (pre @ t)) (pre @ t, st) = (Inr (), pre, st)"
proof -
  have st: "st\<lparr>ps_offset := length pre\<rparr> = st" using assms(2) by simp
  show ?thesis
    using assms st
    by (subst refresh_loop.simps)
       (auto simp: torn_def Let_def truncate_torn_tail_def set_len_prefix slice_at)
qed

lemma refresh_loop_frame:
  assumes "record_ok blake3 r" "ps_offset st = length pre"
    and "apply_replayed_record (ps_records st) r 0 (max_records config) = Inr rs"
    and "log = pre @ frame blake3 r @ t"
  shows "refresh_loop blake3 config (length log) (log, st) =
    refresh_loop blake3 config (length log)
      (log, st\<lparr>ps_records := rs, ps_offset := length pre + length (frame blake3 r)\<rparr>)"
proof -
  let ?p = "encode_record r"
  have pl: "unat (le_word (slice (ps_offset st) (ps_offset st + 4) log) :: u32) = length ?p"
    using assms(2,4) by (simp add: slice_at take4_frame payload_length_u32 del: append_assoc take_append)
  have payload: "slice (length pre + 4) (length pre + 4 + length ?p) log = ?p"
    and digest: "slice (length pre + 4 + length ?p) (length pre + 4 + length ?p + digest_bytes) log
      = as_bytes (blob_digest blake3 ?p)"
    by (simp_all add: assms(4) slice_def frame_def Let_def digest_bytes_def)
  have dec: "decode_record blake3 ?p (length pre) = Inr r"
    by (rule decode_encode_record[OF assms(1)])
  have len: "length pre < length log" "\<not> length log < length pre + 4"
    "\<not> length log < length pre + 4 + length ?p + digest_bytes"
    "length pre + length (frame blake3 r) = length pre + 4 + length ?p + digest_bytes"
    by (simp_all add: assms(4) length_frame)
  have bounds: "\<not> length ?p < old_min_payload_bytes" "\<not> max_payload_bytes < length ?p"
    using payload_bounds[of r] by simp_all
  show ?thesis
    by (subst refresh_loop.simps, subst len(4))
       (simp only: Let_def pl[unfolded assms(2)] assms(2) payload digest dec len bounds
         apply_replayed_offset[OF assms(3)] bindR_simps sum.case simp_thms if_True if_False)
qed

lemma refresh_loop_frames:
  assumes "list_all (record_ok blake3) h" "replay (max_records config) (ps_records st) h = Some rs"
    and "ps_offset st = length pre" "torn t"
  shows "refresh_loop blake3 config (length (pre @ frames blake3 h @ t)) (pre @ frames blake3 h @ t, st) =
    (Inr (), pre @ frames blake3 h,
     st\<lparr>ps_records := rs, ps_offset := length (pre @ frames blake3 h)\<rparr>)"
  using assms(1-3)
proof (induction h arbitrary: pre st)
  case Nil
  then have "st\<lparr>ps_records := rs, ps_offset := length pre\<rparr> = st" by simp
  then show ?case using Nil refresh_loop_torn[OF assms(4), of st pre] by simp
next
  case (Cons r h)
  from Cons.prems(2) obtain rs1 where rs1:
    "apply_replayed_record (ps_records st) r 0 (max_records config) = Inr rs1"
    "replay (max_records config) rs1 h = Some rs" by (auto split: sum.splits)
  show ?case
    using Cons.prems
      refresh_loop_frame[OF _ Cons.prems(3) rs1(1), where t = "frames blake3 h @ t"]
      Cons.IH[of "st\<lparr>ps_records := rs1, ps_offset := length pre + length (frame blake3 r)\<rparr>"
        "pre @ frame blake3 r"] rs1(2)
    by simp
qed

section \<open>The control file\<close>

lemmas control_sizes = control_slot_offset_def control_bytes_def control_header_bytes_def
  control_record_bytes_def control_payload_bytes_def digest_bytes_def

lemma length_control_record [simp]: "length (control_record blake3 c) = control_record_bytes"
  by (simp add: control_record_def control_payload_def control_sizes)

lemma read_slot_Some:
  "read_slot blake3 f n = Inr (Some c) \<Longrightarrow> unat (slot c) = n \<and> unat (generation c AND 1) = n"
  by (auto simp: read_slot_def Let_def split: if_splits)

lemma read_slot_written:
  assumes "slice (control_slot_offset n) (control_slot_offset n + control_record_bytes) f =
      control_record blake3 c"
    and "unat (slot c) = n" "unat (generation c AND 1) = n"
  shows "read_slot blake3 f n = Inr (Some c)"
proof -
  have "take control_payload_bytes (control_record blake3 c) = control_payload c"
    "drop control_payload_bytes (control_record blake3 c) =
      as_bytes (blob_digest blake3 (control_payload c))"
    by (simp_all add: control_record_def control_payload_def control_sizes)
  moreover have "le_word (take 8 (control_payload c)) = generation c" "control_payload c ! 8 = slot c"
    by (simp_all add: control_payload_def nth_append)
  ultimately show ?thesis using assms by (simp add: read_slot_def Let_def)
qed

lemma read_control_Inr:
  assumes "read_control blake3 f = Inr c"
  shows "length f = control_bytes" "take control_header_bytes f = control_magic"
    "read_slot blake3 f (unat (slot c)) = Inr (Some c)" "unat (slot c) < 2"
    "unat (generation c AND 1) = unat (slot c)"
proof -
  from assms show "length f = control_bytes" "take control_header_bytes f = control_magic"
    by (simp_all add: read_control_def split: if_splits)
  from assms obtain a b where ab: "read_slot blake3 f 0 = Inr a" "read_slot blake3 f 1 = Inr b"
    by (auto simp: read_control_def bindR_Inr_iff split: if_splits)
  have mem: "c \<in> set (candidates_of a b)"
    using assms ab
    by (auto simp: read_control_def split: if_splits list.splits)
  have set: "set (candidates_of a b) = {x. a = Some x} \<union> {x. b = Some x}"
    by (cases a; cases b) (auto simp: candidates_of_def List.map_filter_def)
  from mem set consider "a = Some c" | "b = Some c" by auto
  then show "read_slot blake3 f (unat (slot c)) = Inr (Some c)" "unat (slot c) < 2"
    "unat (generation c AND 1) = unat (slot c)"
    by (cases; use ab read_slot_Some[of blake3 f 0 c] read_slot_Some[of blake3 f 1 c] in simp)+
qed

text \<open>The control file selects \<open>c\<close> when the other slot does not verify or is its predecessor.\<close>

lemma read_control_single:
  assumes "length f = control_bytes" "take control_header_bytes f = control_magic"
    and "n < 2" "read_slot blake3 f n = Inr (Some c)" "read_slot blake3 f (1 - n) = Inr None"
  shows "read_control blake3 f = Inr c"
proof -
  from \<open>n < 2\<close> consider "n = 0" | "n = 1" by linarith
  then show ?thesis
    using assms by cases (simp_all add: read_control_def candidates_of_def List.map_filter_def)
qed

lemma read_control_pair:
  assumes "length f = control_bytes" "take control_header_bytes f = control_magic"
    and "n < 2" "read_slot blake3 f n = Inr (Some c)" "read_slot blake3 f (1 - n) = Inr (Some c')"
    and "checked_add (generation c) 1 = Some (generation c')"
  shows "read_control blake3 f = Inr c'"
proof -
  have lt: "generation c < generation c'" and gen: "saturating_add (generation c) 1 = generation c'"
    using assms(6) by (auto simp: checked_add_Some_iff saturating_add_def word_less_nat_alt
        unat_word_ariths)
  from \<open>n < 2\<close> consider "n = 0" | "n = 1" by linarith
  then show ?thesis
    using assms(1-5) lt gen
    by cases (auto simp: read_control_def candidates_of_def List.map_filter_def)
qed

lemma parity_succ:
  fixes g :: u64
  shows "unat ((g + 1) AND 1) = 1 - unat (g AND 1)"
  by (simp add: and_one_eq mod_2_eq_odd)

lemma slot_xor: "unat (s :: u8) < 2 \<Longrightarrow> unat (s XOR 1) = 1 - unat s"
proof -
  assume "unat s < 2"
  then consider "unat s = unat (0 :: u8)" | "unat s = unat (1 :: u8)" by (auto simp: less_2_cases_iff)
  then have "s = 0 \<or> s = 1" by (auto simp only: word_unat_eq_iff)
  then show ?thesis by auto
qed

text \<open>Writing one slot leaves the header and the other slot alone, torn or not.\<close>

lemma write_slot:
  assumes "length f = control_bytes" "n < 2" "length data \<le> control_record_bytes"
  defines "g \<equiv> write_at (control_slot_offset (1 - n)) data f"
  shows "length g = control_bytes" "take control_header_bytes g = take control_header_bytes f"
    "slice (control_slot_offset n) (control_slot_offset n + control_record_bytes) g =
      slice (control_slot_offset n) (control_slot_offset n + control_record_bytes) f"
    "length data = control_record_bytes \<Longrightarrow>
      slice (control_slot_offset (1 - n)) (control_slot_offset (1 - n) + control_record_bytes) g = data"
proof -
  from \<open>n < 2\<close> consider "n = 0" | "n = 1" by linarith
  then have "length g = control_bytes \<and> take control_header_bytes g = take control_header_bytes f \<and>
    slice (control_slot_offset n) (control_slot_offset n + control_record_bytes) g =
      slice (control_slot_offset n) (control_slot_offset n + control_record_bytes) f \<and>
    (length data = control_record_bytes \<longrightarrow>
      slice (control_slot_offset (1 - n)) (control_slot_offset (1 - n) + control_record_bytes) g = data)"
    by cases (use assms(1,3) in \<open>auto simp: g_def write_at_def slice_def control_sizes min_def drop_take\<close>)
  then show "length g = control_bytes" "take control_header_bytes g = take control_header_bytes f"
    "slice (control_slot_offset n) (control_slot_offset n + control_record_bytes) g =
      slice (control_slot_offset n) (control_slot_offset n + control_record_bytes) f"
    "length data = control_record_bytes \<Longrightarrow>
      slice (control_slot_offset (1 - n)) (control_slot_offset (1 - n) + control_record_bytes) g = data"
    by simp_all
qed

lemma read_slot_cong:
  "slice (control_slot_offset n) (control_slot_offset n + control_record_bytes) f =
   slice (control_slot_offset n) (control_slot_offset n + control_record_bytes) g \<Longrightarrow>
   read_slot blake3 f n = read_slot blake3 g n"
  by (simp add: read_slot_def Let_def)

definition next_control :: "control_state \<Rightarrow> control_state" where
  "next_control c = \<lparr>generation = generation c + 1, slot = slot c XOR 1\<rparr>"

lemma append_control_ok:
  assumes "read_control blake3 f = Inr c" "checked_add (generation c) 1 = Some g"
  obtains f' where "append_control blake3 c (next_control c) f = (Inr (), f')"
    "read_control blake3 f' = Inr (next_control c)"
proof
  note c = read_control_Inr[OF assms(1)]
  let ?n = "unat (slot c)" and ?next = "next_control c"
  have g: "g = generation c + 1" "saturating_add (generation c) 1 = generation c + 1"
    using assms(2) by (auto simp: checked_add_Some_iff saturating_add_def)
  have slot: "unat (slot ?next) = 1 - ?n" "unat (generation ?next AND 1) = 1 - ?n"
    using c(4,5) by (simp_all add: next_control_def slot_xor parity_succ)
  let ?f = "write_at (control_slot_offset (1 - ?n)) (control_record blake3 ?next) f"
  note w = write_slot[OF c(1,4), of "control_record blake3 ?next"]
  show "append_control blake3 c ?next f = (Inr (), ?f)"
    using assms(1) g(2) slot(1) by (simp add: append_control_def) (simp add: next_control_def)
  have "read_slot blake3 ?f ?n = Inr (Some c)"
    using c(3) read_slot_cong[OF w(3)] by simp
  moreover have "read_slot blake3 ?f (1 - ?n) = Inr (Some ?next)"
    using slot by (intro read_slot_written w(4)) simp_all
  ultimately show "read_control blake3 ?f = Inr ?next"
    using w(1,2) c(2,4) assms(2) g(1)
    by (intro read_control_pair[of _ ?n blake3 c]) (simp_all add: next_control_def)
qed

text \<open>A switch torn inside the slot it writes leaves the current control selected.\<close>

lemma torn_control:
  assumes "read_control blake3 f = Inr c" "length data \<le> control_record_bytes"
    and "read_slot blake3 (write_at (control_slot_offset (1 - unat (slot c))) data f)
      (1 - unat (slot c)) = Inr None"
  shows "read_control blake3 (write_at (control_slot_offset (1 - unat (slot c))) data f) = Inr c"
proof -
  note c = read_control_Inr[OF assms(1)]
  note w = write_slot[OF c(1,4) assms(2)]
  show ?thesis
    using assms(3) w(1,2) c read_slot_cong[OF w(3)]
    by (intro read_control_single[of _ "unat (slot c)"]) simp_all
qed

section \<open>Histories\<close>

definition config_ok :: "file_store_config \<Rightarrow> bool" where
  "config_ok config \<longleftrightarrow> validate_config config = Inr () \<and> max_log_bytes config < 2 ^ 64 - 1"

text \<open>A cache as replay builds it.\<close>

definition cache_ok ::
  "(bytes \<Rightarrow> digest) \<Rightarrow> nat \<Rightarrow> (digest, transaction_record) btree \<Rightarrow> bool" where
  "cache_ok blake3 m rs \<longleftrightarrow> bt_ok rs \<and> length rs \<le> m \<and>
     list_all (\<lambda>(i, r). rec_id r = i \<and> record_ok blake3 r) rs"

lemma length_bt_insert_eq:
  "bt_ok m \<Longrightarrow> length (bt_insert k v m) = (if bt_contains m k then length m else Suc (length m))"
proof (induction k v m rule: bt_insert.induct)
  case (2 k v j w m)
  then have "bt_ok m" "k < j \<Longrightarrow> \<not> bt_contains m k" by (auto simp: bt_ok_Cons bt_contains_iff)
  moreover have "bt_contains ((j, w) # m) k \<longleftrightarrow> k = j \<or> bt_contains m k"
    by (auto simp: bt_contains_def)
  ultimately show ?case using 2(1) by auto
qed (simp add: bt_contains_def)

lemma set_bt_insert: "set (bt_insert k v m) \<subseteq> insert (k, v) (set m)"
  by (induction k v m rule: bt_insert.induct) auto

lemma cache_ok_insert:
  assumes "cache_ok blake3 m rs" "record_ok blake3 r"
    and "bt_contains rs (rec_id r) \<or> length rs < m"
  shows "cache_ok blake3 m (bt_insert (rec_id r) r rs)"
  using assms set_bt_insert[of "rec_id r" r rs]
  by (fastforce simp: cache_ok_def list_all_iff length_bt_insert_eq)

lemma cache_ok_apply:
  assumes "cache_ok blake3 m rs" "record_ok blake3 r" "apply_replayed_record rs r i m = Inr rs'"
  shows "cache_ok blake3 m rs'"
proof -
  have "bt_contains rs (rec_id r) \<or> length rs < m"
    using assms(3) by (auto simp: apply_replayed_record_def bindR_Inr_iff bt_contains_def
        split: option.splits if_splits)
  then show ?thesis using cache_ok_insert[OF assms(1,2)] apply_replayed_insert[OF assms(3)] by simp
qed

lemma cache_ok_replay:
  "cache_ok blake3 m rs \<Longrightarrow> list_all (record_ok blake3) h \<Longrightarrow> replay m rs h = Some rs' \<Longrightarrow>
   cache_ok blake3 m rs'"
  by (induction h arbitrary: rs) (auto split: sum.splits intro: cache_ok_apply)

lemma cache_ok_Nil [simp]: "cache_ok blake3 m []"
  by (simp add: cache_ok_def)

lemma cache_ok_lookup:
  "cache_ok blake3 m rs \<Longrightarrow> map_of rs i = Some r \<Longrightarrow> rec_id r = i \<and> record_ok blake3 r"
  by (auto simp: cache_ok_def list_all_iff dest!: map_of_SomeD)

lemma bt_insert_last: "\<forall>j \<in> fst ` set m. j < k \<Longrightarrow> bt_insert k v m = m @ [(k, v)]"
  by (induction m) auto

text \<open>The compacted history is the cache in key order, and replays to it.\<close>

lemma replay_values:
  "bt_ok (rs @ es) \<Longrightarrow> list_all (\<lambda>(i, r). rec_id r = i) es \<Longrightarrow> length (rs @ es) \<le> m \<Longrightarrow>
   replay m rs (map snd es) = Some (rs @ es)"
proof (induction es arbitrary: rs)
  case (Cons e es)
  obtain i r where e: "e = (i, r)" by (cases e)
  have "\<forall>j \<in> fst ` set rs. j < i" using Cons.prems(1) by (auto simp: bt_ok_def sorted_wrt_append e)
  moreover from this have "map_of rs i = None" by (auto simp: map_of_eq_None_iff)
  ultimately have "apply_replayed_record rs r 0 m = Inr (rs @ [(i, r)])"
    using Cons.prems(2,3) by (simp add: apply_replayed_record_def e bt_insert_last)
  then show ?case using Cons.IH[of "rs @ [(i, r)]"] Cons.prems by (simp add: e)
qed simp

lemma replay_cache: "cache_ok blake3 m rs \<Longrightarrow> replay m [] (map snd rs) = Some rs"
  using replay_values[of "[]" rs m] by (auto simp: cache_ok_def list_all_iff)

section \<open>Writing frames\<close>

lemma write_record_frame_end:
  assumes "config_ok config" "write_record_frame blake3 config r (length log) log = (Inr n, log')"
  shows "validate_record r 0 = Inr ()" "log' = log @ frame blake3 r" "n = length log'"
    "length log' \<le> max_log_bytes config"
proof -
  have v: "validate_record r (length log) = Inr ()"
    using assms(2) by (cases "validate_record r (length log)") (simp_all add: write_record_frame_def)
  then show "validate_record r 0 = Inr ()"
    by (auto simp: validate_record_def split: if_splits option.splits)
  show log': "log' = log @ frame blake3 r"
    using assms(2) v
    by (auto simp: write_record_frame_def Let_def write_at_def frame_def split: if_splits)
  show n: "n = length log'"
    using assms v unfolding log'
    by (auto simp: write_record_frame_def Let_def length_frame sat_add_def config_ok_def
        split: if_splits)
  show "length log' \<le> max_log_bytes config"
    using assms(2) v by (simp add: n[symmetric] write_record_frame_def Let_def split: if_splits)
qed

lemma write_record_frame_Inl: "write_record_frame blake3 config r off log = (Inl e, log') \<Longrightarrow> log' = log"
  by (auto simp: write_record_frame_def Let_def split: sum.splits if_splits)

lemma compact_loop_written:
  assumes "config_ok config"
    and "compact_loop blake3 config r es (length log, True) log = (Inr cur, log')"
    and "rec_id r \<notin> fst ` set es" "length log \<le> max_log_bytes config"
  shows "log' = log @ frames blake3 (map snd es)" "cur = (length log', True)"
    "length log' \<le> max_log_bytes config"
proof -
  have "log' = log @ frames blake3 (map snd es) \<and> cur = (length log', True) \<and>
      length log' \<le> max_log_bytes config"
    using assms(2-)
  proof (induction es arbitrary: log)
    case (Cons e es)
    obtain i x where e: "e = (i, x)" by (cases e)
    from Cons.prems obtain n log1 where 1: "write_record_frame blake3 config x (length log) log = (Inr n, log1)"
      "compact_loop blake3 config r es (n, True) log1 = (Inr cur, log')"
      by (auto simp: e bindS_Inr)
    note w = write_record_frame_end[OF assms(1) 1(1)]
    show ?case using Cons.IH[of log1] 1(2) w Cons.prems(2) by (auto simp: e)
  qed simp
  then show "log' = log @ frames blake3 (map snd es)" "cur = (length log', True)"
    "length log' \<le> max_log_bytes config" by blast+
qed

text \<open>The frames of the compacted log, one for every key of the cache with \<open>r\<close> put in.\<close>

lemma compact_loop_entries:
  assumes "config_ok config" "bt_ok es"
    and "compact_loop blake3 config r es (length log, False) log = (Inr cur, log')"
    and "length log \<le> max_log_bytes config"
  shows "fst cur = length log' \<and> length log' \<le> max_log_bytes config \<and>
    (if snd cur then validate_record r 0 = Inr () \<and>
        log' = log @ frames blake3 (map snd (bt_insert (rec_id r) r es))
     else log' = log @ frames blake3 (map snd es) \<and> bt_insert (rec_id r) r es = es @ [(rec_id r, r)])"
  using assms(2-)
proof (induction es arbitrary: log)
  case (Cons e es)
  obtain i x where e: "e = (i, x)" by (cases e)
  have ok: "bt_ok es" "\<forall>j \<in> fst ` set es. i < j" using Cons.prems(1) by (auto simp: e bt_ok_Cons)
  consider "rec_id r < i" | "rec_id r = i" | "i < rec_id r" by force
  then show ?case
  proof cases
    case 1
    then have "i \<noteq> rec_id r" by simp
    with 1 Cons.prems(2) obtain n1 log1 n2 log2 where
      w1: "write_record_frame blake3 config r (length log) log = (Inr n1, log1)"
      and w2: "write_record_frame blake3 config x n1 log1 = (Inr n2, log2)"
      and rest: "compact_loop blake3 config r es (n2, True) log2 = (Inr cur, log')"
      by (auto simp: e bindS_Inr)
    note a = write_record_frame_end[OF assms(1) w1]
    note b = write_record_frame_end[OF assms(1) w2[unfolded a(3)]]
    have "rec_id r \<notin> fst ` set es" using 1 ok(2) by fastforce
    from compact_loop_written[OF assms(1) rest[unfolded b(3)] this b(4)]
    show ?thesis using 1 a b by (simp add: e)
  next
    case 2
    with Cons.prems(2) obtain n1 log1 where
      w1: "write_record_frame blake3 config r (length log) log = (Inr n1, log1)"
      and rest: "compact_loop blake3 config r es (n1, True) log1 = (Inr cur, log')"
      by (auto simp: e bindS_Inr)
    note a = write_record_frame_end[OF assms(1) w1]
    have "rec_id r \<notin> fst ` set es" using 2 ok(2) by fastforce
    from compact_loop_written[OF assms(1) rest[unfolded a(3)] this a(4)]
    show ?thesis using 2 a by (simp add: e)
  next
    case 3
    then have "i \<noteq> rec_id r" "\<not> rec_id r < i" by simp_all
    with Cons.prems(2) obtain n1 log1 where
      w1: "write_record_frame blake3 config x (length log) log = (Inr n1, log1)"
      and rest: "compact_loop blake3 config r es (n1, False) log1 = (Inr cur, log')"
      by (auto simp: e bindS_Inr)
    note a = write_record_frame_end[OF assms(1) w1]
    show ?thesis
      using Cons.IH[OF ok(1) rest[unfolded a(3)] a(4)] 3 a by (auto simp: e)
  qed
qed auto

lemma compact_log_written:
  assumes "config_ok config" "bt_ok rs"
    and "compact_log blake3 config r rs old = (Inr n, log)"
  shows "validate_record r 0 = Inr ()"
    "log = log_bytes blake3 (map snd (bt_insert (rec_id r) r rs))"
    "n = length log" "length log \<le> max_log_bytes config"
proof -
  have m: "length log_magic = header_bytes" "header_bytes \<le> max_log_bytes config"
    using assms(1) by (auto simp: config_ok_def validate_config_def split: if_splits)
  from assms(3) obtain cur log1 where
    loop: "compact_loop blake3 config r rs (length log_magic, False) log_magic = (Inr cur, log1)"
    and end_: "(if \<not> snd cur then write_record_frame blake3 config r (fst cur) else returnS (fst cur)) log1
      = (Inr n, log)"
    by (auto simp: compact_log_def bindS_Inr)
  note l = compact_loop_entries[OF assms(1,2) loop] m
  have "validate_record r 0 = Inr () \<and> log = log_bytes blake3 (map snd (bt_insert (rec_id r) r rs)) \<and>
    n = length log \<and> length log \<le> max_log_bytes config"
  proof (cases "snd cur")
    case True
    then show ?thesis using l end_ by (auto simp: log_bytes_def)
  next
    case False
    with l end_ have "write_record_frame blake3 config r (length log1) log1 = (Inr n, log)" by auto
    note a = write_record_frame_end[OF assms(1) this]
    show ?thesis using False l a by (auto simp: log_bytes_def)
  qed
  then show "validate_record r 0 = Inr ()"
    "log = log_bytes blake3 (map snd (bt_insert (rec_id r) r rs))"
    "n = length log" "length log \<le> max_log_bytes config" by blast+
qed


section \<open>The invariant of the store\<close>

definition store_ok ::
  "(bytes \<Rightarrow> digest) \<Rightarrow> file_store_config \<Rightarrow> control_state \<Rightarrow> transaction_record list \<Rightarrow> disk \<Rightarrow> bool"
where
  "store_ok blake3 config c h d \<longleftrightarrow>
     read_control blake3 (control_file d) = Inr c \<and>
     list_all (record_ok blake3) h \<and> replay (max_records config) [] h \<noteq> None \<and>
     length (log_of (slot c) d) \<le> max_log_bytes config \<and>
     ((\<exists>t. log_of (slot c) d = log_bytes blake3 h @ t \<and> torn t) \<or>
      h = [] \<and> strict_prefix (log_of (slot c) d) log_magic)"

text \<open>A handle lags behind in the current log, or belongs to a compacted one.\<close>

definition handle_ok ::
  "(bytes \<Rightarrow> digest) \<Rightarrow> file_store_config \<Rightarrow> control_state \<Rightarrow> transaction_record list \<Rightarrow>
   persistent_state \<Rightarrow> bool" where
  "handle_ok blake3 config c h st \<longleftrightarrow>
     unat (ps_generation st) < unat (generation c) \<or>
     ps_generation st = generation c \<and> ps_slot st = slot c \<and>
     (\<exists>h1 h2. h = h1 @ h2 \<and> ps_offset st = length (log_bytes blake3 h1) \<and>
       replay (max_records config) [] h1 = Some (ps_records st))"

definition contents ::
  "file_store_config \<Rightarrow> transaction_record list \<Rightarrow> (digest, transaction_record) btree" where
  "contents config h = the (replay (max_records config) [] h)"

definition synced :: "(bytes \<Rightarrow> digest) \<Rightarrow> file_store_config \<Rightarrow> control_state \<Rightarrow>
    transaction_record list \<Rightarrow> persistent_state" where
  "synced blake3 config c h = \<lparr>ps_records = contents config h,
     ps_offset = length (log_bytes blake3 h), ps_generation = generation c, ps_slot = slot c\<rparr>"

lemma log_of_set [simp]: "log_of s (set_log s f d) = f"
  by (simp add: log_of_def set_log_def)

lemma control_set_log [simp]: "control_file (set_log s f d) = control_file d"
  by (simp add: set_log_def)

lemma set_log_set [simp]: "set_log s f (set_log s g d) = set_log s f d"
  by (simp add: set_log_def)

lemma store_ok_replay:
  "store_ok blake3 config c h d \<Longrightarrow> replay (max_records config) [] h = Some (contents config h)"
  by (auto simp: store_ok_def contents_def)

lemma store_ok_cache:
  assumes "store_ok blake3 config c h d"
  shows "cache_ok blake3 (max_records config) (contents config h)"
  by (rule cache_ok_replay[OF cache_ok_Nil _ store_ok_replay[OF assms]])
     (use assms in \<open>simp add: store_ok_def\<close>)

lemma store_ok_set_log:
  "store_ok blake3 config c h d \<Longrightarrow> length (log_bytes blake3 h) \<le> max_log_bytes config \<Longrightarrow>
   store_ok blake3 config c h (set_log (slot c) (log_bytes blake3 h) d)"
  by (auto simp: store_ok_def)

lemma handle_ok_synced: "replay (max_records config) [] h \<noteq> None \<Longrightarrow>
    handle_ok blake3 config c h (synced blake3 config c h)"
  by (auto simp: handle_ok_def synced_def contents_def)

lemma handle_ok_extend: "handle_ok blake3 config c h st \<Longrightarrow> handle_ok blake3 config c (h @ h') st"
  unfolding handle_ok_def by fastforce

lemma header_le: "config_ok config \<Longrightarrow> header_bytes \<le> max_log_bytes config"
  by (auto simp: config_ok_def validate_config_def split: if_splits)

lemma initialize_header_ok:
  assumes "config_ok config" "store_ok blake3 config c h d"
  obtains t where "initialize_header (log_of (slot c) d) = (Inr (), log_bytes blake3 h @ t)"
    "torn t" "length (log_bytes blake3 h @ t) \<le> max_log_bytes config"
proof -
  from assms(2) consider (log) t where "log_of (slot c) d = log_bytes blake3 h @ t" "torn t"
    | (header) "h = []" "strict_prefix (log_of (slot c) d) log_magic"
    by (auto simp: store_ok_def)
  then show thesis
  proof cases
    case log
    have "take header_bytes (log_bytes blake3 h @ t) = log_magic"
      and "header_bytes \<le> length (log_bytes blake3 h @ t)" and "header_bytes \<noteq> 0"
      by (simp_all add: log_bytes_def header_bytes_def[symmetric])
         (simp_all add: header_bytes_def)
    then show thesis
      using log assms(2) by (intro that) (auto simp: initialize_header_def store_ok_def)
  next
    case header
    have "length (log_of (slot c) d) < header_bytes"
      using prefix_length_less[OF header(2)] by simp
    then have "initialize_header (log_of (slot c) d) = (Inr (), log_bytes blake3 h @ [])"
      using header by (auto simp: initialize_header_def log_bytes_def strict_prefix_def)
    then show thesis
      using header(1) header_le[OF assms(1)] by (intro that[of "[]"]) (simp_all add: log_bytes_def)
  qed
qed

lemma refresh_ok:
  assumes "store_ok blake3 config c h d" "handle_ok blake3 config c h st"
    and "torn t" "length (log_bytes blake3 h @ t) \<le> max_log_bytes config"
  shows "refresh blake3 config c (log_bytes blake3 h @ t, st) =
    (Inr (), log_bytes blake3 h, synced blake3 config c h)"
proof -
  have h: "list_all (record_ok blake3) h" using assms(1) by (simp add: store_ok_def)
  define st0 where "st0 = (if ps_generation st \<noteq> generation c \<or> ps_slot st \<noteq> slot c
    then \<lparr>ps_records = [], ps_offset = header_bytes, ps_generation = generation c, ps_slot = slot c\<rparr>
    else st)"
  have "\<exists>h1 h2. h = h1 @ h2 \<and> ps_offset st0 = length (log_bytes blake3 h1) \<and>
      replay (max_records config) [] h1 = Some (ps_records st0) \<and>
      ps_generation st0 = generation c \<and> ps_slot st0 = slot c"
  proof (cases "ps_generation st \<noteq> generation c \<or> ps_slot st \<noteq> slot c")
    case True
    then show ?thesis
      by (intro exI[of _ "[]"] exI[of _ h]) (simp add: st0_def log_bytes_def)
  next
    case False
    then show ?thesis using assms(2) by (auto simp: st0_def handle_ok_def)
  qed
  then obtain h1 h2 where s: "h = h1 @ h2" "ps_offset st0 = length (log_bytes blake3 h1)"
    "replay (max_records config) [] h1 = Some (ps_records st0)"
    "ps_generation st0 = generation c" "ps_slot st0 = slot c" by blast
  have off: "header_bytes \<le> ps_offset st0" "ps_offset st0 \<le> length (log_bytes blake3 h @ t)"
    by (simp_all add: s(2) s(1) log_bytes_append) (simp add: log_bytes_def)
  have r2: "replay (max_records config) (ps_records st0) h2 = Some (contents config h)"
    using store_ok_replay[OF assms(1)] s(1,3) by (simp add: replay_append)
  have "refresh_loop blake3 config (length (log_bytes blake3 h @ t)) (log_bytes blake3 h @ t, st0) =
    (Inr (), log_bytes blake3 h, synced blake3 config c h)"
    using refresh_loop_frames[OF _ r2 s(2) assms(3)] h s(1,4,5)
    by (simp add: log_bytes_append synced_def)
  then show ?thesis
    using off assms(4) unfolding refresh_def Let_def fst_conv snd_conv st0_def[symmetric] by auto
qed

text \<open>Every operation first brings its handle up to date and repairs the log.\<close>

lemma transact_begin:
  assumes "config_ok config" "store_ok blake3 config c h d" "handle_ok blake3 config c h st"
  shows "transact blake3 config f (d, st) =
    bindS (\<lambda>s. (f (ps_records (snd s)), s)) (\<lambda>mutation.
      bindS (case mut_persist mutation of None \<Rightarrow> returnS ()
             | Some r \<Rightarrow> persist_record blake3 config c r) (\<lambda>_. liftS (mut_result mutation)))
      (set_log (slot c) (log_bytes blake3 h) d, synced blake3 config c h)"
    and "store_ok blake3 config c h (set_log (slot c) (log_bytes blake3 h) d)"
proof -
  obtain t where t: "initialize_header (log_of (slot c) d) = (Inr (), log_bytes blake3 h @ t)"
    "torn t" "length (log_bytes blake3 h @ t) \<le> max_log_bytes config"
    using initialize_header_ok[OF assms(1,2)] by blast
  have rc: "read_control blake3 (control_file d) = Inr c" using assms(2) by (simp add: store_ok_def)
  show "transact blake3 config f (d, st) =
    bindS (\<lambda>s. (f (ps_records (snd s)), s)) (\<lambda>mutation.
      bindS (case mut_persist mutation of None \<Rightarrow> returnS ()
             | Some r \<Rightarrow> persist_record blake3 config c r) (\<lambda>_. liftS (mut_result mutation)))
      (set_log (slot c) (log_bytes blake3 h) d, synced blake3 config c h)"
    unfolding transact_def
    by (subst bindS_def, simp add: rc, subst bindS_def, simp add: on_log_def t(1),
        subst bindS_def, simp add: on_log_def refresh_ok[OF assms(2,3) t(2,3)])
  show "store_ok blake3 config c h (set_log (slot c) (log_bytes blake3 h) d)"
    using store_ok_set_log[OF assms(2)] t(3) by simp
qed


section \<open>Persisting one record\<close>

definition legal_update :: "(digest, transaction_record) btree \<Rightarrow> transaction_record \<Rightarrow> bool" where
  "legal_update rs r \<longleftrightarrow>
     (case map_of rs (rec_id r) of
        None \<Rightarrow> True
      | Some p \<Rightarrow> rec_base p = rec_base r \<and> rec_artifact p = rec_artifact r \<and>
          can_transition_to (rec_state p) (rec_state r) \<and>
          (rec_approval p = rec_approval r \<or> rec_approval p = None \<and>
             rec_state p = PendingApproval \<and> rec_state r = Approved))"

definition grants_ok :: "(bytes \<Rightarrow> digest) \<Rightarrow> transaction_record \<Rightarrow> bool" where
  "grants_ok blake3 r \<longleftrightarrow> (\<forall>g. rec_approval r = Some g \<longrightarrow> grant_ok blake3 g)"

lemma legal_apply:
  "legal_update rs r \<Longrightarrow> bt_contains rs (rec_id r) \<or> length rs < m \<Longrightarrow>
   apply_replayed_record rs r 0 m = Inr (bt_insert (rec_id r) r rs)"
  by (auto simp: legal_update_def apply_replayed_record_def bt_contains_def split: option.splits)

lemma log_of_other: "unat s < 2 \<Longrightarrow> log_of s (set_log (s XOR 1) f d) = log_of s d"
  using slot_xor[of s] unsigned_eq_0_iff[of s] unsigned_eq_0_iff[of "s XOR 1"]
  by (auto simp: log_of_def set_log_def)

lemma log_of_control [simp]: "log_of s (d\<lparr>control_file := f\<rparr>) = log_of s d"
  by (simp add: log_of_def)

text \<open>What changes between two well-formed stores, for every handle of them.\<close>

definition advances :: "(bytes \<Rightarrow> digest) \<Rightarrow> file_store_config \<Rightarrow>
    control_state \<times> transaction_record list \<Rightarrow> control_state \<times> transaction_record list \<Rightarrow> bool" where
  "advances blake3 config p q \<longleftrightarrow> (\<forall>st. handle_ok blake3 config (fst p) (snd p) st \<longrightarrow>
     handle_ok blake3 config (fst q) (snd q) st)"

lemma advances_refl [simp]: "advances blake3 config p p"
  by (simp add: advances_def)

lemma handle_ok_generation: "handle_ok blake3 config c h st \<Longrightarrow>
    unat (ps_generation st) \<le> unat (generation c)"
  by (auto simp: handle_ok_def)

lemma append_spec:
  assumes "config_ok config" "store_ok blake3 config c h d"
    and "log_of (slot c) d = log_bytes blake3 h"
    and "legal_update (contents config h) r" "grants_ok blake3 r"
    and "bt_contains (contents config h) (rec_id r) \<or> length (contents config h) < max_records config"
    and "write_record_frame blake3 config r (length (log_bytes blake3 h)) (log_bytes blake3 h) = (Inr n, log)"
  shows "store_ok blake3 config c (h @ [r]) (set_log (slot c) log d)"
    "contents config (h @ [r]) = bt_insert (rec_id r) r (contents config h)"
    "n = length (log_bytes blake3 (h @ [r]))"
proof -
  note w = write_record_frame_end[OF assms(1,7)]
  have "replay (max_records config) [] (h @ [r]) = Some (bt_insert (rec_id r) r (contents config h))"
    using store_ok_replay[OF assms(2)] legal_apply[OF assms(4,6)] by (simp add: replay_append)
  moreover have "log = log_bytes blake3 (h @ [r])" using w(2) by (simp add: log_bytes_append)
  moreover have "record_ok blake3 r" using w(1) assms(5) by (simp add: record_ok_def grants_ok_def)
  ultimately show "store_ok blake3 config c (h @ [r]) (set_log (slot c) log d)"
    "contents config (h @ [r]) = bt_insert (rec_id r) r (contents config h)"
    "n = length (log_bytes blake3 (h @ [r]))"
    using assms(2) w(3,4) by (auto simp: store_ok_def contents_def)
qed

lemma compact_spec:
  assumes "config_ok config" "store_ok blake3 config c h d" "grants_ok blake3 r"
    and "bt_contains (contents config h) (rec_id r) \<or> length (contents config h) < max_records config"
  obtains (failed) e d' where "compact blake3 config c r (d, synced blake3 config c h) =
      (Inl e, d', synced blake3 config c h)" "store_ok blake3 config c h d'"
  | (compacted) c' h' d' where "compact blake3 config c r (d, synced blake3 config c h) =
      (Inr (), d', synced blake3 config c' h')" "store_ok blake3 config c' h' d'"
      "contents config h' = bt_insert (rec_id r) r (contents config h)"
      "unat (generation c) < unat (generation c')"
proof -
  let ?st = "synced blake3 config c h" and ?rs = "contents config h"
  note cache = store_ok_cache[OF assms(2)]
  have rc: "read_control blake3 (control_file d) = Inr c" using assms(2) by (simp add: store_ok_def)
  note c = read_control_Inr[OF rc]
  have other: "store_ok blake3 config c h (set_log (slot c XOR 1) f d)" for f
    using assms(2) log_of_other[OF c(4)] by (simp add: store_ok_def)
  show thesis
  proof (cases "checked_add (generation c) 1")
    case None
    then show thesis using assms(2) by (intro failed) (auto simp: compact_def)
  next
    case (Some g)
    then have next_: "\<lparr>generation = g, slot = slot c XOR 1\<rparr> = next_control c"
      by (auto simp: next_control_def checked_add_Some_iff)
    have lt: "unat (generation c) < unat (generation (next_control c))"
      using checked_add_Some[OF Some] by (auto simp flip: next_)
    obtain res log where cl: "compact_log blake3 config r ?rs (log_of (slot c XOR 1) d) = (res, log)"
      by fastforce
    show thesis
    proof (cases res)
      case (Inl e)
      then show thesis using Some cl other by (intro failed) (auto simp: compact_def synced_def)
    next
      case (Inr n)
      note w = compact_log_written[OF assms(1) _ cl[unfolded Inr]]
      have ok: "record_ok blake3 r" using w(1) assms(3) cache
        by (simp add: record_ok_def grants_ok_def cache_ok_def)
      note ins = cache_ok_insert[OF cache ok assms(4)]
      let ?h = "map snd (bt_insert (rec_id r) r ?rs)"
      have rep: "replay (max_records config) [] ?h = Some (bt_insert (rec_id r) r ?rs)"
        by (rule replay_cache[OF ins])
      have recs: "list_all (record_ok blake3) ?h" using ins by (auto simp: cache_ok_def list_all_iff)
      obtain f where f: "append_control blake3 c (next_control c) (control_file d) = (Inr (), f)"
        "read_control blake3 f = Inr (next_control c)"
        using append_control_ok[OF rc Some] by blast
      let ?d = "(set_log (slot c XOR 1) log d)\<lparr>control_file := f\<rparr>"
      have "store_ok blake3 config (next_control c) ?h ?d"
        using f(2) rep recs w cache
        by (auto simp: store_ok_def cache_ok_def) (auto simp: next_control_def)
      moreover have "compact blake3 config c r (d, ?st) = (Inr (), ?d, synced blake3 config (next_control c) ?h)"
        using Some cl Inr f(1) w(2,3) cache rep
        by (simp add: compact_def synced_def next_ contents_def cache_ok_def)
           (simp add: next_control_def)
      ultimately show thesis using rep lt by (intro compacted) (auto simp: contents_def)
    qed
  qed
qed


lemma persist_spec:
  assumes "config_ok config" "store_ok blake3 config c h d"
    and "log_of (slot c) d = log_bytes blake3 h"
    and "legal_update (contents config h) r" "grants_ok blake3 r"
  obtains (failed) e d' where "persist_record blake3 config c r (d, synced blake3 config c h) =
      (Inl e, d', synced blake3 config c h)" "store_ok blake3 config c h d'"
  | (persisted) c' h' d' where "persist_record blake3 config c r (d, synced blake3 config c h) =
      (Inr (), d', synced blake3 config c' h')" "store_ok blake3 config c' h' d'"
      "contents config h' = bt_insert (rec_id r) r (contents config h)"
      "advances blake3 config (c, h) (c', h')"
proof -
  let ?st = "synced blake3 config c h" and ?rs = "contents config h"
  let ?off = "length (log_bytes blake3 h)"
  have st: "ps_records ?st = ?rs" "ps_offset ?st = ?off" by (simp_all add: synced_def)
  show thesis
  proof (cases "bt_contains ?rs (rec_id r) \<or> length ?rs < max_records config")
    case False
    then show thesis using assms(2) by (intro failed) (auto simp: persist_record_def st Let_def)
  next
    case True
    obtain res log where w: "write_record_frame blake3 config r ?off (log_bytes blake3 h) = (res, log)"
      by fastforce
    have unchanged: "set_log (slot c) (log_bytes blake3 h) d = d"
      unfolding assms(3)[symmetric] by (simp add: set_log_def log_of_def)
    have on_log: "on_log (slot c) (append_record blake3 config r) (d, ?st) =
      (case res of Inl e \<Rightarrow> (Inl e, d, ?st)
       | Inr n \<Rightarrow> (Inr (), set_log (slot c) log d, ?st\<lparr>ps_offset := n\<rparr>))"
      using w write_record_frame_Inl[of blake3 config r ?off "log_bytes blake3 h"] unchanged
      by (cases res) (auto simp: on_log_def append_record_def assms(3) st)
    have guard: "\<not> (\<not> bt_contains ?rs (rec_id r) \<and> max_records config \<le> length ?rs)" using True by auto
    show thesis
    proof (cases res)
      case (Inr n)
      note a = append_spec[OF assms True w[unfolded Inr]]
      have "synced blake3 config c (h @ [r]) =
          ?st\<lparr>ps_offset := n, ps_records := bt_insert (rec_id r) r ?rs\<rparr>"
        using a(2,3) by (simp add: synced_def)
      then show thesis
        using a(1,2) guard handle_ok_extend
        by (intro persisted[of "set_log (slot c) log d" c "h @ [r]"])
           (auto simp: persist_record_def st Let_def on_log Inr advances_def)
    next
      case (Inl e)
      show thesis
      proof (cases "\<exists>a b. e = PersistentLogLimit a b")
        case False
        then show thesis using assms(2) guard
          by (intro failed[of e d]) (auto simp: persist_record_def st Let_def on_log Inl split: tx_store_error.splits)
      next
        case limit: True
        have pr: "persist_record blake3 config c r (d, ?st) = compact blake3 config c r (d, ?st)"
          using limit guard by (auto simp: persist_record_def st Let_def on_log Inl)
        show thesis
        proof (rule compact_spec[OF assms(1,2,5) True])
          fix e d' assume "compact blake3 config c r (d, ?st) = (Inl e, d', ?st)"
            "store_ok blake3 config c h d'"
          then show thesis using that(1) pr by simp
        next
          fix c' h' d' assume "compact blake3 config c r (d, ?st) = (Inr (), d', synced blake3 config c' h')"
            "store_ok blake3 config c' h' d'" "contents config h' = bt_insert (rec_id r) r ?rs"
            "unat (generation c) < unat (generation c')"
          then show thesis
            using pr handle_ok_generation[of blake3 config c h]
            by (intro persisted) (force simp: advances_def handle_ok_def)+
        qed
      qed
    qed
  qed
qed

section \<open>Errors of the storage layer\<close>

fun storage_error :: "tx_store_error \<Rightarrow> bool" where
  "storage_error (PersistentIo _ _) = True"
| "storage_error (PersistentCorrupt _ _) = True"
| "storage_error (PersistentLogLimit _ _) = True"
| "storage_error (PersistentRecordLimit _ _) = True"
| "storage_error _ = False"

lemma storage_error_corrupt [simp]: "storage_error (corrupt i s)"
  by (simp add: corrupt_def)

lemma validate_record_error: "validate_record r i = Inl e \<Longrightarrow> storage_error e"
  by (auto simp: validate_record_def split: if_splits)

lemma read_slot_error: "read_slot blake3 f n = Inl e \<Longrightarrow> storage_error e"
  by (auto simp: read_slot_def Let_def split: if_splits)

lemma bindR_Inl_iff: "bindR r f = Inl e \<longleftrightarrow> r = Inl e \<or> (\<exists>x. r = Inr x \<and> f x = Inl e)"
  by (cases r) auto

lemma read_control_error:
  assumes "read_control blake3 f = Inl e"
  shows "storage_error e"
proof (cases "read_slot blake3 f 0")
  case (Inl e')
  then show ?thesis using assms read_slot_error[OF Inl] by (auto simp: read_control_def split: if_splits)
next
  case a: (Inr a)
  show ?thesis
  proof (cases "read_slot blake3 f 1")
    case (Inl e')
    then show ?thesis using assms a read_slot_error[OF Inl]
      by (auto simp: read_control_def split: if_splits)
  next
    case (Inr b)
    then show ?thesis
      using assms a by (cases "candidates_of a b" rule: remdups_adj.cases)
        (auto simp: read_control_def split: if_splits list.splits)
  qed
qed

lemma write_record_frame_error: "write_record_frame blake3 config r i f = (Inl e, g) \<Longrightarrow> storage_error e"
  by (auto simp: write_record_frame_def Let_def dest: validate_record_error
      split: sum.splits if_splits)

lemma compact_loop_error:
  "compact_loop blake3 config r es cur f = (Inl e, g) \<Longrightarrow> storage_error e"
proof (induction es arbitrary: cur f)
  case (Cons x es)
  obtain i y where x: "x = (i, y)" by (cases x)
  show ?case
    using Cons.prems
    by (auto simp: x bindS_Inl bindS_Inr dest: write_record_frame_error Cons.IH split: if_splits)
qed simp

lemma compact_log_error: "compact_log blake3 config r rs f = (Inl e, g) \<Longrightarrow> storage_error e"
  by (auto simp: compact_log_def bindS_Inl dest: compact_loop_error write_record_frame_error
      split: if_splits)

lemma append_control_error: "append_control blake3 c n f = (Inl e, g) \<Longrightarrow> storage_error e"
  by (auto simp: append_control_def dest: read_control_error split: if_splits sum.splits)

lemma compact_error: "compact blake3 config c r f = (Inl e, g) \<Longrightarrow> storage_error e"
  by (auto simp: compact_def Let_def dest: compact_log_error append_control_error
      split: option.splits prod.splits sum.splits)

lemma append_record_error: "append_record blake3 config r f = (Inl e, g) \<Longrightarrow> storage_error e"
  by (auto simp: append_record_def dest: write_record_frame_error split: prod.splits sum.splits)

lemma persist_record_error:
  assumes "persist_record blake3 config c r f = (Inl e, g)"
  shows "storage_error e"
proof -
  obtain res d st where ol: "on_log (slot c) (append_record blake3 config r) f = (res, d, st)"
    by (metis prod_cases3)
  have ae: "storage_error e'" if "res = Inl e'" for e'
    using ol that by (auto simp: on_log_def dest: append_record_error split: prod.splits)
  show ?thesis
  proof (cases res)
    case (Inr u)
    then show ?thesis using assms ol by (auto simp: persist_record_def Let_def split: if_splits)
  next
    case (Inl e')
    then show ?thesis
      using assms ol ae[OF Inl] compact_error
      by (auto simp: persist_record_def Let_def split: if_splits tx_store_error.splits)
  qed
qed

text \<open>
  One operation on a well-formed store: it leaves a well-formed store, and either the contents
  stand or the record of the operation has been put in and its result is returned.
\<close>

lemma transact_spec:
  assumes "config_ok config" "store_ok blake3 config c h d" "handle_ok blake3 config c h st"
    and "\<And>m r. f (contents config h) = Inr m \<Longrightarrow> mut_persist m = Some r \<Longrightarrow>
      legal_update (contents config h) r \<and> grants_ok blake3 r"
  obtains c' h' d' st' res where "transact blake3 config f (d, st) = (res, d', st')"
    "store_ok blake3 config c' h' d'" "handle_ok blake3 config c' h' st'"
    "advances blake3 config (c, h) (c', h')"
    "contents config h' = contents config h \<and>
       (case res of
          Inl e \<Rightarrow> storage_error e \<or> f (contents config h) = Inl e \<or>
            (\<exists>m. f (contents config h) = Inr m \<and> mut_persist m = None \<and> mut_result m = Inl e)
        | Inr v \<Rightarrow> f (contents config h) = Inr \<lparr>mut_persist = None, mut_result = Inr v\<rparr>) \<or>
     (\<exists>m r. f (contents config h) = Inr m \<and> mut_persist m = Some r \<and> res = mut_result m \<and>
       contents config h' = bt_insert (rec_id r) r (contents config h))"
proof -
  let ?d = "set_log (slot c) (log_bytes blake3 h) d" and ?st = "synced blake3 config c h"
  let ?rs = "contents config h"
  note b = transact_begin(1)[OF assms(1-3), of f] transact_begin(2)[OF assms(1-3)]
  have st: "ps_records ?st = ?rs" by (simp add: synced_def)
  have hok: "handle_ok blake3 config c h ?st"
    using store_ok_replay[OF assms(2)] by (simp add: handle_ok_synced)
  show thesis
  proof (cases "f ?rs")
    case (Inl e)
    then show thesis using that[of "Inl e" ?d ?st c h] b hok by (simp add: bindS_apply st)
  next
    case (Inr m)
    show thesis
    proof (cases "mut_persist m")
      case None
      then have "m = \<lparr>mut_persist = None, mut_result = mut_result m\<rparr>" by simp
      then show thesis using that[of "mut_result m" ?d ?st c h] b hok Inr None
        by (cases "mut_result m") (auto simp: bindS_apply st)
    next
      case (Some r)
      have lg: "legal_update ?rs r" "grants_ok blake3 r" using assms(4)[OF Inr Some] by simp_all
      show thesis
      proof (rule persist_spec[OF assms(1) b(2) log_of_set lg])
        fix e d' assume "persist_record blake3 config c r (?d, ?st) = (Inl e, d', ?st)"
          "store_ok blake3 config c h d'"
        then show thesis using that[of "Inl e" d' ?st c h] b hok Inr Some persist_record_error
          by (simp add: bindS_apply st)
      next
        fix c' h' d' assume p: "persist_record blake3 config c r (?d, ?st) =
            (Inr (), d', synced blake3 config c' h')" "store_ok blake3 config c' h' d'"
          "contents config h' = bt_insert (rec_id r) r ?rs" "advances blake3 config (c, h) (c', h')"
        then show thesis
          using that[of "mut_result m" d' "synced blake3 config c' h'" c' h'] b Inr Some
            handle_ok_synced[of config h' blake3 c'] store_ok_replay[OF p(2)] p
          by (simp add: bindS_apply st)
      qed
    qed
  qed
qed

section \<open>A store shared by any number of handles\<close>

text \<open>The files, and the cached state of every open handle, in this process or another.\<close>

type_synonym shared_store = "disk \<times> (nat \<Rightarrow> persistent_state)"

definition at_handle ::
  "nat \<Rightarrow> (disk \<times> persistent_state, 'e, 'a) op \<Rightarrow> (shared_store, 'e, 'a) op" where
  "at_handle k m s = (case m (fst s, snd s k) of (r, d, st) \<Rightarrow> (r, d, (snd s)(k := st)))"

text \<open>What a process that opens the files now would see.\<close>

definition file_lookup ::
  "(bytes \<Rightarrow> digest) \<Rightarrow> file_store_config \<Rightarrow> shared_store \<Rightarrow> digest \<Rightarrow> transaction_record option" where
  "file_lookup blake3 config s =
     (case file_open blake3 config (fst s) of
        (Inr st, _) \<Rightarrow> map_of (ps_records st)
      | (Inl _, _) \<Rightarrow> Map.empty)"

definition file_inv :: "(bytes \<Rightarrow> digest) \<Rightarrow> file_store_config \<Rightarrow> shared_store \<Rightarrow> bool" where
  "file_inv blake3 config s \<longleftrightarrow> config_ok config \<and>
     (\<exists>c h. store_ok blake3 config c h (fst s) \<and> (\<forall>k. handle_ok blake3 config c h (snd s k)))"

lemma file_open_ok:
  assumes "config_ok config" "store_ok blake3 config c h d"
  shows "file_open blake3 config d =
    (Inr (synced blake3 config c h), set_log (slot c) (log_bytes blake3 h) d)"
proof -
  obtain t where t: "initialize_header (log_of (slot c) d) = (Inr (), log_bytes blake3 h @ t)"
    "torn t" "length (log_bytes blake3 h @ t) \<le> max_log_bytes config"
    using initialize_header_ok[OF assms] by blast
  have rc: "read_control blake3 (control_file d) = Inr c" using assms(2) by (simp add: store_ok_def)
  have "initialize_control blake3 (control_file d) = (Inr c, control_file d)"
    using rc read_control_Inr(1,2)[OF rc]
    by (simp add: initialize_control_def) (simp add: control_sizes)
  moreover have "handle_ok blake3 config c h \<lparr>ps_records = [], ps_offset = header_bytes,
      ps_generation = generation c, ps_slot = slot c\<rparr>"
    unfolding handle_ok_def
    by (intro disjI2 conjI exI[of _ "[]"] exI[of _ h]) (simp_all add: log_bytes_def)
  note refresh_ok[OF assms(2) this t(2,3)]
  moreover have "validate_config config = Inr ()" using assms(1) by (simp add: config_ok_def)
  moreover have "d\<lparr>control_file := control_file d\<rparr> = d" by simp
  ultimately show ?thesis by (simp add: file_open_def t(1) Let_def)
qed

lemma file_lookup_contents:
  "config_ok config \<Longrightarrow> store_ok blake3 config c h (fst s) \<Longrightarrow>
   file_lookup blake3 config s = map_of (contents config h)"
  by (simp add: file_lookup_def file_open_ok synced_def)

end
