(* ===== verification/FileStore.thy ===== *)
theory FileStore
  imports PersistInv
begin

text \<open>
  The durable store provides the contract of a transaction store (an interpretation of
  \<open>transaction_store\<close> for any number of handles on the same files), refines the in-memory store,
  and keeps its contents over a crash in the middle of an append or of a compaction.
\<close>

lemma shared_transact:
  assumes "file_inv blake3 config s"
    and "\<And>rs m r. cache_ok blake3 (max_records config) rs \<Longrightarrow>
      map_of rs = file_lookup blake3 config s \<Longrightarrow> f rs = Inr m \<Longrightarrow> mut_persist m = Some r \<Longrightarrow>
      legal_update rs r \<and> grants_ok blake3 r"
  obtains rs where "map_of rs = file_lookup blake3 config s"
    "cache_ok blake3 (max_records config) rs"
    "file_inv blake3 config (snd (at_handle k (transact blake3 config f) s))"
    "file_lookup blake3 config (snd (at_handle k (transact blake3 config f) s)) =
        file_lookup blake3 config s \<and>
      (case fst (at_handle k (transact blake3 config f) s) of
         Inl e \<Rightarrow> storage_error e \<or> f rs = Inl e \<or>
           (\<exists>m. f rs = Inr m \<and> mut_persist m = None \<and> mut_result m = Inl e)
       | Inr v \<Rightarrow> f rs = Inr \<lparr>mut_persist = None, mut_result = Inr v\<rparr>) \<or>
     (\<exists>m r. f rs = Inr m \<and> mut_persist m = Some r \<and>
       fst (at_handle k (transact blake3 config f) s) = mut_result m \<and>
       file_lookup blake3 config (snd (at_handle k (transact blake3 config f) s)) =
         (file_lookup blake3 config s)(rec_id r \<mapsto> r))"
proof -
  obtain c h where ok: "config_ok config" "store_ok blake3 config c h (fst s)"
    "\<And>k. handle_ok blake3 config c h (snd s k)"
    using assms(1) by (auto simp: file_inv_def)
  have lk: "file_lookup blake3 config s = map_of (contents config h)"
    by (rule file_lookup_contents[OF ok(1,2)])
  note cache = store_ok_cache[OF ok(2)]
  show thesis
  proof (rule transact_spec[OF ok(1,2) ok(3)[of k], of f])
    fix m r assume "f (contents config h) = Inr m" "mut_persist m = Some r"
    then show "legal_update (contents config h) r \<and> grants_ok blake3 r"
      using assms(2)[OF cache lk[symmetric]] by blast
  next
    fix c' h' d' st' res
    assume t: "transact blake3 config f (fst s, snd s k) = (res, d', st')"
      "store_ok blake3 config c' h' d'" "handle_ok blake3 config c' h' st'"
      "advances blake3 config (c, h) (c', h')"
      and alt: "contents config h' = contents config h \<and>
        (case res of
           Inl e \<Rightarrow> storage_error e \<or> f (contents config h) = Inl e \<or>
             (\<exists>m. f (contents config h) = Inr m \<and> mut_persist m = None \<and> mut_result m = Inl e)
         | Inr v \<Rightarrow> f (contents config h) = Inr \<lparr>mut_persist = None, mut_result = Inr v\<rparr>) \<or>
        (\<exists>m r. f (contents config h) = Inr m \<and> mut_persist m = Some r \<and> res = mut_result m \<and>
          contents config h' = bt_insert (rec_id r) r (contents config h))"
    let ?s = "at_handle k (transact blake3 config f) s"
    have eq: "fst ?s = res" "snd ?s = (d', (snd s)(k := st'))"
      by (simp_all add: at_handle_def t(1))
    have inv: "file_inv blake3 config (snd ?s)"
      unfolding file_inv_def eq using ok t by (auto simp: advances_def intro!: exI[of _ c'] exI[of _ h'])
    have lk': "file_lookup blake3 config (snd ?s) = map_of (contents config h')"
      by (rule file_lookup_contents[OF ok(1), of _ c']) (simp add: eq t(2))
    show thesis
      by (rule that[OF lk[symmetric] cache inv]) (use alt in \<open>auto simp: lk lk'[unfolded eq] eq\<close>)
  qed
qed

abbreviation (input) "fcreate \<equiv> \<lambda>blake3 config k r. at_handle k (file_create blake3 config r)"
abbreviation (input) "fget \<equiv> \<lambda>blake3 config k i. at_handle k (file_get blake3 config i)"
abbreviation (input) "fcat \<equiv> \<lambda>blake3 config k i e n.
  at_handle k (file_compare_and_transition blake3 config i e n)"
abbreviation (input) "fapprove \<equiv> \<lambda>blake3 config k i g. at_handle k (file_approve blake3 config i g)"
abbreviation (input) "freserve \<equiv> \<lambda>blake3 config k i now. at_handle k (file_reserve blake3 config i now)"

lemma at_handle_pure:
  "at_handle k (failS e) s = (Inl e, s)"
  by (simp add: at_handle_def failS_def)

lemma at_handle_lift:
  "at_handle k (bindS (liftS r) f) s =
    (case r of Inl e \<Rightarrow> (Inl e, s) | Inr x \<Rightarrow> at_handle k (f x) s)"
  by (cases r) (simp_all add: at_handle_def bindS_apply)

lemma legal_create:
  "validate_record r 0 = Inr () \<Longrightarrow> map_of rs (rec_id r) = None \<Longrightarrow> rec_approval r = None \<Longrightarrow>
   legal_update rs r \<and> grants_ok blake3 r"
  by (simp add: legal_update_def grants_ok_def)

lemma legal_transition:
  assumes "cache_ok blake3 m rs" "map_of rs i = Some r" "can_transition_to (rec_state r) n"
  shows "legal_update rs (r\<lparr>rec_state := n\<rparr>) \<and> grants_ok blake3 (r\<lparr>rec_state := n\<rparr>) \<and> rec_id r = i"
  using cache_ok_lookup[OF assms(1,2)] assms(2,3)
  by (auto simp: legal_update_def grants_ok_def record_ok_def)

lemma record_ok_unapproved: "record_ok blake3 r \<Longrightarrow> unapproved r"
  by (auto simp: record_ok_def validate_record_def unapproved_def split: if_splits)

lemma legal_approve:
  assumes "cache_ok blake3 m rs" "map_of rs i = Some r" "rec_state r = PendingApproval"
    and "grant_ok blake3 g"
  shows "legal_update rs (r\<lparr>rec_state := Approved, rec_approval := Some g\<rparr>) \<and>
    grants_ok blake3 (r\<lparr>rec_state := Approved, rec_approval := Some g\<rparr>) \<and> rec_id r = i"
  using cache_ok_lookup[OF assms(1,2)] assms(2-4) record_ok_unapproved[of blake3 r]
  by (auto simp: legal_update_def grants_ok_def unapproved_def can_transition_to_def)

text \<open>One lemma for each operation: the invariant, the change of the contents, the result.\<close>

lemma shared_create:
  assumes "file_inv blake3 config s" "rec_approval r = None"
    and "fcreate blake3 config k r s = (res, t)"
  shows "file_inv blake3 config t \<and>
    (file_lookup blake3 config t = file_lookup blake3 config s \<and> (\<forall>v. res \<noteq> Inr v) \<or>
     file_lookup blake3 config s (rec_id r) = None \<and> res = Inr () \<and>
       file_lookup blake3 config t = (file_lookup blake3 config s)(rec_id r \<mapsto> r))"
proof (cases "validate_record r 0")
  case (Inl e)
  then show ?thesis using assms(1,3) by (auto simp: file_create_def at_handle_lift)
next
  case (Inr u)
  then have u: "validate_record r 0 = Inr ()" by simp
  show ?thesis
  proof (rule shared_transact[OF assms(1), where k = k and
        f = "\<lambda>rs. if bt_contains rs (rec_id r) then Inl (Duplicate (rec_id r))
              else Inr \<lparr>mut_persist = Some r, mut_result = Inr ()\<rparr>"], goal_cases)
    case (1 rs m r')
    then show ?case using legal_create[OF u _ assms(2), of rs blake3]
      by (auto simp: bt_contains_def split: if_splits)
  next
    case (2 rs)
    have "at_handle k (transact blake3 config (\<lambda>rs. if bt_contains rs (rec_id r)
        then Inl (Duplicate (rec_id r)) else Inr \<lparr>mut_persist = Some r, mut_result = Inr ()\<rparr>)) s = (res, t)"
      using assms(3) by (simp add: file_create_def at_handle_lift u)
    then show ?case using 2(3,4)
      by (auto simp: bt_contains_def 2(1)[symmetric] split: if_splits)
  qed
qed

lemma shared_get:
  assumes "file_inv blake3 config s" "fget blake3 config k i s = (res, t)"
  shows "file_inv blake3 config t \<and> file_lookup blake3 config t = file_lookup blake3 config s \<and>
    (\<forall>r. res = Inr r \<longrightarrow> file_lookup blake3 config s i = Some r)"
proof (rule shared_transact[OF assms(1), where k = k and f = "\<lambda>rs.
        ok_or (map_option (\<lambda>r. \<lparr>mut_persist = None, mut_result = Inr r\<rparr>) (map_of rs i)) (NotFound i)"],
    goal_cases)
  case (2 rs)
  then show ?case using assms(2) unfolding file_get_def by (auto simp: 2(1)[symmetric])
qed auto

lemma shared_cat:
  assumes "file_inv blake3 config s" "fcat blake3 config k i e n s = (res, t)"
  shows "file_inv blake3 config t \<and>
    (file_lookup blake3 config t = file_lookup blake3 config s \<and> (\<forall>v. res \<noteq> Inr v) \<or>
     (\<exists>r. file_lookup blake3 config s i = Some r \<and> rec_state r = e \<and> can_transition_to e n \<and>
       res = Inr (r\<lparr>rec_state := n\<rparr>) \<and>
       file_lookup blake3 config t = (file_lookup blake3 config s)(i \<mapsto> r\<lparr>rec_state := n\<rparr>)))"
proof (rule shared_transact[OF assms(1), where k = k and f = "\<lambda>rs.
     bindR (ok_or (map_of rs i) (NotFound i)) (\<lambda>r.
     if rec_state r \<noteq> e then Inl (StateConflict i e (rec_state r))
     else bindR (map_err Transition (transition r n)) (\<lambda>r'.
       Inr \<lparr>mut_persist = Some r', mut_result = Inr r'\<rparr>))"], goal_cases)
  case (1 rs m r)
  then show ?case using legal_transition[OF 1(1), of i]
    by (auto simp: bindR_Inr_iff transition_Inr_iff split: if_splits)
next
  case (2 rs)
  have id: "rec_id r = i" if "file_lookup blake3 config s i = Some r" for r
    using cache_ok_lookup[OF 2(2)] that by (simp add: 2(1))
  note run = assms(2)[unfolded file_compare_and_transition_def]
  from 2(3,4) show ?case
    unfolding run fst_conv snd_conv
    by (auto simp: bindR_Inr_iff transition_Inr_iff 2(1) id split: if_splits)
qed

lemma shared_approve:
  assumes "file_inv blake3 config s" "grant_ok blake3 g" "fapprove blake3 config k i g s = (res, t)"
  shows "file_inv blake3 config t \<and>
    (file_lookup blake3 config t = file_lookup blake3 config s \<and> (\<forall>v. res \<noteq> Inr v) \<or>
     (\<exists>r. file_lookup blake3 config s i = Some r \<and> rec_state r = PendingApproval \<and>
       grant_transaction g = i \<and> res = Inr (r\<lparr>rec_state := Approved, rec_approval := Some g\<rparr>) \<and>
       file_lookup blake3 config t =
         (file_lookup blake3 config s)(i \<mapsto> r\<lparr>rec_state := Approved, rec_approval := Some g\<rparr>)))"
proof (cases "grant_transaction g = i")
  case False
  then show ?thesis using assms(1,3) by (auto simp: file_approve_def at_handle_pure)
next
  case bound: True
  show ?thesis
  proof (rule shared_transact[OF assms(1), where k = k and f = "\<lambda>rs.
        bindR (ok_or (map_of rs i) (NotFound i)) (\<lambda>r.
        if rec_state r \<noteq> PendingApproval then Inl (StateConflict i PendingApproval (rec_state r))
        else bindR (map_err Transition (transition r Approved)) (\<lambda>r'.
          let r'' = r'\<lparr>rec_approval := Some g\<rparr>
          in Inr \<lparr>mut_persist = Some r'', mut_result = Inr r''\<rparr>))"], goal_cases)
    case (1 rs m r)
    then show ?case using legal_approve[OF 1(1) _ _ assms(2), of i]
      by (auto simp: bindR_Inr_iff transition_Inr_iff Let_def split: if_splits)
  next
    case (2 rs)
    have id: "rec_id r = i" if "file_lookup blake3 config s i = Some r" for r
      using cache_ok_lookup[OF 2(2)] that by (simp add: 2(1))
    have run: "at_handle k (transact blake3 config (\<lambda>rs.
        bindR (ok_or (map_of rs i) (NotFound i)) (\<lambda>r.
        if rec_state r \<noteq> PendingApproval then Inl (StateConflict i PendingApproval (rec_state r))
        else bindR (map_err Transition (transition r Approved)) (\<lambda>r'.
          let r'' = r'\<lparr>rec_approval := Some g\<rparr>
          in Inr \<lparr>mut_persist = Some r'', mut_result = Inr r''\<rparr>)))) s = (res, t)"
      using assms(3) bound by (simp add: file_approve_def)
    from 2(3,4) show ?case
      unfolding run fst_conv snd_conv
      by (auto simp: bindR_Inr_iff transition_Inr_iff 2(1) id bound Let_def split: if_splits)
  qed
qed

lemma shared_reserve:
  assumes "file_inv blake3 config s" "freserve blake3 config k i now s = (res, t)"
  shows "file_inv blake3 config t \<and>
    (file_lookup blake3 config t = file_lookup blake3 config s \<and> (\<forall>v. res \<noteq> Inr v) \<or>
     (\<exists>r. file_lookup blake3 config s i = Some r \<and>
       (rec_state r = Approved \<and> (\<forall>v. res \<noteq> Inr v) \<and>
          file_lookup blake3 config t = (file_lookup blake3 config s)(i \<mapsto> r\<lparr>rec_state := Expired\<rparr>) \<or>
        (rec_state r = AutoApproved \<or> rec_state r = Approved \<and>
           (\<exists>g. rec_approval r = Some g \<and> \<not> is_expired_at g now)) \<and>
          res = Inr \<lparr>res_transaction = i, res_base = rec_base r\<rparr> \<and>
          file_lookup blake3 config t = (file_lookup blake3 config s)(i \<mapsto> r\<lparr>rec_state := Reserved\<rparr>))))"
proof (rule shared_transact[OF assms(1), where k = k and f = "\<lambda>rs.
     bindR (ok_or (map_of rs i) (NotFound i)) (\<lambda>r.
     let reserved = bindR (map_err Transition (transition r Reserved)) (\<lambda>r'.
           Inr \<lparr>mut_persist = Some r',
               mut_result = Inr \<lparr>res_transaction = i, res_base = rec_base r'\<rparr>\<rparr>) in
     if rec_state r = AutoApproved then reserved
     else if rec_state r = Approved then
       bindR (ok_or (rec_approval r) (MissingApproval i)) (\<lambda>grant.
         if is_expired_at grant now then
           bindR (map_err Transition (transition r Expired)) (\<lambda>r'.
             Inr \<lparr>mut_persist = Some r',
                 mut_result = Inl (ApprovalExpired i (grant_expires grant) now)\<rparr>)
         else reserved)
     else Inl (NotReservable i (rec_state r)))"], goal_cases)
  case (1 rs m r)
  then show ?case using legal_transition[OF 1(1), of i]
    by (auto simp: bindR_Inr_iff transition_Inr_iff Let_def split: if_splits)
next
  case (2 rs)
  have id: "rec_id r = i" if "file_lookup blake3 config s i = Some r" for r
    using cache_ok_lookup[OF 2(2)] that by (simp add: 2(1))
  note run = assms(2)[unfolded file_reserve_def]
  from 2(3,4) show ?case
    unfolding run fst_conv snd_conv
    by (auto simp: bindR_Inr_iff transition_Inr_iff 2(1) id Let_def split: if_splits)
qed

section \<open>The contract of a transaction store\<close>

lemma shared_pending:
  assumes "file_inv blake3 config s" "file_lookup blake3 config s i = Some r"
  shows "unapproved r"
proof -
  obtain c h where ok: "config_ok config" "store_ok blake3 config c h (fst s)"
    using assms(1) by (auto simp: file_inv_def)
  have "map_of (contents config h) i = Some r"
    using assms(2) by (simp add: file_lookup_contents[OF ok])
  then show ?thesis
    using cache_ok_lookup[OF store_ok_cache[OF ok(2)]] record_ok_unapproved by blast
qed

interpretation fstore: transaction_store "grant_ok blake3" "file_lookup blake3 config"
  "file_inv blake3 config" "fcreate blake3 config" "fget blake3 config" "fcat blake3 config"
  "fapprove blake3 config" "freserve blake3 config"
  for blake3 config
proof (unfold_locales, goal_cases)
  case (1 r h) then show ?case by (metis keeps_def shared_create prod.collapse)
next
  case (2 h i) then show ?case by (metis keeps_def shared_get prod.collapse)
next
  case (3 h i e n) then show ?case by (metis keeps_def shared_cat prod.collapse)
next
  case (4 g h i) then show ?case by (metis keeps_def shared_approve prod.collapse)
next
  case (5 h i now) then show ?case by (metis keeps_def shared_reserve prod.collapse)
next
  case (6 s h r) then show ?case by (metis shared_create prod.collapse)
next
  case (7 s h i) then show ?case by (metis shared_get prod.collapse)
next
  case (8 s h i r) then show ?case by (metis shared_get prod.collapse)
next
  case (9 s h i e n) then show ?case by (metis shared_cat prod.collapse)
next
  case (10 s g h i) then show ?case by (metis shared_approve prod.collapse)
next
  case (11 s h i now)
  then show ?case
    using shared_reserve[of blake3 config s h i now] by (cases "freserve blake3 config h i now s")
      (auto simp: can_transition_to_def)
next
  case (12 s h i now c)
  then show ?case
    using shared_reserve[of blake3 config s h i now] by (cases "freserve blake3 config h i now s") auto
next
  case (13 s i r) then show ?case by (rule shared_pending)
qed

end
