(* ===== verification/FileRefine.thy ===== *)
theory FileRefine
  imports FileStore
begin

text \<open>
  The durable store against the in-memory one: every operation that is not refused by the storage
  layer has the result and the effect of \<open>MemoryTransactionStore\<close>; and its contents survive a
  crash in the middle of an append or of a compaction.
\<close>

section \<open>Refinement of the in-memory store\<close>

datatype op_result = RUnit | RRecord transaction_record | RReservation commit_reservation

definition map_result :: "('a \<Rightarrow> 'b) \<Rightarrow> ('e + 'a) \<times> 's \<Rightarrow> ('e + 'b) \<times> 's" where
  "map_result f r = (map_sum id f (fst r), snd r)"

fun memory_op :: "store_op \<Rightarrow> (memory_store, tx_store_error, op_result) op" where
  "memory_op (OpCreate r) s = map_result (\<lambda>_. RUnit) (mem_create r s)"
| "memory_op (OpGet i) s = map_result RRecord (mem_get i s)"
| "memory_op (OpCat i e n) s = map_result RRecord (mem_compare_and_transition i e n s)"
| "memory_op (OpApprove i g) s = map_result RRecord (mem_approve i g s)"
| "memory_op (OpReserve i now) s = map_result RReservation (mem_reserve i now s)"

fun file_op :: "(bytes \<Rightarrow> digest) \<Rightarrow> file_store_config \<Rightarrow> nat \<Rightarrow> store_op \<Rightarrow>
    (shared_store, tx_store_error, op_result) op" where
  "file_op blake3 config k (OpCreate r) s = map_result (\<lambda>_. RUnit) (fcreate blake3 config k r s)"
| "file_op blake3 config k (OpGet i) s = map_result RRecord (fget blake3 config k i s)"
| "file_op blake3 config k (OpCat i e n) s = map_result RRecord (fcat blake3 config k i e n s)"
| "file_op blake3 config k (OpApprove i g) s = map_result RRecord (fapprove blake3 config k i g s)"
| "file_op blake3 config k (OpReserve i now) s = map_result RReservation (freserve blake3 config k i now s)"

text \<open>Either the storage layer refuses and the contents stand, or both stores agree.\<close>

definition agrees :: "(bytes \<Rightarrow> digest) \<Rightarrow> file_store_config \<Rightarrow> shared_store \<Rightarrow>
    (tx_store_error + 'a) \<times> shared_store \<Rightarrow> (tx_store_error + 'a) \<times> memory_store \<Rightarrow> bool" where
  "agrees blake3 config s f m \<longleftrightarrow>
     (case fst f of Inl e \<Rightarrow> storage_error e \<and>
        file_lookup blake3 config (snd f) = file_lookup blake3 config s | Inr _ \<Rightarrow> False) \<or>
     fst f = fst m \<and> file_lookup blake3 config (snd f) = mem_lookup (snd m)"

lemma agrees_map_result: "agrees blake3 config s f m \<Longrightarrow>
    agrees blake3 config s (map_result g f) (map_result g m)"
  by (cases "fst f"; cases "fst m") (auto simp: agrees_def map_result_def)

lemma agrees_intro:
  assumes "file_inv blake3 config s"
    and "\<And>rs m r. cache_ok blake3 (max_records config) rs \<Longrightarrow>
      map_of rs = file_lookup blake3 config s \<Longrightarrow> f rs = Inr m \<Longrightarrow> mut_persist m = Some r \<Longrightarrow>
      legal_update rs r \<and> grants_ok blake3 r"
    and "\<And>rs e. map_of rs = file_lookup blake3 config s \<Longrightarrow> f rs = Inl e \<Longrightarrow>
      fst n = Inl e \<and> mem_lookup (snd n) = file_lookup blake3 config s"
    and "\<And>rs m. map_of rs = file_lookup blake3 config s \<Longrightarrow> cache_ok blake3 (max_records config) rs \<Longrightarrow>
      f rs = Inr m \<Longrightarrow>
      fst n = mut_result m \<and> mem_lookup (snd n) =
        (case mut_persist m of None \<Rightarrow> file_lookup blake3 config s
         | Some r \<Rightarrow> (file_lookup blake3 config s)(rec_id r \<mapsto> r))"
  shows "agrees blake3 config s (at_handle k (transact blake3 config f) s) n"
proof (rule shared_transact[OF assms(1,2), where k = k], assumption+)
  fix rs
  let ?t = "at_handle k (transact blake3 config f) s"
  assume rs: "map_of rs = file_lookup blake3 config s" "cache_ok blake3 (max_records config) rs"
    and alt: "file_lookup blake3 config (snd ?t) = file_lookup blake3 config s \<and>
      (case fst ?t of
         Inl e \<Rightarrow> storage_error e \<or> f rs = Inl e \<or>
           (\<exists>m. f rs = Inr m \<and> mut_persist m = None \<and> mut_result m = Inl e)
       | Inr v \<Rightarrow> f rs = Inr \<lparr>mut_persist = None, mut_result = Inr v\<rparr>) \<or>
     (\<exists>m r. f rs = Inr m \<and> mut_persist m = Some r \<and> fst ?t = mut_result m \<and>
       file_lookup blake3 config (snd ?t) = (file_lookup blake3 config s)(rec_id r \<mapsto> r))"
  then show ?thesis
    using assms(3)[OF rs(1)] assms(4)[OF rs]
    by (cases "fst ?t") (fastforce simp: agrees_def)+
qed

lemma create_agrees:
  assumes "file_inv blake3 config s" "rec_approval r = None"
    and "mem_lookup m = file_lookup blake3 config s" "\<not> poisoned m"
  shows "agrees blake3 config s (fcreate blake3 config k r s) (mem_create r m)"
proof (cases "validate_record r 0")
  case (Inl e)
  then show ?thesis using validate_record_error[OF Inl]
    by (simp add: agrees_def file_create_def at_handle_lift)
next
  case (Inr u)
  then have u: "validate_record r 0 = Inr ()" by simp
  have "agrees blake3 config s (at_handle k (transact blake3 config (\<lambda>rs.
      if bt_contains rs (rec_id r) then Inl (Duplicate (rec_id r))
      else Inr \<lparr>mut_persist = Some r, mut_result = Inr ()\<rparr>)) s) (mem_create r m)"
    using assms(2-4)
    by (intro agrees_intro[OF assms(1)])
       (auto simp: bt_contains_def mem_create_apply mem_lookup_put legal_update_def grants_ok_def
         split: if_splits)
  then show ?thesis by (simp add: file_create_def at_handle_lift u)
qed

lemma get_agrees:
  assumes "file_inv blake3 config s" "mem_lookup m = file_lookup blake3 config s" "\<not> poisoned m"
  shows "agrees blake3 config s (fget blake3 config k i s) (mem_get i m)"
  unfolding file_get_def
  using assms(2,3)
  by (intro agrees_intro[OF assms(1)]) (auto simp: mem_get_def mem_find_apply ok_or_def split: option.splits)

lemma cat_agrees:
  assumes "file_inv blake3 config s" "mem_lookup m = file_lookup blake3 config s" "\<not> poisoned m"
  shows "agrees blake3 config s (fcat blake3 config k i e n s) (mem_compare_and_transition i e n m)"
  unfolding file_compare_and_transition_def
proof (rule agrees_intro[OF assms(1)], goal_cases)
  case (1 rs m r)
  then show ?case using legal_transition[OF 1(1), of i]
    by (auto simp: bindR_Inr_iff transition_Inr_iff split: if_splits)
next
  case (2 rs e')
  then show ?case using assms(2,3)
    by (auto simp: mem_cat_apply transition_def bindR_def split: option.splits if_splits)
next
  case (3 rs m')
  have id: "rec_id r = i" if "file_lookup blake3 config s i = Some r" for r
    using cache_ok_lookup[OF 3(2)] that by (simp add: 3(1))
  show ?case using 3(3) assms(2,3)
    by (auto simp: mem_cat_apply bindR_Inr_iff transition_Inr_iff 3(1) id mem_lookup_put
        split: if_splits)
qed

lemma approve_agrees:
  assumes "file_inv blake3 config s" "mem_lookup m = file_lookup blake3 config s" "\<not> poisoned m"
    and "grant_ok blake3 g"
  shows "agrees blake3 config s (fapprove blake3 config k i g s) (mem_approve i g m)"
proof (cases "grant_transaction g = i")
  case False
  then show ?thesis using assms(2)
    by (simp add: agrees_def file_approve_def at_handle_pure mem_approve_apply)
next
  case bound: True
  have "agrees blake3 config s (at_handle k (transact blake3 config (\<lambda>rs.
        bindR (ok_or (map_of rs i) (NotFound i)) (\<lambda>r.
        if rec_state r \<noteq> PendingApproval then Inl (StateConflict i PendingApproval (rec_state r))
        else bindR (map_err Transition (transition r Approved)) (\<lambda>r'.
          let r'' = r'\<lparr>rec_approval := Some g\<rparr>
          in Inr \<lparr>mut_persist = Some r'', mut_result = Inr r''\<rparr>)))) s) (mem_approve i g m)"
  proof (rule agrees_intro[OF assms(1)], goal_cases)
    case (1 rs m r)
    then show ?case using legal_approve[OF 1(1) _ _ assms(4), of i]
      by (auto simp: bindR_Inr_iff transition_Inr_iff Let_def split: if_splits)
  next
    case (2 rs e')
    then show ?case using assms(2,3) bound
      by (auto simp: mem_approve_apply transition_def bindR_def can_transition_to_def Let_def
          split: option.splits if_splits)
  next
    case (3 rs m')
    have id: "rec_id r = i" if "file_lookup blake3 config s i = Some r" for r
      using cache_ok_lookup[OF 3(2)] that by (simp add: 3(1))
    show ?case using 3(3) assms(2,3) bound
      by (auto simp: mem_approve_apply bindR_Inr_iff transition_Inr_iff 3(1) id mem_lookup_put Let_def
          split: if_splits)
  qed
  then show ?thesis using bound by (simp add: file_approve_def)
qed

lemma reserve_agrees:
  assumes "file_inv blake3 config s" "mem_lookup m = file_lookup blake3 config s" "\<not> poisoned m"
  shows "agrees blake3 config s (freserve blake3 config k i now s) (mem_reserve i now m)"
  unfolding file_reserve_def
proof (rule agrees_intro[OF assms(1)], goal_cases)
  case (1 rs m r)
  then show ?case using legal_transition[OF 1(1), of i]
    by (auto simp: bindR_Inr_iff transition_Inr_iff Let_def split: if_splits)
next
  case (2 rs e')
  show ?case
  proof (cases "file_lookup blake3 config s i")
    case None
    then show ?thesis using 2 assms(2,3) by (auto simp: mem_reserve_apply bindR_def)
  next
    case (Some r)
    then show ?thesis using 2 assms(2,3)
      by (cases "rec_approval r")
        (auto simp: mem_reserve_apply transition_def can_transition_to_def Let_def split: if_splits)
  qed
next
  case (3 rs m')
  then obtain r where r: "file_lookup blake3 config s i = Some r" by (auto simp: bindR_Inr_iff)
  have id: "rec_id r = i" using cache_ok_lookup[OF 3(2)] r by (simp add: 3(1))
  show ?case using 3(3) assms(2,3) r id
    by (cases "rec_approval r")
       (auto simp: mem_reserve_apply bindR_Inr_iff transition_Inr_iff 3(1) mem_lookup_put Let_def
        split: if_splits)
qed

lemma file_op_agrees:
  assumes "file_inv blake3 config s" "op_ok (grant_ok blake3) (k, opn)"
    and "mem_lookup m = file_lookup blake3 config s" "\<not> poisoned m"
  shows "agrees blake3 config s (file_op blake3 config k opn s) (memory_op opn m)"
  using assms
  by (cases opn)
     (auto simp: op_ok_def intro!: agrees_map_result create_agrees get_agrees cat_agrees
       approve_agrees reserve_agrees)

section \<open>Crashes\<close>

text \<open>
  \<open>k\<close> is up to date on the active log: nothing lies behind its offset.  Every operation
  brings its handle here before it appends.
\<close>

definition up_to_date :: "(bytes \<Rightarrow> digest) \<Rightarrow> shared_store \<Rightarrow> nat \<Rightarrow> control_state \<Rightarrow> bool" where
  "up_to_date blake3 s k c \<longleftrightarrow> read_control blake3 (control_file (fst s)) = Inr c \<and>
     ps_generation (snd s k) = generation c \<and>
     ps_offset (snd s k) = length (log_of (slot c) (fst s))"

lemma up_to_date_log:
  assumes "store_ok blake3 config c h d" "handle_ok blake3 config c h st"
    and "ps_generation st = generation c" "ps_offset st = length (log_of (slot c) d)"
  shows "log_of (slot c) d = log_bytes blake3 h"
proof -
  from assms(2,3) obtain h1 h2 where h: "h = h1 @ h2" "ps_offset st = length (log_bytes blake3 h1)"
    by (auto simp: handle_ok_def)
  from assms(1) consider t where "log_of (slot c) d = log_bytes blake3 h @ t"
    | "h = []" "strict_prefix (log_of (slot c) d) log_magic"
    by (auto simp: store_ok_def)
  then show ?thesis
  proof cases
    case 1
    then show ?thesis using h assms(4) by (simp add: log_bytes_append)
  next
    case 2
    then show ?thesis using h assms(4) prefix_length_less[OF 2(2)] by (simp add: log_bytes_def)
  qed
qed

text \<open>A crash while the frame of \<open>r\<close> is written: some bytes of it reached the disk, not all.\<close>

lemma append_crash:
  assumes inv: "file_inv blake3 config s" and up: "up_to_date blake3 s k c"
    and w: "write_record_frame blake3 config r (ps_offset (snd s k)) (log_of (slot c) (fst s)) = (Inr n, log)"
    and j: "length (log_of (slot c) (fst s)) \<le> j" "j < length log"
  shows "file_inv blake3 config (set_log (slot c) (take j log) (fst s), snd s) \<and>
    file_lookup blake3 config (set_log (slot c) (take j log) (fst s), snd s) = file_lookup blake3 config s"
proof -
  obtain c' h where ok: "config_ok config" "store_ok blake3 config c' h (fst s)"
    "\<And>k. handle_ok blake3 config c' h (snd s k)"
    using inv by (auto simp: file_inv_def)
  have "c' = c" using ok(2) up by (simp add: store_ok_def up_to_date_def)
  note ok = ok[unfolded this]
  have log0: "log_of (slot c) (fst s) = log_bytes blake3 h"
    using up by (intro up_to_date_log[OF ok(2) ok(3)[of k]]) (simp_all add: up_to_date_def)
  have w': "write_record_frame blake3 config r (length (log_bytes blake3 h)) (log_bytes blake3 h) = (Inr n, log)"
    using w up by (simp add: up_to_date_def log0)
  note e = write_record_frame_end[OF ok(1) w']
  let ?m = "j - length (log_bytes blake3 h)"
  have "strict_prefix (take ?m (frame blake3 r)) (frame blake3 r)"
    using j e(2) log0 by (auto simp: strict_prefix_def take_is_prefix)
  then have "torn (take ?m (frame blake3 r))" by (rule torn_strict_prefix)
  moreover have "take j log = log_bytes blake3 h @ take ?m (frame blake3 r)"
    using e(2) j(1) log0 by simp
  moreover have "length (take j log) \<le> max_log_bytes config" using e(4) j(2) by simp
  ultimately have "store_ok blake3 config c h (set_log (slot c) (take j log) (fst s))"
    using ok(2) by (auto simp: store_ok_def)
  then show ?thesis
    using ok(1,3) file_lookup_contents[OF ok(1,2)] file_lookup_contents[OF ok(1), of blake3 c h]
    by (auto simp: file_inv_def)
qed

text \<open>
  A crash while a compaction runs: the inactive log holds anything, and the slot of the control
  file that is being written does not verify.
\<close>

lemma compact_crash:
  assumes inv: "file_inv blake3 config s"
    and c: "read_control blake3 (control_file (fst s)) = Inr c"
    and torn: "length data \<le> control_record_bytes"
      "read_slot blake3 (write_at (control_slot_offset (1 - unat (slot c))) data (control_file (fst s)))
         (1 - unat (slot c)) = Inr None"
    and d: "d = (set_log (slot c XOR 1) f (fst s))
      \<lparr>control_file := write_at (control_slot_offset (1 - unat (slot c))) data (control_file (fst s))\<rparr>"
  shows "file_inv blake3 config (d, snd s) \<and> file_lookup blake3 config (d, snd s) = file_lookup blake3 config s"
proof -
  obtain c' h where ok: "config_ok config" "store_ok blake3 config c' h (fst s)"
    "\<And>k. handle_ok blake3 config c' h (snd s k)"
    using inv by (auto simp: file_inv_def)
  have "c' = c" using ok(2) c by (simp add: store_ok_def)
  note ok = ok[unfolded this]
  have "store_ok blake3 config c h d"
    using ok(2) torn_control[OF c torn] log_of_other[OF read_control_Inr(4)[OF c]]
    by (simp add: store_ok_def d)
  then show ?thesis
    using ok(1,3) file_lookup_contents[OF ok(1,2)] file_lookup_contents[OF ok(1), of blake3 c h]
    by (auto simp: file_inv_def)
qed


section \<open>Opening\<close>

definition empty_disk :: disk where
  "empty_disk = \<lparr>control_file = [], log_file = [], alternate_log_file = []\<rparr>"

definition first_control :: control_state where
  "first_control = \<lparr>generation = 0, slot = 0\<rparr>"

text \<open>The cleared alternate slot does not verify by accident.\<close>

definition zero_slot_invalid :: "(bytes \<Rightarrow> digest) \<Rightarrow> bool" where
  "zero_slot_invalid blake3 \<longleftrightarrow>
     as_bytes (blob_digest blake3 (replicate control_payload_bytes 0)) \<noteq> replicate digest_bytes 0"

lemma read_initial_control:
  assumes "zero_slot_invalid blake3"
  shows "read_control blake3 (initialize_control_slots blake3) = Inr first_control"
proof (rule read_control_single[where n = 0])
  let ?f = "initialize_control_slots blake3"
  show "length ?f = control_bytes" "take control_header_bytes ?f = control_magic"
    by (simp_all add: initialize_control_slots_def control_sizes)
  show "read_slot blake3 ?f 0 = Inr (Some first_control)"
    by (rule read_slot_written)
       (simp_all add: initialize_control_slots_def first_control_def slice_def control_slot_offset_def
         control_header_bytes_def)
  have "slice (control_slot_offset 1) (control_slot_offset 1 + control_record_bytes) ?f =
      replicate control_record_bytes 0"
    by (simp add: initialize_control_slots_def slice_def control_slot_offset_def control_header_bytes_def)
  then show "read_slot blake3 ?f (1 - 0) = Inr None"
    using assms by (simp add: read_slot_def Let_def zero_slot_invalid_def control_sizes)
qed simp

lemma initial_store_ok:
  assumes "config_ok config" "zero_slot_invalid blake3"
  shows "store_ok blake3 config first_control []
    \<lparr>control_file = initialize_control_slots blake3, log_file = [], alternate_log_file = []\<rparr>"
  using read_initial_control[OF assms(2)]
  by (simp add: store_ok_def log_of_def first_control_def strict_prefix_def log_magic_def
      str_bytes_def)

lemma open_empty:
  assumes "config_ok config" "zero_slot_invalid blake3"
  shows "file_open blake3 config empty_disk =
    (Inr (synced blake3 config first_control []),
     \<lparr>control_file = initialize_control_slots blake3, log_file = log_magic, alternate_log_file = []\<rparr>)"
proof -
  let ?d = "\<lparr>control_file = initialize_control_slots blake3, log_file = [], alternate_log_file = []\<rparr>"
  have "file_open blake3 config ?d =
    (Inr (synced blake3 config first_control []), set_log 0 (log_bytes blake3 []) ?d)"
    using file_open_ok[OF assms(1) initial_store_ok[OF assms]] by (simp add: first_control_def)
  moreover have "initialize_control blake3 (initialize_control_slots blake3) =
      (Inr first_control, initialize_control_slots blake3)"
    using read_initial_control[OF assms(2)] read_control_Inr(1,2)[OF read_initial_control[OF assms(2)]]
    by (simp add: initialize_control_def) (simp add: control_sizes)
  moreover have "initialize_control blake3 [] = (Inr first_control, initialize_control_slots blake3)"
    using read_initial_control[OF assms(2)] by (simp add: initialize_control_def control_sizes)
  moreover have "validate_config config = Inr ()" using assms(1) by (simp add: config_ok_def)
  ultimately have "file_open blake3 config empty_disk =
    (Inr (synced blake3 config first_control []), set_log 0 (log_bytes blake3 []) ?d)"
    by (simp add: file_open_def empty_disk_def)
  then show ?thesis by (simp add: set_log_def log_bytes_def)
qed

text \<open>A process that opens a well-formed store joins it: its handle satisfies the invariant.\<close>

lemma open_joins:
  assumes "file_inv blake3 config s" "file_open blake3 config (fst s) = (r, d)"
  obtains st where "r = Inr st" "file_inv blake3 config (d, (snd s)(k := st))"
    "file_lookup blake3 config (d, (snd s)(k := st)) = file_lookup blake3 config s"
    "map_of (ps_records st) = file_lookup blake3 config s"
proof -
  obtain c h where ok: "config_ok config" "store_ok blake3 config c h (fst s)"
    "\<And>k. handle_ok blake3 config c h (snd s k)"
    using assms(1) by (auto simp: file_inv_def)
  note o = file_open_ok[OF ok(1,2)]
  have "length (log_bytes blake3 h) \<le> max_log_bytes config"
    using initialize_header_ok[OF ok(1,2)] by (metis le_add1 length_append order_trans)
  note ok' = store_ok_set_log[OF ok(2) this]
  have d: "d = set_log (slot c) (log_bytes blake3 h) (fst s)" "r = Inr (synced blake3 config c h)"
    using assms(2) o by simp_all
  note hk = handle_ok_synced[of config h blake3 c]
  show thesis
    using ok ok' hk store_ok_replay[OF ok(2)] file_lookup_contents[OF ok(1,2)]
      file_lookup_contents[OF ok(1), of blake3 c h]
    by (intro that[OF d(2)]) (auto simp: file_inv_def d(1) synced_def)
qed

lemma initial_inv:
  assumes "config_ok config" "zero_slot_invalid blake3"
    and "file_open blake3 config empty_disk = (Inr st, d)"
  shows "file_inv blake3 config (d, \<lambda>_. st)" "file_lookup blake3 config (d, \<lambda>_. st) = Map.empty"
proof -
  let ?d = "\<lparr>control_file = initialize_control_slots blake3, log_file = log_magic, alternate_log_file = []\<rparr>"
  have d: "d = ?d" "st = synced blake3 config first_control []"
    using open_empty[OF assms(1,2)] assms(3) by auto
  have ok: "store_ok blake3 config first_control [] ?d"
    using store_ok_set_log[OF initial_store_ok[OF assms(1,2)]] header_le[OF assms(1)]
    by (simp add: log_bytes_def first_control_def set_log_def)
  then show "file_inv blake3 config (d, \<lambda>_. st)"
    using assms(1) handle_ok_synced[of config "[]" blake3 first_control]
    by (auto simp: file_inv_def d)
  show "file_lookup blake3 config (d, \<lambda>_. st) = Map.empty"
    using file_lookup_contents[OF assms(1), of blake3 first_control "[]"] ok
    by (simp add: d contents_def)
qed

end
