(* ===== verification/Evidence.thy ===== *)
theory Evidence
  imports Prelude
begin

text \<open>
  The evidence budget of a virtual transaction (\<open>crates/vsh-vfs/src/evidence.rs\<close>): counters of
  retained records and accounted bytes, both capped, with a failure that is sticky.
\<close>

record evidence_limits =
  max_evidence_records :: u64
  max_evidence_bytes :: u64

record evidence_usage =
  used_records :: u64
  used_bytes :: u64

type_synonym evidence_buffer = u64

datatype evidence_limit_exceeded = EvRecords u64 u64 | EvBytes u64 u64 | EvAllocation

record evidence_budget =
  ev_limits :: evidence_limits
  ev_usage :: evidence_usage
  ev_failure :: "evidence_limit_exceeded option"

definition default_limits :: evidence_limits where
  "default_limits = \<lparr>max_evidence_records = 250000, max_evidence_bytes = 64 * 1024 * 1024\<rparr>"

definition default_usage :: evidence_usage where
  "default_usage = \<lparr>used_records = 0, used_bytes = 0\<rparr>"

definition default_budget :: evidence_budget where
  "default_budget = \<lparr>ev_limits = default_limits, ev_usage = default_usage, ev_failure = None\<rparr>"

definition ev_check :: "evidence_budget \<Rightarrow> evidence_limit_exceeded + unit" where
  "ev_check b = (case ev_failure b of None \<Rightarrow> Ok () | Some f \<Rightarrow> Err f)"

text \<open>\<open>stop\<close> returns the first failure and remembers it.\<close>

definition ev_stop ::
  "evidence_limit_exceeded \<Rightarrow> evidence_budget \<Rightarrow> evidence_limit_exceeded \<times> evidence_budget" where
  "ev_stop f b =
     (let g = (case ev_failure b of None \<Rightarrow> f | Some g \<Rightarrow> g) in (g, b\<lparr>ev_failure := Some g\<rparr>))"

definition exceeds :: "u64 option \<Rightarrow> u64 \<Rightarrow> bool" where
  "exceeds attempted limit = (case attempted of None \<Rightarrow> True | Some v \<Rightarrow> limit < v)"

definition unwrap_max :: "u64 option \<Rightarrow> u64" where
  "unwrap_max v = (case v of None \<Rightarrow> u64_max | Some x \<Rightarrow> x)"

definition ev_reserve :: "u64 \<Rightarrow> u64 \<Rightarrow> (evidence_budget, evidence_limit_exceeded, unit) op" where
  "ev_reserve rs bs b =
     (case ev_check b of
        Inl f \<Rightarrow> (Err f, b)
      | Inr _ \<Rightarrow>
          let attempted_records = checked_add (used_records (ev_usage b)) rs;
              attempted_bytes = checked_add (used_bytes (ev_usage b)) bs;
              failure =
                (if exceeds attempted_records (max_evidence_records (ev_limits b))
                 then Some (EvRecords (max_evidence_records (ev_limits b)) (unwrap_max attempted_records))
                 else if exceeds attempted_bytes (max_evidence_bytes (ev_limits b))
                 then Some (EvBytes (max_evidence_bytes (ev_limits b)) (unwrap_max attempted_bytes))
                 else None)
          in (case failure of
                Some f \<Rightarrow> (case ev_stop f b of (g, b') \<Rightarrow> (Err g, b'))
              | None \<Rightarrow> (Ok (), b\<lparr>ev_usage := \<lparr>used_records = unwrap_max attempted_records,
                                              used_bytes = unwrap_max attempted_bytes\<rparr>\<rparr>)))"

definition ev_limit :: "evidence_limits \<Rightarrow> evidence_budget \<Rightarrow> evidence_budget" where
  "ev_limit l b =
     (let l' = (if ev_usage b = default_usage then l
                else \<lparr>max_evidence_records = min (max_evidence_records (ev_limits b)) (max_evidence_records l),
                      max_evidence_bytes = min (max_evidence_bytes (ev_limits b)) (max_evidence_bytes l)\<rparr>)
      in snd (ev_reserve 0 0 (b\<lparr>ev_limits := l'\<rparr>)))"

text \<open>A temporary reservation: the buffer and the retained bytes together stay below the cap.\<close>

definition ev_reserve_buffer ::
  "evidence_buffer \<Rightarrow> u64 \<Rightarrow> (evidence_budget, evidence_limit_exceeded, evidence_buffer) op" where
  "ev_reserve_buffer buf bs b =
     (case ev_check b of
        Inl f \<Rightarrow> (Err f, b)
      | Inr _ \<Rightarrow>
          let next = checked_add buf bs;
              attempted = (case next of None \<Rightarrow> None
                           | Some v \<Rightarrow> checked_add (used_bytes (ev_usage b)) v)
          in if exceeds attempted (max_evidence_bytes (ev_limits b))
             then (case ev_stop (EvBytes (max_evidence_bytes (ev_limits b)) (unwrap_max attempted)) b of
                     (g, b') \<Rightarrow> (Err g, b'))
             else (Ok (unwrap_max next), b))"

section \<open>Invariant\<close>

text \<open>Without a failure the usage is below the limits.\<close>

definition ev_ok :: "evidence_budget \<Rightarrow> bool" where
  "ev_ok b \<longleftrightarrow> ev_failure b = None \<longrightarrow>
     used_records (ev_usage b) \<le> max_evidence_records (ev_limits b) \<and>
     used_bytes (ev_usage b) \<le> max_evidence_bytes (ev_limits b)"

text \<open>How a budget may change: limits fixed, usage grows, a failure is never lost or replaced.\<close>

definition ev_grows :: "evidence_budget \<Rightarrow> evidence_budget \<Rightarrow> bool" where
  "ev_grows b b' \<longleftrightarrow> ev_limits b' = ev_limits b \<and>
     used_records (ev_usage b) \<le> used_records (ev_usage b') \<and>
     used_bytes (ev_usage b) \<le> used_bytes (ev_usage b') \<and>
     (ev_failure b \<noteq> None \<longrightarrow> b' = b)"

lemma ev_ok_default: "ev_ok default_budget"
  by (simp add: ev_ok_def default_budget_def default_usage_def)

lemma exceeds_iff: "\<not> exceeds a l \<longleftrightarrow> (\<exists>v. a = Some v \<and> v \<le> l)"
  by (auto simp: exceeds_def not_less split: option.splits)

lemma checked_add_ge: "checked_add a b = Some c \<Longrightarrow> a \<le> (c :: u64)"
  using checked_add_Some[of a b c] by (simp add: word_le_nat_alt)

lemma ev_reserve_ok: "ev_ok (snd (ev_reserve rs bs b))"
  by (auto simp: ev_ok_def ev_reserve_def ev_check_def ev_stop_def Let_def exceeds_def unwrap_max_def
      split: option.splits if_splits)

lemma ev_reserve_grows: "ev_grows b (snd (ev_reserve rs bs b))"
  by (auto simp: ev_grows_def ev_reserve_def ev_check_def ev_stop_def Let_def unwrap_max_def exceeds_def
      dest: checked_add_ge split: option.splits if_splits)

lemma ev_reserve_buffer_ok: "ev_ok b \<Longrightarrow> ev_ok (snd (ev_reserve_buffer buf bs b))"
  by (auto simp: ev_ok_def ev_reserve_buffer_def ev_check_def ev_stop_def Let_def
      split: option.splits if_splits)

lemma ev_reserve_buffer_grows: "ev_grows b (snd (ev_reserve_buffer buf bs b))"
  by (auto simp: ev_grows_def ev_reserve_buffer_def ev_check_def ev_stop_def Let_def
      split: option.splits if_splits)

lemma ev_limit_ok: "ev_ok (ev_limit l b)"
  unfolding ev_limit_def Let_def by (rule ev_reserve_ok)

lemma ev_grows_refl [simp]: "ev_grows b b"
  by (simp add: ev_grows_def)

lemma ev_grows_trans: "ev_grows a b \<Longrightarrow> ev_grows b c \<Longrightarrow> ev_grows a c"
  unfolding ev_grows_def by (metis order_trans)

lemma ev_reserve_Inr:
  "ev_reserve rs bs b = (Inr u, b') \<Longrightarrow>
     ev_failure b = None \<and> ev_failure b' = None \<and>
     unat (used_records (ev_usage b')) = unat (used_records (ev_usage b)) + unat rs \<and>
     unat (used_bytes (ev_usage b')) = unat (used_bytes (ev_usage b)) + unat bs"
  by (auto simp: ev_reserve_def ev_check_def ev_stop_def Let_def exceeds_def unwrap_max_def
      dest!: checked_add_Some split: option.splits if_splits)

lemma ev_reserve_Inl:
  "ev_reserve rs bs b = (Inl f, b') \<Longrightarrow> ev_failure b' = Some f"
  by (auto simp: ev_reserve_def ev_check_def ev_stop_def Let_def split: option.splits if_splits)

lemma ev_check_Inr_iff [simp]: "ev_check b = Inr u \<longleftrightarrow> ev_failure b = None"
  by (simp add: ev_check_def split: option.splits)

end
