(* ===== verification/Blobs.thy ===== *)
theory Blobs
  imports Types
begin

text \<open>
  The content-addressed blob store (\<open>BlobStore\<close> in \<open>crates/vsh-store/src/lib.rs\<close>).  Its directory
  maps a shard and a name, the two parts of the hexadecimal identity, to a real file or to
  something else.  \<open>fault\<close> says which host operations fail (by their name in the error); the
  race of two writers of the same blob is outside the model.
\<close>

datatype blob_entry = RealFile bytes | NotRealFile

type_synonym blob_files = "string \<times> string \<Rightarrow> blob_entry option"

datatype blob_store_error =
  BlobIo string
| BlobCorrupt digest digest
| BlobSizeLimit nat nat
| TemporaryNameExhausted

definition location_for :: "digest \<Rightarrow> string \<times> string" where
  "location_for i = (let hex = digest_to_string i in (take 2 hex, drop 2 hex))"

definition entry_exists :: "(string \<Rightarrow> bool) \<Rightarrow> string \<Rightarrow> blob_files \<Rightarrow> string \<times> string \<Rightarrow>
    blob_store_error + bool" where
  "entry_exists fault operation files loc =
     (if fault operation then Err (BlobIo operation)
      else case files loc of
        Some (RealFile _) \<Rightarrow> Ok True
      | Some NotRealFile \<Rightarrow> Err (BlobIo operation)
      | None \<Rightarrow> Ok False)"

definition verify_existing :: "(bytes \<Rightarrow> digest) \<Rightarrow> (string \<Rightarrow> bool) \<Rightarrow> digest \<Rightarrow> blob_files \<Rightarrow>
    string \<times> string \<Rightarrow> blob_store_error + unit" where
  "verify_existing blake3 fault i files loc =
     (if fault ''verify immutable blob'' then Err (BlobIo ''verify immutable blob'')
      else case files loc of
        Some (RealFile b) \<Rightarrow>
          let actual = blob_digest blake3 b in
          if actual \<noteq> i then Err (BlobCorrupt i actual) else Ok ()
      | _ \<Rightarrow> Err (BlobIo ''verify immutable blob''))"

definition blob_put :: "(bytes \<Rightarrow> digest) \<Rightarrow> (string \<Rightarrow> bool) \<Rightarrow> bytes \<Rightarrow>
    (blob_files, blob_store_error, digest) op" where
  "blob_put blake3 fault b =
     (let i = blob_digest blake3 b; loc = location_for i in
      if fault ''open blob shard'' then failS (BlobIo ''open blob shard'')
      else
      bindS (\<lambda>files. (entry_exists fault ''inspect immutable blob'' files loc, files)) (\<lambda>present.
      if present then
        bindS (\<lambda>files. (verify_existing blake3 fault i files loc, files)) (\<lambda>_. returnS i)
      else if fault ''create temporary blob'' then failS (BlobIo ''create temporary blob'')
      else if fault ''write temporary blob'' then failS (BlobIo ''write temporary blob'')
      else if fault ''sync temporary blob'' then failS (BlobIo ''sync temporary blob'')
      else if fault ''install immutable blob'' then failS (BlobIo ''install immutable blob'')
      else bindS (modifyS (\<lambda>files. files(loc \<mapsto> RealFile b))) (\<lambda>_.
      if fault ''sync blob shard'' then failS (BlobIo ''sync blob shard'')
      else bindS (\<lambda>files. (verify_existing blake3 fault i files loc, files)) (\<lambda>_. returnS i))))"

definition blob_get_bounded :: "(bytes \<Rightarrow> digest) \<Rightarrow> (string \<Rightarrow> bool) \<Rightarrow> digest \<Rightarrow> nat \<Rightarrow> blob_files \<Rightarrow>
    blob_store_error + bytes" where
  "blob_get_bounded blake3 fault i maximum files =
     (if fault ''open immutable blob'' then Err (BlobIo ''open immutable blob'')
      else case files (location_for i) of
        Some (RealFile b) \<Rightarrow>
          if maximum < length b then Err (BlobSizeLimit (length b) maximum)
          else if fault ''read immutable blob'' then Err (BlobIo ''read immutable blob'')
          else let actual = blob_digest blake3 b in
            if actual \<noteq> i then Err (BlobCorrupt i actual) else Ok b
      | _ \<Rightarrow> Err (BlobIo ''open immutable blob''))"

definition blob_get :: "(bytes \<Rightarrow> digest) \<Rightarrow> (string \<Rightarrow> bool) \<Rightarrow> digest \<Rightarrow> blob_files \<Rightarrow>
    blob_store_error + bytes" where
  "blob_get blake3 fault i files = blob_get_bounded blake3 fault i (2 ^ 64 - 1) files"

definition blob_contains :: "(bytes \<Rightarrow> digest) \<Rightarrow> (string \<Rightarrow> bool) \<Rightarrow> digest \<Rightarrow> blob_files \<Rightarrow>
    blob_store_error + bool" where
  "blob_contains blake3 fault i files =
     bindR (entry_exists fault ''inspect immutable blob'' files (location_for i)) (\<lambda>present.
       if \<not> present then Ok False
       else bindR (verify_existing blake3 fault i files (location_for i)) (\<lambda>_. Ok True))"

section \<open>Correctness\<close>

lemma location_for_inj: "location_for i = location_for j \<Longrightarrow> i = j"
proof -
  assume "location_for i = location_for j"
  then have "digest_to_string i = digest_to_string j"
    by (metis append_take_drop_id location_for_def prod.inject)
  then show "i = j" by (metis digest_text_roundtrip option.inject sum.inject(2))
qed

lemma blob_get_Inr:
  "blob_get blake3 fault i files = Inr b \<Longrightarrow>
   blob_digest blake3 b = i \<and> files (location_for i) = Some (RealFile b)"
  by (auto simp: blob_get_def blob_get_bounded_def Let_def split: if_splits option.splits blob_entry.splits)

text \<open>A write touches at most its own location, and only when that was free.\<close>

lemma blob_put_files:
  assumes "blob_put blake3 fault b files = (r, files')"
  shows "files' = files \<or> files (location_for (blob_digest blake3 b)) = None \<and>
    files' = files(location_for (blob_digest blake3 b) \<mapsto> RealFile b)"
  using assms
  by (auto simp: blob_put_def Let_def bindS_def entry_exists_def verify_existing_def
      split: if_splits option.splits blob_entry.splits sum.splits)

lemma blob_put_Inr:
  assumes "blob_put blake3 fault b files = (Inr i, files')"
  shows "i = blob_digest blake3 b"
    "\<exists>c. files' (location_for i) = Some (RealFile c) \<and> blob_digest blake3 c = i"
  using assms
  by (auto simp: blob_put_def Let_def bindS_def entry_exists_def verify_existing_def
      split: if_splits option.splits blob_entry.splits sum.splits)

lemma blob_put_keeps:
  assumes "blob_put blake3 fault b files = (r, files')" "blob_get blake3 fault' i files = Inr c"
  shows "blob_get blake3 fault' i files' = Inr c"
proof -
  from blob_get_Inr[OF assms(2)] have c: "files (location_for i) = Some (RealFile c)" by simp
  have "files' (location_for i) = Some (RealFile c)"
    using blob_put_files[OF assms(1)] c by auto
  then show ?thesis using assms(2) c by (simp add: blob_get_def blob_get_bounded_def split: if_splits)
qed

end
