(* ===== verification/Snapshot.thy ===== *)
theory Snapshot
  imports Blobs DirDigest Evidence
begin

text \<open>
  Immutable base snapshots (first half of \<open>crates/vsh-vfs/src/lib.rs\<close>): manifest nodes whose
  content is absent, materialized or captured on first read, the snapshot builder and its
  validation, and the manifest identity.  The cells of lazy content are shared between clones of
  a node, so they live in an explicit store, \<open>world\<close>, next to the blob store; the content
  loader of the host adapter is the parameter \<open>env_load\<close>, a function of the number of loads so
  far, because the host may change between two loads.
\<close>

section \<open>Environment and world\<close>

record captured_content =
  cap_bytes :: bytes
  cap_before :: file_stamp
  cap_after :: file_stamp

text \<open>
  The sizes of Rust structs (\<open>size_of\<close>) are fixed by the compiler and stay parameters, as is the
  allocator's answer to the request of a vector that already holds \<open>n\<close> elements.
\<close>

record environment =
  env_blake3 :: "bytes \<Rightarrow> digest"
  env_fault :: "string \<Rightarrow> bool"
  env_load :: "nat \<Rightarrow> nat \<Rightarrow> file_stamp \<Rightarrow> string + captured_content"
  env_alloc :: "nat \<Rightarrow> bool"
  sz_usize :: nat
  sz_path :: nat
  sz_resolved :: nat
  sz_read :: nat
  sz_write :: nat
  sz_overlay :: nat
  sz_node :: nat
  sz_effect :: nat

record lazy_content =
  lz_expected :: file_stamp
  lz_captured :: "digest option"

record world =
  blobs :: blob_files
  cells :: "nat \<Rightarrow> lazy_content"
  next_cell :: nat
  loads :: nat

datatype content_handle = NoContent | Materialized digest | Lazy nat

record snapshot_node =
  state_of :: node_state
  handle_of :: content_handle

datatype snapshot_error =
  Snap_Store blob_store_error
| DuplicatePath vpath
| MissingParent vpath vpath
| ParentNotDirectory vpath vpath
| LazyDirectory vpath
| ExpectedDirectoryStamp vpath file_stamp
| ContentUnavailable vpath node_kind
| ContentLoad vpath string
| StaleContent vpath file_stamp file_stamp file_stamp
| ContentSizeMismatch vpath u64 nat

section \<open>Nodes\<close>

definition directory_node :: "u32 \<Rightarrow> snapshot_node" where
  "directory_node m = \<lparr>state_of = directory_state m, handle_of = NoContent\<rparr>"

definition stamped_directory :: "file_stamp \<Rightarrow> snapshot_node" where
  "stamped_directory st = \<lparr>state_of = from_stamp st, handle_of = NoContent\<rparr>"

definition materialized_node :: "node_kind \<Rightarrow> digest \<Rightarrow> u64 \<Rightarrow> u32 \<Rightarrow> snapshot_node" where
  "materialized_node k i n m =
     \<lparr>state_of = (case k of File \<Rightarrow> file_state i n m | Symlink \<Rightarrow> symlink_state i n m
                  | Directory \<Rightarrow> directory_state m),
      handle_of = (case k of Directory \<Rightarrow> NoContent | _ \<Rightarrow> Materialized i)\<rparr>"

definition lazy_node :: "file_stamp \<Rightarrow> nat \<Rightarrow> snapshot_node" where
  "lazy_node st l = \<lparr>state_of = from_stamp st, handle_of = Lazy l\<rparr>"

text \<open>\<open>SnapshotNode::state\<close>: the state with the content captured so far.\<close>

definition node_state_in :: "world \<Rightarrow> snapshot_node \<Rightarrow> node_state" where
  "node_state_in w n = (case handle_of n of
     Lazy l \<Rightarrow> (case Option.bind (lz_captured (cells w l))
                  (\<lambda>blob. with_blob (state_of n) blob (nsize (state_of n))) of
                  Some st \<Rightarrow> st | None \<Rightarrow> state_of n)
   | _ \<Rightarrow> state_of n)"

definition expected_state :: "snapshot_node \<Rightarrow> node_state" where
  "expected_state n = state_of n"

definition store_put :: "environment \<Rightarrow> bytes \<Rightarrow> (world, blob_store_error, digest) op" where
  "store_put env b w =
     (case blob_put (env_blake3 env) (env_fault env) b (blobs w) of (r, f) \<Rightarrow> (r, w\<lparr>blobs := f\<rparr>))"

definition store_get :: "environment \<Rightarrow> digest \<Rightarrow> (world, blob_store_error, bytes) op" where
  "store_get env i w = (blob_get (env_blake3 env) (env_fault env) i (blobs w), w)"

definition load_content :: "environment \<Rightarrow> nat \<Rightarrow> (world, string, captured_content) op" where
  "load_content env l w =
     (env_load env (loads w) l (lz_expected (cells w l)), w\<lparr>loads := Suc (loads w)\<rparr>)"

definition set_captured :: "nat \<Rightarrow> digest \<Rightarrow> world \<Rightarrow> world" where
  "set_captured l i w = w\<lparr>cells := (cells w)(l := (cells w l)\<lparr>lz_captured := Some i\<rparr>)\<rparr>"

text \<open>
  \<open>SnapshotNode::read\<close>.  One transaction reads at a time, so the second test under the load lock
  sees what the first one saw and the lock is never poisoned.
\<close>

definition node_read ::
  "environment \<Rightarrow> snapshot_node \<Rightarrow> vpath \<Rightarrow> (world, snapshot_error, digest \<times> bytes) op" where
  "node_read env n path = (case handle_of n of
     NoContent \<Rightarrow> failS (ContentUnavailable path (kind (state_of n)))
   | Materialized i \<Rightarrow>
       bindS (map_errS Snap_Store (store_get env i)) (\<lambda>b. returnS (i, b))
   | Lazy l \<Rightarrow>
       bindS (getS (\<lambda>w. lz_captured (cells w l))) (\<lambda>captured. case captured of
         Some i \<Rightarrow> bindS (map_errS Snap_Store (store_get env i)) (\<lambda>b. returnS (i, b))
       | None \<Rightarrow>
           bindS (getS (\<lambda>w. lz_expected (cells w l))) (\<lambda>expected.
           bindS (map_errS (ContentLoad path) (load_content env l)) (\<lambda>cap.
           if cap_before cap \<noteq> expected \<or> cap_after cap \<noteq> expected
           then failS (StaleContent path expected (cap_before cap) (cap_after cap))
           else if length (cap_bytes cap) \<noteq> unat (stamp_size expected)
           then failS (ContentSizeMismatch path (stamp_size expected) (length (cap_bytes cap)))
           else bindS (map_errS Snap_Store (store_put env (cap_bytes cap))) (\<lambda>i.
           bindS (modifyS (set_captured l i)) (\<lambda>_. returnS (i, cap_bytes cap)))))))"

text \<open>The fallback of the last \<open>case\<close> is the panic of \<open>expect\<close>; only directories reach it.\<close>

definition materialized_state ::
  "environment \<Rightarrow> snapshot_node \<Rightarrow> vpath \<Rightarrow> (world, snapshot_error, node_state) op" where
  "materialized_state env n path =
     (if kind (state_of n) = Directory then returnS (state_of n)
      else bindS (node_read env n path) (\<lambda>(blob, b).
        returnS (case with_blob (state_of n) blob (len64 b) of Some st \<Rightarrow> st | None \<Rightarrow> state_of n)))"

definition is_lazy :: "snapshot_node \<Rightarrow> bool" where
  "is_lazy n = (case handle_of n of Lazy _ \<Rightarrow> True | _ \<Rightarrow> False)"

definition is_materialized :: "world \<Rightarrow> snapshot_node \<Rightarrow> bool" where
  "is_materialized w n = (case handle_of n of
     Materialized _ \<Rightarrow> True
   | Lazy l \<Rightarrow> lz_captured (cells w l) \<noteq> None
   | NoContent \<Rightarrow> False)"

section \<open>The builder\<close>

type_synonym manifest = "(vpath, snapshot_node) btree"

definition builder_new :: manifest where
  "builder_new = bt_insert root (directory_node 0x1ED) []"

definition with_root_stamp :: "file_stamp \<Rightarrow> manifest" where
  "with_root_stamp st = bt_insert root (stamped_directory st) []"

definition builder_insert ::
  "vpath \<Rightarrow> snapshot_node \<Rightarrow> (manifest \<times> world, snapshot_error, unit) op" where
  "builder_insert path n s =
     (if bt_contains (fst s) path then (Err (DuplicatePath path), s)
      else (Ok (), bt_insert path n (fst s), snd s))"

definition on_world :: "('w, 'e, 'a) op \<Rightarrow> ('m \<times> 'w, 'e, 'a) op" where
  "on_world m s = (case m (snd s) of (r, w) \<Rightarrow> (r, fst s, w))"

definition add_directory :: "vpath \<Rightarrow> u32 \<Rightarrow> (manifest \<times> world, snapshot_error, unit) op" where
  "add_directory path m = builder_insert path (directory_node m)"

definition add_stamped_directory ::
  "vpath \<Rightarrow> file_stamp \<Rightarrow> (manifest \<times> world, snapshot_error, unit) op" where
  "add_stamped_directory path st =
     (if stamp_kind st \<noteq> Directory then failS (ExpectedDirectoryStamp path st)
      else builder_insert path (stamped_directory st))"

definition add_file ::
  "environment \<Rightarrow> vpath \<Rightarrow> bytes \<Rightarrow> u32 \<Rightarrow> (manifest \<times> world, snapshot_error, unit) op" where
  "add_file env path b m =
     bindS (on_world (map_errS Snap_Store (store_put env b))) (\<lambda>blob.
       builder_insert path (materialized_node File blob (len64 b) m))"

definition add_symlink ::
  "environment \<Rightarrow> vpath \<Rightarrow> bytes \<Rightarrow> u32 \<Rightarrow> (manifest \<times> world, snapshot_error, unit) op" where
  "add_symlink env path target m =
     bindS (on_world (map_errS Snap_Store (store_put env target))) (\<lambda>blob.
       builder_insert path (materialized_node Symlink blob (len64 target) m))"

text \<open>\<open>Arc::new\<close> allocates the cell; the adapter's loader belongs to it.\<close>

definition add_lazy :: "vpath \<Rightarrow> file_stamp \<Rightarrow> (manifest \<times> world, snapshot_error, unit) op" where
  "add_lazy path st =
     (if stamp_kind st = Directory then failS (LazyDirectory path)
      else bindS (getS (\<lambda>s. next_cell (snd s))) (\<lambda>l.
        bindS (modifyS (\<lambda>(m, w). (m, w\<lparr>next_cell := Suc l,
          cells := (cells w)(l := \<lparr>lz_expected = st, lz_captured = None\<rparr>)\<rparr>))) (\<lambda>_.
        builder_insert path (lazy_node st l))))"

section \<open>Freezing a snapshot\<close>

definition parent_str :: "string \<Rightarrow> string" where
  "parent_str s = (case rsplit_once slash s of None \<Rightarrow> ''.'' | Some (p, _) \<Rightarrow> p)"

record base_snapshot =
  bs_id :: digest
  bs_nodes :: manifest
  bs_children :: "(vpath, vpath list) btree"

definition encode_path :: "vpath \<Rightarrow> bytes" where
  "encode_path p = u64_bytes (len64 (as_str p)) @ str_bytes (as_str p)"

definition encode_manifest :: "manifest \<Rightarrow> bytes" where
  "encode_manifest nodes =
     concat (map (\<lambda>(p, n). encode_path p @ encode_canonical (state_of n)) nodes)"

definition snapshot_id :: "(bytes \<Rightarrow> digest) \<Rightarrow> manifest \<Rightarrow> digest" where
  "snapshot_id blake3 nodes = snapshot_digest blake3 (encode_manifest nodes)"

fun build_children ::
  "manifest \<Rightarrow> (vpath, vpath list) btree \<Rightarrow> vpath list \<Rightarrow>
   snapshot_error + (vpath, vpath list) btree" where
  "build_children nodes children [] = Ok children"
| "build_children nodes children (path # paths) =
     (let par = VPath (parent_str (as_str path)) in
      case map_of children par of
        Some siblings \<Rightarrow> build_children nodes (bt_insert par (siblings @ [path]) children) paths
      | None \<Rightarrow>
          (case map_of nodes par of
             None \<Rightarrow> Err (MissingParent path par)
           | Some n \<Rightarrow>
               if kind (state_of n) \<noteq> Directory then Err (ParentNotDirectory path par)
               else build_children nodes (bt_insert par [path] children) paths))"

definition build :: "(bytes \<Rightarrow> digest) \<Rightarrow> manifest \<Rightarrow> snapshot_error + base_snapshot" where
  "build blake3 nodes =
     bindR (build_children nodes [] (filter (\<lambda>p. \<not> is_root p) (bt_keys nodes))) (\<lambda>children.
       Ok \<lparr>bs_id = snapshot_id blake3 nodes, bs_nodes = nodes, bs_children = children\<rparr>)"

definition direct_children :: "base_snapshot \<Rightarrow> vpath \<Rightarrow> vpath list" where
  "direct_children b p = (case map_of (bs_children b) p of None \<Rightarrow> [] | Some cs \<Rightarrow> cs)"

text \<open>\<open>subtree_keys\<close>: the root, if present, and the range of keys that start with its prefix.\<close>

definition dir_prefix :: "vpath \<Rightarrow> string" where
  "dir_prefix p = (if is_root p then [] else as_str p @ ''/'')"

definition prefix_range :: "string \<Rightarrow> vpath list \<Rightarrow> vpath list" where
  "prefix_range pre keys =
     takeWhile (\<lambda>p. prefix pre (as_str p)) (dropWhile (\<lambda>p. as_str p < pre) keys)"

definition subtree_keys :: "(vpath, 'v) btree \<Rightarrow> vpath \<Rightarrow> vpath list" where
  "subtree_keys m r =
     (if bt_contains m r then [r] else []) @
     filter (\<lambda>p. p \<noteq> r) (prefix_range (dir_prefix r) (bt_keys m))"

definition subtree_paths :: "base_snapshot \<Rightarrow> vpath \<Rightarrow> vpath list" where
  "subtree_paths b r =
     (if is_root r then bt_keys (bs_nodes b) else []) @
     (if \<not> is_root r \<and> bt_contains (bs_nodes b) r then subtree_keys (bs_nodes b) r else [])"

definition directory_digest :: "(bytes \<Rightarrow> digest) \<Rightarrow> base_snapshot \<Rightarrow> vpath \<Rightarrow> digest option" where
  "directory_digest blake3 b p = digest_entries blake3
     (map (\<lambda>c. (c, case map_of (bs_nodes b) c of Some n \<Rightarrow> expected_state n
                     | None \<Rightarrow> directory_state 0)) (direct_children b p))"


section \<open>Correctness of snapshots\<close>

definition parent_of :: "vpath \<Rightarrow> vpath" where
  "parent_of p = VPath (parent_str (as_str p))"

lemma parent_parent_of: "p \<noteq> root \<Longrightarrow> parent p = Some (parent_of p)"
  by (auto simp: parent_def parent_of_def parent_str_def is_root_iff split: option.splits)

lemma parent_of_ok: "vpath_ok p \<Longrightarrow> p \<noteq> root \<Longrightarrow> vpath_ok (parent_of p)"
  using parent_ok parent_parent_of by blast

lemma components_parent_of:
  "vpath_ok p \<Longrightarrow> p \<noteq> root \<Longrightarrow> components (parent_of p) = butlast (components p)"
  using components_parent[of p] parent_parent_of[of p] parent_components[of p] by simp

definition is_directory :: "manifest \<Rightarrow> vpath \<Rightarrow> bool" where
  "is_directory nodes p \<longleftrightarrow>
     (case map_of nodes p of Some n \<Rightarrow> kind (state_of n) = Directory | None \<Rightarrow> False)"

text \<open>A frozen snapshot: a tree with its child index.\<close>

definition snap_ok :: "base_snapshot \<Rightarrow> bool" where
  "snap_ok b \<longleftrightarrow> bt_ok (bs_nodes b) \<and> list_all vpath_ok (bt_keys (bs_nodes b)) \<and>
     is_directory (bs_nodes b) root \<and>
     (\<forall>p \<in> set (bt_keys (bs_nodes b)). p \<noteq> root \<longrightarrow> is_directory (bs_nodes b) (parent_of p)) \<and>
     (\<forall>p. direct_children b p =
        filter (\<lambda>c. c \<noteq> root \<and> parent_of c = p) (bt_keys (bs_nodes b)))"

definition index_of :: "(vpath, vpath list) btree \<Rightarrow> vpath list \<Rightarrow> bool" where
  "index_of children ps \<longleftrightarrow> (\<forall>q. map_of children q =
     (let cs = filter (\<lambda>c. parent_of c = q) ps in if cs = [] then None else Some cs))"

lemma index_of_step:
  "index_of children ps \<Longrightarrow>
   index_of (bt_insert (parent_of p) (filter (\<lambda>c. parent_of c = parent_of p) ps @ [p]) children) (ps @ [p])"
  by (auto simp: index_of_def Let_def)

lemma build_children_Inr:
  assumes "build_children nodes children qs = Inr cs" "index_of children ps"
    and "\<forall>p \<in> set ps. is_directory nodes (parent_of p)"
  shows "index_of cs (ps @ qs) \<and> (\<forall>p \<in> set (ps @ qs). is_directory nodes (parent_of p))"
  using assms
proof (induction nodes children qs arbitrary: ps rule: build_children.induct)
  case (2 nodes children path paths)
  let ?q = "parent_of path"
  have q: "VPath (parent_str (as_str path)) = ?q" by (simp add: parent_of_def)
  have look: "map_of children ?q =
      (let cs = filter (\<lambda>c. parent_of c = ?q) ps in if cs = [] then None else Some cs)"
    using "2.prems"(2) unfolding index_of_def by blast
  note step = index_of_step[OF "2.prems"(2), of path]
  show ?case
  proof (cases "map_of children ?q")
    case (Some sib)
    then have sib: "sib = filter (\<lambda>c. parent_of c = ?q) ps" "sib \<noteq> []"
      using look by (auto simp: Let_def split: if_splits)
    then obtain c where "c \<in> set ps" "parent_of c = ?q" by (metis (mono_tags, lifting) filter_False)
    then have "\<forall>p \<in> set (ps @ [path]). is_directory nodes (parent_of p)"
      using "2.prems"(3) by auto
    then show ?thesis
      using "2.IH"(2)[OF refl, where ps = "ps @ [path]"] "2.prems"(1) Some step sib by (simp add: q Let_def)
  next
    case None
    then have none: "filter (\<lambda>c. parent_of c = ?q) ps = []"
      using look by (auto simp: Let_def split: if_splits)
    from None "2.prems"(1) obtain n where n: "map_of nodes ?q = Some n" "kind (state_of n) = Directory"
      "build_children nodes (bt_insert ?q [path] children) paths = Inr cs"
      by (auto simp: q Let_def split: option.splits if_splits)
    then have "\<forall>p \<in> set (ps @ [path]). is_directory nodes (parent_of p)"
      using "2.prems"(3) by (auto simp: is_directory_def)
    then show ?thesis
      using "2.IH"(1)[OF refl, where ps = "ps @ [path]"] n None step none by (simp add: q Let_def)
  qed
qed simp

lemma build_children_total:
  assumes "index_of children ps" "\<forall>p \<in> set (ps @ qs). is_directory nodes (parent_of p)"
  shows "\<exists>cs. build_children nodes children qs = Inr cs"
  using assms
proof (induction nodes children qs arbitrary: ps rule: build_children.induct)
  case (2 nodes children path paths)
  let ?q = "parent_of path"
  have q: "VPath (parent_str (as_str path)) = ?q" by (simp add: parent_of_def)
  have look: "map_of children ?q =
      (let cs = filter (\<lambda>c. parent_of c = ?q) ps in if cs = [] then None else Some cs)"
    using "2.prems"(1) unfolding index_of_def by blast
  note step = index_of_step[OF "2.prems"(1), of path]
  have dir: "is_directory nodes ?q" using "2.prems"(2) by simp
  show ?case
  proof (cases "map_of children ?q")
    case (Some sib)
    then have "sib = filter (\<lambda>c. parent_of c = ?q) ps" using look by (auto simp: Let_def split: if_splits)
    then show ?thesis using "2.IH"(2)[OF refl, where ps = "ps @ [path]"] "2.prems"(2) Some step
      by (simp add: q Let_def)
  next
    case None
    then have "filter (\<lambda>c. parent_of c = ?q) ps = []" using look by (auto simp: Let_def split: if_splits)
    with dir None step "2.prems"(2) "2.IH"(1)[OF refl, where ps = "ps @ [path]"] show ?thesis
      by (auto simp: q is_directory_def Let_def split: option.splits)
  qed
qed simp

lemma build_ok:
  assumes "build blake3 nodes = Inr b" "bt_ok nodes" "list_all vpath_ok (bt_keys nodes)"
    and "is_directory nodes root"
  shows "snap_ok b" "bs_nodes b = nodes"
proof -
  let ?ps = "filter (\<lambda>p. \<not> is_root p) (bt_keys nodes)"
  from assms(1) obtain cs where cs: "build_children nodes [] ?ps = Inr cs"
    "b = \<lparr>bs_id = snapshot_id blake3 nodes, bs_nodes = nodes, bs_children = cs\<rparr>"
    by (auto simp: build_def bindR_Inr_iff)
  have "index_of [] []" by (simp add: index_of_def)
  from build_children_Inr[OF cs(1) this] have
    idx: "index_of cs ?ps" and dirs: "\<forall>p \<in> set ?ps. is_directory nodes (parent_of p)" by auto
  have ch: "direct_children b p = filter (\<lambda>c. c \<noteq> root \<and> parent_of c = p) (bt_keys nodes)" for p
  proof -
    have "filter (\<lambda>c. parent_of c = p) ?ps = filter (\<lambda>c. c \<noteq> root \<and> parent_of c = p) (bt_keys nodes)"
      by (simp add: is_root_iff conj_commute)
    then show ?thesis using idx by (simp add: direct_children_def cs(2) index_of_def Let_def)
  qed
  show "snap_ok b"
    using assms(2-4) dirs ch unfolding snap_ok_def
    by (simp add: cs(2) is_root_iff)
  show "bs_nodes b = nodes" by (simp add: cs(2))
qed

lemma build_total:
  assumes "\<forall>p \<in> set (bt_keys nodes). p \<noteq> root \<longrightarrow> is_directory nodes (parent_of p)"
  shows "\<exists>b. build blake3 nodes = Inr b"
proof -
  have "index_of [] []" by (simp add: index_of_def)
  with assms build_children_total[of "[]" "[]" "filter (\<lambda>p. \<not> is_root p) (bt_keys nodes)" nodes]
  obtain cs where "build_children nodes [] (filter (\<lambda>p. \<not> is_root p) (bt_keys nodes)) = Inr cs"
    by (auto simp: is_root_iff)
  then show ?thesis by (simp add: build_def)
qed

section \<open>Ranges of keys\<close>

lemma dropWhile_sorted_filter:
  "sorted_wrt (<) (map as_str keys) \<Longrightarrow>
   dropWhile (\<lambda>p. as_str p < pre) keys = filter (\<lambda>p. pre \<le> as_str p) keys"
proof (induction keys)
  case (Cons k keys)
  then show ?case
    by (auto simp: not_less intro!: filter_True[symmetric] dest: less_imp_le order_trans)
qed simp

lemma takeWhile_filter_convex:
  "(\<And>i j. i \<le> j \<Longrightarrow> j < length xs \<Longrightarrow> P (xs ! j) \<Longrightarrow> P (xs ! i)) \<Longrightarrow> takeWhile P xs = filter P xs"
proof (induction xs)
  case (Cons x xs)
  show ?case
  proof (cases "P x")
    case True
    have "takeWhile P xs = filter P xs"
    proof (rule Cons.IH)
      fix i j assume "i \<le> j" "j < length xs" "P (xs ! j)"
      then show "P (xs ! i)" using Cons.prems[of "Suc i" "Suc j"] by simp
    qed
    with True show ?thesis by simp
  next
    case False
    have "\<not> P (xs ! j)" if "j < length xs" for j
      using Cons.prems[of 0 "Suc j"] that False by auto
    then have "filter P xs = []" by (auto simp: filter_empty_conv in_set_conv_nth)
    with False show ?thesis by simp
  qed
qed simp

lemma bt_ok_strings: "bt_ok m \<Longrightarrow> sorted_wrt (<) (map as_str (bt_keys m))"
  by (simp add: bt_ok_def sorted_wrt_map less_vpath_def)

lemma prefix_range_filter:
  assumes "sorted_wrt (<) (map as_str keys)"
  shows "prefix_range pre keys = filter (\<lambda>p. prefix pre (as_str p)) keys"
proof -
  let ?ks = "filter (\<lambda>p. pre \<le> as_str p) keys"
  have sorted: "sorted_wrt (<) (map as_str ?ks)"
    using assms by (simp add: sorted_wrt_map sorted_wrt_filter)
  have "takeWhile (\<lambda>p. prefix pre (as_str p)) ?ks = filter (\<lambda>p. prefix pre (as_str p)) ?ks"
  proof (rule takeWhile_filter_convex)
    fix i j assume ij: "i \<le> j" "j < length ?ks" "prefix pre (as_str (?ks ! j))"
    have "as_str (?ks ! i) \<le> as_str (?ks ! j)"
      using sorted ij(1,2) by (cases "i = j") (auto simp: sorted_wrt_iff_nth_less less_imp_le)
    moreover have "pre \<le> as_str (?ks ! i)"
      using nth_mem[of i ?ks] ij(1,2) by auto
    ultimately show "prefix pre (as_str (?ks ! i))" using prefix_convex ij(3) by blast
  qed
  then show ?thesis
    by (simp add: prefix_range_def dropWhile_sorted_filter[OF assms] prefix_imp_le
        cong: filter_cong conj_cong)
       (metis (mono_tags, lifting) prefix_imp_le)
qed


section \<open>Subtrees\<close>

definition strictly_in :: "vpath \<Rightarrow> vpath \<Rightarrow> bool" where
  "strictly_in p a \<longleftrightarrow> p \<noteq> a \<and> is_within p a"

lemma is_within_refl [simp]: "is_within p p"
  by (simp add: is_within_def)

lemma is_within_trans:
  "vpath_ok p \<Longrightarrow> vpath_ok q \<Longrightarrow> vpath_ok r \<Longrightarrow> is_within p q \<Longrightarrow> is_within q r \<Longrightarrow> is_within p r"
  by (simp add: is_within_iff_prefix)

lemma is_within_antisym:
  "vpath_ok p \<Longrightarrow> vpath_ok q \<Longrightarrow> is_within p q \<Longrightarrow> is_within q p \<Longrightarrow> p = q"
  by (simp add: is_within_iff_prefix components_inj prefix_order.antisym)

lemma is_within_root [simp]: "is_within p root"
  by (simp add: is_within_def)

lemma within_parent_of: "vpath_ok p \<Longrightarrow> p \<noteq> root \<Longrightarrow> strictly_in p (parent_of p)"
  using parent_of_ok[of p] components_parent_of[of p] components_not_Nil[of p]
  by (auto simp: strictly_in_def is_within_iff_prefix prefixeq_butlast)
     (metis length_butlast diff_less length_greater_0_conv less_irrefl zero_less_one)

lemma strictly_in_parent:
  assumes "vpath_ok p" "vpath_ok a" "strictly_in p a"
  shows "p \<noteq> root" "is_within (parent_of p) a"
proof -
  have pre: "strict_prefix (components a) (components p)"
    using assms by (auto simp: strictly_in_def is_within_iff_prefix strict_prefix_def dest: components_inj)
  show "p \<noteq> root" using pre by auto
  then show "is_within (parent_of p) a"
    using pre assms(1,2) parent_of_ok[of p] components_parent_of[of p] components_not_Nil[of p]
    by (simp add: is_within_iff_prefix)
       (metis append_butlast_last_id prefix_order.less_le prefix_snoc)
qed

lemma dir_prefix_iff:
  assumes "vpath_ok p" "vpath_ok r"
  shows "prefix (dir_prefix r) (as_str p) \<and> p \<noteq> r \<longleftrightarrow> strictly_in p r"
proof (cases "r = root")
  case False
  have "is_within p r \<longleftrightarrow> p = r \<or> (\<exists>sfx. as_str p = as_str r @ sfx \<and> sfx \<noteq> [] \<and> hd sfx = slash)"
  proof (cases "strip_prefix (as_str r) (as_str p)")
    case None
    then have "as_str p \<noteq> as_str r @ sfx" for sfx
      using strip_prefix_Some_iff[of "as_str r" "as_str p" sfx] by auto
    then show ?thesis using None False by (simp add: is_within_def is_root_iff)
  next
    case (Some s)
    then have "as_str p = as_str r @ s" by (simp add: strip_prefix_Some_iff)
    then show ?thesis using Some False by (simp add: is_within_def is_root_iff)
  qed
  moreover have "(\<exists>sfx. as_str p = as_str r @ sfx \<and> sfx \<noteq> [] \<and> hd sfx = slash) \<longleftrightarrow>
      prefix (as_str r @ [slash]) (as_str p)"
    by (auto simp: prefix_def) (metis list.collapse)
  ultimately show ?thesis
    using False by (auto simp: strictly_in_def dir_prefix_def is_root_iff)
qed (auto simp: dir_prefix_def strictly_in_def)

lemma set_subtree_keys:
  assumes "bt_ok m" "\<forall>p \<in> fst ` set m. vpath_ok p" "vpath_ok r"
  shows "set (subtree_keys m r) = {p \<in> fst ` set m. is_within p r}"
proof -
  have "prefix_range (dir_prefix r) (bt_keys m) =
      filter (\<lambda>p. prefix (dir_prefix r) (as_str p)) (bt_keys m)"
    by (rule prefix_range_filter[OF bt_ok_strings[OF assms(1)]])
  then have "set (subtree_keys m r) =
      (if bt_contains m r then {r} else {}) \<union> {p \<in> fst ` set m. strictly_in p r}"
    using dir_prefix_iff[OF _ assms(3)] assms(2)
    by (auto simp: subtree_keys_def)
  then show ?thesis by (auto simp: strictly_in_def bt_contains_iff split: if_splits)
qed

text \<open>The subtree list starts with its root and goes on in key order.\<close>

lemma subtree_keys_sorted:
  assumes "bt_ok m"
  shows "distinct (subtree_keys m r)"
    "sorted_wrt (<) (filter (\<lambda>p. p \<noteq> r) (subtree_keys m r))"
proof -
  let ?t = "filter (\<lambda>p. p \<noteq> r) (prefix_range (dir_prefix r) (bt_keys m))"
  have t: "?t = filter (\<lambda>p. p \<noteq> r) (filter (\<lambda>p. prefix (dir_prefix r) (as_str p)) (bt_keys m))"
    by (simp add: prefix_range_filter[OF bt_ok_strings[OF assms]])
  have "sorted_wrt (<) ?t" using assms unfolding t bt_ok_def by (intro sorted_wrt_filter)
  then show "distinct (subtree_keys m r)" "sorted_wrt (<) (filter (\<lambda>p. p \<noteq> r) (subtree_keys m r))"
    by (auto simp: subtree_keys_def strict_sorted_iff)
qed

lemma set_subtree_paths:
  assumes "snap_ok b" "vpath_ok r"
  shows "set (subtree_paths b r) =
    {p \<in> fst ` set (bs_nodes b). is_within p r \<and> bt_contains (bs_nodes b) r}"
proof -
  have nodes: "bt_ok (bs_nodes b)" "\<forall>p \<in> fst ` set (bs_nodes b). vpath_ok p"
    and root: "bt_contains (bs_nodes b) root"
    using assms(1) by (auto simp: snap_ok_def list_all_iff is_directory_def bt_contains_def
        split: option.splits)
  show ?thesis
    using set_subtree_keys[OF nodes assms(2)] root
    by (auto simp: subtree_paths_def is_root_iff)
qed

end
