(* ===== verification/Vfs.thy ===== *)
theory Vfs
  imports Snapshot
begin

text \<open>
  The copy-on-write virtual filesystem (\<open>VirtualFs\<close> in \<open>crates/vsh-vfs/src/lib.rs\<close>): an overlay
  over an immutable snapshot, the read and write sets, the effect ledger and the evidence budget.
  Every operation is a function of the whole state that keeps the mutations made before an error.
\<close>

section \<open>State\<close>

record resolved_node =
  res_node :: snapshot_node
  base_origin :: "vpath option"

datatype overlay_entry = Present resolved_node | Tombstone

text \<open>\<open>obs_metadata = Some None\<close>: the path was expected to be missing.\<close>

record read_observation =
  obs_metadata :: "node_state option option"
  obs_content :: "digest option"
  obs_directory :: "digest option"

record write_precondition =
  wp_expected :: "node_state option"

datatype effect_origin = FromVirtualFs | FromMontyOsCall | FromMontyToolCall | FromBashCall

datatype effect =
  MetadataRead vpath "node_state option"
| ContentRead vpath digest
| DirectoryRead vpath digest
| Create vpath node_state
| ModifyContent vpath node_state node_state
| ModifyMetadata vpath node_state node_state
| Delete vpath node_state
| Rename vpath vpath node_state node_state

record effect_event =
  ev_sequence :: u64
  ev_origin :: effect_origin
  ev_effect :: effect

record canonical_diff_metrics =
  candidate_paths :: nat
  expanded_delete_paths :: nat
  changed_paths :: nat
  materialized_after_bytes :: u64

record canonical_diff =
  cd_entries :: "diff_entry list"
  cd_digest :: digest
  cd_metrics :: canonical_diff_metrics

datatype vfs_error =
  EvidenceLimit evidence_limit_exceeded
| Vfs_Snapshot snapshot_error
| Vfs_Store blob_store_error
| Vfs_Path vpath_error
| Vfs_NotFound vpath
| AlreadyExists vpath
| NotDirectory vpath node_kind
| NotFile vpath node_kind
| NotSymlink vpath node_kind
| IsDirectory vpath
| DirectoryNotEmpty vpath
| DirectoryEntryLimit vpath nat nat
| RootMutation
| UnsupportedMode vpath u32
| SymlinkMode vpath
| InvalidRename vpath vpath
| RenameTypeMismatch vpath vpath
| InvalidCanonicalDiff "vpath option" string

text \<open>\<open>vf_world\<close> holds the blob store and the lazy cells the base snapshot refers to.\<close>

record virtual_fs =
  vf_base :: base_snapshot
  vf_overlay :: "(vpath, overlay_entry) btree"
  vf_effects :: "effect_event list"
  vf_read_set :: "(vpath, read_observation) btree"
  vf_write_set :: "(vpath, write_precondition) btree"
  vf_evidence :: evidence_budget
  vf_sequence :: u64
  vf_origin :: effect_origin
  vf_world :: world

type_synonym 'a vfs_op = "(virtual_fs, vfs_error, 'a) op"

definition vfs_new :: "base_snapshot \<Rightarrow> world \<Rightarrow> virtual_fs" where
  "vfs_new b w = \<lparr>vf_base = b, vf_overlay = [], vf_effects = [], vf_read_set = [],
     vf_write_set = [], vf_evidence = default_budget, vf_sequence = 0,
     vf_origin = FromVirtualFs, vf_world = w\<rparr>"

definition base_node :: "virtual_fs \<Rightarrow> vpath \<Rightarrow> snapshot_node option" where
  "base_node v p = map_of (bs_nodes (vf_base v)) p"

definition base_expected :: "virtual_fs \<Rightarrow> vpath \<Rightarrow> node_state option" where
  "base_expected v p = map_option expected_state (base_node v p)"

text \<open>Operations on the budget and on the world, as operations on the filesystem.\<close>

definition on_evidence :: "(evidence_budget, evidence_limit_exceeded, 'a) op \<Rightarrow> 'a vfs_op" where
  "on_evidence m v =
     (case m (vf_evidence v) of (r, b) \<Rightarrow> (map_err EvidenceLimit r, v\<lparr>vf_evidence := b\<rparr>))"

definition in_world :: "('e \<Rightarrow> vfs_error) \<Rightarrow> (world, 'e, 'a) op \<Rightarrow> 'a vfs_op" where
  "in_world f m v = (case m (vf_world v) of (r, w) \<Rightarrow> (map_err f r, v\<lparr>vf_world := w\<rparr>))"

section \<open>Accounting\<close>

definition accounted_bytes :: "nat \<Rightarrow> vpath list \<Rightarrow> nat \<Rightarrow> u64" where
  "accounted_bytes storage paths copies =
     (let total = storage + sum_list (map (\<lambda>p. length (as_str p) * copies) paths) in
      if total < 2 ^ 64 then of_nat total else u64_max)"

text \<open>A vector grown by doubling from one is full when its length is zero or a power of two.\<close>

definition vector_full :: "nat \<Rightarrow> bool" where
  "vector_full n \<longleftrightarrow> n = 0 \<or> n \<in> set (map (\<lambda>k. 2 ^ k) [0..<64])"

definition grow_bounded :: "environment \<Rightarrow> nat \<Rightarrow> evidence_limit_exceeded + unit" where
  "grow_bounded env n = (if vector_full n \<and> \<not> env_alloc env n then Err EvAllocation else Ok ())"

definition check_evidence :: "unit vfs_op" where
  "check_evidence v = (map_err EvidenceLimit (ev_check (vf_evidence v)), v)"

definition stop_evidence :: "evidence_limit_exceeded \<Rightarrow> 'a vfs_op" where
  "stop_evidence f v = (case ev_stop f (vf_evidence v) of
     (g, b) \<Rightarrow> (Err (EvidenceLimit g), v\<lparr>vf_evidence := b\<rparr>))"

definition limit_evidence :: "evidence_limits \<Rightarrow> virtual_fs \<Rightarrow> virtual_fs" where
  "limit_evidence l v = v\<lparr>vf_evidence := ev_limit l (vf_evidence v)\<rparr>"

definition reserve_adapter_evidence :: "u64 \<Rightarrow> unit vfs_op" where
  "reserve_adapter_evidence n = on_evidence (ev_reserve 1 n)"

definition push_effect :: "environment \<Rightarrow> vpath list \<Rightarrow> effect \<Rightarrow> unit vfs_op" where
  "push_effect env paths e =
     bindS (on_evidence (ev_reserve 1 (accounted_bytes (2 * sz_effect env) paths 1))) (\<lambda>_.
     bindS (getS (\<lambda>v. length (vf_effects v))) (\<lambda>n.
     case grow_bounded env n of
       Inl f \<Rightarrow> stop_evidence f
     | Inr _ \<Rightarrow> modifyS (\<lambda>v. v\<lparr>vf_sequence := vf_sequence v + 1,
         vf_effects := vf_effects v @
           [\<lparr>ev_sequence = vf_sequence v, ev_origin = vf_origin v, ev_effect = e\<rparr>]\<rparr>)))"

section \<open>Resolution\<close>

definition blocks :: "overlay_entry option \<Rightarrow> bool" where
  "blocks e = (case e of
     Some Tombstone \<Rightarrow> True
   | Some (Present r) \<Rightarrow> kind (state_of (res_node r)) \<noteq> Directory
   | None \<Rightarrow> False)"

text \<open>The loop over the ancestors of \<open>resolve_ref\<close>, from \<open>current\<close> up to the root.\<close>

function shadowed :: "(vpath, overlay_entry) btree \<Rightarrow> string \<Rightarrow> bool" where
  "shadowed overlay current =
     (if blocks (map_of overlay (VPath current)) then True
      else if current \<noteq> ''.'' then shadowed overlay (parent_str current)
      else False)"
  by pat_completeness auto
termination
proof (relation "measure (\<lambda>(_, s). if s = ''.'' then 0 else Suc (length s))", simp)
  fix overlay :: "(vpath, overlay_entry) btree" and s :: string
  assume "\<not> blocks (map_of overlay (VPath s))" "s \<noteq> ''.''"
  moreover have "length p < length s" if "rsplit_once slash s = Some (p, r)" for p r
    using rsplit_once_Some[OF that] by simp
  ultimately show "((overlay, parent_str s), overlay, s)
      \<in> measure (\<lambda>(_, s). if s = ''.'' then 0 else Suc (length s))"
    by (auto simp: parent_str_def split: option.splits)
qed

declare shadowed.simps [simp del]

definition resolve_unshadowed :: "virtual_fs \<Rightarrow> vpath \<Rightarrow> resolved_node option" where
  "resolve_unshadowed v p = (case map_of (vf_overlay v) p of
     Some (Present r) \<Rightarrow> Some r
   | Some Tombstone \<Rightarrow> None
   | None \<Rightarrow> map_option (\<lambda>n. \<lparr>res_node = n, base_origin = Some p\<rparr>) (base_node v p))"

definition resolve :: "virtual_fs \<Rightarrow> vpath \<Rightarrow> resolved_node option" where
  "resolve v p =
     (if vf_overlay v = []
      then map_option (\<lambda>n. \<lparr>res_node = n, base_origin = Some p\<rparr>) (base_node v p)
      else case resolve_unshadowed v p of
        None \<Rightarrow> None
      | Some r \<Rightarrow>
          if \<not> is_root p \<and> shadowed (vf_overlay v) (parent_str (as_str p)) then None else Some r)"

definition current_state :: "virtual_fs \<Rightarrow> resolved_node \<Rightarrow> node_state" where
  "current_state v r = node_state_in (vf_world v) (res_node r)"

section \<open>Dependencies\<close>

definition empty_observation :: read_observation where
  "empty_observation = \<lparr>obs_metadata = None, obs_content = None, obs_directory = None\<rparr>"

text \<open>\<open>read_entry\<close> with the mutation its caller makes through the returned reference.\<close>

definition update_read_entry ::
  "environment \<Rightarrow> vpath \<Rightarrow> (read_observation \<Rightarrow> read_observation) \<Rightarrow> unit vfs_op" where
  "update_read_entry env p f =
     bindS check_evidence (\<lambda>_.
     bindS (getS (\<lambda>v. map_of (vf_read_set v) p)) (\<lambda>entry. case entry of
       None \<Rightarrow>
         bindS (on_evidence (ev_reserve 1
             (accounted_bytes (2 * sz_read env + 12 * sz_usize env) [p] 1))) (\<lambda>_.
           modifyS (\<lambda>v. v\<lparr>vf_read_set := bt_insert p (f empty_observation) (vf_read_set v)\<rparr>))
     | Some o1 \<Rightarrow> modifyS (\<lambda>v. v\<lparr>vf_read_set := bt_insert p (f o1) (vf_read_set v)\<rparr>)))"

definition get_or_insert :: "'a \<Rightarrow> 'a option \<Rightarrow> 'a option" where
  "get_or_insert x y = (case y of None \<Rightarrow> Some x | Some z \<Rightarrow> Some z)"

definition has_metadata :: "virtual_fs \<Rightarrow> vpath \<Rightarrow> bool" where
  "has_metadata v p \<longleftrightarrow>
     (case map_of (vf_read_set v) p of Some e \<Rightarrow> obs_metadata e \<noteq> None | None \<Rightarrow> False)"

definition record_metadata :: "environment \<Rightarrow> vpath \<Rightarrow> unit vfs_op" where
  "record_metadata env p =
     bindS check_evidence (\<lambda>_.
     bindS (getS (\<lambda>v. has_metadata v p)) (\<lambda>known.
     if known then returnS ()
     else bindS (getS (\<lambda>v. base_expected v p)) (\<lambda>expected.
       update_read_entry env p
         (\<lambda>e. e\<lparr>obs_metadata := get_or_insert expected (obs_metadata e)\<rparr>))))"

definition record_write :: "environment \<Rightarrow> vpath \<Rightarrow> unit vfs_op" where
  "record_write env p =
     bindS check_evidence (\<lambda>_.
     bindS (getS (\<lambda>v. \<not> is_root p \<and> \<not> has_metadata v (VPath (parent_str (as_str p))))) (\<lambda>missing.
     bindS (if missing then record_metadata env (VPath (parent_str (as_str p))) else returnS ()) (\<lambda>_.
     bindS (getS (\<lambda>v. bt_contains (vf_write_set v) p)) (\<lambda>known.
     if known then returnS ()
     else
       bindS (on_evidence (ev_reserve 1 (accounted_bytes
         (2 * sz_write env + 2 * sz_overlay env + sz_node env + 24 * sz_usize env) [p] 2))) (\<lambda>_.
       modifyS (\<lambda>v. v\<lparr>vf_write_set :=
         bt_insert p \<lparr>wp_expected = base_expected v p\<rparr> (vf_write_set v)\<rparr>))))))"

definition ensure_mutable :: "vpath \<Rightarrow> unit vfs_op" where
  "ensure_mutable p = (if is_root p then failS RootMutation else returnS ())"

definition require_directory :: "environment \<Rightarrow> vpath \<Rightarrow> node_state vfs_op" where
  "require_directory env p =
     bindS (record_metadata env p) (\<lambda>_.
     bindS (getS (\<lambda>v. map_option (current_state v) (resolve v p))) (\<lambda>state. case state of
       None \<Rightarrow> failS (Vfs_NotFound p)
     | Some st \<Rightarrow> if kind st \<noteq> Directory then failS (NotDirectory p (kind st)) else returnS st))"

definition require_parent :: "environment \<Rightarrow> vpath \<Rightarrow> unit vfs_op" where
  "require_parent env p = (case parent p of
     None \<Rightarrow> failS RootMutation
   | Some q \<Rightarrow> bindS (require_directory env q) (\<lambda>_. returnS ()))"

section \<open>Observations\<close>

definition metadata :: "environment \<Rightarrow> vpath \<Rightarrow> node_state vfs_op" where
  "metadata env p =
     bindS (getS (\<lambda>v. map_option (current_state v) (resolve v p))) (\<lambda>state.
     bindS (record_metadata env p) (\<lambda>_.
     bindS (push_effect env [p] (MetadataRead p state)) (\<lambda>_.
       liftS (ok_or state (Vfs_NotFound p)))))"

definition exists_op :: "environment \<Rightarrow> vpath \<Rightarrow> bool vfs_op" where
  "exists_op env p v = (case metadata env p v of
     (Inr _, u) \<Rightarrow> (Ok True, u)
   | (Inl (Vfs_NotFound _), u) \<Rightarrow> (Ok False, u)
   | (Inl e, u) \<Rightarrow> (Err e, u))"

text \<open>\<open>read\<close> and \<open>read_link\<close> differ in the kind they accept and in the error for others.\<close>

definition read_content ::
  "environment \<Rightarrow> node_kind \<Rightarrow> (vpath \<Rightarrow> node_kind \<Rightarrow> vfs_error) \<Rightarrow> vpath \<Rightarrow> bytes vfs_op" where
  "read_content env want wrong p =
     bindS (record_metadata env p) (\<lambda>_.
     bindS (getS (\<lambda>v. resolve v p)) (\<lambda>resolved. case resolved of
       None \<Rightarrow> failS (Vfs_NotFound p)
     | Some r \<Rightarrow>
         if kind (state_of (res_node r)) \<noteq> want
         then failS (wrong p (kind (state_of (res_node r))))
         else
           bindS (in_world Vfs_Snapshot (node_read env (res_node r) p)) (\<lambda>(blob, b).
           bindS (case base_origin r of
               None \<Rightarrow> returnS ()
             | Some origin \<Rightarrow> update_read_entry env origin
                 (\<lambda>e. e\<lparr>obs_content := get_or_insert blob (obs_content e)\<rparr>)) (\<lambda>_.
           bindS (push_effect env [p] (ContentRead p blob)) (\<lambda>_. returnS b)))))"

definition read :: "environment \<Rightarrow> vpath \<Rightarrow> bytes vfs_op" where
  "read env p = read_content env File NotFile p"

definition read_link :: "environment \<Rightarrow> vpath \<Rightarrow> bytes vfs_op" where
  "read_link env p = read_content env Symlink NotSymlink p"

text \<open>The merge of the two ordered key streams; equal keys are taken once.\<close>

fun merge_keys :: "vpath list \<Rightarrow> vpath list \<Rightarrow> vpath list" where
  "merge_keys [] rs = rs"
| "merge_keys ls [] = ls"
| "merge_keys (l # ls) (r # rs) =
     (if l < r then l # merge_keys ls (r # rs)
      else if l = r then l # merge_keys ls rs
      else r # merge_keys (l # ls) rs)"

definition overlay_children :: "virtual_fs \<Rightarrow> vpath \<Rightarrow> vpath list" where
  "overlay_children v p =
     (let pre = dir_prefix p in
      filter (\<lambda>c. slash \<notin> set (drop (length pre) (as_str c)))
        (prefix_range pre (bt_keys (vf_overlay v))))"

definition visible_children :: "virtual_fs \<Rightarrow> vpath \<Rightarrow> vpath list" where
  "visible_children v p =
     (if vf_overlay v = [] then direct_children (vf_base v) p
      else if (case resolve v p of Some r \<Rightarrow> kind (state_of (res_node r)) = Directory | None \<Rightarrow> False)
      then filter (\<lambda>c. resolve_unshadowed v c \<noteq> None)
             (merge_keys (direct_children (vf_base v) p) (overlay_children v p))
      else [])"

text \<open>
  The collection loop of \<open>read_dir_with_limit\<close>: \<open>probe\<close> is a copy of the budget, so an error is
  reported through the return value and recorded by the caller.
\<close>

fun collect_children ::
  "environment \<Rightarrow> vpath \<Rightarrow> nat \<Rightarrow> evidence_budget \<Rightarrow> evidence_buffer \<Rightarrow> vpath list \<Rightarrow> vpath list \<Rightarrow>
   vfs_error + vpath list" where
  "collect_children env p limit probe buf acc [] = Ok acc"
| "collect_children env p limit probe buf acc (c # cs) =
     (if length acc = limit then Err (DirectoryEntryLimit p limit (min (limit + 1) (2 ^ 64 - 1)))
      else case ev_reserve_buffer buf (accounted_bytes (2 * sz_path env) [c] 1) probe of
        (Inl f, _) \<Rightarrow> Err (EvidenceLimit f)
      | (Inr buf', probe') \<Rightarrow>
          (case grow_bounded env (length acc) of
             Inl f \<Rightarrow> Err (EvidenceLimit f)
           | Inr _ \<Rightarrow> collect_children env p limit probe' buf' (acc @ [c]) cs))"

definition stop_on_evidence :: "vfs_error + 'a \<Rightarrow> 'a vfs_op" where
  "stop_on_evidence r v = (case r of
     Inl (EvidenceLimit f) \<Rightarrow> (Err (EvidenceLimit f), v\<lparr>vf_evidence := snd (ev_stop f (vf_evidence v))\<rparr>)
   | _ \<Rightarrow> (r, v))"

text \<open>\<open>None\<close> would be the panic of the digest's length check.\<close>

definition listing_digest :: "environment \<Rightarrow> virtual_fs \<Rightarrow> vpath list \<Rightarrow> digest option" where
  "listing_digest env v cs = digest_entries (env_blake3 env)
     (map (\<lambda>c. (c, case resolve_unshadowed v c of Some r \<Rightarrow> expected_state (res_node r)
                     | None \<Rightarrow> directory_state 0)) cs)"

definition the_digest :: "digest option \<Rightarrow> digest" where
  "the_digest d = (case d of Some x \<Rightarrow> x | None \<Rightarrow> 0)"

definition read_dir_with_limit :: "environment \<Rightarrow> vpath \<Rightarrow> nat \<Rightarrow> vpath list vfs_op" where
  "read_dir_with_limit env p limit =
     bindS (record_metadata env p) (\<lambda>_.
     bindS (require_directory env p) (\<lambda>_.
     bindS (\<lambda>v. stop_on_evidence
         (collect_children env p limit (vf_evidence v) 0 [] (visible_children v p)) v) (\<lambda>children.
     bindS (getS (\<lambda>v. the_digest (listing_digest env v children))) (\<lambda>digest.
     bindS (getS (\<lambda>v. base_node v p \<noteq> None \<and>
         (case map_of (vf_read_set v) p of Some e \<Rightarrow> obs_directory e = None | None \<Rightarrow> True))) (\<lambda>first.
     bindS (if first then
         bindS (getS (\<lambda>v. if vf_overlay v = [] then digest
             else the_digest (directory_digest (env_blake3 env) (vf_base v) p))) (\<lambda>base_digest.
           update_read_entry env p (\<lambda>e. e\<lparr>obs_directory := Some base_digest\<rparr>))
       else returnS ()) (\<lambda>_.
     bindS (push_effect env [p] (DirectoryRead p digest)) (\<lambda>_. returnS children)))))))"

definition read_dir :: "environment \<Rightarrow> vpath \<Rightarrow> vpath list vfs_op" where
  "read_dir env p = read_dir_with_limit env p (2 ^ 64 - 1)"

section \<open>Mutations\<close>

definition overlay_insert :: "vpath \<Rightarrow> overlay_entry \<Rightarrow> unit vfs_op" where
  "overlay_insert p e = modifyS (\<lambda>v. v\<lparr>vf_overlay := bt_insert p e (vf_overlay v)\<rparr>)"

definition default_file_mode :: u32 where "default_file_mode = 0x1A4"

definition write_file :: "environment \<Rightarrow> vpath \<Rightarrow> bytes \<Rightarrow> unit vfs_op" where
  "write_file env p b =
     bindS check_evidence (\<lambda>_.
     bindS (ensure_mutable p) (\<lambda>_.
     bindS (require_parent env p) (\<lambda>_.
     bindS (getS (\<lambda>v. map_option (current_state v) (resolve v p))) (\<lambda>before.
     bindS (case before of
         Some st \<Rightarrow> if kind st \<noteq> File then failS (NotFile p (kind st)) else returnS ()
       | None \<Rightarrow> returnS ()) (\<lambda>_.
     bindS (in_world Vfs_Store (store_put env b)) (\<lambda>blob.
     let m = (case before of None \<Rightarrow> default_file_mode | Some st \<Rightarrow> mode st);
         node = materialized_node File blob (len64 b) m in
     bindS (getS (\<lambda>v. node_state_in (vf_world v) node)) (\<lambda>after.
     bindS (record_write env p) (\<lambda>_.
     bindS (overlay_insert p (Present \<lparr>res_node = node, base_origin = None\<rparr>)) (\<lambda>_.
     push_effect env [p] (case before of
         Some st \<Rightarrow> ModifyContent p st after
       | None \<Rightarrow> Create p after))))))))))"

definition append :: "environment \<Rightarrow> vpath \<Rightarrow> bytes \<Rightarrow> unit vfs_op" where
  "append env p sfx = bindS (read env p) (\<lambda>b. write_file env p (b @ sfx))"

definition mkdir :: "environment \<Rightarrow> vpath \<Rightarrow> u32 \<Rightarrow> unit vfs_op" where
  "mkdir env p m =
     bindS check_evidence (\<lambda>_.
     bindS (ensure_mutable p) (\<lambda>_.
     bindS (require_parent env p) (\<lambda>_.
     bindS (getS (\<lambda>v. resolve v p \<noteq> None)) (\<lambda>present.
     if present then failS (AlreadyExists p)
     else
     bindS (record_write env p) (\<lambda>_.
     bindS (overlay_insert p (Present \<lparr>res_node = directory_node m, base_origin = None\<rparr>)) (\<lambda>_.
     push_effect env [p] (Create p (state_of (directory_node m)))))))))"

definition set_mode :: "environment \<Rightarrow> vpath \<Rightarrow> u32 \<Rightarrow> unit vfs_op" where
  "set_mode env p m =
     bindS check_evidence (\<lambda>_.
     bindS (ensure_mutable p) (\<lambda>_.
     if m AND NOT 0x1FF \<noteq> 0 then failS (UnsupportedMode p m)
     else
     bindS (metadata env p) (\<lambda>before.
     if kind before = Symlink then failS (SymlinkMode p)
     else if mode before = m then returnS ()
     else
     bindS (getS (\<lambda>v. case Option.bind (resolve v p) base_origin of
         None \<Rightarrow> 0 | Some q \<Rightarrow> len64 (as_str q))) (\<lambda>origin_bytes.
     bindS (on_evidence (ev_reserve 0 origin_bytes)) (\<lambda>_.
     bindS (getS (\<lambda>v. resolve v p)) (\<lambda>resolved. case resolved of
       None \<Rightarrow> failS (Vfs_NotFound p)
     | Some r \<Rightarrow>
         let node = (res_node r)\<lparr>state_of := with_mode (state_of (res_node r)) m\<rparr>;
             r' = r\<lparr>res_node := node\<rparr> in
         bindS (getS (\<lambda>v. current_state v r')) (\<lambda>after.
         bindS (record_write env p) (\<lambda>_.
         bindS (overlay_insert p (Present r')) (\<lambda>_.
         push_effect env [p] (ModifyMetadata p before after))))))))))"

definition unlink :: "environment \<Rightarrow> vpath \<Rightarrow> unit vfs_op" where
  "unlink env p =
     bindS check_evidence (\<lambda>_.
     bindS (ensure_mutable p) (\<lambda>_.
     bindS (record_metadata env p) (\<lambda>_.
     bindS (getS (\<lambda>v. map_option (current_state v) (resolve v p))) (\<lambda>before. case before of
       None \<Rightarrow> failS (Vfs_NotFound p)
     | Some st \<Rightarrow>
         if kind st = Directory then failS (IsDirectory p)
         else
         bindS (record_write env p) (\<lambda>_.
         bindS (overlay_insert p Tombstone) (\<lambda>_.
         push_effect env [p] (Delete p st)))))))"

definition rmdir :: "environment \<Rightarrow> vpath \<Rightarrow> unit vfs_op" where
  "rmdir env p =
     bindS check_evidence (\<lambda>_.
     bindS (ensure_mutable p) (\<lambda>_.
     bindS (record_metadata env p) (\<lambda>_.
     bindS (require_directory env p) (\<lambda>before.
     bindS (read_dir env p) (\<lambda>children.
     if children \<noteq> [] then failS (DirectoryNotEmpty p)
     else
     bindS (record_write env p) (\<lambda>_.
     bindS (overlay_insert p Tombstone) (\<lambda>_.
     push_effect env [p] (Delete p before))))))))"

text \<open>The collection loop of \<open>visible_subtree\<close> over the merged keys, errors as above.\<close>

fun collect_subtree ::
  "environment \<Rightarrow> virtual_fs \<Rightarrow> evidence_budget \<Rightarrow> evidence_buffer \<Rightarrow>
   (vpath \<times> resolved_node) list \<Rightarrow> vpath list \<Rightarrow>
   evidence_limit_exceeded + (vpath \<times> resolved_node) list" where
  "collect_subtree env v probe buf acc [] = Ok acc"
| "collect_subtree env v probe buf acc (c # cs) =
     (case resolve v c of
        None \<Rightarrow> collect_subtree env v probe buf acc cs
      | Some r \<Rightarrow>
          bindR (let storage = accounted_bytes (2 * sz_resolved env) [c] 1 in
                 case base_origin r of
                   None \<Rightarrow> Ok storage
                 | Some q \<Rightarrow> ok_or (checked_add storage (len64 (as_str q)))
                     (EvBytes (max_evidence_bytes (ev_limits (vf_evidence v))) u64_max)) (\<lambda>storage.
          case ev_reserve_buffer buf storage probe of
            (Inl f, _) \<Rightarrow> Err f
          | (Inr buf', probe') \<Rightarrow>
              bindR (grow_bounded env (length acc)) (\<lambda>_.
                collect_subtree env v probe' buf' (acc @ [(c, r)]) cs)))"

definition subtree_candidates :: "virtual_fs \<Rightarrow> vpath \<Rightarrow> vpath list" where
  "subtree_candidates v p =
     merge_keys (subtree_keys (bs_nodes (vf_base v)) p) (subtree_keys (vf_overlay v) p)"

definition visible_subtree :: "environment \<Rightarrow> vpath \<Rightarrow> (vpath \<times> resolved_node) list vfs_op" where
  "visible_subtree env p v =
     (case collect_subtree env v (vf_evidence v) 0 [] (subtree_candidates v p) of
        Inr nodes \<Rightarrow> (Ok nodes, v)
      | Inl f \<Rightarrow> stop_evidence f v)"

definition remove_tree :: "environment \<Rightarrow> vpath \<Rightarrow> unit vfs_op" where
  "remove_tree env p =
     bindS check_evidence (\<lambda>_.
     bindS (ensure_mutable p) (\<lambda>_.
     bindS (record_metadata env p) (\<lambda>_.
     bindS (visible_subtree env p) (\<lambda>nodes.
     if nodes = [] then failS (Vfs_NotFound p)
     else
     bindS (forS (rev nodes) (\<lambda>(q, r).
         bindS (record_write env q) (\<lambda>_.
         bindS (getS (\<lambda>v. current_state v r)) (\<lambda>st. push_effect env [q] (Delete q st))))) (\<lambda>_.
     forS nodes (\<lambda>(q, r). overlay_insert q Tombstone))))))"

text \<open>\<open>source_path.rebase(from, to)?.ok_or_else(...)?\<close>\<close>

definition rebase_checked :: "vpath \<Rightarrow> vpath \<Rightarrow> vpath \<Rightarrow> vpath vfs_op" where
  "rebase_checked q from to =
     liftS (bindR (map_err Vfs_Path (rebase q from to)) (\<lambda>d. ok_or d (InvalidRename from to)))"

definition rename_target ::
  "environment \<Rightarrow> vpath \<Rightarrow> vpath \<Rightarrow> node_state \<Rightarrow> resolved_node \<Rightarrow> unit vfs_op" where
  "rename_target env from to source_state dest =
     bindS (getS (\<lambda>v. (kind (current_state v dest), visible_children v to \<noteq> []))) (\<lambda>(dest_kind, full).
     if kind source_state = Directory \<and> dest_kind = Directory \<and> full
     then failS (DirectoryNotEmpty to)
     else if (kind source_state = Directory) \<noteq> (dest_kind = Directory)
     then failS (RenameTypeMismatch from to)
     else
     bindS (record_write env to) (\<lambda>_. overlay_insert to Tombstone))"

definition rename :: "environment \<Rightarrow> vpath \<Rightarrow> vpath \<Rightarrow> unit vfs_op" where
  "rename env from to =
     bindS check_evidence (\<lambda>_.
     bindS (ensure_mutable from) (\<lambda>_.
     bindS (ensure_mutable to) (\<lambda>_.
     if from = to then returnS ()
     else if is_within to from \<or> is_within from to then failS (InvalidRename from to)
     else
     bindS (record_metadata env from) (\<lambda>_.
     bindS (record_metadata env to) (\<lambda>_.
     bindS (require_parent env to) (\<lambda>_.
     bindS (getS (\<lambda>v. map_option (current_state v) (resolve v from))) (\<lambda>source. case source of
       None \<Rightarrow> failS (Vfs_NotFound from)
     | Some source_state \<Rightarrow>
     bindS (getS (\<lambda>v. resolve v to)) (\<lambda>destination.
     bindS (case destination of None \<Rightarrow> returnS ()
            | Some dest \<Rightarrow> rename_target env from to source_state dest) (\<lambda>_.
     bindS (visible_subtree env from) (\<lambda>moving.
     bindS (forS moving (\<lambda>(q, r). record_write env q)) (\<lambda>_.
     bindS (forS moving (\<lambda>(q, r).
         bindS (rebase_checked q from to) (\<lambda>d.
         bindS (record_write env d) (\<lambda>_.
           on_evidence (ev_reserve 0 (case base_origin r of None \<Rightarrow> 0 | Some o1 \<Rightarrow> len64 (as_str o1))))))) (\<lambda>_.
     bindS (forS moving (\<lambda>(q, r). overlay_insert q Tombstone)) (\<lambda>_.
     bindS (forS moving (\<lambda>(q, r).
         bindS (rebase_checked q from to) (\<lambda>d. overlay_insert d (Present r)))) (\<lambda>_.
     push_effect env [from, to] (Rename from to source_state source_state)))))))))))))))"

section \<open>The canonical diff\<close>

fun classify_diff :: "node_state option \<Rightarrow> node_state option \<Rightarrow> diff_kind" where
  "classify_diff None (Some a) = DCreate"
| "classify_diff (Some b) None = DDelete"
| "classify_diff (Some b) (Some a) = (if content_equivalent b a then DMetadataChange else DModify)"
| "classify_diff None None = DModify"

definition encode_optional_state :: "node_state option \<Rightarrow> bytes" where
  "encode_optional_state s = (case s of Some st \<Rightarrow> 1 # encode_canonical st | None \<Rightarrow> [0])"

definition encode_diff_entry :: "diff_entry \<Rightarrow> bytes" where
  "encode_diff_entry e =
     encode_path (entry_path e) @
     [case entry_kind e of DCreate \<Rightarrow> 1 | DDelete \<Rightarrow> 2 | DModify \<Rightarrow> 3 | DMetadataChange \<Rightarrow> 4] @
     encode_optional_state (entry_before e) @ encode_optional_state (entry_after e)"

text \<open>The loop over the overlay: all its keys, and the base subtree of every tombstone.\<close>

fun expand_deletes ::
  "base_snapshot \<Rightarrow> (vpath \<times> overlay_entry) list \<Rightarrow> vpath list \<Rightarrow> vpath list \<Rightarrow> vpath list \<times> vpath list"
where
  "expand_deletes b [] candidates expanded = (candidates, expanded)"
| "expand_deletes b ((p, e) # es) candidates expanded =
     expand_deletes b es (bs_insert p candidates)
       (if e = Tombstone \<and> p \<notin> set expanded then bs_extend (subtree_paths b p) expanded
        else expanded)"

text \<open>The first loop over the candidates: the state after the transaction.\<close>

definition after_state :: "environment \<Rightarrow> virtual_fs \<Rightarrow> vpath \<Rightarrow>
    (world \<times> u64, vfs_error, node_state option) op" where
  "after_state env v p = (case resolve v p of
     None \<Rightarrow> returnS None
   | Some r \<Rightarrow>
       bindS (getS (\<lambda>(w, n). node_state_in w (res_node r))) (\<lambda>state.
       bindS (getS (\<lambda>(w, n). base_origin r = Some p \<and>
           (case base_node v p of Some b \<Rightarrow> content_equivalent (node_state_in w b) state
            | None \<Rightarrow> False))) (\<lambda>metadata_only.
       if metadata_only then returnS (Some state)
       else
       bindS (modifyS (\<lambda>(w, n). (w, saturating_add n (nsize state)))) (\<lambda>_.
       bindS (\<lambda>(w, n). case materialized_state env (res_node r) p w of
           (x, w') \<Rightarrow> (map_err Vfs_Snapshot x, w', n)) (\<lambda>st. returnS (Some st))))))"

fun after_states :: "environment \<Rightarrow> virtual_fs \<Rightarrow> vpath list \<Rightarrow>
    (world \<times> u64, vfs_error, node_state option list) op" where
  "after_states env v [] = returnS []"
| "after_states env v (p # ps) =
     bindS (after_state env v p) (\<lambda>st. bindS (after_states env v ps) (\<lambda>sts. returnS (st # sts)))"

text \<open>The second loop: entries for the candidates whose state changed.\<close>

definition before_state :: "world \<Rightarrow> virtual_fs \<Rightarrow> vpath \<Rightarrow> node_state option" where
  "before_state w v p = map_option (node_state_in w) (base_node v p)"

definition diff_entries ::
  "world \<Rightarrow> virtual_fs \<Rightarrow> (vpath \<times> node_state option) list \<Rightarrow> diff_entry list" where
  "diff_entries w v pairs =
     map (\<lambda>(p, after). \<lparr>entry_path = p, entry_before = before_state w v p, entry_after = after,
            entry_kind = classify_diff (before_state w v p) after\<rparr>)
       (filter (\<lambda>(p, after). before_state w v p \<noteq> after) pairs)"

definition diff_candidates :: "virtual_fs \<Rightarrow> vpath list \<times> vpath list" where
  "diff_candidates v =
     (case expand_deletes (vf_base v) (vf_overlay v) [] [] of
        (candidates, expanded) \<Rightarrow>
          (filter (\<lambda>p. \<not> is_root p) (bs_extend expanded candidates), expanded))"

definition canonical_diff_op :: "environment \<Rightarrow> canonical_diff vfs_op" where
  "canonical_diff_op env =
     bindS check_evidence (\<lambda>_ v.
       case diff_candidates v of (candidates, expanded) \<Rightarrow>
       (case after_states env v candidates (vf_world v, 0) of
          (Inl e, w, _) \<Rightarrow> (Err e, v\<lparr>vf_world := w\<rparr>)
        | (Inr afters, w, n) \<Rightarrow>
            let entries = diff_entries w v (zip candidates afters) in
            (Ok \<lparr>cd_entries = entries,
                 cd_digest = diff_digest (env_blake3 env) (concat (map encode_diff_entry entries)),
                 cd_metrics = \<lparr>candidate_paths = length candidates,
                   expanded_delete_paths = length expanded, changed_paths = length entries,
                   materialized_after_bytes = n\<rparr>\<rparr>,
             v\<lparr>vf_world := w\<rparr>)))"

text \<open>\<open>CanonicalDiff::from_entries\<close>: validation of a decoded diff.\<close>

fun check_entries :: "vpath option \<Rightarrow> u64 \<Rightarrow> diff_entry list \<Rightarrow> vfs_error + u64" where
  "check_entries previous n [] = Ok n"
| "check_entries previous n (e # es) =
     (let p = entry_path e in
      if is_root p
      then Err (InvalidCanonicalDiff (Some p) ''the workspace root cannot appear in a diff'')
      else if (case previous of Some q \<Rightarrow> p \<le> q | None \<Rightarrow> False)
      then Err (InvalidCanonicalDiff (Some p) ''diff paths are not strictly ordered'')
      else if entry_before e = entry_after e
      then Err (InvalidCanonicalDiff (Some p) ''diff entry does not change state'')
      else if entry_kind e \<noteq> classify_diff (entry_before e) (entry_after e)
      then Err (InvalidCanonicalDiff (Some p) ''diff kind does not match before and after states'')
      else check_entries (Some p)
        (saturating_add n (case entry_after e of None \<Rightarrow> 0 | Some st \<Rightarrow> nsize st)) es)"

definition from_entries :: "(bytes \<Rightarrow> digest) \<Rightarrow> diff_entry list \<Rightarrow> vfs_error + canonical_diff" where
  "from_entries blake3 entries =
     bindR (check_entries None 0 entries) (\<lambda>n.
       Ok \<lparr>cd_entries = entries,
           cd_digest = diff_digest blake3 (concat (map encode_diff_entry entries)),
           cd_metrics = \<lparr>candidate_paths = length entries, expanded_delete_paths = 0,
             changed_paths = length entries, materialized_after_bytes = n\<rparr>\<rparr>)"

section \<open>Evidence and review\<close>

record transaction_evidence =
  te_read_set :: "(vpath, read_observation) btree"
  te_write_set :: "(vpath, write_precondition) btree"
  te_effects :: "effect_event list"

definition into_evidence :: "virtual_fs \<Rightarrow> vfs_error + transaction_evidence" where
  "into_evidence v = bindR (fst (check_evidence v)) (\<lambda>_.
     Ok \<lparr>te_read_set = vf_read_set v, te_write_set = vf_write_set v, te_effects = vf_effects v\<rparr>)"

fun capture_loop :: "environment \<Rightarrow> base_snapshot \<Rightarrow> vpath list \<Rightarrow> u64 \<Rightarrow> (world, vfs_error, unit) op" where
  "capture_loop env b [] remaining = returnS ()"
| "capture_loop env b (p # ps) remaining =
     (case map_of (bs_nodes b) p of
        None \<Rightarrow> capture_loop env b ps remaining
      | Some n \<Rightarrow>
          bindS (getS (\<lambda>w. (node_state_in w n, is_materialized w n))) (\<lambda>(st, done).
          if kind st = Directory \<or> done then capture_loop env b ps remaining
          else if nsize st \<le> remaining then
            bindS (map_errS Vfs_Snapshot (materialized_state env n p)) (\<lambda>_.
              capture_loop env b ps (remaining - nsize st))
          else capture_loop env b ps remaining))"

definition capture_before_content :: "environment \<Rightarrow> vpath list \<Rightarrow> u64 \<Rightarrow> unit vfs_op" where
  "capture_before_content env ps maximum v =
     in_world (\<lambda>e. e) (capture_loop env (vf_base v) ps maximum) v"

text \<open>\<open>materialized_final_state\<close>, used by the test harnesses.\<close>

fun final_states :: "environment \<Rightarrow> virtual_fs \<Rightarrow> vpath list \<Rightarrow> (vpath, node_state) btree \<Rightarrow>
    (world, vfs_error, (vpath, node_state) btree) op" where
  "final_states env v [] acc = returnS acc"
| "final_states env v (p # ps) acc = (case resolve v p of
     None \<Rightarrow> final_states env v ps acc
   | Some r \<Rightarrow> bindS (map_errS Vfs_Snapshot (materialized_state env (res_node r) p)) (\<lambda>st.
       final_states env v ps (bt_insert p st acc)))"

definition materialized_final_state :: "environment \<Rightarrow> (vpath, node_state) btree vfs_op" where
  "materialized_final_state env =
     bindS check_evidence (\<lambda>_ v. in_world (\<lambda>e. e)
       (final_states env v
         (bs_extend (bt_keys (vf_overlay v)) (bs_extend (bt_keys (bs_nodes (vf_base v))) [])) []) v)"

end
