(* ===== verification/Wp.thy ===== *)
theory Wp
  imports Prelude
begin

text \<open>
  Weakest preconditions of the stateful operations of the development, with one postcondition
  for the normal exit and one for the error exit.  The rules of \<open>wp_simps\<close> are equations, so the
  precondition of a whole operation is computed by simplification down to the operations it
  calls, whose own specifications are used through \<open>wp_use\<close>; a loop needs an invariant over the
  elements that are left.
\<close>

named_theorems wp_simps \<open>equations that compute weakest preconditions\<close>

definition wp :: "('s, 'e, 'a) op \<Rightarrow> ('a \<Rightarrow> 's \<Rightarrow> bool) \<Rightarrow> ('e \<Rightarrow> 's \<Rightarrow> bool) \<Rightarrow> 's \<Rightarrow> bool" where
  "wp m Q E s \<longleftrightarrow> (case m s of (Inr x, t) \<Rightarrow> Q x t | (Inl e, t) \<Rightarrow> E e t)"

lemma wp_basic [wp_simps]:
  "wp (returnS x) Q E = Q x"
  "wp (failS e) Q E = E e"
  "wp (getS f) Q E = (\<lambda>s. Q (f s) s)"
  by (simp_all add: wp_def fun_eq_iff)

lemma wp_modifyS [wp_simps]: "wp (modifyS h) Q E = (\<lambda>s. Q () (h s))"
  by (simp add: wp_def fun_eq_iff)

lemma wp_liftS [wp_simps]:
  "wp (liftS r) Q E = (\<lambda>s. case r of Inr x \<Rightarrow> Q x s | Inl e \<Rightarrow> E e s)"
  by (simp add: wp_def fun_eq_iff split: sum.splits)

lemma wp_Pair [wp_simps]:
  "wp (Pair (Inr x)) Q E = Q x" "wp (Pair (Inl e)) Q E = E e"
  by (simp_all add: wp_def fun_eq_iff)

lemma wp_bindS [wp_simps]: "wp (bindS m f) Q E = wp m (\<lambda>x. wp (f x) Q E) E"
  by (rule ext) (auto simp: wp_def bindS_def split: prod.splits sum.splits)

lemma wp_map_errS [wp_simps]: "wp (map_errS g m) Q E = wp m Q (\<lambda>e. E (g e))"
  by (rule ext) (auto simp: wp_def map_errS_def split: prod.splits sum.splits)

lemma wp_if [wp_simps]: "wp (if b then m else n) Q E = (if b then wp m Q E else wp n Q E)"
  by simp

lemma wp_option [wp_simps]:
  "wp (case x of None \<Rightarrow> m | Some y \<Rightarrow> f y) Q E =
     (case x of None \<Rightarrow> wp m Q E | Some y \<Rightarrow> wp (f y) Q E)"
  by (cases x) auto

lemma wp_pair [wp_simps]:
  "wp (case x of (a, b) \<Rightarrow> f a b) Q E = (case x of (a, b) \<Rightarrow> wp (f a b) Q E)"
  by (cases x) auto

lemma wp_let [wp_simps]: "wp (let x = a in f x) Q E = (let x = a in wp (f x) Q E)"
  by simp

lemma wp_mono:
  "wp m P F s \<Longrightarrow> (\<And>x t. P x t \<Longrightarrow> Q x t) \<Longrightarrow> (\<And>e t. F e t \<Longrightarrow> E e t) \<Longrightarrow> wp m Q E s"
  by (auto simp: wp_def split: prod.splits sum.splits)

text \<open>The specification of a called operation, from the state it is called in.\<close>

lemma wp_use:
  "wp m P F s \<Longrightarrow> (\<forall>x t. P x t \<longrightarrow> Q x t) \<Longrightarrow> (\<forall>e t. F e t \<longrightarrow> E e t) \<Longrightarrow> wp m Q E s"
  by (blast intro: wp_mono)

lemma wp_conj:
  "wp m P F s \<Longrightarrow> wp m Q E s \<Longrightarrow> wp m (\<lambda>x t. P x t \<and> Q x t) (\<lambda>e t. F e t \<and> E e t) s"
  by (auto simp: wp_def split: prod.splits sum.splits)

lemma wp_runs:
  "wp m Q E s \<longleftrightarrow>
     (\<forall>x t. m s = (Inr x, t) \<longrightarrow> Q x t) \<and> (\<forall>e t. m s = (Inl e, t) \<longrightarrow> E e t)"
  by (auto simp: wp_def split: prod.splits sum.splits)

lemma wp_Inr: "wp m Q E s \<Longrightarrow> m s = (Inr x, t) \<Longrightarrow> Q x t"
  by (simp add: wp_def)

lemma wp_Inl: "wp m Q E s \<Longrightarrow> m s = (Inl e, t) \<Longrightarrow> E e t"
  by (simp add: wp_def)

lemma wp_snd: "wp m (\<lambda>_ t. I t) (\<lambda>_ t. I t) s \<longleftrightarrow> I (snd (m s))"
  by (auto simp: wp_def split: prod.splits sum.splits)

lemma keeps_wp: "keeps I m \<longleftrightarrow> (\<forall>s. I s \<longrightarrow> wp m (\<lambda>_. I) (\<lambda>_. I) s)"
  by (simp add: keeps_def wp_snd)

text \<open>A loop with an invariant over the elements that are left.\<close>

lemma wp_forS:
  assumes "I xs s" "\<And>t. I [] t \<Longrightarrow> Q () t"
    and "\<And>y ys t. \<exists>zs. xs = zs @ y # ys \<Longrightarrow> I (y # ys) t \<Longrightarrow> wp (f y) (\<lambda>_. I ys) E t"
  shows "wp (forS xs f) Q E s"
proof -
  have "wp (forS ys f) Q E t" if "\<exists>zs. xs = zs @ ys" "I ys t" for ys t
    using that
  proof (induction ys arbitrary: t)
    case Nil
    then show ?case using assms(2) by (simp add: wp_simps)
  next
    case (Cons y ys)
    have "wp (f y) (\<lambda>_. I ys) E t" using assms(3) Cons.prems by blast
    moreover have "\<exists>zs. xs = zs @ ys" using Cons.prems(1) by (metis append_Cons append_assoc append_Nil)
    ultimately show ?case using Cons.IH by (auto simp: wp_simps intro: wp_mono)
  qed
  then show ?thesis using assms(1) by simp
qed

text \<open>A loop of updates that cannot fail is a fold.\<close>

lemma forS_modify: "forS xs (\<lambda>x. modifyS (h x)) = modifyS (\<lambda>s. fold h xs s)"
  by (induction xs) (auto simp: fun_eq_iff bindS_def)

end
