(* ===== verification/VfsTree.thy ===== *)
theory VfsTree
  imports Vfs
begin

text \<open>
  The tree a transaction sees.  \<open>lookup\<close> reads the overlay over the base; \<open>tree\<close> says that the
  parent of every visible node is a visible directory.  On trees the walk over the ancestors in
  \<open>resolve_ref\<close> never hides anything (\<open>resolve_lookup\<close>), so every operation can be understood as
  an update of \<open>lookup\<close>; the laws of these updates are proved here once.
\<close>

section \<open>Ancestors\<close>

lemma as_str_parent_of [simp]: "as_str (parent_of p) = parent_str (as_str p)"
  by (simp add: parent_of_def)

lemma is_within_cases:
  assumes "vpath_ok p" "vpath_ok a"
  shows "is_within p a \<longleftrightarrow> p = a \<or> p \<noteq> root \<and> is_within (parent_of p) a"
proof
  assume "is_within p a"
  then show "p = a \<or> p \<noteq> root \<and> is_within (parent_of p) a"
    using strictly_in_parent[OF assms] by (auto simp: strictly_in_def)
next
  assume "p = a \<or> p \<noteq> root \<and> is_within (parent_of p) a"
  then show "is_within p a"
    using within_parent_of[of p] assms parent_of_ok[of p] is_within_trans[of p "parent_of p" a]
    by (auto simp: strictly_in_def)
qed

lemma parent_of_neq: "vpath_ok p \<Longrightarrow> p \<noteq> root \<Longrightarrow> parent_of p \<noteq> p"
  using within_parent_of[of p] by (auto simp: strictly_in_def)

lemma parent_of_shorter:
  "vpath_ok p \<Longrightarrow> p \<noteq> root \<Longrightarrow> length (components (parent_of p)) < length (components p)"
  using components_parent_of[of p] components_not_Nil[of p] by simp

text \<open>Induction over the ancestors of a path.\<close>

lemma ancestor_induct [consumes 1, case_names root step]:
  assumes "vpath_ok p" "P root"
    and step: "\<And>q. vpath_ok q \<Longrightarrow> q \<noteq> root \<Longrightarrow> P (parent_of q) \<Longrightarrow> P q"
  shows "P p"
  using assms(1)
proof (induction "length (components p)" arbitrary: p rule: less_induct)
  case less
  show ?case
    using less.hyps[of "parent_of p"] less.prems parent_of_shorter[of p] parent_of_ok[of p] step[of p] assms(2)
    by (cases "p = root") auto
qed

lemma shadowed_iff:
  assumes "vpath_ok q"
  shows "shadowed ov (as_str q) \<longleftrightarrow> (\<exists>a. vpath_ok a \<and> is_within q a \<and> blocks (map_of ov a))"
  using assms
proof (induction rule: ancestor_induct)
  case root
  have "is_within root a \<longleftrightarrow> a = root" if "vpath_ok a" for a
    using is_within_cases[of root a] that by auto
  moreover have "shadowed ov (as_str root) \<longleftrightarrow> blocks (map_of ov root)"
    by (subst shadowed.simps) (simp add: root_def)
  ultimately show ?case using vpath_ok_root by metis
next
  case (step q)
  have "shadowed ov (as_str q) \<longleftrightarrow> blocks (map_of ov q) \<or> shadowed ov (as_str (parent_of q))"
    using step(2) by (subst shadowed.simps) (cases q, simp add: root_def)
  also have "\<dots> \<longleftrightarrow> (\<exists>a. vpath_ok a \<and> is_within q a \<and> blocks (map_of ov a))"
    unfolding step(3) using is_within_cases[OF step(1)] step(1,2) by blast
  finally show ?case .
qed

section \<open>Trees\<close>

definition is_dir :: "resolved_node option \<Rightarrow> bool" where
  "is_dir x \<longleftrightarrow> (case x of Some r \<Rightarrow> kind (state_of (res_node r)) = Directory | None \<Rightarrow> False)"

lemma is_dir_simps [simp]:
  "\<not> is_dir None" "is_dir (Some r) \<longleftrightarrow> kind (state_of (res_node r)) = Directory"
  by (simp_all add: is_dir_def)

lemma is_dir_not_None: "is_dir x \<Longrightarrow> x \<noteq> None"
  by (cases x) auto

type_synonym files = "vpath \<Rightarrow> resolved_node option"

definition tree :: "files \<Rightarrow> bool" where
  "tree m \<longleftrightarrow> is_dir (m root) \<and> (\<forall>p. m p \<noteq> None \<longrightarrow> vpath_ok p) \<and>
     (\<forall>p. m p \<noteq> None \<longrightarrow> p \<noteq> root \<longrightarrow> is_dir (m (parent_of p)))"

lemma tree_parent: "tree m \<Longrightarrow> m p \<noteq> None \<Longrightarrow> p \<noteq> root \<Longrightarrow> is_dir (m (parent_of p))"
  by (simp add: tree_def)

lemma tree_path: "tree m \<Longrightarrow> m p = Some r \<Longrightarrow> vpath_ok p"
  by (simp add: tree_def)

lemma tree_ancestor:
  assumes "tree m" "m p \<noteq> None" "vpath_ok a" "is_within p a" "p \<noteq> a"
  shows "is_dir (m a)"
proof -
  have "vpath_ok p" using assms(1,2) by (auto simp: tree_def)
  then show ?thesis using assms(2-)
  proof (induction rule: ancestor_induct)
    case root
    then show ?case using is_within_cases[of root a] by auto
  next
    case (step q)
    have "is_dir (m (parent_of q))" using tree_parent[OF assms(1) step.prems(1) step.hyps(2)] .
    moreover have "is_within (parent_of q) a" using is_within_cases[OF step.hyps(1)] step.prems by blast
    moreover have "m (parent_of q) \<noteq> None" using is_dir_not_None[OF calculation(1)] .
    ultimately show ?case using step.IH step.prems by (cases "parent_of q = a") auto
  qed
qed

lemma tree_childless:
  assumes "tree m" "vpath_ok p" "\<not> is_dir (m p)" "is_within q p" "q \<noteq> p" shows "m q = None"
  using tree_ancestor[OF assms(1) _ assms(2,4,5)] assms(3) by blast

lemma tree_upd:
  assumes "tree m" "vpath_ok p" "p \<noteq> root" "is_dir (m (parent_of p))"
    and "is_dir (Some r) \<or> \<not> is_dir (m p)"
  shows "tree (m(p \<mapsto> r))"
  unfolding tree_def
proof (intro conjI allI impI)
  fix q assume q: "(m(p \<mapsto> r)) q \<noteq> None" "q \<noteq> root"
  show "is_dir ((m(p \<mapsto> r)) (parent_of q))"
  proof (cases "q = p")
    case True
    then show ?thesis using assms(4) parent_of_neq[OF assms(2,3)] by simp
  next
    case False
    then have "is_dir (m (parent_of q))" using q tree_parent[OF assms(1)] by simp
    then show ?thesis using assms(5) by auto
  qed
qed (use assms in \<open>auto simp: tree_def split: if_splits\<close>)

lemma tree_del_within:
  assumes "tree m" "vpath_ok p" "p \<noteq> root"
  shows "tree (\<lambda>q. if is_within q p then None else m q)"
  unfolding tree_def
proof (intro conjI allI impI)
  show "is_dir (if is_within root p then None else m root)"
    using assms is_within_cases[of root p] by (auto simp: tree_def)
  fix q assume q: "(if is_within q p then None else m q) \<noteq> None"
  then show "vpath_ok q" using assms(1) by (auto simp: tree_def split: if_splits)
  then show "is_dir (if is_within (parent_of q) p then None else m (parent_of q))" if "q \<noteq> root"
    using q tree_parent[OF assms(1) _ that] is_within_cases[of q p] assms(2) that
    by (auto split: if_splits)
qed

lemma tree_del_leaf:
  assumes "tree m" "vpath_ok p" "p \<noteq> root"
    and "\<forall>q. m q \<noteq> None \<and> q \<noteq> root \<longrightarrow> parent_of q \<noteq> p"
  shows "m(p := None) = (\<lambda>q. if is_within q p then None else m q)" "tree (m(p := None))"
proof -
  have "m q = None" if "is_within q p" "q \<noteq> p" for q
  proof (rule ccontr)
    assume "m q \<noteq> None"
    then have "vpath_ok q" using assms(1) by (auto simp: tree_def)
    then show False using \<open>m q \<noteq> None\<close> that
    proof (induction rule: ancestor_induct)
      case root
      then show ?case using is_within_cases[of root p] assms(2) by auto
    next
      case (step q)
      have "m (parent_of q) \<noteq> None"
        using is_dir_not_None[OF tree_parent[OF assms(1) step.prems(1) step.hyps(2)]] .
      moreover have "parent_of q \<noteq> p" using assms(4) step.prems(1) step.hyps(2) by blast
      moreover have "is_within (parent_of q) p" using is_within_cases step assms(2) by blast
      ultimately show ?case using step.IH by blast
    qed
  qed
  then show *: "m(p := None) = (\<lambda>q. if is_within q p then None else m q)" by (auto simp: fun_eq_iff)
  show "tree (m(p := None))" unfolding * by (rule tree_del_within[OF assms(1-3)])
qed

text \<open>Deleting the visible nodes of a subtree one by one deletes the subtree.\<close>

lemma fold_del:
  "fold (\<lambda>p m. m(p := None)) ps m = (\<lambda>q. if q \<in> set ps then None else m q)"
  by (induction ps arbitrary: m) (auto simp: fun_eq_iff)

lemma del_visible:
  assumes "set ps = {q. is_within q p \<and> m q \<noteq> None}"
  shows "fold (\<lambda>p m. m(p := None)) ps m = (\<lambda>q. if is_within q p then None else m q)"
  using assms unfolding fold_del by (auto simp: fun_eq_iff)

section \<open>Lookup\<close>

abbreviation lookup :: "virtual_fs \<Rightarrow> files" where "lookup v \<equiv> resolve_unshadowed v"

definition entry_node :: "overlay_entry \<Rightarrow> resolved_node option" where
  "entry_node e = (case e of Present r \<Rightarrow> Some r | Tombstone \<Rightarrow> None)"

lemma entry_node_simps [simp]: "entry_node (Present r) = Some r" "entry_node Tombstone = None"
  by (simp_all add: entry_node_def)

lemma lookup_insert [simp]:
  "lookup (v\<lparr>vf_overlay := bt_insert p e (vf_overlay v)\<rparr>) = (lookup v)(p := entry_node e)"
  by (auto simp: fun_eq_iff resolve_unshadowed_def base_node_def entry_node_def
      split: option.splits overlay_entry.splits)

lemma lookup_keys:
  "lookup v q \<noteq> None \<Longrightarrow> q \<in> fst ` set (vf_overlay v) \<or> q \<in> fst ` set (bs_nodes (vf_base v))"
  by (cases "map_of (vf_overlay v) q")
     (auto simp: resolve_unshadowed_def base_node_def map_of_eq_None_iff dest!: map_of_SomeD
      intro: rev_image_eqI)

lemma lookup_cong:
  "vf_overlay t = vf_overlay v \<Longrightarrow> vf_base t = vf_base v \<Longrightarrow> lookup t = lookup v"
  by (rule ext) (simp add: resolve_unshadowed_def base_node_def cong: option.case_cong)

lemma lookup_new: "tree (lookup (vfs_new b w))" if "snap_ok b"
proof -
  have "map_of (bs_nodes b) p \<noteq> None \<longleftrightarrow> p \<in> fst ` set (bs_nodes b)" for p
    by (simp add: map_of_eq_None_iff)
  then show ?thesis
    using that by (fastforce simp: tree_def snap_ok_def resolve_unshadowed_def base_node_def vfs_new_def
        is_dir_def is_directory_def list_all_iff split: option.splits)
qed

lemma resolve_lookup:
  assumes "tree (lookup v)" "vpath_ok p"
  shows "resolve v p = lookup v p"
proof (cases "vf_overlay v = []")
  case True
  then show ?thesis by (simp add: resolve_def resolve_unshadowed_def)
next
  case False
  have "\<not> shadowed (vf_overlay v) (parent_str (as_str p))" if vis: "lookup v p \<noteq> None" "p \<noteq> root"
  proof
    assume "shadowed (vf_overlay v) (parent_str (as_str p))"
    then obtain a where a: "vpath_ok a" "is_within (parent_of p) a" "blocks (map_of (vf_overlay v) a)"
      using shadowed_iff[OF parent_of_ok[OF assms(2) vis(2)]] by auto
    have "is_within p a" using is_within_cases[OF assms(2) a(1)] a(2) vis(2) by simp
    moreover have "p \<noteq> a"
      using a(2) vis(2) assms(2) within_parent_of[of p] is_within_antisym[of p "parent_of p"]
        parent_of_ok[of p] by (auto simp: strictly_in_def)
    ultimately have "is_dir (lookup v a)" using tree_ancestor[OF assms(1) vis(1) a(1)] by blast
    then show False using a(3)
      by (auto simp: blocks_def resolve_unshadowed_def split: option.splits overlay_entry.splits)
  qed
  then show ?thesis using False
    by (cases "lookup v p") (auto simp: resolve_def is_root_iff)
qed

section \<open>Children\<close>

lemma merge_keys_sorted:
  assumes "sorted_wrt (<) ls" "sorted_wrt (<) rs"
  shows "sorted_wrt (<) (merge_keys ls rs)" "set (merge_keys ls rs) = set ls \<union> set rs"
proof -
  show set: "set (merge_keys ls rs) = set ls \<union> set rs" for ls rs
    by (induction ls rs rule: merge_keys.induct) auto
  show "sorted_wrt (<) (merge_keys ls rs)"
    using assms
    by (induction ls rs rule: merge_keys.induct) (auto simp: set intro: less_trans)
qed

lemma parent_of_prefix:
  assumes "vpath_ok c" "c \<noteq> root"
  shows "parent_of c = p \<longleftrightarrow>
    (\<exists>name. as_str c = dir_prefix p @ name \<and> slash \<notin> set name) \<and> vpath_ok p"
proof (cases "rsplit_once slash (as_str c)")
  case None
  then have "slash \<notin> set (as_str c)" by (simp add: rsplit_once_None_iff)
  moreover have "parent_of c = root" using None by (simp add: parent_of_def parent_str_def root_def)
  ultimately show ?thesis using parent_of_ok[OF assms]
    by (auto simp: dir_prefix_def is_root_iff)
next
  case (Some lr)
  obtain l r where lr: "lr = (l, r)" by (cases lr)
  have split: "as_str c = l @ slash # r" "slash \<notin> set r"
    using rsplit_once_Some Some lr by (metis)+
  have par: "parent_of c = VPath l" using Some lr by (simp add: parent_of_def parent_str_def)
  have nonroot: "VPath l \<noteq> root"
    using components_parent_of[OF assms] components_split[OF assms(2)] split
    by (auto simp: par split_on_append split_on_free_id butlast_append) (metis split_on_not_Nil)
  show ?thesis
  proof
    assume "parent_of c = p"
    then show "(\<exists>name. as_str c = dir_prefix p @ name \<and> slash \<notin> set name) \<and> vpath_ok p"
      using parent_of_ok[OF assms] par split nonroot by (auto simp: dir_prefix_def is_root_iff)
  next
    assume "(\<exists>name. as_str c = dir_prefix p @ name \<and> slash \<notin> set name) \<and> vpath_ok p"
    then obtain name where n: "as_str c = dir_prefix p @ name" "slash \<notin> set name" by blast
    have "p \<noteq> root"
    proof
      assume "p = root"
      then show False using n split by (simp add: dir_prefix_def) (metis in_set_conv_decomp)
    qed
    then have "as_str c = as_str p @ slash # name" using n by (simp add: dir_prefix_def is_root_iff)
    then show "parent_of c = p"
      using rsplit_once_append[OF n(2), of "as_str p"] by (simp add: parent_of_def parent_str_def)
  qed
qed

lemma visible_children_tree:
  assumes snap: "snap_ok (vf_base v)" and ov: "bt_ok (vf_overlay v)"
    and keys: "\<forall>p \<in> fst ` set (vf_overlay v). vpath_ok p \<and> p \<noteq> root"
    and tree: "tree (lookup v)" and p: "vpath_ok p"
  shows "sorted_wrt (<) (visible_children v p)"
    "set (visible_children v p) = {c. lookup v c \<noteq> None \<and> c \<noteq> root \<and> parent_of c = p}"
proof -
  let ?base = "direct_children (vf_base v) p" and ?over = "overlay_children v p"
  have base: "?base = filter (\<lambda>c. c \<noteq> root \<and> parent_of c = p) (bt_keys (bs_nodes (vf_base v)))"
    using snap by (simp add: snap_ok_def)
  then have sorted_base: "sorted_wrt (<) ?base"
    using snap by (simp add: snap_ok_def bt_ok_def sorted_wrt_filter)
  have over: "?over = filter (\<lambda>c. slash \<notin> set (drop (length (dir_prefix p)) (as_str c)) \<and>
      prefix (dir_prefix p) (as_str c)) (bt_keys (vf_overlay v))"
    by (simp add: overlay_children_def Let_def prefix_range_filter[OF bt_ok_strings[OF ov]] conj_commute)
  then have sorted_over: "sorted_wrt (<) ?over"
    using ov by (simp add: bt_ok_def sorted_wrt_filter)
  have set_over: "c \<in> set ?over \<longleftrightarrow> c \<in> fst ` set (vf_overlay v) \<and> parent_of c = p" for c
  proof (cases "c \<in> fst ` set (vf_overlay v)")
    case True
    then have "parent_of c = p \<longleftrightarrow> (\<exists>name. as_str c = dir_prefix p @ name \<and> slash \<notin> set name)"
      using parent_of_prefix[of c p] keys p by blast
    then show ?thesis using True by (auto simp: over prefix_def)
  qed (auto simp: over)
  note vis = lookup_keys[of v]
  show "sorted_wrt (<) (visible_children v p)"
    using sorted_base merge_keys_sorted(1)[OF sorted_base sorted_over]
    by (simp add: visible_children_def sorted_wrt_filter)
  show "set (visible_children v p) = {c. lookup v c \<noteq> None \<and> c \<noteq> root \<and> parent_of c = p}"
  proof (cases "vf_overlay v = []")
    case True
    then show ?thesis using base
      by (auto simp: visible_children_def resolve_unshadowed_def base_node_def map_of_eq_None_iff)
  next
    case False
    have mk: "c \<in> set (merge_keys ?base ?over) \<longleftrightarrow> c \<noteq> root \<and> parent_of c = p \<and>
        (c \<in> fst ` set (vf_overlay v) \<or> c \<in> fst ` set (bs_nodes (vf_base v)))" for c
    proof -
      have b: "c \<in> set ?base \<longleftrightarrow> c \<noteq> root \<and> parent_of c = p \<and> c \<in> fst ` set (bs_nodes (vf_base v))"
        by (subst base) auto
      have "c \<in> fst ` set (vf_overlay v) \<Longrightarrow> c \<noteq> root" using keys by blast
      then show ?thesis
        unfolding merge_keys_sorted(2)[OF sorted_base sorted_over] Un_iff b set_over by metis
    qed
    have "set (filter (\<lambda>c. lookup v c \<noteq> None) (merge_keys ?base ?over)) =
        {c. lookup v c \<noteq> None \<and> c \<noteq> root \<and> parent_of c = p}"
      unfolding set_filter mk using vis by blast
    moreover have "(case resolve v p of Some r \<Rightarrow> kind (state_of (res_node r)) = Directory | None \<Rightarrow> False)
        \<longleftrightarrow> is_dir (lookup v p)" by (simp add: resolve_lookup[OF tree p] is_dir_def)
    moreover have "lookup v c = None" if "\<not> is_dir (lookup v p)" "c \<noteq> root" "parent_of c = p" for c
      using tree_parent[OF tree, of c] that by blast
    ultimately show ?thesis using False by (auto simp: visible_children_def)
  qed
qed

section \<open>Subtrees\<close>

lemma strictly_in_less:
  assumes "vpath_ok p" "vpath_ok a" "a \<noteq> root" "strictly_in p a" shows "a < p"
proof -
  have "prefix (as_str a @ ''/'') (as_str p)"
    using dir_prefix_iff[OF assms(1,2)] assms(3,4) by (simp add: dir_prefix_def is_root_iff)
  then obtain r where "as_str p = as_str a @ ''/'' @ r" by (auto simp: prefix_def)
  then have "as_str a \<le> as_str p" "as_str a \<noteq> as_str p"
    using prefix_imp_le[of "as_str a" "as_str p"] by auto
  then show ?thesis by (simp add: less_vpath_def)
qed

lemma sorted_subtree_keys:
  assumes "bt_ok m" "\<forall>p \<in> fst ` set m. vpath_ok p" "vpath_ok r" "r \<noteq> root"
  shows "sorted_wrt (<) (subtree_keys m r)"
proof -
  let ?t = "filter (\<lambda>p. p \<noteq> r) (prefix_range (dir_prefix r) (bt_keys m))"
  have "sorted_wrt (<) (filter (\<lambda>p. p \<noteq> r) (subtree_keys m r))"
    by (rule subtree_keys_sorted(2)[OF assms(1)])
  then have t: "sorted_wrt (<) ?t" by (simp add: subtree_keys_def split: if_splits)
  have "q \<in> fst ` set m" "is_within q r" if "q \<in> set ?t" for q
  proof -
    have "q \<in> set (subtree_keys m r)" using that by (simp add: subtree_keys_def)
    then show "q \<in> fst ` set m" "is_within q r" using set_subtree_keys[OF assms(1-3)] by auto
  qed
  then have "r < q" if "q \<in> set ?t" for q
    using strictly_in_less[of q r] that assms(2-4) by (auto simp: strictly_in_def)
  with t show ?thesis by (auto simp: subtree_keys_def)
qed

lemma subtree_candidates_tree:
  assumes snap: "snap_ok (vf_base v)" and ov: "bt_ok (vf_overlay v)"
    and keys: "\<forall>p \<in> fst ` set (vf_overlay v). vpath_ok p \<and> p \<noteq> root"
    and p: "vpath_ok p" "p \<noteq> root"
  shows "sorted_wrt (<) (subtree_candidates v p)"
    "set (subtree_candidates v p) =
      {q. is_within q p \<and> (q \<in> fst ` set (vf_overlay v) \<or> q \<in> fst ` set (bs_nodes (vf_base v)))}"
    "{q. is_within q p \<and> lookup v q \<noteq> None} \<subseteq> set (subtree_candidates v p)"
proof -
  have base: "bt_ok (bs_nodes (vf_base v))" "\<forall>p \<in> fst ` set (bs_nodes (vf_base v)). vpath_ok p"
    using snap by (auto simp: snap_ok_def list_all_iff)
  have okeys: "\<forall>p \<in> fst ` set (vf_overlay v). vpath_ok p" using keys by blast
  note sorted = sorted_subtree_keys[OF base p] sorted_subtree_keys[OF ov okeys p]
  show "sorted_wrt (<) (subtree_candidates v p)"
    unfolding subtree_candidates_def by (rule merge_keys_sorted(1)[OF sorted])
  show set: "set (subtree_candidates v p) =
      {q. is_within q p \<and> (q \<in> fst ` set (vf_overlay v) \<or> q \<in> fst ` set (bs_nodes (vf_base v)))}"
    unfolding subtree_candidates_def merge_keys_sorted(2)[OF sorted]
      set_subtree_keys[OF base p(1)] set_subtree_keys[OF ov okeys p(1)] by blast
  show "{q. is_within q p \<and> lookup v q \<noteq> None} \<subseteq> set (subtree_candidates v p)"
    unfolding set using lookup_keys by blast
qed

lemma collect_subtree_Inr:
  "collect_subtree env v probe buf acc cs = Inr nodes \<Longrightarrow>
   nodes = acc @ map (\<lambda>c. (c, the (resolve v c))) (filter (\<lambda>c. resolve v c \<noteq> None) cs)"
proof (induction cs arbitrary: probe buf acc)
  case (Cons c cs)
  show ?case
  proof (cases "resolve v c")
    case None
    then show ?thesis using Cons by simp
  next
    case (Some r)
    with Cons.prems obtain n where n: "(case ev_reserve_buffer buf n probe of
        (Inl f, _) \<Rightarrow> Err f
      | (Inr buf', probe') \<Rightarrow> bindR (grow_bounded env (length acc)) (\<lambda>_.
          collect_subtree env v probe' buf' (acc @ [(c, r)]) cs)) = Inr nodes"
      by (simp only: collect_subtree.simps option.case bindR_Inr_iff) blast
    obtain x probe' where x: "ev_reserve_buffer buf n probe = (x, probe')" by fastforce
    with n obtain buf' where "collect_subtree env v probe' buf' (acc @ [(c, r)]) cs = Inr nodes"
      by (cases x) (auto simp: bindR_Inr_iff)
    from Cons.IH[OF this] Some show ?thesis by simp
  qed
qed simp

text \<open>What \<open>visible_subtree\<close> returns: the visible nodes of the subtree, parents first.\<close>

definition subtree_of :: "files \<Rightarrow> vpath \<Rightarrow> (vpath \<times> resolved_node) list \<Rightarrow> bool" where
  "subtree_of m p nodes \<longleftrightarrow> sorted_wrt (<) (map fst nodes) \<and>
     (\<forall>q r. (q, r) \<in> set nodes \<longleftrightarrow> is_within q p \<and> m q = Some r)"

lemma visible_subtree_Inr:
  assumes "visible_subtree env p v = (Inr nodes, t)"
    and snap: "snap_ok (vf_base v)" and ov: "bt_ok (vf_overlay v)"
    and keys: "\<forall>p \<in> fst ` set (vf_overlay v). vpath_ok p \<and> p \<noteq> root"
    and tree: "tree (lookup v)" and p: "vpath_ok p" "p \<noteq> root"
  shows "t = v" "subtree_of (lookup v) p nodes"
proof -
  note cand = subtree_candidates_tree[OF snap ov keys p]
  have res: "resolve v q = lookup v q" if "q \<in> set (subtree_candidates v p)" for q
    using that cand(2) keys snap resolve_lookup[OF tree]
    by (auto simp: snap_ok_def list_all_iff)
  have "t = v" and n: "collect_subtree env v (vf_evidence v) 0 [] (subtree_candidates v p) = Inr nodes"
    using assms(1) by (auto simp: visible_subtree_def stop_evidence_def split: sum.splits prod.splits)
  then show "t = v" by simp
  have nodes: "nodes = map (\<lambda>c. (c, the (lookup v c))) (filter (\<lambda>c. lookup v c \<noteq> None) (subtree_candidates v p))"
    using collect_subtree_Inr[OF n] res by (simp cong: filter_cong)
  have fst: "map fst nodes = filter (\<lambda>c. lookup v c \<noteq> None) (subtree_candidates v p)"
    by (simp add: nodes comp_def)
  have "(q, r) \<in> set nodes \<longleftrightarrow> is_within q p \<and> lookup v q = Some r" for q r
    using cand(2,3) by (auto simp: nodes image_iff)
  then show "subtree_of (lookup v) p nodes"
    using cand(1) by (simp add: subtree_of_def fst sorted_wrt_filter)
qed

end
