(* ===== verification/VfsInv.thy ===== *)
theory VfsInv
  imports VfsTree Wp
begin

text \<open>
  The invariant of a virtual transaction and the operations that only keep its books: evidence,
  observations, write preconditions and effects.  They leave the files alone (\<open>books\<close>), fail only
  with the evidence budget, and record every expectation as the state of the base.
\<close>

lemma lookup_updates [simp]:
  "lookup (v\<lparr>vf_evidence := b\<rparr>) = lookup v"
  "lookup (v\<lparr>vf_read_set := rs\<rparr>) = lookup v"
  "lookup (v\<lparr>vf_write_set := ws\<rparr>) = lookup v"
  "lookup (v\<lparr>vf_effects := es\<rparr>) = lookup v"
  "lookup (v\<lparr>vf_sequence := n\<rparr>) = lookup v"
  "lookup (v\<lparr>vf_world := w\<rparr>) = lookup v"
  by (rule lookup_cong; simp)+

lemma base_updates [simp]:
  "base_node (v\<lparr>vf_evidence := b\<rparr>) = base_node v"
  "base_node (v\<lparr>vf_read_set := rs\<rparr>) = base_node v"
  "base_node (v\<lparr>vf_write_set := ws\<rparr>) = base_node v"
  "base_node (v\<lparr>vf_effects := es\<rparr>) = base_node v"
  "base_node (v\<lparr>vf_sequence := n\<rparr>) = base_node v"
  "base_node (v\<lparr>vf_world := w\<rparr>) = base_node v"
  "base_node (v\<lparr>vf_overlay := ov\<rparr>) = base_node v"
  by (simp_all add: base_node_def fun_eq_iff)

section \<open>The invariant\<close>

definition obs_sound :: "environment \<Rightarrow> virtual_fs \<Rightarrow> bool" where
  "obs_sound env v \<longleftrightarrow> (\<forall>p e. map_of (vf_read_set v) p = Some e \<longrightarrow>
     (\<forall>m. obs_metadata e = Some m \<longrightarrow> m = base_expected v p) \<and>
     (\<forall>d. obs_directory e = Some d \<longrightarrow>
        d = the_digest (directory_digest (env_blake3 env) (vf_base v) p)))"

definition writes_sound :: "virtual_fs \<Rightarrow> bool" where
  "writes_sound v \<longleftrightarrow> (\<forall>p w. map_of (vf_write_set v) p = Some w \<longrightarrow>
     vpath_ok p \<and> p \<noteq> root \<and> wp_expected w = base_expected v p \<and> has_metadata v (parent_of p))"

definition overlay_recorded :: "virtual_fs \<Rightarrow> bool" where
  "overlay_recorded v \<longleftrightarrow> (\<forall>p \<in> fst ` set (vf_overlay v). bt_contains (vf_write_set v) p)"

definition events_ok :: "virtual_fs \<Rightarrow> bool" where
  "events_ok v \<longleftrightarrow> vf_sequence v = of_nat (length (vf_effects v)) \<and>
     (\<forall>i < length (vf_effects v). ev_sequence (vf_effects v ! i) = of_nat i)"

definition vfs_inv :: "environment \<Rightarrow> virtual_fs \<Rightarrow> bool" where
  "vfs_inv env v \<longleftrightarrow> snap_ok (vf_base v) \<and>
     bt_ok (vf_overlay v) \<and> bt_ok (vf_read_set v) \<and> bt_ok (vf_write_set v) \<and>
     tree (lookup v) \<and> obs_sound env v \<and> writes_sound v \<and> overlay_recorded v \<and>
     events_ok v \<and> ev_ok (vf_evidence v)"

lemma vfs_inv_new: "snap_ok b \<Longrightarrow> vfs_inv env (vfs_new b w)"
  by (simp add: vfs_inv_def lookup_new)
     (simp add: vfs_new_def obs_sound_def writes_sound_def overlay_recorded_def events_ok_def ev_ok_default)

lemma vfs_inv_keys: "vfs_inv env v \<Longrightarrow> \<forall>p \<in> fst ` set (vf_overlay v). vpath_ok p \<and> p \<noteq> root"
  by (fastforce simp: vfs_inv_def overlay_recorded_def writes_sound_def bt_contains_def)

lemma vfs_inv_resolve: "vfs_inv env v \<Longrightarrow> vpath_ok p \<Longrightarrow> resolve v p = lookup v p"
  by (simp add: vfs_inv_def resolve_lookup)

lemma vfs_inv_children:
  assumes "vfs_inv env v" "vpath_ok p"
  shows "sorted_wrt (<) (visible_children v p)"
    "set (visible_children v p) = {c. lookup v c \<noteq> None \<and> c \<noteq> root \<and> parent_of c = p}"
  using visible_children_tree[of v p] assms vfs_inv_keys[OF assms(1)] by (auto simp: vfs_inv_def)

lemma vfs_inv_subtree:
  assumes "vfs_inv env v" "vpath_ok p" "p \<noteq> root" "visible_subtree env' p v = (Inr nodes, t)"
  shows "t = v" "subtree_of (lookup v) p nodes"
  using visible_subtree_Inr[OF assms(4)] assms vfs_inv_keys[OF assms(1)] by (auto simp: vfs_inv_def)

text \<open>How a transaction moves on: the base stays, evidence and records only grow.\<close>

definition fs_advances :: "virtual_fs \<Rightarrow> virtual_fs \<Rightarrow> bool" where
  "fs_advances v t \<longleftrightarrow> vf_base t = vf_base v \<and> ev_grows (vf_evidence v) (vf_evidence t) \<and>
     prefix (vf_effects v) (vf_effects t) \<and>
     (\<forall>p. has_metadata v p \<longrightarrow> has_metadata t p) \<and>
     (\<forall>p. bt_contains (vf_write_set v) p \<longrightarrow> bt_contains (vf_write_set t) p)"

definition books :: "environment \<Rightarrow> virtual_fs \<Rightarrow> virtual_fs \<Rightarrow> bool" where
  "books env v t \<longleftrightarrow> vfs_inv env t \<and> fs_advances v t \<and>
     vf_overlay t = vf_overlay v \<and> vf_world t = vf_world v"

definition ev_fail :: "vfs_error \<Rightarrow> virtual_fs \<Rightarrow> bool" where
  "ev_fail e t \<longleftrightarrow> (\<exists>f. e = EvidenceLimit f \<and> ev_failure (vf_evidence t) = Some f)"

lemma fs_advances_refl [simp]: "fs_advances v v"
  by (simp add: fs_advances_def)

lemma fs_advances_trans: "fs_advances u v \<Longrightarrow> fs_advances v w \<Longrightarrow> fs_advances u w"
  by (auto simp: fs_advances_def intro: ev_grows_trans)

lemma books_refl: "vfs_inv env v \<Longrightarrow> books env v v"
  by (simp add: books_def)

lemma books_trans: "books env u v \<Longrightarrow> books env v w \<Longrightarrow> books env u w"
  by (auto simp: books_def intro: fs_advances_trans)

lemma books_inv: "books env v t \<Longrightarrow> vfs_inv env t"
  by (simp add: books_def)

lemma books_lookup: "books env v t \<Longrightarrow> lookup t = lookup v"
  unfolding books_def fs_advances_def by (blast intro: lookup_cong)

lemma books_base: "books env v t \<Longrightarrow> base_node t = base_node v \<and> vf_base t = vf_base v"
  by (simp add: books_def fs_advances_def base_node_def fun_eq_iff)

lemma books_resolve: "books env v t \<Longrightarrow> vfs_inv env v \<Longrightarrow> vpath_ok p \<Longrightarrow> resolve t p = resolve v p"
  by (metis books_inv books_lookup vfs_inv_resolve)

lemma books_state: "books env v t \<Longrightarrow> current_state t r = current_state v r"
  by (simp add: books_def current_state_def)

lemma books_children: "books env v t \<Longrightarrow> vfs_inv env v \<Longrightarrow> vpath_ok p \<Longrightarrow>
    visible_children t p = visible_children v p"
  using vfs_inv_children[of env v p] vfs_inv_children[of env t p]
  by (metis books_inv books_lookup strict_sorted_equal)

section \<open>Evidence\<close>

lemma books_evidence:
  "vfs_inv env v \<Longrightarrow> ev_grows (vf_evidence v) b \<Longrightarrow> ev_ok b \<Longrightarrow> books env v (v\<lparr>vf_evidence := b\<rparr>)"
  by (simp add: books_def vfs_inv_def fs_advances_def obs_sound_def writes_sound_def overlay_recorded_def
      events_ok_def has_metadata_def base_expected_def)

lemma wp_check: "wp check_evidence (\<lambda>_ t. t = v) (\<lambda>e t. t = v \<and> ev_fail e v) v"
  by (auto simp: wp_def check_evidence_def ev_check_def ev_fail_def split: option.splits)

lemma wp_reserve:
  assumes "vfs_inv env v"
  shows "wp (on_evidence (ev_reserve rs bs))
    (\<lambda>_ t. books env v t \<and> (\<exists>b. t = v\<lparr>vf_evidence := b\<rparr>)) (\<lambda>e t. books env v t \<and> ev_fail e t) v"
proof -
  obtain r b where rb: "ev_reserve rs bs (vf_evidence v) = (r, b)" by fastforce
  have "books env v (v\<lparr>vf_evidence := b\<rparr>)"
    using books_evidence[OF assms] ev_reserve_grows[of "vf_evidence v"] ev_reserve_ok[of rs bs] rb
    by (metis snd_conv)
  moreover have "ev_failure b = Some f" if "r = Inl f" for f
    using ev_reserve_Inl rb that by blast
  ultimately show ?thesis using rb
    by (cases r) (auto simp: wp_def on_evidence_def ev_fail_def)
qed

lemma wp_reserve_books:
  "vfs_inv env v \<Longrightarrow> wp (on_evidence (ev_reserve rs bs))
    (\<lambda>_ t. books env v t) (\<lambda>e t. books env v t \<and> ev_fail e t) v"
  by (rule wp_mono[OF wp_reserve]) auto

lemma wp_stop:
  assumes "vfs_inv env v"
  shows "wp (stop_evidence f) (\<lambda>_ _. False) (\<lambda>e t. books env v t \<and> ev_fail e t) v"
proof -
  have "books env v (v\<lparr>vf_evidence := snd (ev_stop f (vf_evidence v))\<rparr>)"
    by (rule books_evidence[OF assms])
       (auto simp: ev_stop_def ev_grows_def ev_ok_def Let_def split: option.splits)
  then show ?thesis
    by (auto simp: wp_def stop_evidence_def ev_fail_def ev_stop_def Let_def)
qed

section \<open>Observations and preconditions\<close>

lemma books_read_set:
  assumes "vfs_inv env v" "e = (case map_of (vf_read_set v) p of Some x \<Rightarrow> x | None \<Rightarrow> empty_observation)"
    and "obs_metadata (f e) = obs_metadata e \<or>
      obs_metadata e = None \<and> obs_metadata (f e) = Some (base_expected v p)"
    and "obs_directory (f e) = obs_directory e \<or>
      obs_directory (f e) = Some (the_digest (directory_digest (env_blake3 env) (vf_base v) p))"
  shows "books env v (v\<lparr>vf_read_set := bt_insert p (f e) (vf_read_set v)\<rparr>)" (is "books env v ?t")
proof -
  have old: "obs_sound env v" "writes_sound v" using assms(1) by (auto simp: vfs_inv_def)
  have meta: "has_metadata v q \<Longrightarrow> has_metadata ?t q" for q
    using assms(2,3) by (auto simp: has_metadata_def split: option.splits)
  have exp: "base_expected ?t = base_expected v" by (simp add: base_expected_def fun_eq_iff)
  have e: "\<forall>m. obs_metadata e = Some m \<longrightarrow> m = base_expected v p"
    "\<forall>d. obs_directory e = Some d \<longrightarrow> d = the_digest (directory_digest (env_blake3 env) (vf_base v) p)"
    using old(1) assms(2) by (auto simp: obs_sound_def empty_observation_def split: option.splits)
  have "obs_sound env ?t"
    unfolding obs_sound_def exp
  proof (intro allI impI)
    fix q x assume q: "map_of (vf_read_set ?t) q = Some x"
    show "(\<forall>m. obs_metadata x = Some m \<longrightarrow> m = base_expected v q) \<and>
      (\<forall>d. obs_directory x = Some d \<longrightarrow>
        d = the_digest (directory_digest (env_blake3 env) (vf_base ?t) q))"
    proof (cases "q = p")
      case True
      then have "x = f e" using q by simp
      then show ?thesis using e assms(3,4) True by auto
    next
      case False
      then show ?thesis using q old(1) by (auto simp: obs_sound_def)
    qed
  qed
  moreover have "writes_sound ?t"
    using old(2) meta unfolding writes_sound_def exp by simp
  ultimately show ?thesis
    using assms(1) meta
    by (simp add: books_def vfs_inv_def fs_advances_def overlay_recorded_def events_ok_def)
qed

lemma wp_update_read:
  assumes "vfs_inv env v"
    and "\<And>e. obs_metadata (f e) = obs_metadata e \<or>
      obs_metadata e = None \<and> obs_metadata (f e) = Some (base_expected v p)"
    and "\<And>e. obs_directory (f e) = obs_directory e \<or>
      obs_directory (f e) = Some (the_digest (directory_digest (env_blake3 env) (vf_base v) p))"
  shows "wp (update_read_entry env p f)
    (\<lambda>_ t. books env v t \<and> (\<exists>e. map_of (vf_read_set t) p = Some (f e)))
    (\<lambda>e t. books env v t \<and> ev_fail e t) v"
proof -
  have "wp (case map_of (vf_read_set v) p of
      None \<Rightarrow> bindS (on_evidence (ev_reserve 1
             (accounted_bytes (2 * sz_read env + 12 * sz_usize env) [p] 1))) (\<lambda>_.
           modifyS (\<lambda>v. v\<lparr>vf_read_set := bt_insert p (f empty_observation) (vf_read_set v)\<rparr>))
    | Some o1 \<Rightarrow> modifyS (\<lambda>v. v\<lparr>vf_read_set := bt_insert p (f o1) (vf_read_set v)\<rparr>))
    (\<lambda>_ t. books env v t \<and> (\<exists>e. map_of (vf_read_set t) p = Some (f e)))
    (\<lambda>e t. books env v t \<and> ev_fail e t) v"
  proof (cases "map_of (vf_read_set v) p")
    case (Some o1)
    have "books env v (v\<lparr>vf_read_set := bt_insert p (f o1) (vf_read_set v)\<rparr>)"
      by (rule books_read_set[OF assms(1) _ assms(2,3)]) (simp add: Some)
    then show ?thesis by (auto simp: Some wp_simps)
  next
    case None
    have ins: "books env v (t\<lparr>vf_read_set := bt_insert p (f empty_observation) (vf_read_set t)\<rparr>)"
      if t: "books env v t" "\<exists>b. t = v\<lparr>vf_evidence := b\<rparr>" for t
    proof -
      have "vf_base t = vf_base v" "base_expected t = base_expected v" "map_of (vf_read_set t) p = None"
        using t(2) None by (auto simp: base_expected_def fun_eq_iff)
      then have "books env t (t\<lparr>vf_read_set := bt_insert p (f empty_observation) (vf_read_set t)\<rparr>)"
        using books_read_set[OF books_inv[OF t(1)], of empty_observation p f] assms(2,3) by simp
      then show ?thesis using books_trans[OF t(1)] by blast
    qed
    show ?thesis
      unfolding None option.case wp_simps
      by (rule wp_use[OF wp_reserve[OF assms(1)]]) (use ins in auto)
  qed
  then show ?thesis
    unfolding update_read_entry_def wp_simps
    by (intro wp_use[OF wp_check]) (use books_refl[OF assms(1)] in \<open>simp_all add: wp_simps\<close>)
qed

lemma wp_record_metadata:
  assumes "vfs_inv env v"
  shows "wp (record_metadata env p) (\<lambda>_ t. books env v t \<and> has_metadata t p)
    (\<lambda>e t. books env v t \<and> ev_fail e t) v"
proof -
  have "wp (update_read_entry env p
         (\<lambda>e. e\<lparr>obs_metadata := get_or_insert (base_expected v p) (obs_metadata e)\<rparr>))
     (\<lambda>_ t. books env v t \<and> has_metadata t p) (\<lambda>e t. books env v t \<and> ev_fail e t) v"
    by (rule wp_use[OF wp_update_read[OF assms]])
       (auto simp: get_or_insert_def has_metadata_def split: option.splits)
  then show ?thesis
    unfolding record_metadata_def wp_simps
    by (intro wp_use[OF wp_check])
       (use books_refl[OF assms] in \<open>auto simp: wp_simps\<close>)
qed

lemma books_write_set:
  assumes "vfs_inv env v" "vpath_ok p" "p \<noteq> root" "has_metadata v (parent_of p)"
  shows "books env v (v\<lparr>vf_write_set :=
    bt_insert p \<lparr>wp_expected = base_expected v p\<rparr> (vf_write_set v)\<rparr>)" (is "books env v ?t")
proof -
  have exp: "base_expected ?t = base_expected v" by (simp add: base_expected_def fun_eq_iff)
  have meta: "has_metadata ?t q = has_metadata v q" for q by (simp add: has_metadata_def)
  have "writes_sound v" "obs_sound env v" using assms(1) by (auto simp: vfs_inv_def)
  then have "writes_sound ?t" "obs_sound env ?t"
    unfolding writes_sound_def obs_sound_def exp meta using assms(2-) by (auto split: if_splits)
  then show ?thesis
    using assms(1)
    by (simp add: books_def vfs_inv_def fs_advances_def overlay_recorded_def events_ok_def meta)
qed

lemma wp_record_write:
  assumes "vfs_inv env v" "vpath_ok p" "p \<noteq> root"
  shows "wp (record_write env p) (\<lambda>_ t. books env v t \<and> bt_contains (vf_write_set t) p)
    (\<lambda>e t. books env v t \<and> ev_fail e t) v"
proof -
  let ?Q = "\<lambda>_ t. books env v t \<and> bt_contains (vf_write_set t) p"
  let ?E = "\<lambda>e t. books env v t \<and> ev_fail e t"
  have par: "VPath (parent_str (as_str p)) = parent_of p" by (simp add: parent_of_def)
  have insert: "wp (if bt_contains (vf_write_set t) p then returnS () else
       bindS (on_evidence (ev_reserve 1 n)) (\<lambda>_.
       modifyS (\<lambda>v. v\<lparr>vf_write_set :=
         bt_insert p \<lparr>wp_expected = base_expected v p\<rparr> (vf_write_set v)\<rparr>))) ?Q ?E t"
    if t: "books env v t" "has_metadata t (parent_of p)" for t n
  proof -
    have "books env v (u\<lparr>vf_write_set :=
         bt_insert p \<lparr>wp_expected = base_expected u p\<rparr> (vf_write_set u)\<rparr>)"
      if u: "books env t u" for u
    proof -
      have "has_metadata u (parent_of p)" using u t(2) by (simp add: books_def fs_advances_def)
      then show ?thesis
        using books_write_set[OF books_inv[OF u] assms(2,3)] books_trans[OF books_trans[OF t(1) u]] by blast
    qed
    then show ?thesis
      using t(1) books_trans[OF t(1)]
      by (auto simp: wp_simps intro!: wp_use[OF wp_reserve_books[OF books_inv[OF t(1)]]])
  qed
  have head: "wp (if missing then record_metadata env (parent_of p) else returnS ())
      (\<lambda>_ t. books env v t \<and> has_metadata t (parent_of p)) ?E v"
    if "missing \<longleftrightarrow> \<not> is_root p \<and> \<not> has_metadata v (parent_of p)" for missing
    using wp_record_metadata[OF assms(1), of "parent_of p"] that assms(3) books_refl[OF assms(1)]
    by (simp add: wp_simps is_root_iff)
  show ?thesis
    unfolding record_write_def par wp_bindS wp_basic
  proof (rule wp_use[OF wp_check], intro allI impI, elim subst[OF sym])
    show "wp (if \<not> is_root p \<and> \<not> has_metadata v (parent_of p)
        then record_metadata env (parent_of p) else returnS ())
      (\<lambda>_ t. wp (if bt_contains (vf_write_set t) p then returnS () else
        bindS (on_evidence (ev_reserve 1 (accounted_bytes
          (2 * sz_write env + 2 * sz_overlay env + sz_node env + 24 * sz_usize env) [p] 2))) (\<lambda>_.
        modifyS (\<lambda>v. v\<lparr>vf_write_set :=
          bt_insert p \<lparr>wp_expected = base_expected v p\<rparr> (vf_write_set v)\<rparr>))) ?Q ?E t) ?E v"
      by (rule wp_mono[OF head[OF refl]]) (use insert in blast)+
  qed (use books_refl[OF assms(1)] in blast)
qed

lemma wp_push_effect:
  assumes "vfs_inv env v"
  shows "wp (push_effect env ps ef)
    (\<lambda>_ t. books env v t \<and> (\<exists>ev. vf_effects t = vf_effects v @ [ev] \<and> ev_effect ev = ef))
    (\<lambda>e t. books env v t \<and> ev_fail e t) v"
proof -
  have push: "books env v (t\<lparr>vf_sequence := vf_sequence t + 1, vf_effects := vf_effects t @
      [\<lparr>ev_sequence = vf_sequence t, ev_origin = vf_origin t, ev_effect = ef\<rparr>]\<rparr>)" (is "books env v ?u")
    if t: "books env v t" for t
  proof -
    have "base_expected ?u = base_expected t" "\<And>q. has_metadata ?u q = has_metadata t q"
      by (simp_all add: base_expected_def has_metadata_def fun_eq_iff)
    moreover have "events_ok ?u"
      using books_inv[OF t] by (auto simp: vfs_inv_def events_ok_def nth_append less_Suc_eq)
    ultimately have "books env t ?u"
      using books_inv[OF t]
      by (simp add: books_def vfs_inv_def fs_advances_def obs_sound_def writes_sound_def overlay_recorded_def)
    then show ?thesis using books_trans[OF t] by blast
  qed
  show ?thesis
    unfolding push_effect_def wp_bindS wp_basic
  proof (rule wp_use[OF wp_reserve[OF assms]], intro allI impI, elim conjE exE)
    fix x t b assume t: "books env v t" "t = v\<lparr>vf_evidence := b\<rparr>"
    then have "vf_effects t = vf_effects v" by simp
    with push[OF t(1)] wp_stop[OF books_inv[OF t(1)]] books_trans[OF t(1)]
    show "wp (case grow_bounded env (length (vf_effects t)) of Inl f \<Rightarrow> stop_evidence f
         | Inr _ \<Rightarrow> modifyS (\<lambda>v. v\<lparr>vf_sequence := vf_sequence v + 1, vf_effects := vf_effects v @
             [\<lparr>ev_sequence = vf_sequence v, ev_origin = vf_origin v, ev_effect = ef\<rparr>]\<rparr>))
        (\<lambda>_ t. books env v t \<and> (\<exists>ev. vf_effects t = vf_effects v @ [ev] \<and> ev_effect ev = ef))
        (\<lambda>e t. books env v t \<and> ev_fail e t) t"
      by (auto simp: wp_simps grow_bounded_def intro: wp_mono)
  qed simp
qed

end
