(* ===== verification/VfsOps.thy ===== *)
theory VfsOps
  imports VfsInv
begin

text \<open>
  Every operation of the virtual filesystem against the tree it works on: what it returns, how it
  changes \<open>lookup\<close>, and that an error leaves the files as they were or stops the transaction
  through its evidence budget.
\<close>

section \<open>Exits\<close>

definition quiet :: "environment \<Rightarrow> virtual_fs \<Rightarrow> virtual_fs \<Rightarrow> bool" where
  "quiet env v t \<longleftrightarrow> vfs_inv env t \<and> fs_advances v t \<and> vf_overlay t = vf_overlay v"

definition clean_error :: "environment \<Rightarrow> virtual_fs \<Rightarrow> vfs_error \<Rightarrow> virtual_fs \<Rightarrow> bool" where
  "clean_error env v e t \<longleftrightarrow>
     vfs_inv env t \<and> fs_advances v t \<and> (lookup t = lookup v \<or> ev_fail e t)"

lemma quiet_refl: "vfs_inv env v \<Longrightarrow> quiet env v v"
  by (simp add: quiet_def)

lemma quiet_books: "books env v t \<Longrightarrow> quiet env v t"
  by (simp add: quiet_def books_def)

lemma quiet_trans: "quiet env u v \<Longrightarrow> quiet env v w \<Longrightarrow> quiet env u w"
  by (auto simp: quiet_def intro: fs_advances_trans)

lemma quiet_inv: "quiet env v t \<Longrightarrow> vfs_inv env t"
  by (simp add: quiet_def)

lemma quiet_lookup: "quiet env v t \<Longrightarrow> lookup t = lookup v"
  unfolding quiet_def fs_advances_def by (blast intro: lookup_cong)

lemma quiet_clean: "quiet env v t \<Longrightarrow> clean_error env v e t"
  using quiet_lookup[of env v t] by (simp add: clean_error_def quiet_def)

lemma books_clean: "quiet env u v \<Longrightarrow> books env v t \<Longrightarrow> clean_error env u e t"
  by (meson quiet_books quiet_clean quiet_trans)

lemma fs_advances_world: "fs_advances v t \<Longrightarrow> fs_advances v (t\<lparr>vf_world := w\<rparr>)"
  by (simp add: fs_advances_def has_metadata_def)

lemma vfs_inv_world [simp]: "vfs_inv env (v\<lparr>vf_world := w\<rparr>) = vfs_inv env v"
  by (simp add: vfs_inv_def obs_sound_def writes_sound_def overlay_recorded_def events_ok_def
      base_expected_def has_metadata_def)

lemma wp_in_world:
  assumes "vfs_inv env v"
  shows "wp (in_world f m)
    (\<lambda>x t. quiet env v t \<and> (\<exists>w. m (vf_world v) = (Inr x, w) \<and> t = v\<lparr>vf_world := w\<rparr>))
    (\<lambda>e t. quiet env v t \<and> (\<exists>x. e = f x)) v"
proof -
  have "quiet env v (v\<lparr>vf_world := w\<rparr>)" for w
    using assms by (simp add: quiet_def fs_advances_world)
  moreover obtain r w where "m (vf_world v) = (r, w)" by fastforce
  ultimately show ?thesis by (cases r) (auto simp: wp_def in_world_def)
qed

lemma kind_current_state [simp]: "kind (current_state v r) = kind (state_of (res_node r))"
  by (cases "kind (state_of (res_node r))")
     (auto simp: current_state_def node_state_in_def with_blob_def Option.bind_eq_Some_conv
      split: content_handle.splits option.splits)

section \<open>Guards\<close>

lemma wp_ensure_mutable:
  "wp (ensure_mutable p) Q E v \<longleftrightarrow> (if p = root then E RootMutation v else Q () v)"
  by (simp add: ensure_mutable_def wp_simps is_root_iff)

lemma wp_require_directory:
  assumes "vfs_inv env v" "vpath_ok p"
  shows "wp (require_directory env p)
    (\<lambda>st t. books env v t \<and> (\<exists>r. lookup v p = Some r \<and> kind (state_of (res_node r)) = Directory \<and>
       st = current_state v r))
    (\<lambda>e t. books env v t \<and> (ev_fail e t \<or> \<not> is_dir (lookup v p))) v"
  unfolding require_directory_def wp_bindS wp_basic
  by (rule wp_use[OF wp_record_metadata[OF assms(1)]])
     (auto simp: wp_simps books_resolve[OF _ assms] vfs_inv_resolve[OF assms] books_state
       split: option.splits)

lemma wp_require_parent:
  assumes "vfs_inv env v" "vpath_ok p" "p \<noteq> root"
  shows "wp (require_parent env p) (\<lambda>_ t. books env v t \<and> is_dir (lookup v (parent_of p)))
    (\<lambda>e t. books env v t \<and> (ev_fail e t \<or> \<not> is_dir (lookup v (parent_of p)))) v"
  using wp_require_directory[OF assms(1) parent_of_ok[OF assms(2,3)]]
  by (auto simp: require_parent_def parent_parent_of[OF assms(3)] wp_simps elim!: wp_mono)

section \<open>Committing one entry\<close>

lemma overlay_step:
  assumes "vfs_inv env v" "bt_contains (vf_write_set v) p"
    and "tree ((lookup v)(p := entry_node e))"
  shows "vfs_inv env (v\<lparr>vf_overlay := bt_insert p e (vf_overlay v)\<rparr>)"
    "fs_advances v (v\<lparr>vf_overlay := bt_insert p e (vf_overlay v)\<rparr>)"
  using assms
  by (simp_all add: vfs_inv_def obs_sound_def writes_sound_def overlay_recorded_def events_ok_def
      base_expected_def has_metadata_def fs_advances_def)

lemma wp_commit:
  assumes "quiet env u v" "vpath_ok p" "p \<noteq> root"
    and "tree ((lookup u)(p := entry_node e))"
  shows "wp (bindS (record_write env p) (\<lambda>_. bindS (overlay_insert p e) (\<lambda>_. push_effect env ps ef)))
    (\<lambda>_ t. vfs_inv env t \<and> fs_advances u t \<and> lookup t = (lookup u)(p := entry_node e) \<and>
      (\<exists>ev. ev_effect ev = ef \<and> ev \<in> set (vf_effects t)) \<and> vf_world t = vf_world v)
    (clean_error env u) v"
proof -
  have uv: "fs_advances u v" "lookup v = lookup u" "vfs_inv env v"
    using assms(1) quiet_lookup by (auto simp: quiet_def)
  have step: "wp (push_effect env ps ef)
    (\<lambda>_ t. vfs_inv env t \<and> fs_advances u t \<and> lookup t = (lookup u)(p := entry_node e) \<and>
      (\<exists>ev. ev_effect ev = ef \<and> ev \<in> set (vf_effects t)) \<and> vf_world t = vf_world v)
    (clean_error env u) (t\<lparr>vf_overlay := bt_insert p e (vf_overlay t)\<rparr>)"
    if t: "books env v t" "bt_contains (vf_write_set t) p" for t
  proof -
    let ?t = "t\<lparr>vf_overlay := bt_insert p e (vf_overlay t)\<rparr>"
    have look: "lookup t = lookup u" using books_lookup[OF t(1)] uv(2) by simp
    have ov: "vfs_inv env ?t" "fs_advances t ?t"
      using overlay_step[OF books_inv[OF t(1)] t(2)] assms(4) look by auto
    have ut: "fs_advances u ?t"
      using fs_advances_trans[OF uv(1) fs_advances_trans[OF _ ov(2)]] t(1) by (simp add: books_def)
    have fin: "vfs_inv env w \<and> fs_advances u w \<and> lookup w = (lookup u)(p := entry_node e) \<and>
        vf_world w = vf_world v"
      if "books env ?t w" for w
      using books_inv[OF that] books_lookup[OF that] look fs_advances_trans[OF ut] that t(1)
      by (simp add: books_def)
    show ?thesis
      by (rule wp_mono[OF wp_push_effect[OF ov(1)]]) (use fin in \<open>auto simp: clean_error_def\<close>)
  qed
  show ?thesis
    unfolding overlay_insert_def wp_simps
    by (rule wp_use[OF wp_record_write[OF uv(3) assms(2,3)]])
       (use step books_clean[OF assms(1)] in auto)
qed

section \<open>Observations\<close>

lemma wp_push_books:
  assumes "books env u v"
  shows "wp (push_effect env ps ef) (\<lambda>_ t. books env u t) (\<lambda>e t. books env u t \<and> ev_fail e t) v"
  by (rule wp_mono[OF wp_push_effect[OF books_inv[OF assms]]]) (use books_trans[OF assms] in auto)

lemma wp_metadata:
  assumes "vfs_inv env v" "vpath_ok p"
  shows "wp (metadata env p)
    (\<lambda>st t. books env v t \<and> (\<exists>r. lookup v p = Some r \<and> st = current_state v r))
    (\<lambda>e t. books env v t \<and> (ev_fail e t \<or> e = Vfs_NotFound p \<and> lookup v p = None)) v"
  unfolding metadata_def wp_simps
  by (cases "lookup v p"; rule wp_use[OF wp_record_metadata[OF assms(1)]])
       (auto simp: vfs_inv_resolve[OF assms] split: option.splits intro!: wp_mono[OF wp_push_books])

lemma wp_read_content:
  assumes "vfs_inv env v" "vpath_ok p"
  shows "wp (read_content env want wrong p)
    (\<lambda>b t. quiet env v t \<and> (\<exists>r blob w. lookup v p = Some r \<and> kind (state_of (res_node r)) = want \<and>
       node_read env (res_node r) p (vf_world v) = (Inr (blob, b), w) \<and> vf_world t = w))
    (\<lambda>e t. quiet env v t) v"
proof -
  have obs: "wp (case base_origin r of None \<Rightarrow> returnS ()
             | Some origin \<Rightarrow> update_read_entry env origin
                 (\<lambda>e. e\<lparr>obs_content := get_or_insert blob (obs_content e)\<rparr>))
      (\<lambda>_ t. books env u t) (\<lambda>_ t. books env u t) u" if "vfs_inv env u" for u r blob
  proof (cases "base_origin r")
    case None
    then show ?thesis using books_refl[OF that] by (simp add: wp_simps)
  next
    case (Some origin)
    then show ?thesis by (auto intro!: wp_mono[OF wp_update_read[OF that]])
  qed
  have tail: "wp (bindS (case base_origin r of None \<Rightarrow> returnS ()
             | Some origin \<Rightarrow> update_read_entry env origin
                 (\<lambda>e. e\<lparr>obs_content := get_or_insert blob (obs_content e)\<rparr>)) (\<lambda>_.
           bindS (push_effect env [p] (ContentRead p blob)) (\<lambda>_. returnS b)))
      (\<lambda>x t. x = b \<and> quiet env v t \<and> vf_world t = vf_world u) (\<lambda>_ t. quiet env v t) u"
    if u: "quiet env v u" for u r blob b
  proof -
    have "quiet env v t \<and> vf_world t = vf_world u" if "books env u t" for t
      using quiet_trans[OF u quiet_books[OF that]] that by (simp add: books_def)
    then show ?thesis
      unfolding wp_bindS wp_basic
      by (intro wp_use[OF obs[OF quiet_inv[OF u]]] allI impI wp_mono[OF wp_push_books]) auto
  qed
  show ?thesis
    unfolding read_content_def wp_bindS wp_basic
  proof (rule wp_use[OF wp_record_metadata[OF assms(1)]], intro allI impI, elim conjE)
    fix x t assume t: "books env v t" "has_metadata t p"
    show "wp (case resolve t p of None \<Rightarrow> failS (Vfs_NotFound p)
     | Some r \<Rightarrow>
         if kind (state_of (res_node r)) \<noteq> want
         then failS (wrong p (kind (state_of (res_node r))))
         else
           bindS (in_world Vfs_Snapshot (node_read env (res_node r) p)) (\<lambda>(blob, b).
           bindS (case base_origin r of
               None \<Rightarrow> returnS ()
             | Some origin \<Rightarrow> update_read_entry env origin
                 (\<lambda>e. e\<lparr>obs_content := get_or_insert blob (obs_content e)\<rparr>)) (\<lambda>_.
           bindS (push_effect env [p] (ContentRead p blob)) (\<lambda>_. returnS b))))
      (\<lambda>b t. quiet env v t \<and> (\<exists>r blob w. lookup v p = Some r \<and> kind (state_of (res_node r)) = want \<and>
       node_read env (res_node r) p (vf_world v) = (Inr (blob, b), w) \<and> vf_world t = w))
      (\<lambda>e t. quiet env v t) t"
    proof (cases "lookup v p")
      case None
      then show ?thesis using books_resolve[OF t(1) assms] vfs_inv_resolve[OF assms] quiet_books[OF t(1)]
        by (simp add: wp_simps)
    next
      case (Some r)
      have res: "resolve t p = Some r" using books_resolve[OF t(1) assms] vfs_inv_resolve[OF assms] Some by simp
      have w: "vf_world t = vf_world v" using t(1) by (simp add: books_def)
      have go: "quiet env v u" if "quiet env t u" for u
        using quiet_trans[OF quiet_books[OF t(1)] that] .
      show ?thesis
      proof (cases "kind (state_of (res_node r)) = want")
        case False
        then show ?thesis using quiet_books[OF t(1)] by (simp add: res wp_simps)
      next
        case True
        note step = wp_use[OF wp_in_world[OF books_inv[OF t(1)]]]
        show ?thesis
          unfolding res option.case True not_not if_False wp_bindS[of "in_world f m" for f m] simp_thms
          apply (rule step)
          subgoal
            apply (intro allI impI)
            apply (elim conjE exE)
            subgoal for x u w'
              apply (cases x)
              apply (simp only: prod.case)
              apply (rule wp_mono[OF tail])
              using Some True w go by auto
            done
          using go by auto
      qed
    qed
  qed (use quiet_books in blast)
qed

lemma collect_children_Inr:
  "collect_children env p limit probe buf acc cs = Inr out \<Longrightarrow>
   out = acc @ cs \<and> (length acc \<le> limit \<longrightarrow> length out \<le> limit)"
proof (induction cs arbitrary: probe buf acc)
  case (Cons c cs)
  then obtain buf' probe' where "collect_children env p limit probe' buf' (acc @ [c]) cs = Inr out"
    and "length acc \<noteq> limit"
    by (simp split: if_splits prod.splits sum.splits)
  then show ?case using Cons.IH[of probe' buf' "acc @ [c]"] by auto
qed simp

text \<open>Without an overlay the digest of the listing is the digest the base snapshot has.\<close>

lemma listing_digest_base:
  assumes "snap_ok (vf_base v)" "vf_overlay v = []"
  shows "listing_digest env v (direct_children (vf_base v) p)
    = directory_digest (env_blake3 env) (vf_base v) p"
proof -
  have "(case lookup v c of Some r \<Rightarrow> expected_state (res_node r) | None \<Rightarrow> directory_state 0) =
      (case map_of (bs_nodes (vf_base v)) c of Some n \<Rightarrow> expected_state n | None \<Rightarrow> directory_state 0)" for c
    using assms(2) by (auto simp: resolve_unshadowed_def base_node_def split: option.splits)
  then show ?thesis by (simp add: listing_digest_def directory_digest_def)
qed

lemma wp_stop_on_evidence:
  assumes "vfs_inv env v"
  shows "wp (stop_on_evidence r) (\<lambda>x t. t = v \<and> r = Inr x) (\<lambda>e t. books env v t) v"
proof -
  have "books env v (v\<lparr>vf_evidence := snd (ev_stop f (vf_evidence v))\<rparr>)" for f
    by (rule books_evidence[OF assms])
       (auto simp: ev_stop_def ev_grows_def ev_ok_def Let_def split: option.splits)
  then show ?thesis using books_refl[OF assms]
    by (auto simp: wp_def stop_on_evidence_def split: sum.splits vfs_error.splits)
qed

lemma wp_directory_digest:
  assumes "vfs_inv env v" "d = the_digest (directory_digest (env_blake3 env) (vf_base v) p)"
  shows "wp (update_read_entry env p (\<lambda>e. e\<lparr>obs_directory := Some d\<rparr>))
    (\<lambda>_ t. books env v t) (\<lambda>_ t. books env v t) v"
  unfolding assms(2) by (auto intro!: wp_mono[OF wp_update_read[OF assms(1)]])

lemma wp_read_dir:
  assumes "vfs_inv env v" "vpath_ok p"
  shows "wp (read_dir_with_limit env p limit)
    (\<lambda>cs t. books env v t \<and> is_dir (lookup v p) \<and> length cs \<le> limit \<and> sorted_wrt (<) cs \<and>
       set cs = {c. lookup v c \<noteq> None \<and> c \<noteq> root \<and> parent_of c = p})
    (\<lambda>e t. books env v t) v" (is "wp _ ?Q ?E v")
proof -
  let ?tail = "\<lambda>children. bindS (getS (\<lambda>v. the_digest (listing_digest env v children))) (\<lambda>digest.
     bindS (getS (\<lambda>v. base_node v p \<noteq> None \<and>
         (case map_of (vf_read_set v) p of Some e \<Rightarrow> obs_directory e = None | None \<Rightarrow> True))) (\<lambda>first.
     bindS (if first then
         bindS (getS (\<lambda>v. if vf_overlay v = [] then digest
             else the_digest (directory_digest (env_blake3 env) (vf_base v) p))) (\<lambda>base_digest.
           update_read_entry env p (\<lambda>e. e\<lparr>obs_directory := Some base_digest\<rparr>))
       else returnS ()) (\<lambda>_.
     bindS (push_effect env [p] (DirectoryRead p digest)) (\<lambda>_. returnS children))))"
  have here: "wp (\<lambda>v. stop_on_evidence
        (collect_children env p limit (vf_evidence v) 0 [] (visible_children v p)) v) A B u =
      wp (stop_on_evidence
        (collect_children env p limit (vf_evidence u) 0 [] (visible_children u p))) A B u" for A B u
    by (simp add: wp_def)
  have tail: "wp (?tail (visible_children t p)) (\<lambda>x u. x = visible_children t p \<and> books env v u) ?E t"
    if t: "books env v t" for t
  proof -
    have digest: "the_digest (listing_digest env t (visible_children t p)) =
        the_digest (directory_digest (env_blake3 env) (vf_base t) p)" if "vf_overlay t = []"
      using listing_digest_base[of t env p] books_inv[OF t] that
      by (simp add: visible_children_def vfs_inv_def)
    have push: "wp (push_effect env ps ef) (\<lambda>_ u. books env v u) (\<lambda>_ u. books env v u) u"
      if "books env v u" for u ps ef
      by (rule wp_mono[OF wp_push_books[OF that]]) auto
    show ?thesis
      unfolding wp_bindS wp_basic wp_if
      using digest t books_trans[OF t] books_trans[OF t, THEN push]
      by (auto intro!: wp_use[OF wp_directory_digest[OF books_inv[OF t]]] wp_mono[OF push])
  qed
  show ?thesis
    unfolding read_dir_with_limit_def wp_bindS[of "record_metadata e q" for e q]
  proof (rule wp_use[OF wp_record_metadata[OF assms(1)]], intro allI impI, elim conjE)
    fix x t assume t: "books env v t"
    show "wp (bindS (require_directory env p) (\<lambda>_.
     bindS (\<lambda>v. stop_on_evidence
         (collect_children env p limit (vf_evidence v) 0 [] (visible_children v p)) v) ?tail)) ?Q ?E t"
      unfolding wp_bindS[of "require_directory e q" for e q]
    proof (rule wp_use[OF wp_require_directory[OF books_inv[OF t] assms(2)]], intro allI impI, elim conjE exE)
      fix y u r assume u: "books env t u" "lookup t p = Some r" "kind (state_of (res_node r)) = Directory"
      note vu = books_trans[OF t u(1)]
      have good: "?Q cs w" if "cs = visible_children u p" "length cs \<le> limit" "books env v w" for cs w
        using vfs_inv_children[OF assms] books_children[OF vu assms] that u(2,3) books_lookup[OF t]
        by (simp add: is_dir_def)
      show "wp (bindS (\<lambda>v. stop_on_evidence
         (collect_children env p limit (vf_evidence v) 0 [] (visible_children v p)) v) ?tail) ?Q ?E u"
        unfolding wp_bindS[of "\<lambda>v. stop_on_evidence (g v) v" for g] here
      proof (rule wp_use[OF wp_stop_on_evidence[OF books_inv[OF vu]]], intro allI impI, elim conjE)
        fix cs w assume "w = u" and
          "collect_children env p limit (vf_evidence u) 0 [] (visible_children u p) = Inr cs"
        then have cs: "w = u" "cs = visible_children u p" "length cs \<le> limit"
          using collect_children_Inr by fastforce+
        show "wp (?tail cs) ?Q ?E w"
          unfolding cs(1,2) by (rule wp_mono[OF tail[OF vu]]) (use good cs(2,3) in auto)
      qed (use books_trans[OF vu] in blast)
    qed (use books_trans[OF t] in blast)
  qed blast
qed

section \<open>Single-node mutations\<close>

text \<open>The exits of an operation that sets one entry of the tree.\<close>

definition sets :: "environment \<Rightarrow> virtual_fs \<Rightarrow> vpath \<Rightarrow> resolved_node option \<Rightarrow> virtual_fs \<Rightarrow> bool" where
  "sets env v p x t \<longleftrightarrow> vfs_inv env t \<and> fs_advances v t \<and> lookup t = (lookup v)(p := x)"

lemma wp_set_entry:
  assumes "quiet env u v" "vpath_ok p" "p \<noteq> root" "tree ((lookup u)(p := entry_node e))"
  shows "wp (bindS (record_write env p) (\<lambda>_. bindS (overlay_insert p e) (\<lambda>_. push_effect env ps ef)))
    (\<lambda>_ t. sets env u p (entry_node e) t \<and> vf_world t = vf_world v) (clean_error env u) v"
  by (rule wp_mono[OF wp_commit[OF assms]]) (auto simp: sets_def)

lemma vfs_inv_tree: "vfs_inv env v \<Longrightarrow> tree (lookup v)"
  by (simp add: vfs_inv_def)

lemma wp_checked:
  assumes "vfs_inv env v" "wp m Q (clean_error env v) v"
  shows "wp (bindS check_evidence (\<lambda>_. m)) Q (clean_error env v) v"
  unfolding wp_bindS
  by (rule wp_use[OF wp_check]) (use assms quiet_clean[OF quiet_refl[OF assms(1)]] in auto)

lemma wp_mutable:
  assumes "vfs_inv env v" "p \<noteq> root \<Longrightarrow> wp m Q (clean_error env v) v"
  shows "wp (bindS (ensure_mutable p) (\<lambda>_. m)) Q (clean_error env v) v"
  unfolding wp_bindS using assms quiet_clean[OF quiet_refl[OF assms(1)]]
  by (simp add: wp_ensure_mutable)

lemma wp_with_parent:
  assumes "vfs_inv env v" "vpath_ok p" "p \<noteq> root"
    and "\<And>t. books env v t \<Longrightarrow> is_dir (lookup v (parent_of p)) \<Longrightarrow> wp m Q (clean_error env v) t"
  shows "wp (bindS (require_parent env p) (\<lambda>_. m)) Q (clean_error env v) v"
  unfolding wp_bindS
  by (rule wp_use[OF wp_require_parent[OF assms(1-3)]])
     (use assms(4) quiet_clean[OF quiet_books] in auto)

lemma wp_get_lookup:
  assumes "books env v t" "vfs_inv env v" "vpath_ok p"
  shows "wp (bindS (getS (\<lambda>u. f (resolve u p))) k) Q E t = wp (k (f (lookup v p))) Q E t"
    "wp (bindS (getS (\<lambda>u. map_option (current_state u) (resolve u p))) k') Q E t =
      wp (k' (map_option (current_state v) (lookup v p))) Q E t"
proof -
  have "resolve t p = lookup v p" using books_resolve[OF assms] vfs_inv_resolve[OF assms(2,3)] by simp
  moreover have "current_state t = current_state v" by (rule ext) (rule books_state[OF assms(1)])
  ultimately show "wp (bindS (getS (\<lambda>u. f (resolve u p))) k) Q E t = wp (k (f (lookup v p))) Q E t"
    "wp (bindS (getS (\<lambda>u. map_option (current_state u) (resolve u p))) k') Q E t =
      wp (k' (map_option (current_state v) (lookup v p))) Q E t"
    by (simp_all add: wp_bindS wp_basic)
qed

lemma wp_mkdir:
  assumes "vfs_inv env v" "vpath_ok p"
  shows "wp (mkdir env p m)
    (\<lambda>_ t. p \<noteq> root \<and> lookup v p = None \<and> is_dir (lookup v (parent_of p)) \<and>
      sets env v p (Some \<lparr>res_node = directory_node m, base_origin = None\<rparr>) t)
    (clean_error env v) v"
  unfolding mkdir_def
proof (rule wp_checked[OF assms(1)], rule wp_mutable[OF assms(1)], rule wp_with_parent[OF assms])
  fix t assume p: "p \<noteq> root" and t: "books env v t" and par: "is_dir (lookup v (parent_of p))"
  have "tree ((lookup v)(p := entry_node (Present \<lparr>res_node = directory_node m, base_origin = None\<rparr>)))"
    unfolding entry_node_simps
    by (rule tree_upd[OF vfs_inv_tree[OF assms(1)] assms(2) p par])
       (simp add: directory_node_def directory_state_def)
  note set = wp_set_entry[OF quiet_books[OF t] assms(2) p this, unfolded entry_node_simps]
  show "wp (bindS (getS (\<lambda>v. resolve v p \<noteq> None)) (\<lambda>present.
     if present then failS (AlreadyExists p)
     else
     bindS (record_write env p) (\<lambda>_.
     bindS (overlay_insert p (Present \<lparr>res_node = directory_node m, base_origin = None\<rparr>)) (\<lambda>_.
     push_effect env [p] (Create p (state_of (directory_node m)))))))
    (\<lambda>_ t. p \<noteq> root \<and> lookup v p = None \<and> is_dir (lookup v (parent_of p)) \<and>
      sets env v p (Some \<lparr>res_node = directory_node m, base_origin = None\<rparr>) t)
    (clean_error env v) t"
    unfolding wp_get_lookup(1)[OF t assms, of "\<lambda>x. x \<noteq> None"]
    using p par quiet_clean[OF quiet_books[OF t]]
    by (cases "lookup v p") (auto simp: wp_basic intro!: wp_mono[OF set])
qed

lemma wp_write_file:
  assumes "vfs_inv env v" "vpath_ok p"
  shows "wp (write_file env p b)
    (\<lambda>_ t. p \<noteq> root \<and> is_dir (lookup v (parent_of p)) \<and>
      (\<exists>i m w. store_put env b (vf_world v) = (Inr i, w) \<and> vf_world t = w \<and>
        m = (case lookup v p of None \<Rightarrow> default_file_mode | Some r \<Rightarrow> mode (current_state v r)) \<and>
        sets env v p (Some \<lparr>res_node = materialized_node File i (len64 b) m, base_origin = None\<rparr>) t))
    (clean_error env v) v"
  unfolding write_file_def
proof (rule wp_checked[OF assms(1)], rule wp_mutable[OF assms(1)], rule wp_with_parent[OF assms])
  fix t assume p: "p \<noteq> root" and t: "books env v t" and par: "is_dir (lookup v (parent_of p))"
  let ?before = "map_option (current_state v) (lookup v p)"
  let ?m = "case lookup v p of None \<Rightarrow> default_file_mode | Some r \<Rightarrow> mode (current_state v r)"
  let ?node = "\<lambda>i. \<lparr>res_node = materialized_node File i (len64 b) ?m, base_origin = None\<rparr>"
  let ?Q = "\<lambda>_ t. p \<noteq> root \<and> is_dir (lookup v (parent_of p)) \<and>
      (\<exists>i m w. store_put env b (vf_world v) = (Inr i, w) \<and> vf_world t = w \<and> m = ?m \<and>
        sets env v p (Some \<lparr>res_node = materialized_node File i (len64 b) m, base_origin = None\<rparr>) t)"
  have m: "(case ?before of None \<Rightarrow> default_file_mode | Some st \<Rightarrow> mode st) = ?m" by (cases "lookup v p") auto
  have tail: "wp (bindS (in_world Vfs_Store (store_put env b)) (\<lambda>blob.
     let m = (case ?before of None \<Rightarrow> default_file_mode | Some st \<Rightarrow> mode st);
         node = materialized_node File blob (len64 b) m in
     bindS (getS (\<lambda>v. node_state_in (vf_world v) node)) (\<lambda>after.
     bindS (record_write env p) (\<lambda>_.
     bindS (overlay_insert p (Present \<lparr>res_node = node, base_origin = None\<rparr>)) (\<lambda>_.
     push_effect env [p] (case ?before of
         Some st \<Rightarrow> ModifyContent p st after
       | None \<Rightarrow> Create p after)))))) ?Q (clean_error env v) t" if nodir: "\<not> is_dir (lookup v p)"
  proof -
    have tree: "tree ((lookup v)(p := entry_node (Present (?node i))))" for i
      unfolding entry_node_simps
      by (rule tree_upd[OF vfs_inv_tree[OF assms(1)] assms(2) p par]) (use nodir in simp)
    have w: "vf_world t = vf_world v" using t by (simp add: books_def)
    note step = wp_use[OF wp_in_world[OF books_inv[OF t]]]
    note set = wp_set_entry[OF _ assms(2) p tree, unfolded entry_node_simps]
    show ?thesis
      unfolding wp_bindS[of "in_world f m" for f m] m Let_def wp_bindS[of "getS g" for g] wp_basic
      by (rule step; intro allI impI; elim conjE exE)
         (use p par w quiet_trans[OF quiet_books[OF t]] quiet_clean in \<open>auto intro!: wp_mono[OF set]\<close>)
  qed
  show "wp (bindS (getS (\<lambda>v. map_option (current_state v) (resolve v p))) (\<lambda>before.
     bindS (case before of
         Some st \<Rightarrow> if kind st \<noteq> File then failS (NotFile p (kind st)) else returnS ()
       | None \<Rightarrow> returnS ()) (\<lambda>_.
     bindS (in_world Vfs_Store (store_put env b)) (\<lambda>blob.
     let m = (case before of None \<Rightarrow> default_file_mode | Some st \<Rightarrow> mode st);
         node = materialized_node File blob (len64 b) m in
     bindS (getS (\<lambda>v. node_state_in (vf_world v) node)) (\<lambda>after.
     bindS (record_write env p) (\<lambda>_.
     bindS (overlay_insert p (Present \<lparr>res_node = node, base_origin = None\<rparr>)) (\<lambda>_.
     push_effect env [p] (case before of
         Some st \<Rightarrow> ModifyContent p st after
       | None \<Rightarrow> Create p after)))))))) ?Q (clean_error env v) t"
    unfolding wp_get_lookup(2)[OF t assms]
    using tail quiet_clean[OF quiet_books[OF t]]
    by (cases "lookup v p") (auto simp: wp_basic)
qed

lemma wp_unlink:
  assumes "vfs_inv env v" "vpath_ok p"
  shows "wp (unlink env p)
    (\<lambda>_ t. p \<noteq> root \<and> lookup v p \<noteq> None \<and> \<not> is_dir (lookup v p) \<and> sets env v p None t)
    (clean_error env v) v"
  unfolding unlink_def
proof (rule wp_checked[OF assms(1)], rule wp_mutable[OF assms(1)], unfold wp_bindS[of "record_metadata e q" for e q],
    rule wp_use[OF wp_record_metadata[OF assms(1)]]; intro allI impI; elim conjE)
  fix x t assume p: "p \<noteq> root" and t: "books env v t"
  have leaf: "tree ((lookup v)(p := entry_node Tombstone))" if "\<not> is_dir (lookup v p)"
    using tree_del_leaf(2)[OF vfs_inv_tree[OF assms(1)] assms(2) p] that
      tree_parent[OF vfs_inv_tree[OF assms(1)]] by auto
  note set = wp_set_entry[OF quiet_books[OF t] assms(2) p leaf, unfolded entry_node_simps]
  show "wp (bindS (getS (\<lambda>v. map_option (current_state v) (resolve v p))) (\<lambda>before. case before of
       None \<Rightarrow> failS (Vfs_NotFound p)
     | Some st \<Rightarrow>
         if kind st = Directory then failS (IsDirectory p)
         else
         bindS (record_write env p) (\<lambda>_.
         bindS (overlay_insert p Tombstone) (\<lambda>_.
         push_effect env [p] (Delete p st)))))
    (\<lambda>_ t. p \<noteq> root \<and> lookup v p \<noteq> None \<and> \<not> is_dir (lookup v p) \<and> sets env v p None t)
    (clean_error env v) t"
    unfolding wp_get_lookup(2)[OF t assms]
    using p quiet_clean[OF quiet_books[OF t]]
    by (cases "lookup v p") (auto simp: wp_basic intro!: wp_mono[OF set])
qed (use quiet_clean[OF quiet_books] in blast)

lemma wp_rmdir:
  assumes "vfs_inv env v" "vpath_ok p"
  shows "wp (rmdir env p)
    (\<lambda>_ t. p \<noteq> root \<and> is_dir (lookup v p) \<and>
      (\<forall>c. lookup v c \<noteq> None \<and> c \<noteq> root \<longrightarrow> parent_of c \<noteq> p) \<and> sets env v p None t)
    (clean_error env v) v"
  unfolding rmdir_def read_dir_def
proof (rule wp_checked[OF assms(1)], rule wp_mutable[OF assms(1)], unfold wp_bindS,
    rule wp_use[OF wp_record_metadata[OF assms(1)]]; intro allI impI; elim conjE)
  fix x t assume p: "p \<noteq> root" and t: "books env v t"
  note err = quiet_clean[OF quiet_books]
  let ?Q = "\<lambda>_ t. p \<noteq> root \<and> is_dir (lookup v p) \<and>
      (\<forall>c. lookup v c \<noteq> None \<and> c \<noteq> root \<longrightarrow> parent_of c \<noteq> p) \<and> sets env v p None t"
  have fin: "wp (if cs \<noteq> [] then failS (DirectoryNotEmpty p) else
      bindS (record_write env p) (\<lambda>_. bindS (overlay_insert p Tombstone) (\<lambda>_.
        push_effect env [p] (Delete p before)))) ?Q (clean_error env v) w"
    if w: "books env v w" "is_dir (lookup v p)"
      "set cs = {c. lookup v c \<noteq> None \<and> c \<noteq> root \<and> parent_of c = p}" for cs before w
  proof (cases "cs = []")
    case True
    then have leaf: "\<forall>c. lookup v c \<noteq> None \<and> c \<noteq> root \<longrightarrow> parent_of c \<noteq> p"
      using w(3) by (metis (mono_tags, lifting) empty_iff empty_set mem_Collect_eq)
    then have tree: "tree ((lookup v)(p := entry_node Tombstone))"
      using tree_del_leaf(2)[OF vfs_inv_tree[OF assms(1)] assms(2) p] by simp
    show ?thesis using True p w(2) leaf
      by (auto intro!: wp_mono[OF wp_set_entry[OF quiet_books[OF w(1)] assms(2) p tree, unfolded entry_node_simps]])
  qed (use err[OF w(1)] in \<open>simp add: wp_basic\<close>)
  show "wp (require_directory env p)
     (\<lambda>before. wp (read_dir_with_limit env p (2 ^ 64 - 1))
       (\<lambda>cs. wp (if cs \<noteq> [] then failS (DirectoryNotEmpty p) else
          bindS (record_write env p) (\<lambda>_. bindS (overlay_insert p Tombstone) (\<lambda>_.
            push_effect env [p] (Delete p before)))) ?Q (clean_error env v))
       (clean_error env v)) (clean_error env v) t"
  proof (rule wp_use[OF wp_require_directory[OF books_inv[OF t] assms(2)]]; intro allI impI; elim conjE)
    fix st u assume u: "books env t u"
    note vu = books_trans[OF t u]
    show "wp (read_dir_with_limit env p (2 ^ 64 - 1))
       (\<lambda>cs. wp (if cs \<noteq> [] then failS (DirectoryNotEmpty p) else
          bindS (record_write env p) (\<lambda>_. bindS (overlay_insert p Tombstone) (\<lambda>_.
            push_effect env [p] (Delete p st)))) ?Q (clean_error env v))
       (clean_error env v) u"
      by (rule wp_use[OF wp_read_dir[OF books_inv[OF vu] assms(2)]])
         (use fin err books_trans[OF vu] books_lookup[OF vu] in auto)
  qed (use err books_trans[OF t] in blast)
qed (use quiet_clean[OF quiet_books] in blast)

lemma wp_set_mode:
  assumes "vfs_inv env v" "vpath_ok p"
  shows "wp (set_mode env p m)
    (\<lambda>_ t. p \<noteq> root \<and> (\<exists>r. lookup v p = Some r \<and> kind (state_of (res_node r)) \<noteq> Symlink \<and>
      (mode (current_state v r) = m \<and> quiet env v t \<or>
       sets env v p (Some (r\<lparr>res_node := (res_node r)\<lparr>state_of := with_mode (state_of (res_node r)) m\<rparr>\<rparr>)) t)))
    (clean_error env v) v" (is "wp _ ?Q ?E v")
  unfolding set_mode_def
proof (rule wp_checked[OF assms(1)], rule wp_mutable[OF assms(1)])
  assume p: "p \<noteq> root"
  note err = quiet_clean[OF quiet_books]
  let ?node = "\<lambda>r. r\<lparr>res_node := (res_node r)\<lparr>state_of := with_mode (state_of (res_node r)) m\<rparr>\<rparr>"
  have fin: "wp (bindS (getS (\<lambda>v. current_state v (?node r))) (\<lambda>after.
         bindS (record_write env p) (\<lambda>_.
         bindS (overlay_insert p (Present (?node r))) (\<lambda>_.
         push_effect env [p] (ModifyMetadata p before after))))) ?Q ?E t"
    if t: "books env v t" and r: "lookup v p = Some r" "kind (state_of (res_node r)) \<noteq> Symlink" for t r before
  proof -
    have tree: "tree ((lookup v)(p := entry_node (Present (?node r))))"
      unfolding entry_node_simps
      using tree_parent[OF vfs_inv_tree[OF assms(1)] _ p] r(1)
      by (intro tree_upd[OF vfs_inv_tree[OF assms(1)] assms(2) p]) (auto simp: with_mode_def)
    note set = wp_set_entry[OF quiet_books[OF t] assms(2) p tree, unfolded entry_node_simps]
    show ?thesis
      unfolding wp_bindS[of "getS g" for g] wp_basic
      by (rule wp_mono[OF set]) (use p r in auto)
  qed
  have mid: "wp (bindS (getS (\<lambda>v. case Option.bind (resolve v p) base_origin of
         None \<Rightarrow> 0 | Some q \<Rightarrow> len64 (as_str q))) (\<lambda>origin_bytes.
     bindS (on_evidence (ev_reserve 0 origin_bytes)) (\<lambda>_.
     bindS (getS (\<lambda>v. resolve v p)) (\<lambda>resolved. case resolved of
       None \<Rightarrow> failS (Vfs_NotFound p)
     | Some r \<Rightarrow>
         let node = (res_node r)\<lparr>state_of := with_mode (state_of (res_node r)) m\<rparr>;
             r' = r\<lparr>res_node := node\<rparr> in
         bindS (getS (\<lambda>v. current_state v r')) (\<lambda>after.
         bindS (record_write env p) (\<lambda>_.
         bindS (overlay_insert p (Present r')) (\<lambda>_.
         push_effect env [p] (ModifyMetadata p before after)))))))) ?Q ?E t"
    if t: "books env v t" and r: "lookup v p = Some r" "kind (state_of (res_node r)) \<noteq> Symlink" for t r before
    unfolding wp_bindS[of "getS g" for g] wp_basic wp_bindS[of "on_evidence g" for g] Let_def
    by (rule wp_use[OF wp_reserve_books[OF books_inv[OF t]]]; intro allI impI)
       (use fin r err books_trans[OF t] books_resolve[OF _ assms] vfs_inv_resolve[OF assms] in auto)
  show "wp (if m AND NOT 0x1FF \<noteq> 0 then failS (UnsupportedMode p m)
     else
     bindS (metadata env p) (\<lambda>before.
     if kind before = Symlink then failS (SymlinkMode p)
     else if mode before = m then returnS ()
     else
     bindS (getS (\<lambda>v. case Option.bind (resolve v p) base_origin of
         None \<Rightarrow> 0 | Some q \<Rightarrow> len64 (as_str q))) (\<lambda>origin_bytes.
     bindS (on_evidence (ev_reserve 0 origin_bytes)) (\<lambda>_.
     bindS (getS (\<lambda>v. resolve v p)) (\<lambda>resolved. case resolved of
       None \<Rightarrow> failS (Vfs_NotFound p)
     | Some r \<Rightarrow>
         let node = (res_node r)\<lparr>state_of := with_mode (state_of (res_node r)) m\<rparr>;
             r' = r\<lparr>res_node := node\<rparr> in
         bindS (getS (\<lambda>v. current_state v r')) (\<lambda>after.
         bindS (record_write env p) (\<lambda>_.
         bindS (overlay_insert p (Present r')) (\<lambda>_.
         push_effect env [p] (ModifyMetadata p before after))))))))) ?Q ?E v"
    (is "wp (if _ then _ else bindS _ ?rest) _ _ _")
  proof (cases "m AND NOT 0x1FF \<noteq> 0")
    case False
    show ?thesis
      unfolding wp_bindS[of "metadata e q" for e q] if_not_P[OF False]
    proof (rule wp_use[OF wp_metadata[OF assms]]; intro allI impI; elim conjE exE)
      fix st t r assume t: "books env v t" and r: "lookup v p = Some r" "st = current_state v r"
      have ends: "?E e t" "kind st \<noteq> Symlink \<Longrightarrow> mode st = m \<Longrightarrow> ?Q () t" for e
        using p r err[OF t] quiet_books[OF t] by auto
      have "wp (?rest st) ?Q ?E t" if "kind st \<noteq> Symlink" "mode st \<noteq> m"
        unfolding if_not_P[OF that(1)] if_not_P[OF that(2)]
        by (rule mid[OF t r(1)]) (use that r(2) in simp)
      then show "wp (?rest st) ?Q ?E t"
        using ends by (cases "kind st = Symlink"; cases "mode st = m") (simp_all only: if_True if_False simp_thms wp_basic)
    qed (use err in blast)
  qed (use err[OF books_refl[OF assms(1)]] in \<open>simp add: wp_basic\<close>)
qed

section \<open>Subtrees\<close>

text \<open>Several overlay entries at once.\<close>

definition put_entry :: "vpath \<times> overlay_entry \<Rightarrow> virtual_fs \<Rightarrow> virtual_fs" where
  "put_entry pe v = v\<lparr>vf_overlay := bt_insert (fst pe) (snd pe) (vf_overlay v)\<rparr>"

definition put_files :: "vpath \<times> overlay_entry \<Rightarrow> files \<Rightarrow> files" where
  "put_files pe m = m(fst pe := entry_node (snd pe))"

lemma put_entries:
  "fold put_entry pes v = v\<lparr>vf_overlay := fold (\<lambda>pe. bt_insert (fst pe) (snd pe)) pes (vf_overlay v)\<rparr>"
  by (induction pes arbitrary: v) (auto simp: put_entry_def)

lemma lookup_entries: "lookup (fold put_entry pes v) = fold put_files pes (lookup v)"
  by (induction pes arbitrary: v) (auto simp: put_entry_def put_files_def)

lemma overlay_inserts:
  "bt_ok ov \<Longrightarrow> bt_ok (fold (\<lambda>pe. bt_insert (fst pe) (snd pe)) pes ov)"
  "fst ` set (fold (\<lambda>pe. bt_insert (fst pe) (snd pe)) pes ov) = fst ` set pes \<union> fst ` set ov"
  by (induction pes arbitrary: ov) auto

lemma put_entries_inv:
  assumes "vfs_inv env v" "\<forall>pe \<in> set pes. bt_contains (vf_write_set v) (fst pe)"
    and "tree (fold put_files pes (lookup v))"
  shows "vfs_inv env (fold put_entry pes v)" "fs_advances v (fold put_entry pes v)"
proof -
  note tree = assms(3)[folded lookup_entries, unfolded put_entries]
  show "vfs_inv env (fold put_entry pes v)"
    using assms(1,2) tree unfolding put_entries
    by (auto simp: vfs_inv_def obs_sound_def writes_sound_def overlay_recorded_def events_ok_def
        base_expected_def has_metadata_def overlay_inserts)
  show "fs_advances v (fold put_entry pes v)"
    by (simp add: put_entries fs_advances_def has_metadata_def)
qed

lemma forS_overlay: "forS xs (\<lambda>(q, r). overlay_insert (f q) (g r)) =
    modifyS (fold put_entry (map (\<lambda>(q, r). (f q, g r)) xs))"
proof -
  have "(\<lambda>(q, r). overlay_insert (f q) (g r)) = (\<lambda>x. modifyS (put_entry (case x of (q, r) \<Rightarrow> (f q, g r))))"
    by (auto simp: overlay_insert_def put_entry_def fun_eq_iff)
  then show ?thesis by (simp add: forS_modify fold_map comp_def)
qed

lemma wp_visible_subtree:
  assumes "vfs_inv env v" "vpath_ok p" "p \<noteq> root"
  shows "wp (visible_subtree env' p) (\<lambda>nodes t. t = v \<and> subtree_of (lookup v) p nodes)
    (\<lambda>e t. books env v t \<and> ev_fail e t) v"
proof -
  obtain r t where rt: "visible_subtree env' p v = (r, t)" by fastforce
  show ?thesis
  proof (cases r)
    case (Inr nodes)
    then show ?thesis using vfs_inv_subtree[OF assms] rt by (simp add: wp_def)
  next
    case (Inl e)
    have "\<exists>f. visible_subtree env' p v = stop_evidence f v"
      using rt Inl by (cases "collect_subtree env' v (vf_evidence v) 0 [] (subtree_candidates v p)")
        (auto simp: visible_subtree_def intro: sym)
    then obtain f where f: "visible_subtree env' p v = stop_evidence f v" ..
    have "wp (stop_evidence f) (\<lambda>nodes t. t = v \<and> subtree_of (lookup v) p nodes)
        (\<lambda>e t. books env v t \<and> ev_fail e t) v"
      by (rule wp_mono[OF wp_stop[OF assms(1)]]) auto
    then show ?thesis by (simp only: wp_def f)
  qed
qed

text \<open>Loops that record a write for every node they visit.\<close>

lemma wp_record_loop:
  assumes "vfs_inv env v"
    and step: "\<And>x t. x \<in> set xs \<Longrightarrow> books env v t \<Longrightarrow>
      wp (f x) (\<lambda>_ u. books env t u \<and> bt_contains (vf_write_set u) (path x) \<and> G x)
        (\<lambda>e u. books env t u \<and> F e u) t"
  shows "wp (forS xs f)
    (\<lambda>_ t. books env v t \<and> (\<forall>x \<in> set xs. bt_contains (vf_write_set t) (path x) \<and> G x))
    (\<lambda>e t. books env v t \<and> F e t) v"
proof (rule wp_forS[where I = "\<lambda>ys t. books env v t \<and>
    (\<forall>x \<in> set xs. x \<in> set ys \<or> bt_contains (vf_write_set t) (path x) \<and> G x)"])
  fix y ys t
  assume y: "\<exists>zs. xs = zs @ y # ys" and t: "books env v t \<and>
    (\<forall>x \<in> set xs. x \<in> set (y # ys) \<or> bt_contains (vf_write_set t) (path x) \<and> G x)"
  have "bt_contains (vf_write_set u) q" if "books env t u" "bt_contains (vf_write_set t) q" for u q
    using that by (simp add: books_def fs_advances_def)
  then show "wp (f y) (\<lambda>_ t. books env v t \<and>
      (\<forall>x \<in> set xs. x \<in> set ys \<or> bt_contains (vf_write_set t) (path x) \<and> G x))
      (\<lambda>e t. books env v t \<and> F e t) t"
    using t y books_trans[of env v t] by (intro wp_mono[OF step]) auto
qed (use books_refl[OF assms(1)] in auto)

lemma tombstones: "fold put_files (map (\<lambda>(q, r). (q, Tombstone)) nodes) m =
    (\<lambda>q. if q \<in> fst ` set nodes then None else m q)"
  by (induction nodes arbitrary: m) (auto simp: put_files_def fun_eq_iff)

lemma subtree_tombstones:
  assumes "subtree_of m p nodes"
  shows "fold put_files (map (\<lambda>(q, r). (q, Tombstone)) nodes) m =
    (\<lambda>q. if is_within q p then None else m q)"
proof -
  have "q \<in> fst ` set nodes \<longleftrightarrow> is_within q p \<and> m q \<noteq> None" for q
    using assms by (force simp: subtree_of_def)
  then show ?thesis unfolding tombstones by (auto simp: fun_eq_iff)
qed

lemma subtree_of_Nil: "subtree_of m p [] \<longleftrightarrow> (\<forall>q. is_within q p \<longrightarrow> m q = None)"
  by (auto simp: subtree_of_def)

lemma wp_remove_tree:
  assumes "vfs_inv env v" "vpath_ok p"
  shows "wp (remove_tree env p)
    (\<lambda>_ t. p \<noteq> root \<and> lookup v p \<noteq> None \<and> vfs_inv env t \<and> fs_advances v t \<and>
      lookup t = (\<lambda>q. if is_within q p then None else lookup v q))
    (clean_error env v) v" (is "wp _ ?Q ?E v")
  unfolding remove_tree_def
proof (rule wp_checked[OF assms(1)], rule wp_mutable[OF assms(1)], unfold wp_bindS[of "record_metadata e q" for e q],
    rule wp_use[OF wp_record_metadata[OF assms(1)]]; intro allI impI; elim conjE)
  fix x t assume p: "p \<noteq> root" and t: "books env v t"
  note err = quiet_clean[OF quiet_books]
  let ?del = "\<lambda>q. if is_within q p then None else lookup v q"
  have fin: "wp (forS nodes (\<lambda>(q, r). overlay_insert q Tombstone)) ?Q ?E u"
    if u: "books env v u" "\<forall>x \<in> set (rev nodes). bt_contains (vf_write_set u) (fst x)"
      and nodes: "subtree_of (lookup v) p nodes" "nodes \<noteq> []" for nodes u
  proof -
    have del: "fold put_files (map (\<lambda>(q, r). (q, Tombstone)) nodes) (lookup u) = ?del"
      using subtree_tombstones[OF nodes(1)] books_lookup[OF u(1)] by simp
    have written: "\<forall>pe \<in> set (map (\<lambda>(q, r). (q, Tombstone)) nodes). bt_contains (vf_write_set u) (fst pe)"
      using u(2) by (auto simp: split_beta)
    have "tree ?del" by (rule tree_del_within[OF vfs_inv_tree[OF assms(1)] assms(2) p])
    then have inv: "vfs_inv env (fold put_entry (map (\<lambda>(q, r). (q, Tombstone)) nodes) u)"
      "fs_advances u (fold put_entry (map (\<lambda>(q, r). (q, Tombstone)) nodes) u)"
      using put_entries_inv[OF books_inv[OF u(1)] written] unfolding del by blast+
    obtain q r where "(q, r) \<in> set nodes" using nodes(2) by (cases nodes) auto
    then have "is_within q p" "lookup v q \<noteq> None" using nodes(1) by (auto simp: subtree_of_def)
    then have "lookup v p \<noteq> None"
      using tree_ancestor[OF vfs_inv_tree[OF assms(1)] _ assms(2), of q] by (cases "q = p") (auto dest: is_dir_not_None)
    then show ?thesis
      unfolding forS_overlay[where f = "\<lambda>q. q" and g = "\<lambda>_. Tombstone"] wp_modifyS
      using inv p u(1) by (auto simp: lookup_entries del books_def intro: fs_advances_trans)
  qed
  have body: "wp (case x of (q, r) \<Rightarrow> bindS (record_write env q) (\<lambda>_.
        bindS (getS (\<lambda>v. current_state v r)) (\<lambda>st. push_effect env [q] (Delete q st))))
      (\<lambda>_ w. books env u w \<and> bt_contains (vf_write_set w) (fst x)) (\<lambda>e w. books env u w \<and> ev_fail e w) u"
    if u: "books env v u" "vpath_ok (fst x)" "fst x \<noteq> root" for x u
  proof -
    have push: "wp (push_effect env ps ef) (\<lambda>_ w. books env u w \<and> bt_contains (vf_write_set w) q)
        (\<lambda>e w. books env u w \<and> ev_fail e w) t" if t: "books env u t" "bt_contains (vf_write_set t) q" for t q ps ef
      by (rule wp_mono[OF wp_push_effect[OF books_inv[OF t(1)]]])
         (use t books_trans[OF t(1)] in \<open>auto simp: books_def fs_advances_def\<close>)
    show ?thesis
      unfolding wp_pair split_beta wp_bindS wp_basic
      by (rule wp_use[OF wp_record_write[OF books_inv[OF u(1)] u(2,3)]]) (use push in auto)
  qed
  show "wp (bindS (visible_subtree env p) (\<lambda>nodes.
     if nodes = [] then failS (Vfs_NotFound p)
     else
     bindS (forS (rev nodes) (\<lambda>(q, r).
         bindS (record_write env q) (\<lambda>_.
         bindS (getS (\<lambda>v. current_state v r)) (\<lambda>st. push_effect env [q] (Delete q st))))) (\<lambda>_.
     forS nodes (\<lambda>(q, r). overlay_insert q Tombstone)))) ?Q ?E t"
    unfolding wp_bindS[of "visible_subtree e q" for e q]
  proof (rule wp_use[OF wp_visible_subtree[OF books_inv[OF t] assms(2) p]]; intro allI impI; elim conjE)
    fix nodes u assume "u = t" and nodes: "subtree_of (lookup t) p nodes"
    then have nv: "subtree_of (lookup v) p nodes" using books_lookup[OF t] by simp
    then have ok: "vpath_ok (fst x) \<and> fst x \<noteq> root" if "x \<in> set (rev nodes)" for x
      using that tree_path[OF vfs_inv_tree[OF assms(1)]] p is_within_cases[of root p] assms(2)
      by (cases x) (auto simp: subtree_of_def)
    have loop: "wp (forS (rev nodes) (\<lambda>(q, r). bindS (record_write env q) (\<lambda>_.
         bindS (getS (\<lambda>v. current_state v r)) (\<lambda>st. push_effect env [q] (Delete q st)))))
       (\<lambda>_ w. books env t w \<and> (\<forall>x \<in> set (rev nodes). bt_contains (vf_write_set w) (fst x) \<and> True))
       (\<lambda>e w. books env t w \<and> ev_fail e w) t"
      by (rule wp_record_loop[OF books_inv[OF t]]) (use ok body books_trans[OF t] in auto)
    show "wp (if nodes = [] then failS (Vfs_NotFound p)
     else
     bindS (forS (rev nodes) (\<lambda>(q, r).
         bindS (record_write env q) (\<lambda>_.
         bindS (getS (\<lambda>v. current_state v r)) (\<lambda>st. push_effect env [q] (Delete q st))))) (\<lambda>_.
     forS nodes (\<lambda>(q, r). overlay_insert q Tombstone))) ?Q ?E u"
    proof (cases "nodes = []")
      case False
      show ?thesis
        unfolding if_not_P[OF False] \<open>u = t\<close> wp_bindS[of "forS xs f" for xs f]
        by (rule wp_use[OF loop]; intro allI impI; elim conjE)
           (use fin[OF books_trans[OF t] _ nv False] err[OF books_trans[OF t]] in auto)
    qed (use err[OF t] \<open>u = t\<close> in \<open>simp add: wp_basic\<close>)
  qed (use err books_trans[OF t] in blast)
qed (use quiet_clean[OF quiet_books] in blast)

end
