(* ===== verification/VfsMove.thy ===== *)
theory VfsMove
  imports VfsOps
begin

text \<open>
  Renaming a subtree.  \<open>move_path\<close> is the path arithmetic of \<open>rebase\<close> on components; \<open>graft\<close> is
  the effect of the insertion loop; the last section puts the loops of \<open>rename\<close> together.
\<close>

section \<open>Moved paths\<close>

definition move_path :: "vpath \<Rightarrow> vpath \<Rightarrow> vpath \<Rightarrow> vpath" where
  "move_path a b q = of_components (components b @ drop (length (components a)) (components q))"

lemma components_move:
  "vpath_ok b \<Longrightarrow> vpath_ok q \<Longrightarrow>
   components (move_path a b q) = components b @ drop (length (components a)) (components q)"
  unfolding move_path_def
  by (rule components_of_components) (auto simp: vpath_ok_def list_all_iff dest: in_set_dropD)

lemma move_path_ok: "vpath_ok b \<Longrightarrow> vpath_ok q \<Longrightarrow> vpath_ok (move_path a b q)"
  unfolding move_path_def
  by (rule vpath_ok_of_components) (auto simp: vpath_ok_def list_all_iff dest: in_set_dropD)

lemma move_path_within: "vpath_ok b \<Longrightarrow> vpath_ok q \<Longrightarrow> is_within (move_path a b q) b"
  by (simp add: is_within_iff_prefix move_path_ok components_move)

lemma move_path_self: "vpath_ok a \<Longrightarrow> vpath_ok b \<Longrightarrow> move_path a b a = b"
  by (simp add: move_path_def)

lemma move_path_back:
  assumes "vpath_ok a" "vpath_ok b" "vpath_ok q" "is_within q a"
  shows "move_path b a (move_path a b q) = q"
proof (rule components_inj)
  have "prefix (components a) (components q)" using assms by (simp add: is_within_iff_prefix)
  then show "components (move_path b a (move_path a b q)) = components q"
    using assms by (auto simp: components_move move_path_ok prefix_def)
qed

lemma parent_of_move:
  assumes "vpath_ok a" "vpath_ok b" "vpath_ok q" "strictly_in q a"
  shows "parent_of (move_path a b q) = move_path a b (parent_of q)" "move_path a b q \<noteq> root"
proof -
  obtain es where es: "components q = components a @ es" "es \<noteq> []"
    using assms by (auto simp: strictly_in_def is_within_iff_prefix prefix_def) (metis components_inj append_Nil2)
  have q: "q \<noteq> root" "vpath_ok (parent_of q)"
    using strictly_in_parent[OF assms(3,1,4)] parent_of_ok[OF assms(3)] by auto
  have move: "components (move_path a b q) = components b @ es"
    using assms es by (simp add: components_move)
  then show root: "move_path a b q \<noteq> root" using es(2) by auto
  have "components (parent_of (move_path a b q)) = components b @ butlast es"
    using components_parent_of[OF move_path_ok[OF assms(2,3)] root] move es(2)
    by (simp add: butlast_append)
  also have "\<dots> = components (move_path a b (parent_of q))"
    using components_parent_of[OF assms(3) q(1)] q(2) assms(2) es
    by (simp add: components_move butlast_append)
  finally show "parent_of (move_path a b q) = move_path a b (parent_of q)" by (rule components_inj)
qed

lemma join_drive:
  assumes "vpath_ok p" "p \<noteq> root" "\<not> no_drive (components p)" "backslash \<notin> set sfx" "nul \<notin> set sfx"
  shows "join p sfx = Inl Path_PlatformPrefix"
proof -
  have chars: "backslash \<notin> set (as_str p)" "nul \<notin> set (as_str p)"
    using assms(1) unfolding as_str_join[OF assms(2)]
    by (auto simp: vpath_ok_def list_all_iff comp_ok_def dest!: join_with_chars)
  have "hd (split_on slash (as_str p @ slash # sfx)) = hd (components p)"
    using components_split[OF assms(2)] by (simp add: split_on_append)
  moreover have "as_str p \<noteq> []" "hd (as_str p) \<noteq> slash"
  proof -
    obtain c cs where c: "components p = c # cs" "comp_ok c"
      using assms(1) components_not_Nil[OF assms(2)] by (cases "components p") (auto simp: vpath_ok_def)
    then have "c \<noteq> []" "hd c \<noteq> slash" by (cases c; auto simp: comp_ok_def)+
    then show "as_str p \<noteq> []" "hd (as_str p) \<noteq> slash"
      using c(1) hd_join_with[of "c # cs" slash]
      by (auto simp: as_str_join[OF assms(2)] join_with_eq_Nil)
  qed
  ultimately show ?thesis
    using assms(2-) chars
    by (simp add: join_def Let_def normalize_def is_root_iff no_drive_def)
qed

lemma rebase_Some:
  assumes "vpath_ok q" "vpath_ok a" "vpath_ok b" "b \<noteq> root" "is_within q a"
  shows "rebase q a b = Inr (Some (move_path a b q)) \<or>
    rebase q a b = Inl Path_PlatformPrefix \<and> \<not> no_drive (components b)"
proof (cases "no_drive (components b)")
  case True
  then have "no_drive (components b @ drop (length (components a)) (components q))"
    using no_drive_append components_not_Nil[OF assms(4)] by blast
  then show ?thesis
    using rebase_components[OF assms(1-3)] assms by (simp add: is_within_iff_prefix move_path_def)
next
  case False
  have rel: "relative_to q a = Some (join_with slash (drop (length (components a)) (components q)))"
    using relative_to_iff[OF assms(1,2)] assms by (simp add: is_within_iff_prefix)
  show ?thesis
  proof (cases "q = a")
    case True
    then show ?thesis using assms(2,3) by (simp add: rebase_def relative_to_def move_path_self)
  next
    case False
    have "components q \<noteq> components a" using False components_inj by blast
    then have "drop (length (components a)) (components q) \<noteq> []"
      using assms by (auto simp: is_within_iff_prefix prefix_def)
    moreover have "drop (length (components a)) (components q) \<noteq> [[]]"
    proof
      assume "drop (length (components a)) (components q) = [[]]"
      then have "[] \<in> set (components q)" by (metis in_set_dropD list.set_intros(1))
      then show False using assms(1) by (auto simp: vpath_ok_def list_all_iff comp_ok_def)
    qed
    ultimately have "join_with slash (drop (length (components a)) (components q)) \<noteq> []"
      by (simp add: join_with_eq_Nil)
    moreover have chars: "backslash \<notin> set (join_with slash (drop (length (components a)) (components q)))"
      "nul \<notin> set (join_with slash (drop (length (components a)) (components q)))"
      using assms(1) by (auto simp: vpath_ok_def list_all_iff comp_ok_def dest!: join_with_chars in_set_dropD)
    ultimately show ?thesis
      using join_drive[OF assms(3,4) \<open>\<not> no_drive (components b)\<close> chars] assms(1) rel \<open>\<not> no_drive (components b)\<close>
      by (simp add: rebase_def)
  qed
qed

section \<open>Grafting a subtree\<close>

text \<open>The files after the nodes \<open>zs\<close> of the subtree of \<open>a\<close> in \<open>m\<close> were inserted below \<open>b\<close>.\<close>

definition grafted :: "files \<Rightarrow> vpath \<Rightarrow> vpath \<Rightarrow> vpath set \<Rightarrow> files \<Rightarrow> files" where
  "grafted m a b qs m2 x =
     (if is_within x b \<and> vpath_ok x \<and> move_path b a x \<in> qs then m (move_path b a x) else m2 x)"

lemma grafted_empty: "grafted m a b {} m2 = m2"
  by (simp add: grafted_def fun_eq_iff)

lemma grafted_insert:
  assumes "vpath_ok a" "vpath_ok b" "vpath_ok q" "is_within q a"
  shows "grafted m a b (insert q qs) m2 = (grafted m a b qs m2)(move_path a b q := m q)"
proof
  fix x
  have "move_path b a x = q \<longleftrightarrow> x = move_path a b q" if "is_within x b" "vpath_ok x"
    using move_path_back[OF assms] move_path_back[OF assms(2,1) that(2,1)] by auto
  then show "grafted m a b (insert q qs) m2 x = ((grafted m a b qs m2)(move_path a b q := m q)) x"
    using move_path_back[OF assms] move_path_within[OF assms(2,3)] move_path_ok[OF assms(2,3)]
    by (auto simp: grafted_def)
qed

lemma grafted_tree:
  assumes paths: "vpath_ok a" "vpath_ok b" "a \<noteq> root" "b \<noteq> root"
    and src: "tree m" "subtree_of m a nodes"
    and dst: "tree m2" "\<forall>x. is_within x b \<longrightarrow> m2 x = None" "is_dir (m2 (parent_of b))"
    and part: "nodes = zs @ rest"
  shows "tree (grafted m a b (fst ` set zs) m2) \<and>
    fold put_files (map (\<lambda>(q, r). (move_path a b q, Present r)) zs) m2 = grafted m a b (fst ` set zs) m2"
  using part
proof (induction zs arbitrary: rest rule: rev_induct)
  case Nil
  then show ?case using dst(1) by (simp add: grafted_empty)
next
  case (snoc qr zs)
  obtain q r where qr: "qr = (q, r)" by fastforce
  let ?g = "grafted m a b (fst ` set zs) m2"
  have tree: "tree ?g" and fold: "fold put_files (map (\<lambda>(q, r). (move_path a b q, Present r)) zs) m2 = ?g"
    using snoc by auto
  have "(q, r) \<in> set nodes" using snoc.prems qr by simp
  then have q: "is_within q a" "m q = Some r" "vpath_ok q"
    using src tree_path by (auto simp: subtree_of_def)
  have new: "q \<notin> fst ` set zs"
    using src(2) snoc.prems qr by (auto simp: subtree_of_def sorted_wrt_append)
  let ?d = "move_path a b q"
  have d: "is_within ?d b" "vpath_ok ?d" "move_path b a ?d = q"
    using move_path_within move_path_ok move_path_back paths q by auto
  have "?g ?d = None" using d new dst(2) by (simp add: grafted_def)
  moreover have "?d \<noteq> root \<and> is_dir (?g (parent_of ?d))"
  proof (cases "q = a")
    case True
    then have "?d = b" using paths by (simp add: move_path_self)
    moreover have "\<not> is_within (parent_of b) b"
      using within_parent_of[OF paths(2,4)] is_within_antisym[of b "parent_of b"] paths
        parent_of_ok[OF paths(2,4)] by (auto simp: strictly_in_def)
    ultimately show ?thesis using dst(3) paths by (simp add: grafted_def)
  next
    case False
    then have strict: "strictly_in q a" using q(1) by (simp add: strictly_in_def)
    let ?p = "parent_of q"
    have p: "q \<noteq> root" "is_within ?p a" "vpath_ok ?p"
      using strictly_in_parent[OF q(3) paths(1) strict] parent_of_ok[OF q(3)] by auto
    have pdir: "is_dir (m ?p)" using tree_parent[OF src(1) _ p(1)] q(2) by simp
    then obtain s where s: "(?p, s) \<in> set nodes"
      using src(2) p(2) by (auto simp: subtree_of_def is_dir_def split: option.splits)
    have "?p < q"
      using strictly_in_less[OF q(3) p(3)] within_parent_of[OF q(3) p(1)] p paths is_within_cases[of root a]
      by (cases "?p = root") auto
    moreover have "\<not> x < q" if "x \<in> fst ` set ((q, r) # rest)" for x
      using src(2) snoc.prems qr that by (auto simp: subtree_of_def sorted_wrt_append)
    ultimately have "?p \<notin> fst ` set ((q, r) # rest)" by blast
    then have "?p \<in> fst ` set zs" using s snoc.prems qr by (auto simp: rev_image_eqI)
    then have "?g (move_path a b ?p) = m ?p"
      using move_path_within move_path_ok move_path_back paths p by (auto simp: grafted_def)
    then show ?thesis using parent_of_move[OF paths(1,2) q(3) strict] pdir by simp
  qed
  ultimately have "tree (?g(?d \<mapsto> r))"
    by (intro tree_upd[OF tree d(2)]) auto
  moreover have "?g(?d \<mapsto> r) = grafted m a b (fst ` set (zs @ [qr])) m2"
    using grafted_insert[OF paths(1,2) q(3,1), of m "fst ` set zs" m2] q(2) qr by simp
  moreover have "fold put_files (map (\<lambda>(q, r). (move_path a b q, Present r)) (zs @ [qr])) m2 = ?g(?d \<mapsto> r)"
    using fold qr by (simp add: put_files_def[of "(move_path a b q, Present r)"])
  ultimately show ?case by simp
qed

section \<open>The loops of a rename\<close>

definition moved :: "files \<Rightarrow> vpath \<Rightarrow> vpath \<Rightarrow> files" where
  "moved m a b x =
     (if is_within x b then (if vpath_ok x then m (move_path b a x) else None)
      else if is_within x a then None else m x)"

lemma forS_cong: "(\<And>x. x \<in> set xs \<Longrightarrow> f x = g x) \<Longrightarrow> forS xs f = forS xs g"
  by (induction xs) auto

lemma grafted_moved:
  assumes paths: "vpath_ok a" "vpath_ok b" "\<not> is_within a b" "\<not> is_within b a"
    and nodes: "subtree_of (m(b := None)) a nodes"
    and free: "\<forall>x. is_within x b \<and> x \<noteq> b \<longrightarrow> m x = None"
  shows "grafted (m(b := None)) a b (fst ` set nodes)
    (\<lambda>q. if is_within q a then None else (m(b := None)) q) = moved m a b"
proof
  fix x
  have "move_path b a x \<in> fst ` set nodes \<longleftrightarrow> m (move_path b a x) \<noteq> None" and "move_path b a x \<noteq> b"
    if "vpath_ok x"
  proof -
    have within: "is_within (move_path b a x) a" using move_path_within[OF paths(1) that] .
    then show ne: "move_path b a x \<noteq> b" using paths(4) by metis
    then show "move_path b a x \<in> fst ` set nodes \<longleftrightarrow> m (move_path b a x) \<noteq> None"
      using within nodes by (force simp: subtree_of_def)
  qed
  then show "grafted (m(b := None)) a b (fst ` set nodes)
      (\<lambda>q. if is_within q a then None else (m(b := None)) q) x = moved m a b x"
    using free by (auto simp: grafted_def moved_def)
qed

lemma wp_rebase_checked:
  assumes "vpath_ok q" "vpath_ok a" "vpath_ok b" "b \<noteq> root" "is_within q a"
  shows "wp (rebase_checked q a b)
    (\<lambda>d t. t = v \<and> d = move_path a b q \<and> rebase q a b = Inr (Some d))
    (\<lambda>e t. t = v \<and> e = Vfs_Path Path_PlatformPrefix \<and> \<not> no_drive (components b)) v"
  using rebase_Some[OF assms] by (auto simp: rebase_checked_def wp_simps)

lemma wp_move_record:
  assumes u: "vfs_inv env u"
    and nodes: "\<And>q r. (q, r) \<in> set nodes \<Longrightarrow> vpath_ok q \<and> q \<noteq> root"
  shows "wp (forS nodes (\<lambda>(q, r). record_write env q))
    (\<lambda>_ t. books env u t \<and> (\<forall>x \<in> set nodes. bt_contains (vf_write_set t) (fst x) \<and> True))
    (\<lambda>e t. books env u t \<and> ev_fail e t) u"
proof (rule wp_record_loop[OF u])
  fix x t assume "x \<in> set nodes" and t: "books env u t"
  then have "vpath_ok (fst x)" "fst x \<noteq> root" using nodes[of "fst x" "snd x"] by auto
  then show "wp (case x of (q, r) \<Rightarrow> record_write env q)
      (\<lambda>_ u. books env t u \<and> bt_contains (vf_write_set u) (fst x) \<and> True)
      (\<lambda>e u. books env t u \<and> ev_fail e u) t"
    using wp_record_write[OF books_inv[OF t]] by (simp add: split_beta)
qed

lemma wp_move_targets:
  assumes u: "vfs_inv env u" and paths: "vpath_ok a" "vpath_ok b" "b \<noteq> root"
    and nodes: "\<And>q r. (q, r) \<in> set nodes \<Longrightarrow> vpath_ok q \<and> is_within q a"
  shows "wp (forS nodes (\<lambda>(q, r).
         bindS (rebase_checked q a b) (\<lambda>d.
         bindS (record_write env d) (\<lambda>_.
           on_evidence (ev_reserve 0 (case base_origin r of None \<Rightarrow> 0 | Some o1 \<Rightarrow> len64 (as_str o1)))))))
    (\<lambda>_ t. books env u t \<and> (\<forall>x \<in> set nodes. bt_contains (vf_write_set t) (move_path a b (fst x)) \<and>
       rebase (fst x) a b = Inr (Some (move_path a b (fst x)))))
    (\<lambda>e t. books env u t \<and>
       (ev_fail e t \<or> e = Vfs_Path Path_PlatformPrefix \<and> \<not> no_drive (components b))) u"
proof (rule wp_record_loop[OF u])
  fix x t assume x: "x \<in> set nodes" and t: "books env u t"
  obtain q r where qr: "x = (q, r)" by fastforce
  let ?d = "move_path a b q"
  have q: "vpath_ok q" "is_within q a" using nodes x qr by auto
  have d: "vpath_ok ?d" "?d \<noteq> root"
    using move_path_ok[OF paths(2) q(1)] move_path_within[OF paths(2) q(1)] paths(3)
      is_within_cases[OF vpath_ok_root paths(2)] by metis+
  have reserve: "wp (on_evidence (ev_reserve 0 n))
      (\<lambda>_ w. books env t w \<and> bt_contains (vf_write_set w) ?d) (\<lambda>e w. books env t w \<and> ev_fail e w) s"
    if s: "books env t s" "bt_contains (vf_write_set s) ?d" for s n
    by (rule wp_mono[OF wp_reserve_books[OF books_inv[OF s(1)]]])
       (use s books_trans[OF s(1)] in \<open>auto simp: books_def fs_advances_def\<close>)
  have tail: "wp (bindS (record_write env ?d) (\<lambda>_. on_evidence (ev_reserve 0 n)))
      (\<lambda>_ w. books env t w \<and> bt_contains (vf_write_set w) ?d) (\<lambda>e w. books env t w \<and> ev_fail e w) t" for n
    unfolding wp_bindS
    by (rule wp_use[OF wp_record_write[OF books_inv[OF t] d]]) (use reserve in auto)
  show "wp (case x of (q, r) \<Rightarrow> bindS (rebase_checked q a b) (\<lambda>d.
         bindS (record_write env d) (\<lambda>_.
           on_evidence (ev_reserve 0 (case base_origin r of None \<Rightarrow> 0 | Some o1 \<Rightarrow> len64 (as_str o1))))))
    (\<lambda>_ w. books env t w \<and> bt_contains (vf_write_set w) (move_path a b (fst x)) \<and>
       rebase (fst x) a b = Inr (Some (move_path a b (fst x))))
    (\<lambda>e w. books env t w \<and>
       (ev_fail e w \<or> e = Vfs_Path Path_PlatformPrefix \<and> \<not> no_drive (components b))) t"
    unfolding qr prod.case fst_conv wp_bindS[of "rebase_checked x a b" for x a b]
    by (rule wp_use[OF wp_rebase_checked[OF q(1) paths q(2)]]; intro allI impI; elim conjE)
       (use books_refl[OF books_inv[OF t]] in \<open>auto intro!: wp_mono[OF tail]\<close>)
qed

lemma wp_move_insert:
  assumes w: "vfs_inv env w"
    and paths: "vpath_ok a" "vpath_ok b" "a \<noteq> root" "b \<noteq> root" "\<not> is_within a b" "\<not> is_within b a"
    and src: "subtree_of (lookup w) a nodes" and look: "lookup w = m(b := None)"
    and dst: "is_dir (m (parent_of b))" "\<forall>x. is_within x b \<and> x \<noteq> b \<longrightarrow> m x = None"
    and written: "\<forall>x \<in> set nodes. bt_contains (vf_write_set w) (fst x)"
      "\<forall>x \<in> set nodes. bt_contains (vf_write_set w) (move_path a b (fst x)) \<and>
       rebase (fst x) a b = Inr (Some (move_path a b (fst x)))"
  shows "wp (bindS (forS nodes (\<lambda>(q, r). overlay_insert q Tombstone)) (\<lambda>_.
     bindS (forS nodes (\<lambda>(q, r).
         bindS (rebase_checked q a b) (\<lambda>d. overlay_insert d (Present r)))) (\<lambda>_.
     push_effect env ps ef)))
    (\<lambda>_ t. vfs_inv env t \<and> fs_advances w t \<and> lookup t = moved m a b)
    (\<lambda>e t. vfs_inv env t \<and> fs_advances w t \<and> ev_fail e t) w"
proof -
  let ?del = "map (\<lambda>(q, r). (q, Tombstone)) nodes"
  let ?ins = "map (\<lambda>(q, r). (move_path a b q, Present r)) nodes"
  let ?m2 = "\<lambda>q. if is_within q a then None else lookup w q"
  have tree: "tree (lookup w)" by (rule vfs_inv_tree[OF w])
  have ins: "forS nodes (\<lambda>(q, r). bindS (rebase_checked q a b) (\<lambda>d. overlay_insert d (Present r)))
      = modifyS (fold put_entry ?ins)"
  proof -
    have "forS nodes (\<lambda>(q, r). bindS (rebase_checked q a b) (\<lambda>d. overlay_insert d (Present r)))
        = forS nodes (\<lambda>(q, r). overlay_insert (move_path a b q) (Present r))"
      using written(2)
      by (intro forS_cong) (auto simp: rebase_checked_def liftS_def bindS_def fun_eq_iff split: prod.splits)
    then show ?thesis by (simp add: forS_overlay)
  qed
  have "\<not> is_within (parent_of b) a"
    using is_within_cases[OF paths(2,1)] paths by auto
  moreover have "parent_of b \<noteq> b" by (rule parent_of_neq[OF paths(2,4)])
  ultimately have par: "is_dir (?m2 (parent_of b))" using dst(1) look by simp
  have none: "\<forall>x. is_within x b \<longrightarrow> ?m2 x = None" using dst(2) look by auto
  have del: "fold put_files ?del (lookup w) = ?m2" by (rule subtree_tombstones[OF src])
  have graft: "tree (grafted (lookup w) a b (fst ` set nodes) ?m2)"
    "fold put_files ?ins ?m2 = grafted (lookup w) a b (fst ` set nodes) ?m2"
    using grafted_tree[OF paths(1-4) tree src tree_del_within[OF tree paths(1,3)] none par, of nodes "[]"]
    by auto
  have final: "fold put_files (?del @ ?ins) (lookup w) = moved m a b"
    using graft(2) del grafted_moved[OF paths(1,2,5,6) src[unfolded look] dst(2)]
    unfolding look by simp
  have "\<forall>pe \<in> set (?del @ ?ins). bt_contains (vf_write_set w) (fst pe)"
    using written by (auto simp: split_beta)
  moreover have "tree (fold put_files (?del @ ?ins) (lookup w))"
    using graft del by simp
  ultimately have inv: "vfs_inv env (fold put_entry (?del @ ?ins) w)"
      "fs_advances w (fold put_entry (?del @ ?ins) w)"
    using put_entries_inv[OF w] by blast+
  have look': "lookup (fold put_entry (?del @ ?ins) w) = moved m a b"
    unfolding lookup_entries by (rule final)
  show ?thesis
    unfolding ins forS_overlay[where f = "\<lambda>q. q" and g = "\<lambda>_. Tombstone"] wp_bindS wp_modifyS
    using wp_push_effect[OF inv(1), of ps ef] books_lookup[of env "fold put_entry (?del @ ?ins) w"]
      fs_advances_trans[OF inv(2)] look'
    by (auto simp: books_def elim!: wp_mono)
qed

section \<open>Rename\<close>

lemma childless_within:
  assumes "tree m" "vpath_ok b" "\<forall>c. m c \<noteq> None \<and> c \<noteq> root \<longrightarrow> parent_of c \<noteq> b" "b \<noteq> root"
    and "is_within x b" "x \<noteq> b"
  shows "m x = None"
proof -
  have "(m(b := None)) x = (if is_within x b then None else m x)"
    using tree_del_leaf(1)[OF assms(1,2,4,3)] by (rule fun_cong)
  then show ?thesis using assms(5,6) by simp
qed

lemma wp_rename_target:
  assumes "vfs_inv env v" "books env v t" "vpath_ok b" "b \<noteq> root" "lookup v b = Some dest"
  shows "wp (rename_target env a b st dest)
    (\<lambda>_ u. vfs_inv env u \<and> fs_advances v u \<and> lookup u = (lookup v)(b := None) \<and>
      (\<forall>x. is_within x b \<and> x \<noteq> b \<longrightarrow> lookup v x = None))
    (clean_error env v) t"
proof -
  note t = assms(2) and tree = vfs_inv_tree[OF assms(1)] and err = quiet_clean[OF quiet_books]
  have kids: "set (visible_children t b) = {c. lookup v c \<noteq> None \<and> c \<noteq> root \<and> parent_of c = b}"
    using vfs_inv_children(2)[OF assms(1,3)] books_children[OF t assms(1,3)] by simp
  have fin: "wp (bindS (record_write env b) (\<lambda>_. overlay_insert b Tombstone))
    (\<lambda>_ u. vfs_inv env u \<and> fs_advances v u \<and> lookup u = (lookup v)(b := None) \<and>
      (\<forall>x. is_within x b \<and> x \<noteq> b \<longrightarrow> lookup v x = None)) (clean_error env v) t"
    if leaf: "\<forall>c. lookup v c \<noteq> None \<and> c \<noteq> root \<longrightarrow> parent_of c \<noteq> b"
  proof -
    have tree': "tree ((lookup v)(b := entry_node Tombstone))"
      using tree_del_leaf(2)[OF tree assms(3,4) leaf] by simp
    have set: "vfs_inv env (u\<lparr>vf_overlay := bt_insert b Tombstone (vf_overlay u)\<rparr>) \<and>
        fs_advances v (u\<lparr>vf_overlay := bt_insert b Tombstone (vf_overlay u)\<rparr>) \<and> lookup u = lookup v"
      if u: "books env t u" "bt_contains (vf_write_set u) b" for u
    proof -
      have vu: "books env v u" by (rule books_trans[OF t u(1)])
      have l: "lookup u = lookup v" by (rule books_lookup[OF vu])
      have "fs_advances v u" using vu by (simp add: books_def)
      then show ?thesis
        using overlay_step[OF books_inv[OF vu] u(2), of Tombstone] tree' fs_advances_trans[of v u] l by simp
    qed
    show ?thesis
      unfolding overlay_insert_def wp_simps
      by (rule wp_use[OF wp_record_write[OF books_inv[OF t] assms(3,4)]])
         (use set childless_within[OF tree assms(3) leaf assms(4)] err[OF books_trans[OF t]] in auto)
  qed
  have "\<forall>c. lookup v c \<noteq> None \<and> c \<noteq> root \<longrightarrow> parent_of c \<noteq> b"
    if "visible_children t b = [] \<or> \<not> is_dir (lookup v b)"
    using that kids tree_parent[OF tree] by (metis (mono_tags, lifting) empty_iff empty_set mem_Collect_eq)
  then show ?thesis
    unfolding rename_target_def wp_bindS[of "getS g" for g] wp_basic prod.case
    using fin err[OF t] assms(5) by (auto simp: wp_basic)
qed

definition rename_error :: "environment \<Rightarrow> virtual_fs \<Rightarrow> vpath \<Rightarrow> vfs_error \<Rightarrow> virtual_fs \<Rightarrow> bool" where
  "rename_error env v b e t \<longleftrightarrow> vfs_inv env t \<and> fs_advances v t \<and>
     (lookup t = lookup v \<or> ev_fail e t \<or>
      e = Vfs_Path Path_PlatformPrefix \<and> \<not> no_drive (components b) \<and> lookup t = (lookup v)(b := None))"

lemma clean_rename: "clean_error env v e t \<Longrightarrow> rename_error env v b e t"
  by (auto simp: clean_error_def rename_error_def)

lemma wp_move:
  assumes u: "vfs_inv env u" "fs_advances v u" "lookup u = (lookup v)(b := None)"
    and paths: "vpath_ok a" "vpath_ok b" "a \<noteq> root" "b \<noteq> root" "\<not> is_within a b" "\<not> is_within b a"
    and dst: "is_dir (lookup v (parent_of b))" "\<forall>x. is_within x b \<and> x \<noteq> b \<longrightarrow> lookup v x = None"
  shows "wp (bindS (visible_subtree env a) (\<lambda>moving.
     bindS (forS moving (\<lambda>(q, r). record_write env q)) (\<lambda>_.
     bindS (forS moving (\<lambda>(q, r).
         bindS (rebase_checked q a b) (\<lambda>d.
         bindS (record_write env d) (\<lambda>_.
           on_evidence (ev_reserve 0 (case base_origin r of None \<Rightarrow> 0 | Some o1 \<Rightarrow> len64 (as_str o1))))))) (\<lambda>_.
     bindS (forS moving (\<lambda>(q, r). overlay_insert q Tombstone)) (\<lambda>_.
     bindS (forS moving (\<lambda>(q, r).
         bindS (rebase_checked q a b) (\<lambda>d. overlay_insert d (Present r)))) (\<lambda>_.
     push_effect env ps ef))))))
    (\<lambda>_ t. vfs_inv env t \<and> fs_advances v t \<and> lookup t = moved (lookup v) a b) (rename_error env v b) u"
proof -
  have err: "rename_error env v b e t"
    if "books env u t" "ev_fail e t \<or> e = Vfs_Path Path_PlatformPrefix \<and> \<not> no_drive (components b)" for e t
    using that books_lookup[OF that(1)] fs_advances_trans[OF u(2)] u(3)
    by (auto simp: books_def rename_error_def)
  have go: "wp (bindS (forS nodes (\<lambda>(q, r). record_write env q)) (\<lambda>_.
     bindS (forS nodes (\<lambda>(q, r).
         bindS (rebase_checked q a b) (\<lambda>d.
         bindS (record_write env d) (\<lambda>_.
           on_evidence (ev_reserve 0 (case base_origin r of None \<Rightarrow> 0 | Some o1 \<Rightarrow> len64 (as_str o1))))))) (\<lambda>_.
     bindS (forS nodes (\<lambda>(q, r). overlay_insert q Tombstone)) (\<lambda>_.
     bindS (forS nodes (\<lambda>(q, r).
         bindS (rebase_checked q a b) (\<lambda>d. overlay_insert d (Present r)))) (\<lambda>_.
     push_effect env ps ef)))))
    (\<lambda>_ t. vfs_inv env t \<and> fs_advances v t \<and> lookup t = moved (lookup v) a b) (rename_error env v b) u"
    if nodes: "subtree_of (lookup u) a nodes" for nodes
  proof -
    have ok: "vpath_ok q \<and> is_within q a" "q \<noteq> root" if "(q, r) \<in> set nodes" for q r
      using that nodes tree_path[OF vfs_inv_tree[OF u(1)]] is_within_cases[OF vpath_ok_root paths(1)] paths(3)
      by (auto simp: subtree_of_def)
    show ?thesis
      unfolding wp_bindS[of "forS nodes (\<lambda>(q, r). record_write env q)"]
    proof (rule wp_use[OF wp_move_record[OF u(1)]]; (intro allI impI; elim conjE)?)
      fix x t assume t: "books env u t" and wr: "\<forall>x \<in> set nodes. bt_contains (vf_write_set t) (fst x) \<and> True"
      show "wp (bindS (forS nodes (\<lambda>(q, r).
           bindS (rebase_checked q a b) (\<lambda>d.
           bindS (record_write env d) (\<lambda>_.
             on_evidence (ev_reserve 0 (case base_origin r of None \<Rightarrow> 0 | Some o1 \<Rightarrow> len64 (as_str o1))))))) (\<lambda>_.
       bindS (forS nodes (\<lambda>(q, r). overlay_insert q Tombstone)) (\<lambda>_.
       bindS (forS nodes (\<lambda>(q, r).
           bindS (rebase_checked q a b) (\<lambda>d. overlay_insert d (Present r)))) (\<lambda>_.
       push_effect env ps ef))))
      (\<lambda>_ t. vfs_inv env t \<and> fs_advances v t \<and> lookup t = moved (lookup v) a b) (rename_error env v b) t"
        unfolding wp_bindS[of "forS nodes (\<lambda>(q, r). bindS (rebase_checked q a b) (\<lambda>d.
           bindS (record_write env d) (\<lambda>_. on_evidence (e r))))" for e]
      proof (rule wp_use[OF wp_move_targets[OF books_inv[OF t] paths(1,2,4)]]; (intro allI impI; elim conjE)?)
        fix y w assume w: "books env t w" and wr2: "\<forall>x \<in> set nodes.
          bt_contains (vf_write_set w) (move_path a b (fst x)) \<and>
          rebase (fst x) a b = Inr (Some (move_path a b (fst x)))"
        have uw: "books env u w" by (rule books_trans[OF t w])
        have look: "lookup w = (lookup v)(b := None)" using books_lookup[OF uw] u(3) by simp
        have vw: "fs_advances v w" using fs_advances_trans[OF u(2)] uw by (simp add: books_def)
        have "\<forall>x \<in> set nodes. bt_contains (vf_write_set w) (fst x)"
          using wr w by (simp add: books_def fs_advances_def)
        note ins = wp_move_insert[OF books_inv[OF uw] paths nodes[folded books_lookup[OF uw]] look dst this wr2]
        show "wp (bindS (forS nodes (\<lambda>(q, r). overlay_insert q Tombstone)) (\<lambda>_.
         bindS (forS nodes (\<lambda>(q, r).
             bindS (rebase_checked q a b) (\<lambda>d. overlay_insert d (Present r)))) (\<lambda>_.
         push_effect env ps ef)))
        (\<lambda>_ t. vfs_inv env t \<and> fs_advances v t \<and> lookup t = moved (lookup v) a b) (rename_error env v b) w"
          by (rule wp_mono[OF ins]) (use fs_advances_trans[OF vw] in \<open>auto simp: rename_error_def\<close>)
      qed (use ok err books_trans[OF t] in blast)+
    qed (use ok err in blast)+
  qed
  show ?thesis
    unfolding wp_bindS[of "visible_subtree e q" for e q]
    by (rule wp_use[OF wp_visible_subtree[OF u(1) paths(1,3)]]) (use go err in auto)
qed

lemma wp_mono_error:
  "wp m Q (clean_error env v) t \<Longrightarrow> wp m Q (rename_error env v b) t"
  by (auto elim: wp_mono intro: clean_rename)

lemma wp_rename:
  assumes "vfs_inv env v" "vpath_ok a" "vpath_ok b"
  shows "wp (rename env a b)
    (\<lambda>_ t. a \<noteq> root \<and> b \<noteq> root \<and> (a = b \<and> t = v \<or>
      \<not> is_within a b \<and> \<not> is_within b a \<and> lookup v a \<noteq> None \<and> is_dir (lookup v (parent_of b)) \<and>
      (\<forall>x. is_within x b \<and> x \<noteq> b \<longrightarrow> lookup v x = None) \<and>
      vfs_inv env t \<and> fs_advances v t \<and> lookup t = moved (lookup v) a b))
    (rename_error env v b) v" (is "wp _ ?Q ?E v")
proof -
  note err = quiet_clean[OF quiet_books, THEN clean_rename]
  let ?move = "\<lambda>source_state. bindS (visible_subtree env a) (\<lambda>moving.
     bindS (forS moving (\<lambda>(q, r). record_write env q)) (\<lambda>_.
     bindS (forS moving (\<lambda>(q, r).
         bindS (rebase_checked q a b) (\<lambda>d.
         bindS (record_write env d) (\<lambda>_.
           on_evidence (ev_reserve 0 (case base_origin r of None \<Rightarrow> 0 | Some o1 \<Rightarrow> len64 (as_str o1))))))) (\<lambda>_.
     bindS (forS moving (\<lambda>(q, r). overlay_insert q Tombstone)) (\<lambda>_.
     bindS (forS moving (\<lambda>(q, r).
         bindS (rebase_checked q a b) (\<lambda>d. overlay_insert d (Present r)))) (\<lambda>_.
     push_effect env [a, b] (Rename a b source_state source_state))))))"
  let ?rest = "bindS (getS (\<lambda>v. map_option (current_state v) (resolve v a))) (\<lambda>source. case source of
       None \<Rightarrow> failS (Vfs_NotFound a)
     | Some source_state \<Rightarrow>
     bindS (getS (\<lambda>v. resolve v b)) (\<lambda>destination.
     bindS (case destination of None \<Rightarrow> returnS ()
            | Some dest \<Rightarrow> rename_target env a b source_state dest) (\<lambda>_. ?move source_state)))"
  have rest: "wp ?rest ?Q ?E t"
    if t: "books env v t" and paths: "a \<noteq> root" "b \<noteq> root" "\<not> is_within a b" "\<not> is_within b a"
      and par: "is_dir (lookup v (parent_of b))" for t
  proof (cases "lookup v a")
    case None
    then show ?thesis
      unfolding wp_get_lookup(2)[OF t assms(1,2)] using err[OF t] by (simp add: wp_basic)
  next
    case (Some r)
    have move: "wp (?move st) ?Q ?E u"
      if u: "vfs_inv env u" "fs_advances v u" "lookup u = (lookup v)(b := None)"
        "\<forall>x. is_within x b \<and> x \<noteq> b \<longrightarrow> lookup v x = None" for u st
      by (rule wp_mono[OF wp_move[OF u(1-3) assms(2,3) paths par u(4)]]) (use Some paths par u in auto)
    have "wp (bindS (case lookup v b of None \<Rightarrow> returnS ()
            | Some dest \<Rightarrow> rename_target env a b st dest) (\<lambda>_. ?move st)) ?Q ?E t" for st
    proof (cases "lookup v b")
      case None
      have "\<forall>x. is_within x b \<and> x \<noteq> b \<longrightarrow> lookup v x = None"
        using tree_childless[OF vfs_inv_tree[OF assms(1)] assms(3)] None by simp
      moreover have "lookup t = (lookup v)(b := None)" using books_lookup[OF t] None by auto
      ultimately have "wp (?move st) ?Q ?E t" using move t by (simp add: books_def)
      then show ?thesis using None by simp
    next
      case (Some dest)
      show ?thesis
        unfolding Some option.case wp_bindS[of "rename_target e x y z w" for e x y z w]
        by (rule wp_use[OF wp_rename_target[OF assms(1) t assms(3) paths(2) Some]])
           (use move clean_rename in blast)+
    qed
    then show ?thesis
      unfolding wp_get_lookup(2)[OF t assms(1,2)] Some option.map option.case
        wp_get_lookup(1)[OF t assms(1,3), of "\<lambda>x. x"] by blast
  qed
  have checks: "wp (bindS (record_metadata env a) (\<lambda>_. bindS (record_metadata env b) (\<lambda>_.
      bindS (require_parent env b) (\<lambda>_. ?rest)))) ?Q ?E v"
    if paths: "a \<noteq> root" "b \<noteq> root" "\<not> is_within a b" "\<not> is_within b a"
    unfolding wp_bindS[of "record_metadata e q" for e q] wp_bindS[of "require_parent e q" for e q]
  proof (rule wp_use[OF wp_record_metadata[OF assms(1)]]; (intro allI impI; elim conjE)?)
    fix x t assume t: "books env v t"
    show "wp (record_metadata env b) (\<lambda>_. wp (require_parent env b) (\<lambda>_. wp ?rest ?Q ?E) ?E) ?E t"
    proof (rule wp_use[OF wp_record_metadata[OF books_inv[OF t]]]; (intro allI impI; elim conjE)?)
      fix x u assume "books env t u"
      then have u: "books env v u" by (rule books_trans[OF t])
      show "wp (require_parent env b) (\<lambda>_. wp ?rest ?Q ?E) ?E u"
        by (rule wp_use[OF wp_require_parent[OF books_inv[OF u] assms(3) paths(2)]])
           (use rest[OF _ paths] books_trans[OF u] books_lookup[OF u] err in auto)
    qed (use err books_trans[OF t] in blast)
  qed (use err in blast)
  note ev = err[OF books_refl[OF assms(1)]]
  have "wp (bindS (ensure_mutable a) (\<lambda>_. bindS (ensure_mutable b) (\<lambda>_.
     if a = b then returnS ()
     else if is_within b a \<or> is_within a b then failS (InvalidRename a b)
     else bindS (record_metadata env a) (\<lambda>_. bindS (record_metadata env b) (\<lambda>_.
      bindS (require_parent env b) (\<lambda>_. ?rest)))))) ?Q ?E v"
    unfolding wp_bindS[of "ensure_mutable q" for q]
    using ev checks by (auto simp: wp_ensure_mutable wp_basic)
  then show ?thesis
    unfolding rename_def wp_bindS[of check_evidence]
    by (intro wp_use[OF wp_check]) (use ev in auto)
qed

end
