(* ===== verification/VfsDiff.thy ===== *)
theory VfsDiff
  imports VfsMove
begin

text \<open>
  The canonical diff of a transaction: its entries are exactly the paths whose state changed, in
  order, classified, and each of them has a recorded write precondition.  A diff that was
  produced here passes the validation of decoded diffs.  The last section is the transaction as
  a state machine: any sequence of operations, failing ones included, keeps the invariant.
\<close>

section \<open>Candidates\<close>

text \<open>
  On a tree the expansion of deleted directories finds only paths that have overlay entries of
  their own.
\<close>

lemma expand_deletes_sets:
  assumes "expand_deletes b es cs xs = (cs', xs')"
  shows "set cs' = fst ` set es \<union> set cs"
    "set xs' \<subseteq> set xs \<union> (\<Union>(p, e) \<in> set es. if e = Tombstone then set (subtree_paths b p) else {})"
    "bs_ok cs \<Longrightarrow> bs_ok cs'"
  using assms
  by (induction b es cs xs rule: expand_deletes.induct) (force split: if_splits)+

lemma tombstone_subtree:
  assumes inv: "vfs_inv env v" and tomb: "map_of (vf_overlay v) p = Some Tombstone"
    and q: "q \<in> set (subtree_paths (vf_base v) p)"
  shows "q \<in> fst ` set (vf_overlay v)"
proof (rule ccontr)
  assume out: "q \<notin> fst ` set (vf_overlay v)"
  have snap: "snap_ok (vf_base v)" using inv by (simp add: vfs_inv_def)
  have p: "vpath_ok p" using vfs_inv_keys[OF inv] tomb by (force dest: map_of_SomeD)
  have "q \<in> fst ` set (bs_nodes (vf_base v))" "is_within q p"
    using q set_subtree_paths[OF snap p] by auto
  then have "map_of (bs_nodes (vf_base v)) q \<noteq> None" by (metis map_of_eq_None_iff)
  moreover have "map_of (vf_overlay v) q = None" using out by (simp add: map_of_eq_None_iff)
  ultimately have "lookup v q \<noteq> None" by (simp add: resolve_unshadowed_def base_node_def)
  moreover have "q \<noteq> p" using out tomb by (force dest: map_of_SomeD)
  ultimately have "is_dir (lookup v p)"
    using tree_ancestor[OF vfs_inv_tree[OF inv] _ p \<open>is_within q p\<close>] by blast
  then show False using tomb by (simp add: resolve_unshadowed_def is_dir_def)
qed

lemma diff_candidates_overlay:
  assumes inv: "vfs_inv env v"
  shows "set (fst (diff_candidates v)) = fst ` set (vf_overlay v)" "bs_ok (fst (diff_candidates v))"
proof -
  obtain cs xs where ex: "expand_deletes (vf_base v) (vf_overlay v) [] [] = (cs, xs)" by fastforce
  have ov: "bt_ok (vf_overlay v)" using inv by (simp add: vfs_inv_def)
  note sets = expand_deletes_sets[OF ex]
  have "set xs \<subseteq> fst ` set (vf_overlay v)"
  proof
    fix q assume "q \<in> set xs"
    then obtain p where "(p, Tombstone) \<in> set (vf_overlay v)" "q \<in> set (subtree_paths (vf_base v) p)"
      using sets(2) by (auto split: if_splits)
    then show "q \<in> fst ` set (vf_overlay v)"
      using tombstone_subtree[OF inv] bt_entry_iff[OF ov] by blast
  qed
  then have "set (bs_extend xs cs) = fst ` set (vf_overlay v)" using sets(1) by auto
  moreover have "\<not> is_root p" if "p \<in> fst ` set (vf_overlay v)" for p
    using vfs_inv_keys[OF inv] that is_root_iff by blast
  ultimately show "set (fst (diff_candidates v)) = fst ` set (vf_overlay v)"
    unfolding diff_candidates_def ex prod.case fst_conv set_filter by blast
  show "bs_ok (fst (diff_candidates v))"
    using sets(3) bs_ok_extend[of cs xs] by (simp add: diff_candidates_def ex bs_ok_def sorted_wrt_filter)
qed

section \<open>States after the transaction\<close>

text \<open>The state a candidate is given: read from the node, or materialized first.\<close>

definition final_state :: "environment \<Rightarrow> virtual_fs \<Rightarrow> vpath \<Rightarrow> node_state option \<Rightarrow> bool" where
  "final_state env v p st \<longleftrightarrow> (case lookup v p of
     None \<Rightarrow> st = None
   | Some r \<Rightarrow> (\<exists>s w. st = Some s \<and>
       (s = node_state_in w (res_node r) \<or> (\<exists>w'. materialized_state env (res_node r) p w = (Inr s, w')))))"

lemma wp_after_state:
  assumes "vfs_inv env v" "vpath_ok p"
  shows "wp (after_state env v p) (\<lambda>st _. final_state env v p st) (\<lambda>_ _. True) s"
proof -
  have mat: "wp (\<lambda>(w, n). case materialized_state env (res_node r) p w of
           (x, w') \<Rightarrow> (map_err Vfs_Snapshot x, w', n)) (\<lambda>st _. final_state env v p (Some st)) (\<lambda>_ _. True) s"
    if "lookup v p = Some r" for r s
  proof -
    obtain x w' where m: "materialized_state env (res_node r) p (fst s) = (x, w')" by fastforce
    then show ?thesis
      using that by (cases x; cases s) (auto simp: wp_def final_state_def)
  qed
  show ?thesis
  proof (cases "lookup v p")
    case None
    then show ?thesis
      by (simp add: after_state_def vfs_inv_resolve[OF assms] wp_simps final_state_def)
  next
    case (Some r)
    have direct: "final_state env v p (Some (node_state_in w (res_node r)))" for w
      using Some by (auto simp: final_state_def)
    show ?thesis
      unfolding after_state_def vfs_inv_resolve[OF assms] Some option.case wp_bindS wp_basic wp_modifyS wp_if
      by (cases s) (auto simp: direct intro: mat[OF Some])
  qed
qed

lemma wp_after_states:
  assumes "vfs_inv env v" "\<forall>p \<in> set ps. vpath_ok p"
  shows "wp (after_states env v ps) (\<lambda>sts _. list_all2 (final_state env v) ps sts) (\<lambda>_ _. True) s"
  using assms(2)
proof (induction ps arbitrary: s)
  case (Cons p ps)
  show ?case
    unfolding after_states.simps wp_bindS
    by (rule wp_use[OF wp_after_state[OF assms(1)]]) (use Cons in \<open>auto simp: wp_simps elim!: wp_mono\<close>)
qed (simp add: wp_simps)

section \<open>The diff\<close>

definition entry_ok :: "environment \<Rightarrow> virtual_fs \<Rightarrow> world \<Rightarrow> diff_entry \<Rightarrow> bool" where
  "entry_ok env v w e \<longleftrightarrow>
     entry_path e \<noteq> root \<and> bt_contains (vf_write_set v) (entry_path e) \<and>
     entry_before e = before_state w v (entry_path e) \<and>
     final_state env v (entry_path e) (entry_after e) \<and>
     entry_before e \<noteq> entry_after e \<and>
     entry_kind e = classify_diff (entry_before e) (entry_after e)"

text \<open>A path without an entry looks as it does in the base.\<close>

definition unchanged :: "environment \<Rightarrow> virtual_fs \<Rightarrow> world \<Rightarrow> vpath \<Rightarrow> bool" where
  "unchanged env v w p \<longleftrightarrow>
     lookup v p = map_option (\<lambda>n. \<lparr>res_node = n, base_origin = Some p\<rparr>) (base_node v p) \<or>
     final_state env v p (before_state w v p)"

definition diff_ok :: "environment \<Rightarrow> virtual_fs \<Rightarrow> world \<Rightarrow> canonical_diff \<Rightarrow> bool" where
  "diff_ok env v w d \<longleftrightarrow>
     sorted_wrt (<) (map entry_path (cd_entries d)) \<and>
     (\<forall>e \<in> set (cd_entries d). entry_ok env v w e) \<and>
     (\<forall>p. p \<notin> entry_path ` set (cd_entries d) \<longrightarrow> unchanged env v w p) \<and>
     cd_digest d = diff_digest (env_blake3 env) (concat (map encode_diff_entry (cd_entries d)))"

lemma diff_entries_paths:
  "map entry_path (diff_entries w v pairs) = map fst (filter (\<lambda>(p, after). before_state w v p \<noteq> after) pairs)"
  by (induction pairs) (auto simp: diff_entries_def)

lemma diff_entries_ok:
  assumes inv: "vfs_inv env v" and cs: "cs = fst (diff_candidates v)"
    and sts: "list_all2 (final_state env v) cs sts"
  shows "sorted_wrt (<) (map entry_path (diff_entries w v (zip cs sts)))"
    "\<forall>e \<in> set (diff_entries w v (zip cs sts)). entry_ok env v w e"
    "\<forall>p. p \<notin> entry_path ` set (diff_entries w v (zip cs sts)) \<longrightarrow> unchanged env v w p"
proof -
  note cand = diff_candidates_overlay[OF inv, folded cs]
  have len: "length cs = length sts" using sts by (rule list_all2_lengthD)
  have "sorted_wrt (<) (map fst (zip cs sts))" using cand(2) len by (simp add: bs_ok_def)
  then have "sorted_wrt (\<lambda>x y. fst x < fst y) (zip cs sts)" by (simp add: sorted_wrt_map)
  then show "sorted_wrt (<) (map entry_path (diff_entries w v (zip cs sts)))"
    unfolding diff_entries_paths sorted_wrt_map by (rule sorted_wrt_filter)
  have pair: "final_state env v p st" if "(p, st) \<in> set (zip cs sts)" for p st
    using sts that by (auto simp: list_all2_iff)
  have key: "p \<noteq> root" "bt_contains (vf_write_set v) p" if "(p, st) \<in> set (zip cs sts)" for p st
  proof -
    have "p \<in> fst ` set (vf_overlay v)" using set_zip_leftD[OF that] cand(1) by simp
    then show "p \<noteq> root" "bt_contains (vf_write_set v) p"
      using vfs_inv_keys[OF inv] inv by (auto simp: vfs_inv_def overlay_recorded_def)
  qed
  show "\<forall>e \<in> set (diff_entries w v (zip cs sts)). entry_ok env v w e"
    using pair key by (auto simp: diff_entries_def entry_ok_def)
  show "\<forall>p. p \<notin> entry_path ` set (diff_entries w v (zip cs sts)) \<longrightarrow> unchanged env v w p"
  proof (intro allI impI)
    fix p assume out: "p \<notin> entry_path ` set (diff_entries w v (zip cs sts))"
    show "unchanged env v w p"
    proof (cases "p \<in> set cs")
      case True
      then obtain st where st: "(p, st) \<in> set (zip cs sts)"
        using len by (metis in_set_impl_in_set_zip1)
      have "before_state w v p = st"
      proof (rule ccontr)
        assume "before_state w v p \<noteq> st"
        then have "p \<in> fst ` set (filter (\<lambda>(p, after). before_state w v p \<noteq> after) (zip cs sts))"
          using st by force
        then show False using out diff_entries_paths[of w v "zip cs sts"] by (metis list.set_map)
      qed
      then show ?thesis using pair[OF st] by (simp add: unchanged_def)
    next
      case False
      then have "map_of (vf_overlay v) p = None" using cand(1) by (simp add: map_of_eq_None_iff)
      then show ?thesis by (simp add: unchanged_def resolve_unshadowed_def)
    qed
  qed
qed

lemma wp_canonical_diff:
  assumes inv: "vfs_inv env v"
  shows "wp (canonical_diff_op env)
    (\<lambda>d t. t = v\<lparr>vf_world := vf_world t\<rparr> \<and> ev_failure (vf_evidence v) = None \<and> diff_ok env v (vf_world t) d)
    (\<lambda>_ t. t = v\<lparr>vf_world := vf_world t\<rparr>) v"
proof -
  obtain cs xs where cand: "diff_candidates v = (cs, xs)" by fastforce
  obtain r w n where run: "after_states env v cs (vf_world v, 0) = (r, w, n)" by (metis prod_cases3)
  have ok: "\<forall>p \<in> set cs. vpath_ok p"
    using diff_candidates_overlay(1)[OF inv] vfs_inv_keys[OF inv] cand by simp
  have sts: "list_all2 (final_state env v) cs sts" if "r = Inr sts" for sts
    using wp_after_states[OF inv ok, of "(vf_world v, 0)"] run that by (simp add: wp_def)
  have body: "wp (\<lambda>v. case diff_candidates v of (candidates, expanded) \<Rightarrow>
       (case after_states env v candidates (vf_world v, 0) of
          (Inl e, w, _) \<Rightarrow> (Err e, v\<lparr>vf_world := w\<rparr>)
        | (Inr afters, w, n) \<Rightarrow>
            let entries = diff_entries w v (zip candidates afters) in
            (Ok \<lparr>cd_entries = entries,
                 cd_digest = diff_digest (env_blake3 env) (concat (map encode_diff_entry entries)),
                 cd_metrics = \<lparr>candidate_paths = length candidates,
                   expanded_delete_paths = length expanded, changed_paths = length entries,
                   materialized_after_bytes = n\<rparr>\<rparr>,
             v\<lparr>vf_world := w\<rparr>)))
      (\<lambda>d t. t = v\<lparr>vf_world := vf_world t\<rparr> \<and> diff_ok env v (vf_world t) d)
      (\<lambda>_ t. t = v\<lparr>vf_world := vf_world t\<rparr>) v"
    using diff_entries_ok[OF inv, of cs _ w] sts cand
    by (cases r) (simp_all add: wp_def cand run Let_def diff_ok_def)
  have chk: "wp check_evidence (\<lambda>_ t. t = v \<and> ev_failure (vf_evidence v) = None) (\<lambda>_ t. t = v) v"
    by (auto simp: wp_def check_evidence_def ev_check_def split: option.splits)
  show ?thesis
    unfolding canonical_diff_op_def wp_bindS
    by (rule wp_use[OF chk]) (use body in \<open>auto elim!: wp_mono\<close>)
qed

text \<open>A produced diff is accepted when it is decoded again.\<close>

lemma check_entries_total:
  assumes "sorted_wrt (<) (map entry_path es)"
    and "\<forall>e \<in> set es. entry_path e \<noteq> root \<and> entry_before e \<noteq> entry_after e \<and>
      entry_kind e = classify_diff (entry_before e) (entry_after e) \<and>
      (\<forall>q. prev = Some q \<longrightarrow> q < entry_path e)"
  shows "\<exists>n'. check_entries prev n es = Inr n'"
  using assms
proof (induction es arbitrary: prev n)
  case (Cons e es)
  have "\<not> is_root (entry_path e)" "\<not> (case prev of Some q \<Rightarrow> entry_path e \<le> q | None \<Rightarrow> False)"
    using Cons.prems(2) by (auto simp: is_root_iff not_le split: option.splits)
  moreover have "\<exists>n'. check_entries (Some (entry_path e)) m es = Inr n'" for m
    using Cons.prems by (intro Cons.IH) auto
  ultimately show ?case using Cons.prems(2) by (simp add: Let_def)
qed simp

lemma diff_ok_decodes:
  assumes "diff_ok env v w d"
  shows "\<exists>d'. from_entries (env_blake3 env) (cd_entries d) = Inr d' \<and>
    cd_entries d' = cd_entries d \<and> cd_digest d' = cd_digest d"
proof -
  have "\<exists>n. check_entries None 0 (cd_entries d) = Inr n"
    by (rule check_entries_total) (use assms in \<open>auto simp: diff_ok_def entry_ok_def\<close>)
  then show ?thesis using assms by (auto simp: from_entries_def diff_ok_def)
qed

text \<open>What validation accepts, whatever the entries come from.\<close>

lemma check_entries_Inr:
  assumes "check_entries prev n es = Inr n'"
  shows "sorted_wrt (<) (map entry_path es)"
    "\<forall>e \<in> set es. entry_path e \<noteq> root \<and> entry_before e \<noteq> entry_after e \<and>
      entry_kind e = classify_diff (entry_before e) (entry_after e) \<and>
      (\<forall>q. prev = Some q \<longrightarrow> q < entry_path e)"
proof -
  have "sorted_wrt (<) (map entry_path es) \<and>
    (\<forall>e \<in> set es. entry_path e \<noteq> root \<and> entry_before e \<noteq> entry_after e \<and>
      entry_kind e = classify_diff (entry_before e) (entry_after e) \<and>
      (\<forall>q. prev = Some q \<longrightarrow> q < entry_path e))"
    using assms
  proof (induction es arbitrary: prev n)
    case (Cons e es)
    then have rec: "check_entries (Some (entry_path e))
        (saturating_add n (case entry_after e of None \<Rightarrow> 0 | Some st \<Rightarrow> nsize st)) es = Inr n'"
      and here: "entry_path e \<noteq> root" "\<forall>q. prev = Some q \<longrightarrow> q < entry_path e"
        "entry_before e \<noteq> entry_after e" "entry_kind e = classify_diff (entry_before e) (entry_after e)"
      by (auto simp: Let_def is_root_iff not_le split: if_splits option.splits)
    from Cons.IH[OF rec] here show ?case by (auto intro: less_trans)
  qed simp
  then show "sorted_wrt (<) (map entry_path es)"
    "\<forall>e \<in> set es. entry_path e \<noteq> root \<and> entry_before e \<noteq> entry_after e \<and>
      entry_kind e = classify_diff (entry_before e) (entry_after e) \<and>
      (\<forall>q. prev = Some q \<longrightarrow> q < entry_path e)" by blast+
qed

section \<open>Transactions as runs\<close>

datatype vfs_call =
  CallMetadata vpath | CallExists vpath | CallRead vpath | CallReadLink vpath | CallReadDir vpath nat
| CallWrite vpath bytes | CallAppend vpath bytes | CallMkdir vpath u32 | CallSetMode vpath u32
| CallUnlink vpath | CallRmdir vpath | CallRemoveTree vpath | CallRename vpath vpath | CallDiff

definition ignore :: "('s, 'e, 'a) op \<Rightarrow> ('s, 'e, unit) op" where
  "ignore m = bindS m (\<lambda>_. returnS ())"

fun vfs_exec :: "environment \<Rightarrow> vfs_call \<Rightarrow> unit vfs_op" where
  "vfs_exec env (CallMetadata p) = ignore (metadata env p)"
| "vfs_exec env (CallExists p) = ignore (exists_op env p)"
| "vfs_exec env (CallRead p) = ignore (read env p)"
| "vfs_exec env (CallReadLink p) = ignore (read_link env p)"
| "vfs_exec env (CallReadDir p n) = ignore (read_dir_with_limit env p n)"
| "vfs_exec env (CallWrite p b) = write_file env p b"
| "vfs_exec env (CallAppend p b) = append env p b"
| "vfs_exec env (CallMkdir p m) = mkdir env p m"
| "vfs_exec env (CallSetMode p m) = set_mode env p m"
| "vfs_exec env (CallUnlink p) = unlink env p"
| "vfs_exec env (CallRmdir p) = rmdir env p"
| "vfs_exec env (CallRemoveTree p) = remove_tree env p"
| "vfs_exec env (CallRename p q) = rename env p q"
| "vfs_exec env CallDiff = ignore (canonical_diff_op env)"

text \<open>Paths are values of \<open>VPath\<close>, which only parsing constructs.\<close>

fun call_ok :: "vfs_call \<Rightarrow> bool" where
  "call_ok (CallMetadata p) \<longleftrightarrow> vpath_ok p"
| "call_ok (CallExists p) \<longleftrightarrow> vpath_ok p"
| "call_ok (CallRead p) \<longleftrightarrow> vpath_ok p"
| "call_ok (CallReadLink p) \<longleftrightarrow> vpath_ok p"
| "call_ok (CallReadDir p n) \<longleftrightarrow> vpath_ok p"
| "call_ok (CallWrite p b) \<longleftrightarrow> vpath_ok p"
| "call_ok (CallAppend p b) \<longleftrightarrow> vpath_ok p"
| "call_ok (CallMkdir p m) \<longleftrightarrow> vpath_ok p"
| "call_ok (CallSetMode p m) \<longleftrightarrow> vpath_ok p"
| "call_ok (CallUnlink p) \<longleftrightarrow> vpath_ok p"
| "call_ok (CallRmdir p) \<longleftrightarrow> vpath_ok p"
| "call_ok (CallRemoveTree p) \<longleftrightarrow> vpath_ok p"
| "call_ok (CallRename p q) \<longleftrightarrow> vpath_ok p \<and> vpath_ok q"
| "call_ok CallDiff \<longleftrightarrow> True"

text \<open>The destination of a call that renames a directory below a drive-like name.\<close>

fun drive_target :: "vfs_call \<Rightarrow> vpath option" where
  "drive_target (CallRename p q) = (if no_drive (components q) then None else Some q)"
| "drive_target _ = None"

definition call_error :: "environment \<Rightarrow> vfs_call \<Rightarrow> virtual_fs \<Rightarrow> vfs_error \<Rightarrow> virtual_fs \<Rightarrow> bool" where
  "call_error env c v e t \<longleftrightarrow> vfs_inv env t \<and> fs_advances v t \<and>
     (lookup t = lookup v \<or> ev_fail e t \<or>
      e = Vfs_Path Path_PlatformPrefix \<and> (\<exists>q. drive_target c = Some q \<and> lookup t = (lookup v)(q := None)))"

lemma wp_ignore: "wp (ignore m) Q E = wp m (\<lambda>_. Q ()) E"
  by (simp add: ignore_def wp_simps)

lemma clean_call: "clean_error env v e t \<Longrightarrow> call_error env c v e t"
  by (auto simp: clean_error_def call_error_def)

lemma rename_call: "rename_error env v q e t \<Longrightarrow> call_error env (CallRename p q) v e t"
  by (auto simp: rename_error_def call_error_def)

lemma wp_append:
  assumes "vfs_inv env v" "vpath_ok p"
  shows "wp (append env p sfx)
    (\<lambda>_ t. vfs_inv env t \<and> fs_advances v t \<and> (\<exists>x. lookup t = (lookup v)(p \<mapsto> x)))
    (clean_error env v) v"
proof -
  have "wp (write_file env p b) (\<lambda>_ t. vfs_inv env t \<and> fs_advances v t \<and> (\<exists>x. lookup t = (lookup v)(p \<mapsto> x)))
      (clean_error env v) u" if u: "quiet env v u" for u b
  proof -
    have "fs_advances v u" "lookup u = lookup v" using u quiet_lookup[OF u] by (auto simp: quiet_def)
    then show ?thesis
      by (intro wp_mono[OF wp_write_file[OF quiet_inv[OF u] assms(2)]])
         (auto simp: sets_def clean_error_def intro: fs_advances_trans)
  qed
  then show ?thesis
    unfolding append_def read_def wp_bindS
    by (intro wp_use[OF wp_read_content[OF assms]]) (use quiet_clean in auto)
qed

lemma wp_exists:
  assumes "vfs_inv env v" "vpath_ok p"
  shows "wp (exists_op env p)
    (\<lambda>b t. books env v t \<and> b = (lookup v p \<noteq> None)) (\<lambda>e t. books env v t \<and> ev_fail e t) v"
proof -
  obtain r t where rt: "metadata env p v = (r, t)" by fastforce
  then show ?thesis
    using wp_metadata[OF assms]
    by (cases r) (auto simp: wp_def exists_op_def ev_fail_def split: vfs_error.splits)
qed

lemma same_world:
  assumes "vfs_inv env v" "t = v\<lparr>vf_world := vf_world t\<rparr>"
  shows "quiet env v t"
proof -
  have "vfs_inv env (v\<lparr>vf_world := vf_world t\<rparr>)" "fs_advances v (v\<lparr>vf_world := vf_world t\<rparr>)"
    "vf_overlay (v\<lparr>vf_world := vf_world t\<rparr>) = vf_overlay v"
    using assms(1) fs_advances_world[of v v] by auto
  then show ?thesis unfolding quiet_def using assms(2) by metis
qed

lemma wp_exec:
  assumes "vfs_inv env v" "call_ok c"
  shows "wp (vfs_exec env c) (\<lambda>_ t. vfs_inv env t \<and> fs_advances v t) (call_error env c v) v"
proof -
  note q = quiet_clean[THEN clean_call] and b = quiet_clean[OF quiet_books, THEN clean_call]
  note i = assms(1)
  show ?thesis
  proof (cases c)
    case (CallMetadata p)
    then show ?thesis using assms b
      by (auto simp: wp_ignore books_def intro!: wp_mono[OF wp_metadata[OF i]])
  next
    case (CallExists p)
    then show ?thesis using assms b
      by (auto simp: wp_ignore books_def intro!: wp_mono[OF wp_exists[OF i]])
  next
    case (CallRead p)
    then show ?thesis using assms q
      by (auto simp: wp_ignore quiet_def read_def intro!: wp_mono[OF wp_read_content[OF i]])
  next
    case (CallReadLink p)
    then show ?thesis using assms q
      by (auto simp: wp_ignore quiet_def read_link_def intro!: wp_mono[OF wp_read_content[OF i]])
  next
    case (CallReadDir p n)
    then show ?thesis using assms b
      by (auto simp: wp_ignore books_def intro!: wp_mono[OF wp_read_dir[OF i]])
  next
    case (CallWrite p d)
    then show ?thesis using assms clean_call
      by (auto simp: sets_def intro!: wp_mono[OF wp_write_file[OF i]])
  next
    case (CallAppend p d)
    then show ?thesis using assms clean_call by (auto intro!: wp_mono[OF wp_append[OF i]])
  next
    case (CallMkdir p m)
    then show ?thesis using assms clean_call by (auto simp: sets_def intro!: wp_mono[OF wp_mkdir[OF i]])
  next
    case (CallSetMode p m)
    then show ?thesis using assms clean_call
      by (auto simp: sets_def quiet_def intro!: wp_mono[OF wp_set_mode[OF i]])
  next
    case (CallUnlink p)
    then show ?thesis using assms clean_call by (auto simp: sets_def intro!: wp_mono[OF wp_unlink[OF i]])
  next
    case (CallRmdir p)
    then show ?thesis using assms clean_call by (auto simp: sets_def intro!: wp_mono[OF wp_rmdir[OF i]])
  next
    case (CallRemoveTree p)
    then show ?thesis using assms clean_call by (auto intro!: wp_mono[OF wp_remove_tree[OF i]])
  next
    case (CallRename p r)
    then show ?thesis using assms rename_call by (auto intro!: wp_mono[OF wp_rename[OF i]])
  next
    case CallDiff
    have same: "vfs_inv env t \<and> fs_advances v t" if "quiet env v t" for t
      using that by (simp add: quiet_def)
    show ?thesis
      unfolding CallDiff vfs_exec.simps wp_ignore
      by (rule wp_mono[OF wp_canonical_diff[OF i]]) (use same same_world[OF i] q in blast)+
  qed
qed

text \<open>The states a transaction can be in, whatever its program does.\<close>

inductive reachable :: "environment \<Rightarrow> base_snapshot \<Rightarrow> virtual_fs \<Rightarrow> bool" for env b where
  start: "reachable env b (limit_evidence l (vfs_new b w))"
| call: "reachable env b v \<Longrightarrow> call_ok c \<Longrightarrow> reachable env b (snd (vfs_exec env c v))"

lemma vfs_inv_limit: "vfs_inv env v \<Longrightarrow> vfs_inv env (limit_evidence l v)"
  by (simp add: limit_evidence_def vfs_inv_def ev_limit_ok obs_sound_def writes_sound_def
      overlay_recorded_def events_ok_def base_expected_def has_metadata_def)

lemma reachable_inv:
  assumes "reachable env b v" "snap_ok b" shows "vfs_inv env v \<and> vf_base v = b"
  using assms(1)
proof (induction rule: reachable.induct)
  case (start l w)
  then show ?case using vfs_inv_limit[OF vfs_inv_new[OF assms(2)]]
    by (simp add: limit_evidence_def vfs_new_def)
next
  case (call v c)
  then have "wp (vfs_exec env c) (\<lambda>_ t. vfs_inv env t \<and> fs_advances v t) (\<lambda>_ t. vfs_inv env t \<and> fs_advances v t) v"
    by (intro wp_mono[OF wp_exec]) (auto simp: call_error_def)
  then show ?case using call.IH by (simp add: wp_snd fs_advances_def)
qed

section \<open>Compositions\<close>

text \<open>What a transaction wrote is what it reads.\<close>

lemma read_your_writes:
  assumes inv: "vfs_inv env v" and p: "vpath_ok p"
    and wr: "write_file env p b v = (Inr x, t)" and rd: "read env p t = (Inr c, u)"
  shows "env_blake3 env c = env_blake3 env b" "\<And>q. q \<noteq> p \<Longrightarrow> lookup u q = lookup v q"
proof -
  from wp_Inr[OF wp_write_file[OF inv p] wr] obtain i m w where
    put: "store_put env b (vf_world v) = (Inr i, w)" "vf_world t = w" and
    set: "sets env v p (Some \<lparr>res_node = materialized_node File i (len64 b) m, base_origin = None\<rparr>) t"
    by blast
  have t: "vfs_inv env t" "lookup t = (lookup v)(p \<mapsto> \<lparr>res_node = materialized_node File i (len64 b) m, base_origin = None\<rparr>)"
    using set by (auto simp: sets_def)
  from wp_Inr[OF wp_read_content[OF t(1) p] rd[unfolded read_def]] obtain blob w' where
    node: "node_read env (materialized_node File i (len64 b) m) p (vf_world t) = (Inr (blob, c), w')"
    and quiet: "quiet env t u"
    using t(2) by auto
  have "blob_get (env_blake3 env) (env_fault env) i (blobs w) = Inr c"
    using node put(2)
    by (auto simp: node_read_def materialized_node_def store_get_def wp_def bindS_def map_errS_def
        split: sum.splits prod.splits)
  then have "blob_digest (env_blake3 env) c = i" using blob_get_Inr by blast
  moreover have "i = blob_digest (env_blake3 env) b"
    using put(1) blob_put_Inr(1)[of "env_blake3 env"]
    by (auto simp: store_put_def split: prod.splits)
  ultimately show "env_blake3 env c = env_blake3 env b" by (simp add: blob_digest_def)
  show "lookup u q = lookup v q" if "q \<noteq> p" for q
    using quiet_lookup[OF quiet] t(2) that by simp
qed

text \<open>A removed directory that is created again is empty: nothing of the base comes back.\<close>

lemma removed_is_gone:
  assumes inv: "vfs_inv env v" and p: "vpath_ok p"
    and rm: "remove_tree env p v = (Inr x, t)" and mk: "mkdir env p m t = (Inr y, u)"
  shows "visible_children u p = []"
proof -
  from wp_Inr[OF wp_remove_tree[OF inv p] rm]
  have t: "vfs_inv env t" "lookup t = (\<lambda>q. if is_within q p then None else lookup v q)" by auto
  from wp_Inr[OF wp_mkdir[OF t(1) p] mk]
  have u: "vfs_inv env u" "\<And>q. q \<noteq> p \<Longrightarrow> lookup u q = lookup t q" "p \<noteq> root"
    by (auto simp: sets_def)
  have none: "\<not> (lookup u c \<noteq> None \<and> c \<noteq> root \<and> parent_of c = p)" for c
  proof
    assume c: "lookup u c \<noteq> None \<and> c \<noteq> root \<and> parent_of c = p"
    then have "vpath_ok c" using tree_path[OF vfs_inv_tree[OF u(1)]] by auto
    then have "is_within c p" "c \<noteq> p"
      using within_parent_of[of c] parent_of_neq[of c] c by (auto simp: strictly_in_def)
    then show False using c u(2) t(2) by simp
  qed
  have "set (visible_children u p) = {}"
    unfolding vfs_inv_children(2)[OF u(1) p] using none by blast
  then show ?thesis by simp
qed

text \<open>After the evidence budget failed, no operation does anything any more.\<close>

lemma stopped_check:
  "ev_failure (vf_evidence v) = Some f \<Longrightarrow> bindS check_evidence m v = (Inl (EvidenceLimit f), v)"
  by (simp add: bindS_def check_evidence_def ev_check_def)

lemma stopped_bind: "m v = (Inl e, v) \<Longrightarrow> bindS m f v = (Inl e, v)"
  by (simp add: bindS_def)

lemma stopped_record:
  "ev_failure (vf_evidence v) = Some f \<Longrightarrow> record_metadata env p v = (Inl (EvidenceLimit f), v)"
  by (simp add: record_metadata_def stopped_check)

lemma stopped_exec:
  assumes "ev_failure (vf_evidence v) = Some f"
  shows "vfs_exec env c v = (Inl (EvidenceLimit f), v)"
proof -
  have meta: "metadata env p v = (Inl (EvidenceLimit f), v)" for p
    by (simp add: metadata_def bindS_def[of "getS g" for g] stopped_bind stopped_record[OF assms])
  have content: "read_content env k w p v = (Inl (EvidenceLimit f), v)" for k w p
    by (simp add: read_content_def stopped_bind stopped_record[OF assms])
  note checked = stopped_check[OF assms] stopped_bind stopped_record[OF assms] meta content
  show ?thesis
    by (cases c) (simp_all add: ignore_def checked exists_op_def read_def read_link_def
        read_dir_with_limit_def write_file_def append_def mkdir_def set_mode_def unlink_def rmdir_def
        remove_tree_def rename_def canonical_diff_op_def)
qed

end
