(* ===== verification/Glob.thy ===== *)
theory Glob
  imports Paths
begin

text \<open>
  The pattern language of protected paths (\<open>PathPattern\<close>, \<open>ComponentPattern\<close> in
  \<open>crates/vsh-policy/src/lib.rs\<close>).  The two matching loops of the code, on characters and on path
  components, keep a single retry point; both are proved to decide the plain recursive relation
  \<open>wild\<close>, in which a wildcard may stand for any sequence.
\<close>

section \<open>Wildcard matching, the reference\<close>

text \<open>\<open>star p\<close>: the element is a wildcard; \<open>fits p v\<close>: it stands for the single value \<open>v\<close>.\<close>

fun wild :: "('p \<Rightarrow> bool) \<Rightarrow> ('p \<Rightarrow> 'v \<Rightarrow> bool) \<Rightarrow> 'p list \<Rightarrow> 'v list \<Rightarrow> bool" where
  "wild star fits [] vs = (vs = [])"
| "wild star fits (p # ps) [] = (star p \<and> wild star fits ps [])"
| "wild star fits (p # ps) (v # vs) =
     (if star p then wild star fits ps (v # vs) \<or> wild star fits (p # ps) vs
      else fits p v \<and> wild star fits ps vs)"

lemma wild_star:
  "star p \<Longrightarrow> wild star fits (p # ps) vs \<longleftrightarrow> (\<exists>k \<le> length vs. wild star fits ps (drop k vs))"
proof (induction vs)
  case (Cons v vs)
  have "(\<exists>k \<le> length (v # vs). wild star fits ps (drop k (v # vs))) \<longleftrightarrow>
      wild star fits ps (v # vs) \<or> (\<exists>k \<le> length vs. wild star fits ps (drop k vs))" (is "?L \<longleftrightarrow> ?R")
  proof
    assume ?L
    then obtain k where "k \<le> length (v # vs)" "wild star fits ps (drop k (v # vs))" by blast
    then show ?R by (cases k) auto
  next
    assume ?R
    then show ?L
    proof
      assume "\<exists>k \<le> length vs. wild star fits ps (drop k vs)"
      then obtain k where "k \<le> length vs" "wild star fits ps (drop k vs)" by blast
      then show ?L by (intro exI[of _ "Suc k"]) simp
    qed (intro exI[of _ 0], simp)
  qed
  with Cons show ?case by simp
qed auto

lemma wild_star_drop:
  assumes "star p" "wild star fits (p # ps) (drop j vs)" "j \<le> length vs"
  shows "wild star fits (p # ps) vs"
proof -
  obtain k where k: "k \<le> length (drop j vs)" "wild star fits ps (drop k (drop j vs))"
    using assms by (auto simp: wild_star)
  show ?thesis unfolding wild_star[of star p, OF assms(1)]
    using k assms(3) by (intro exI[of _ "k + j"]) (auto simp: drop_drop)
qed

lemma wild_literals:
  "list_all (\<lambda>p. \<not> star p) ls \<Longrightarrow> wild star fits (ls @ ps) vs \<Longrightarrow>
   length ls \<le> length vs \<and> wild star fits ps (drop (length ls) vs)"
proof (induction ls arbitrary: vs)
  case (Cons l ls)
  then show ?case by (cases vs) auto
qed simp

lemma wild_Nil: "wild star fits ps [] \<longleftrightarrow> list_all star ps"
  by (induction ps) auto

section \<open>One retry point is enough\<close>

text \<open>
  The state of a matching loop: the rest \<open>p\<close> of the pattern, the rest \<open>vs\<close> of the value and the
  retry point, the pattern \<open>q\<close> behind the last wildcard and the value \<open>c\<close> at which it was tried.
  Between the retry point and the cursor the pattern is literal.
\<close>

fun retry_inv :: "('p \<Rightarrow> bool) \<Rightarrow> ('p list \<times> 'v list) option \<Rightarrow> 'p list \<Rightarrow> 'v list \<Rightarrow> bool" where
  "retry_inv star None p vs = True"
| "retry_inv star (Some (q, c)) p vs = (\<exists>ls. q = ls @ p \<and> list_all (\<lambda>x. \<not> star x) ls \<and>
     length ls \<le> length c \<and> vs = drop (length ls) c)"

fun other_try :: "('p \<Rightarrow> bool) \<Rightarrow> ('p \<Rightarrow> 'v \<Rightarrow> bool) \<Rightarrow> ('p list \<times> 'v list) option \<Rightarrow> bool" where
  "other_try star fits None = False"
| "other_try star fits (Some (q, c)) = (\<exists>k. 0 < k \<and> k \<le> length c \<and> wild star fits q (drop k c))"

definition try_goal :: "('p \<Rightarrow> bool) \<Rightarrow> ('p \<Rightarrow> 'v \<Rightarrow> bool) \<Rightarrow> ('p list \<times> 'v list) option \<Rightarrow>
    'p list \<Rightarrow> 'v list \<Rightarrow> bool" where
  "try_goal star fits r p vs \<longleftrightarrow> wild star fits p vs \<or> other_try star fits r"

text \<open>A later try moves the rest of the pattern to a later position of the value.\<close>

lemma other_try_shifts:
  assumes "retry_inv star r p vs" "other_try star fits r"
  shows "\<exists>j. 0 < j \<and> j \<le> length vs \<and> wild star fits p (drop j vs)"
proof -
  obtain q c ls k where r: "r = Some (q, c)" "q = ls @ p" "list_all (\<lambda>x. \<not> star x) ls"
      "vs = drop (length ls) c" and k: "0 < k" "k \<le> length c" "wild star fits q (drop k c)"
    using assms by (cases r) auto
  have "length ls \<le> length (drop k c)" "wild star fits p (drop (length ls) (drop k c))"
    using wild_literals[OF r(3), of fits p "drop k c"] k r by auto
  then show ?thesis using r k
    by (intro exI[of _ k]) (auto simp: drop_drop add.commute)
qed

lemma try_end:
  assumes "retry_inv star r p []"
  shows "try_goal star fits r p [] = list_all star p"
  using other_try_shifts[OF assms, of fits] by (auto simp: try_goal_def wild_Nil)

lemma try_star:
  assumes "retry_inv star r (x # p) vs" "star x"
  shows "try_goal star fits r (x # p) vs = try_goal star fits (Some (p, vs)) p vs"
proof -
  have "wild star fits (x # p) vs" if "other_try star fits r"
    using other_try_shifts[OF assms(1) that] wild_star_drop[of star x fits p _ vs] assms(2) by blast
  moreover have "wild star fits (x # p) vs \<longleftrightarrow> wild star fits p vs \<or> other_try star fits (Some (p, vs))"
    unfolding wild_star[of star x, OF assms(2)] by (auto) (metis drop0 gr0I)
  ultimately show ?thesis by (auto simp: try_goal_def)
qed

lemma retry_inv_star: "retry_inv star (Some (p, vs)) p vs"
  by simp

lemma try_fits:
  "\<not> star x \<Longrightarrow> fits x v \<Longrightarrow> try_goal star fits r (x # p) (v # vs) = try_goal star fits r p vs"
  by (simp add: try_goal_def)

lemma retry_inv_fits:
  assumes "\<not> star x" "retry_inv star r (x # p) (v # vs)" shows "retry_inv star r p vs"
proof (cases r)
  case (Some qc)
  then obtain q c ls where r: "r = Some (q, c)" "q = ls @ x # p" "list_all (\<lambda>x. \<not> star x) ls"
      "length ls \<le> length c" "v # vs = drop (length ls) c"
    using assms(2) by (cases qc) auto
  then have "vs = drop (Suc (length ls)) c"
    by (metis drop_Suc list.sel(3) tl_drop)
  moreover have "length ls < length c" using r by (metis drop_all leI list.discI)
  ultimately show ?thesis using r assms(1)
    by (auto intro!: exI[of _ "ls @ [x]"])
qed simp

text \<open>On a mismatch the last wildcard takes one more value.\<close>

lemma try_miss:
  assumes "retry_inv star (Some (q, c)) p (v # vs)"
    and "\<not> wild star fits p (v # vs)"
  shows "c \<noteq> []"
    and "try_goal star fits (Some (q, c)) p (v # vs) = try_goal star fits (Some (q, tl c)) q (tl c)"
proof -
  show "c \<noteq> []" using assms by auto
  then obtain u us where c: "c = u # us" by (cases c) auto
  have "(\<exists>k. 0 < k \<and> k \<le> Suc (length us) \<and> wild star fits q (drop k (u # us))) \<longleftrightarrow>
      wild star fits q us \<or> (\<exists>k. 0 < k \<and> k \<le> length us \<and> wild star fits q (drop k us))"
    (is "?L \<longleftrightarrow> ?R")
  proof
    assume ?L
    then obtain k where k: "k \<le> length us" "wild star fits q (drop k us)"
      by (metis Suc_le_mono drop_Suc_Cons gr0_implies_Suc)
    then show ?R by (cases k) auto
  next
    assume ?R
    then show ?L
    proof
      assume "wild star fits q us"
      then show ?thesis by (intro exI[of _ 1]) simp
    next
      assume "\<exists>k. 0 < k \<and> k \<le> length us \<and> wild star fits q (drop k us)"
      then obtain k where "0 < k" "k \<le> length us" "wild star fits q (drop k us)" by blast
      then show ?thesis by (intro exI[of _ "Suc k"]) simp
    qed
  qed
  then show "try_goal star fits (Some (q, c)) p (v # vs) = try_goal star fits (Some (q, tl c)) q (tl c)"
    using assms(2) c by (simp add: try_goal_def)
qed

lemma wild_miss:
  assumes "\<And>x ps. p = x # ps \<Longrightarrow> \<not> star x \<and> \<not> fits x v"
  shows "\<not> wild star fits p (v # vs)"
  using assms by (cases p) auto

section \<open>Matching within a component\<close>

abbreviation asterisk :: char where "asterisk \<equiv> CHR ''*''"

definition glob :: "string \<Rightarrow> string \<Rightarrow> bool" where
  "glob = wild (\<lambda>c. c = asterisk) (=)"

text \<open>
  The loop of \<open>component_matches\<close>; the result is the pattern index at its end, \<open>None\<close> for the
  early \<open>return false\<close>.  Indices are those of the code, \<open>star\<close> and \<open>sv\<close> its retry point.
\<close>

definition loop_ordered :: "nat option \<Rightarrow> nat \<Rightarrow> nat \<Rightarrow> nat \<Rightarrow> bool" where
  "loop_ordered star pidx vidx sv \<longleftrightarrow> (case star of None \<Rightarrow> True | Some s \<Rightarrow> s < pidx \<and> sv \<le> vidx)"

function match_loop :: "string \<Rightarrow> string \<Rightarrow> nat option \<Rightarrow> nat \<Rightarrow> nat \<Rightarrow> nat \<Rightarrow> nat option" where
  "match_loop pat val star sv pidx vidx =
     (if vidx < length val then
        if pidx < length pat \<and> pat ! pidx = asterisk then match_loop pat val (Some pidx) vidx (pidx + 1) vidx
        else if pidx < length pat \<and> pat ! pidx = val ! vidx then match_loop pat val star sv (pidx + 1) (vidx + 1)
        else (case star of
          Some s \<Rightarrow> match_loop pat val star (sv + 1) (s + 1) (sv + 1)
        | None \<Rightarrow> None)
      else Some pidx)"
  by pat_completeness auto
termination
  by (relation "measures [\<lambda>(pat, val, star, sv, pidx, vidx). if loop_ordered star pidx vidx sv then 0 else 1,
      \<lambda>(pat, val, star, sv, pidx, vidx). case star of None \<Rightarrow> Suc (length pat) | Some s \<Rightarrow> length pat - s,
      \<lambda>(pat, val, star, sv, pidx, vidx). length val - sv,
      \<lambda>(pat, val, star, sv, pidx, vidx). length val - vidx]")
     (auto simp: loop_ordered_def split: option.splits)

declare match_loop.simps [simp del]

definition component_matches :: "string \<Rightarrow> string \<Rightarrow> bool" where
  "component_matches pat val = (case match_loop pat val None 0 0 0 of
     None \<Rightarrow> False
   | Some i \<Rightarrow> i + length (takeWhile (\<lambda>c. c = asterisk) (drop i pat)) = length pat)"

definition retry_at :: "string \<Rightarrow> string \<Rightarrow> nat option \<Rightarrow> nat \<Rightarrow> (string \<times> string) option" where
  "retry_at pat val star sv = map_option (\<lambda>s. (drop (Suc s) pat, drop sv val)) star"

lemma match_loop_goal:
  assumes "pidx \<le> length pat" "vidx \<le> length val"
    and "retry_inv (\<lambda>c. c = asterisk) (retry_at pat val star sv) (drop pidx pat) (drop vidx val)"
    and "loop_ordered star pidx vidx sv"
  shows "(case match_loop pat val star sv pidx vidx of None \<Rightarrow> False
     | Some i \<Rightarrow> i \<le> length pat \<and> list_all (\<lambda>c. c = asterisk) (drop i pat)) =
     try_goal (\<lambda>c. c = asterisk) (=) (retry_at pat val star sv) (drop pidx pat) (drop vidx val)"
  using assms
proof (induction pat val star sv pidx vidx rule: match_loop.induct)
  case (1 pat val star sv pidx vidx)
  note bounds = "1.prems"(1,2) and inv = "1.prems"(3) and ordered = "1.prems"(4)
  show ?case
  proof (cases "vidx < length val")
    case False
    then show ?thesis using try_end[of "\<lambda>c. c = asterisk" _ "drop pidx pat" "(=)"] inv bounds
      by (simp add: match_loop.simps)
  next
    case more: True
    then have rest: "drop vidx val = val ! vidx # drop (Suc vidx) val" by (simp add: Cons_nth_drop_Suc)
    have pattern: "drop pidx pat = pat ! pidx # drop (Suc pidx) pat" if "pidx < length pat"
      using that by (simp add: Cons_nth_drop_Suc)
    show ?thesis
    proof (cases "pidx < length pat \<and> pat ! pidx = asterisk")
      case star: True
      have "retry_at pat val (Some pidx) vidx = Some (drop (Suc pidx) pat, drop vidx val)"
        by (simp add: retry_at_def)
      then show ?thesis
        using "1.IH"(1)[OF more star] try_star[OF inv[unfolded pattern[OF conjunct1[OF star]]]] star
          pattern[OF conjunct1[OF star]] bounds more
        by (subst match_loop.simps) (simp add: loop_ordered_def)
    next
      case no_star: False
      show ?thesis
      proof (cases "pidx < length pat \<and> pat ! pidx = val ! vidx")
        case hit: True
        then have "pat ! pidx \<noteq> asterisk" using no_star by simp
        then show ?thesis
          using "1.IH"(2)[OF more no_star hit]
            retry_inv_fits[OF _ inv[unfolded pattern[OF conjunct1[OF hit]] rest]]
            pattern[OF conjunct1[OF hit]] bounds hit more no_star rest ordered
          by (subst match_loop.simps)
             (simp add: try_fits loop_ordered_def split: option.splits)
      next
        case miss: False
        have stuck: "\<not> wild (\<lambda>c. c = asterisk) (=) (drop pidx pat) (val ! vidx # drop (Suc vidx) val)"
          using no_star miss pattern by (intro wild_miss) (metis drop_all list.distinct(1) list.inject not_le)
        show ?thesis
        proof (cases star)
          case None
          then show ?thesis using stuck more no_star miss rest
            by (subst match_loop.simps) (auto simp: retry_at_def try_goal_def)
        next
          case (Some s)
          have here: "retry_at pat val star sv = Some (drop (Suc s) pat, drop sv val)"
              "retry_at pat val star (sv + 1) = Some (drop (s + 1) pat, drop (sv + 1) val)"
            and tail: "tl (drop sv val) = drop (sv + 1) val"
            using Some by (simp_all add: retry_at_def drop_Suc tl_drop)
          have s: "s + 1 \<le> length pat" "sv + 1 \<le> length val" "loop_ordered star (s + 1) (sv + 1) (sv + 1)"
            using ordered Some bounds more by (auto simp: loop_ordered_def)
          have "match_loop pat val star sv pidx vidx = match_loop pat val star (sv + 1) (s + 1) (sv + 1)"
            using more no_star miss Some by (subst match_loop.simps) auto
          moreover note "1.IH"(3)[OF more no_star miss Some s(1,2) _ s(3), unfolded here, OF retry_inv_star]
          moreover have "try_goal (\<lambda>c. c = asterisk) (=) (Some (drop (Suc s) pat, drop sv val)) (drop pidx pat) (drop vidx val) =
              try_goal (\<lambda>c. c = asterisk) (=) (Some (drop (s + 1) pat, drop (sv + 1) val)) (drop (s + 1) pat) (drop (sv + 1) val)"
            using try_miss(2)[OF inv[unfolded here rest] stuck] unfolding rest tail by simp
          ultimately show ?thesis unfolding here by simp
        qed
      qed
    qed
  qed
qed

lemma component_matches_glob: "component_matches pat val = glob pat val"
proof -
  have stars: "length (takeWhile (\<lambda>c. c = asterisk) xs) = length xs \<longleftrightarrow> list_all (\<lambda>c. c = asterisk) xs" for xs
    by (metis list_all_iff takeWhile_eq_all_conv takeWhile_eq_take take_all_iff order_refl)
  have "i + length (takeWhile (\<lambda>c. c = asterisk) (drop i pat)) = length pat \<longleftrightarrow>
      i \<le> length pat \<and> list_all (\<lambda>c. c = asterisk) (drop i pat)" for i
    using stars[of "drop i pat"] by (cases "i \<le> length pat") auto
  then show ?thesis
    using match_loop_goal[of 0 pat 0 val None 0]
    by (simp add: component_matches_def glob_def try_goal_def retry_at_def loop_ordered_def
        split: option.splits)
qed

text \<open>
  \<open>ComponentPattern\<close>: a component without or with a single wildcard is compared directly.
\<close>

datatype component_shape = Literal | SingleStar nat | MultipleStars

record component_pattern =
  cp_source :: string
  cp_shape :: component_shape

fun find_char :: "char \<Rightarrow> string \<Rightarrow> nat option" where
  "find_char c [] = None"
| "find_char c (x # xs) = (if x = c then Some 0 else map_option Suc (find_char c xs))"

definition compile_component :: "string \<Rightarrow> component_pattern" where
  "compile_component source = \<lparr>cp_source = source,
     cp_shape = (case find_char asterisk source of
       None \<Rightarrow> Literal
     | Some index \<Rightarrow> if asterisk \<notin> set (drop (index + 1) source) then SingleStar index else MultipleStars)\<rparr>"

definition component_pattern_matches :: "component_pattern \<Rightarrow> string \<Rightarrow> bool" where
  "component_pattern_matches p val = (case cp_shape p of
     Literal \<Rightarrow> cp_source p = val
   | SingleStar index \<Rightarrow> length (cp_source p) - 1 \<le> length val \<and>
       prefix (take index (cp_source p)) val \<and> suffix (drop (index + 1) (cp_source p)) val
   | MultipleStars \<Rightarrow> component_matches (cp_source p) val)"

lemma cp_source_compile [simp]: "cp_source (compile_component s) = s"
  by (simp add: compile_component_def)

lemma find_char_None: "find_char c xs = None \<longleftrightarrow> c \<notin> set xs"
  by (induction xs) auto

lemma find_char_Some:
  "find_char c xs = Some i \<Longrightarrow> i < length xs \<and> xs = take i xs @ c # drop (i + 1) xs \<and> c \<notin> set (take i xs)"
  by (induction xs arbitrary: i) (auto split: if_splits)

lemma glob_literal: "asterisk \<notin> set pat \<Longrightarrow> glob pat val \<longleftrightarrow> pat = val"
proof (induction pat arbitrary: val)
  case (Cons c pat)
  then show ?case by (cases val) (auto simp: glob_def)
qed (auto simp: glob_def)

lemma glob_literal_append:
  "asterisk \<notin> set ls \<Longrightarrow> glob (ls @ pat) val \<longleftrightarrow> (\<exists>r. val = ls @ r \<and> glob pat r)"
proof (induction ls arbitrary: val)
  case (Cons c ls)
  then show ?case by (cases val) (auto simp: glob_def)
qed simp

lemma glob_single_star:
  assumes "asterisk \<notin> set l" "asterisk \<notin> set r"
  shows "glob (l @ asterisk # r) val \<longleftrightarrow> length l + length r \<le> length val \<and> prefix l val \<and> suffix r val"
proof -
  have "glob (asterisk # r) v \<longleftrightarrow> suffix r v" for v
  proof -
    have "glob (asterisk # r) v \<longleftrightarrow> (\<exists>k \<le> length v. glob r (drop k v))"
      by (simp add: glob_def wild_star)
    also have "\<dots> \<longleftrightarrow> (\<exists>k \<le> length v. r = drop k v)" by (simp add: glob_literal[OF assms(2)])
    also have "\<dots> \<longleftrightarrow> suffix r v" by (metis suffix_drop suffix_take suffix_length_le append_eq_conv_conj
          suffixE append_take_drop_id diff_le_self length_drop drop_all nat_le_linear)
    finally show ?thesis .
  qed
  then have "glob (l @ asterisk # r) val \<longleftrightarrow> (\<exists>v. val = l @ v \<and> suffix r v)"
    by (simp add: glob_literal_append[OF assms(1)])
  also have "\<dots> \<longleftrightarrow> length l + length r \<le> length val \<and> prefix l val \<and> suffix r val" (is "?L = ?R")
  proof
    assume ?L
    then show ?R by (auto simp: suffix_def)
  next
    assume ?R
    then obtain v where v: "val = l @ v" "length r \<le> length v" by (auto simp: prefix_def)
    with \<open>?R\<close> have "suffix r v" by (metis suffix_length_suffix suffix_append suffixI)
    with v show ?L by blast
  qed
  finally show ?thesis .
qed

lemma compiled_matches: "component_pattern_matches (compile_component pat) val = glob pat val"
proof (cases "find_char asterisk pat")
  case None
  then have "asterisk \<notin> set pat" by (simp add: find_char_None)
  with None show ?thesis
    by (simp add: compile_component_def component_pattern_matches_def glob_literal)
next
  case (Some i)
  let ?l = "take i pat" and ?r = "drop (i + 1) pat"
  have pat: "pat = ?l @ asterisk # ?r" "asterisk \<notin> set ?l" "i < length pat"
    using find_char_Some[OF Some] by auto
  show ?thesis
  proof (cases "asterisk \<in> set ?r")
    case False
    have "length ?l + length ?r = length pat - 1" using pat(3) by simp
    then show ?thesis
      using False Some glob_single_star[OF pat(2) False, of val] pat(1)
      by (simp add: compile_component_def component_pattern_matches_def)
  qed (use Some in \<open>simp add: compile_component_def component_pattern_matches_def component_matches_glob\<close>)
qed

section \<open>Path patterns\<close>

datatype pattern_error =
  Pattern_Empty | Pattern_Absolute | Pattern_Backslash | Pattern_NulByte | ParentComponent |
  InvalidGlobstar | UnsupportedMetacharacter

record path_pattern =
  pp_source :: string
  basename_only :: bool
  pp_components :: "component_pattern list"

abbreviation is_globstar :: "component_pattern \<Rightarrow> bool" where
  "is_globstar p \<equiv> cp_source p = ''**''"

fun contains_str :: "string \<Rightarrow> string \<Rightarrow> bool" where
  "contains_str p [] = (p = [])"
| "contains_str p (x # xs) = (prefix p (x # xs) \<or> contains_str p xs)"

text \<open>The loop of \<open>PathPattern::compile\<close> over \<open>source.split('/')\<close>, from the components so far.\<close>

fun compile_components ::
    "component_pattern list \<Rightarrow> string list \<Rightarrow> pattern_error + component_pattern list" where
  "compile_components comps [] = Ok comps"
| "compile_components comps (c # cs) =
     (if c = '''' \<or> c = ''.'' then compile_components comps cs
      else if c = ''..'' then Err ParentComponent
      else if contains_str ''**'' c \<and> c \<noteq> ''**'' then Err InvalidGlobstar
      else compile_components (comps @ [compile_component c]) cs)"

definition compile_pattern :: "string \<Rightarrow> pattern_error + path_pattern" where
  "compile_pattern source =
     (if source = [] then Err Pattern_Empty
      else if hd source = slash then Err Pattern_Absolute
      else if backslash \<in> set source then Err Pattern_Backslash
      else if nul \<in> set source then Err Pattern_NulByte
      else if list_ex (\<lambda>c. c = CHR ''?'' \<or> c = CHR ''['' \<or> c = CHR '']'') source
        then Err UnsupportedMetacharacter
      else bindR (compile_components [] (split_on slash source)) (\<lambda>comps.
        if comps = [] then Err Pattern_Empty
        else Ok \<lparr>pp_source = source,
          basename_only = (\<not> is_globstar (last comps) \<and> list_all is_globstar (butlast comps)),
          pp_components = comps\<rparr>))"

text \<open>
  The loop of \<open>path_components_match\<close>.  \<open>remaining\<close> is what the iterator still yields; the retry
  point is the index behind the last globstar and the iterator when it was met.
\<close>

definition walk_ordered :: "nat \<Rightarrow> (nat \<times> string list) option \<Rightarrow> string list \<Rightarrow> bool" where
  "walk_ordered pidx retry remaining \<longleftrightarrow> (case retry of None \<Rightarrow> True
   | Some (restart, cursor) \<Rightarrow> restart \<le> pidx \<and> length remaining \<le> length cursor)"

function walk_components ::
    "component_pattern list \<Rightarrow> nat \<Rightarrow> (nat \<times> string list) option \<Rightarrow> string list \<Rightarrow> bool" where
  "walk_components pat pidx retry remaining =
     (case remaining of
        [] \<Rightarrow> list_all is_globstar (drop pidx pat)
      | val # rest \<Rightarrow>
          if pidx < length pat \<and> is_globstar (pat ! pidx) then
            (if pidx + 1 = length pat then True
             else walk_components pat (pidx + 1) (Some (pidx + 1, remaining)) remaining)
          else if pidx < length pat \<and> component_pattern_matches (pat ! pidx) val then
            walk_components pat (pidx + 1) retry rest
          else (case retry of
            Some (restart, cursor) \<Rightarrow>
              walk_components pat restart (Some (restart, tl cursor)) (tl cursor)
          | None \<Rightarrow> False))"
  by pat_completeness auto
termination
  by (relation "measures [\<lambda>(pat, pidx, retry, rem). if walk_ordered pidx retry rem then 0 else 1,
      \<lambda>(pat, pidx, retry, rem). case retry of None \<Rightarrow> Suc (length pat) | Some (r, c) \<Rightarrow> length pat - r,
      \<lambda>(pat, pidx, retry, rem). case retry of None \<Rightarrow> 0 | Some (r, c) \<Rightarrow> length c,
      \<lambda>(pat, pidx, retry, rem). length rem]")
     (auto simp: walk_ordered_def split: option.splits)

declare walk_components.simps [simp del]

definition path_components_match :: "component_pattern list \<Rightarrow> string \<Rightarrow> bool" where
  "path_components_match pat path =
     walk_components pat 0 None (filter (\<lambda>c. c \<noteq> []) (split_on slash path))"

definition pattern_matches :: "path_pattern \<Rightarrow> vpath \<Rightarrow> string option \<Rightarrow> bool" where
  "pattern_matches pp path basename =
     (if basename_only pp then
        (case basename of None \<Rightarrow> False
         | Some name \<Rightarrow> component_pattern_matches (last (pp_components pp)) name)
      else path_components_match (pp_components pp) (if is_root path then '''' else as_str path))"

section \<open>What a pattern denotes\<close>

text \<open>The loop on components decides \<open>wild\<close> with globstars as wildcards.\<close>

definition retry_from ::
    "component_pattern list \<Rightarrow> (nat \<times> string list) option \<Rightarrow> (component_pattern list \<times> string list) option" where
  "retry_from pat retry = map_option (\<lambda>(r, c). (drop r pat, c)) retry"

lemma walk_components_goal:
  assumes "retry_inv is_globstar (retry_from pat retry) (drop pidx pat) remaining"
    and "pidx \<le> length pat" "\<And>r c. retry = Some (r, c) \<Longrightarrow> r \<le> length pat"
  shows "walk_components pat pidx retry remaining =
     try_goal is_globstar component_pattern_matches (retry_from pat retry) (drop pidx pat) remaining"
  using assms
proof (induction pat pidx retry remaining rule: walk_components.induct)
  case (1 pat pidx retry remaining)
  note inv = "1.prems"(1) and bounds = "1.prems"(2,3)
  show ?case
  proof (cases remaining)
    case Nil
    then show ?thesis using try_end[OF inv[unfolded Nil], of component_pattern_matches]
      by (subst walk_components.simps) simp
  next
    case (Cons val rest)
    have pattern: "drop pidx pat = pat ! pidx # drop (pidx + 1) pat" if "pidx < length pat"
      using that by (simp add: Cons_nth_drop_Suc)
    show ?thesis
    proof (cases "pidx < length pat \<and> is_globstar (pat ! pidx)")
      case star: True
      note pattern = pattern[OF conjunct1[OF star]]
      have here: "retry_from pat (Some (pidx + 1, remaining)) = Some (drop (pidx + 1) pat, remaining)"
        by (simp add: retry_from_def)
      have goal: "try_goal is_globstar component_pattern_matches (retry_from pat retry) (drop pidx pat) remaining =
          try_goal is_globstar component_pattern_matches (Some (drop (pidx + 1) pat, remaining)) (drop (pidx + 1) pat) remaining"
        using try_star[OF inv[unfolded pattern], of component_pattern_matches] star unfolding pattern by blast
      show ?thesis
      proof (cases "pidx + 1 = length pat")
        case True
        have "wild is_globstar component_pattern_matches (pat ! pidx # []) remaining"
          using star by (subst wild_star) (auto intro: exI[of _ "length remaining"])
        then have "try_goal is_globstar component_pattern_matches (retry_from pat retry) (drop pidx pat) remaining"
          using True unfolding pattern by (simp add: try_goal_def)
        then show ?thesis using star True Cons by (subst walk_components.simps) simp
      next
        case False
        have "walk_components pat pidx retry remaining =
            walk_components pat (pidx + 1) (Some (pidx + 1, remaining)) remaining"
          using star False Cons by (subst walk_components.simps) simp
        also have "\<dots> = try_goal is_globstar component_pattern_matches
            (Some (drop (pidx + 1) pat, remaining)) (drop (pidx + 1) pat) remaining"
          using "1.IH"(1)[OF Cons star False] star unfolding here by simp
        finally show ?thesis using goal by simp
      qed
    next
      case no_star: False
      show ?thesis
      proof (cases "pidx < length pat \<and> component_pattern_matches (pat ! pidx) val")
        case hit: True
        then have plain: "\<not> is_globstar (pat ! pidx)" using no_star by simp
        note pattern = pattern[OF conjunct1[OF hit]]
        have "walk_components pat pidx retry remaining = walk_components pat (pidx + 1) retry rest"
          using no_star hit Cons by (subst walk_components.simps) simp
        also have "\<dots> = try_goal is_globstar component_pattern_matches (retry_from pat retry) (drop (pidx + 1) pat) rest"
          using "1.IH"(2)[OF Cons no_star hit retry_inv_fits[OF plain inv[unfolded pattern Cons]]] hit bounds by simp
        finally show ?thesis unfolding pattern Cons using plain hit by (simp add: try_fits)
      next
        case miss: False
        have stuck: "\<not> wild is_globstar component_pattern_matches (drop pidx pat) (val # rest)"
          using no_star miss pattern by (intro wild_miss) (metis drop_all list.distinct(1) list.inject not_le)
        show ?thesis
        proof (cases retry)
          case None
          then show ?thesis using stuck no_star miss Cons
            by (subst walk_components.simps) (auto simp: retry_from_def try_goal_def)
        next
          case (Some rc)
          then obtain r c where retry: "retry = Some (r, c)" by (cases rc) auto
          have here: "retry_from pat (Some (r, v)) = Some (drop r pat, v)" for v
            by (simp add: retry_from_def)
          have "walk_components pat pidx retry remaining = walk_components pat r (Some (r, tl c)) (tl c)"
            using no_star miss Cons retry by (subst walk_components.simps) auto
          also have "\<dots> = try_goal is_globstar component_pattern_matches (Some (drop r pat, tl c)) (drop r pat) (tl c)"
            using "1.IH"(3)[OF Cons no_star miss retry refl] bounds(2)[OF retry]
            unfolding here by simp
          also have "\<dots> = try_goal is_globstar component_pattern_matches (retry_from pat retry) (drop pidx pat) remaining"
            using try_miss(2)[OF inv[unfolded retry here Cons] stuck] unfolding retry here Cons by simp
          finally show ?thesis .
        qed
      qed
    qed
  qed
qed

lemma path_components_match_wild:
  "path_components_match pat path =
   wild is_globstar component_pattern_matches pat (filter (\<lambda>c. c \<noteq> []) (split_on slash path))"
  using walk_components_goal[of pat None 0]
  by (simp add: path_components_match_def try_goal_def retry_from_def)

text \<open>
  The meaning of a pattern source on the components of a path.  A single component is looked up at
  any depth, as if a globstar stood in front of it.
\<close>

definition path_glob :: "string list \<Rightarrow> string list \<Rightarrow> bool" where
  "path_glob = wild (\<lambda>c. c = ''**'') glob"

definition pattern_parts :: "string \<Rightarrow> string list" where
  "pattern_parts source = filter (\<lambda>c. c \<noteq> '''' \<and> c \<noteq> ''.'') (split_on slash source)"

definition denoted :: "string \<Rightarrow> string list" where
  "denoted source = (case pattern_parts source of
     [c] \<Rightarrow> if c = ''**'' then [c] else [''**'', c]
   | cs \<Rightarrow> cs)"

lemma compile_components_Inr:
  "compile_components acc cs = Inr comps \<Longrightarrow>
   comps = acc @ map compile_component (filter (\<lambda>c. c \<noteq> '''' \<and> c \<noteq> ''.'') cs)"
  by (induction acc cs rule: compile_components.induct) (auto split: if_splits)

lemma compile_components_Inr_iff:
  "(\<exists>comps. compile_components acc cs = Inr comps) \<longleftrightarrow>
   (\<forall>c \<in> set cs. c \<noteq> ''..'' \<and> (contains_str ''**'' c \<longrightarrow> c = ''**''))"
  by (induction cs arbitrary: acc) auto

lemma compile_pattern_Inr:
  assumes "compile_pattern source = Inr pp"
  shows "pp_source pp = source" "pattern_parts source \<noteq> []"
    and "pp_components pp = map compile_component (pattern_parts source)"
    and "basename_only pp \<longleftrightarrow> last (pattern_parts source) \<noteq> ''**'' \<and>
      list_all (\<lambda>c. c = ''**'') (butlast (pattern_parts source))"
proof -
  obtain comps where comps: "compile_components [] (split_on slash source) = Inr comps" "comps \<noteq> []"
    and pp: "pp = \<lparr>pp_source = source, basename_only = (\<not> is_globstar (last comps) \<and> list_all is_globstar (butlast comps)),
          pp_components = comps\<rparr>"
    using assms by (auto simp: compile_pattern_def bindR_Inr_iff split: if_splits)
  have eq: "comps = map compile_component (pattern_parts source)"
    using compile_components_Inr[OF comps(1)] by (simp add: pattern_parts_def)
  show "pattern_parts source \<noteq> []" using eq comps(2) by auto
  then show "basename_only pp \<longleftrightarrow> last (pattern_parts source) \<noteq> ''**'' \<and>
      list_all (\<lambda>c. c = ''**'') (butlast (pattern_parts source))"
    by (simp add: pp eq last_map list_all_iff flip: map_butlast)
  show "pp_source pp = source" "pp_components pp = map compile_component (pattern_parts source)"
    using pp eq by simp_all
qed

lemma wild_map:
  "wild star fits (map f ps) vs = wild (\<lambda>p. star (f p)) (\<lambda>p. fits (f p)) ps vs"
  by (induction "\<lambda>p. star (f p)" "\<lambda>p. fits (f p)" ps vs rule: wild.induct) auto

lemma wild_leading_stars:
  assumes "\<not> star c" "list_all star gs" "gs \<noteq> []"
  shows "wild star fits (gs @ [c]) vs \<longleftrightarrow> vs \<noteq> [] \<and> fits c (last vs)"
  using assms(2,3)
proof (induction gs arbitrary: vs)
  case (Cons g gs)
  have one: "wild star fits [c] vs \<longleftrightarrow> (\<exists>v. vs = [v] \<and> fits c v)" for vs
    using assms(1) by (cases vs) auto
  have "(\<exists>k \<le> length vs. wild star fits (gs @ [c]) (drop k vs)) \<longleftrightarrow> vs \<noteq> [] \<and> fits c (last vs)"
  proof (cases "gs = []")
    case True
    show ?thesis
    proof
      assume "\<exists>k \<le> length vs. wild star fits (gs @ [c]) (drop k vs)"
      then obtain k v where "drop k vs = [v]" "fits c v" using True one by auto
      then show "vs \<noteq> [] \<and> fits c (last vs)"
        by (metis drop_Nil last_drop last.simps list.distinct(1) drop_all not_le)
    next
      assume "vs \<noteq> [] \<and> fits c (last vs)"
      then show "\<exists>k \<le> length vs. wild star fits (gs @ [c]) (drop k vs)"
        using True one by (intro exI[of _ "length vs - 1"]) (cases vs rule: rev_cases; auto)
    qed
  next
    case False
    then have each: "wild star fits (gs @ [c]) ws \<longleftrightarrow> ws \<noteq> [] \<and> fits c (last ws)" for ws
      using Cons by simp
    show ?thesis
    proof
      assume "\<exists>k \<le> length vs. wild star fits (gs @ [c]) (drop k vs)"
      then show "vs \<noteq> [] \<and> fits c (last vs)"
        unfolding each by (metis drop_Nil drop_all last_drop not_le)
    next
      assume "vs \<noteq> [] \<and> fits c (last vs)"
      then show "\<exists>k \<le> length vs. wild star fits (gs @ [c]) (drop k vs)"
        unfolding each by (intro exI[of _ 0]) simp
    qed
  qed
  then show ?case using Cons.prems by (simp add: wild_star)
qed simp

text \<open>A compiled pattern matches a path exactly when the denotation of its source does.\<close>

lemma pattern_matches_denoted:
  assumes "compile_pattern source = Inr pp" "vpath_ok p"
  shows "pattern_matches pp p (file_name p) \<longleftrightarrow> path_glob (denoted source) (components p)"
proof -
  let ?parts = "pattern_parts source"
  note pp = compile_pattern_Inr[OF assms(1)]
  have fname: "file_name p = (if components p = [] then None else Some (last (components p)))"
    by (simp add: file_name_def components_def)
  have walk: "path_components_match (pp_components pp) (if is_root p then '''' else as_str p) =
      path_glob ?parts (components p)"
  proof -
    have "\<forall>c \<in> set (components p). c \<noteq> []"
      using assms(2) by (auto simp: vpath_ok_def comp_ok_def list_all_iff)
    then have "filter (\<lambda>c. c \<noteq> []) (split_on slash (if is_root p then '''' else as_str p)) = components p"
      by (auto simp: components_def)
    then show ?thesis
      by (simp add: path_components_match_wild pp(3) wild_map path_glob_def compiled_matches[abs_def])
  qed
  show ?thesis
  proof (cases "basename_only pp")
    case True
    then have final: "last ?parts \<noteq> ''**''" and lead: "list_all (\<lambda>c. c = ''**'') (butlast ?parts)"
      using pp(4) by auto
    have parts: "?parts = butlast ?parts @ [last ?parts]" using pp(2) by simp
    obtain gs where gs: "denoted source = gs @ [last ?parts]" "gs \<noteq> []" "list_all (\<lambda>c. c = ''**'') gs"
    proof (cases "butlast ?parts = []")
      case True
      then obtain c where c: "?parts = [c]" using parts by (metis append_Nil)
      then have "denoted source = [''**''] @ [c]" using final by (simp add: denoted_def)
      then show ?thesis using c that[of "[''**'']"] by simp
    next
      case False
      then have "denoted source = ?parts" using parts
        by (auto simp: denoted_def split: list.splits)
      then show ?thesis using False lead parts that[of "butlast ?parts"] by simp
    qed
    have "pattern_matches pp p (file_name p) \<longleftrightarrow> components p \<noteq> [] \<and> glob (last ?parts) (last (components p))"
      using True fname pp(2,3) by (simp add: pattern_matches_def last_map compiled_matches)
    also have "\<dots> \<longleftrightarrow> path_glob (denoted source) (components p)"
      unfolding gs(1) path_glob_def
      using wild_leading_stars[of "\<lambda>c. c = ''**''" "last ?parts" gs glob "components p"] final gs(2,3) by simp
    finally show ?thesis .
  next
    case False
    have "denoted source = ?parts"
      using False pp(2,4) by (auto simp: denoted_def split: list.splits)
    then show ?thesis using False walk by (simp add: pattern_matches_def)
  qed
qed

end
