(* ===== verification/Policy.thy ===== *)
theory Policy
  imports Glob Vfs "HOL-Library.Product_Lexorder"
begin

text \<open>
  Capability policy (\<open>crates/vsh-policy/src/lib.rs\<close>, first half): access kinds and sets,
  protected rules, the canonical form of a rule list and the check made before every call.
  A \<open>CallPolicy\<close> is its rule list; a rule is compiled from its source by \<open>ProtectedRule::new\<close>,
  the only constructor, so its pattern is determined by its source (\<open>rule_ok\<close>).
\<close>

section \<open>Access kinds\<close>

datatype access_kind =
  Acc_MetadataRead | Acc_ContentRead | Acc_DirectoryRead | Acc_Create | Acc_Modify | Acc_Delete |
  Acc_RenameSource | Acc_RenameDestination

fun access_index :: "access_kind \<Rightarrow> nat" where
  "access_index Acc_MetadataRead = 0"
| "access_index Acc_ContentRead = 1"
| "access_index Acc_DirectoryRead = 2"
| "access_index Acc_Create = 3"
| "access_index Acc_Modify = 4"
| "access_index Acc_Delete = 5"
| "access_index Acc_RenameSource = 6"
| "access_index Acc_RenameDestination = 7"

definition access_bit :: "access_kind \<Rightarrow> u16" where
  "access_bit a = push_bit (access_index a) 1"

definition is_mutation :: "access_kind \<Rightarrow> bool" where
  "is_mutation a \<longleftrightarrow> (case a of
     Acc_Create \<Rightarrow> True | Acc_Modify \<Rightarrow> True | Acc_Delete \<Rightarrow> True
   | Acc_RenameSource \<Rightarrow> True | Acc_RenameDestination \<Rightarrow> True | _ \<Rightarrow> False)"

type_synonym access_set = u16

definition access_reads :: access_set where
  "access_reads = access_bit Acc_MetadataRead OR access_bit Acc_ContentRead OR access_bit Acc_DirectoryRead"

definition access_mutations :: access_set where
  "access_mutations = access_bit Acc_Create OR access_bit Acc_Modify OR access_bit Acc_Delete OR
     access_bit Acc_RenameSource OR access_bit Acc_RenameDestination"

definition access_all :: access_set where
  "access_all = access_reads OR access_mutations"

definition access_contains :: "access_set \<Rightarrow> access_kind \<Rightarrow> bool" where
  "access_contains s a \<longleftrightarrow> s AND access_bit a \<noteq> 0"

lemma access_contains_bit: "access_contains s a \<longleftrightarrow> bit s (access_index a)"
proof -
  have i: "access_index a < 16" by (cases a) auto
  have "bit (s AND access_bit a) n \<longleftrightarrow> n = access_index a \<and> bit s n" for n
    using i by (auto simp: access_bit_def bit_and_iff bit_exp_iff dest: bit_imp_le_length)
  then show ?thesis unfolding access_contains_def by (metis bit_0_eq bot_apply bot_bool_def bit_eq_iff)
qed

lemma access_contains_or:
  "access_contains (s OR t) a \<longleftrightarrow> access_contains s a \<or> access_contains t a"
  by (simp add: access_contains_bit bit_or_iff)

lemma access_contains_all [simp]: "access_contains access_all a"
  by (cases a) (simp_all add: access_contains_def access_all_def access_reads_def access_mutations_def access_bit_def)

lemma access_contains_mutations: "access_contains access_mutations a \<longleftrightarrow> is_mutation a"
  by (cases a) (simp_all add: access_contains_def access_mutations_def access_bit_def is_mutation_def)

lemma access_contains_reads: "access_contains access_reads a \<longleftrightarrow> \<not> is_mutation a"
  by (cases a) (simp_all add: access_contains_def access_reads_def access_bit_def is_mutation_def)

section \<open>Protected rules\<close>

record protected_rule =
  rule_pattern :: path_pattern
  denied :: access_set

definition protected_rule_new :: "string \<Rightarrow> access_set \<Rightarrow> pattern_error + protected_rule" where
  "protected_rule_new source accesses =
     bindR (compile_pattern source) (\<lambda>pat. Ok \<lparr>rule_pattern = pat, denied = accesses\<rparr>)"

abbreviation rule_source :: "protected_rule \<Rightarrow> string" where
  "rule_source r \<equiv> pp_source (rule_pattern r)"

record denied_access =
  da_path :: vpath
  da_access :: access_kind
  da_rule :: string

type_synonym call_policy = "protected_rule list"

text \<open>The loop of \<open>CallPolicy::new\<close> that folds a rule into the last canonical one.\<close>

fun merge_rules :: "protected_rule list \<Rightarrow> protected_rule list \<Rightarrow> protected_rule list" where
  "merge_rules canonical [] = canonical"
| "merge_rules canonical (rule # rules) =
     (if canonical \<noteq> [] \<and> rule_source (last canonical) = rule_source rule
      then merge_rules (butlast canonical @
        [(last canonical)\<lparr>denied := denied (last canonical) OR denied rule\<rparr>]) rules
      else merge_rules (canonical @ [rule]) rules)"

definition call_policy_new :: "protected_rule list \<Rightarrow> call_policy" where
  "call_policy_new rules = merge_rules [] (sort_key (\<lambda>r. (rule_source r, denied r)) rules)"

definition authorize :: "call_policy \<Rightarrow> vpath \<Rightarrow> access_kind \<Rightarrow> denied_access + unit" where
  "authorize rules path access =
     (case find (\<lambda>r. access_contains (denied r) access \<and>
        pattern_matches (rule_pattern r) path (file_name path)) rules of
        Some r \<Rightarrow> Err \<lparr>da_path = path, da_access = access, da_rule = rule_source r\<rparr>
      | None \<Rightarrow> Ok ())"

definition default_secret_patterns :: "string list" where
  "default_secret_patterns =
     [''.env'', ''.env/**'', ''.env.*'', ''.env.*/**'', ''**/.env'', ''**/.env/**'', ''**/.env.*'',
      ''**/.env.*/**'', ''**/secrets/**'', ''**/id_rsa'', ''**/id_rsa.pub'', ''*.pem'', ''*.key'',
      ''**/*.pem'', ''**/*.key'', ''**/credentials.json'', ''**/*_credentials.json'', ''**/.ssh/**'']"

definition internal_runtime_patterns :: "string list" where
  "internal_runtime_patterns =
     [''.vsh-runtime'', ''.vsh-runtime/**'', ''.vsh-runtime-owner'', ''**/.vsh-runtime-owner'']"

text \<open>
  \<open>expect\<close> of a built-in pattern; no built-in pattern fails to compile, so the rules dropped
  here are none (\<open>builtin_patterns_compile\<close>).
\<close>

fun expect_rules :: "(pattern_error + protected_rule) list \<Rightarrow> protected_rule list option" where
  "expect_rules [] = Some []"
| "expect_rules (r # rs) = (case r of
     Inl _ \<Rightarrow> None
   | Inr x \<Rightarrow> map_option (\<lambda>xs. x # xs) (expect_rules rs))"

definition secure_default :: "call_policy option" where
  "secure_default = map_option call_policy_new (expect_rules
     (map (\<lambda>p. protected_rule_new p access_all) (default_secret_patterns @ internal_runtime_patterns) @
      map (\<lambda>p. protected_rule_new p access_mutations) [''.git'', ''.git/**'']))"

section \<open>The canonical form\<close>

definition rule_ok :: "protected_rule \<Rightarrow> bool" where
  "rule_ok r \<longleftrightarrow> compile_pattern (rule_source r) = Inr (rule_pattern r)"

text \<open>What a list of rules denies.\<close>

definition denies :: "protected_rule list \<Rightarrow> vpath \<Rightarrow> access_kind \<Rightarrow> bool" where
  "denies rules path access \<longleftrightarrow> (\<exists>r \<in> set rules. access_contains (denied r) access \<and>
     path_glob (denoted (rule_source r)) (components path))"

lemma protected_rule_new_ok:
  "protected_rule_new source s = Inr r \<Longrightarrow> rule_ok r \<and> rule_source r = source \<and> denied r = s"
  using compile_pattern_Inr(1) by (fastforce simp: protected_rule_new_def bindR_Inr_iff rule_ok_def)

lemma rule_ok_matches:
  "rule_ok r \<Longrightarrow> vpath_ok p \<Longrightarrow>
   pattern_matches (rule_pattern r) p (file_name p) \<longleftrightarrow> path_glob (denoted (rule_source r)) (components p)"
  unfolding rule_ok_def by (rule pattern_matches_denoted)

lemma authorize_Inl_iff:
  assumes "\<forall>r \<in> set rules. rule_ok r" "vpath_ok p"
  shows "(\<exists>d. authorize rules p a = Inl d) \<longleftrightarrow> denies rules p a"
proof (cases "find (\<lambda>r. access_contains (denied r) a \<and> pattern_matches (rule_pattern r) p (file_name p)) rules")
  case None
  moreover from this have "\<not> denies rules p a"
    using assms by (auto simp: denies_def find_None_iff rule_ok_matches)
  ultimately show ?thesis by (simp add: authorize_def)
next
  case (Some r)
  then obtain i where "i < length rules" "r = rules ! i" "access_contains (denied r) a"
      "pattern_matches (rule_pattern r) p (file_name p)"
    by (auto simp: find_Some_iff)
  then have "denies rules p a" using assms rule_ok_matches by (auto simp: denies_def)
  with Some show ?thesis by (simp add: authorize_def)
qed

text \<open>
  Bits granted to a source by a list of rules.  The canonical list has each source once, in order,
  with exactly those bits.
\<close>

definition source_bits :: "protected_rule list \<Rightarrow> string \<Rightarrow> nat \<Rightarrow> bool" where
  "source_bits rules s n \<longleftrightarrow> (\<exists>r \<in> set rules. rule_source r = s \<and> bit (denied r) n)"

lemma merge_rules_same:
  "rule_source c = rule_source rule \<Longrightarrow>
   merge_rules (cs @ [c]) (rule # rules) = merge_rules (cs @ [c\<lparr>denied := denied c OR denied rule\<rparr>]) rules"
  by simp

lemma merge_rules_new:
  "canonical = [] \<or> rule_source (last canonical) \<noteq> rule_source rule \<Longrightarrow>
   merge_rules canonical (rule # rules) = merge_rules (canonical @ [rule]) rules"
  by auto

lemma merge_rules_induct [case_names Nil same new]:
  assumes "\<And>canonical. P canonical []"
    and "\<And>cs c rule rules. rule_source c = rule_source rule \<Longrightarrow>
      P (cs @ [c\<lparr>denied := denied c OR denied rule\<rparr>]) rules \<Longrightarrow> P (cs @ [c]) (rule # rules)"
    and "\<And>canonical rule rules. canonical = [] \<or> rule_source (last canonical) \<noteq> rule_source rule \<Longrightarrow>
      P (canonical @ [rule]) rules \<Longrightarrow> P canonical (rule # rules)"
  shows "P canonical rules"
proof (induction canonical rules rule: merge_rules.induct)
  case (2 canonical rule rules)
  show ?case
  proof (cases "canonical \<noteq> [] \<and> rule_source (last canonical) = rule_source rule")
    case True
    then obtain cs c where c: "canonical = cs @ [c]" by (metis rev_exhaust)
    then show ?thesis using "2.IH"(1)[OF True] True assms(2)[of c rule cs rules] by simp
  next
    case False
    then show ?thesis using "2.IH"(2)[OF False] assms(3) by blast
  qed
qed (rule assms(1))

declare merge_rules.simps(2) [simp del]
lemmas merge_steps = merge_rules_same merge_rules_new

lemma source_bits_simps:
  "source_bits [] s n \<longleftrightarrow> False"
  "source_bits (r # rs) s n \<longleftrightarrow> rule_source r = s \<and> bit (denied r) n \<or> source_bits rs s n"
  "source_bits (xs @ ys) s n \<longleftrightarrow> source_bits xs s n \<or> source_bits ys s n"
  by (auto simp: source_bits_def)

lemma merge_rules_source_bits:
  "source_bits (merge_rules canonical rules) s n \<longleftrightarrow> source_bits (canonical @ rules) s n"
proof (induction canonical rules rule: merge_rules_induct)
  case (same cs c rule rules)
  then show ?case by (simp add: merge_steps source_bits_simps bit_or_iff) blast
qed (simp_all add: merge_steps source_bits_simps)

lemma merge_rules_sources:
  "rule_source ` set (merge_rules canonical rules) = rule_source ` set (canonical @ rules)"
  by (induction canonical rules rule: merge_rules_induct) (simp_all add: merge_steps)

lemma rule_ok_denied [simp]: "rule_ok (r\<lparr>denied := s\<rparr>) = rule_ok r"
  by (simp add: rule_ok_def)

lemma merge_rules_ok:
  "\<forall>r \<in> set (canonical @ rules). rule_ok r \<Longrightarrow> \<forall>r \<in> set (merge_rules canonical rules). rule_ok r"
  by (induction canonical rules rule: merge_rules_induct) (simp_all add: merge_steps)

lemma merge_rules_sorted:
  "sorted_wrt (<) (map rule_source canonical) \<Longrightarrow> sorted (map rule_source (canonical @ rules)) \<Longrightarrow>
   sorted_wrt (<) (map rule_source (merge_rules canonical rules))"
proof (induction canonical rules rule: merge_rules_induct)
  case (same cs c rule rules)
  then show ?case by (simp add: merge_steps sorted_append sorted_wrt_append)
next
  case (new canonical rule rules)
  have "rule_source x < rule_source rule" if x: "x \<in> set canonical" for x
  proof -
    obtain cs c where c: "canonical = cs @ [c]" using x by (metis empty_iff empty_set rev_exhaust)
    have "rule_source c \<le> rule_source rule" "rule_source c \<noteq> rule_source rule"
      using new c by (auto simp: sorted_append)
    then have less: "rule_source c < rule_source rule" by simp
    show ?thesis
    proof (cases "x = c")
      case False
      then have "rule_source x < rule_source c" using new.prems(1) x c by (auto simp: sorted_wrt_append)
      then show ?thesis using less by simp
    qed (use less in simp)
  qed
  then show ?case using new by (simp add: merge_steps sorted_wrt_append)
qed simp

lemma sorted_sources: "sorted (map rule_source (sort_key (\<lambda>r. (rule_source r, denied r)) rules))"
proof -
  have "sorted (map fst (map (\<lambda>r. (rule_source r, denied r)) (sort_key (\<lambda>r. (rule_source r, denied r)) rules)))"
    by (intro sorted_map_mono[OF sorted_sort_key]) (auto simp: mono_on_def less_eq_prod_def)
  then show ?thesis by (simp add: comp_def)
qed

lemma call_policy_sorted: "sorted_wrt (<) (map rule_source (call_policy_new rules))"
  unfolding call_policy_new_def by (rule merge_rules_sorted) (simp_all add: sorted_sources)

lemma call_policy_sources: "rule_source ` set (call_policy_new rules) = rule_source ` set rules"
  by (simp add: call_policy_new_def merge_rules_sources)

lemma call_policy_bits: "source_bits (call_policy_new rules) s n \<longleftrightarrow> source_bits rules s n"
  unfolding call_policy_new_def merge_rules_source_bits by (simp add: source_bits_def)

lemma call_policy_ok: "\<forall>r \<in> set rules. rule_ok r \<Longrightarrow> \<forall>r \<in> set (call_policy_new rules). rule_ok r"
  unfolding call_policy_new_def by (rule merge_rules_ok) simp

lemma denies_source_bits:
  "denies rules p a \<longleftrightarrow>
   (\<exists>s. source_bits rules s (access_index a) \<and> path_glob (denoted s) (components p))"
  by (auto simp: denies_def source_bits_def access_contains_bit)

lemma call_policy_denies: "denies (call_policy_new rules) p a \<longleftrightarrow> denies rules p a"
  by (simp add: denies_source_bits call_policy_bits)

text \<open>A canonical list is determined by the bits of its sources.\<close>

lemma canonical_eqI:
  assumes "sorted_wrt (<) (map rule_source xs)" "sorted_wrt (<) (map rule_source ys)"
    and "\<forall>r \<in> set xs. rule_ok r" "\<forall>r \<in> set ys. rule_ok r"
    and "rule_source ` set xs = rule_source ` set ys"
    and "\<And>s n. source_bits xs s n \<longleftrightarrow> source_bits ys s n"
  shows "xs = ys"
proof -
  have sources: "map rule_source xs = map rule_source ys"
    by (rule sorted_distinct_set_unique)
       (use assms(1,2,5) in \<open>auto simp: strict_sorted_iff\<close>)
  have bits: "bit (denied r) n \<longleftrightarrow> source_bits zs (rule_source r) n"
    if "r \<in> set zs" "sorted_wrt (<) (map rule_source zs)" for r zs n
  proof -
    have "inj_on rule_source (set zs)" using that(2) by (simp add: strict_sorted_iff distinct_map)
    then show ?thesis using that(1) by (auto simp: source_bits_def dest: inj_onD)
  qed
  have "xs ! i = ys ! i" if "i < length xs" for i
  proof -
    have len: "length xs = length ys" using sources by (metis length_map)
    have same: "rule_source (xs ! i) = rule_source (ys ! i)" using sources that len by (metis nth_map)
    have mem: "xs ! i \<in> set xs" "ys ! i \<in> set ys" using that len by auto
    have "denied (xs ! i) = denied (ys ! i)"
      by (rule bit_eqI) (simp add: bits[OF mem(1) assms(1)] bits[OF mem(2) assms(2)] same assms(6))
    moreover have "rule_pattern (xs ! i) = rule_pattern (ys ! i)"
      using mem assms(3,4) same by (metis rule_ok_def Inr_inject)
    ultimately show ?thesis by simp
  qed
  then show ?thesis using sources by (intro nth_equalityI) (auto dest: map_eq_imp_length_eq)
qed

lemma call_policy_set_eq:
  assumes "set xs = set ys" "\<forall>r \<in> set xs. rule_ok r"
  shows "call_policy_new xs = call_policy_new ys"
proof (rule canonical_eqI)
  show "\<forall>r \<in> set (call_policy_new xs). rule_ok r" "\<forall>r \<in> set (call_policy_new ys). rule_ok r"
    by (rule call_policy_ok, use assms in simp)+
  show "source_bits (call_policy_new xs) s n \<longleftrightarrow> source_bits (call_policy_new ys) s n" for s n
    unfolding call_policy_bits using assms(1) by (simp add: source_bits_def)
qed (simp_all add: call_policy_sorted call_policy_sources assms(1))

text \<open>The rule a denial names is the least source, in byte order, among those that deny.\<close>

lemma authorize_least:
  assumes "sorted_wrt (<) (map rule_source rules)" "\<forall>r \<in> set rules. rule_ok r" "vpath_ok p"
    and "authorize rules p a = Inl d"
    and "r \<in> set rules" "access_contains (denied r) a" "path_glob (denoted (rule_source r)) (components p)"
  shows "da_path d = p \<and> da_access d = a \<and> da_rule d \<le> rule_source r"
proof -
  have hit: "access_contains (denied r) a \<and> pattern_matches (rule_pattern r) p (file_name p)"
    using assms rule_ok_matches by simp
  obtain i where i: "i < length rules" "d = \<lparr>da_path = p, da_access = a, da_rule = rule_source (rules ! i)\<rparr>"
      "\<forall>j<i. \<not> (access_contains (denied (rules ! j)) a \<and>
        pattern_matches (rule_pattern (rules ! j)) p (file_name p))"
    using assms(4) by (auto simp: authorize_def find_Some_iff split: option.splits)
  obtain j where j: "j < length rules" "r = rules ! j" using assms(5) by (metis in_set_conv_nth)
  then have "i \<le> j" using i(3) hit by (metis not_le)
  then have "rule_source (rules ! i) \<le> rule_source (rules ! j)"
    using sorted_wrt_nth_less[OF assms(1), of i j] j(1) i(1) by (cases "i = j") auto
  then show ?thesis using i j by simp
qed

section \<open>The default rules\<close>

lemma expect_rules_map:
  "\<forall>p \<in> set ps. \<exists>r. f p = Inr r \<Longrightarrow> expect_rules (map f ps) = Some (map (\<lambda>p. case f p of Inr r \<Rightarrow> r) ps)"
  by (induction ps) auto

definition secure_sources :: "(string \<times> access_set) list" where
  "secure_sources = map (\<lambda>p. (p, access_all)) (default_secret_patterns @ internal_runtime_patterns) @
     map (\<lambda>p. (p, access_mutations)) [''.git'', ''.git/**'']"

definition compiles :: "string \<Rightarrow> bool" where
  "compiles p \<longleftrightarrow> (case compile_pattern p of Inr _ \<Rightarrow> True | Inl _ \<Rightarrow> False)"

lemma compiles_rule: "compiles p \<Longrightarrow> \<exists>r. protected_rule_new p s = Inr r"
  by (auto simp: compiles_def protected_rule_new_def split: sum.splits)

lemma secret_patterns_compile: "list_all compiles default_secret_patterns"
  by code_simp

lemma runtime_patterns_compile: "list_all compiles internal_runtime_patterns"
  by code_simp

lemma git_patterns_compile: "list_all compiles [''.git'', ''.git/**'']"
  by code_simp

lemma secure_default_rules:
  obtains rules where "secure_default = Some (call_policy_new rules)"
    and "\<forall>r \<in> set rules. rule_ok r"
    and "map (\<lambda>r. (rule_source r, denied r)) rules = secure_sources"
proof -
  let ?f = "\<lambda>(p, s). protected_rule_new p s"
  let ?pick = "\<lambda>x. case ?f x of Inr r \<Rightarrow> r"
  have ok: "\<exists>r. ?f x = Inr r" if "x \<in> set secure_sources" for x
    using that secret_patterns_compile runtime_patterns_compile git_patterns_compile compiles_rule
    by (fastforce simp: secure_sources_def list_all_iff)
  have "secure_default = map_option call_policy_new (expect_rules (map ?f secure_sources))"
    by (simp add: secure_default_def secure_sources_def comp_def)
  also have "\<dots> = Some (call_policy_new (map ?pick secure_sources))"
    using ok expect_rules_map[of secure_sources ?f] by simp
  finally have eq: "secure_default = Some (call_policy_new (map ?pick secure_sources))" .
  have each: "rule_ok (?pick x) \<and> rule_source (?pick x) = fst x \<and> denied (?pick x) = snd x"
    if x: "x \<in> set secure_sources" for x
  proof -
    obtain r where r: "?f x = Inr r" using ok[OF x] by blast
    then show ?thesis using protected_rule_new_ok[of "fst x" "snd x" r] by (simp add: case_prod_unfold)
  qed
  show ?thesis
  proof (rule that[OF eq])
    show "\<forall>r \<in> set (map ?pick secure_sources). rule_ok r" using each by simp
    show "map (\<lambda>r. (rule_source r, denied r)) (map ?pick secure_sources) = secure_sources"
      using each by (simp add: list.map_comp comp_def) (simp add: map_idI)
  qed
qed

text \<open>What the default rules deny, read off the patterns.\<close>

lemma secure_default_denies:
  assumes "secure_default = Some rules"
  shows "\<forall>r \<in> set rules. rule_ok r"
    and "denies rules p a \<longleftrightarrow>
      (\<exists>s \<in> set (default_secret_patterns @ internal_runtime_patterns). path_glob (denoted s) (components p)) \<or>
      is_mutation a \<and> (\<exists>s \<in> {''.git'', ''.git/**''}. path_glob (denoted s) (components p))"
proof -
  obtain rs where rs: "secure_default = Some (call_policy_new rs)" "\<forall>r \<in> set rs. rule_ok r"
    "map (\<lambda>r. (rule_source r, denied r)) rs = secure_sources" by (rule secure_default_rules)
  have rules: "rules = call_policy_new rs" using assms rs(1) by (metis option.inject)
  then show "\<forall>r \<in> set rules. rule_ok r" using call_policy_ok[OF rs(2)] by simp
  have "denies rs p a \<longleftrightarrow> (\<exists>x \<in> set (map (\<lambda>r. (rule_source r, denied r)) rs).
      access_contains (snd x) a \<and> path_glob (denoted (fst x)) (components p))"
    by (simp add: denies_def)
  also have "\<dots> \<longleftrightarrow>
      (\<exists>s \<in> set (default_secret_patterns @ internal_runtime_patterns). path_glob (denoted s) (components p)) \<or>
      is_mutation a \<and> (\<exists>s \<in> {''.git'', ''.git/**''}. path_glob (denoted s) (components p))"
    unfolding rs(3) by (simp add: secure_sources_def access_contains_mutations bex_Un) blast
  finally show "denies rules p a \<longleftrightarrow>
      (\<exists>s \<in> set (default_secret_patterns @ internal_runtime_patterns). path_glob (denoted s) (components p)) \<or>
      is_mutation a \<and> (\<exists>s \<in> {''.git'', ''.git/**''}. path_glob (denoted s) (components p))"
    unfolding rules call_policy_denies .
qed

text \<open>The three shapes the built-in patterns have.\<close>

lemma path_glob_name: "x \<noteq> ''**'' \<Longrightarrow> path_glob [''**'', x] cs \<longleftrightarrow> cs \<noteq> [] \<and> glob x (last cs)"
  using wild_leading_stars[of "\<lambda>c. c = ''**''" x "[''**'']" glob cs] by (simp add: path_glob_def)

lemma path_glob_rest: "path_glob [''**''] cs"
  by (induction cs) (simp_all add: path_glob_def)

lemma path_glob_top: "x \<noteq> ''**'' \<Longrightarrow> path_glob [x, ''**''] cs \<longleftrightarrow> cs \<noteq> [] \<and> glob x (hd cs)"
  using path_glob_rest by (cases cs) (auto simp: path_glob_def)

lemma path_glob_within: "x \<noteq> ''**'' \<Longrightarrow> path_glob [''**'', x, ''**''] cs \<longleftrightarrow> (\<exists>c \<in> set cs. glob x c)"
proof (induction cs)
  case (Cons c cs)
  have "path_glob [''**'', x, ''**''] (c # cs) \<longleftrightarrow>
      path_glob [x, ''**''] (c # cs) \<or> path_glob [''**'', x, ''**''] cs"
    by (simp add: path_glob_def)
  then show ?case using Cons path_glob_top by simp
qed (simp add: path_glob_def)

lemma glob_exact: "list_all (\<lambda>c. c \<noteq> asterisk) x \<Longrightarrow> glob x c \<longleftrightarrow> c = x"
  using glob_literal[of x c] by (auto simp: list_all_iff)

lemma glob_ending: "list_all (\<lambda>c. c \<noteq> asterisk) x \<Longrightarrow> glob (asterisk # x) c \<longleftrightarrow> suffix x c"
  using glob_single_star[of "[]" x c] suffix_length_le[of x c] unfolding list_all_iff by simp blast

lemma glob_starting: "list_all (\<lambda>c. c \<noteq> asterisk) x \<Longrightarrow> glob (x @ [asterisk]) c \<longleftrightarrow> prefix x c"
  using glob_single_star[of x "[]" c] prefix_length_le[of x c] unfolding list_all_iff by simp blast

definition secret_component :: "string \<Rightarrow> bool" where
  "secret_component c \<longleftrightarrow> c \<in> {''.env'', ''secrets'', ''.ssh''} \<or> prefix ''.env.'' c"

definition secret_name :: "string \<Rightarrow> bool" where
  "secret_name c \<longleftrightarrow> c \<in> {''id_rsa'', ''id_rsa.pub'', ''credentials.json''} \<or>
     suffix ''.pem'' c \<or> suffix ''.key'' c \<or> suffix ''_credentials.json'' c"

definition runtime_name :: "string \<Rightarrow> bool" where
  "runtime_name c \<longleftrightarrow> c \<in> {''.vsh-runtime'', ''.vsh-runtime-owner''}"

lemma denoted_secrets: "map denoted default_secret_patterns =
  [[''**'', ''.env''], [''.env'', ''**''], [''**'', ''.env.*''], [''.env.*'', ''**''],
   [''**'', ''.env''], [''**'', ''.env'', ''**''], [''**'', ''.env.*''], [''**'', ''.env.*'', ''**''],
   [''**'', ''secrets'', ''**''], [''**'', ''id_rsa''], [''**'', ''id_rsa.pub''], [''**'', ''*.pem''],
   [''**'', ''*.key''], [''**'', ''*.pem''], [''**'', ''*.key''], [''**'', ''credentials.json''],
   [''**'', ''*_credentials.json''], [''**'', ''.ssh'', ''**'']]"
  by code_simp

lemma denoted_runtime: "map denoted internal_runtime_patterns =
  [[''**'', ''.vsh-runtime''], [''.vsh-runtime'', ''**''], [''**'', ''.vsh-runtime-owner''],
   [''**'', ''.vsh-runtime-owner'']]"
  by code_simp

lemma denoted_git: "map denoted [''.git'', ''.git/**''] = [[''**'', ''.git''], [''.git'', ''**'']]"
  by code_simp

lemma secrets_denoted:
  "(\<exists>s \<in> set default_secret_patterns. path_glob (denoted s) cs) \<longleftrightarrow>
   (\<exists>c \<in> set cs. secret_component c) \<or> cs \<noteq> [] \<and> secret_name (last cs)"
proof -
  have env: "glob ''.env.*'' c \<longleftrightarrow> prefix ''.env.'' c" for c
    using glob_starting[of "''.env.''" c] by simp
  have comp: "secret_component c \<longleftrightarrow>
      glob ''.env'' c \<or> glob ''secrets'' c \<or> glob ''.ssh'' c \<or> glob ''.env.*'' c" for c
    by (simp add: secret_component_def glob_exact env)
  have name: "secret_name c \<longleftrightarrow> glob ''id_rsa'' c \<or> glob ''id_rsa.pub'' c \<or> glob ''credentials.json'' c \<or>
      glob ''*.pem'' c \<or> glob ''*.key'' c \<or> glob ''*_credentials.json'' c" for c
    by (simp add: secret_name_def glob_exact glob_ending)
  have "(\<exists>s \<in> set default_secret_patterns. path_glob (denoted s) cs) \<longleftrightarrow>
      list_ex (\<lambda>q. path_glob q cs) (map denoted default_secret_patterns)"
    by (simp add: list_ex_iff)
  also have "\<dots> \<longleftrightarrow> (\<exists>c \<in> set cs. secret_component c) \<or> cs \<noteq> [] \<and> secret_name (last cs)"
  proof (cases "cs = []")
    case False
    have ends: "glob x (last cs) \<longrightarrow> (\<exists>c \<in> set cs. glob x c)" "glob x (hd cs) \<longrightarrow> (\<exists>c \<in> set cs. glob x c)" for x
      using False by auto
    show ?thesis
      unfolding denoted_secrets comp name bex_disj_distrib
      using False ends[of "''.env''"] ends[of "''.env.*''"]
      by (simp add: path_glob_name path_glob_top path_glob_within bex_disj_distrib) sat
  qed (simp add: denoted_secrets path_glob_name path_glob_top path_glob_within)
  finally show ?thesis .
qed

lemma runtime_denoted:
  "(\<exists>s \<in> set internal_runtime_patterns. path_glob (denoted s) cs) \<longleftrightarrow>
   cs \<noteq> [] \<and> (runtime_name (last cs) \<or> hd cs = ''.vsh-runtime'')"
proof -
  have "(\<exists>s \<in> set internal_runtime_patterns. path_glob (denoted s) cs) \<longleftrightarrow>
      (\<exists>q \<in> set (map denoted internal_runtime_patterns). path_glob q cs)" by simp
  also have "\<dots> \<longleftrightarrow> cs \<noteq> [] \<and> (runtime_name (last cs) \<or> hd cs = ''.vsh-runtime'')"
    unfolding denoted_runtime
    by (simp add: path_glob_name path_glob_top glob_exact runtime_name_def) blast
  finally show ?thesis .
qed

lemma git_denoted:
  "(\<exists>s \<in> {''.git'', ''.git/**''}. path_glob (denoted s) cs) \<longleftrightarrow>
   cs \<noteq> [] \<and> (last cs = ''.git'' \<or> hd cs = ''.git'')"
proof -
  have "(\<exists>s \<in> {''.git'', ''.git/**''}. path_glob (denoted s) cs) \<longleftrightarrow>
      (\<exists>q \<in> set (map denoted [''.git'', ''.git/**'']). path_glob q cs)" by simp
  also have "\<dots> \<longleftrightarrow> cs \<noteq> [] \<and> (last cs = ''.git'' \<or> hd cs = ''.git'')"
    unfolding denoted_git by (simp add: path_glob_name path_glob_top glob_exact) blast
  finally show ?thesis .
qed

end
