(* ===== verification/Risk.thy ===== *)
theory Risk
  imports Policy
begin

text \<open>
  Transaction policy (\<open>crates/vsh-policy/src/lib.rs\<close>, second half): thresholds and profiles, risk
  metrics, the decision on an observed diff, and the digests that bind a transaction.  Counts of
  type \<open>usize\<close> are natural numbers, being lengths of vectors in memory; the saturation of the
  ratio's numerator is written out.  A \<open>BTreeSet\<close> of flags is its ascending list.
\<close>

section \<open>Configuration\<close>

datatype policy_profile = Balanced | Strict | Paranoid

fun profile_tag :: "policy_profile \<Rightarrow> u8" where
  "profile_tag Balanced = 1"
| "profile_tag Strict = 2"
| "profile_tag Paranoid = 3"

record policy_thresholds =
  escalate_touched_paths :: nat
  escalate_changed_bytes :: u64
  deny_touched_paths :: nat
  deny_changed_bytes :: u64
  deny_deleted_paths :: nat
  delete_ratio_minimum_paths :: nat
  deny_delete_ratio_bps :: u16

fun for_profile :: "policy_profile \<Rightarrow> policy_thresholds" where
  "for_profile Balanced = \<lparr>escalate_touched_paths = 500, escalate_changed_bytes = 64 * 1024 * 1024,
     deny_touched_paths = 50000, deny_changed_bytes = 1024 * 1024 * 1024,
     deny_deleted_paths = 10000, delete_ratio_minimum_paths = 100, deny_delete_ratio_bps = 7500\<rparr>"
| "for_profile Strict = \<lparr>escalate_touched_paths = 100, escalate_changed_bytes = 8 * 1024 * 1024,
     deny_touched_paths = 10000, deny_changed_bytes = 256 * 1024 * 1024,
     deny_deleted_paths = 2000, delete_ratio_minimum_paths = 25, deny_delete_ratio_bps = 5000\<rparr>"
| "for_profile Paranoid = \<lparr>escalate_touched_paths = 25, escalate_changed_bytes = 1024 * 1024,
     deny_touched_paths = 5000, deny_changed_bytes = 128 * 1024 * 1024,
     deny_deleted_paths = 500, delete_ratio_minimum_paths = 10, deny_delete_ratio_bps = 2500\<rparr>"

datatype policy_config_error =
  TouchedPathThreshold | ChangedByteThreshold | DeleteThreshold | DeleteRatio

definition validate_thresholds :: "policy_thresholds \<Rightarrow> policy_config_error + unit" where
  "validate_thresholds t =
     (if escalate_touched_paths t = 0 \<or> deny_touched_paths t = 0 \<or>
         deny_touched_paths t < escalate_touched_paths t then Err TouchedPathThreshold
      else if escalate_changed_bytes t = 0 \<or> deny_changed_bytes t = 0 \<or>
         deny_changed_bytes t < escalate_changed_bytes t then Err ChangedByteThreshold
      else if deny_deleted_paths t = 0 \<or> delete_ratio_minimum_paths t = 0 then Err DeleteThreshold
      else if \<not> (1 \<le> deny_delete_ratio_bps t \<and> deny_delete_ratio_bps t \<le> 10000) then Err DeleteRatio
      else Ok ())"

section \<open>Canonical bytes\<close>

definition encode_usize :: "nat \<Rightarrow> bytes" where
  "encode_usize n = u64_bytes (of_nat n)"

definition encode_bytes :: "bytes \<Rightarrow> bytes" where
  "encode_bytes bs = u64_bytes (len64 bs) @ bs"

definition encode_path_policy :: "vpath \<Rightarrow> bytes" where
  "encode_path_policy p = encode_bytes (str_bytes (as_str p))"

definition encode_optional_state_policy :: "node_state option \<Rightarrow> bytes" where
  "encode_optional_state_policy s = (case s of Some st \<Rightarrow> 1 # encode_canonical st | None \<Rightarrow> [0])"

definition encode_optional_digest :: "digest option \<Rightarrow> bytes" where
  "encode_optional_digest d = (case d of Some v \<Rightarrow> 1 # as_bytes v | None \<Rightarrow> [0])"

definition encode_rule :: "protected_rule \<Rightarrow> bytes" where
  "encode_rule r = encode_bytes (str_bytes (rule_source r)) @ u16_bytes (denied r)"

definition encode_call_policy :: "call_policy \<Rightarrow> bytes" where
  "encode_call_policy rules = encode_usize (length rules) @ concat (map encode_rule rules)"

definition policy_message :: "policy_profile \<Rightarrow> policy_thresholds \<Rightarrow> call_policy \<Rightarrow> bytes" where
  "policy_message profile t rules =
     encode_bytes (str_bytes ''vsh-policy-v3'') @ [profile_tag profile] @
     encode_usize (escalate_touched_paths t) @ u64_bytes (escalate_changed_bytes t) @
     encode_usize (deny_touched_paths t) @ u64_bytes (deny_changed_bytes t) @
     encode_usize (deny_deleted_paths t) @ encode_usize (delete_ratio_minimum_paths t) @
     u16_bytes (deny_delete_ratio_bps t) @ encode_call_policy rules"

definition policy_digest :: "(bytes \<Rightarrow> digest) \<Rightarrow> policy_profile \<Rightarrow> policy_thresholds \<Rightarrow> call_policy \<Rightarrow> digest" where
  "policy_digest blake3 profile t rules = policy_digest_canonical blake3 (policy_message profile t rules)"

record transaction_policy =
  tp_profile :: policy_profile
  tp_thresholds :: policy_thresholds
  tp_call_policy :: call_policy
  tp_digest :: digest

definition transaction_policy_new ::
    "(bytes \<Rightarrow> digest) \<Rightarrow> policy_profile \<Rightarrow> policy_thresholds \<Rightarrow> call_policy \<Rightarrow>
     policy_config_error + transaction_policy" where
  "transaction_policy_new blake3 profile t rules =
     bindR (validate_thresholds t) (\<lambda>_. Ok \<lparr>tp_profile = profile, tp_thresholds = t,
       tp_call_policy = rules, tp_digest = policy_digest blake3 profile t rules\<rparr>)"

text \<open>\<open>None\<close> is the panic of the two \<open>expect\<close> calls.\<close>

definition preset :: "(bytes \<Rightarrow> digest) \<Rightarrow> policy_profile \<Rightarrow> transaction_policy option" where
  "preset blake3 profile = Option.bind secure_default (\<lambda>rules.
     case transaction_policy_new blake3 profile (for_profile profile) rules of
       Inr p \<Rightarrow> Some p
     | Inl _ \<Rightarrow> None)"

section \<open>Metrics\<close>

record risk_metrics =
  touched_paths :: nat
  created_paths :: nat
  modified_paths :: nat
  deleted_paths :: nat
  renamed_paths :: nat
  changed_bytes :: u64
  delete_ratio_bps :: u16
  executable_changes :: nat
  symlink_changes :: nat

definition executable_bits :: "node_state option \<Rightarrow> u32" where
  "executable_bits s = (case s of None \<Rightarrow> 0 | Some st \<Rightarrow> mode st AND 0x49)"

definition is_link :: "node_state option \<Rightarrow> bool" where
  "is_link s \<longleftrightarrow> (case s of None \<Rightarrow> False | Some st \<Rightarrow> kind st = Symlink)"

definition size_or_zero :: "node_state option \<Rightarrow> u64" where
  "size_or_zero s = (case s of None \<Rightarrow> 0 | Some st \<Rightarrow> nsize st)"

text \<open>One round of the loop of \<open>from_evidence\<close>.\<close>

definition count_entry :: "diff_entry \<Rightarrow> risk_metrics \<Rightarrow> risk_metrics" where
  "count_entry e m =
     (let m1 = (case entry_kind e of
        DCreate \<Rightarrow> m\<lparr>created_paths := created_paths m + 1\<rparr>
      | DDelete \<Rightarrow> m\<lparr>deleted_paths := deleted_paths m + 1\<rparr>
      | _ \<Rightarrow> m\<lparr>modified_paths := modified_paths m + 1\<rparr>);
      m2 = (if entry_kind e \<noteq> DMetadataChange then m1\<lparr>changed_bytes :=
          saturating_add (saturating_add (changed_bytes m1) (size_or_zero (entry_before e)))
            (size_or_zero (entry_after e))\<rparr>
        else m1);
      m3 = (if executable_bits (entry_before e) \<noteq> executable_bits (entry_after e)
        then m2\<lparr>executable_changes := executable_changes m2 + 1\<rparr> else m2)
      in if is_link (entry_before e) \<or> is_link (entry_after e)
         then m3\<lparr>symlink_changes := symlink_changes m3 + 1\<rparr> else m3)"

definition is_rename :: "effect_event \<Rightarrow> bool" where
  "is_rename ev \<longleftrightarrow> (case ev_effect ev of Rename _ _ _ _ \<Rightarrow> True | _ \<Rightarrow> False)"

definition zero_metrics :: risk_metrics where
  "zero_metrics = \<lparr>touched_paths = 0, created_paths = 0, modified_paths = 0, deleted_paths = 0,
     renamed_paths = 0, changed_bytes = 0, delete_ratio_bps = 0, executable_changes = 0,
     symlink_changes = 0\<rparr>"

definition delete_ratio :: "nat \<Rightarrow> nat \<Rightarrow> u16" where
  "delete_ratio n base_node_count =
     (let base_user_nodes = base_node_count - 1;
          numerator = min (n * 10000) (2 ^ 64 - 1);
          ratio = (if base_user_nodes = 0 then 0 else numerator div base_user_nodes);
          capped = min ratio 10000
      in if capped < 2 ^ 16 then of_nat capped else 10000)"

definition from_evidence :: "diff_entry list \<Rightarrow> effect_event list \<Rightarrow> nat \<Rightarrow> risk_metrics" where
  "from_evidence entries effects base_node_count =
     (let m = fold count_entry entries (zero_metrics\<lparr>touched_paths := length entries\<rparr>);
          m = m\<lparr>renamed_paths := length (filter is_rename effects)\<rparr>
      in m\<lparr>delete_ratio_bps := delete_ratio (deleted_paths m) base_node_count\<rparr>)"

section \<open>The decision\<close>

datatype deny_reason =
  ProtectedAccessAttempt denied_access
| ProtectedMutation denied_access
| TouchedPathLimit nat nat
| ChangedByteLimit u64 u64
| DeletePathLimit nat nat
| DeleteRatioLimit u16 u16

datatype risk_flag =
  Flag_Mutation | Flag_Deletion | Flag_Rename | Flag_ExecutableChange | Flag_SymlinkChange |
  Flag_LargeTouchedSet | Flag_LargeByteChange | Flag_PermissionChange

fun flag_rank :: "risk_flag \<Rightarrow> nat" where
  "flag_rank Flag_Mutation = 0"
| "flag_rank Flag_Deletion = 1"
| "flag_rank Flag_Rename = 2"
| "flag_rank Flag_ExecutableChange = 3"
| "flag_rank Flag_SymlinkChange = 4"
| "flag_rank Flag_LargeTouchedSet = 5"
| "flag_rank Flag_LargeByteChange = 6"
| "flag_rank Flag_PermissionChange = 7"

lemma flag_rank_inj: "flag_rank a = flag_rank b \<longleftrightarrow> a = b"
  by (cases a; cases b) simp_all

text \<open>The derived \<open>Ord\<close>: declaration order.\<close>

instantiation risk_flag :: linorder
begin
definition less_eq_risk_flag :: "risk_flag \<Rightarrow> risk_flag \<Rightarrow> bool" where
  "a \<le> b \<longleftrightarrow> flag_rank a \<le> flag_rank b"
definition less_risk_flag :: "risk_flag \<Rightarrow> risk_flag \<Rightarrow> bool" where
  "a < b \<longleftrightarrow> flag_rank a < flag_rank b"
instance
  by standard (auto simp: less_eq_risk_flag_def less_risk_flag_def flag_rank_inj)
end

record deny_manifest =
  dm_reason :: deny_reason
  dm_metrics :: risk_metrics
  dm_policy :: digest

record risk_manifest =
  rm_metrics :: risk_metrics
  rm_flags :: "risk_flag list"
  rm_policy :: digest

datatype policy_decision = Deny deny_manifest | AutoApprove | Escalate risk_manifest

record policy_input =
  pi_diff :: canonical_diff
  pi_effects :: "effect_event list"
  pi_denied_accesses :: "denied_access list"
  pi_base_node_count :: nat

definition deny :: "transaction_policy \<Rightarrow> risk_metrics \<Rightarrow> deny_reason \<Rightarrow> policy_decision" where
  "deny p m reason = Deny \<lparr>dm_reason = reason, dm_metrics = m, dm_policy = tp_digest p\<rparr>"

definition entry_access :: "diff_entry \<Rightarrow> access_kind" where
  "entry_access e = (case entry_kind e of
     DCreate \<Rightarrow> Acc_Create
   | DDelete \<Rightarrow> Acc_Delete
   | DModify \<Rightarrow> Acc_Modify
   | DMetadataChange \<Rightarrow> Acc_Modify)"

text \<open>The loop over the diff: the first entry the call policy refuses.\<close>

fun first_protected :: "call_policy \<Rightarrow> diff_entry list \<Rightarrow> denied_access option" where
  "first_protected rules [] = None"
| "first_protected rules (e # es) = (case authorize rules (entry_path e) (entry_access e) of
     Inl d \<Rightarrow> Some d
   | Inr _ \<Rightarrow> first_protected rules es)"

definition limit_denial :: "transaction_policy \<Rightarrow> risk_metrics \<Rightarrow> policy_decision option" where
  "limit_denial p m =
     (let t = tp_thresholds p in
      if touched_paths m > deny_touched_paths t
      then Some (deny p m (TouchedPathLimit (deny_touched_paths t) (touched_paths m)))
      else if changed_bytes m > deny_changed_bytes t
      then Some (deny p m (ChangedByteLimit (deny_changed_bytes t) (changed_bytes m)))
      else if deleted_paths m > deny_deleted_paths t
      then Some (deny p m (DeletePathLimit (deny_deleted_paths t) (deleted_paths m)))
      else if deleted_paths m \<ge> delete_ratio_minimum_paths t \<and>
          delete_ratio_bps m \<ge> deny_delete_ratio_bps t
      then Some (deny p m (DeleteRatioLimit (deny_delete_ratio_bps t) (delete_ratio_bps m)))
      else None)"

definition hard_denial :: "transaction_policy \<Rightarrow> policy_input \<Rightarrow> risk_metrics \<Rightarrow> policy_decision option" where
  "hard_denial p i m =
     (case pi_denied_accesses i of
        attempt # _ \<Rightarrow> Some (deny p m (ProtectedAccessAttempt attempt))
      | [] \<Rightarrow>
          (case first_protected (tp_call_policy p) (cd_entries (pi_diff i)) of
             Some denial \<Rightarrow> Some (deny p m (ProtectedMutation denial))
           | None \<Rightarrow> limit_denial p m))"

text \<open>\<open>BTreeSet::insert\<close>\<close>

definition flag_insert :: "risk_flag \<Rightarrow> risk_flag list \<Rightarrow> risk_flag list" where
  "flag_insert = insort_insert"

definition flag_when :: "bool \<Rightarrow> risk_flag \<Rightarrow> risk_flag list \<Rightarrow> risk_flag list" where
  "flag_when c f fs = (if c then flag_insert f fs else fs)"

definition risk_flags :: "transaction_policy \<Rightarrow> risk_metrics \<Rightarrow> risk_flag list" where
  "risk_flags p m =
     (let t = tp_thresholds p;
          fs = flag_when (tp_profile p = Strict \<or> tp_profile p = Paranoid) Flag_Mutation [];
          fs = flag_when (deleted_paths m > 0) Flag_Deletion fs;
          fs = flag_when (renamed_paths m > 0) Flag_Rename fs;
          fs = flag_when (executable_changes m > 0) Flag_ExecutableChange fs;
          fs = flag_when (symlink_changes m > 0) Flag_SymlinkChange fs;
          fs = flag_when (touched_paths m \<ge> escalate_touched_paths t) Flag_LargeTouchedSet fs
      in flag_when (changed_bytes m \<ge> escalate_changed_bytes t) Flag_LargeByteChange fs)"

definition permission_change :: "diff_entry \<Rightarrow> bool" where
  "permission_change e \<longleftrightarrow> (case (entry_before e, entry_after e) of
     (Some before, Some after) \<Rightarrow> kind before = kind after \<and> mode before \<noteq> mode after
   | _ \<Rightarrow> False)"

definition evaluate_observed :: "transaction_policy \<Rightarrow> policy_input \<Rightarrow> risk_metrics \<Rightarrow> policy_decision" where
  "evaluate_observed p i m =
     (case hard_denial p i m of
        Some denial \<Rightarrow> denial
      | None \<Rightarrow>
          if cd_entries (pi_diff i) = [] then AutoApprove
          else
            let flags = risk_flags p m;
                flags = (if list_ex permission_change (cd_entries (pi_diff i))
                  then flag_insert Flag_PermissionChange flags else flags)
            in if flags = [] then AutoApprove
               else Escalate \<lparr>rm_metrics = m, rm_flags = flags, rm_policy = tp_digest p\<rparr>)"

definition evaluate_with_metrics :: "transaction_policy \<Rightarrow> policy_input \<Rightarrow> policy_decision \<times> risk_metrics" where
  "evaluate_with_metrics p i =
     (let m = from_evidence (cd_entries (pi_diff i)) (pi_effects i) (pi_base_node_count i)
      in (evaluate_observed p i m, m))"

definition evaluate :: "transaction_policy \<Rightarrow> policy_input \<Rightarrow> policy_decision" where
  "evaluate p i = fst (evaluate_with_metrics p i)"

section \<open>Dependency digests and the binding\<close>

definition encode_read :: "vpath \<times> read_observation \<Rightarrow> bytes" where
  "encode_read = (\<lambda>(path, obs).
     encode_path_policy path @
     (case obs_metadata obs of
        None \<Rightarrow> [0]
      | Some None \<Rightarrow> [1]
      | Some (Some st) \<Rightarrow> 2 # encode_canonical st) @
     encode_optional_digest (obs_content obs) @
     encode_optional_digest (obs_directory obs))"

definition read_set_message :: "(vpath, read_observation) btree \<Rightarrow> bytes" where
  "read_set_message reads = encode_usize (length reads) @ concat (map encode_read reads)"

definition read_set_digest :: "(bytes \<Rightarrow> digest) \<Rightarrow> (vpath, read_observation) btree \<Rightarrow> digest" where
  "read_set_digest blake3 reads = read_set_digest_canonical blake3 (read_set_message reads)"

definition encode_write :: "vpath \<times> write_precondition \<Rightarrow> bytes" where
  "encode_write = (\<lambda>(path, pre). encode_path_policy path @ encode_optional_state_policy (wp_expected pre))"

definition write_set_message :: "(vpath, write_precondition) btree \<Rightarrow> bytes" where
  "write_set_message writes = encode_usize (length writes) @ concat (map encode_write writes)"

definition write_set_digest :: "(bytes \<Rightarrow> digest) \<Rightarrow> (vpath, write_precondition) btree \<Rightarrow> digest" where
  "write_set_digest blake3 writes = write_set_digest_canonical blake3 (write_set_message writes)"

record transaction_identity_input =
  ti_base_snapshot :: digest
  ti_diff :: canonical_diff
  ti_read_set :: "(vpath, read_observation) btree"
  ti_write_set :: "(vpath, write_precondition) btree"
  ti_program :: string
  ti_policy :: transaction_policy
  ti_runtime_config :: digest
  ti_intent :: "string option"

definition bind_transaction :: "(bytes \<Rightarrow> digest) \<Rightarrow> transaction_identity_input \<Rightarrow> transaction_binding" where
  "bind_transaction blake3 i =
     \<lparr>base_snapshot = ti_base_snapshot i,
      diff = cd_digest (ti_diff i),
      read_set = read_set_digest blake3 (ti_read_set i),
      write_set = write_set_digest blake3 (ti_write_set i),
      program = program_digest blake3 (ti_program i),
      policy = tp_digest (ti_policy i),
      runtime_config = ti_runtime_config i,
      intent = map_option (intent_digest blake3) (ti_intent i),
      invocation = None, commit_hook = None, execution_evidence = None\<rparr>"

section \<open>Properties of the decision\<close>

definition over_limits :: "policy_thresholds \<Rightarrow> risk_metrics \<Rightarrow> bool" where
  "over_limits t m \<longleftrightarrow> deny_touched_paths t < touched_paths m \<or> deny_changed_bytes t < changed_bytes m \<or>
     deny_deleted_paths t < deleted_paths m \<or>
     delete_ratio_minimum_paths t \<le> deleted_paths m \<and> deny_delete_ratio_bps t \<le> delete_ratio_bps m"

definition refused :: "transaction_policy \<Rightarrow> policy_input \<Rightarrow> bool" where
  "refused p i \<longleftrightarrow> pi_denied_accesses i \<noteq> [] \<or>
     (\<exists>e \<in> set (cd_entries (pi_diff i)). \<exists>d. authorize (tp_call_policy p) (entry_path e) (entry_access e) = Inl d)"

definition risky :: "transaction_policy \<Rightarrow> risk_metrics \<Rightarrow> diff_entry list \<Rightarrow> bool" where
  "risky p m es \<longleftrightarrow> tp_profile p \<noteq> Balanced \<or> 0 < deleted_paths m \<or> 0 < renamed_paths m \<or>
     0 < executable_changes m \<or> 0 < symlink_changes m \<or>
     escalate_touched_paths (tp_thresholds p) \<le> touched_paths m \<or>
     escalate_changed_bytes (tp_thresholds p) \<le> changed_bytes m \<or>
     (\<exists>e \<in> set es. permission_change e)"

lemma first_protected_None:
  "first_protected rules es = None \<longleftrightarrow>
   (\<forall>e \<in> set es. \<nexists>d. authorize rules (entry_path e) (entry_access e) = Inl d)"
  by (induction es) (auto split: sum.splits)

lemma limit_denial_None: "limit_denial p m = None \<longleftrightarrow> \<not> over_limits (tp_thresholds p) m"
  by (auto simp: limit_denial_def over_limits_def Let_def)

lemma hard_denial_None:
  "hard_denial p i m = None \<longleftrightarrow> \<not> refused p i \<and> \<not> over_limits (tp_thresholds p) m"
proof (cases "pi_denied_accesses i")
  case Nil
  then show ?thesis
    using first_protected_None[of "tp_call_policy p" "cd_entries (pi_diff i)"]
    by (cases "first_protected (tp_call_policy p) (cd_entries (pi_diff i))")
       (simp_all add: hard_denial_def refused_def limit_denial_None)
qed (simp add: hard_denial_def refused_def)

lemma hard_denial_Some: "hard_denial p i m = Some d \<Longrightarrow> \<exists>r. d = deny p m r"
  by (auto simp: hard_denial_def limit_denial_def Let_def split: list.splits option.splits if_splits)

lemma flag_when_set: "set (flag_when c f fs) = (if c then insert f (set fs) else set fs)"
  by (simp add: flag_when_def flag_insert_def set_insort_insert)

lemma flag_when_sorted: "sorted fs \<and> distinct fs \<Longrightarrow> sorted (flag_when c f fs) \<and> distinct (flag_when c f fs)"
  by (simp add: flag_when_def flag_insert_def sorted_insort_insert distinct_insort_insert)

lemma risk_flags_set:
  "f \<in> set (risk_flags p m) \<longleftrightarrow> (case f of
     Flag_Mutation \<Rightarrow> tp_profile p \<noteq> Balanced
   | Flag_Deletion \<Rightarrow> 0 < deleted_paths m
   | Flag_Rename \<Rightarrow> 0 < renamed_paths m
   | Flag_ExecutableChange \<Rightarrow> 0 < executable_changes m
   | Flag_SymlinkChange \<Rightarrow> 0 < symlink_changes m
   | Flag_LargeTouchedSet \<Rightarrow> escalate_touched_paths (tp_thresholds p) \<le> touched_paths m
   | Flag_LargeByteChange \<Rightarrow> escalate_changed_bytes (tp_thresholds p) \<le> changed_bytes m
   | Flag_PermissionChange \<Rightarrow> False)"
  by (cases f; cases "tp_profile p") (simp_all add: risk_flags_def Let_def flag_when_set)

lemma risk_flags_sorted: "sorted (risk_flags p m) \<and> distinct (risk_flags p m)"
  unfolding risk_flags_def Let_def by (intro flag_when_sorted) simp

definition all_flags :: "transaction_policy \<Rightarrow> risk_metrics \<Rightarrow> diff_entry list \<Rightarrow> risk_flag list" where
  "all_flags p m es = flag_when (list_ex permission_change es) Flag_PermissionChange (risk_flags p m)"

lemma all_risk_flag: "(\<forall>f. P f) \<longleftrightarrow> P Flag_Mutation \<and> P Flag_Deletion \<and> P Flag_Rename \<and>
  P Flag_ExecutableChange \<and> P Flag_SymlinkChange \<and> P Flag_LargeTouchedSet \<and> P Flag_LargeByteChange \<and>
  P Flag_PermissionChange"
  by (metis risk_flag.exhaust)

lemma all_flags_Nil: "all_flags p m es = [] \<longleftrightarrow> \<not> risky p m es"
proof -
  have "all_flags p m es = [] \<longleftrightarrow> (\<forall>f. f \<notin> set (all_flags p m es))" by auto
  also have "\<dots> \<longleftrightarrow> \<not> risky p m es"
    unfolding all_flags_def flag_when_set risky_def list_ex_iff all_risk_flag
    by (simp add: risk_flags_set)
  finally show ?thesis .
qed

lemma evaluate_cases:
  defines "m \<equiv> \<lambda>i. from_evidence (cd_entries (pi_diff i)) (pi_effects i) (pi_base_node_count i)"
  shows "(\<exists>r. evaluate p i = deny p (m i) r) \<longleftrightarrow> refused p i \<or> over_limits (tp_thresholds p) (m i)"
    and "evaluate p i = AutoApprove \<longleftrightarrow> \<not> refused p i \<and> \<not> over_limits (tp_thresholds p) (m i) \<and>
      (cd_entries (pi_diff i) = [] \<or> \<not> risky p (m i) (cd_entries (pi_diff i)))"
    and "\<lbrakk>\<not> refused p i; \<not> over_limits (tp_thresholds p) (m i); cd_entries (pi_diff i) \<noteq> [];
        risky p (m i) (cd_entries (pi_diff i))\<rbrakk> \<Longrightarrow>
      evaluate p i = Escalate \<lparr>rm_metrics = m i,
        rm_flags = all_flags p (m i) (cd_entries (pi_diff i)), rm_policy = tp_digest p\<rparr>"
proof -
  let ?es = "cd_entries (pi_diff i)"
  have step: "evaluate p i = (case hard_denial p i (m i) of Some d \<Rightarrow> d | None \<Rightarrow>
      if ?es = [] \<or> all_flags p (m i) ?es = [] then AutoApprove
      else Escalate \<lparr>rm_metrics = m i, rm_flags = all_flags p (m i) ?es, rm_policy = tp_digest p\<rparr>)"
    by (simp add: evaluate_def evaluate_with_metrics_def evaluate_observed_def m_def all_flags_def
        flag_when_def Let_def cong: option.case_cong)
  show "(\<exists>r. evaluate p i = deny p (m i) r) \<longleftrightarrow> refused p i \<or> over_limits (tp_thresholds p) (m i)"
    "evaluate p i = AutoApprove \<longleftrightarrow> \<not> refused p i \<and> \<not> over_limits (tp_thresholds p) (m i) \<and>
      (?es = [] \<or> \<not> risky p (m i) ?es)"
    "\<lbrakk>\<not> refused p i; \<not> over_limits (tp_thresholds p) (m i); ?es \<noteq> []; risky p (m i) ?es\<rbrakk> \<Longrightarrow>
      evaluate p i = Escalate \<lparr>rm_metrics = m i, rm_flags = all_flags p (m i) ?es, rm_policy = tp_digest p\<rparr>"
    using hard_denial_None[of p i "m i"] hard_denial_Some[of p i "m i"] all_flags_Nil[of p "m i" ?es]
    by (cases "hard_denial p i (m i)"; force simp: step deny_def)+
qed

section \<open>Properties of the metrics\<close>

lemma count_entry_fields:
  "touched_paths (count_entry e m) = touched_paths m"
  "created_paths (count_entry e m) = created_paths m + (if entry_kind e = DCreate then 1 else 0)"
  "deleted_paths (count_entry e m) = deleted_paths m + (if entry_kind e = DDelete then 1 else 0)"
  "modified_paths (count_entry e m) = modified_paths m +
     (if entry_kind e = DModify \<or> entry_kind e = DMetadataChange then 1 else 0)"
  "executable_changes (count_entry e m) = executable_changes m +
     (if executable_bits (entry_before e) \<noteq> executable_bits (entry_after e) then 1 else 0)"
  "symlink_changes (count_entry e m) = symlink_changes m +
     (if is_link (entry_before e) \<or> is_link (entry_after e) then 1 else 0)"
  "renamed_paths (count_entry e m) = renamed_paths m"
  "changed_bytes (count_entry e m) = (if entry_kind e = DMetadataChange then changed_bytes m
     else saturating_add (saturating_add (changed_bytes m) (size_or_zero (entry_before e)))
       (size_or_zero (entry_after e)))"
  by (simp_all add: count_entry_def Let_def split: diff_kind.splits)

lemma fold_count_entry:
  "touched_paths (fold count_entry es m) = touched_paths m"
  "created_paths (fold count_entry es m) = created_paths m + length (filter (\<lambda>e. entry_kind e = DCreate) es)"
  "deleted_paths (fold count_entry es m) = deleted_paths m + length (filter (\<lambda>e. entry_kind e = DDelete) es)"
  "modified_paths (fold count_entry es m) = modified_paths m +
     length (filter (\<lambda>e. entry_kind e = DModify \<or> entry_kind e = DMetadataChange) es)"
  "executable_changes (fold count_entry es m) = executable_changes m +
     length (filter (\<lambda>e. executable_bits (entry_before e) \<noteq> executable_bits (entry_after e)) es)"
  "symlink_changes (fold count_entry es m) = symlink_changes m +
     length (filter (\<lambda>e. is_link (entry_before e) \<or> is_link (entry_after e)) es)"
  by (induction es arbitrary: m) (simp_all add: count_entry_fields)

definition content_bytes :: "diff_entry \<Rightarrow> nat" where
  "content_bytes e = (if entry_kind e = DMetadataChange then 0
     else unat (size_or_zero (entry_before e)) + unat (size_or_zero (entry_after e)))"

lemma fold_changed_bytes:
  "unat (changed_bytes (fold count_entry es m)) =
   min (unat (changed_bytes m) + sum_list (map content_bytes es)) (2 ^ 64 - 1)"
proof (induction es arbitrary: m)
  case Nil
  have "unat (changed_bytes m) < 2 ^ LENGTH(64)" by (rule unsigned_less)
  then show ?case by simp
next
  case (Cons e es)
  have "unat (changed_bytes (count_entry e m)) = min (unat (changed_bytes m) + content_bytes e) (2 ^ 64 - 1)"
  proof -
    have "unat (changed_bytes m) < 2 ^ LENGTH(64)" by (rule unsigned_less)
    then show ?thesis
      by (simp add: count_entry_fields content_bytes_def unat_saturating_add) (simp add: min_def)
  qed
  then show ?case using Cons[of "count_entry e m"] by simp
qed

lemma delete_ratio_eq:
  assumes "n * 10000 < 2 ^ 64"
  shows "unat (delete_ratio n b) = (if b \<le> 1 then 0 else min (n * 10000 div (b - 1)) 10000)"
proof -
  have small: "unat (of_nat (min k 10000) :: u16) = min k 10000" for k
    by (simp add: unat_of_nat take_bit_nat_eq_self)
  have fits: "min k 10000 < 65536" for k :: nat by (simp add: min_less_iff_disj)
  have "min (n * 10000) (2 ^ 64 - 1) = n * 10000" using assms by simp
  then show ?thesis using small[of "n * 10000 div (b - 1)"]
    by (simp add: delete_ratio_def Let_def fits)
qed

lemma delete_ratio_le: "delete_ratio n b \<le> 10000"
proof -
  have "unat (of_nat (min k 10000) :: u16) = min k 10000" for k
    by (simp add: unat_of_nat take_bit_nat_eq_self)
  then show ?thesis by (simp add: delete_ratio_def Let_def word_le_nat_alt)
qed

section \<open>The digested messages determine what they encode\<close>

interpretation bytes_code: prefix_code encode_bytes "\<lambda>bs. length bs < 2 ^ 64"
proof
  fix x y r s :: bytes
  assume "length x < 2 ^ 64" "length y < 2 ^ 64" and eq: "encode_bytes x @ r = encode_bytes y @ s"
  then have "length x = length y" using len64_inj[of x y] by (simp add: encode_bytes_def)
  then show "x = y \<and> r = s" using eq by (simp add: encode_bytes_def)
qed

abbreviation fits64 :: "string \<Rightarrow> bool" where "fits64 s \<equiv> length s < 2 ^ 64"

interpretation path_code: prefix_code encode_path_policy "\<lambda>p. fits64 (as_str p)"
proof
  fix p q r s
  assume h: "fits64 (as_str p)" "fits64 (as_str q)" "encode_path_policy p @ r = encode_path_policy q @ s"
  then have "str_bytes (as_str p) = str_bytes (as_str q) \<and> r = s"
    using bytes_code.prefix_free[of "str_bytes (as_str p)" "str_bytes (as_str q)" r s]
    by (simp add: encode_path_policy_def)
  then show "p = q \<and> r = s" by (simp add: str_bytes_inj vpath.expand)
qed

lemma encode_usize_append: "n < 2 ^ 64 \<Longrightarrow> m < 2 ^ 64 \<Longrightarrow> encode_usize n @ r = encode_usize m @ s \<longleftrightarrow> n = m \<and> r = s"
  using len64_inj[of "replicate n ()" "replicate m ()"] by (auto simp: encode_usize_def len64_def)

lemma encode_optional_digest_append:
  "encode_optional_digest a @ r = encode_optional_digest b @ s \<longleftrightarrow> a = b \<and> r = s"
  by (auto simp: encode_optional_digest_def split: option.splits)

lemma encode_optional_state_policy_append:
  "encode_optional_state_policy a @ r = encode_optional_state_policy b @ s \<longleftrightarrow> a = b \<and> r = s"
  by (auto simp: encode_optional_state_policy_def encode_canonical_prefix_free split: option.splits)

interpretation read_code: prefix_code encode_read "\<lambda>x. fits64 (as_str (fst x))"
proof
  fix x y r s
  assume h: "fits64 (as_str (fst x))" "fits64 (as_str (fst y))" "encode_read x @ r = encode_read y @ s"
  obtain p a q b where xy: "x = (p, a)" "y = (q, b)" by (cases x; cases y) auto
  let ?tail = "\<lambda>obs. (case obs_metadata obs of None \<Rightarrow> [0] | Some None \<Rightarrow> [1]
      | Some (Some st) \<Rightarrow> 2 # encode_canonical st) @
    encode_optional_digest (obs_content obs) @ encode_optional_digest (obs_directory obs)"
  have "p = q \<and> ?tail a @ r = ?tail b @ s"
    by (rule path_code.prefix_free) (use h xy in \<open>simp_all add: encode_read_def\<close>)
  moreover have "a = b \<and> r = s" if "?tail a @ r = ?tail b @ s"
    using that by (auto simp: encode_optional_digest_append encode_canonical_prefix_free
        split: option.splits intro!: read_observation.equality)
  ultimately show "x = y \<and> r = s" using xy by blast
qed

interpretation write_code: prefix_code encode_write "\<lambda>x. fits64 (as_str (fst x))"
proof
  fix x y r s
  assume h: "fits64 (as_str (fst x))" "fits64 (as_str (fst y))" "encode_write x @ r = encode_write y @ s"
  obtain p a q b where xy: "x = (p, a)" "y = (q, b)" by (cases x; cases y) auto
  have "p = q \<and> encode_optional_state_policy (wp_expected a) @ r = encode_optional_state_policy (wp_expected b) @ s"
    by (rule path_code.prefix_free) (use h xy in \<open>simp_all add: encode_write_def\<close>)
  then show "x = y \<and> r = s" using xy by (simp add: encode_optional_state_policy_append write_precondition.equality)
qed

definition message_bounded :: "(vpath \<times> 'a) list \<Rightarrow> bool" where
  "message_bounded m \<longleftrightarrow> length m < 2 ^ 64 \<and> (\<forall>x \<in> set m. fits64 (as_str (fst x)))"

lemma read_set_message_inj:
  assumes "message_bounded a" "message_bounded b" "read_set_message a = read_set_message b"
  shows "a = b"
proof -
  have "length a = length b \<and> concat (map encode_read a) = concat (map encode_read b)"
    using assms encode_usize_append[of "length a" "length b"]
    by (simp add: message_bounded_def read_set_message_def)
  then show ?thesis using assms(1,2) read_code.concat_prefix_free[of a b "[]" "[]"]
    by (simp add: message_bounded_def)
qed

lemma write_set_message_inj:
  assumes "message_bounded a" "message_bounded b" "write_set_message a = write_set_message b"
  shows "a = b"
proof -
  have "length a = length b \<and> concat (map encode_write a) = concat (map encode_write b)"
    using assms encode_usize_append[of "length a" "length b"]
    by (simp add: message_bounded_def write_set_message_def)
  then show ?thesis using assms(1,2) write_code.concat_prefix_free[of a b "[]" "[]"]
    by (simp add: message_bounded_def)
qed

interpretation rule_code: prefix_code encode_rule "\<lambda>r. fits64 (rule_source r) \<and> rule_ok r"
proof
  fix x y r s
  assume h: "fits64 (rule_source x) \<and> rule_ok x" "fits64 (rule_source y) \<and> rule_ok y"
    "encode_rule x @ r = encode_rule y @ s"
  have eq: "str_bytes (rule_source x) = str_bytes (rule_source y) \<and> u16_bytes (denied x) @ r = u16_bytes (denied y) @ s"
    by (rule bytes_code.prefix_free) (use h in \<open>simp_all add: encode_rule_def\<close>)
  then have "rule_source x = rule_source y" by (simp add: str_bytes_inj)
  then have "rule_pattern x = rule_pattern y" using h unfolding rule_ok_def by (metis Inr_inject)
  then show "x = y \<and> r = s" using eq by simp
qed

definition policy_bounded :: "policy_thresholds \<Rightarrow> call_policy \<Rightarrow> bool" where
  "policy_bounded t rules \<longleftrightarrow> escalate_touched_paths t < 2 ^ 64 \<and> deny_touched_paths t < 2 ^ 64 \<and>
     deny_deleted_paths t < 2 ^ 64 \<and> delete_ratio_minimum_paths t < 2 ^ 64 \<and>
     length rules < 2 ^ 64 \<and> (\<forall>r \<in> set rules. fits64 (rule_source r) \<and> rule_ok r)"

lemma profile_tag_inj: "profile_tag a = profile_tag b \<longleftrightarrow> a = b"
  by (cases a; cases b) simp_all

lemma policy_message_inj:
  assumes "policy_bounded t rules" "policy_bounded t' rules'"
    and "policy_message p t rules = policy_message p' t' rules'"
  shows "p = p' \<and> t = t' \<and> rules = rules'"
proof -
  note bounds = assms(1,2)[unfolded policy_bounded_def]
  have parts: "p = p' \<and> t = t' \<and> encode_call_policy rules = encode_call_policy rules'"
    using assms(3) bounds
    by (auto simp: policy_message_def encode_usize_append profile_tag_inj intro!: policy_thresholds.equality)
  then have "length rules = length rules' \<and> concat (map encode_rule rules) = concat (map encode_rule rules')"
    using bounds encode_usize_append[of "length rules" "length rules'"] by (simp add: encode_call_policy_def)
  then have "rules = rules'"
    using bounds rule_code.concat_prefix_free[of rules rules' "[]" "[]"] by simp
  then show ?thesis using parts by simp
qed

section \<open>The built-in profiles\<close>

lemma for_profile_valid: "validate_thresholds (for_profile p) = Inr ()"
  by (cases p) (simp_all add: validate_thresholds_def)

lemma preset_policy:
  assumes "preset blake3 profile = Some p"
  shows "tp_profile p = profile" "tp_thresholds p = for_profile profile"
    and "secure_default = Some (tp_call_policy p)"
    and "tp_digest p = policy_digest blake3 profile (for_profile profile) (tp_call_policy p)"
  using assms by (auto simp: preset_def transaction_policy_new_def for_profile_valid bind_eq_Some_conv)

lemma preset_exists: "\<exists>p. preset blake3 profile = Some p"
proof -
  obtain rules where rules: "secure_default = Some rules" by (rule secure_default_rules)
  show ?thesis unfolding preset_def rules by (simp add: transaction_policy_new_def for_profile_valid)
qed

fun severity :: "policy_decision \<Rightarrow> nat" where
  "severity AutoApprove = 0"
| "severity (Escalate _) = 1"
| "severity (Deny _) = 2"

fun strictness :: "policy_profile \<Rightarrow> nat" where
  "strictness Balanced = 0"
| "strictness Strict = 1"
| "strictness Paranoid = 2"

lemma severity_cases:
  "severity (evaluate p i) =
   (let m = from_evidence (cd_entries (pi_diff i)) (pi_effects i) (pi_base_node_count i) in
    if refused p i \<or> over_limits (tp_thresholds p) m then 2
    else if cd_entries (pi_diff i) \<noteq> [] \<and> risky p m (cd_entries (pi_diff i)) then 1 else 0)"
  using evaluate_cases[of p i] by (auto simp: Let_def deny_def)

lemma over_limits_mono:
  "strictness a \<le> strictness b \<Longrightarrow> over_limits (for_profile a) m \<Longrightarrow> over_limits (for_profile b) m"
  by (cases a; cases b) (auto simp: over_limits_def word_less_nat_alt word_le_nat_alt)

lemma risky_mono:
  assumes "strictness a \<le> strictness b" "tp_profile p = a" "tp_profile q = b"
    and "tp_thresholds p = for_profile a" "tp_thresholds q = for_profile b" "risky p m es"
  shows "risky q m es"
  using assms by (cases a; cases b) (auto simp: risky_def)

section \<open>What an identity binds\<close>

definition hashed_by :: "(bytes \<Rightarrow> digest) \<Rightarrow> transaction_identity_input \<Rightarrow> bytes set" where
  "hashed_by blake3 i = (\<lambda>(d, m). domain_hasher d (len64 m) @ m) `
     ({(str_bytes ''read-set-v1'', read_set_message (ti_read_set i)),
       (str_bytes ''write-set-v1'', write_set_message (ti_write_set i)),
       (str_bytes ''program-v1'', str_bytes (ti_program i)),
       transaction_message (bind_transaction blake3 i)} \<union>
      (case ti_intent i of None \<Rightarrow> {} | Some t \<Rightarrow> {(str_bytes ''intent-v1'', str_bytes t)}))"

lemma hashed_same:
  assumes "inj_on blake3 (hashed_by blake3 i \<union> hashed_by blake3 j)"
    and "domain_hash blake3 d m = domain_hash blake3 e n" "length d < 2 ^ 64" "length e < 2 ^ 64"
    and "domain_hasher d (len64 m) @ m \<in> hashed_by blake3 i" "domain_hasher e (len64 n) @ n \<in> hashed_by blake3 j"
  shows "d = e \<and> m = n"
proof -
  have "domain_hasher d (len64 m) @ m = domain_hasher e (len64 n) @ n"
    using assms by (auto simp: domain_hash_def dest: inj_onD)
  then show ?thesis using domain_hasher_inj[OF assms(3,4)] by blast
qed

lemma binding_from_id:
  assumes "inj_on blake3 (hashed_by blake3 i \<union> hashed_by blake3 j)"
    and "transaction_id blake3 (bind_transaction blake3 i) = transaction_id blake3 (bind_transaction blake3 j)"
  shows "bind_transaction blake3 i = bind_transaction blake3 j"
proof -
  let ?bi = "bind_transaction blake3 i" and ?bj = "bind_transaction blake3 j"
  obtain d m e n where t: "transaction_message ?bi = (d, m)" "transaction_message ?bj = (e, n)" by fastforce
  then have "domain_hasher d (len64 m) @ m \<in> hashed_by blake3 i" "domain_hasher e (len64 n) @ n \<in> hashed_by blake3 j"
    by (auto simp: hashed_by_def)
  moreover have "length d < 2 ^ 64" "length e < 2 ^ 64"
    using t by (auto simp: transaction_message_def Let_def bind_transaction_def split: option.splits)
  moreover have "domain_hash blake3 d m = domain_hash blake3 e n"
    using assms(2) t by (simp add: transaction_id_def)
  ultimately have "d = e \<and> m = n" using hashed_same[OF assms(1)] by blast
  then show ?thesis using t transaction_message_inj by metis
qed

lemma bindings_determine:
  assumes inj: "inj_on blake3 (hashed_by blake3 i \<union> hashed_by blake3 j)"
    and eq: "bind_transaction blake3 i = bind_transaction blake3 j"
    and reads: "message_bounded (ti_read_set i)" "message_bounded (ti_read_set j)"
    and writes: "message_bounded (ti_write_set i)" "message_bounded (ti_write_set j)"
  shows "ti_base_snapshot i = ti_base_snapshot j \<and> cd_digest (ti_diff i) = cd_digest (ti_diff j) \<and>
    ti_read_set i = ti_read_set j \<and> ti_write_set i = ti_write_set j \<and> ti_program i = ti_program j \<and>
    tp_digest (ti_policy i) = tp_digest (ti_policy j) \<and> ti_runtime_config i = ti_runtime_config j \<and>
    ti_intent i = ti_intent j"
proof (intro conjI)
  note fields = eq[unfolded bind_transaction_def, simplified]
  show "ti_base_snapshot i = ti_base_snapshot j" "cd_digest (ti_diff i) = cd_digest (ti_diff j)"
    "tp_digest (ti_policy i) = tp_digest (ti_policy j)" "ti_runtime_config i = ti_runtime_config j"
    using fields by simp_all
  have "read_set_message (ti_read_set i) = read_set_message (ti_read_set j)"
    using fields hashed_same[OF inj, of "str_bytes ''read-set-v1''" "read_set_message (ti_read_set i)" "str_bytes ''read-set-v1''" "read_set_message (ti_read_set j)"]
    by (simp add: read_set_digest_def read_set_digest_canonical_def hashed_by_def)
  then show "ti_read_set i = ti_read_set j" by (rule read_set_message_inj[OF reads])
  have "write_set_message (ti_write_set i) = write_set_message (ti_write_set j)"
    using fields hashed_same[OF inj, of "str_bytes ''write-set-v1''" "write_set_message (ti_write_set i)" "str_bytes ''write-set-v1''" "write_set_message (ti_write_set j)"]
    by (simp add: write_set_digest_def write_set_digest_canonical_def hashed_by_def)
  then show "ti_write_set i = ti_write_set j" by (rule write_set_message_inj[OF writes])
  have "str_bytes (ti_program i) = str_bytes (ti_program j)"
    using fields hashed_same[OF inj, of "str_bytes ''program-v1''" "str_bytes (ti_program i)" "str_bytes ''program-v1''" "str_bytes (ti_program j)"]
    by (simp add: program_digest_def hashed_by_def)
  then show "ti_program i = ti_program j" by (simp add: str_bytes_inj)
  have texts: "s = t" if st: "ti_intent i = Some s" "ti_intent j = Some t" for s t
  proof -
    have "intent_digest blake3 s = intent_digest blake3 t" using fields st by simp
    then have "str_bytes s = str_bytes t"
      using hashed_same[OF inj, of "str_bytes ''intent-v1''" "str_bytes s" "str_bytes ''intent-v1''" "str_bytes t"]
      by (simp add: intent_digest_def hashed_by_def st)
    then show ?thesis by (simp add: str_bytes_inj)
  qed
  have "map_option (intent_digest blake3) (ti_intent i) = map_option (intent_digest blake3) (ti_intent j)"
    using fields by simp
  then show "ti_intent i = ti_intent j"
  proof (cases "ti_intent i")
    case (Some s)
    then obtain t where "ti_intent j = Some t" using fields by fastforce
    then show ?thesis using Some texts by metis
  qed (use fields in simp)
qed

end
