(* ===== verification/Reader.thy ===== *)
theory Reader
  imports Codec
begin

text \<open>
  Readers of stored bytes: a record of the bytes and the offset (\<open>Reader\<close> of
  \<open>crates/vsh-commit/src/plan.rs\<close>, \<open>Decoder\<close> of \<open>crates/vbash/src/artifact.rs\<close>), and the relation
  between what an encoder wrote and what a decoder reads, which composes along \<open>bindS\<close>.
\<close>

record reader =
  rd_bytes :: bytes
  rd_offset :: nat

text \<open>
  \<open>reads_in C m x a\<close>: wherever the bytes \<open>x\<close> stand at the offset of a reader whose further fields
  satisfy \<open>C\<close>, \<open>m\<close> returns \<open>a\<close> and moves past them, whatever follows.
\<close>

definition reads_in :: "('r \<Rightarrow> bool) \<Rightarrow> ('r reader_scheme, 'e, 'a) op \<Rightarrow> bytes \<Rightarrow> 'a \<Rightarrow> bool" where
  "reads_in C m x a \<longleftrightarrow> (\<forall>r rest. C (reader.more r) \<longrightarrow> length (rd_bytes r) < 2 ^ 64 \<longrightarrow>
     rd_offset r \<le> length (rd_bytes r) \<longrightarrow> drop (rd_offset r) (rd_bytes r) = x @ rest \<longrightarrow>
     m r = (Ok a, r\<lparr>rd_offset := rd_offset r + length x\<rparr>))"

named_theorems reads_intros \<open>how a decoder reads what an encoder wrote\<close>

lemma more_offset [simp]: "reader.more (r\<lparr>rd_offset := n\<rparr>) = reader.more r"
  by (cases r) simp

lemma reads_end:
  fixes r :: "'r reader_scheme"
  assumes "rd_offset r \<le> length (rd_bytes r)" "drop (rd_offset r) (rd_bytes r) = x @ rest"
  shows "rd_offset r + length x \<le> length (rd_bytes r)"
proof -
  have "length (drop (rd_offset r) (rd_bytes r)) = length x + length rest" using assms(2) by simp
  then show ?thesis using assms(1) by simp
qed

lemma reads_returnS [reads_intros]: "reads_in C (returnS a) [] a"
  by (simp add: reads_in_def)

lemma reads_liftS [reads_intros]: "r = Ok a \<Longrightarrow> reads_in C (liftS r) [] a"
  by (simp add: reads_in_def)

lemma reads_bindS:
  fixes C :: "'r \<Rightarrow> bool"
  assumes m: "reads_in C m x a" and f: "reads_in C (f a) y b"
  shows "reads_in C (bindS m f) (x @ y) b"
  unfolding reads_in_def
proof (intro allI impI)
  fix r :: "'r reader_scheme" and rest :: bytes
  assume h: "C (reader.more r)" "length (rd_bytes r) < 2 ^ 64" "rd_offset r \<le> length (rd_bytes r)"
    "drop (rd_offset r) (rd_bytes r) = (x @ y) @ rest"
  define u where "u = r\<lparr>rd_offset := rd_offset r + length x\<rparr>"
  have mr: "m r = (Ok a, u)"
    using m h unfolding reads_in_def u_def by (metis append_assoc)
  have "drop (rd_offset u) (rd_bytes u) = drop (length x) (drop (rd_offset r) (rd_bytes r))"
    by (simp add: u_def add.commute)
  then have d: "drop (rd_offset u) (rd_bytes u) = y @ rest" using h(4) by simp
  have le: "rd_offset u \<le> length (rd_bytes u)"
    using reads_end[OF h(3), of x "y @ rest"] h(4) by (simp add: u_def)
  have "f a u = (Ok b, u\<lparr>rd_offset := rd_offset u + length y\<rparr>)"
    using f h(1,2) d le unfolding reads_in_def by (simp add: u_def)
  then show "bindS m f r = (Ok b, r\<lparr>rd_offset := rd_offset r + length (x @ y)\<rparr>)"
    by (simp add: bindS_def mr u_def add.assoc)
qed

lemma reads_bindS_last: "reads_in C m x a \<Longrightarrow> f a = returnS b \<Longrightarrow> reads_in C (bindS m f) x b"
  using reads_bindS[of C m x a f "[]" b] reads_returnS[of C b] by simp

lemma reads_bindS_lift [reads_intros]: "r = Ok a \<Longrightarrow> reads_in C (f a) y b \<Longrightarrow> reads_in C (bindS (liftS r) f) y b"
  using reads_bindS[OF reads_liftS, of r a C f y b] by simp

text \<open>The same when the bytes are the rest of the input.\<close>

definition ends_in :: "('r \<Rightarrow> bool) \<Rightarrow> ('r reader_scheme, 'e, 'a) op \<Rightarrow> bytes \<Rightarrow> 'e + 'a \<Rightarrow> bool" where
  "ends_in C m x res \<longleftrightarrow> (\<forall>r. C (reader.more r) \<longrightarrow> length (rd_bytes r) < 2 ^ 64 \<longrightarrow>
     rd_offset r \<le> length (rd_bytes r) \<longrightarrow> drop (rd_offset r) (rd_bytes r) = x \<longrightarrow> fst (m r) = res)"

lemma ends_bindS:
  fixes C :: "'r \<Rightarrow> bool"
  assumes m: "reads_in C m x a" and f: "ends_in C (f a) y res"
  shows "ends_in C (bindS m f) (x @ y) res"
  unfolding ends_in_def
proof (intro allI impI)
  fix r :: "'r reader_scheme"
  assume h: "C (reader.more r)" "length (rd_bytes r) < 2 ^ 64" "rd_offset r \<le> length (rd_bytes r)"
    "drop (rd_offset r) (rd_bytes r) = x @ y"
  define u where "u = r\<lparr>rd_offset := rd_offset r + length x\<rparr>"
  have mr: "m r = (Ok a, u)" using m h unfolding reads_in_def u_def by blast
  have "drop (rd_offset u) (rd_bytes u) = drop (length x) (drop (rd_offset r) (rd_bytes r))"
    by (simp add: u_def add.commute)
  then have "drop (rd_offset u) (rd_bytes u) = y" using h(4) by simp
  moreover have "rd_offset u \<le> length (rd_bytes u)"
    using reads_end[OF h(3,4)] by (simp add: u_def)
  ultimately have "fst (f a u) = res" using f h(1,2) unfolding ends_in_def by (simp add: u_def)
  then show "fst (bindS m f r) = res" by (simp add: bindS_def mr)
qed

text \<open>A decoder repeated a known number of times.\<close>

fun rd_many :: "nat \<Rightarrow> ('s, 'e, 'a) op \<Rightarrow> ('s, 'e, 'a list) op" where
  "rd_many 0 m = returnS []"
| "rd_many (Suc n) m = bindS m (\<lambda>x. bindS (rd_many n m) (\<lambda>xs. returnS (x # xs)))"

lemma reads_many:
  "list_all2 (reads_in C m) xs as \<Longrightarrow> reads_in C (rd_many (length as) m) (concat xs) as"
proof (induction xs as rule: list_all2_induct)
  case Nil
  show ?case by (simp only: list.size rd_many.simps concat.simps reads_returnS)
next
  case (Cons x xs a as)
  have "reads_in C (bindS (rd_many (length as) m) (\<lambda>ys. returnS (a # ys))) (concat xs) (a # as)"
    by (rule reads_bindS_last[OF Cons.IH]) (rule refl)
  then have "reads_in C (bindS m (\<lambda>y. bindS (rd_many (length as) m) (\<lambda>ys. returnS (y # ys))))
      (x @ concat xs) (a # as)"
    by (rule reads_bindS[where a = a, OF Cons.hyps(1)])
  then show ?case by (simp only: list.size add_0_right add_Suc_right rd_many.simps concat.simps)
qed

end
