(* ===== verification/Plan.thy ===== *)
theory Plan
  imports Risk
begin

text \<open>
  Commit plans (\<open>crates/vsh-commit/src/plan.rs\<close>): validation of a reviewed transaction, its lowering
  to an ordered list of host operations, and the durable plan file.  A panic (\<open>expect\<close>, indexing of
  a map) is the result \<open>PlanPanic\<close>.
\<close>

section \<open>Validation\<close>

datatype commit_plan_error =
  DiffDigestMismatch
| ReadSetDigestMismatch
| WriteSetDigestMismatch
| RootMutation
| ReservedPath vpath
| MissingWritePrecondition vpath
| MissingParentDependency vpath vpath
| BeforeStateMismatch vpath
| UnmaterializedAfterState vpath
| UnsupportedMode vpath u32
| UnsupportedMetadataMode vpath
| TooManyOperations nat nat
| PathTooLong vpath nat
| OperationCountOverflow

datatype plan_stop = PlanError commit_plan_error | PlanPanic

record commit_plan =
  pl_binding :: transaction_binding
  pl_diff :: canonical_diff
  pl_read_set :: "(vpath, read_observation) btree"
  pl_write_set :: "(vpath, write_precondition) btree"

definition runtime_directory :: string where "runtime_directory = ''.vsh-runtime''"

definition is_stamp :: "node_state \<Rightarrow> bool" where
  "is_stamp s \<longleftrightarrow> (case content s of Some (Stamp _) \<Rightarrow> True | _ \<Rightarrow> False)"

definition is_blob :: "node_state \<Rightarrow> bool" where
  "is_blob s \<longleftrightarrow> (case content s of Some (Blob _) \<Rightarrow> True | _ \<Rightarrow> False)"

definition is_some_and :: "'a option \<Rightarrow> ('a \<Rightarrow> bool) \<Rightarrow> bool" where
  "is_some_and x P \<longleftrightarrow> (case x of None \<Rightarrow> False | Some y \<Rightarrow> P y)"

definition is_none_or :: "'a option \<Rightarrow> ('a \<Rightarrow> bool) \<Rightarrow> bool" where
  "is_none_or x P \<longleftrightarrow> (case x of None \<Rightarrow> True | Some y \<Rightarrow> P y)"

definition inaccessible_commit_state :: "node_state \<Rightarrow> bool" where
  "inaccessible_commit_state s = (case kind s of
     Directory \<Rightarrow> mode s AND 0x140 \<noteq> 0x140
   | File \<Rightarrow> mode s AND 0x180 = 0 \<or> is_blob s \<and> mode s AND 0x100 = 0
   | Symlink \<Rightarrow> False)"

text \<open>The before-state of a materialized stamp differs from its precondition in the content only.\<close>

definition materialized_stamp :: "node_state option \<Rightarrow> node_state option \<Rightarrow> bool" where
  "materialized_stamp expected before = (case (expected, before) of
     (Some e, Some b) \<Rightarrow> is_stamp e \<and> is_blob b \<and> kind e = kind b \<and> nsize e = nsize b \<and> mode e = mode b
   | _ \<Rightarrow> False)"

definition unmaterialized_after :: "diff_entry \<Rightarrow> bool" where
  "unmaterialized_after e = is_some_and (entry_after e) (\<lambda>after.
     kind after \<noteq> Directory \<and> \<not> is_blob after \<and>
     \<not> is_some_and (entry_before e) (\<lambda>before. kind before = File \<and> content_equivalent before after))"

definition unsupported_metadata :: "diff_entry \<Rightarrow> bool" where
  "unsupported_metadata e \<longleftrightarrow>
     is_some_and (entry_after e) inaccessible_commit_state \<or>
     entry_kind e = DMetadataChange \<and> is_some_and (entry_before e) inaccessible_commit_state \<or>
     is_some_and (entry_after e) (\<lambda>s. kind s = Directory \<and> mode s AND 0x1C0 \<noteq> 0x1C0) \<and>
       is_none_or (entry_before e) (\<lambda>s. kind s \<noteq> Directory)"

definition unsupported_mode :: "diff_entry \<Rightarrow> u32 option" where
  "unsupported_mode e = (case entry_after e of
     None \<Rightarrow> None
   | Some after \<Rightarrow>
       if is_some_and (entry_before e) (\<lambda>before. mode before \<noteq> mode after) \<and> mode after AND NOT 0x1FF \<noteq> 0
       then Some (mode after) else None)"

text \<open>One round of the loop of \<open>CommitPlan::new\<close>.\<close>

definition check_plan_entry ::
    "(vpath, read_observation) btree \<Rightarrow> (vpath, write_precondition) btree \<Rightarrow> vpath \<Rightarrow> diff_entry \<Rightarrow>
     plan_stop + unit" where
  "check_plan_entry reads writes reserved e =
     (let p = entry_path e in
      if is_root p then Err (PlanError RootMutation)
      else if is_within p reserved then Err (PlanError (ReservedPath p))
      else case parent p of
        None \<Rightarrow> Err PlanPanic
      | Some par \<Rightarrow>
          if is_none_or (map_of reads par) (\<lambda>obs. obs_metadata obs = None)
          then Err (PlanError (MissingParentDependency p par))
          else case map_of writes p of
            None \<Rightarrow> Err (PlanError (MissingWritePrecondition p))
          | Some pre \<Rightarrow>
              if wp_expected pre \<noteq> entry_before e \<and>
                \<not> materialized_stamp (wp_expected pre) (entry_before e)
              then Err (PlanError (BeforeStateMismatch p))
              else if unmaterialized_after e then Err (PlanError (UnmaterializedAfterState p))
              else if unsupported_metadata e then Err (PlanError (UnsupportedMetadataMode p))
              else case unsupported_mode e of
                Some m \<Rightarrow> Err (PlanError (UnsupportedMode p m))
              | None \<Rightarrow> Ok ())"

fun check_plan_entries ::
    "(vpath, read_observation) btree \<Rightarrow> (vpath, write_precondition) btree \<Rightarrow> vpath \<Rightarrow> diff_entry list \<Rightarrow>
     plan_stop + unit" where
  "check_plan_entries reads writes reserved [] = Ok ()"
| "check_plan_entries reads writes reserved (e # es) =
     bindR (check_plan_entry reads writes reserved e) (\<lambda>_. check_plan_entries reads writes reserved es)"

definition commit_plan_new ::
    "(bytes \<Rightarrow> digest) \<Rightarrow> transaction_binding \<Rightarrow> canonical_diff \<Rightarrow> (vpath, read_observation) btree \<Rightarrow>
     (vpath, write_precondition) btree \<Rightarrow> plan_stop + commit_plan" where
  "commit_plan_new blake3 binding d reads writes =
     (if diff binding \<noteq> cd_digest d then Err (PlanError DiffDigestMismatch)
      else if read_set binding \<noteq> read_set_digest blake3 reads then Err (PlanError ReadSetDigestMismatch)
      else if write_set binding \<noteq> write_set_digest blake3 writes then Err (PlanError WriteSetDigestMismatch)
      else case parse runtime_directory of
        Inl _ \<Rightarrow> Err PlanPanic
      | Inr reserved \<Rightarrow>
          bindR (check_plan_entries reads writes reserved (cd_entries d)) (\<lambda>_.
            Ok \<lparr>pl_binding = binding, pl_diff = d, pl_read_set = reads, pl_write_set = writes\<rparr>))"

section \<open>Lowering\<close>

datatype operation =
  Quarantine (op_path: vpath) node_state u32
| CreateDirectory (op_path: vpath) node_state
| InstallFile (op_path: vpath) node_state u32
| InstallSymlink (op_path: vpath) node_state u32
| SetDirectoryMode (op_path: vpath) node_state u32
| SetFileMode (op_path: vpath) node_state u32

record prepared_plan =
  pp_transaction :: digest
  pp_base_snapshot :: digest
  pp_operations :: "operation list"
  pp_final_states :: "(vpath \<times> node_state option) list"

definition component_depth :: "vpath \<Rightarrow> nat" where
  "component_depth p = (if is_root p then 0 else length (split_on slash (as_str p)))"

definition destructive_change :: "node_state \<Rightarrow> node_state option \<Rightarrow> bool" where
  "destructive_change before after = (case after of
     None \<Rightarrow> True
   | Some a \<Rightarrow> kind a \<noteq> kind before \<or> kind a = Symlink \<or>
       kind a = File \<and> \<not> content_equivalent before a)"

definition destructive_paths :: "diff_entry list \<Rightarrow> vpath list" where
  "destructive_paths es = map entry_path (filter (\<lambda>e.
     is_some_and (entry_before e) (\<lambda>before. destructive_change before (entry_after e))) es)"

definition by_depth :: "('a \<Rightarrow> vpath) \<Rightarrow> 'a list \<Rightarrow> 'a list" where
  "by_depth f = sort_key (\<lambda>x. (component_depth (f x), f x))"

definition by_depth_down :: "('a \<Rightarrow> vpath) \<Rightarrow> 'a list \<Rightarrow> 'a list" where
  "by_depth_down f = sort_key (\<lambda>x. (- int (component_depth (f x)), f x))"

fun outermost :: "vpath list \<Rightarrow> vpath list \<Rightarrow> vpath list" where
  "outermost roots [] = roots"
| "outermost roots (p # ps) =
     (if list_ex (is_within p) roots then outermost roots ps else outermost (roots @ [p]) ps)"

definition destructive_roots :: "diff_entry list \<Rightarrow> vpath list" where
  "destructive_roots es = outermost [] (by_depth (\<lambda>p. p) (destructive_paths es))"

definition expected_at :: "(vpath, write_precondition) btree \<Rightarrow> vpath \<Rightarrow> node_state option" where
  "expected_at writes p = Option.bind (map_of writes p) wp_expected"

definition next_slot :: "u32 \<Rightarrow> plan_stop + u32" where
  "next_slot slot = ok_or (checked_add slot 1) (PlanError OperationCountOverflow)"

fun quarantine_operations ::
    "(vpath, write_precondition) btree \<Rightarrow> vpath list \<Rightarrow> u32 \<Rightarrow> plan_stop + operation list \<times> u32" where
  "quarantine_operations writes [] slot = Ok ([], slot)"
| "quarantine_operations writes (p # ps) slot =
     bindR (ok_or (expected_at writes p) PlanPanic) (\<lambda>expected.
     bindR (next_slot slot) (\<lambda>slot'.
     bindR (quarantine_operations writes ps slot') (\<lambda>(ops, final).
       Ok (Quarantine p expected slot # ops, final))))"

definition created_directories :: "diff_entry list \<Rightarrow> (vpath \<times> node_state) list" where
  "created_directories es = concat (map (\<lambda>e. case entry_after e of
     None \<Rightarrow> []
   | Some after \<Rightarrow>
       if kind after = Directory \<and> is_none_or (entry_before e) (\<lambda>before. kind before \<noteq> Directory)
       then [(entry_path e, directory_state (mode after))] else []) es)"

text \<open>The three lists the second loop fills: operations, directory grants, other directory modes.\<close>

record lowered =
  lo_operations :: "operation list"
  lo_access :: "operation list"
  lo_modes :: "operation list"

fun lower_entries ::
    "(vpath, write_precondition) btree \<Rightarrow> diff_entry list \<Rightarrow> u32 \<Rightarrow> plan_stop + lowered" where
  "lower_entries writes [] slot = Ok \<lparr>lo_operations = [], lo_access = [], lo_modes = []\<rparr>"
| "lower_entries writes (e # es) slot = (case entry_after e of
     None \<Rightarrow> lower_entries writes es slot
   | Some after \<Rightarrow> (case kind after of
       File \<Rightarrow>
         if is_some_and (entry_before e) (\<lambda>before. content_equivalent before after)
         then bindR (ok_or (expected_at writes (entry_path e)) PlanPanic) (\<lambda>expected.
           bindR (lower_entries writes es slot) (\<lambda>l.
             Ok (l\<lparr>lo_operations := SetFileMode (entry_path e) expected (mode after) # lo_operations l\<rparr>)))
         else bindR (next_slot slot) (\<lambda>slot'.
           bindR (lower_entries writes es slot') (\<lambda>l.
             Ok (l\<lparr>lo_operations := InstallFile (entry_path e) after slot # lo_operations l\<rparr>)))
     | Symlink \<Rightarrow>
         bindR (next_slot slot) (\<lambda>slot'.
         bindR (lower_entries writes es slot') (\<lambda>l.
           Ok (l\<lparr>lo_operations := InstallSymlink (entry_path e) after slot # lo_operations l\<rparr>)))
     | Directory \<Rightarrow>
         (case entry_before e of
            None \<Rightarrow> lower_entries writes es slot
          | Some before \<Rightarrow>
              if kind before = Directory \<and> mode before \<noteq> mode after
              then bindR (ok_or (expected_at writes (entry_path e)) PlanPanic) (\<lambda>expected.
                bindR (lower_entries writes es slot) (\<lambda>l.
                  let opn = SetDirectoryMode (entry_path e) expected (mode after) in
                  if mode before AND 0x80 = 0 \<and> mode after AND 0x80 \<noteq> 0
                  then Ok (l\<lparr>lo_access := opn # lo_access l\<rparr>)
                  else Ok (l\<lparr>lo_modes := opn # lo_modes l\<rparr>)))
              else lower_entries writes es slot)))"

definition final_entry :: "diff_entry \<Rightarrow> vpath \<times> node_state option" where
  "final_entry e = (entry_path e, map_option (\<lambda>s.
     if kind s = Directory then directory_state (mode s) else s) (entry_after e))"

definition prepare :: "(bytes \<Rightarrow> digest) \<Rightarrow> commit_plan \<Rightarrow> nat \<Rightarrow> nat \<Rightarrow> plan_stop + prepared_plan" where
  "prepare blake3 plan max_operations max_path_bytes =
     (let es = cd_entries (pl_diff plan); writes = pl_write_set plan in
      bindR (quarantine_operations writes (destructive_roots es) 0) (\<lambda>(quarantines, slot).
      bindR (lower_entries writes es slot) (\<lambda>l.
      let operations = by_depth op_path (lo_access l) @ quarantines @
            map (\<lambda>(p, after). CreateDirectory p after) (by_depth fst (created_directories es)) @
            lo_operations l @ by_depth_down op_path (lo_modes l)
      in if max_operations < length operations
         then Err (PlanError (TooManyOperations (length operations) max_operations))
         else case find (\<lambda>p. max_path_bytes < length (as_str p)) (map op_path operations) of
           Some p \<Rightarrow> Err (PlanError (PathTooLong p max_path_bytes))
         | None \<Rightarrow> Ok \<lparr>pp_transaction = transaction_id blake3 (pl_binding plan),
             pp_base_snapshot = base_snapshot (pl_binding plan),
             pp_operations = operations, pp_final_states = map final_entry es\<rparr>)))"

end
