(* ===== verification/PlanTree.thy ===== *)
theory PlanTree
  imports Plan VfsTree
begin

text \<open>
  What a prepared plan does to a file tree.  The operations get an abstract meaning on trees of node
  states (a host refuses an operation whose target or parent is not as it needs); a plan lowered
  from the exact difference of two trees runs without refusal from the first and ends in the second.
\<close>

section \<open>Trees of states\<close>

type_synonym state_tree = "vpath \<Rightarrow> node_state option"

definition dir_state :: "node_state option \<Rightarrow> bool" where
  "dir_state x \<longleftrightarrow> is_some_and x (\<lambda>s. kind s = Directory)"

lemma dir_state_simps [simp]: "\<not> dir_state None" "dir_state (Some s) \<longleftrightarrow> kind s = Directory"
  by (simp_all add: dir_state_def is_some_and_def)

definition state_tree :: "state_tree \<Rightarrow> bool" where
  "state_tree t \<longleftrightarrow> dir_state (t root) \<and> (\<forall>p. t p \<noteq> None \<longrightarrow> vpath_ok p) \<and>
     (\<forall>p. t p \<noteq> None \<longrightarrow> p \<noteq> root \<longrightarrow> dir_state (t (parent_of p)))"

lemma state_tree_ancestor:
  assumes "state_tree t" "t p \<noteq> None" "vpath_ok a" "is_within p a" "p \<noteq> a"
  shows "dir_state (t a)"
proof -
  have "vpath_ok p" using assms(1,2) by (auto simp: state_tree_def)
  then show ?thesis using assms(2-)
  proof (induction rule: ancestor_induct)
    case root
    then show ?case using is_within_cases[of root a] by auto
  next
    case (step q)
    have d: "dir_state (t (parent_of q))" using assms(1) step by (simp add: state_tree_def)
    moreover have "is_within (parent_of q) a" using is_within_cases[OF step.hyps(1)] step.prems by blast
    moreover have "t (parent_of q) \<noteq> None" using d by (cases "t (parent_of q)") auto
    ultimately show ?case using step.IH step.prems by (cases "parent_of q = a") auto
  qed
qed

section \<open>The meaning of operations\<close>

fun creates :: "operation \<Rightarrow> bool" where
  "creates (CreateDirectory p a) = True"
| "creates (InstallFile p a s) = True"
| "creates (InstallSymlink p a s) = True"
| "creates _ = False"

text \<open>What an operation other than a quarantine makes of its own path.\<close>

fun touched :: "operation \<Rightarrow> node_state option \<Rightarrow> node_state option" where
  "touched (CreateDirectory p a) x = (if x = None then Some a else None)"
| "touched (InstallFile p a s) x = (if x = None then Some a else None)"
| "touched (InstallSymlink p a s) x = (if x = None then Some a else None)"
| "touched (SetDirectoryMode p e m) x =
     (case x of Some s \<Rightarrow> if kind s = Directory then Some (with_mode s m) else None | None \<Rightarrow> None)"
| "touched (SetFileMode p e m) x =
     (case x of Some s \<Rightarrow> if kind s = File then Some (with_mode s m) else None | None \<Rightarrow> None)"
| "touched (Quarantine p e s) x = None"

fun apply_operation :: "operation \<Rightarrow> state_tree \<Rightarrow> state_tree option" where
  "apply_operation (Quarantine p e s) t =
     (if t p = None then None else Some (\<lambda>q. if is_within q p then None else t q))"
| "apply_operation opn t =
     (if creates opn \<and> \<not> dir_state (t (parent_of (op_path opn))) then None
      else case touched opn (t (op_path opn)) of
        None \<Rightarrow> None
      | Some s \<Rightarrow> Some (t(op_path opn \<mapsto> s)))"

fun run_operations :: "operation list \<Rightarrow> state_tree \<Rightarrow> state_tree option" where
  "run_operations [] t = Some t"
| "run_operations (opn # ops) t = Option.bind (apply_operation opn t) (run_operations ops)"

lemma run_operations_append:
  "run_operations (xs @ ys) t = Option.bind (run_operations xs t) (run_operations ys)"
proof (induction xs arbitrary: t)
  case (Cons x xs)
  then show ?case by (cases "apply_operation x t") simp_all
qed simp

definition is_quarantine :: "operation \<Rightarrow> bool" where
  "is_quarantine opn \<longleftrightarrow> (\<exists>p e s. opn = Quarantine p e s)"

lemma apply_touch:
  "\<not> is_quarantine opn \<Longrightarrow> (creates opn \<Longrightarrow> dir_state (t (parent_of (op_path opn)))) \<Longrightarrow>
   touched opn (t (op_path opn)) = Some s \<Longrightarrow> apply_operation opn t = Some (t(op_path opn \<mapsto> s))"
  by (cases opn) (auto simp: is_quarantine_def)

lemma touched_dir: "touched opn x = Some s \<Longrightarrow> dir_state x \<Longrightarrow> kind s = Directory"
  by (cases opn) (auto simp: with_mode_def split: if_splits option.splits)

text \<open>
  Operations on distinct paths, the parent of everything created being a directory before or
  created earlier: each changes its own path, whatever the order.
\<close>

definition parents_ready :: "state_tree \<Rightarrow> operation list \<Rightarrow> bool" where
  "parents_ready t ops \<longleftrightarrow> (\<forall>xs opn ys. ops = xs @ opn # ys \<longrightarrow> creates opn \<longrightarrow>
     dir_state (t (parent_of (op_path opn))) \<or>
     (\<exists>a. CreateDirectory (parent_of (op_path opn)) a \<in> set xs))"

lemma run_touches:
  assumes "distinct (map op_path ops)" "\<forall>opn \<in> set ops. \<not> is_quarantine opn"
    and "\<forall>opn \<in> set ops. touched opn (t (op_path opn)) \<noteq> None"
    and "\<forall>p a. CreateDirectory p a \<in> set ops \<longrightarrow> kind a = Directory" "parents_ready t ops"
  shows "\<exists>u. run_operations ops t = Some u \<and>
    (\<forall>opn \<in> set ops. u (op_path opn) = touched opn (t (op_path opn))) \<and>
    (\<forall>p. p \<notin> op_path ` set ops \<longrightarrow> u p = t p)"
  using assms
proof (induction ops arbitrary: t)
  case (Cons opn ops)
  obtain s where s: "touched opn (t (op_path opn)) = Some s" using Cons.prems(3) by auto
  let ?t = "t(op_path opn \<mapsto> s)"
  have "dir_state (t (parent_of (op_path opn)))" if "creates opn"
    using that Cons.prems(5) unfolding parents_ready_def by (metis append_Nil list.set(1) empty_iff)
  then have step: "apply_operation opn t = Some ?t"
    using apply_touch Cons.prems(2) s by simp
  have same: "?t (op_path o') = t (op_path o')" if "o' \<in> set ops" for o'
  proof -
    have "op_path o' \<noteq> op_path opn" using that Cons.prems(1) by (auto simp: image_iff)
    then show ?thesis by simp
  qed
  have dirs: "dir_state (?t q)" if "dir_state (t q) \<or> (\<exists>a. opn = CreateDirectory q a)" for q
    using that s touched_dir[OF s] Cons.prems(4) by (auto split: if_splits)
  have ready: "parents_ready ?t ops"
    unfolding parents_ready_def
  proof (intro allI impI)
    fix xs o' ys assume "ops = xs @ o' # ys" "creates o'"
    then have "dir_state (t (parent_of (op_path o'))) \<or>
        (\<exists>a. CreateDirectory (parent_of (op_path o')) a \<in> set (opn # xs))"
      using Cons.prems(5) unfolding parents_ready_def by (metis append_Cons)
    then show "dir_state (?t (parent_of (op_path o'))) \<or>
        (\<exists>a. CreateDirectory (parent_of (op_path o')) a \<in> set xs)"
      using dirs[of "parent_of (op_path o')"] by auto
  qed
  have "\<exists>u. run_operations ops ?t = Some u \<and>
      (\<forall>o' \<in> set ops. u (op_path o') = touched o' (?t (op_path o'))) \<and>
      (\<forall>p. p \<notin> op_path ` set ops \<longrightarrow> u p = ?t p)"
  proof (rule Cons.IH[OF _ _ _ _ ready])
    show "\<forall>o' \<in> set ops. touched o' (?t (op_path o')) \<noteq> None" using Cons.prems(3) same by simp
  qed (use Cons.prems in simp_all)
  then obtain u where u: "run_operations ops ?t = Some u"
      "\<forall>o' \<in> set ops. u (op_path o') = touched o' (?t (op_path o'))"
      "\<forall>p. p \<notin> op_path ` set ops \<longrightarrow> u p = ?t p" by blast
  have "op_path opn \<notin> op_path ` set ops" using Cons.prems(1) by simp
  then show ?case using u step s same by (intro exI[of _ u]) auto
qed simp

text \<open>Quarantining subtrees of which none contains another removes all of them.\<close>

lemma run_quarantines:
  assumes "\<forall>p \<in> set ps. t p \<noteq> None" "\<forall>p \<in> set ps. \<forall>q \<in> set ps. is_within p q \<longrightarrow> p = q"
    and "distinct ps" "map op_path ops = ps" "\<forall>opn \<in> set ops. is_quarantine opn"
  shows "run_operations ops t = Some (\<lambda>q. if \<exists>p \<in> set ps. is_within q p then None else t q)"
  using assms
proof (induction ps arbitrary: t ops)
  case (Cons p ps)
  then obtain e s ops' where ops: "ops = Quarantine p e s # ops'" "map op_path ops' = ps"
    "\<forall>opn \<in> set ops'. is_quarantine opn"
    by (auto simp: is_quarantine_def)
  let ?t = "\<lambda>q. if is_within q p then None else t q"
  have "\<not> is_within q p" if "q \<in> set ps" for q using that Cons.prems(2,3) by auto
  then have "run_operations ops' ?t = Some (\<lambda>q. if \<exists>p \<in> set ps. is_within q p then None else ?t q)"
    using Cons.prems ops by (intro Cons.IH) auto
  then show ?case using ops Cons.prems(1) by (auto simp: fun_eq_iff)
qed simp

section \<open>Destructive roots\<close>

lemma within_depth: "vpath_ok p \<Longrightarrow> vpath_ok q \<Longrightarrow> is_within p q \<Longrightarrow> p \<noteq> q \<Longrightarrow> component_depth q < component_depth p"
proof -
  assume h: "vpath_ok p" "vpath_ok q" "is_within p q" "p \<noteq> q"
  have d: "component_depth r = length (components r)" for r
    by (simp add: component_depth_def components_def)
  have "prefix (components q) (components p)" using h is_within_iff_prefix by blast
  moreover have "components q \<noteq> components p" using h(4) components_inj by blast
  ultimately show ?thesis unfolding d by (metis prefix_length_less strict_prefixI)
qed

lemma outermost_sub: "set roots \<subseteq> set (outermost roots ps) \<and> set (outermost roots ps) \<subseteq> set roots \<union> set ps"
  by (induction roots ps rule: outermost.induct) auto

lemma outermost_covers:
  "p \<in> set roots \<union> set ps \<Longrightarrow> \<exists>r \<in> set (outermost roots ps). is_within p r"
proof (induction roots ps rule: outermost.induct)
  case (1 roots)
  then show ?case using is_within_refl by fastforce
next
  case (2 roots q ps)
  show ?case
  proof (cases "list_ex (is_within q) roots")
    case True
    show ?thesis
    proof (cases "p = q")
      case True
      obtain r where "r \<in> set roots" "is_within p r"
        using \<open>list_ex (is_within q) roots\<close> True by (auto simp: list_ex_iff)
      then show ?thesis using outermost_sub[of roots ps] \<open>list_ex (is_within q) roots\<close> by auto
    qed (use 2 True in auto)
  qed (use 2 in auto)
qed

lemma outermost_antichain:
  assumes "\<forall>p \<in> set roots. \<forall>q \<in> set roots. is_within p q \<longrightarrow> p = q" "distinct roots"
    and "\<forall>p \<in> set roots \<union> set ps. vpath_ok p"
    and "\<forall>p \<in> set roots. \<forall>q \<in> set ps. component_depth p \<le> component_depth q"
    and "sorted (map component_depth ps)" "distinct ps"
  shows "distinct (outermost roots ps) \<and>
    (\<forall>p \<in> set (outermost roots ps). \<forall>q \<in> set (outermost roots ps). is_within p q \<longrightarrow> p = q)"
  using assms
proof (induction roots ps rule: outermost.induct)
  case (2 roots q ps)
  show ?case
  proof (cases "list_ex (is_within q) roots")
    case False
    have up: "p = q" if "p \<in> set roots" "is_within p q" for p
      using within_depth[of p q] that "2.prems"(3,4) by force
    have "q \<notin> set roots" using False is_within_refl by (auto simp: list_ex_iff)
    then show ?thesis
      using False "2.prems" up is_within_refl
      by (simp only: outermost.simps if_False, intro "2.IH"(2)) (auto simp: list_ex_iff)
  qed (use 2 in simp)
qed simp

section \<open>What the entries are lowered to\<close>

datatype entry_class =
  Gone | Install | FileMode | NewDirectory | GrantDirectory | ModeDirectory | SameDirectory

definition entry_class :: "diff_entry \<Rightarrow> entry_class" where
  "entry_class e = (case entry_after e of
     None \<Rightarrow> Gone
   | Some a \<Rightarrow> (case kind a of
       File \<Rightarrow> if is_some_and (entry_before e) (\<lambda>b. content_equivalent b a) then FileMode else Install
     | Symlink \<Rightarrow> Install
     | Directory \<Rightarrow> (case entry_before e of
         None \<Rightarrow> NewDirectory
       | Some b \<Rightarrow>
           if kind b \<noteq> Directory then NewDirectory
           else if mode b = mode a then SameDirectory
           else if mode b AND 0x80 = 0 \<and> mode a AND 0x80 \<noteq> 0 then GrantDirectory
           else ModeDirectory)))"

fun lowers :: "diff_entry \<Rightarrow> operation \<Rightarrow> bool" where
  "lowers e (InstallFile p a s) = (entry_class e = Install \<and> p = entry_path e \<and> entry_after e = Some a)"
| "lowers e (InstallSymlink p a s) = (entry_class e = Install \<and> p = entry_path e \<and> entry_after e = Some a)"
| "lowers e (SetFileMode p x m) = (entry_class e = FileMode \<and> p = entry_path e \<and> map_option mode (entry_after e) = Some m)"
| "lowers e (SetDirectoryMode p x m) = (entry_class e \<in> {GrantDirectory, ModeDirectory} \<and> p = entry_path e \<and>
     map_option mode (entry_after e) = Some m)"
| "lowers e (CreateDirectory p a) = (entry_class e = NewDirectory \<and> p = entry_path e \<and>
     Some a = map_option (\<lambda>s. directory_state (mode s)) (entry_after e))"
| "lowers e (Quarantine p x s) = False"

lemma lowers_path: "lowers e opn \<Longrightarrow> op_path opn = entry_path e \<and> \<not> is_quarantine opn"
  by (cases opn) (auto simp: is_quarantine_def)

definition lower_all :: "(entry_class \<Rightarrow> bool) \<Rightarrow> diff_entry list \<Rightarrow> operation list \<Rightarrow> bool" where
  "lower_all P es ops = list_all2 lowers (filter (\<lambda>e. P (entry_class e)) es) ops"

lemma lower_all_simps:
  "lower_all P [] ops \<longleftrightarrow> ops = []"
  "P (entry_class e) \<Longrightarrow> lower_all P (e # es) (opn # ops) \<longleftrightarrow> lowers e opn \<and> lower_all P es ops"
  "\<not> P (entry_class e) \<Longrightarrow> lower_all P (e # es) ops \<longleftrightarrow> lower_all P es ops"
  by (simp_all add: lower_all_def)

definition lowered_ok :: "diff_entry list \<Rightarrow> lowered \<Rightarrow> bool" where
  "lowered_ok es l \<longleftrightarrow> lower_all (\<lambda>c. c = Install \<or> c = FileMode) es (lo_operations l) \<and>
   lower_all (\<lambda>c. c = GrantDirectory) es (lo_access l) \<and>
   lower_all (\<lambda>c. c = ModeDirectory) es (lo_modes l)"

lemma lower_entries_classes: "lower_entries writes es slot = Inr l \<Longrightarrow> lowered_ok es l"
proof (induction es arbitrary: slot l)
  case (Cons e es)
  note IH = Cons.IH and run = Cons.prems
  show ?case
  proof (cases "entry_after e")
    case None
    then have "entry_class e = Gone" by (simp add: entry_class_def)
    then show ?thesis using IH run None by (simp add: lowered_ok_def lower_all_simps)
  next
    case (Some a)
    show ?thesis
    proof (cases "kind a")
      case File
      show ?thesis
      proof (cases "is_some_and (entry_before e) (\<lambda>b. content_equivalent b a)")
        case True
        then have "entry_class e = FileMode" using Some File by (simp add: entry_class_def)
        then show ?thesis using IH run Some File True
          by (fastforce simp: bindR_Inr_iff lowered_ok_def lower_all_simps)
      next
        case False
        then have "entry_class e = Install" using Some File by (simp add: entry_class_def)
        then show ?thesis using IH run Some File False
          by (fastforce simp: bindR_Inr_iff lowered_ok_def lower_all_simps)
      qed
    next
      case Symlink
      then have "entry_class e = Install" using Some by (simp add: entry_class_def)
      then show ?thesis using IH run Some Symlink
        by (fastforce simp: bindR_Inr_iff lowered_ok_def lower_all_simps)
    next
      case Directory
      show ?thesis
      proof (cases "\<exists>b. entry_before e = Some b \<and> kind b = Directory \<and> mode b \<noteq> mode a")
        case False
        then have "entry_class e \<in> {NewDirectory, SameDirectory}" "lower_entries writes es slot = Inr l"
          using Some Directory run by (auto simp: entry_class_def split: option.splits if_splits)
        then show ?thesis using IH by (auto simp: lowered_ok_def lower_all_simps)
      next
        case True
        then obtain b where b: "entry_before e = Some b" "kind b = Directory" "mode b \<noteq> mode a" by blast
        show ?thesis
        proof (cases "mode b AND 0x80 = 0 \<and> mode a AND 0x80 \<noteq> 0")
          case True
          then obtain x l' where "lower_entries writes es slot = Inr l'"
            "l = l'\<lparr>lo_access := SetDirectoryMode (entry_path e) x (mode a) # lo_access l'\<rparr>"
            using run Some Directory b by (auto simp: bindR_Inr_iff Let_def)
          moreover have "entry_class e = GrantDirectory"
            using Some Directory b True by (simp add: entry_class_def)
          ultimately show ?thesis using IH Some by (simp add: lowered_ok_def lower_all_simps)
        next
          case False
          then obtain x l' where "lower_entries writes es slot = Inr l'"
            "l = l'\<lparr>lo_modes := SetDirectoryMode (entry_path e) x (mode a) # lo_modes l'\<rparr>"
            using run Some Directory b by (auto simp: bindR_Inr_iff Let_def)
          moreover have "entry_class e = ModeDirectory"
            using Some Directory b False by (auto simp: entry_class_def)
          ultimately show ?thesis using IH Some by (simp add: lowered_ok_def lower_all_simps)
        qed
      qed
    qed
  qed
qed (simp add: lowered_ok_def lower_all_simps)

lemma created_classes:
  "lower_all (\<lambda>c. c = NewDirectory) es (map (\<lambda>(p, a). CreateDirectory p a) (created_directories es))"
proof (induction es)
  case (Cons e es)
  have "(case entry_after e of None \<Rightarrow> [] | Some after \<Rightarrow>
       if kind after = Directory \<and> is_none_or (entry_before e) (\<lambda>before. kind before \<noteq> Directory)
       then [(entry_path e, directory_state (mode after))] else []) =
    (if entry_class e = NewDirectory
     then [(entry_path e, directory_state (mode (the (entry_after e))))] else [])"
    by (auto simp: entry_class_def is_none_or_def split: option.splits node_kind.splits)
  moreover have "entry_after e \<noteq> None" if "entry_class e = NewDirectory"
    using that by (cases "entry_after e") (simp_all add: entry_class_def)
  ultimately show ?case using Cons
    by (cases "entry_class e = NewDirectory") (auto simp: created_directories_def lower_all_simps)
qed (simp add: created_directories_def lower_all_simps)

lemma lower_all_paths: "lower_all P es ops \<Longrightarrow> map op_path ops = map entry_path (filter (\<lambda>e. P (entry_class e)) es)"
  unfolding lower_all_def by (induction rule: list_all2_induct) (auto dest: lowers_path)

lemma lower_all_op:
  assumes "lower_all P es ops" "opn \<in> set ops"
  shows "\<exists>e \<in> set es. P (entry_class e) \<and> lowers e opn"
proof -
  obtain i where i: "i < length ops" "opn = ops ! i" using assms(2) by (metis in_set_conv_nth)
  let ?es = "filter (\<lambda>e. P (entry_class e)) es"
  have len: "length ?es = length ops" using assms(1) unfolding lower_all_def by (rule list_all2_lengthD)
  have "lowers (?es ! i) opn" using list_all2_nthD2[OF assms(1)[unfolded lower_all_def] i(1)] i(2) by simp
  moreover have "?es ! i \<in> set ?es" using i(1) len by (metis nth_mem)
  ultimately show ?thesis by auto
qed

lemma lower_all_entry:
  assumes "lower_all P es ops" "e \<in> set es" "P (entry_class e)"
  shows "\<exists>opn \<in> set ops. lowers e opn"
proof -
  let ?es = "filter (\<lambda>e. P (entry_class e)) es"
  have "e \<in> set ?es" using assms(2,3) by simp
  then obtain i where i: "i < length ?es" "e = ?es ! i" by (metis in_set_conv_nth)
  have "lowers e (ops ! i)" using list_all2_nthD[OF assms(1)[unfolded lower_all_def] i(1)] i(2) by simp
  moreover have "i < length ops" using i(1) list_all2_lengthD[OF assms(1)[unfolded lower_all_def]] by simp
  ultimately show ?thesis by auto
qed

lemma quarantine_operations_paths:
  "quarantine_operations writes ps slot = Inr (ops, s) \<Longrightarrow>
   map op_path ops = ps \<and> (\<forall>opn \<in> set ops. is_quarantine opn)"
  by (induction ps arbitrary: slot ops) (auto simp: bindR_Inr_iff is_quarantine_def)

section \<open>The difference of two trees\<close>

definition exact_diff :: "state_tree \<Rightarrow> state_tree \<Rightarrow> diff_entry list \<Rightarrow> bool" where
  "exact_diff t t' es \<longleftrightarrow> distinct (map entry_path es) \<and>
     (\<forall>e \<in> set es. entry_path e \<noteq> root \<and> entry_before e = t (entry_path e) \<and>
        entry_after e = t' (entry_path e) \<and> entry_before e \<noteq> entry_after e) \<and>
     (\<forall>p. p \<notin> entry_path ` set es \<longrightarrow> t p = t' p)"

definition removed :: "diff_entry list \<Rightarrow> vpath \<Rightarrow> bool" where
  "removed es p \<longleftrightarrow> (\<exists>r \<in> set (destructive_roots es). is_within p r)"

lemma destructive_pathsE:
  assumes "d \<in> set (destructive_paths es)"
  obtains e b where "e \<in> set es" "entry_path e = d" "entry_before e = Some b" "destructive_change b (entry_after e)"
  using assms by (auto simp: destructive_paths_def is_some_and_def split: option.splits)

lemma set_destructive_roots: "set (destructive_roots es) \<subseteq> set (destructive_paths es)"
  using outermost_sub[of "[]" "by_depth (\<lambda>p. p) (destructive_paths es)"]
  by (auto simp: destructive_roots_def by_depth_def)

lemma removedI: "d \<in> set (destructive_paths es) \<Longrightarrow> removed es d"
  using outermost_covers[of d "[]" "by_depth (\<lambda>p. p) (destructive_paths es)"]
  by (simp add: removed_def destructive_roots_def by_depth_def)

lemma destructive_roots_antichain:
  assumes "distinct (map entry_path es)" "\<forall>p \<in> set (destructive_paths es). vpath_ok p"
  shows "distinct (destructive_roots es) \<and>
    (\<forall>p \<in> set (destructive_roots es). \<forall>q \<in> set (destructive_roots es). is_within p q \<longrightarrow> p = q)"
  unfolding destructive_roots_def
proof (rule outermost_antichain)
  let ?k = "\<lambda>p. (component_depth p, p)"
  have "sorted (map fst (map ?k (sort_key ?k (destructive_paths es))))"
    by (intro sorted_map_mono[OF sorted_sort_key]) (auto simp: mono_on_def less_eq_prod_def)
  then show "sorted (map component_depth (by_depth (\<lambda>p. p) (destructive_paths es)))"
    by (simp add: by_depth_def comp_def)
  show "distinct (by_depth (\<lambda>p. p) (destructive_paths es))"
    using assms(1) by (simp add: by_depth_def destructive_paths_def distinct_map_filter)
qed (use assms(2) in \<open>simp_all add: by_depth_def\<close>)

text \<open>
  For two trees and their exact difference: what is removed with a quarantined root is gone or
  installed again, everything else keeps its node.
\<close>

definition tree_diff :: "state_tree \<Rightarrow> state_tree \<Rightarrow> diff_entry list \<Rightarrow> bool" where
  "tree_diff t t' es \<longleftrightarrow> state_tree t \<and> state_tree t' \<and> exact_diff t t' es"

lemma tree_diff_entry:
  assumes "tree_diff t t' es" "e \<in> set es"
  shows "entry_path e \<noteq> root" "entry_before e = t (entry_path e)" "entry_after e = t' (entry_path e)"
    "t (entry_path e) \<noteq> t' (entry_path e)" "vpath_ok (entry_path e)"
proof -
  show *: "entry_path e \<noteq> root" "entry_before e = t (entry_path e)" "entry_after e = t' (entry_path e)"
    "t (entry_path e) \<noteq> t' (entry_path e)"
    using assms unfolding tree_diff_def exact_diff_def by metis+
  then show "vpath_ok (entry_path e)"
    using assms(1) unfolding tree_diff_def state_tree_def by metis
qed

lemma destructive_before:
  assumes "tree_diff t t' es" "d \<in> set (destructive_paths es)"
  obtains b where "t d = Some b" "destructive_change b (t' d)" "vpath_ok d" "d \<noteq> root"
  using destructive_pathsE[OF assms(2)] tree_diff_entry[OF assms(1)] by metis

lemma removed_destructive:
  assumes "tree_diff t t' es" "removed es p" "t p \<noteq> None" "t' p \<noteq> None"
  shows "p \<in> set (destructive_paths es)"
proof -
  obtain r where r: "r \<in> set (destructive_paths es)" "is_within p r"
    using assms(2) set_destructive_roots by (auto simp: removed_def)
  obtain b where b: "t r = Some b" "destructive_change b (t' r)" "vpath_ok r"
    using destructive_before[OF assms(1) r(1)] by metis
  have "p = r"
  proof (rule ccontr)
    assume "p \<noteq> r"
    then have "dir_state (t r)" "dir_state (t' r)"
      using state_tree_ancestor[of t p r] state_tree_ancestor[of t' p r] assms b r
      by (auto simp: tree_diff_def)
    then show False using b by (cases "t' r") (auto simp: destructive_change_def)
  qed
  then show ?thesis using r by simp
qed

lemma destructive_class:
  assumes "tree_diff t t' es" "e \<in> set es"
  shows "entry_path e \<in> set (destructive_paths es) \<longleftrightarrow>
    (case t (entry_path e) of None \<Rightarrow> False | Some b \<Rightarrow> destructive_change b (t' (entry_path e)))"
proof -
  have "e' = e" if "e' \<in> set es" "entry_path e' = entry_path e" for e'
    using assms that by (auto simp: tree_diff_def exact_diff_def distinct_map dest: inj_onD)
  then have "entry_path e \<in> set (destructive_paths es) \<longleftrightarrow>
      is_some_and (entry_before e) (\<lambda>b. destructive_change b (entry_after e))"
    using assms(2) by (auto simp: destructive_paths_def)
  then show ?thesis using tree_diff_entry[OF assms] by (simp add: is_some_and_def)
qed

lemma class_removed:
  assumes "tree_diff t t' es" "e \<in> set es"
  shows "entry_class e \<in> {FileMode, GrantDirectory, ModeDirectory, SameDirectory} \<Longrightarrow>
      \<not> removed es (entry_path e) \<and> t (entry_path e) \<noteq> None"
    and "entry_class e \<in> {Install, NewDirectory} \<Longrightarrow> t (entry_path e) = None \<or> removed es (entry_path e)"
    and "entry_class e = Gone \<Longrightarrow> removed es (entry_path e)"
proof -
  note e = tree_diff_entry[OF assms] and d = destructive_class[OF assms]
  show "\<not> removed es (entry_path e) \<and> t (entry_path e) \<noteq> None"
    if c: "entry_class e \<in> {FileMode, GrantDirectory, ModeDirectory, SameDirectory}"
  proof -
    have "\<exists>b a. t (entry_path e) = Some b \<and> t' (entry_path e) = Some a \<and> \<not> destructive_change b (Some a)"
      using c unfolding entry_class_def e(2,3)
      by (auto simp: destructive_change_def is_some_and_def content_equivalent_def
          split: option.splits node_kind.splits if_splits)
    then show ?thesis using removed_destructive[OF assms(1)] d by force
  qed
  show "t (entry_path e) = None \<or> removed es (entry_path e)" if c: "entry_class e \<in> {Install, NewDirectory}"
  proof (cases "t (entry_path e)")
    case (Some b)
    then have "destructive_change b (t' (entry_path e))"
      using c unfolding entry_class_def e(2,3)
      by (auto simp: destructive_change_def is_some_and_def split: option.splits node_kind.splits if_splits)
    then show ?thesis using d Some removedI by simp
  qed simp
  show "removed es (entry_path e)" if c: "entry_class e = Gone"
  proof -
    have "t' (entry_path e) = None"
      using c unfolding entry_class_def e(2,3)
      by (auto split: option.splits node_kind.splits if_splits)
    then show ?thesis using d e(4) removedI by (auto simp: destructive_change_def)
  qed
qed

lemma unlisted_removed:
  assumes "tree_diff t t' es" "p \<notin> entry_path ` set es" "t p \<noteq> None"
  shows "\<not> removed es p" "t' p = t p"
proof -
  show "t' p = t p" using assms by (simp add: tree_diff_def exact_diff_def)
  then show "\<not> removed es p"
    using removed_destructive[OF assms(1) _ assms(3)] assms(2,3) by (auto simp: destructive_paths_def)
qed

section \<open>Running a prepared plan\<close>

lemma prepare_parts:
  assumes "prepare blake3 plan mo mp = Inr pr" "es = cd_entries (pl_diff plan)"
  obtains quars slot l where
    "map op_path quars = destructive_roots es" "\<forall>opn \<in> set quars. is_quarantine opn" "lowered_ok es l"
    "pp_operations pr = by_depth op_path (lo_access l) @ quars @
       (map (\<lambda>(p, a). CreateDirectory p a) (by_depth fst (created_directories es)) @
        lo_operations l @ by_depth_down op_path (lo_modes l))"
    "pp_final_states pr = map final_entry es"
    "lower_entries (pl_write_set plan) es slot = Inr l"
    "quarantine_operations (pl_write_set plan) (destructive_roots es) 0 = Inr (quars, slot)"
proof -
  obtain quars slot l where q: "quarantine_operations (pl_write_set plan) (destructive_roots es) 0 = Inr (quars, slot)"
    and l: "lower_entries (pl_write_set plan) es slot = Inr l"
    and pr: "pr = \<lparr>pp_transaction = transaction_id blake3 (pl_binding plan),
      pp_base_snapshot = base_snapshot (pl_binding plan),
      pp_operations = by_depth op_path (lo_access l) @ quars @
        map (\<lambda>(p, a). CreateDirectory p a) (by_depth fst (created_directories es)) @
        lo_operations l @ by_depth_down op_path (lo_modes l),
      pp_final_states = map final_entry es\<rparr>"
    using assms by (fastforce simp: prepare_def bindR_Inr_iff Let_def split: if_splits option.splits)
  show ?thesis
    by (rule that[OF _ _ lower_entries_classes[OF l] _ _ l q])
       (use quarantine_operations_paths[OF q] pr in simp_all)
qed

lemma same_entry:
  "tree_diff t t' es \<Longrightarrow> e \<in> set es \<Longrightarrow> e' \<in> set es \<Longrightarrow> entry_path e = entry_path e' \<Longrightarrow> e = e'"
  by (auto simp: tree_diff_def exact_diff_def distinct_map dest: inj_onD)

lemma with_mode_equivalent: "content_equivalent b a \<Longrightarrow> with_mode b (mode a) = a"
  by (simp add: content_equivalent_def with_mode_def node_state.equality)

text \<open>The state between the directory grants and the rest.\<close>

definition granted :: "state_tree \<Rightarrow> state_tree \<Rightarrow> diff_entry list \<Rightarrow> state_tree" where
  "granted t t' es p =
     (if \<exists>e \<in> set es. entry_path e = p \<and> entry_class e = GrantDirectory
      then map_option (\<lambda>b. with_mode b (mode (the (t' p)))) (t p) else t p)"

lemma granted_simps [simp]:
  "granted t t' es p = None \<longleftrightarrow> t p = None" "dir_state (granted t t' es p) = dir_state (t p)"
  by (cases "t p"; simp add: granted_def with_mode_def)+

lemma grant_entry:
  assumes "tree_diff t t' es" "e \<in> set es" "entry_class e \<in> {GrantDirectory, ModeDirectory}"
  shows "\<exists>b a. t (entry_path e) = Some b \<and> kind b = Directory \<and> t' (entry_path e) = Some a \<and> kind a = Directory"
  using assms(3) unfolding entry_class_def tree_diff_entry(2,3)[OF assms(1,2)]
  by (auto split: option.splits node_kind.splits if_splits)

lemma run_grants:
  assumes td: "tree_diff t t' es" and ops: "lower_all (\<lambda>c. c = GrantDirectory) es ops"
    and "set ops' = set ops" "distinct (map op_path ops')"
  shows "run_operations ops' t = Some (granted t t' es)"
proof -
  have op: "\<exists>e \<in> set es. entry_class e = GrantDirectory \<and> (\<exists>x. opn = SetDirectoryMode (entry_path e) x (mode (the (t' (entry_path e)))))"
    if mem: "opn \<in> set ops'" for opn
  proof -
    obtain e where e: "e \<in> set es" "entry_class e = GrantDirectory" "lowers e opn"
      using lower_all_op[OF ops mem[unfolded assms(3)]] by blast
    then show ?thesis using tree_diff_entry(3)[OF td e(1)] by (cases opn) (auto intro!: bexI[of _ e])
  qed
  have "\<exists>u. run_operations ops' t = Some u \<and>
      (\<forall>opn \<in> set ops'. u (op_path opn) = touched opn (t (op_path opn))) \<and>
      (\<forall>p. p \<notin> op_path ` set ops' \<longrightarrow> u p = t p)"
  proof (rule run_touches[OF assms(4)])
    show "\<forall>opn \<in> set ops'. \<not> is_quarantine opn" using op by (fastforce simp: is_quarantine_def)
    show "\<forall>opn \<in> set ops'. touched opn (t (op_path opn)) \<noteq> None" using op grant_entry[OF td] by fastforce
    show "\<forall>p a. CreateDirectory p a \<in> set ops' \<longrightarrow> kind a = Directory" using op by fastforce
    have "\<not> creates opn" if "opn \<in> set ops'" for opn using op[OF that] by auto
    then show "parents_ready t ops'" by (auto simp: parents_ready_def)
  qed
  then obtain u where u: "run_operations ops' t = Some u"
      "\<And>opn. opn \<in> set ops' \<Longrightarrow> u (op_path opn) = touched opn (t (op_path opn))"
      "\<And>p. p \<notin> op_path ` set ops' \<Longrightarrow> u p = t p" by blast
  have "u p = granted t t' es p" for p
  proof (cases "\<exists>e \<in> set es. entry_path e = p \<and> entry_class e = GrantDirectory")
    case True
    then obtain e where e: "e \<in> set es" "entry_path e = p" "entry_class e = GrantDirectory" by blast
    then obtain opn where opn: "opn \<in> set ops'" "lowers e opn"
      using lower_all_entry[OF ops e(1)] assms(3) by metis
    obtain x where "opn = SetDirectoryMode p x (mode (the (t' p)))"
      using opn(2) e(2,3) tree_diff_entry(3)[OF td e(1)] by (cases opn) auto
    then show ?thesis using u(2)[OF opn(1)] grant_entry[OF td e(1)] e True by (auto simp: granted_def)
  next
    case False
    then have "p \<notin> op_path ` set ops'" using op by fastforce
    then show ?thesis using u(3) False by (auto simp: granted_def)
  qed
  then show ?thesis using u(1) by auto
qed

text \<open>The state in which the remaining operations start.\<close>

definition cleared :: "state_tree \<Rightarrow> state_tree \<Rightarrow> diff_entry list \<Rightarrow> state_tree" where
  "cleared t t' es p = (if removed es p then None else granted t t' es p)"

text \<open>States up to the bookkeeping a plan does not restore on directories.\<close>

definition normal :: "node_state option \<Rightarrow> node_state option" where
  "normal = map_option (\<lambda>s. if kind s = Directory then directory_state (mode s) else s)"

definition late_class :: "entry_class \<Rightarrow> bool" where
  "late_class c \<longleftrightarrow> c \<in> {NewDirectory, Install, FileMode, ModeDirectory}"

lemma cleared_kept:
  assumes td: "tree_diff t t' es" and e: "e \<in> set es" "entry_class e \<in> {FileMode, ModeDirectory, SameDirectory}"
  shows "cleared t t' es (entry_path e) = t (entry_path e)"
proof -
  have "\<not> removed es (entry_path e)" using class_removed(1)[OF td e(1)] e(2) by auto
  moreover have "\<not> (\<exists>e' \<in> set es. entry_path e' = entry_path e \<and> entry_class e' = GrantDirectory)"
    using same_entry[OF td e(1)] e(2) by force
  then have "granted t t' es (entry_path e) = t (entry_path e)" by (simp only: granted_def if_False)
  ultimately show ?thesis by (simp add: cleared_def)
qed

lemma touch_entry:
  assumes td: "tree_diff t t' es" and e: "e \<in> set es" "late_class (entry_class e)" "lowers e opn"
  shows "\<exists>x. touched opn (cleared t t' es (entry_path e)) = Some x \<and> normal (Some x) = normal (t' (entry_path e))"
proof -
  let ?p = "entry_path e"
  note te = tree_diff_entry[OF td e(1)]
  have none: "cleared t t' es ?p = None" if "entry_class e \<in> {Install, NewDirectory}"
    using class_removed(2)[OF td e(1) that] by (auto simp: cleared_def)
  show ?thesis
  proof (cases opn)
    case (CreateDirectory q a)
    then have c: "entry_class e = NewDirectory" "Some a = map_option (\<lambda>s. directory_state (mode s)) (t' ?p)"
      using e(3) te(3) by simp_all
    then obtain s where s: "t' ?p = Some s" "a = directory_state (mode s)" by (cases "t' ?p") auto
    then have "kind s = Directory" using c(1) unfolding entry_class_def te(2,3)
      by (auto split: option.splits node_kind.splits if_splits)
    then show ?thesis using none c(1) s CreateDirectory by (simp add: normal_def directory_state_def)
  next
    case (SetDirectoryMode q x m)
    then have c: "entry_class e = ModeDirectory" "map_option mode (t' ?p) = Some m"
      using e(2,3) te(3) by (auto simp: late_class_def)
    obtain b a where "t ?p = Some b" "kind b = Directory" "t' ?p = Some a" "kind a = Directory"
      using grant_entry[OF td e(1)] c(1) by blast
    then show ?thesis using cleared_kept[OF td e(1)] c SetDirectoryMode
      by (simp add: normal_def with_mode_def directory_state_def)
  next
    case (SetFileMode q x m)
    then have c: "entry_class e = FileMode" "map_option mode (t' ?p) = Some m" using e(3) te(3) by simp_all
    obtain b a where "t ?p = Some b" "t' ?p = Some a" "kind a = File" "content_equivalent b a"
      using c(1) unfolding entry_class_def te(2,3)
      by (auto simp: is_some_and_def split: option.splits node_kind.splits if_splits)
    then show ?thesis using cleared_kept[OF td e(1)] c SetFileMode with_mode_equivalent
      by (auto simp: content_equivalent_def)
  qed (use e none te(3) in \<open>auto simp: late_class_def\<close>)
qed

text \<open>The parent of what is created is a directory, or is created too.\<close>

lemma parent_available:
  assumes td: "tree_diff t t' es" and e: "e \<in> set es" "entry_class e \<in> {Install, NewDirectory}"
  shows "dir_state (cleared t t' es (parent_of (entry_path e))) \<or>
    (\<exists>e' \<in> set es. entry_path e' = parent_of (entry_path e) \<and> entry_class e' = NewDirectory)"
proof -
  let ?q = "parent_of (entry_path e)"
  note te = tree_diff_entry[OF td e(1)]
  have "t' (entry_path e) \<noteq> None"
    using e(2) unfolding entry_class_def te(2,3) by (auto split: option.splits)
  then have q: "dir_state (t' ?q)" using td te(1) by (simp add: tree_diff_def state_tree_def)
  then have some: "t' ?q \<noteq> None" by (metis dir_state_simps(1))
  show ?thesis
  proof (cases "?q \<in> entry_path ` set es")
    case False
    then have same: "t ?q = t' ?q" using td by (simp add: tree_diff_def exact_diff_def)
    then have "\<not> removed es ?q" using unlisted_removed(1)[OF td False] some by metis
    then show ?thesis using q same by (simp add: cleared_def)
  next
    case True
    then obtain e' where e': "e' \<in> set es" "entry_path e' = ?q" by auto
    note te' = tree_diff_entry[OF td e'(1)]
    have "entry_class e' \<in> {NewDirectory, GrantDirectory, ModeDirectory, SameDirectory} \<and>
        (entry_class e' \<noteq> NewDirectory \<longrightarrow> dir_state (t ?q))"
      using q some unfolding entry_class_def te'(2,3) e'(2)
      by (auto split: option.splits node_kind.splits if_splits)
    then show ?thesis using class_removed(1)[OF td e'(1)] e' by (auto simp: cleared_def)
  qed
qed

lemma distinct_by_depth:
  "distinct (map f (by_depth g xs)) = distinct (map f xs)"
  "distinct (map f (by_depth_down g xs)) = distinct (map f xs)"
  by (simp_all add: by_depth_def by_depth_down_def distinct_map)

lemma set_by_depth [simp]: "set (by_depth g xs) = set xs" "set (by_depth_down g xs) = set xs"
  by (simp_all add: by_depth_def by_depth_down_def)

lemma lower_all_distinct: "tree_diff t t' es \<Longrightarrow> lower_all P es ops \<Longrightarrow> distinct (map op_path ops)"
  using lower_all_paths[of P es ops] by (simp add: tree_diff_def exact_diff_def distinct_map_filter)

lemma lower_all_disjoint:
  assumes "tree_diff t t' es" "lower_all P es xs" "lower_all Q es ys" "\<And>c. P c \<Longrightarrow> \<not> Q c"
  shows "op_path ` set xs \<inter> op_path ` set ys = {}"
proof (rule ccontr)
  assume "op_path ` set xs \<inter> op_path ` set ys \<noteq> {}"
  then obtain x y where xy: "x \<in> set xs" "y \<in> set ys" "op_path x = op_path y" by (auto simp: image_iff)
  obtain e f where "e \<in> set es" "P (entry_class e)" "lowers e x" "f \<in> set es" "Q (entry_class f)" "lowers f y"
    using lower_all_op[OF assms(2) xy(1)] lower_all_op[OF assms(3) xy(2)] by blast
  then show False using xy(3) same_entry[OF assms(1), of e f] lowers_path assms(4) by metis
qed

text \<open>Directories are created from the top down.\<close>

lemma by_depth_prefix:
  assumes "by_depth f xs = as @ x # bs" "y \<in> set xs" "component_depth (f y) < component_depth (f x)"
  shows "y \<in> set as"
proof -
  have "sorted (map (\<lambda>x. (component_depth (f x), f x)) (as @ x # bs))"
    unfolding assms(1)[symmetric] by_depth_def by (rule sorted_sort_key)
  then have "component_depth (f x) \<le> component_depth (f z)" if "z \<in> set (x # bs)" for z
    using that by (auto simp: sorted_append less_eq_prod_def)
  moreover have "y \<in> set (as @ x # bs)" using assms(1,2) set_by_depth(1) by metis
  ultimately show ?thesis using assms(3) by (metis Un_iff not_le set_append)
qed

lemma rest_ready:
  assumes td: "tree_diff t t' es"
    and files: "lower_all (\<lambda>c. c = Install \<or> c = FileMode) es fs" and modes: "\<forall>opn \<in> set ms. \<not> creates opn"
  shows "parents_ready (cleared t t' es)
    (map (\<lambda>(p, a). CreateDirectory p a) (by_depth fst (created_directories es)) @ fs @ ms)"
  unfolding parents_ready_def
proof (intro allI impI)
  let ?mk = "\<lambda>(p, a). CreateDirectory p a"
  let ?cs = "by_depth fst (created_directories es)"
  fix xs opn ys assume split: "map ?mk ?cs @ fs @ ms = xs @ opn # ys" and mk: "creates opn"
  note made = created_classes[of es]
  have "opn \<in> set (map ?mk ?cs @ fs @ ms)" using split by simp
  then have "opn \<in> set (map ?mk (created_directories es)) \<or> opn \<in> set fs" using modes mk by auto
  then obtain e where e: "e \<in> set es" "lowers e opn"
    using lower_all_op[OF made] lower_all_op[OF files] by blast
  then have cls: "entry_class e \<in> {Install, NewDirectory}" and path: "op_path opn = entry_path e"
    using mk by (cases opn; simp)+
  let ?q = "parent_of (entry_path e)"
  note te = tree_diff_entry[OF td e(1)]
  have "\<exists>a. CreateDirectory ?q a \<in> set xs"
    if e': "e' \<in> set es" "entry_path e' = ?q" "entry_class e' = NewDirectory" for e'
  proof -
    obtain opn' where opn': "opn' \<in> set (map ?mk (created_directories es))" "lowers e' opn'"
      using lower_all_entry[OF made e'(1)] e'(3) by blast
    then obtain a where a: "(?q, a) \<in> set ?cs" using e'(2) by auto
    consider (later) us where "xs = map ?mk ?cs @ us"
      | (within) c as bs where "?cs = as @ c # bs" "opn = ?mk c" "xs = map ?mk as"
    proof -
      obtain us where us: "map ?mk ?cs = xs @ us \<and> us @ fs @ ms = opn # ys \<or> map ?mk ?cs @ us = xs"
        using split unfolding append_eq_append_conv2 by metis
      show ?thesis
      proof (cases "map ?mk ?cs @ us = xs")
        case False
        show ?thesis
        proof (cases us)
          case Nil
          then show ?thesis using us False later[of "[]"] by simp
        next
          case (Cons u us')
          then have "map ?mk ?cs = xs @ opn # us'" using us False by simp
          then obtain as vs where v: "?cs = as @ vs" "xs = map ?mk as" "opn # us' = map ?mk vs"
            unfolding map_eq_append_conv by auto
          then obtain c bs where "vs = c # bs" by (cases vs) auto
          then show ?thesis using within[of as c bs] v by simp
        qed
      qed (use later in metis)
    qed
    then show ?thesis
    proof cases
      case later
      then show ?thesis using a by force
    next
      case within
      have "fst c = entry_path e" using path within(2) by (cases c) simp
      then have "component_depth (fst (?q, a)) < component_depth (fst c)"
        using within_depth[of "entry_path e" ?q] within_parent_of[of "entry_path e"] parent_of_ok te(1,5)
        by (auto simp: strictly_in_def)
      then have "(?q, a) \<in> set as" using by_depth_prefix[OF within(1)] a by simp
      then show ?thesis using within(3) by force
    qed
  qed
  then show "dir_state (cleared t t' es (parent_of (op_path opn))) \<or>
      (\<exists>a. CreateDirectory (parent_of (op_path opn)) a \<in> set xs)"
    unfolding path using parent_available[OF td e(1) cls] by blast
qed

lemma run_rest:
  assumes td: "tree_diff t t' es"
    and files: "lower_all (\<lambda>c. c = Install \<or> c = FileMode) es fs"
    and modes: "lower_all (\<lambda>c. c = ModeDirectory) es ms'" "set ms = set ms'" "distinct (map op_path ms)"
  shows "\<exists>u. run_operations (map (\<lambda>(p, a). CreateDirectory p a) (by_depth fst (created_directories es)) @ fs @ ms)
      (cleared t t' es) = Some u \<and>
    (\<forall>e \<in> set es. late_class (entry_class e) \<longrightarrow> normal (u (entry_path e)) = normal (t' (entry_path e))) \<and>
    (\<forall>p. \<not> (\<exists>e \<in> set es. late_class (entry_class e) \<and> entry_path e = p) \<longrightarrow> u p = cleared t t' es p)"
proof -
  let ?mk = "\<lambda>(p, a). CreateDirectory p a"
  let ?ops = "map ?mk (by_depth fst (created_directories es)) @ fs @ ms"
  let ?c = "cleared t t' es"
  note made = created_classes[of es]
  have op: "\<exists>e \<in> set es. late_class (entry_class e) \<and> lowers e opn" if "opn \<in> set ?ops" for opn
    using that lower_all_op[OF made, of opn] lower_all_op[OF files, of opn] lower_all_op[OF modes(1), of opn] modes(2)
    by (auto simp: late_class_def)
  have entry: "\<exists>opn \<in> set ?ops. lowers e opn" if "e \<in> set es" "late_class (entry_class e)" for e
    using that lower_all_entry[OF made, of e] lower_all_entry[OF files, of e] lower_all_entry[OF modes(1), of e] modes(2)
    by (auto simp: late_class_def)
  have touch: "\<exists>x. touched opn (?c (op_path opn)) = Some x \<and> normal (Some x) = normal (t' (op_path opn))"
    if "opn \<in> set ?ops" for opn
    using op[OF that] touch_entry[OF td] lowers_path by metis
  have paths: "map op_path (map ?mk xs) = map fst xs" for xs :: "(vpath \<times> node_state) list"
    by (induction xs) auto
  have dist: "distinct (map op_path ?ops)"
  proof -
    have "distinct (map op_path (map ?mk (by_depth fst (created_directories es))))"
      using lower_all_distinct[OF td made] unfolding paths distinct_by_depth .
    moreover have "op_path ` set (map ?mk (created_directories es)) \<inter> op_path ` set fs = {}"
      by (rule lower_all_disjoint[OF td made files]) auto
    moreover have "op_path ` set (map ?mk (created_directories es)) \<inter> op_path ` set ms = {}"
      unfolding modes(2) by (rule lower_all_disjoint[OF td made modes(1)]) auto
    moreover have "op_path ` set fs \<inter> op_path ` set ms = {}"
      unfolding modes(2) by (rule lower_all_disjoint[OF td files modes(1)]) auto
    ultimately show ?thesis using lower_all_distinct[OF td files] modes(3)
      unfolding map_append distinct_append set_append set_map set_by_depth by (simp add: Int_Un_distrib)
  qed
  have "\<exists>u. run_operations ?ops ?c = Some u \<and>
      (\<forall>opn \<in> set ?ops. u (op_path opn) = touched opn (?c (op_path opn))) \<and>
      (\<forall>p. p \<notin> op_path ` set ?ops \<longrightarrow> u p = ?c p)"
  proof (rule run_touches[OF dist])
    show "\<forall>opn \<in> set ?ops. \<not> is_quarantine opn" using op lowers_path by blast
    show "\<forall>opn \<in> set ?ops. touched opn (?c (op_path opn)) \<noteq> None" using touch by (metis option.distinct(1))
    show "\<forall>p a. CreateDirectory p a \<in> set ?ops \<longrightarrow> kind a = Directory"
    proof (intro allI impI)
      fix p a assume "CreateDirectory p a \<in> set ?ops"
      then obtain e where "lowers e (CreateDirectory p a)" using op by blast
      then show "kind a = Directory" by (cases "entry_after e") (auto simp: directory_state_def)
    qed
    show "parents_ready ?c ?ops"
    proof (rule rest_ready[OF td files])
      have "\<not> creates opn" if m: "opn \<in> set ms" for opn
      proof -
        obtain e where "entry_class e = ModeDirectory" "lowers e opn"
          using lower_all_op[OF modes(1)] m modes(2) by blast
        then show ?thesis by (cases opn) auto
      qed
      then show "\<forall>opn \<in> set ms. \<not> creates opn" by blast
    qed
  qed
  then obtain u where u: "run_operations ?ops ?c = Some u"
      "\<And>opn. opn \<in> set ?ops \<Longrightarrow> u (op_path opn) = touched opn (?c (op_path opn))"
      "\<And>p. p \<notin> op_path ` set ?ops \<Longrightarrow> u p = ?c p" by blast
  have "normal (u (entry_path e)) = normal (t' (entry_path e))" if e: "e \<in> set es" "late_class (entry_class e)" for e
  proof -
    obtain opn where opn: "opn \<in> set ?ops" "lowers e opn" using entry[OF e] by blast
    have "op_path opn = entry_path e" using lowers_path[OF opn(2)] by simp
    then show ?thesis using u(2)[OF opn(1)] touch[OF opn(1)] by auto
  qed
  moreover have "u p = ?c p" if p: "\<not> (\<exists>e \<in> set es. late_class (entry_class e) \<and> entry_path e = p)" for p
  proof (rule u(3), rule notI)
    assume "p \<in> op_path ` set ?ops"
    then obtain opn where opn: "opn \<in> set ?ops" "op_path opn = p" by blast
    obtain e where "e \<in> set es" "late_class (entry_class e)" "lowers e opn" using op[OF opn(1)] by blast
    then show False using p opn(2) lowers_path by metis
  qed
  ultimately show ?thesis using u(1) by blast
qed

lemma early_states:
  assumes td: "tree_diff t t' es" and e: "e \<in> set es" "\<not> late_class (entry_class e)"
  shows "normal (cleared t t' es (entry_path e)) = normal (t' (entry_path e))"
proof -
  note te = tree_diff_entry[OF td e(1)]
  consider "entry_class e = Gone" | "entry_class e = GrantDirectory" | "entry_class e = SameDirectory"
    using e(2) unfolding late_class_def by (cases "entry_class e") simp_all
  then show ?thesis
  proof cases
    case 1
    then have "t' (entry_path e) = None" unfolding entry_class_def te(2,3)
      by (auto split: option.splits node_kind.splits if_splits)
    then show ?thesis using class_removed(3)[OF td e(1) 1] by (simp add: cleared_def normal_def)
  next
    case 2
    then have "\<not> removed es (entry_path e)" using class_removed(1)[OF td e(1)] by simp
    moreover obtain b a where "t (entry_path e) = Some b" "kind b = Directory"
        "t' (entry_path e) = Some a" "kind a = Directory"
      using grant_entry[OF td e(1)] 2 by blast
    ultimately show ?thesis using e(1) 2
      by (auto simp: cleared_def granted_def normal_def with_mode_def directory_state_def)
  next
    case 3
    then obtain b a where "t (entry_path e) = Some b" "kind b = Directory"
        "t' (entry_path e) = Some a" "kind a = Directory" "mode b = mode a"
      unfolding entry_class_def te(2,3) by (auto split: option.splits node_kind.splits if_splits)
    then show ?thesis using cleared_kept[OF td e(1)] 3 by (simp add: normal_def)
  qed
qed

text \<open>The prepared operations run without refusal and end in the second tree.\<close>

lemma prepared_plan_runs:
  assumes "prepare blake3 plan mo mp = Inr pr" and td: "tree_diff t t' (cd_entries (pl_diff plan))"
  shows "\<exists>u. run_operations (pp_operations pr) t = Some u \<and> (\<forall>p. normal (u p) = normal (t' p)) \<and>
    (\<forall>(p, s) \<in> set (pp_final_states pr). normal (u p) = s)"
proof -
  define es where "es = cd_entries (pl_diff plan)"
  note td = td[folded es_def]
  from prepare_parts[OF assms(1) es_def] obtain quars l where
    quars: "map op_path quars = destructive_roots es" "\<forall>opn \<in> set quars. is_quarantine opn" and
    l: "lowered_ok es l" and
    ops: "pp_operations pr = by_depth op_path (lo_access l) @ quars @
       (map (\<lambda>(p, a). CreateDirectory p a) (by_depth fst (created_directories es)) @
        lo_operations l @ by_depth_down op_path (lo_modes l))" and
    final: "pp_final_states pr = map final_entry es" by metis
  note l = l[unfolded lowered_ok_def]
  have grants: "run_operations (by_depth op_path (lo_access l)) t = Some (granted t t' es)"
    by (rule run_grants[OF td conjunct1[OF conjunct2[OF l]]])
       (use lower_all_distinct[OF td conjunct1[OF conjunct2[OF l]]] in \<open>simp_all add: distinct_by_depth\<close>)
  have roots: "granted t t' es p \<noteq> None" "vpath_ok p" if "p \<in> set (destructive_paths es)" for p
    using destructive_before[OF td that] by auto
  have "run_operations quars (granted t t' es) =
      Some (\<lambda>q. if \<exists>p \<in> set (destructive_roots es). is_within q p then None else granted t t' es q)"
  proof (rule run_quarantines[OF _ _ _ quars])
    have "distinct (map entry_path es)" using td by (simp add: tree_diff_def exact_diff_def)
    then show "distinct (destructive_roots es)"
      "\<forall>p \<in> set (destructive_roots es). \<forall>q \<in> set (destructive_roots es). is_within p q \<longrightarrow> p = q"
      using destructive_roots_antichain roots(2) by blast+
    show "\<forall>p \<in> set (destructive_roots es). granted t t' es p \<noteq> None"
      using roots(1) set_destructive_roots by blast
  qed
  then have quarantined: "run_operations quars (granted t t' es) = Some (cleared t t' es)"
    by (simp add: cleared_def removed_def fun_eq_iff cong: if_cong)
  obtain u where u: "run_operations (map (\<lambda>(p, a). CreateDirectory p a) (by_depth fst (created_directories es)) @
        lo_operations l @ by_depth_down op_path (lo_modes l)) (cleared t t' es) = Some u"
    "\<And>e. e \<in> set es \<Longrightarrow> late_class (entry_class e) \<Longrightarrow> normal (u (entry_path e)) = normal (t' (entry_path e))"
    "\<And>p. \<not> (\<exists>e \<in> set es. late_class (entry_class e) \<and> entry_path e = p) \<Longrightarrow> u p = cleared t t' es p"
    using run_rest[OF td conjunct1[OF l] conjunct2[OF conjunct2[OF l]], of "by_depth_down op_path (lo_modes l)"]
      lower_all_distinct[OF td conjunct2[OF conjunct2[OF l]]] by (auto simp: distinct_by_depth)
  have run: "run_operations (pp_operations pr) t = Some u"
    unfolding ops run_operations_append[of "by_depth op_path (lo_access l)"] grants bind.bind_lunit
      run_operations_append[of quars] quarantined by (rule u(1))
  have states: "normal (u p) = normal (t' p)" for p
  proof (cases "\<exists>e \<in> set es. entry_path e = p")
    case False
    then have "u p = cleared t t' es p" using u(3) by blast
    moreover have out: "p \<notin> entry_path ` set es" using False by auto
    then have "t p = t' p" using td by (simp add: tree_diff_def exact_diff_def)
    moreover have "cleared t t' es p = t p"
    proof (cases "t p")
      case None
      then show ?thesis by (simp add: cleared_def)
    next
      case (Some s)
      then have "\<not> removed es p" using unlisted_removed(1)[OF td out] by simp
      then show ?thesis using False by (auto simp: cleared_def granted_def)
    qed
    ultimately show ?thesis by simp
  next
    case True
    then obtain e where e: "e \<in> set es" "entry_path e = p" by blast
    show ?thesis
    proof (cases "late_class (entry_class e)")
      case True
      then show ?thesis using u(2)[OF e(1)] e(2) by simp
    next
      case False
      have "\<not> (\<exists>e' \<in> set es. late_class (entry_class e') \<and> entry_path e' = p)"
        using same_entry[OF td e(1)] e(2) False by blast
      then have "u p = cleared t t' es p" by (rule u(3))
      then show ?thesis using early_states[OF td e(1)] False e(2) by simp
    qed
  qed
  moreover have "normal (u p) = s" if "(p, s) \<in> set (pp_final_states pr)" for p s
    using that tree_diff_entry(3)[OF td] states unfolding final by (auto simp: final_entry_def normal_def)
  ultimately show ?thesis using run by blast
qed

text \<open>Finite trees, given by their entries.\<close>

lemma state_tree_map_of:
  assumes "dir_state (map_of xs root)"
    "list_all (\<lambda>(p, s). vpath_ok p \<and> (p \<noteq> root \<longrightarrow> dir_state (map_of xs (parent_of p)))) xs"
  shows "state_tree (map_of xs)"
  using assms unfolding state_tree_def list_all_iff by (fastforce dest: map_of_SomeD)

lemma exact_diff_map_of:
  assumes "distinct (map entry_path es)"
    "list_all (\<lambda>e. entry_path e \<noteq> root \<and> entry_before e = map_of xs (entry_path e) \<and>
        entry_after e = map_of ys (entry_path e) \<and> entry_before e \<noteq> entry_after e) es"
    "list_all (\<lambda>(p, s). p \<in> entry_path ` set es \<or> map_of xs p = map_of ys p) (xs @ ys)"
  shows "exact_diff (map_of xs) (map_of ys) es"
proof -
  have "map_of xs p = map_of ys p" if "p \<notin> entry_path ` set es" for p
  proof (cases "p \<in> fst ` set (xs @ ys)")
    case True
    then show ?thesis using assms(3) that by (fastforce simp: list_all_iff)
  next
    case False
    then have "map_of xs p = None" "map_of ys p = None" by (auto simp: map_of_eq_None_iff)
    then show ?thesis by simp
  qed
  then show ?thesis using assms(1,2) by (auto simp: exact_diff_def list_all_iff)
qed

end
