(* ===== verification/PlanCodec.thy ===== *)
theory PlanCodec
  imports Plan Reader
begin

text \<open>
  The durable plan file (\<open>PreparedPlan::encode\<close>, \<open>decode\<close> and the \<open>Reader\<close> in
  \<open>crates/vsh-commit/src/plan.rs\<close>).  The reader is a record of the bytes and the offset; a decoder
  is an operation on it.  Encoders and decoders are related by \<open>decodes\<close>, which composes along
  \<open>bindS\<close>; the round trips of states and operations interpret the locale \<open>codec\<close>.
\<close>

section \<open>The reader\<close>

datatype plan_decode_error =
  PD_Truncated | PD_Checksum | PD_Magic | PD_Tag | PD_Utf8 | PD_Path | PD_State | PD_Limit | PD_TrailingBytes

type_synonym 'a decoder = "(reader, plan_decode_error, 'a) op"

definition rd_take :: "nat \<Rightarrow> bytes decoder" where
  "rd_take len r =
     (let end = rd_offset r + len in
      if 2 ^ 64 \<le> end then (Err PD_Truncated, r)
      else if length (rd_bytes r) < end then (Err PD_Truncated, r)
      else (Ok (take len (drop (rd_offset r) (rd_bytes r))), r\<lparr>rd_offset := end\<rparr>))"

definition rd_u8 :: "u8 decoder" where
  "rd_u8 = bindS (rd_take 1) (\<lambda>bs. returnS (hd bs))"

definition rd_u32 :: "u32 decoder" where
  "rd_u32 = bindS (rd_take 4) (\<lambda>bs. returnS (le_word bs))"

definition rd_u64 :: "u64 decoder" where
  "rd_u64 = bindS (rd_take 8) (\<lambda>bs. returnS (le_word bs))"

definition rd_i128 :: "i128 decoder" where
  "rd_i128 = bindS (rd_take 16) (\<lambda>bs. returnS (le_word bs))"

definition rd_digest :: "digest decoder" where
  "rd_digest = bindS (rd_take 32) (\<lambda>bs. returnS (from_bytes bs))"

definition rd_is_empty :: "reader \<Rightarrow> bool" where
  "rd_is_empty r \<longleftrightarrow> rd_offset r = length (rd_bytes r)"

section \<open>Encoders\<close>

definition encode_stamp_plan :: "file_stamp \<Rightarrow> bytes" where
  "encode_stamp_plan st =
     canonical_tag (stamp_kind st) # u64_bytes (stamp_size st) @ u32_bytes (stamp_mode st) @
     i128_bytes (mtime_ns st) @
     (case ctime_ns st of None \<Rightarrow> [0] | Some ctime \<Rightarrow> 1 # i128_bytes ctime) @
     u64_bytes (high (file_id st)) @ u64_bytes (low (file_id st))"

definition encode_state_plan :: "node_state \<Rightarrow> bytes" where
  "encode_state_plan st =
     canonical_tag (kind st) # u64_bytes (nsize st) @ u32_bytes (mode st) @
     (case content st of
        None \<Rightarrow> [0]
      | Some (Blob blob) \<Rightarrow> 1 # as_bytes blob
      | Some (Stamp stamp) \<Rightarrow> 2 # encode_stamp_plan stamp)"

definition encode_optional_state_plan :: "node_state option \<Rightarrow> bytes" where
  "encode_optional_state_plan s = (case s of None \<Rightarrow> [0] | Some st \<Rightarrow> 1 # encode_state_plan st)"

definition encode_path_plan :: "vpath \<Rightarrow> commit_plan_error + bytes" where
  "encode_path_plan p =
     (let bytes = str_bytes (as_str p) in
      if length bytes < 2 ^ 32 then Ok (u32_bytes (of_nat (length bytes)) @ bytes)
      else Err (PathTooLong p (2 ^ 32 - 1)))"

fun encode_operation :: "operation \<Rightarrow> commit_plan_error + bytes" where
  "encode_operation (Quarantine path expected slot) =
     bindR (encode_path_plan path) (\<lambda>p. Ok (1 # p @ encode_state_plan expected @ u32_bytes slot))"
| "encode_operation (CreateDirectory path after) =
     bindR (encode_path_plan path) (\<lambda>p. Ok (2 # p @ encode_state_plan after))"
| "encode_operation (InstallFile path after slot) =
     bindR (encode_path_plan path) (\<lambda>p. Ok (3 # p @ encode_state_plan after @ u32_bytes slot))"
| "encode_operation (InstallSymlink path after slot) =
     bindR (encode_path_plan path) (\<lambda>p. Ok (4 # p @ encode_state_plan after @ u32_bytes slot))"
| "encode_operation (SetDirectoryMode path expected after_mode) =
     bindR (encode_path_plan path) (\<lambda>p. Ok (5 # p @ encode_state_plan expected @ u32_bytes after_mode))"
| "encode_operation (SetFileMode path expected after_mode) =
     bindR (encode_path_plan path) (\<lambda>p. Ok (6 # p @ encode_state_plan expected @ u32_bytes after_mode))"

fun encode_all :: "('a \<Rightarrow> 'e + bytes) \<Rightarrow> 'a list \<Rightarrow> 'e + bytes" where
  "encode_all enc [] = Ok []"
| "encode_all enc (x # xs) =
     bindR (enc x) (\<lambda>b. bindR (encode_all enc xs) (\<lambda>bs. Ok (b @ bs)))"

definition encode_final :: "vpath \<times> node_state option \<Rightarrow> commit_plan_error + bytes" where
  "encode_final = (\<lambda>(path, state).
     bindR (encode_path_plan path) (\<lambda>p. Ok (p @ encode_optional_state_plan state)))"

definition is_set_file_mode :: "operation \<Rightarrow> bool" where
  "is_set_file_mode opn \<longleftrightarrow> (case opn of SetFileMode _ _ _ \<Rightarrow> True | _ \<Rightarrow> False)"

definition plan_magic :: bytes where "plan_magic = str_bytes ''VSHCMT01''"
definition plan_magic_v2 :: bytes where "plan_magic_v2 = str_bytes ''VSHCMT02''"

definition plan_digest :: "(bytes \<Rightarrow> digest) \<Rightarrow> bytes \<Rightarrow> bytes" where
  "plan_digest blake3 bs = as_bytes (blake3
     (str_bytes ''vsh'' @ [0] @ str_bytes ''commit-plan-v1'' @ [0] @ u64_bytes (len64 bs) @ bs))"

definition encode_plan :: "(bytes \<Rightarrow> digest) \<Rightarrow> prepared_plan \<Rightarrow> commit_plan_error + bytes" where
  "encode_plan blake3 pr =
     (if 2 ^ 32 \<le> length (pp_operations pr) then Err OperationCountOverflow
      else if 2 ^ 32 \<le> length (pp_final_states pr) then Err OperationCountOverflow
      else bindR (encode_all encode_operation (pp_operations pr)) (\<lambda>ops.
           bindR (encode_all encode_final (pp_final_states pr)) (\<lambda>finals.
           let output = (if list_ex is_set_file_mode (pp_operations pr) then plan_magic_v2 else plan_magic) @
                 as_bytes (pp_transaction pr) @ as_bytes (pp_base_snapshot pr) @
                 u32_bytes (of_nat (length (pp_operations pr))) @ ops @
                 u32_bytes (of_nat (length (pp_final_states pr))) @ finals
           in Ok (output @ plan_digest blake3 output))))"

section \<open>Decoders\<close>

text \<open>\<open>std::str::from_utf8\<close>: well-formed UTF-8.\<close>

definition cont :: "u8 \<Rightarrow> bool" where "cont b \<longleftrightarrow> 0x80 \<le> b \<and> b \<le> 0xBF"

fun utf8_ok :: "bytes \<Rightarrow> bool" where
  "utf8_ok [] = True"
| "utf8_ok (a # bs) =
     (if a < 0x80 then utf8_ok bs
      else if 0xC2 \<le> a \<and> a \<le> 0xDF then (case bs of b # cs \<Rightarrow> cont b \<and> utf8_ok cs | _ \<Rightarrow> False)
      else if 0xE0 \<le> a \<and> a \<le> 0xEF then (case bs of
        b # c # ds \<Rightarrow> cont b \<and> cont c \<and> (a = 0xE0 \<longrightarrow> 0xA0 \<le> b) \<and> (a = 0xED \<longrightarrow> b \<le> 0x9F) \<and> utf8_ok ds
      | _ \<Rightarrow> False)
      else if 0xF0 \<le> a \<and> a \<le> 0xF4 then (case bs of
        b # c # d # es \<Rightarrow> cont b \<and> cont c \<and> cont d \<and> (a = 0xF0 \<longrightarrow> 0x90 \<le> b) \<and>
          (a = 0xF4 \<longrightarrow> b \<le> 0x8F) \<and> utf8_ok es
      | _ \<Rightarrow> False)
      else False)"

definition decode_kind :: "u8 \<Rightarrow> plan_decode_error + node_kind" where
  "decode_kind tag =
     (if tag = 1 then Ok File else if tag = 2 then Ok Directory else if tag = 3 then Ok Symlink
      else Err PD_Tag)"

definition decode_path_plan :: "nat \<Rightarrow> vpath decoder" where
  "decode_path_plan max_path =
     bindS rd_u32 (\<lambda>len.
     if max_path < unat len then failS PD_Limit
     else bindS (rd_take (unat len)) (\<lambda>bs.
       if \<not> utf8_ok bs then failS PD_Utf8
       else liftS (map_err (\<lambda>_. PD_Path) (parse (bytes_str bs)))))"

definition decode_stamp :: "file_stamp decoder" where
  "decode_stamp =
     bindS rd_u8 (\<lambda>tag. bindS (liftS (decode_kind tag)) (\<lambda>k.
     bindS rd_u64 (\<lambda>sz. bindS rd_u32 (\<lambda>m. bindS rd_i128 (\<lambda>mtime.
     bindS rd_u8 (\<lambda>flag.
     bindS (if flag = 0 then returnS None
            else if flag = 1 then bindS rd_i128 (\<lambda>c. returnS (Some c))
            else failS PD_Tag) (\<lambda>ctime.
     bindS rd_u64 (\<lambda>hi. bindS rd_u64 (\<lambda>lo.
     returnS \<lparr>stamp_kind = k, stamp_size = sz, stamp_mode = m, mtime_ns = mtime, ctime_ns = ctime,
       file_id = \<lparr>high = hi, low = lo\<rparr>\<rparr>)))))))))"

definition decode_state_with_mode :: "bool \<Rightarrow> node_state decoder" where
  "decode_state_with_mode metadata_mode =
     bindS rd_u8 (\<lambda>tag. bindS (liftS (decode_kind tag)) (\<lambda>k.
     bindS rd_u64 (\<lambda>sz. bindS rd_u32 (\<lambda>m. bindS rd_u8 (\<lambda>version.
     if version = 0 \<and> k = Directory \<and> sz = 0 then returnS (directory_state m)
     else if version = 1 then bindS rd_digest (\<lambda>blob.
       case k of
         File \<Rightarrow> returnS (file_state blob sz m)
       | Symlink \<Rightarrow> returnS (symlink_state blob sz m)
       | Directory \<Rightarrow> failS PD_State)
     else if version = 2 then bindS decode_stamp (\<lambda>stamp.
       if stamp_kind stamp \<noteq> k \<or> stamp_size stamp \<noteq> sz \<or>
         stamp_mode stamp \<noteq> m \<and> (\<not> metadata_mode \<or> k \<noteq> File \<or> m AND NOT 0x1FF \<noteq> 0)
       then failS PD_State
       else returnS (with_mode (from_stamp stamp) m))
     else failS PD_State)))))"

definition decode_state :: "node_state decoder" where
  "decode_state = decode_state_with_mode False"

definition decode_optional_state :: "bool \<Rightarrow> node_state option decoder" where
  "decode_optional_state metadata_mode =
     bindS rd_u8 (\<lambda>tag.
     if tag = 0 then returnS None
     else if tag = 1 then bindS (decode_state_with_mode metadata_mode) (\<lambda>s. returnS (Some s))
     else failS PD_Tag)"

definition decode_operation :: "nat \<Rightarrow> operation decoder" where
  "decode_operation max_path =
     bindS rd_u8 (\<lambda>tag. bindS (decode_path_plan max_path) (\<lambda>path.
     if tag = 1 then bindS decode_state (\<lambda>e. bindS rd_u32 (\<lambda>slot. returnS (Quarantine path e slot)))
     else if tag = 2 then bindS decode_state (\<lambda>a. returnS (CreateDirectory path a))
     else if tag = 3 then bindS decode_state (\<lambda>a. bindS rd_u32 (\<lambda>slot. returnS (InstallFile path a slot)))
     else if tag = 4 then bindS decode_state (\<lambda>a. bindS rd_u32 (\<lambda>slot. returnS (InstallSymlink path a slot)))
     else if tag = 5 then bindS decode_state (\<lambda>e. bindS rd_u32 (\<lambda>m. returnS (SetDirectoryMode path e m)))
     else if tag = 6 then bindS decode_state (\<lambda>e. bindS rd_u32 (\<lambda>m.
       if kind e \<noteq> File \<or> m AND NOT 0x1FF \<noteq> 0 then failS PD_Tag
       else returnS (SetFileMode path e m)))
     else failS PD_Tag))"

definition decode_final :: "nat \<Rightarrow> bool \<Rightarrow> (vpath \<times> node_state option) decoder" where
  "decode_final max_path v2 =
     bindS (decode_path_plan max_path) (\<lambda>path.
     bindS (decode_optional_state v2) (\<lambda>state. returnS (path, state)))"

definition decode_body :: "nat \<Rightarrow> nat \<Rightarrow> prepared_plan decoder" where
  "decode_body max_operations max_path =
     bindS (rd_take 8) (\<lambda>magic.
     if magic \<noteq> plan_magic \<and> magic \<noteq> plan_magic_v2 then failS PD_Magic
     else bindS rd_digest (\<lambda>transaction. bindS rd_digest (\<lambda>base.
     bindS rd_u32 (\<lambda>operation_count.
     if max_operations < unat operation_count then failS PD_Limit
     else bindS (rd_many (unat operation_count) (bindS (decode_operation max_path) (\<lambda>opn.
         if magic = plan_magic \<and> is_set_file_mode opn then failS PD_Tag else returnS opn))) (\<lambda>operations.
     bindS rd_u32 (\<lambda>final_count.
     if max_operations < unat final_count then failS PD_Limit
     else bindS (rd_many (unat final_count) (decode_final max_path (magic = plan_magic_v2))) (\<lambda>finals.
     bindS (getS rd_is_empty) (\<lambda>empty.
     if \<not> empty then failS PD_TrailingBytes
     else returnS \<lparr>pp_transaction = transaction, pp_base_snapshot = base,
       pp_operations = operations, pp_final_states = finals\<rparr>))))))))"

definition decode_plan ::
    "(bytes \<Rightarrow> digest) \<Rightarrow> bytes \<Rightarrow> nat \<Rightarrow> nat \<Rightarrow> plan_decode_error + prepared_plan" where
  "decode_plan blake3 bs max_operations max_path =
     (if length bs < 8 + 32 then Err PD_Truncated
      else
        let payload = take (length bs - 32) bs; checksum = drop (length bs - 32) bs in
        if plan_digest blake3 payload \<noteq> checksum then Err PD_Checksum
        else fst (decode_body max_operations max_path \<lparr>rd_bytes = payload, rd_offset = 0\<rparr>))"

section \<open>Encoders and decoders fit together\<close>

abbreviation decodes :: "'a decoder \<Rightarrow> bytes \<Rightarrow> 'a \<Rightarrow> bool" where "decodes \<equiv> reads_in (\<lambda>_. True)"

lemma reads_take: "length x = n \<Longrightarrow> decodes (rd_take n) x x"
  unfolding reads_in_def
proof (intro allI impI)
  fix r :: reader and rest :: bytes
  assume h: "length x = n" "True" "length (rd_bytes r) < 2 ^ 64" "rd_offset r \<le> length (rd_bytes r)"
    "drop (rd_offset r) (rd_bytes r) = x @ rest"
  have "rd_offset r + n \<le> length (rd_bytes r)" using reads_end[OF h(4,5)] h(1) by simp
  moreover have "take n (drop (rd_offset r) (rd_bytes r)) = x" using h(1,5) by simp
  ultimately show "rd_take n r = (Ok x, r\<lparr>rd_offset := rd_offset r + length x\<rparr>)"
    using h(1,3) by (simp add: rd_take_def)
qed

lemma reads_u8: "decodes rd_u8 [b] b"
  unfolding rd_u8_def by (rule reads_bindS_last[OF reads_take]) simp_all

lemma reads_u32: "decodes rd_u32 (u32_bytes w) w"
  unfolding rd_u32_def by (rule reads_bindS_last[OF reads_take]) simp_all

lemma reads_u64: "decodes rd_u64 (u64_bytes w) w"
  unfolding rd_u64_def by (rule reads_bindS_last[OF reads_take]) simp_all

lemma reads_i128: "decodes rd_i128 (i128_bytes w) w"
  unfolding rd_i128_def by (rule reads_bindS_last[OF reads_take]) simp_all

lemma reads_digest: "decodes rd_digest (as_bytes w) w"
  unfolding rd_digest_def by (rule reads_bindS_last[OF reads_take]) simp_all

lemmas reads_word = reads_u32 reads_u64 reads_i128 reads_digest

lemmas reads_words [reads_intros] =
  reads_word reads_word[THEN reads_bindS] reads_word[THEN reads_bindS_last]

lemma reads_tag [reads_intros]: "decodes (f b) y c \<Longrightarrow> decodes (bindS rd_u8 f) (b # y) c"
  using reads_bindS[OF reads_u8, of f b y c] by simp

section \<open>States and paths\<close>

text \<open>The states and paths the file can hold; \<open>meta\<close> is the second version of the format.\<close>

definition state_storable :: "bool \<Rightarrow> node_state \<Rightarrow> bool" where
  "state_storable meta s \<longleftrightarrow> (case content s of
     None \<Rightarrow> kind s = Directory \<and> nsize s = 0
   | Some (Blob _) \<Rightarrow> kind s \<noteq> Directory
   | Some (Stamp st) \<Rightarrow> stamp_kind st = kind s \<and> stamp_size st = nsize s \<and>
       (stamp_mode st = mode s \<or> meta \<and> kind s = File \<and> mode s AND NOT 0x1FF = 0))"

definition path_storable :: "nat \<Rightarrow> vpath \<Rightarrow> bool" where
  "path_storable max_path p \<longleftrightarrow> parse (as_str p) = Ok p \<and> utf8_ok (str_bytes (as_str p)) \<and>
     length (as_str p) \<le> max_path \<and> length (as_str p) < 2 ^ 32"

fun operation_storable :: "nat \<Rightarrow> operation \<Rightarrow> bool" where
  "operation_storable n (Quarantine p s _) \<longleftrightarrow> path_storable n p \<and> state_storable False s"
| "operation_storable n (CreateDirectory p s) \<longleftrightarrow> path_storable n p \<and> state_storable False s"
| "operation_storable n (InstallFile p s _) \<longleftrightarrow> path_storable n p \<and> state_storable False s"
| "operation_storable n (InstallSymlink p s _) \<longleftrightarrow> path_storable n p \<and> state_storable False s"
| "operation_storable n (SetDirectoryMode p s _) \<longleftrightarrow> path_storable n p \<and> state_storable False s"
| "operation_storable n (SetFileMode p s m) \<longleftrightarrow> path_storable n p \<and> state_storable False s \<and>
     kind s = File \<and> m AND NOT 0x1FF = 0"

lemma decode_kind_tag [simp]: "decode_kind (canonical_tag k) = Ok k"
  by (cases k) (simp_all add: decode_kind_def)

lemma reads_ctime:
  "decodes (bindS rd_u8 (\<lambda>flag. if flag = 0 then returnS None
       else if flag = 1 then bindS rd_i128 (\<lambda>c. returnS (Some c)) else failS PD_Tag))
     (case c of None \<Rightarrow> [0] | Some ctime \<Rightarrow> 1 # i128_bytes ctime) c"
  by (cases c) (auto simp del: bindS_simps opS_apply intro!: reads_intros)

lemma reads_stamp: "decodes decode_stamp (encode_stamp_plan st) st"
proof -
  have "decodes decode_stamp (encode_stamp_plan st)
    \<lparr>stamp_kind = stamp_kind st, stamp_size = stamp_size st, stamp_mode = stamp_mode st,
      mtime_ns = mtime_ns st, ctime_ns = ctime_ns st,
      file_id = \<lparr>high = high (file_id st), low = low (file_id st)\<rparr>\<rparr>"
    unfolding decode_stamp_def encode_stamp_plan_def
    apply (rule reads_intros decode_kind_tag)+
    apply (subst bindS_assoc[symmetric])
    apply (rule reads_bindS[OF reads_ctime])
    apply (rule reads_intros refl)+
    done
  moreover have "\<lparr>stamp_kind = stamp_kind st, stamp_size = stamp_size st, stamp_mode = stamp_mode st,
      mtime_ns = mtime_ns st, ctime_ns = ctime_ns st,
      file_id = \<lparr>high = high (file_id st), low = low (file_id st)\<rparr>\<rparr> = st"
    by (auto intro!: file_stamp.equality platform_file_id.equality)
  ultimately show ?thesis by simp
qed

lemma reads_state_with_mode:
  assumes "state_storable meta s"
  shows "decodes (decode_state_with_mode meta) (encode_state_plan s) s"
proof (cases "content s")
  case None
  then have s: "kind s = Directory" "nsize s = 0" "directory_state (mode s) = s"
    using assms by (auto simp: state_storable_def directory_state_def)
  show ?thesis
    unfolding decode_state_with_mode_def encode_state_plan_def
    apply (rule reads_intros decode_kind_tag)+
    using None s by (simp del: opS_apply add: reads_returnS reads_tag)
next
  case (Some c)
  show ?thesis
  proof (cases c)
    case (Blob b)
    then have k: "kind s \<noteq> Directory" using assms Some by (simp add: state_storable_def)
    have st: "kind s = File \<Longrightarrow> file_state b (nsize s) (mode s) = s"
      "kind s = Symlink \<Longrightarrow> symlink_state b (nsize s) (mode s) = s"
      using Some Blob by (simp_all add: file_state_def symlink_state_def)
    show ?thesis
      unfolding decode_state_with_mode_def encode_state_plan_def
      apply (rule reads_intros decode_kind_tag)+
      using k st Some Blob
      by (cases "kind s") (auto simp del: opS_apply intro!: reads_tag reads_bindS_last[OF reads_digest])
  next
    case (Stamp st)
    have "stamp_kind st = kind s" "stamp_size st = nsize s" "with_mode (from_stamp st) (mode s) = s"
      "stamp_mode st = mode s \<or> meta \<and> kind s = File \<and> mode s AND NOT 0x1FF = 0"
      using assms Some Stamp by (auto simp: state_storable_def with_mode_def from_stamp_def)
    then show ?thesis
      unfolding decode_state_with_mode_def encode_state_plan_def
      apply -
      apply (rule reads_intros decode_kind_tag)+
      using Some Stamp
      by (auto simp del: opS_apply intro!: reads_tag reads_bindS_last[OF reads_stamp])
  qed
qed

lemmas reads_state = reads_state_with_mode[of False, folded decode_state_def]

text \<open>Node states implement the interface of self-delimiting codecs.\<close>

definition run_decoder :: "'a decoder \<Rightarrow> bytes \<Rightarrow> plan_decode_error + 'a \<times> bytes" where
  "run_decoder m bs = (case m \<lparr>rd_bytes = bs, rd_offset = 0\<rparr> of
     (Inl e, _) \<Rightarrow> Err e | (Inr a, r) \<Rightarrow> Ok (a, drop (rd_offset r) (rd_bytes r)))"

lemma run_decoder_decodes:
  "decodes m x a \<Longrightarrow> length (x @ rest) < 2 ^ 64 \<Longrightarrow> run_decoder m (x @ rest) = Ok (a, rest)"
  by (simp add: reads_in_def run_decoder_def)

lemma encode_state_short: "length (encode_state_plan s) < 2 ^ 64"
  by (simp add: encode_state_plan_def encode_stamp_plan_def split: option.split content_version.split)

interpretation state_code: codec encode_state_plan "run_decoder decode_state" "state_storable False"
  by unfold_locales (rule run_decoder_decodes[OF reads_state], assumption+, rule encode_state_short)

lemma reads_optional_state:
  "(\<And>t. s = Some t \<Longrightarrow> state_storable meta t) \<Longrightarrow>
     decodes (decode_optional_state meta) (encode_optional_state_plan s) s"
  unfolding decode_optional_state_def encode_optional_state_plan_def
  by (cases s) (auto simp del: opS_apply
      intro!: reads_tag reads_returnS reads_bindS_last[OF reads_state_with_mode])

lemma reads_path:
  assumes "path_storable max_path p" "encode_path_plan p = Ok bs"
  shows "decodes (decode_path_plan max_path) bs p"
proof -
  have p: "parse (as_str p) = Ok p" "utf8_ok (str_bytes (as_str p))" "length (as_str p) \<le> max_path"
      "length (as_str p) < 2 ^ 32"
    using assms(1) by (simp_all add: path_storable_def)
  have len: "unat (word_of_nat (length (as_str p)) :: u32) = length (as_str p)"
    using p(4) by (simp add: unat_of_nat take_bit_nat_eq_self)
  have bs: "bs = u32_bytes (of_nat (length (as_str p))) @ str_bytes (as_str p)"
    using assms(2) p(4) by (simp add: encode_path_plan_def Let_def)
  show ?thesis
    unfolding decode_path_plan_def bs
    apply (rule reads_bindS[OF reads_u32])
    using p len
    by (auto simp del: opS_apply intro!: reads_bindS[of _ _ _ "str_bytes (as_str p)" _ "[]", simplified] reads_take reads_liftS)
qed

section \<open>Whole plans\<close>

lemma reads_path_then:
  "path_storable n p \<Longrightarrow> encode_path_plan p = Ok bs \<Longrightarrow> decodes (f p) y b \<Longrightarrow>
     decodes (bindS (decode_path_plan n) f) (bs @ y) b"
  by (rule reads_bindS[OF reads_path])

lemma reads_operation:
  assumes "operation_storable n opn" "encode_operation opn = Ok bs"
  shows "decodes (decode_operation n) bs opn"
proof -
  have word: "decodes (bindS rd_u32 (\<lambda>w. returnS (g w))) (u32_bytes v) (g v)" for g :: "u32 \<Rightarrow> operation" and v
    by (rule reads_bindS_last[OF reads_u32]) (rule refl)
  note rules = reads_tag reads_path_then reads_bindS[OF reads_state] reads_bindS_last[OF reads_state] word
  show ?thesis
    using assms unfolding decode_operation_def
    by (cases opn) (auto simp del: opS_apply simp: bindR_Inr_iff intro!: rules
      reads_bindS_last[OF reads_u32])
qed

lemma reads_final:
  assumes "path_storable n (fst f)" "\<And>t. snd f = Some t \<Longrightarrow> state_storable v2 t" "encode_final f = Ok bs"
  shows "decodes (decode_final n v2) bs f"
proof -
  obtain p s where f: "f = (p, s)" by (cases f)
  obtain x where x: "encode_path_plan p = Ok x" "bs = x @ encode_optional_state_plan s"
    using assms(3) by (auto simp: encode_final_def f bindR_Inr_iff)
  show ?thesis
    unfolding decode_final_def x(2) f
    by (rule reads_path_then[OF _ x(1)]) (use assms f in \<open>auto intro!: reads_bindS_last[OF reads_optional_state]\<close>)
qed

lemma encode_all_list_all2:
  "encode_all enc xs = Ok bs \<Longrightarrow> \<exists>yss. bs = concat yss \<and> list_all2 (\<lambda>y x. enc x = Ok y) yss xs"
proof (induction xs arbitrary: bs)
  case Nil
  then show ?case by (intro exI[of _ "[]"]) simp
next
  case (Cons x xs)
  then obtain y ys where "enc x = Ok y" "encode_all enc xs = Ok ys" "bs = y @ ys"
    by (auto simp: bindR_Inr_iff)
  moreover obtain yss where "ys = concat yss" "list_all2 (\<lambda>y x. enc x = Ok y) yss xs"
    using Cons.IH calculation(2) by blast
  ultimately show ?case by (intro exI[of _ "y # yss"]) simp
qed

lemma reads_encode_all:
  assumes "encode_all enc xs = Ok bs" "\<And>x y. x \<in> set xs \<Longrightarrow> enc x = Ok y \<Longrightarrow> decodes m y x"
  shows "decodes (rd_many (length xs) m) bs xs"
proof -
  obtain yss where y: "bs = concat yss" "list_all2 (\<lambda>y x. enc x = Ok y) yss xs"
    using encode_all_list_all2[OF assms(1)] by blast
  have "list_all2 (decodes m) yss xs"
    by (rule list.rel_mono_strong[OF y(2)]) (use assms(2) in blast)
  then show ?thesis unfolding y(1) by (rule reads_many)
qed

text \<open>What the plan file can hold under the limits of recovery.\<close>

definition plan_storable :: "nat \<Rightarrow> nat \<Rightarrow> prepared_plan \<Rightarrow> bool" where
  "plan_storable max_operations max_path pr \<longleftrightarrow>
     length (pp_operations pr) \<le> max_operations \<and>
     list_all (operation_storable max_path) (pp_operations pr) \<and>
     list_all (\<lambda>(p, s). path_storable max_path p \<and>
       (case s of None \<Rightarrow> True
        | Some t \<Rightarrow> state_storable (list_ex is_set_file_mode (pp_operations pr)) t)) (pp_final_states pr)"

text \<open>The same when the bytes are the rest of the file.\<close>

abbreviation finishes :: "'a decoder \<Rightarrow> bytes \<Rightarrow> plan_decode_error + 'a \<Rightarrow> bool" where
  "finishes \<equiv> ends_in (\<lambda>_. True)"

lemma finishes_empty: "finishes (bindS (getS rd_is_empty) (\<lambda>empty. if \<not> empty then failS e else returnS a)) [] (Ok a)"
  by (auto simp: ends_in_def bindS_def rd_is_empty_def)

lemma finishes_counted:
  assumes "length xs < 2 ^ 32" "length xs \<le> k" "decodes (rd_many (length xs) m) ys xs"
    "finishes (f xs) zs res"
  shows "finishes (bindS rd_u32 (\<lambda>count. if k < unat count then failS PD_Limit
      else bindS (rd_many (unat count) m) f)) (u32_bytes (word_of_nat (length xs)) @ ys @ zs) res"
proof -
  have "unat (word_of_nat (length xs) :: u32) = length xs"
    using assms(1) by (simp add: unat_of_nat take_bit_nat_eq_self)
  then show ?thesis
    using assms(2,4)
    by (intro ends_bindS[OF reads_u32]) (simp add: ends_bindS[where a = xs, OF assms(3)])
qed

lemma finishes_limit:
  assumes "length xs < 2 ^ 32" "k < length xs"
  shows "finishes (bindS rd_u32 (\<lambda>count. if k < unat count then failS PD_Limit else f count))
      (u32_bytes (word_of_nat (length xs)) @ ys) (Err PD_Limit)"
proof -
  have "unat (word_of_nat (length xs) :: u32) = length xs"
    using assms(1) by (simp add: unat_of_nat take_bit_nat_eq_self)
  then show ?thesis
    using assms(2) by (intro ends_bindS[OF reads_u32]) (simp add: ends_in_def)
qed

lemma finishes_body:
  fixes pr :: prepared_plan
  defines "magic \<equiv> if list_ex is_set_file_mode (pp_operations pr) then plan_magic_v2 else plan_magic"
  assumes st: "plan_storable n k pr" and small: "n < 2 ^ 32" "length (pp_final_states pr) < 2 ^ 32"
    and ops: "encode_all encode_operation (pp_operations pr) = Ok ops"
    and finals: "encode_all encode_final (pp_final_states pr) = Ok finals"
  shows "finishes (decode_body n k)
    (magic @ as_bytes (pp_transaction pr) @ as_bytes (pp_base_snapshot pr) @
      u32_bytes (of_nat (length (pp_operations pr))) @ ops @
      u32_bytes (of_nat (length (pp_final_states pr))) @ finals @ [])
    (if length (pp_final_states pr) \<le> n then Ok pr else Err PD_Limit)"
proof -
  have two: "plan_magic \<noteq> plan_magic_v2" "length magic = 8" "magic \<in> {plan_magic, plan_magic_v2}"
    by (auto simp: magic_def plan_magic_def plan_magic_v2_def str_bytes_def)
  have m: "magic = plan_magic_v2 \<longleftrightarrow> list_ex is_set_file_mode (pp_operations pr)"
    using two(1) by (simp add: magic_def)
  have ro: "decodes (rd_many (length (pp_operations pr)) (bindS (decode_operation k) (\<lambda>opn.
      if magic = plan_magic \<and> is_set_file_mode opn then failS PD_Tag else returnS opn)))
      ops (pp_operations pr)"
  proof (rule reads_encode_all[OF ops], rule reads_bindS_last, rule reads_operation)
    fix x y
    assume x: "x \<in> set (pp_operations pr)" "encode_operation x = Ok y"
    show "operation_storable k x" using st x(1) by (simp add: plan_storable_def list_all_iff)
    show "encode_operation x = Ok y" by (fact x(2))
    have "\<not> (magic = plan_magic \<and> is_set_file_mode x)"
      using x(1) m two by (auto simp: list_ex_iff)
    then show "(if magic = plan_magic \<and> is_set_file_mode x then failS PD_Tag else returnS x) = returnS x"
      by (rule if_not_P)
  qed
  have rf: "decodes (rd_many (length (pp_final_states pr)) (decode_final k (magic = plan_magic_v2)))
      finals (pp_final_states pr)"
  proof (rule reads_encode_all[OF finals], rule reads_final)
    fix x y
    assume x: "x \<in> set (pp_final_states pr)" "encode_final x = Ok y"
    show "path_storable k (fst x)" using st x(1) by (auto simp: plan_storable_def list_all_iff)
    show "encode_final x = Ok y" by (fact x(2))
    show "state_storable (magic = plan_magic_v2) t" if "snd x = Some t" for t
      using st x(1) that by (cases x) (auto simp: m plan_storable_def list_all_iff)
  qed
  have magic_ok: "\<not> (magic \<noteq> plan_magic \<and> magic \<noteq> plan_magic_v2)" using two(3) by blast
  have len: "length (pp_operations pr) \<le> n" "length (pp_operations pr) < 2 ^ 32"
    using st small by (simp_all add: plan_storable_def)
  have pr: "\<lparr>pp_transaction = pp_transaction pr, pp_base_snapshot = pp_base_snapshot pr,
      pp_operations = pp_operations pr, pp_final_states = pp_final_states pr\<rparr> = pr" by simp
  have tail: "finishes (bindS rd_u32 (\<lambda>final_count.
      if n < unat final_count then failS PD_Limit
      else bindS (rd_many (unat final_count) (decode_final k (magic = plan_magic_v2))) (\<lambda>finals.
        bindS (getS rd_is_empty) (\<lambda>empty. if \<not> empty then failS PD_TrailingBytes
          else returnS \<lparr>pp_transaction = pp_transaction pr, pp_base_snapshot = pp_base_snapshot pr,
            pp_operations = pp_operations pr, pp_final_states = finals\<rparr>))))
      (u32_bytes (of_nat (length (pp_final_states pr))) @ finals @ [])
      (if length (pp_final_states pr) \<le> n then Ok pr else Err PD_Limit)"
  proof (cases "length (pp_final_states pr) \<le> n")
    case True
    have "finishes (bindS (getS rd_is_empty) (\<lambda>empty. if \<not> empty then failS PD_TrailingBytes
          else returnS \<lparr>pp_transaction = pp_transaction pr, pp_base_snapshot = pp_base_snapshot pr,
            pp_operations = pp_operations pr, pp_final_states = pp_final_states pr\<rparr>)) [] (Ok pr)"
      unfolding pr by (rule finishes_empty)
    then show ?thesis unfolding if_P[OF True] by (intro finishes_counted[OF small(2) True rf])
  next
    case False
    then have "n < length (pp_final_states pr)" by simp
    then show ?thesis unfolding if_not_P[OF False] by (intro finishes_limit[OF small(2)])
  qed
  show ?thesis
    unfolding decode_body_def
    apply (rule ends_bindS[OF reads_take[OF two(2)]])
    apply (subst if_not_P[OF magic_ok])
    apply (rule ends_bindS[OF reads_digest])+
    apply (rule finishes_counted[OF len(2,1) ro])
    apply (rule tail)
    done
qed

lemma plan_digest_length [simp]: "length (plan_digest blake3 bs) = 32"
  by (simp add: plan_digest_def)

lemma decode_encode_plan:
  assumes "encode_plan blake3 pr = Ok bs" "plan_storable n k pr" "n < 2 ^ 32" "length bs < 2 ^ 64"
  shows "decode_plan blake3 bs n k = (if length (pp_final_states pr) \<le> n then Ok pr else Err PD_Limit)"
proof -
  have few: "length (pp_final_states pr) < 2 ^ 32"
    using assms(1) by (simp add: encode_plan_def split: if_splits)
  obtain ops finals where e: "encode_all encode_operation (pp_operations pr) = Ok ops"
      "encode_all encode_final (pp_final_states pr) = Ok finals"
    using assms(1) by (auto simp: encode_plan_def bindR_Inr_iff split: if_splits)
  define body where "body = (if list_ex is_set_file_mode (pp_operations pr) then plan_magic_v2 else plan_magic) @
      as_bytes (pp_transaction pr) @ as_bytes (pp_base_snapshot pr) @
      u32_bytes (of_nat (length (pp_operations pr))) @ ops @
      u32_bytes (of_nat (length (pp_final_states pr))) @ finals @ []"
  have bs: "bs = body @ plan_digest blake3 body"
    using assms(1) e by (simp add: encode_plan_def body_def bindR_def Let_def split: if_splits)
  have "8 \<le> length body" by (simp add: body_def plan_magic_def plan_magic_v2_def)
  moreover have "fst (decode_body n k \<lparr>rd_bytes = body, rd_offset = 0\<rparr>) =
      (if length (pp_final_states pr) \<le> n then Ok pr else Err PD_Limit)"
    using finishes_body[OF assms(2,3) few e] assms(4) unfolding body_def[symmetric] ends_in_def bs by simp
  ultimately show ?thesis by (simp add: decode_plan_def bs)
qed

end
