(* ===== verification/PlanStored.thy ===== *)
theory PlanStored
  imports PlanTree PlanCodec
begin

text \<open>
  What the commit writes is what recovery reads: a plan accepted by \<open>CommitPlan::new\<close> and lowered by
  \<open>PreparedPlan::prepare\<close> satisfies the conditions of the plan file's round trip, up to the limits
  that \<open>decode\<close> applies to the final states and \<open>prepare\<close> does not.
\<close>

section \<open>Prepared operations can be stored\<close>

lemma state_storable_mono: "state_storable False s \<Longrightarrow> state_storable m s"
  by (auto simp: state_storable_def split: option.splits content_version.splits)

lemma directory_state_storable [simp]: "state_storable m (directory_state w)"
  by (simp add: state_storable_def directory_state_def)

text \<open>What the checks of a plan leave of an entry, for states that are coherent in themselves.\<close>

definition entry_good :: "nat \<Rightarrow> (vpath, write_precondition) btree \<Rightarrow> diff_entry \<Rightarrow> bool" where
  "entry_good k writes e \<longleftrightarrow> path_storable k (entry_path e) \<and>
     (\<forall>x. expected_at writes (entry_path e) = Some x \<longrightarrow> state_storable False x \<and>
        (\<exists>b. entry_before e = Some b \<and> kind b = kind x)) \<and>
     (\<forall>a. entry_after e = Some a \<longrightarrow> state_storable True a \<and>
        (kind a = Directory \<or> state_storable False a \<or>
         is_some_and (entry_before e) (\<lambda>b. kind b = File \<and> content_equivalent b a)) \<and>
        (is_some_and (entry_before e) (\<lambda>b. content_equivalent b a) \<longrightarrow> kind a = File \<longrightarrow>
          mode a AND NOT 0x1FF = 0))"

lemma check_plan_entries_all:
  "check_plan_entries reads writes reserved es = Inr () \<longleftrightarrow>
     (\<forall>e \<in> set es. check_plan_entry reads writes reserved e = Inr ())"
  by (induction es) (auto simp: bindR_Inr_iff)

lemma check_plan_entryD:
  assumes "check_plan_entry reads writes reserved e = Inr ()"
  obtains pre where "map_of writes (entry_path e) = Some pre"
    "wp_expected pre = entry_before e \<or> materialized_stamp (wp_expected pre) (entry_before e)"
    "\<not> unmaterialized_after e" "unsupported_mode e = None"
  using assms by (auto simp: check_plan_entry_def Let_def split: if_splits option.splits)

lemma blob_storable: "is_blob a \<Longrightarrow> state_storable True a \<Longrightarrow> state_storable False a"
  by (auto simp: is_blob_def state_storable_def split: option.splits content_version.splits)

lemma content_equivalent_eq: "content_equivalent b a \<Longrightarrow> mode b = mode a \<Longrightarrow> b = a"
  by (auto simp: content_equivalent_def)

lemma checked_entry_good:
  assumes chk: "check_plan_entry reads writes reserved e = Inr ()"
    and path: "path_storable k (entry_path e)" and change: "entry_before e \<noteq> entry_after e"
    and after: "\<And>a. entry_after e = Some a \<Longrightarrow> state_storable True a"
    and writes: "\<And>x. expected_at writes (entry_path e) = Some x \<Longrightarrow> state_storable False x"
  shows "entry_good k writes e"
proof -
  obtain pre where pre: "map_of writes (entry_path e) = Some pre"
    "wp_expected pre = entry_before e \<or> materialized_stamp (wp_expected pre) (entry_before e)"
    and un: "\<not> unmaterialized_after e" and um: "unsupported_mode e = None"
    by (rule check_plan_entryD[OF chk])
  have "\<exists>b. entry_before e = Some b \<and> kind b = kind x" if "expected_at writes (entry_path e) = Some x" for x
    using that pre by (auto simp: expected_at_def materialized_stamp_def split: option.splits)
  moreover have "kind a = Directory \<or> state_storable False a \<or>
      is_some_and (entry_before e) (\<lambda>b. kind b = File \<and> content_equivalent b a)"
    if a: "entry_after e = Some a" for a
    using un a blob_storable[OF _ after[OF a]]
    by (auto simp: unmaterialized_after_def is_some_and_def[of "Some a"])
  moreover have "mode a AND NOT 0x1FF = 0"
    if a: "entry_after e = Some a" "is_some_and (entry_before e) (\<lambda>b. content_equivalent b a)" for a
  proof -
    obtain b where b: "entry_before e = Some b" "content_equivalent b a"
      using a(2) by (auto simp: is_some_and_def split: option.splits)
    then have "mode b \<noteq> mode a" using change a(1) content_equivalent_eq by metis
    then show ?thesis using um a(1) b(1) by (simp add: unsupported_mode_def is_some_and_def split: if_splits)
  qed
  ultimately show ?thesis using path after writes by (simp add: entry_good_def)
qed

lemma kept_file:
  "is_some_and x (\<lambda>b. kind b = File \<and> content_equivalent b a) \<Longrightarrow>
     kind a = File \<and> is_some_and x (\<lambda>b. content_equivalent b a)"
  by (auto simp: is_some_and_def content_equivalent_def split: option.splits)

lemma good_operations:
  assumes "entry_good k writes e"
  shows "entry_after e = Some a \<Longrightarrow> kind a = File \<Longrightarrow> is_some_and (entry_before e) (\<lambda>b. content_equivalent b a) \<Longrightarrow>
      expected_at writes (entry_path e) = Some x \<Longrightarrow> operation_storable k (SetFileMode (entry_path e) x (mode a))"
    and "entry_after e = Some a \<Longrightarrow> kind a \<noteq> Directory \<Longrightarrow>
      \<not> (kind a = File \<and> is_some_and (entry_before e) (\<lambda>b. content_equivalent b a)) \<Longrightarrow>
      path_storable k (entry_path e) \<and> state_storable False a"
    and "expected_at writes (entry_path e) = Some x \<Longrightarrow> path_storable k (entry_path e) \<and> state_storable False x"
  using assms
  by (auto simp: entry_good_def is_some_and_def content_equivalent_def split: option.splits)

lemma lower_entries_storable:
  "lower_entries writes es slot = Inr l \<Longrightarrow> \<forall>e \<in> set es. entry_good k writes e \<Longrightarrow>
     list_all (operation_storable k) (lo_operations l) \<and> list_all (operation_storable k) (lo_access l) \<and>
     list_all (operation_storable k) (lo_modes l)"
proof (induction es arbitrary: slot l)
  case (Cons e es)
  have good: "entry_good k writes e" using Cons.prems by simp
  have IH: "lower_entries writes es sl = Inr l' \<Longrightarrow>
      list_all (operation_storable k) (lo_operations l') \<and> list_all (operation_storable k) (lo_access l') \<and>
      list_all (operation_storable k) (lo_modes l')" for sl l'
    using Cons.IH Cons.prems(2) by simp
  show ?case
  proof (cases "entry_after e")
    case None
    then show ?thesis using Cons.prems(1) IH by simp
  next
    case (Some a)
    note run = Cons.prems(1)[unfolded lower_entries.simps Some option.case]
    show ?thesis
    proof (cases "kind a")
      case File
      show ?thesis
      proof (cases "is_some_and (entry_before e) (\<lambda>b. content_equivalent b a)")
        case True
        then obtain x l' where "expected_at writes (entry_path e) = Some x" "lower_entries writes es slot = Inr l'"
          "l = l'\<lparr>lo_operations := SetFileMode (entry_path e) x (mode a) # lo_operations l'\<rparr>"
          using run File by (auto simp: bindR_Inr_iff)
        then show ?thesis using IH good_operations(1)[OF good Some File True] by simp
      next
        case False
        then obtain sl l' where "lower_entries writes es sl = Inr l'"
          "l = l'\<lparr>lo_operations := InstallFile (entry_path e) a slot # lo_operations l'\<rparr>"
          using run File by (auto simp: bindR_Inr_iff)
        then show ?thesis using IH good_operations(2)[OF good Some] File False by simp
      qed
    next
      case Symlink
      then obtain sl l' where "lower_entries writes es sl = Inr l'"
        "l = l'\<lparr>lo_operations := InstallSymlink (entry_path e) a slot # lo_operations l'\<rparr>"
        using run by (auto simp: bindR_Inr_iff)
      then show ?thesis using IH good_operations(2)[OF good Some] Symlink by simp
    next
      case Directory
      show ?thesis
        using run Directory IH good_operations(3)[OF good]
        by (auto simp: bindR_Inr_iff Let_def split: option.splits if_splits)
    qed
  qed
qed simp

lemma quarantine_operations_storable:
  "quarantine_operations writes ps slot = Inr (ops, s) \<Longrightarrow>
   \<forall>p \<in> set ps. path_storable k p \<and> (\<forall>x. expected_at writes p = Some x \<longrightarrow> state_storable False x) \<Longrightarrow>
   list_all (operation_storable k) ops"
  by (induction ps arbitrary: slot ops) (auto simp: bindR_Inr_iff)

lemma created_directories_storable:
  "\<forall>e \<in> set es. path_storable k (entry_path e) \<Longrightarrow>
   \<forall>(p, a) \<in> set (created_directories es). operation_storable k (CreateDirectory p a)"
  by (auto simp: created_directories_def split: option.splits if_splits)

lemma set_destructive_entry: "p \<in> set (destructive_roots es) \<Longrightarrow> \<exists>e \<in> set es. entry_path e = p"
  using set_destructive_roots destructive_pathsE by (metis subset_iff)

lemma prepared_storable:
  assumes prep: "prepare blake3 plan n k = Inr pr" and es: "es = cd_entries (pl_diff plan)"
    and good: "\<forall>e \<in> set es. entry_good k (pl_write_set plan) e"
  shows "plan_storable n k pr"
proof -
  obtain quars slot l where ops: "pp_operations pr = by_depth op_path (lo_access l) @ quars @
       (map (\<lambda>(p, a). CreateDirectory p a) (by_depth fst (created_directories es)) @
        lo_operations l @ by_depth_down op_path (lo_modes l))"
    and finals: "pp_final_states pr = map final_entry es"
    and l: "lower_entries (pl_write_set plan) es slot = Inr l" and lok: "lowered_ok es l"
    and q: "quarantine_operations (pl_write_set plan) (destructive_roots es) 0 = Inr (quars, slot)"
    using prepare_parts[OF prep es] by metis
  have len: "length (pp_operations pr) \<le> n"
    using prep by (auto simp: prepare_def bindR_Inr_iff Let_def split: if_splits option.splits)
  have qs: "list_all (operation_storable k) quars"
  proof (rule quarantine_operations_storable[OF q], intro ballI)
    fix p assume "p \<in> set (destructive_roots es)"
    then obtain e where "e \<in> set es" "entry_path e = p" using set_destructive_entry by blast
    then show "path_storable k p \<and> (\<forall>x. expected_at (pl_write_set plan) p = Some x \<longrightarrow> state_storable False x)"
      using good by (auto simp: entry_good_def)
  qed
  have dirs: "\<forall>(p, a) \<in> set (created_directories es). operation_storable k (CreateDirectory p a)"
    using good by (intro created_directories_storable) (simp add: entry_good_def)
  have all: "list_all (operation_storable k) (pp_operations pr)"
    unfolding ops using lower_entries_storable[OF l good] qs dirs by (auto simp: list_all_iff)
  have fin: "state_storable (list_ex is_set_file_mode (pp_operations pr)) s"
    if e: "e \<in> set es" "snd (final_entry e) = Some s" for e s
  proof -
    obtain a where a: "entry_after e = Some a" "s = (if kind a = Directory then directory_state (mode a) else a)"
      using e(2) by (auto simp: final_entry_def)
    consider "kind a = Directory" | "state_storable False a" |
      "kind a = File" "is_some_and (entry_before e) (\<lambda>b. content_equivalent b a)"
      using good e(1) a(1) kept_file unfolding entry_good_def by metis
    then show ?thesis
    proof cases
      case 3
      then have "entry_class e = FileMode" using a(1) by (simp add: entry_class_def)
      then obtain opn where "opn \<in> set (lo_operations l)" "lowers e opn"
        using lower_all_entry[of _ es "lo_operations l" e] lok e(1) unfolding lowered_ok_def by blast
      moreover have "is_set_file_mode opn"
        using calculation(2) \<open>entry_class e = FileMode\<close> by (cases opn) (simp_all add: is_set_file_mode_def)
      ultimately have "list_ex is_set_file_mode (pp_operations pr)" by (auto simp: ops list_ex_iff)
      moreover have "state_storable True a" using good e(1) a(1) by (simp add: entry_good_def)
      ultimately show ?thesis using 3 a(2) by simp
    qed (use a(2) state_storable_mono in auto)
  qed
  have "path_storable k (fst (final_entry e))" if "e \<in> set es" for e
    using good that by (simp add: entry_good_def final_entry_def)
  with fin all len show ?thesis
    by (auto simp: plan_storable_def finals list_all_iff split: option.splits) (metis snd_conv fst_conv)+
qed

lemma prepared_plan_recoverable:
  assumes new: "commit_plan_new blake3 binding d reads writes = Inr plan"
    and prep: "prepare blake3 plan n k = Inr pr" and enc: "encode_plan blake3 pr = Inr bs"
    and paths: "\<forall>e \<in> set (cd_entries d). path_storable k (entry_path e)"
    and change: "\<forall>e \<in> set (cd_entries d). entry_before e \<noteq> entry_after e"
    and after: "\<forall>e \<in> set (cd_entries d). \<forall>a. entry_after e = Some a \<longrightarrow> state_storable True a"
    and expected: "\<forall>(p, pre) \<in> set writes. \<forall>x. wp_expected pre = Some x \<longrightarrow> state_storable False x"
    and bounds: "n < 2 ^ 32" "length bs < 2 ^ 64"
  shows "decode_plan blake3 bs n k = (if length (cd_entries d) \<le> n then Inr pr else Inl PD_Limit)"
proof -
  obtain reserved where chk: "\<forall>e \<in> set (cd_entries d). check_plan_entry reads writes reserved e = Inr ()"
    and plan: "pl_diff plan = d" "pl_write_set plan = writes"
    using new by (auto simp: commit_plan_new_def bindR_Inr_iff check_plan_entries_all
        split: if_splits sum.splits)
  have ex: "state_storable False x" if "expected_at writes p = Some x" for p x
    using that expected by (fastforce simp: expected_at_def dest!: map_of_SomeD split: bind_splits)
  have "\<forall>e \<in> set (cd_entries d). entry_good k writes e"
  proof
    fix e assume e: "e \<in> set (cd_entries d)"
    show "entry_good k writes e"
      by (rule checked_entry_good[of reads writes reserved]) (use e chk paths change after ex in auto)
  qed
  then have "plan_storable n k pr" using prepared_storable[OF prep refl] plan by simp
  moreover have "length (pp_final_states pr) = length (cd_entries d)"
    using prepare_parts[OF prep refl] plan(1) by (metis length_map)
  ultimately show ?thesis using decode_encode_plan[OF enc _ bounds] by simp
qed

end
