(* ===== verification/Journal.thy ===== *)
theory Journal
  imports Persist PlanCodec
begin

text \<open>
  The operation journal and the commit marker (\<open>crates/vsh-commit/src/journal.rs\<close>).  A journal is
  its bytes: a header, then frames of length, payload and checksum; appending a record adds its
  frame, and a crash leaves a prefix.  Replay checks the strict sequence of intents and completions.
\<close>

section \<open>Witnesses\<close>

record witness =
  wit_kind :: node_kind
  wit_file_id :: platform_file_id

definition witness_of :: "file_stamp \<Rightarrow> witness" where
  "witness_of st = \<lparr>wit_kind = stamp_kind st, wit_file_id = file_id st\<rparr>"

definition encode_witness :: "witness \<Rightarrow> bytes" where
  "encode_witness w = canonical_tag (wit_kind w) # u64_bytes (high (wit_file_id w)) @ u64_bytes (low (wit_file_id w))"

datatype journal_error = JIo | JMagic | JRecordLength | JChecksum | JSequence | JTag | JMarker

definition decode_witness_at :: "bytes \<Rightarrow> nat \<Rightarrow> journal_error + witness" where
  "decode_witness_at payload offset =
     (if length payload < offset + 17 then Err JRecordLength
      else let bytes = slice offset (offset + 17) payload in
        bindR (if bytes ! 0 = 1 then Ok File else if bytes ! 0 = 2 then Ok Directory
               else if bytes ! 0 = 3 then Ok Symlink else Err JTag) (\<lambda>k.
        Ok \<lparr>wit_kind = k, wit_file_id = \<lparr>high = le_word (slice 1 9 bytes), low = le_word (slice 9 17 bytes)\<rparr>\<rparr>))"

definition decode_witness :: "bytes \<Rightarrow> journal_error + witness" where
  "decode_witness payload = decode_witness_at payload 5"

record intent_witnesses =
  iw_source :: "witness option"
  iw_parent :: "witness option"

definition decode_intent_witnesses :: "bytes \<Rightarrow> journal_error + intent_witnesses" where
  "decode_intent_witnesses payload =
     (let flags = payload ! 5 in
      if flags AND NOT 3 \<noteq> 0 \<or> flags AND 2 = 0 then Err JTag
      else bindR (if flags AND 1 = 1
                  then bindR (decode_witness_at payload 6) (\<lambda>w. Ok (Some w, 6 + 17))
                  else Ok (None, 6)) (\<lambda>(source, offset).
        bindR (decode_witness_at payload offset) (\<lambda>w.
        if offset + 17 \<noteq> length payload then Err JRecordLength
        else Ok \<lparr>iw_source = source, iw_parent = Some w\<rparr>)))"

section \<open>Writing\<close>

definition journal_magic :: bytes where "journal_magic = str_bytes ''VSHLOG01''"
definition journal_magic_v2 :: bytes where "journal_magic_v2 = str_bytes ''VSHLOG02''"
definition marker_magic :: bytes where "marker_magic = str_bytes ''VSHDONE1''"
definition max_record_payload :: nat where "max_record_payload = 128"

definition record_digest :: "(bytes \<Rightarrow> digest) \<Rightarrow> bytes \<Rightarrow> bytes" where
  "record_digest blake3 payload = as_bytes (blake3
     (str_bytes ''vsh'' @ [0] @ str_bytes ''commit-journal-record-v1'' @ [0] @
      u64_bytes (len64 payload) @ payload))"

text \<open>The bytes an append writes: length, payload, checksum.\<close>

definition journal_frame :: "(bytes \<Rightarrow> digest) \<Rightarrow> bytes \<Rightarrow> bytes" where
  "journal_frame blake3 payload =
     u32_bytes (word_of_nat (length payload)) @ payload @ record_digest blake3 payload"

definition journal_create :: "bool \<Rightarrow> bytes" where
  "journal_create meta = (if meta then journal_magic_v2 else journal_magic)"

definition append_record :: "(bytes \<Rightarrow> digest) \<Rightarrow> bytes \<Rightarrow> (bytes, journal_error, unit) op" where
  "append_record blake3 payload =
     (if 2 ^ 32 \<le> length payload then failS JIo
      else modifyS (\<lambda>file. file @ journal_frame blake3 payload))"

definition intent_payload :: "u32 \<Rightarrow> witness option \<Rightarrow> witness \<Rightarrow> bytes" where
  "intent_payload index source par =
     1 # u32_bytes index @ [(if source = None then 0 else 1) OR 2] @
     (case source of None \<Rightarrow> [] | Some w \<Rightarrow> encode_witness w) @ encode_witness par"

definition done_payload :: "u32 \<Rightarrow> witness \<Rightarrow> bytes" where
  "done_payload index w =
     2 # u32_bytes index @ canonical_tag (wit_kind w) # u64_bytes (high (wit_file_id w)) @ u64_bytes (low (wit_file_id w))"

definition metadata_payload :: "u32 \<Rightarrow> file_stamp \<Rightarrow> bytes" where
  "metadata_payload index st =
     3 # u32_bytes index @ encode_witness (witness_of st) @ u64_bytes (stamp_size st) @
     u32_bytes (stamp_mode st) @ i128_bytes (mtime_ns st) @
     [if ctime_ns st = None then 0 else 1] @ (case ctime_ns st of None \<Rightarrow> [] | Some c \<Rightarrow> i128_bytes c)"

definition journal_intent ::
    "(bytes \<Rightarrow> digest) \<Rightarrow> u32 \<Rightarrow> witness option \<Rightarrow> witness \<Rightarrow> (bytes, journal_error, unit) op" where
  "journal_intent blake3 index source par = append_record blake3 (intent_payload index source par)"

definition journal_done :: "(bytes \<Rightarrow> digest) \<Rightarrow> u32 \<Rightarrow> witness \<Rightarrow> (bytes, journal_error, unit) op" where
  "journal_done blake3 index w = append_record blake3 (done_payload index w)"

definition journal_metadata_done ::
    "(bytes \<Rightarrow> digest) \<Rightarrow> u32 \<Rightarrow> file_stamp \<Rightarrow> (bytes, journal_error, unit) op" where
  "journal_metadata_done blake3 index st = append_record blake3 (metadata_payload index st)"

section \<open>Replay\<close>

record journal_state =
  js_completed :: "(u32, witness) btree"
  js_metadata :: "(u32, file_stamp) btree"
  js_intents :: "(u32, intent_witnesses) btree"
  js_pending :: "u32 option"
  js_torn_tail :: bool

definition empty_journal :: journal_state where
  "empty_journal = \<lparr>js_completed = [], js_metadata = [], js_intents = [], js_pending = None, js_torn_tail = False\<rparr>"

definition has_intent :: "journal_state \<Rightarrow> u32 \<Rightarrow> bool" where
  "has_intent st i = bt_contains (js_intents st) i"

definition witness_at :: "journal_state \<Rightarrow> u32 \<Rightarrow> witness option" where
  "witness_at st i = map_of (js_completed st) i"

definition intent_witness :: "journal_state \<Rightarrow> u32 \<Rightarrow> witness option" where
  "intent_witness st i = Option.bind (map_of (js_intents st) i) iw_source"

definition parent_witness :: "journal_state \<Rightarrow> u32 \<Rightarrow> witness option" where
  "parent_witness st i = Option.bind (map_of (js_intents st) i) iw_parent"

definition complete_record :: "journal_state \<Rightarrow> u32 \<Rightarrow> witness \<Rightarrow> journal_state" where
  "complete_record st i w = st\<lparr>js_completed := bt_insert i w (js_completed st), js_pending := None\<rparr>"

definition metadata_record :: "bytes \<Rightarrow> journal_error + file_stamp" where
  "metadata_record payload =
     bindR (decode_witness payload) (\<lambda>w.
     if wit_kind w \<noteq> File then Err JTag
     else bindR (if payload ! 50 = 0 \<and> length payload = 51 then Ok None
                 else if payload ! 50 = 1 \<and> length payload = 67 then Ok (Some (le_word (slice 51 67 payload)))
                 else Err JTag) (\<lambda>ctime.
       Ok \<lparr>stamp_kind = wit_kind w, stamp_size = le_word (slice 22 30 payload),
         stamp_mode = le_word (slice 30 34 payload), mtime_ns = le_word (slice 34 50 payload),
         ctime_ns = ctime, file_id = wit_file_id w\<rparr>))"

text \<open>The match on one verified payload; \<open>v2\<close> is the test of the header.\<close>

definition replay_record ::
    "bool \<Rightarrow> bytes \<Rightarrow> journal_state \<times> u32 \<Rightarrow> journal_error + journal_state \<times> u32" where
  "replay_record v2 payload = (\<lambda>(st, next).
     (if payload = [] then Err JTag
      else let tag = payload ! 0; index = le_word (slice 1 5 payload) in
      if tag = 1 \<and> length payload \<in> {5, 22, 23, 40} then
        if js_pending st \<noteq> None \<or> index \<noteq> next then Err JSequence
        else bindR (if length payload = 5 then Ok \<lparr>iw_source = None, iw_parent = None\<rparr>
                    else if length payload = 22
                    then bindR (decode_witness_at payload 5) (\<lambda>w. Ok \<lparr>iw_source = Some w, iw_parent = None\<rparr>)
                    else decode_intent_witnesses payload) (\<lambda>iw.
          Ok (st\<lparr>js_intents := bt_insert index iw (js_intents st), js_pending := Some index\<rparr>, next))
      else if tag = 2 \<and> length payload = 22 then
        if js_pending st \<noteq> Some index \<or> index \<noteq> next then Err JSequence
        else bindR (decode_witness payload) (\<lambda>w.
          bindR (ok_or (checked_add next 1) JSequence) (\<lambda>next'. Ok (complete_record st index w, next')))
      else if tag = 3 \<and> v2 \<and> length payload \<in> {51, 67} then
        if js_pending st \<noteq> Some index \<or> index \<noteq> next then Err JSequence
        else bindR (metadata_record payload) (\<lambda>stamp.
          let st' = complete_record st index (witness_of stamp) in
          bindR (ok_or (checked_add next 1) JSequence) (\<lambda>next'.
            Ok (st'\<lparr>js_metadata := bt_insert index stamp (js_metadata st')\<rparr>, next')))
      else Err JTag))"

text \<open>The loop over the bytes after the header; \<open>rest\<close> is \<open>bytes[offset..]\<close>.\<close>

function replay_loop ::
    "(bytes \<Rightarrow> digest) \<Rightarrow> bool \<Rightarrow> bytes \<Rightarrow> journal_state \<times> u32 \<Rightarrow> journal_error + journal_state" where
  "replay_loop blake3 v2 rest cur =
     (if rest = [] then Ok (fst cur)
      else if length rest < 4 then Ok ((fst cur)\<lparr>js_torn_tail := True\<rparr>)
      else let len = unat (le_word (take 4 rest) :: u32) in
        if max_record_payload < len then Err JRecordLength
        else if length rest < 4 + len + 32 then Ok ((fst cur)\<lparr>js_torn_tail := True\<rparr>)
        else
          let payload = slice 4 (4 + len) rest; checksum = slice (4 + len) (4 + len + 32) rest in
          if record_digest blake3 payload \<noteq> checksum then Err JChecksum
          else case replay_record v2 payload cur of
            Inl e \<Rightarrow> Err e
          | Inr next \<Rightarrow> replay_loop blake3 v2 (drop (4 + len + 32) rest) next)"
  by pat_completeness auto
termination
  by (relation "measure (\<lambda>(_, _, rest, _). length rest)") auto

declare replay_loop.simps [simp del]

definition read_journal :: "(bytes \<Rightarrow> digest) \<Rightarrow> nat \<Rightarrow> bytes option \<Rightarrow> journal_error + journal_state" where
  "read_journal blake3 maximum_bytes file = (case file of
     None \<Rightarrow> Err JIo
   | Some bytes \<Rightarrow>
       if maximum_bytes < length bytes then Err JRecordLength
       else if length bytes < 8 \<or> take 8 bytes \<noteq> journal_magic \<and> take 8 bytes \<noteq> journal_magic_v2
       then Err JMagic
       else replay_loop blake3 (take 8 bytes = journal_magic_v2) (drop 8 bytes) (empty_journal, 0))"

section \<open>The commit marker\<close>

definition marker_digest :: "(bytes \<Rightarrow> digest) \<Rightarrow> bytes \<Rightarrow> bytes" where
  "marker_digest blake3 payload = as_bytes (blake3
     (str_bytes ''vsh'' @ [0] @ str_bytes ''commit-marker-v1'' @ [0] @ payload))"

definition commit_marker :: "(bytes \<Rightarrow> digest) \<Rightarrow> digest \<Rightarrow> bytes" where
  "commit_marker blake3 transaction =
     (let payload = marker_magic @ as_bytes transaction in payload @ marker_digest blake3 payload)"

definition has_valid_commit_marker ::
    "(bytes \<Rightarrow> digest) \<Rightarrow> digest \<Rightarrow> bytes option \<Rightarrow> journal_error + bool" where
  "has_valid_commit_marker blake3 transaction file = (case file of
     None \<Rightarrow> Ok False
   | Some marker \<Rightarrow>
       let bytes = take 73 marker in
       if length bytes \<noteq> 72 \<or> take 8 bytes \<noteq> marker_magic then Err JMarker
       else if slice 8 40 bytes \<noteq> as_bytes transaction then Err JMarker
       else if marker_digest blake3 (take 40 bytes) \<noteq> slice 40 72 bytes then Err JMarker
       else Ok True)"

section \<open>Histories\<close>

text \<open>The records the committer appends, and the state they add up to.\<close>

datatype journal_event =
  JIntent u32 "witness option" witness
| JDone u32 witness
| JMetadata u32 file_stamp

fun event_payload :: "journal_event \<Rightarrow> bytes" where
  "event_payload (JIntent i source par) = intent_payload i source par"
| "event_payload (JDone i w) = done_payload i w"
| "event_payload (JMetadata i st) = metadata_payload i st"

fun journal_step :: "bool \<Rightarrow> journal_event \<Rightarrow> journal_state \<times> u32 \<Rightarrow> (journal_state \<times> u32) option" where
  "journal_step v2 (JIntent i source par) (st, n) =
     (if js_pending st = None \<and> i = n
      then Some (st\<lparr>js_intents := bt_insert i \<lparr>iw_source = source, iw_parent = Some par\<rparr> (js_intents st),
        js_pending := Some i\<rparr>, n)
      else None)"
| "journal_step v2 (JDone i w) (st, n) =
     (if js_pending st = Some i \<and> i = n \<and> unat n < 2 ^ 32 - 1 then Some (complete_record st i w, n + 1)
      else None)"
| "journal_step v2 (JMetadata i stamp) (st, n) =
     (if v2 \<and> stamp_kind stamp = File \<and> js_pending st = Some i \<and> i = n \<and> unat n < 2 ^ 32 - 1
      then Some ((complete_record st i (witness_of stamp))
        \<lparr>js_metadata := bt_insert i stamp (js_metadata st)\<rparr>, n + 1)
      else None)"

fun journal_run :: "bool \<Rightarrow> journal_event list \<Rightarrow> journal_state \<times> u32 \<Rightarrow> (journal_state \<times> u32) option" where
  "journal_run v2 [] cur = Some cur"
| "journal_run v2 (e # es) cur = Option.bind (journal_step v2 e cur) (journal_run v2 es)"

definition journal_file :: "(bytes \<Rightarrow> digest) \<Rightarrow> bool \<Rightarrow> journal_event list \<Rightarrow> bytes" where
  "journal_file blake3 v2 es =
     journal_create v2 @ concat (map (\<lambda>e. journal_frame blake3 (event_payload e)) es)"

section \<open>Payloads are read back\<close>

lemma length_encode_witness [simp]: "length (encode_witness w) = 17"
  by (simp add: encode_witness_def)

lemma decode_witness_at_append:
  assumes "length pre = n"
  shows "decode_witness_at (pre @ encode_witness w @ post) n = Ok w"
proof -
  have s: "slice n (n + 17) (pre @ encode_witness w @ post) = encode_witness w"
    using assms by (simp add: slice_def)
  have parts: "slice (Suc 0) 9 (encode_witness w) = u64_bytes (high (wit_file_id w))"
    "slice 9 17 (encode_witness w) = u64_bytes (low (wit_file_id w))"
    by (simp_all add: encode_witness_def slice_def)
  have tag: "encode_witness w ! 0 = canonical_tag (wit_kind w)" by (simp add: encode_witness_def)
  show ?thesis
    using assms by (cases "wit_kind w")
      (simp_all add: decode_witness_at_def s parts tag Let_def witness.equality platform_file_id.equality)
qed

lemma length_payloads:
  "length (intent_payload i source par) = (if source = None then 23 else 40)"
  "length (done_payload i w) = 22"
  "length (metadata_payload i st) = (if ctime_ns st = None then 51 else 67)"
  by (auto simp: intent_payload_def done_payload_def metadata_payload_def split: option.splits)

lemma payload_facts:
  "slice (Suc 0) 5 (intent_payload i source par) = u32_bytes i" "intent_payload i source par ! 0 = 1"
  "intent_payload i source par \<noteq> []"
  "slice (Suc 0) 5 (done_payload i w) = u32_bytes i" "done_payload i w ! 0 = 2" "done_payload i w \<noteq> []"
  "slice (Suc 0) 5 (metadata_payload i stamp) = u32_bytes i" "metadata_payload i stamp ! 0 = 3"
  "metadata_payload i stamp \<noteq> []"
  by (simp_all add: intent_payload_def done_payload_def metadata_payload_def slice_def)

lemma event_payload_bounds:
  "event_payload e \<noteq> []" "length (event_payload e) \<le> max_record_payload"
  by (cases e; simp add: payload_facts length_payloads max_record_payload_def)+

lemma decode_intent_payload:
  "decode_intent_witnesses (intent_payload i source par) = Ok \<lparr>iw_source = source, iw_parent = Some par\<rparr>"
proof -
  have flag: "intent_payload i source par ! 5 = (if source = None then 0 else 1) OR 2"
    by (simp add: intent_payload_def nth_append)
  show ?thesis
  proof (cases source)
    case None
    have "decode_witness_at (intent_payload i None par) 6 = Ok par"
      using decode_witness_at_append[of "1 # u32_bytes i @ [2]" 6 par "[]"]
      by (simp add: intent_payload_def)
    then show ?thesis using flag None by (simp add: decode_intent_witnesses_def Let_def length_payloads)
  next
    case (Some w)
    have one: "decode_witness_at (intent_payload i (Some w) par) 6 = Ok w"
      using decode_witness_at_append[of "1 # u32_bytes i @ [3]" 6 w "encode_witness par"]
      by (simp add: intent_payload_def)
    have two: "decode_witness_at (intent_payload i (Some w) par) 23 = Ok par"
      using decode_witness_at_append[of "1 # u32_bytes i @ [3] @ encode_witness w" 23 par "[]"]
      by (simp add: intent_payload_def)
    show ?thesis using flag Some one two by (simp add: decode_intent_witnesses_def Let_def length_payloads)
  qed
qed

lemma decode_done_payload: "decode_witness (done_payload i w) = Ok w"
  using decode_witness_at_append[of "2 # u32_bytes i" 5 w "[]"]
  by (simp add: decode_witness_def done_payload_def encode_witness_def)

lemma metadata_record_payload:
  assumes "stamp_kind st = File"
  shows "metadata_record (metadata_payload i st) = Ok st"
proof -
  let ?tail = "[if ctime_ns st = None then 0 else 1] @
    (case ctime_ns st of None \<Rightarrow> [] | Some c \<Rightarrow> i128_bytes c)"
  let ?p = "metadata_payload i st"
  have w: "decode_witness ?p = Ok (witness_of st)"
    using decode_witness_at_append[of "3 # u32_bytes i" 5 "witness_of st"
        "u64_bytes (stamp_size st) @ u32_bytes (stamp_mode st) @ i128_bytes (mtime_ns st) @ ?tail"]
    by (simp add: decode_witness_def metadata_payload_def)
  have s: "slice 22 30 ?p = u64_bytes (stamp_size st)" "slice 30 34 ?p = u32_bytes (stamp_mode st)"
    "slice 34 50 ?p = i128_bytes (mtime_ns st)"
    by (simp_all add: metadata_payload_def slice_def)
  have "?p ! 50 = (if ctime_ns st = None then 0 else 1)"
    by (simp add: metadata_payload_def nth_append)
  moreover have "slice 51 67 ?p = i128_bytes c" if "ctime_ns st = Some c" for c
    using that by (simp add: metadata_payload_def slice_def)
  ultimately show ?thesis
    using assms w s by (cases "ctime_ns st")
      (simp_all add: metadata_record_def witness_of_def length_payloads file_stamp.equality)
qed

lemma replay_record_event:
  assumes "journal_step v2 e (st, n) = Some cur"
  shows "replay_record v2 (event_payload e) (st, n) = Ok cur"
proof (cases e)
  case (JIntent i source par)
  show ?thesis
    using assms JIntent decode_intent_payload[of i source par]
    by (cases "source = None") (auto simp: replay_record_def payload_facts length_payloads Let_def split: if_splits)
next
  case (JDone i w)
  show ?thesis
    using assms JDone decode_done_payload[of i w]
    by (auto simp: replay_record_def payload_facts length_payloads Let_def checked_add_def split: if_splits)
next
  case (JMetadata i stamp)
  show ?thesis
    using assms JMetadata metadata_record_payload[of stamp i]
    by (auto simp: replay_record_def payload_facts length_payloads Let_def checked_add_def complete_record_def split: if_splits)
qed

section \<open>Replay of what was written, cut anywhere\<close>

lemma length_record_digest [simp]: "length (record_digest blake3 p) = 32"
  by (simp add: record_digest_def)

lemma frame_parts:
  assumes "length p \<le> max_record_payload"
  shows "unat (le_word (take 4 (journal_frame blake3 p @ rest)) :: u32) = length p"
    and "slice 4 (4 + length p) (journal_frame blake3 p @ rest) = p"
    and "slice (4 + length p) (4 + length p + 32) (journal_frame blake3 p @ rest) = record_digest blake3 p"
    and "drop (4 + length p + 32) (journal_frame blake3 p @ rest) = rest"
    and "length (journal_frame blake3 p) = 4 + length p + 32"
proof -
  have "length p < 2 ^ 32" using assms by (simp add: max_record_payload_def)
  then show "unat (le_word (take 4 (journal_frame blake3 p @ rest)) :: u32) = length p"
    by (simp add: journal_frame_def unat_of_nat take_bit_nat_eq_self)
qed (simp_all add: journal_frame_def slice_def)

lemma replay_loop_frame:
  assumes "length p \<le> max_record_payload" "replay_record v2 p cur = Ok cur'"
  shows "replay_loop blake3 v2 (journal_frame blake3 p @ rest) cur = replay_loop blake3 v2 rest cur'"
proof -
  note parts = frame_parts(1-4)[OF assms(1), of blake3 rest]
  have len: "length (journal_frame blake3 p @ rest) = 4 + length p + 32 + length rest"
    using frame_parts(5)[OF assms(1)] by simp
  have "journal_frame blake3 p \<noteq> []" using frame_parts(5)[OF assms(1), of blake3] by auto
  then show ?thesis
    using assms parts len
    by (subst replay_loop.simps) (simp add: Let_def del: drop_append take_append)
qed

lemma replay_loop_torn:
  assumes "length p \<le> max_record_payload" "k < length (journal_frame blake3 p)"
  shows "replay_loop blake3 v2 (take k (journal_frame blake3 p)) cur =
    Ok (if k = 0 then fst cur else (fst cur)\<lparr>js_torn_tail := True\<rparr>)"
proof (cases "4 \<le> k")
  case True
  have "take 4 (take k (journal_frame blake3 p)) = take 4 (journal_frame blake3 p)"
    using True by (simp add: min_def)
  then have "unat (le_word (take 4 (take k (journal_frame blake3 p))) :: u32) = length p"
    using frame_parts(1)[OF assms(1), of blake3 "[]"] by simp
  moreover have "length (take k (journal_frame blake3 p)) = k" using assms(2) by simp
  moreover have "k < 4 + length p + 32" using assms(2) frame_parts(5)[OF assms(1)] by simp
  moreover have "take k (journal_frame blake3 p) \<noteq> []" using True calculation(2) by auto
  ultimately show ?thesis
    using True assms(1) by (subst replay_loop.simps) (simp add: Let_def)
next
  case False
  have "length (take k (journal_frame blake3 p)) = k" using assms(2) by simp
  moreover have "take k (journal_frame blake3 p) = [] \<longleftrightarrow> k = 0"
    using calculation by auto
  ultimately show ?thesis
    using False by (subst replay_loop.simps) (simp del: take_eq_Nil)
qed

lemma replay_loop_run:
  assumes "journal_run v2 es cur = Some (st, n)"
    and "k < length (journal_frame blake3 (event_payload e))"
  shows "replay_loop blake3 v2 (concat (map (\<lambda>e. journal_frame blake3 (event_payload e)) es) @
      take k (journal_frame blake3 (event_payload e))) cur =
    Ok (if k = 0 then st else st\<lparr>js_torn_tail := True\<rparr>)"
  using assms(1)
proof (induction es arbitrary: cur)
  case Nil
  then show ?case using replay_loop_torn[OF event_payload_bounds(2) assms(2)] by simp
next
  case (Cons x xs)
  obtain mid where mid: "journal_step v2 x cur = Some mid" "journal_run v2 xs mid = Some (st, n)"
    using Cons.prems by (auto simp: bind_eq_Some_conv)
  have "replay_record v2 (event_payload x) cur = Ok mid"
    using replay_record_event mid(1) by (cases cur) blast
  then show ?case
    using replay_loop_frame[OF event_payload_bounds(2)] Cons.IH[OF mid(2)] by simp
qed

text \<open>The shape of every state a history adds up to.\<close>

definition journal_shape :: "journal_state \<times> u32 \<Rightarrow> bool" where
  "journal_shape = (\<lambda>(st, n).
     (\<forall>i. has_intent st i \<longleftrightarrow> i < n \<or> js_pending st = Some i) \<and>
     (\<forall>i. witness_at st i \<noteq> None \<longleftrightarrow> i < n) \<and>
     (js_pending st = None \<or> js_pending st = Some n) \<and> \<not> js_torn_tail st)"

lemma word_Suc_less: "unat n < 2 ^ 32 - 1 \<Longrightarrow> (i::u32) < n + 1 \<longleftrightarrow> i < n \<or> i = n"
  by (auto simp: word_less_nat_alt unat_word_ariths less_Suc_eq word_unat_eq_iff)

lemma journal_step_shape:
  "journal_shape (st, n) \<Longrightarrow> journal_step v2 e (st, n) = Some cur \<Longrightarrow> journal_shape cur"
  by (cases e)
    (auto simp: journal_shape_def has_intent_def witness_at_def complete_record_def word_Suc_less
      split: if_splits)

lemma journal_run_shape:
  "journal_run v2 es cur = Some cur' \<Longrightarrow> journal_shape cur \<Longrightarrow> journal_shape cur'"
proof (induction es arbitrary: cur)
  case (Cons e es)
  then obtain mid where "journal_step v2 e cur = Some mid" "journal_run v2 es mid = Some cur'"
    by (auto simp: bind_eq_Some_conv)
  then show ?case using Cons.IH Cons.prems(2) journal_step_shape by (cases cur) blast
qed simp

lemma empty_journal_shape: "journal_shape (empty_journal, 0)"
  by (simp add: journal_shape_def empty_journal_def has_intent_def witness_at_def bt_contains_def)

lemma read_journal_replays:
  assumes "journal_run v2 es (empty_journal, 0) = Some (st, n)"
    and "k < length (journal_frame blake3 (event_payload e))"
    and "file = journal_file blake3 v2 es @ take k (journal_frame blake3 (event_payload e))"
    and "length file \<le> maximum"
  shows "read_journal blake3 maximum (Some file) = Ok (st\<lparr>js_torn_tail := 0 < k\<rparr>)"
proof -
  have sh: "journal_shape (st, n)" by (rule journal_run_shape[OF assms(1) empty_journal_shape])
  then have st: "st\<lparr>js_torn_tail := False\<rparr> = st" by (simp add: journal_shape_def)
  have m: "length (journal_create v2) = 8" "journal_create v2 = journal_magic_v2 \<longleftrightarrow> v2"
    "journal_create v2 = journal_magic \<or> journal_create v2 = journal_magic_v2"
    by (auto simp: journal_create_def journal_magic_def journal_magic_v2_def str_bytes_def)
  show ?thesis
    using replay_loop_run[OF assms(1,2)] m assms(3,4) st
    by (simp add: read_journal_def journal_file_def)
qed

section \<open>The marker\<close>

lemma length_commit_marker [simp]: "length (commit_marker blake3 t) = 72"
  by (simp add: commit_marker_def marker_magic_def marker_digest_def)

lemma commit_marker_valid: "has_valid_commit_marker blake3 t (Some (commit_marker blake3 t)) = Ok True"
  by (simp add: has_valid_commit_marker_def commit_marker_def marker_digest_def marker_magic_def slice_def Let_def)

lemma commit_marker_torn:
  "k < 72 \<Longrightarrow> has_valid_commit_marker blake3 t (Some (take k (commit_marker blake3 u))) = Err JMarker"
  by (simp add: has_valid_commit_marker_def)

lemma commit_marker_transaction:
  "has_valid_commit_marker blake3 t (Some (commit_marker blake3 u)) = (if t = u then Ok True else Err JMarker)"
  using commit_marker_valid[of blake3 t]
  by (auto simp: has_valid_commit_marker_def commit_marker_def marker_magic_def marker_digest_def slice_def Let_def)

end
