(* ===== verification/Host.thy ===== *)
theory Host
  imports Journal Blobs DirDigest
begin

text \<open>
  The file system below the workspace capability, as the committer uses it, and the observations of
  \<open>crates/vsh-commit/src/host.rs\<close>.  Inodes carry kind, mode, times, link count, bytes or names; a
  directory handle or an open file is an inode number, so a handle stays on its node when names move.
  Calls of the standard library that change the file system go through \<open>host_call\<close>: the environment
  decides at which of them the run stops, with no effect of that call.  Permission checks are outside
  the model, and a walk through a symbolic link fails.
\<close>

section \<open>Inodes\<close>

type_synonym ino = platform_file_id

record inode =
  i_kind :: node_kind
  i_mode :: u32
  i_mtime :: i128
  i_ctime :: i128
  i_links :: nat
  i_data :: bytes
  i_names :: "(string, ino) btree"

record host =
  h_inodes :: "ino \<Rightarrow> inode option"
  h_root :: ino
  h_tick :: nat

text \<open>
  The environment: the hash function, the numbers of new inodes, the clock, the calls that do not
  take place, how much of an interrupted write reaches the disk, the mode of new directories, and the
  faults of the blob store.
\<close>

record host_env =
  he_blake3 :: "bytes \<Rightarrow> digest"
  he_alloc :: "nat \<Rightarrow> ino"
  he_time :: "nat \<Rightarrow> i128"
  he_stop :: "nat \<Rightarrow> bool"
  he_torn :: "nat \<Rightarrow> nat"
  he_dir_mode :: u32
  he_blob_fault :: "string \<Rightarrow> bool"

datatype io_error =
  Io_NotFound | Io_AlreadyExists | Io_NotADirectory | Io_InvalidData | Io_InvalidInput
| Io_PermissionDenied | Io_Unsupported | Io_NotEmpty | Io_Failed

datatype host_error =
  HostIo string vpath io_error
| HostNonUtf8Symlink vpath
| HostSnapshotLimit string nat nat

definition named :: "host \<Rightarrow> ino \<Rightarrow> string \<Rightarrow> ino option" where
  "named h d name = Option.bind (h_inodes h d) (\<lambda>i. map_of (i_names i) name)"

definition kind_at :: "host \<Rightarrow> ino \<Rightarrow> node_kind option" where
  "kind_at h x = map_option i_kind (h_inodes h x)"

text \<open>A capability-relative path is walked from a directory handle.\<close>

fun resolve_at :: "host \<Rightarrow> ino \<Rightarrow> string list \<Rightarrow> io_error + ino" where
  "resolve_at h d [] = Ok d"
| "resolve_at h d (c # cs) =
     (if kind_at h d \<noteq> Some Directory then Err Io_NotADirectory
      else case named h d c of None \<Rightarrow> Err Io_NotFound | Some x \<Rightarrow> resolve_at h x cs)"

section \<open>Calls that change the file system\<close>

definition host_call :: "host_env \<Rightarrow> (i128 \<Rightarrow> host \<Rightarrow> io_error + 'a \<times> host) \<Rightarrow> (host, io_error, 'a) op" where
  "host_call env f h =
     (let t = h_tick h; h' = h\<lparr>h_tick := Suc t\<rparr> in
      if he_stop env t then (Err Io_Failed, h')
      else case f (he_time env t) h' of Inl e \<Rightarrow> (Err e, h') | Inr (a, h'') \<Rightarrow> (Ok a, h''))"

definition upd_inode :: "ino \<Rightarrow> (inode \<Rightarrow> inode) \<Rightarrow> host \<Rightarrow> host" where
  "upd_inode x f h = h\<lparr>h_inodes := (h_inodes h)(x := map_option f (h_inodes h x))\<rparr>"

definition new_inode :: "ino \<Rightarrow> inode \<Rightarrow> host \<Rightarrow> host" where
  "new_inode x i h = h\<lparr>h_inodes := (h_inodes h)(x \<mapsto> i)\<rparr>"

definition set_name :: "ino \<Rightarrow> string \<Rightarrow> ino \<Rightarrow> i128 \<Rightarrow> host \<Rightarrow> host" where
  "set_name d n x t = upd_inode d (\<lambda>i. i\<lparr>i_names := bt_insert n x (i_names i), i_mtime := t, i_ctime := t\<rparr>)"

definition drop_name :: "ino \<Rightarrow> string \<Rightarrow> i128 \<Rightarrow> host \<Rightarrow> host" where
  "drop_name d n t = upd_inode d (\<lambda>i. i\<lparr>i_names := filter (\<lambda>(k, _). k \<noteq> n) (i_names i), i_mtime := t, i_ctime := t\<rparr>)"

definition add_links :: "ino \<Rightarrow> int \<Rightarrow> i128 \<Rightarrow> host \<Rightarrow> host" where
  "add_links x k t = upd_inode x (\<lambda>i. i\<lparr>i_links := nat (int (i_links i) + k), i_ctime := t\<rparr>)"

text \<open>\<open>Dir::rename\<close>: an existing destination of the same sort is replaced.\<close>

definition rename_at :: "host_env \<Rightarrow> ino \<Rightarrow> string \<Rightarrow> ino \<Rightarrow> string \<Rightarrow> (host, io_error, unit) op" where
  "rename_at env d n e m = host_call env (\<lambda>t h.
     case named h d n of
       None \<Rightarrow> Err Io_NotFound
     | Some x \<Rightarrow> (case named h e m of
         None \<Rightarrow> Ok ((), add_links x 0 t (set_name e m x t (drop_name d n t h)))
       | Some y \<Rightarrow>
           if x = y then Ok ((), h)
           else if kind_at h y = Some Directory \<and> kind_at h x \<noteq> Some Directory then Err Io_Failed
           else if kind_at h y \<noteq> Some Directory \<and> kind_at h x = Some Directory then Err Io_NotADirectory
           else if map_option i_names (h_inodes h y) \<noteq> Some [] then Err Io_NotEmpty
           else Ok ((), add_links x 0 t (set_name e m x t (drop_name d n t (add_links y (- 1) t h))))))"

definition hard_link_at :: "host_env \<Rightarrow> ino \<Rightarrow> string \<Rightarrow> ino \<Rightarrow> string \<Rightarrow> (host, io_error, unit) op" where
  "hard_link_at env d n e m = host_call env (\<lambda>t h.
     case named h d n of
       None \<Rightarrow> Err Io_NotFound
     | Some x \<Rightarrow>
         if named h e m \<noteq> None then Err Io_AlreadyExists
         else if kind_at h x = Some Directory then Err Io_PermissionDenied
         else Ok ((), add_links x 1 t (set_name e m x t h)))"

definition create_at :: "host_env \<Rightarrow> ino \<Rightarrow> string \<Rightarrow> node_kind \<Rightarrow> u32 \<Rightarrow> bytes \<Rightarrow> (host, io_error, ino) op" where
  "create_at env d n k m data h = host_call env (\<lambda>t h'.
     if named h' d n \<noteq> None then Err Io_AlreadyExists
     else let x = he_alloc env (h_tick h) in
       Ok (x, set_name d n x t (new_inode x \<lparr>i_kind = k, i_mode = m, i_mtime = t, i_ctime = t, i_links = 1,
         i_data = data, i_names = []\<rparr> h'))) h"

definition create_dir_at :: "host_env \<Rightarrow> ino \<Rightarrow> string \<Rightarrow> (host, io_error, ino) op" where
  "create_dir_at env d n = create_at env d n Directory (he_dir_mode env) []"

definition create_new_file :: "host_env \<Rightarrow> ino \<Rightarrow> string \<Rightarrow> (host, io_error, ino) op" where
  "create_new_file env d n = create_at env d n File 0x1B6 []"

definition symlink_contents :: "host_env \<Rightarrow> bytes \<Rightarrow> ino \<Rightarrow> string \<Rightarrow> (host, io_error, unit) op" where
  "symlink_contents env target d n = bindS (create_at env d n Symlink 0x1FF target) (\<lambda>_. returnS ())"

text \<open>\<open>write_all\<close> on a new file; an interrupted write leaves a prefix.\<close>

definition write_all :: "host_env \<Rightarrow> ino \<Rightarrow> bytes \<Rightarrow> (host, io_error, unit) op" where
  "write_all env x data h =
     (let t = h_tick h; put = (\<lambda>bs. upd_inode x (\<lambda>i. i\<lparr>i_data := i_data i @ bs, i_mtime := he_time env t,
         i_ctime := he_time env t\<rparr>) (h\<lparr>h_tick := Suc t\<rparr>))
      in if he_stop env t then (Err Io_Failed, put (take (he_torn env t) data)) else (Ok (), put data))"

definition chmod :: "host_env \<Rightarrow> ino \<Rightarrow> u32 \<Rightarrow> (host, io_error, unit) op" where
  "chmod env x m = host_call env (\<lambda>t h. Ok ((), upd_inode x (\<lambda>i. i\<lparr>i_mode := m AND 0xFFF, i_ctime := t\<rparr>) h))"

definition remove_file_at :: "host_env \<Rightarrow> ino \<Rightarrow> string \<Rightarrow> (host, io_error, unit) op" where
  "remove_file_at env d n = host_call env (\<lambda>t h.
     case named h d n of
       None \<Rightarrow> Err Io_NotFound
     | Some x \<Rightarrow>
         if kind_at h x = Some Directory then Err Io_Failed
         else Ok ((), add_links x (- 1) t (drop_name d n t h)))"

definition remove_dir_at :: "host_env \<Rightarrow> ino \<Rightarrow> string \<Rightarrow> (host, io_error, unit) op" where
  "remove_dir_at env d n = host_call env (\<lambda>t h.
     case named h d n of
       None \<Rightarrow> Err Io_NotFound
     | Some x \<Rightarrow> (case h_inodes h x of
         Some i \<Rightarrow>
           if i_kind i \<noteq> Directory then Err Io_NotADirectory
           else if i_names i \<noteq> [] then Err Io_NotEmpty
           else Ok ((), drop_name d n t h)
       | None \<Rightarrow> Err Io_NotFound))"

text \<open>\<open>fsync\<close> of a file or a directory.\<close>

definition sync_at :: "host_env \<Rightarrow> (host, io_error, unit) op" where
  "sync_at env = host_call env (\<lambda>t h. Ok ((), h))"

section \<open>Observations\<close>

definition inode_stamp :: "ino \<Rightarrow> inode \<Rightarrow> file_stamp" where
  "inode_stamp x i =
     \<lparr>stamp_kind = i_kind i, stamp_size = (if i_kind i = Directory then 0 else len64 (i_data i)),
      stamp_mode = i_mode i AND 0xFFF, mtime_ns = i_mtime i, ctime_ns = Some (i_ctime i), file_id = x\<rparr>"

text \<open>\<open>stamp_file\<close> and \<open>stamp_dir\<close>: the metadata of an open handle.\<close>

definition stamp_handle :: "host \<Rightarrow> ino \<Rightarrow> vpath \<Rightarrow> host_error + file_stamp" where
  "stamp_handle h x path = (case h_inodes h x of
     None \<Rightarrow> Err (HostIo ''read open metadata'' path Io_NotFound)
   | Some i \<Rightarrow> Ok (inode_stamp x i))"

definition stamp_at :: "host \<Rightarrow> ino \<Rightarrow> vpath \<Rightarrow> host_error + file_stamp option" where
  "stamp_at h d path = (case resolve_at h d (components path) of
     Inl Io_NotFound \<Rightarrow> Ok None
   | Inl e \<Rightarrow> Err (HostIo ''read metadata'' path e)
   | Inr x \<Rightarrow> (case h_inodes h x of None \<Rightarrow> Ok None | Some i \<Rightarrow> Ok (Some (inode_stamp x i))))"

text \<open>
  \<open>stable_content\<close>: the bytes of a file or link between two equal stamps.  Nothing else changes the
  file system during one observation of the model, so the second stamp is the first.
\<close>

definition stable_content :: "host \<Rightarrow> ino \<Rightarrow> vpath \<Rightarrow> host_error + bytes" where
  "stable_content h d path = (case resolve_at h d (components path) of
     Inl e \<Rightarrow> Err (HostIo ''capture content'' path e)
   | Inr x \<Rightarrow> (case h_inodes h x of
       None \<Rightarrow> Err (HostIo ''capture content'' path Io_NotFound)
     | Some i \<Rightarrow>
         if i_kind i = Directory then Err (HostIo ''capture directory content'' path Io_InvalidInput)
         else if 2 ^ 64 \<le> length (i_data i) then Err (HostIo ''capture stable content'' path Io_InvalidData)
         else Ok (i_data i)))"

definition state_matches ::
    "host_env \<Rightarrow> host \<Rightarrow> ino \<Rightarrow> vpath \<Rightarrow> node_state option \<Rightarrow> host_error + bool \<times> node_state option" where
  "state_matches env h d path expected =
     bindR (stamp_at h d path) (\<lambda>observed. case observed of
       None \<Rightarrow> Ok (expected = None, None)
     | Some stamp \<Rightarrow> (case expected of
         None \<Rightarrow> Ok (False, Some (from_stamp stamp))
       | Some e \<Rightarrow>
           bindR (case content e of
               Some (Blob _) \<Rightarrow>
                 if stamp_kind stamp \<noteq> kind e \<or> stamp_size stamp \<noteq> nsize e \<or> stamp_mode stamp \<noteq> mode e
                 then Ok (from_stamp stamp)
                 else bindR (stable_content h d path) (\<lambda>bytes.
                   let blob = blob_digest (he_blake3 env) bytes in
                   Ok (case stamp_kind stamp of
                         File \<Rightarrow> file_state blob (stamp_size stamp) (stamp_mode stamp)
                       | Symlink \<Rightarrow> symlink_state blob (stamp_size stamp) (stamp_mode stamp)
                       | Directory \<Rightarrow> from_stamp stamp))
             | Some (Stamp _) \<Rightarrow> Ok (from_stamp stamp)
             | None \<Rightarrow> Ok (if stamp_kind stamp = Directory then directory_state (stamp_mode stamp)
                           else from_stamp stamp)) (\<lambda>actual.
           Ok (case content e of Some (Stamp s) \<Rightarrow> s = stamp | _ \<Rightarrow> e = actual, Some actual))))"

definition relocated_state_matches ::
    "host_env \<Rightarrow> host \<Rightarrow> ino \<Rightarrow> vpath \<Rightarrow> node_state \<Rightarrow> host_error + bool" where
  "relocated_state_matches env h d path expected =
     bindR (stamp_at h d path) (\<lambda>observed. case observed of
       None \<Rightarrow> Ok False
     | Some actual \<Rightarrow> (case content expected of
         Some (Stamp s) \<Rightarrow> Ok (stamp_kind s = stamp_kind actual \<and> stamp_size s = stamp_size actual \<and>
           stamp_mode s = stamp_mode actual \<and> mtime_ns s = mtime_ns actual \<and> file_id s = file_id actual)
       | _ \<Rightarrow> bindR (state_matches env h d path (Some expected)) (\<lambda>(matches, _). Ok matches)))"

definition file_state_matches ::
    "host_env \<Rightarrow> host \<Rightarrow> ino \<Rightarrow> vpath \<Rightarrow> node_state \<Rightarrow> host_error + bool \<times> node_state" where
  "file_state_matches env h x path expected =
     bindR (stamp_handle h x path) (\<lambda>before.
     if stamp_kind before \<noteq> File \<or> kind expected \<noteq> File \<or> stamp_size before \<noteq> nsize expected \<or>
       stamp_mode before \<noteq> mode expected
     then Ok (False, from_stamp before)
     else
       let actual = (case content expected of
           Some (Blob _) \<Rightarrow> file_state (he_blake3 env (case h_inodes h x of Some i \<Rightarrow> i_data i | None \<Rightarrow> []))
             (stamp_size before) (stamp_mode before)
         | _ \<Rightarrow> from_stamp before)
       in Ok (case content expected of
                Some (Stamp s) \<Rightarrow> before = s | Some (Blob _) \<Rightarrow> actual = expected | None \<Rightarrow> False, actual))"

definition is_single_link :: "host \<Rightarrow> ino \<Rightarrow> bool" where
  "is_single_link h x \<longleftrightarrow> map_option i_links (h_inodes h x) = Some 1"

definition content_digest :: "host_env \<Rightarrow> host \<Rightarrow> ino \<Rightarrow> vpath \<Rightarrow> host_error + digest" where
  "content_digest env h d path = bindR (stable_content h d path) (\<lambda>bytes. Ok (blob_digest (he_blake3 env) bytes))"

definition witness_matches :: "host \<Rightarrow> ino \<Rightarrow> vpath \<Rightarrow> witness \<Rightarrow> host_error + bool" where
  "witness_matches h d path w =
     bindR (stamp_at h d path) (\<lambda>observed. Ok (is_some_and observed (\<lambda>s. witness_of s = w)))"

definition open_real_dir :: "host \<Rightarrow> ino \<Rightarrow> string \<Rightarrow> io_error + ino" where
  "open_real_dir h d name = (case named h d name of
     None \<Rightarrow> Err Io_NotFound
   | Some x \<Rightarrow> if kind_at h x = Some Directory then Ok x else Err Io_InvalidData)"

definition open_real_file :: "host \<Rightarrow> ino \<Rightarrow> string list \<Rightarrow> io_error + ino" where
  "open_real_file h d comps = bindR (resolve_at h d comps) (\<lambda>x.
     if kind_at h x = Some File then Ok x else Err Io_InvalidData)"

text \<open>Without permission checks the write-only retry never happens.\<close>

definition open_file_for_mode :: "host \<Rightarrow> ino \<Rightarrow> string \<Rightarrow> io_error + ino" where
  "open_file_for_mode h d name = open_real_file h d [name]"

definition validate_symlink_target :: "vpath \<Rightarrow> bytes \<Rightarrow> host_error + bytes" where
  "validate_symlink_target path bytes =
     (if \<not> utf8_ok bytes then Err (HostNonUtf8Symlink path)
      else if bytes = [] then Err (HostIo ''validate symlink target'' path Io_InvalidInput)
      else let portable = map (\<lambda>c. if c = backslash then slash else c) (bytes_str bytes);
               par = (case parent path of None \<Rightarrow> root | Some p \<Rightarrow> p)
        in bindR (map_err (\<lambda>_. HostIo ''validate symlink target'' path Io_PermissionDenied) (join par portable))
             (\<lambda>_. Ok (str_bytes portable)))"

text \<open>The enumeration loop of \<open>directory_digest\<close>; \<open>n\<close> entries are already listed.\<close>

fun directory_entries ::
    "host \<Rightarrow> ino \<Rightarrow> vpath \<Rightarrow> nat \<Rightarrow> nat \<Rightarrow> string list \<Rightarrow> host_error + (vpath \<times> node_state) list" where
  "directory_entries h d path maximum n [] = Ok []"
| "directory_entries h d path maximum n (name # rest) =
     (if is_root path \<and> name = runtime_directory then directory_entries h d path maximum n rest
      else if maximum \<le> n then Err (HostSnapshotLimit ''directory-entries'' (n + 1) maximum)
      else bindR (map_err (\<lambda>_. HostIo ''normalize directory entry'' path Io_Failed) (join path name)) (\<lambda>child.
        bindR (stamp_at h d child) (\<lambda>s. case s of
          None \<Rightarrow> Err (HostIo ''read directory entry metadata'' child Io_NotFound)
        | Some stamp \<Rightarrow> bindR (directory_entries h d path maximum (n + 1) rest) (\<lambda>es.
            Ok ((child, from_stamp stamp) # es)))))"

definition directory_digest_at :: "host_env \<Rightarrow> host \<Rightarrow> ino \<Rightarrow> vpath \<Rightarrow> nat \<Rightarrow> host_error + digest" where
  "directory_digest_at env h d path maximum =
     bindR (map_err (HostIo ''read directory'' path) (resolve_at h d (components path))) (\<lambda>x.
     case h_inodes h x of
       None \<Rightarrow> Err (HostIo ''read directory'' path Io_NotFound)
     | Some i \<Rightarrow>
         if i_kind i \<noteq> Directory then Err (HostIo ''read directory'' path Io_NotADirectory)
         else bindR (directory_entries h d path maximum 0 (map fst (i_names i))) (\<lambda>es.
           case digest_entries (he_blake3 env) (sort_key fst es) of
             None \<Rightarrow> Err (HostIo ''read directory'' path Io_Failed)
           | Some dg \<Rightarrow> Ok dg))"

end
