(* ===== verification/Commit.thy ===== *)
theory Commit
  imports Host PlanStored
begin

text \<open>
  The operations of a commit and their reversal (\<open>apply_operation\<close>, \<open>infer_applied\<close>, \<open>undo_operation\<close>,
  \<open>rollback\<close> in \<open>crates/vsh-commit/src/committer.rs\<close>), on the file system of \<open>Host\<close>.  A panic is the
  error \<open>CE_Panic\<close>.  The workspace lock, the identity of the runtime directory and permission checks
  are outside the model.
\<close>

section \<open>Errors and names\<close>

datatype revalidation_conflict =
  RC_Metadata vpath "node_state option" "node_state option"
| RC_Content vpath digest digest
| RC_Directory vpath digest digest

datatype fault_point =
  PlanSynced | StageSynced | Revalidated | CommitStatePersisted | IntentSynced u32
| OperationApplied u32 | DoneSynced u32 | OwnershipMarkersCleared | Verified
| CommitMarkerSynced | CommittedStatePersisted

record recovery_conflict =
  rc_transaction :: digest
  rc_path :: "vpath option"
  rc_reason :: string

datatype commit_error =
  CE_Plan plan_stop
| CE_Binding digest digest
| CE_BaseSnapshotBinding
| CE_DependencyLimit nat nat
| CE_PlanSize nat nat
| CE_WorkspaceExists digest
| CE_Host host_error
| CE_Store tx_store_error
| CE_Blob blob_store_error
| CE_Journal journal_error
| CE_PlanDecode plan_decode_error
| CE_InternalIo string io_error
| CE_Stale "revalidation_conflict list"
| CE_Verification vpath "node_state option" "node_state option"
| CE_FaultInjected fault_point
| CE_RecoveryRequired digest commit_error
| CE_RecoveryConflict recovery_conflict
| CE_Panic

type_synonym 'a hop = "(host, commit_error, 'a) op"

definition slot_name :: "u32 \<Rightarrow> string" where
  "slot_name slot = bytes_str (concat (map hex_byte (rev (u32_bytes slot))))"

definition stage_name :: "u32 \<Rightarrow> string" where "stage_name = slot_name"
definition quarantine_name :: "u32 \<Rightarrow> string" where "quarantine_name = slot_name"
definition stage_link_name :: "u32 \<Rightarrow> string" where "stage_link_name slot = slot_name slot @ ''.link''"

definition directory_owner_marker :: string where "directory_owner_marker = ''.vsh-runtime-owner''"

definition directory_owner_payload :: "digest \<Rightarrow> u32 \<Rightarrow> bytes" where
  "directory_owner_payload transaction index =
     str_bytes ''VSHOWN01'' @ as_bytes transaction @ u32_bytes index"

definition directory_owner_matches :: "host \<Rightarrow> ino \<Rightarrow> digest \<Rightarrow> u32 \<Rightarrow> io_error + bool" where
  "directory_owner_matches h d transaction index = (case named h d directory_owner_marker of
     None \<Rightarrow> Ok False
   | Some x \<Rightarrow> (case h_inodes h x of
       None \<Rightarrow> Ok False
     | Some i \<Rightarrow>
         if i_kind i = Directory then Err Io_Failed
         else Ok (take 45 (i_data i) = directory_owner_payload transaction index)))"

text \<open>The last component of a path, as a name and as a path of its own.\<close>

definition leaf_name :: "vpath \<Rightarrow> string" where
  "leaf_name path = (case file_name path of Some l \<Rightarrow> l | None \<Rightarrow> [])"

definition leaf_path :: "vpath \<Rightarrow> commit_error + vpath" where
  "leaf_path path = map_err (\<lambda>_. CE_Panic) (case file_name path of None \<Rightarrow> Err Path_Empty | Some l \<Rightarrow> parse l)"

definition see :: "(host \<Rightarrow> host_error + 'a) \<Rightarrow> 'a hop" where
  "see f h = (map_err CE_Host (f h), h)"

definition call :: "string \<Rightarrow> vpath \<Rightarrow> (host, io_error, 'a) op \<Rightarrow> 'a hop" where
  "call label path m = map_errS (\<lambda>e. CE_Host (HostIo label path e)) m"

definition internal :: "string \<Rightarrow> (host, io_error, 'a) op \<Rightarrow> 'a hop" where
  "internal label m = map_errS (CE_InternalIo label) m"

definition verify :: "bool \<Rightarrow> vpath \<Rightarrow> node_state option \<Rightarrow> node_state option \<Rightarrow> unit hop" where
  "verify ok path expected actual = (if ok then returnS () else failS (CE_Verification path expected actual))"

text \<open>The actual state reported when a check failed.\<close>

definition actual_at :: "ino \<Rightarrow> vpath \<Rightarrow> node_state option hop" where
  "actual_at d path = bindS (see (\<lambda>h. stamp_at h d path)) (\<lambda>s. returnS (map_option from_stamp s))"

section \<open>Applying one operation\<close>

record applied_operation =
  ap_metadata :: "file_stamp option"
  ap_witness :: witness
  ap_created :: "(vpath \<times> ino) option"

definition applied :: "witness \<Rightarrow> applied_operation" where
  "applied w = \<lparr>ap_metadata = None, ap_witness = w, ap_created = None\<rparr>"

definition expect_stamp :: "file_stamp option \<Rightarrow> file_stamp hop" where
  "expect_stamp s = (case s of None \<Rightarrow> failS CE_Panic | Some st \<Rightarrow> returnS st)"

definition apply_quarantine ::
    "host_env \<Rightarrow> vpath \<Rightarrow> node_state \<Rightarrow> u32 \<Rightarrow> ino \<Rightarrow> ino \<Rightarrow> applied_operation hop" where
  "apply_quarantine env path expected slot par quarantine =
     bindS (liftS (leaf_path path)) (\<lambda>leafp.
     bindS (see (\<lambda>h. state_matches env h par leafp (Some expected))) (\<lambda>(matches, _).
     bindS (if matches then returnS None else actual_at par leafp) (\<lambda>actual.
     bindS (verify matches path (Some expected) actual) (\<lambda>_.
     let name = quarantine_name slot; qpath = VPath name in
     bindS (call ''move old node to quarantine'' path (rename_at env par (leaf_name path) quarantine name)) (\<lambda>_.
     bindS (see (\<lambda>h. relocated_state_matches env h quarantine qpath expected)) (\<lambda>relocated.
     bindS (if relocated then returnS None else actual_at quarantine qpath) (\<lambda>actual.
     bindS (verify relocated path (Some expected) actual) (\<lambda>_.
     bindS (call ''sync committed parent directory'' path (sync_at env)) (\<lambda>_.
     bindS (internal ''sync quarantine directory'' (sync_at env)) (\<lambda>_.
     bindS (see (\<lambda>h. stamp_at h quarantine qpath)) (\<lambda>s.
     bindS (expect_stamp s) (\<lambda>stamp. returnS (applied (witness_of stamp))))))))))))))"

definition write_directory_owner :: "host_env \<Rightarrow> ino \<Rightarrow> digest \<Rightarrow> u32 \<Rightarrow> (host, io_error, unit) op" where
  "write_directory_owner env d transaction index =
     bindS (create_new_file env d directory_owner_marker) (\<lambda>file.
     bindS (write_all env file (directory_owner_payload transaction index)) (\<lambda>_.
     bindS (sync_at env) (\<lambda>_. sync_at env)))"

definition apply_create_directory ::
    "host_env \<Rightarrow> digest \<Rightarrow> u32 \<Rightarrow> vpath \<Rightarrow> node_state \<Rightarrow> ino \<Rightarrow> applied_operation hop" where
  "apply_create_directory env transaction index path after par =
     bindS (liftS (leaf_path path)) (\<lambda>_.
     bindS (call ''create committed directory'' path (create_dir_at env par (leaf_name path))) (\<lambda>d.
     bindS (call ''set committed directory mode'' path (chmod env d (mode after))) (\<lambda>_.
     bindS (call ''sync committed directory'' path (sync_at env)) (\<lambda>_.
     bindS (call ''write directory ownership marker'' path (write_directory_owner env d transaction index)) (\<lambda>_.
     bindS (call ''sync committed parent directory'' path (sync_at env)) (\<lambda>_.
     bindS (see (\<lambda>h. stamp_handle h d path)) (\<lambda>stamp.
     returnS \<lparr>ap_metadata = None, ap_witness = witness_of stamp, ap_created = Some (path, d)\<rparr>)))))))"

definition apply_install_file ::
    "host_env \<Rightarrow> vpath \<Rightarrow> node_state \<Rightarrow> u32 \<Rightarrow> ino \<Rightarrow> ino \<Rightarrow> applied_operation hop" where
  "apply_install_file env path after slot par stage =
     bindS (liftS (leaf_path path)) (\<lambda>leafp.
     bindS (call ''install committed file'' path (hard_link_at env stage (stage_name slot) par (leaf_name path))) (\<lambda>_.
     bindS (see (\<lambda>h. state_matches env h par leafp (Some after))) (\<lambda>(matches, actual).
     bindS (verify matches path (Some after) actual) (\<lambda>_.
     bindS (call ''open committed file'' path (\<lambda>h. (resolve_at h par [leaf_name path], h))) (\<lambda>file.
     bindS (call ''sync committed file'' path (sync_at env)) (\<lambda>_.
     bindS (call ''sync committed parent directory'' path (sync_at env)) (\<lambda>_.
     bindS (see (\<lambda>h. stamp_handle h file path)) (\<lambda>stamp. returnS (applied (witness_of stamp))))))))))"

definition apply_install_symlink ::
    "host_env \<Rightarrow> vpath \<Rightarrow> node_state \<Rightarrow> u32 \<Rightarrow> ino \<Rightarrow> ino \<Rightarrow> applied_operation hop" where
  "apply_install_symlink env path after slot par stage =
     bindS (liftS (leaf_path path)) (\<lambda>leafp.
     bindS (call ''install committed symbolic link'' path
       (rename_at env stage (stage_link_name slot) par (leaf_name path))) (\<lambda>_.
     bindS (see (\<lambda>h. state_matches env h par leafp (Some after))) (\<lambda>(matches, actual).
     bindS (verify matches path (Some after) actual) (\<lambda>_.
     bindS (call ''sync committed parent directory'' path (sync_at env)) (\<lambda>_.
     bindS (see (\<lambda>h. stamp_at h par leafp)) (\<lambda>s.
     bindS (expect_stamp s) (\<lambda>stamp. returnS (applied (witness_of stamp)))))))))"

definition apply_set_file_mode ::
    "host_env \<Rightarrow> vpath \<Rightarrow> node_state \<Rightarrow> u32 \<Rightarrow> ino \<Rightarrow> witness option \<Rightarrow> applied_operation hop" where
  "apply_set_file_mode env path expected after_mode par source =
     bindS (liftS (leaf_path path)) (\<lambda>leafp.
     bindS (call ''pin file for metadata commit'' path (\<lambda>h. (open_file_for_mode h par (leaf_name path), h))) (\<lambda>file.
     bindS (see (\<lambda>h. stamp_handle h file path)) (\<lambda>before.
     bindS (see (\<lambda>h. file_state_matches env h file path expected)) (\<lambda>(matches, actual).
     bindS (verify matches path (Some expected) (Some actual)) (\<lambda>_.
     bindS (getS (\<lambda>h. is_single_link h file)) (\<lambda>single.
     bindS (see (\<lambda>h. stamp_at h par leafp)) (\<lambda>at_leaf.
     bindS (verify (source = Some (witness_of before) \<and> single \<and> at_leaf = Some before) path (Some expected)
       (Some (from_stamp before))) (\<lambda>_.
     bindS (call ''set committed file mode'' path (chmod env file after_mode)) (\<lambda>_.
     bindS (call ''sync committed file mode'' path (sync_at env)) (\<lambda>_.
     bindS (call ''sync committed mode parent'' path (sync_at env)) (\<lambda>_.
     bindS (see (\<lambda>h. stamp_handle h file path)) (\<lambda>stamp.
     bindS (see (\<lambda>h. stamp_at h par leafp)) (\<lambda>at_leaf.
     bindS (getS (\<lambda>h. is_single_link h file)) (\<lambda>single.
     bindS (verify (at_leaf = Some stamp \<and> single \<and> stamp_size stamp = stamp_size before \<and>
         mtime_ns stamp = mtime_ns before \<and> stamp_mode stamp = after_mode)
       path (Some (with_mode expected after_mode)) (Some (from_stamp stamp))) (\<lambda>_.
     returnS \<lparr>ap_metadata = Some stamp, ap_witness = witness_of stamp, ap_created = None\<rparr>)))))))))))))))"

text \<open>The file identity an expected state insists on.\<close>

definition other_identity :: "node_state \<Rightarrow> file_stamp \<Rightarrow> bool" where
  "other_identity expected stamp \<longleftrightarrow>
     (case content expected of Some (Stamp s) \<Rightarrow> file_id s \<noteq> file_id stamp | _ \<Rightarrow> False)"

definition apply_set_directory_mode ::
    "host_env \<Rightarrow> vpath \<Rightarrow> node_state \<Rightarrow> u32 \<Rightarrow> ino \<Rightarrow> witness option \<Rightarrow> applied_operation hop" where
  "apply_set_directory_mode env path expected after_mode par source =
     bindS (liftS (leaf_path path)) (\<lambda>_.
     bindS (call ''pin directory for metadata commit'' path (\<lambda>h. (open_real_dir h par (leaf_name path), h))) (\<lambda>d.
     bindS (see (\<lambda>h. stamp_handle h d path)) (\<lambda>before.
     bindS (verify (\<not> (stamp_kind before \<noteq> Directory \<or> stamp_mode before \<noteq> mode expected \<or>
         source \<noteq> Some (witness_of before) \<or> other_identity expected before))
       path (Some expected) (Some (from_stamp before))) (\<lambda>_.
     bindS (call ''set committed directory mode'' path (chmod env d after_mode)) (\<lambda>_.
     bindS (call ''sync committed directory mode'' path (sync_at env)) (\<lambda>_.
     bindS (call ''sync committed parent directory'' path (sync_at env)) (\<lambda>_.
     bindS (see (\<lambda>h. stamp_handle h d path)) (\<lambda>stamp. returnS (applied (witness_of stamp))))))))))"

fun apply_operation_host ::
    "host_env \<Rightarrow> digest \<Rightarrow> u32 \<Rightarrow> operation \<Rightarrow> ino \<Rightarrow> ino \<Rightarrow> ino \<Rightarrow> witness option \<Rightarrow> applied_operation hop" where
  "apply_operation_host env transaction index (Quarantine path expected slot) par stage quarantine source =
     apply_quarantine env path expected slot par quarantine"
| "apply_operation_host env transaction index (CreateDirectory path after) par stage quarantine source =
     apply_create_directory env transaction index path after par"
| "apply_operation_host env transaction index (InstallFile path after slot) par stage quarantine source =
     apply_install_file env path after slot par stage"
| "apply_operation_host env transaction index (InstallSymlink path after slot) par stage quarantine source =
     apply_install_symlink env path after slot par stage"
| "apply_operation_host env transaction index (SetFileMode path expected after_mode) par stage quarantine source =
     apply_set_file_mode env path expected after_mode par source"
| "apply_operation_host env transaction index (SetDirectoryMode path expected after_mode) par stage quarantine source =
     apply_set_directory_mode env path expected after_mode par source"

section \<open>Deciding whether an operation was applied\<close>

datatype recovery_stop = Conflict recovery_conflict | RecoveryPanic

type_synonym 'a rop = "(host, recovery_stop, 'a) op"

record operation_witnesses =
  ow_completed :: "witness option"
  ow_source :: "witness option"
  ow_parent :: "witness option"
  ow_metadata :: "file_stamp option"

definition recovery_conflict_at :: "digest \<Rightarrow> vpath \<Rightarrow> string \<Rightarrow> recovery_stop" where
  "recovery_conflict_at transaction path reason =
     Conflict \<lparr>rc_transaction = transaction, rc_path = Some path, rc_reason = reason\<rparr>"

text \<open>An observation or a call whose failure is a conflict, and a condition.\<close>

definition see_or :: "recovery_stop \<Rightarrow> (host \<Rightarrow> 'e + 'a) \<Rightarrow> 'a rop" where
  "see_or c f h = (map_err (\<lambda>_. c) (f h), h)"

definition call_or :: "recovery_stop \<Rightarrow> (host, io_error, 'a) op \<Rightarrow> 'a rop" where
  "call_or c m = map_errS (\<lambda>_. c) m"

definition require :: "recovery_stop \<Rightarrow> bool \<Rightarrow> unit rop" where
  "require c ok = (if ok then returnS () else failS c)"

text \<open>The leaf as a path; parsing it panics on a name that reads as a drive prefix.\<close>

definition rollback_leaf :: "vpath \<Rightarrow> vpath" where
  "rollback_leaf path = VPath (leaf_name path)"

definition check_leaf :: "vpath \<Rightarrow> unit rop" where
  "check_leaf path = (case leaf_path path of Inl _ \<Rightarrow> failS RecoveryPanic | Inr _ \<Rightarrow> returnS ())"

definition same_file_pair :: "host \<Rightarrow> ino \<Rightarrow> vpath \<Rightarrow> ino \<Rightarrow> vpath \<Rightarrow> host_error + bool" where
  "same_file_pair h d p e q =
     bindR (stamp_at h d p) (\<lambda>l. bindR (stamp_at h e q) (\<lambda>r.
       Ok (case (l, r) of
             (Some a, Some b) \<Rightarrow> stamp_kind a = stamp_kind b \<and> file_id a = file_id b
           | _ \<Rightarrow> False)))"

definition mode_owner_ok ::
    "host_env \<Rightarrow> host \<Rightarrow> vpath \<Rightarrow> node_state \<Rightarrow> u32 \<Rightarrow> operation_witnesses \<Rightarrow> ino \<Rightarrow> file_stamp \<Rightarrow> bool" where
  "mode_owner_ok env h path expected after_mode w file stamp \<longleftrightarrow>
     \<not> (stamp_kind stamp \<noteq> File \<or> ow_source w \<noteq> Some (witness_of stamp) \<or>
        is_some_and (ow_completed w) (\<lambda>c. c \<noteq> witness_of stamp) \<or> \<not> is_single_link h file \<or>
        stamp_mode stamp \<noteq> after_mode \<and> stamp_mode stamp \<noteq> mode expected \<or>
        is_some_and (ow_metadata w) (\<lambda>after. file_id after \<noteq> file_id stamp \<or>
          stamp_size after \<noteq> stamp_size stamp \<or> mtime_ns after \<noteq> mtime_ns stamp \<or>
          stamp_mode stamp = after_mode \<and> after \<noteq> stamp)) \<and>
     (case content expected of
        Some (Stamp before) \<Rightarrow> file_id before = file_id stamp \<and> stamp_size before = stamp_size stamp \<and>
          mtime_ns before = mtime_ns stamp
      | Some (Blob _) \<Rightarrow> (case file_state_matches env h file path (with_mode expected (stamp_mode stamp)) of
          Inr (True, _) \<Rightarrow> True | _ \<Rightarrow> False)
      | None \<Rightarrow> False)"

definition verify_mode_owner ::
    "host_env \<Rightarrow> digest \<Rightarrow> vpath \<Rightarrow> node_state \<Rightarrow> u32 \<Rightarrow> operation_witnesses \<Rightarrow> ino \<Rightarrow> file_stamp rop" where
  "verify_mode_owner env transaction path expected after_mode w file =
     (let c = recovery_conflict_at transaction path ''mode-changed file ownership or content changed'' in
      bindS (see_or c (\<lambda>h. stamp_handle h file path)) (\<lambda>stamp.
      bindS (getS (\<lambda>h. mode_owner_ok env h path expected after_mode w file stamp)) (\<lambda>ok.
      bindS (require c ok) (\<lambda>_. returnS stamp))))"

definition infer_quarantine ::
    "host_env \<Rightarrow> digest \<Rightarrow> vpath \<Rightarrow> node_state \<Rightarrow> u32 \<Rightarrow> ino \<Rightarrow> ino \<Rightarrow> bool rop" where
  "infer_quarantine env transaction path expected slot par quarantine =
     (let c = recovery_conflict_at transaction path; qpath = VPath (quarantine_name slot) in
      bindS (see_or (c ''cannot inspect incomplete quarantine operation'')
        (\<lambda>h. stamp_at h par (rollback_leaf path))) (\<lambda>original.
      bindS (see_or (c ''cannot inspect incomplete quarantine slot'') (\<lambda>h. stamp_at h quarantine qpath)) (\<lambda>quarantined.
      case (original, quarantined) of
        (Some _, None) \<Rightarrow> returnS False
      | (None, Some _) \<Rightarrow> see_or (c ''incomplete quarantine no longer matches the precondition'')
          (\<lambda>h. relocated_state_matches env h quarantine qpath expected)
      | _ \<Rightarrow> failS (c ''incomplete quarantine has ambiguous source and destination state''))))"

definition infer_create_directory :: "digest \<Rightarrow> u32 \<Rightarrow> vpath \<Rightarrow> ino \<Rightarrow> bool rop" where
  "infer_create_directory transaction index path par =
     (let c = recovery_conflict_at transaction path in
      bindS (see_or (c ''cannot inspect incomplete directory creation'')
        (\<lambda>h. stamp_at h par (rollback_leaf path))) (\<lambda>s.
      if s = None then returnS False
      else bindS (see_or (c ''cannot open incomplete created directory'')
          (\<lambda>h. open_real_dir h par (leaf_name path))) (\<lambda>d.
        bindS (see_or (c ''cannot verify incomplete directory ownership marker'')
          (\<lambda>h. directory_owner_matches h d transaction index)) (\<lambda>matches.
        if matches then returnS True
        else failS (c ''directory creation lacks a valid ownership marker'')))))"

definition infer_install_file :: "digest \<Rightarrow> vpath \<Rightarrow> u32 \<Rightarrow> ino \<Rightarrow> ino \<Rightarrow> bool rop" where
  "infer_install_file transaction path slot par stage =
     (let c = recovery_conflict_at transaction path in
      bindS (see_or (c ''cannot inspect incomplete file install'')
        (\<lambda>h. stamp_at h par (rollback_leaf path))) (\<lambda>s.
      if s = None then returnS False
      else bindS (see_or (c ''cannot prove incomplete file install ownership'')
          (\<lambda>h. same_file_pair h par (rollback_leaf path) stage (VPath (stage_name slot)))) (\<lambda>same.
        if same then returnS True
        else failS (c ''incomplete file install is not the staged inode''))))"

definition infer_install_symlink ::
    "host_env \<Rightarrow> digest \<Rightarrow> vpath \<Rightarrow> node_state \<Rightarrow> u32 \<Rightarrow> witness option \<Rightarrow> ino \<Rightarrow> ino \<Rightarrow> bool rop" where
  "infer_install_symlink env transaction path after slot source par stage =
     (let c = recovery_conflict_at transaction path in
      case source of
        None \<Rightarrow> failS (c ''symlink intent lacks its staged ownership witness'')
      | Some w \<Rightarrow>
          bindS (see_or (c ''cannot inspect incomplete symlink install'')
            (\<lambda>h. stamp_at h par (rollback_leaf path))) (\<lambda>destination.
          bindS (see_or (c ''cannot inspect staged symlink ownership'')
            (\<lambda>h. stamp_at h stage (VPath (stage_link_name slot)))) (\<lambda>staged.
          let ambiguous = failS (c ''incomplete symlink ownership is ambiguous'') in
          case (destination, staged) of
            (None, Some s) \<Rightarrow> if witness_of s = w then returnS False else ambiguous
          | (Some s, None) \<Rightarrow>
              if witness_of s \<noteq> w then ambiguous
              else bindS (see_or (c ''cannot verify incomplete symlink content'')
                  (\<lambda>h. state_matches env h par (rollback_leaf path) (Some after))) (\<lambda>(matches, _).
                if matches then returnS True else failS (c ''incomplete symlink content changed''))
          | (None, None) \<Rightarrow> returnS False
          | _ \<Rightarrow> ambiguous)))"

definition infer_set_file_mode ::
    "host_env \<Rightarrow> digest \<Rightarrow> vpath \<Rightarrow> node_state \<Rightarrow> u32 \<Rightarrow> operation_witnesses \<Rightarrow> ino \<Rightarrow> bool rop" where
  "infer_set_file_mode env transaction path expected after_mode w par =
     (let c = recovery_conflict_at transaction path in
      bindS (see_or (c ''cannot pin incomplete file mode change'')
        (\<lambda>h. open_file_for_mode h par (leaf_name path))) (\<lambda>file.
      bindS (verify_mode_owner env transaction path expected after_mode w file) (\<lambda>stamp.
      if stamp_mode stamp = after_mode then returnS True
      else if stamp_mode stamp = mode expected then returnS False
      else failS (c ''file has neither the old nor new mode''))))"

definition infer_set_directory_mode ::
    "digest \<Rightarrow> vpath \<Rightarrow> node_state \<Rightarrow> u32 \<Rightarrow> operation_witnesses \<Rightarrow> ino \<Rightarrow> bool rop" where
  "infer_set_directory_mode transaction path expected after_mode w par =
     (let c = recovery_conflict_at transaction path in
      bindS (see_or (c ''cannot inspect incomplete mode change'')
        (\<lambda>h. stamp_at h par (rollback_leaf path))) (\<lambda>s. case s of
        None \<Rightarrow> failS (c ''directory disappeared during incomplete mode change'')
      | Some stamp \<Rightarrow>
          if stamp_kind stamp \<noteq> Directory \<or> other_identity expected stamp \<or>
            is_some_and (ow_source w) (\<lambda>x. x \<noteq> witness_of stamp) \<or>
            is_some_and (ow_completed w) (\<lambda>x. x \<noteq> witness_of stamp)
          then failS (c ''directory identity changed during incomplete mode change'')
          else if stamp_mode stamp = after_mode then returnS True
          else if stamp_mode stamp = mode expected then returnS False
          else failS (c ''directory has neither the old nor new mode'')))"

fun is_mode_change :: "operation \<Rightarrow> bool" where
  "is_mode_change (SetFileMode _ _ _) = True"
| "is_mode_change (SetDirectoryMode _ _ _) = True"
| "is_mode_change _ = False"

definition infer_applied ::
    "host_env \<Rightarrow> digest \<Rightarrow> u32 \<Rightarrow> operation \<Rightarrow> operation_witnesses \<Rightarrow> ino \<Rightarrow> ino \<Rightarrow> ino \<Rightarrow> bool rop" where
  "infer_applied env transaction index opn w par stage quarantine =
     (if ow_completed w \<noteq> None \<and> \<not> is_mode_change opn then returnS True
      else bindS (check_leaf (op_path opn)) (\<lambda>_. case opn of
        Quarantine path expected slot \<Rightarrow> infer_quarantine env transaction path expected slot par quarantine
      | CreateDirectory path _ \<Rightarrow> infer_create_directory transaction index path par
      | InstallFile path _ slot \<Rightarrow> infer_install_file transaction path slot par stage
      | InstallSymlink path after slot \<Rightarrow>
          infer_install_symlink env transaction path after slot (ow_source w) par stage
      | SetFileMode path expected after_mode \<Rightarrow>
          infer_set_file_mode env transaction path expected after_mode w par
      | SetDirectoryMode path expected after_mode \<Rightarrow>
          infer_set_directory_mode transaction path expected after_mode w par))"

section \<open>Undoing one operation\<close>

definition undo_quarantine ::
    "host_env \<Rightarrow> digest \<Rightarrow> vpath \<Rightarrow> node_state \<Rightarrow> u32 \<Rightarrow> operation_witnesses \<Rightarrow> ino \<Rightarrow> ino \<Rightarrow> unit rop" where
  "undo_quarantine env transaction path expected slot w par quarantine =
     (let c = recovery_conflict_at transaction path; qname = quarantine_name slot; qpath = VPath qname in
      bindS (case ow_completed w of
          None \<Rightarrow> returnS True
        | Some x \<Rightarrow> see_or (c ''cannot verify quarantined ownership'') (\<lambda>h. witness_matches h quarantine qpath x)) (\<lambda>same.
      bindS (require (c ''quarantined node identity changed'') same) (\<lambda>_.
      bindS (see_or (c ''cannot verify quarantined node'')
        (\<lambda>h. relocated_state_matches env h quarantine qpath expected)) (\<lambda>matches.
      bindS (require (c ''quarantined node no longer matches its precondition'') matches) (\<lambda>_.
      bindS (see_or (c ''cannot inspect rollback destination'') (\<lambda>h. stamp_at h par (rollback_leaf path))) (\<lambda>s.
      bindS (require (c ''rollback destination is occupied'') (s = None)) (\<lambda>_.
      bindS (call_or (c ''cannot restore quarantined node'')
        (rename_at env quarantine qname par (leaf_name path))) (\<lambda>_.
      bindS (call_or (c ''cannot sync restored node'') (sync_at env)) (\<lambda>_.
      call_or (c ''cannot sync quarantine restoration'') (sync_at env))))))))))"

definition undo_create_directory ::
    "host_env \<Rightarrow> digest \<Rightarrow> u32 \<Rightarrow> vpath \<Rightarrow> operation_witnesses \<Rightarrow> ino \<Rightarrow> unit rop" where
  "undo_create_directory env transaction index path w par =
     (let c = recovery_conflict_at transaction path in
      bindS (case ow_completed w of
          Some x \<Rightarrow>
            bindS (see_or (c ''cannot verify created directory ownership'')
              (\<lambda>h. witness_matches h par (rollback_leaf path) x)) (\<lambda>same.
            require (c ''created directory identity changed'') same)
        | None \<Rightarrow>
            bindS (see_or (c ''cannot open incomplete created directory'')
              (\<lambda>h. open_real_dir h par (leaf_name path))) (\<lambda>d.
            bindS (see_or (c ''cannot verify created directory marker'')
              (\<lambda>h. directory_owner_matches h d transaction index)) (\<lambda>present.
            require (c ''created directory lacks a durable ownership proof'') present))) (\<lambda>_.
      bindS (see_or (c ''cannot open created directory for rollback'')
        (\<lambda>h. open_real_dir h par (leaf_name path))) (\<lambda>d.
      bindS (\<lambda>h. case remove_file_at env d directory_owner_marker h of
          (Inl Io_NotFound, h') \<Rightarrow> (Ok (), h')
        | (Inl _, h') \<Rightarrow> (Err (c ''cannot remove created-directory ownership marker''), h')
        | (Inr _, h') \<Rightarrow> (Ok (), h')) (\<lambda>_.
      bindS (call_or (c ''cannot sync created-directory marker removal'') (sync_at env)) (\<lambda>_.
      bindS (call_or (c ''created directory is not safely removable'')
        (remove_dir_at env par (leaf_name path))) (\<lambda>_.
      call_or (c ''cannot sync directory rollback'') (sync_at env)))))))"

definition undo_install_file ::
    "host_env \<Rightarrow> digest \<Rightarrow> vpath \<Rightarrow> node_state \<Rightarrow> u32 \<Rightarrow> operation_witnesses \<Rightarrow> ino \<Rightarrow> ino \<Rightarrow> unit rop" where
  "undo_install_file env transaction path after slot w par stage =
     (let c = recovery_conflict_at transaction path in
      bindS (case ow_completed w of
          Some x \<Rightarrow>
            bindS (see_or (c ''cannot verify installed node ownership'')
              (\<lambda>h. witness_matches h par (rollback_leaf path) x)) (\<lambda>same.
            require (c ''installed node identity changed'') same)
        | None \<Rightarrow>
            bindS (see_or (c ''cannot verify incomplete installed-file ownership'')
              (\<lambda>h. same_file_pair h par (rollback_leaf path) stage (VPath (stage_name slot)))) (\<lambda>same.
            require (c ''incomplete installed file is not the staged inode'') same)) (\<lambda>_.
      bindS (see_or (c ''cannot verify installed node content'')
        (\<lambda>h. state_matches env h par (rollback_leaf path) (Some after))) (\<lambda>(matches, _).
      bindS (require (c ''installed node content changed before rollback'') matches) (\<lambda>_.
      bindS (call_or (c ''cannot remove installed node'') (remove_file_at env par (leaf_name path))) (\<lambda>_.
      call_or (c ''cannot sync installed-node rollback'') (sync_at env))))))"

definition undo_install_symlink ::
    "host_env \<Rightarrow> digest \<Rightarrow> vpath \<Rightarrow> node_state \<Rightarrow> operation_witnesses \<Rightarrow> ino \<Rightarrow> unit rop" where
  "undo_install_symlink env transaction path after w par =
     (let c = recovery_conflict_at transaction path in
      case (case ow_completed w of None \<Rightarrow> ow_source w | Some x \<Rightarrow> Some x) of
        None \<Rightarrow> failS (c ''installed symlink lacks a durable ownership witness'')
      | Some x \<Rightarrow>
          bindS (see_or (c ''cannot verify installed symlink ownership'')
            (\<lambda>h. witness_matches h par (rollback_leaf path) x)) (\<lambda>same.
          bindS (require (c ''installed symlink identity changed'') same) (\<lambda>_.
          bindS (see_or (c ''cannot verify installed symlink content'')
            (\<lambda>h. state_matches env h par (rollback_leaf path) (Some after))) (\<lambda>(matches, _).
          bindS (require (c ''installed symlink changed before rollback'') matches) (\<lambda>_.
          bindS (call_or (c ''cannot remove installed symlink'') (remove_file_at env par (leaf_name path))) (\<lambda>_.
          call_or (c ''cannot sync installed-symlink rollback'') (sync_at env)))))))"

definition undo_set_file_mode ::
    "host_env \<Rightarrow> digest \<Rightarrow> vpath \<Rightarrow> node_state \<Rightarrow> u32 \<Rightarrow> operation_witnesses \<Rightarrow> ino \<Rightarrow> unit rop" where
  "undo_set_file_mode env transaction path expected after_mode w par =
     (let c = recovery_conflict_at transaction path in
      bindS (see_or (c ''cannot pin file for mode rollback'')
        (\<lambda>h. open_file_for_mode h par (leaf_name path))) (\<lambda>file.
      bindS (verify_mode_owner env transaction path expected after_mode w file) (\<lambda>stamp.
      if stamp_mode stamp = mode expected then returnS ()
      else bindS (call_or (c ''cannot restore file mode'') (chmod env file (mode expected))) (\<lambda>_.
        bindS (call_or (c ''cannot sync restored file mode'') (sync_at env)) (\<lambda>_.
        call_or (c ''cannot sync file mode rollback parent'') (sync_at env))))))"

definition undo_set_directory_mode ::
    "host_env \<Rightarrow> digest \<Rightarrow> vpath \<Rightarrow> node_state \<Rightarrow> u32 \<Rightarrow> operation_witnesses \<Rightarrow> ino \<Rightarrow> unit rop" where
  "undo_set_directory_mode env transaction path expected after_mode w par =
     (let c = recovery_conflict_at transaction path in
      bindS (case ow_completed w of
          None \<Rightarrow> returnS True
        | Some x \<Rightarrow> see_or (c ''cannot verify mode-change ownership'')
            (\<lambda>h. witness_matches h par (rollback_leaf path) x)) (\<lambda>same.
      bindS (require (c ''mode-changed directory identity changed'') same) (\<lambda>_.
      bindS (see_or (c ''cannot open directory for mode rollback'')
        (\<lambda>h. open_real_dir h par (leaf_name path))) (\<lambda>d.
      bindS (see_or (c ''cannot inspect pinned mode rollback directory'') (\<lambda>h. stamp_handle h d path)) (\<lambda>stamp.
      bindS (require (c ''pinned mode rollback directory identity changed'')
        (\<not> (is_some_and (ow_completed w) (\<lambda>x. x \<noteq> witness_of stamp) \<or>
            is_some_and (ow_source w) (\<lambda>x. x \<noteq> witness_of stamp) \<or> other_identity expected stamp))) (\<lambda>_.
      if stamp_mode stamp = mode expected then returnS ()
      else bindS (require (c ''directory has neither the old nor new mode'') (stamp_mode stamp = after_mode)) (\<lambda>_.
        bindS (call_or (c ''cannot restore directory mode'') (chmod env d (mode expected))) (\<lambda>_.
        call_or (c ''cannot sync restored directory mode'') (sync_at env)))))))))"

definition undo_operation ::
    "host_env \<Rightarrow> digest \<Rightarrow> u32 \<Rightarrow> operation \<Rightarrow> operation_witnesses \<Rightarrow> ino \<Rightarrow> ino \<Rightarrow> ino \<Rightarrow> unit rop" where
  "undo_operation env transaction index opn w par stage quarantine =
     bindS (check_leaf (op_path opn)) (\<lambda>_. case opn of
       Quarantine path expected slot \<Rightarrow> undo_quarantine env transaction path expected slot w par quarantine
     | CreateDirectory path _ \<Rightarrow> undo_create_directory env transaction index path w par
     | InstallFile path after slot \<Rightarrow> undo_install_file env transaction path after slot w par stage
     | InstallSymlink path after slot \<Rightarrow> undo_install_symlink env transaction path after w par
     | SetFileMode path expected after_mode \<Rightarrow> undo_set_file_mode env transaction path expected after_mode w par
     | SetDirectoryMode path expected after_mode \<Rightarrow>
         undo_set_directory_mode env transaction path expected after_mode w par)"

section \<open>Rollback\<close>

definition open_recovery_parent :: "digest \<Rightarrow> vpath \<Rightarrow> witness option \<Rightarrow> ino rop" where
  "open_recovery_parent transaction path expected = (case parent path of
     None \<Rightarrow> failS (recovery_conflict_at transaction path ''recovery operation targets the workspace root'')
   | Some par \<Rightarrow>
       (let c = recovery_conflict_at transaction par in
        case expected of
          None \<Rightarrow> failS (c ''recovery intent lacks a parent-directory witness'')
        | Some w \<Rightarrow>
            bindS (see_or (c ''cannot open witnessed recovery parent'') (\<lambda>h.
              bindR (resolve_at h (h_root h) (components par)) (\<lambda>d.
                if kind_at h d = Some Directory then Ok d else Err Io_NotADirectory))) (\<lambda>d.
            bindS (see_or (c ''cannot inspect witnessed recovery parent'') (\<lambda>h. stamp_handle h d par)) (\<lambda>stamp.
            bindS (require (c ''recovery parent identity changed'') (witness_of stamp = w)) (\<lambda>_. returnS d)))))"

definition operation_witnesses_at :: "journal_state \<Rightarrow> u32 \<Rightarrow> operation_witnesses" where
  "operation_witnesses_at journal index =
     \<lparr>ow_completed = witness_at journal index, ow_source = intent_witness journal index,
      ow_parent = parent_witness journal index, ow_metadata = map_of (js_metadata journal) index\<rparr>"

text \<open>One round of the loop, and the loop over the operations from the last to the first.\<close>

definition rollback_step ::
    "host_env \<Rightarrow> digest \<Rightarrow> journal_state \<Rightarrow> ino \<Rightarrow> ino \<Rightarrow> nat \<times> operation \<Rightarrow> unit rop" where
  "rollback_step env transaction journal stage quarantine = (\<lambda>(i, opn).
     if 2 ^ 32 \<le> i
     then failS (Conflict \<lparr>rc_transaction = transaction, rc_path = None,
       rc_reason = ''operation index overflow during recovery''\<rparr>)
     else let index = of_nat i in
       if \<not> has_intent journal index then returnS ()
       else let w = operation_witnesses_at journal index in
         bindS (open_recovery_parent transaction (op_path opn) (ow_parent w)) (\<lambda>par.
         bindS (infer_applied env transaction index opn w par stage quarantine) (\<lambda>applied.
         if \<not> applied then returnS ()
         else undo_operation env transaction index opn w par stage quarantine)))"

definition rollback :: "host_env \<Rightarrow> prepared_plan \<Rightarrow> journal_state \<Rightarrow> ino \<Rightarrow> ino \<Rightarrow> unit rop" where
  "rollback env plan journal stage quarantine =
     forS (rev (enumerate 0 (pp_operations plan)))
       (rollback_step env (pp_transaction plan) journal stage quarantine)"

end
