(* ===== verification/Committer.thy ===== *)
theory Committer
  imports Commit
begin

text \<open>
  The commit protocol and its recovery (\<open>Committer\<close> in \<open>crates/vsh-commit/src/committer.rs\<close>): staging,
  revalidation, pinned parents, the journalled operations, verification, the commit marker, and
  \<open>recover\<close>.  The state is the file system, the transaction store, and the transaction directories
  with their plan, journal and marker files.  The store is the memory store, which the durable one
  refines; \<open>\<lambda>p. p \<in> faults\<close> of the fault injector is a predicate.
\<close>

section \<open>State\<close>

record txdir =
  td_plan :: "bytes option"
  td_journal :: "bytes option"
  td_marker :: "bytes option"
  td_stage :: "ino option"
  td_quarantine :: "ino option"

record site =
  s_host :: host
  s_store :: memory_store
  s_blobs :: blob_files
  s_dirs :: "(string, txdir) btree"

record commit_config =
  cf_max_operations :: nat
  cf_max_dependencies :: nat
  cf_max_path_bytes :: nat
  cf_max_plan_bytes :: nat
  cf_max_journal_bytes :: nat
  cf_max_conflicts :: nat

definition default_commit_config :: commit_config where
  "default_commit_config = \<lparr>cf_max_operations = 100000, cf_max_dependencies = 250000,
     cf_max_path_bytes = 16 * 1024, cf_max_plan_bytes = 128 * 1024 * 1024,
     cf_max_journal_bytes = 64 * 1024 * 1024, cf_max_conflicts = 128\<rparr>"

type_synonym 'a cop = "(site, commit_error, 'a) op"

definition on_host :: "(host, 'e, 'a) op \<Rightarrow> (site, 'e, 'a) op" where
  "on_host m s = (let (r, h) = m (s_host s) in (r, s\<lparr>s_host := h\<rparr>))"

definition look :: "(host \<Rightarrow> commit_error + 'a) \<Rightarrow> 'a cop" where
  "look f s = (f (s_host s), s)"

definition empty_txdir :: txdir where
  "empty_txdir = \<lparr>td_plan = None, td_journal = None, td_marker = None, td_stage = None, td_quarantine = None\<rparr>"

definition tx_at :: "string \<Rightarrow> site \<Rightarrow> txdir" where
  "tx_at name s = (case map_of (s_dirs s) name of None \<Rightarrow> empty_txdir | Some d \<Rightarrow> d)"

definition upd_tx :: "string \<Rightarrow> (txdir \<Rightarrow> txdir) \<Rightarrow> site \<Rightarrow> site" where
  "upd_tx name f s = s\<lparr>s_dirs := bt_insert name (f (tx_at name s)) (s_dirs s)\<rparr>"

text \<open>A call outside the workspace tree; when it is the one the run stops at, only \<open>torn\<close> happened.\<close>

definition site_call :: "host_env \<Rightarrow> (site \<Rightarrow> site) \<Rightarrow> (site \<Rightarrow> site) \<Rightarrow> (site, io_error, unit) op" where
  "site_call env whole torn s =
     (let t = h_tick (s_host s); s' = s\<lparr>s_host := (s_host s)\<lparr>h_tick := Suc t\<rparr>\<rparr> in
      if he_stop env t then (Err Io_Failed, torn s') else (Ok (), whole s'))"

definition create_tx_file ::
    "host_env \<Rightarrow> string \<Rightarrow> (txdir \<Rightarrow> bytes option) \<Rightarrow> ((bytes option \<Rightarrow> bytes option) \<Rightarrow> txdir \<Rightarrow> txdir) \<Rightarrow>
     (site, io_error, unit) op" where
  "create_tx_file env name field upd s =
     (if field (tx_at name s) \<noteq> None then (Err Io_AlreadyExists, s)
      else site_call env (upd_tx name (upd (\<lambda>_. Some []))) (\<lambda>s. s) s)"

definition write_tx_file ::
    "host_env \<Rightarrow> string \<Rightarrow> ((bytes option \<Rightarrow> bytes option) \<Rightarrow> txdir \<Rightarrow> txdir) \<Rightarrow> bytes \<Rightarrow>
     (site, io_error, unit) op" where
  "write_tx_file env name upd data s =
     site_call env (upd_tx name (upd (map_option (\<lambda>b. b @ data))))
       (upd_tx name (upd (map_option (\<lambda>b. b @ take (he_torn env (h_tick (s_host s))) data)))) s"

definition sync_tx :: "host_env \<Rightarrow> (site, io_error, unit) op" where
  "sync_tx env = site_call env (\<lambda>s. s) (\<lambda>s. s)"

definition open_or_create_dir ::
    "host_env \<Rightarrow> string \<Rightarrow> (txdir \<Rightarrow> ino option) \<Rightarrow> ((ino option \<Rightarrow> ino option) \<Rightarrow> txdir \<Rightarrow> txdir) \<Rightarrow>
     (site, io_error, ino) op" where
  "open_or_create_dir env name field upd s =
     (case field (tx_at name s) of
        Some d \<Rightarrow> (Ok d, s)
      | None \<Rightarrow>
          (let t = h_tick (s_host s); x = he_alloc env t; now = he_time env t;
               i = \<lparr>i_kind = Directory, i_mode = he_dir_mode env, i_mtime = now, i_ctime = now, i_links = 1,
                 i_data = [], i_names = []\<rparr> in
           bindS (site_call env (\<lambda>s. upd_tx name (upd (\<lambda>_. Some x)) (s\<lparr>s_host := new_inode x i (s_host s)\<rparr>)) (\<lambda>s. s))
             (\<lambda>_. returnS x) s))"

definition internalS :: "string \<Rightarrow> (site, io_error, 'a) op \<Rightarrow> 'a cop" where
  "internalS label m = map_errS (CE_InternalIo label) m"

section \<open>The transaction store\<close>

definition tx_record :: "digest \<Rightarrow> site \<Rightarrow> tx_store_error + transaction_record" where
  "tx_record i s = fst (mem_get i (s_store s))"

definition store_cat :: "host_env \<Rightarrow> digest \<Rightarrow> tx_state \<Rightarrow> tx_state \<Rightarrow> unit cop" where
  "store_cat env i expected next s =
     (let t = h_tick (s_host s); s' = s\<lparr>s_host := (s_host s)\<lparr>h_tick := Suc t\<rparr>\<rparr> in
      if he_stop env t then (Err (CE_Store (PersistentIo ''append'' 0)), s')
      else case mem_compare_and_transition i expected next (s_store s') of
        (Inl e, st) \<Rightarrow> (Err (CE_Store e), s'\<lparr>s_store := st\<rparr>)
      | (Inr _, st) \<Rightarrow> (Ok (), s'\<lparr>s_store := st\<rparr>))"

text \<open>\<open>let _ = m;\<close>\<close>

definition ignore_result :: "'a cop \<Rightarrow> unit cop" where
  "ignore_result m s = (Ok (), snd (m s))"

definition check_fault :: "(fault_point \<Rightarrow> bool) \<Rightarrow> fault_point \<Rightarrow> unit cop" where
  "check_fault faults point = (if faults point then failS (CE_FaultInjected point) else returnS ())"

section \<open>Plan and journal files\<close>

definition write_plan :: "host_env \<Rightarrow> string \<Rightarrow> bytes \<Rightarrow> unit cop" where
  "write_plan env name bytes =
     bindS (internalS ''create durable commit plan'' (create_tx_file env name td_plan td_plan_update)) (\<lambda>_.
     bindS (internalS ''write durable commit plan'' (write_tx_file env name td_plan_update bytes)) (\<lambda>_.
     bindS (internalS ''sync durable commit plan'' (sync_tx env)) (\<lambda>_.
     internalS ''sync durable commit-plan directory'' (sync_tx env))))"

definition create_journal :: "host_env \<Rightarrow> string \<Rightarrow> bool \<Rightarrow> (site, io_error, unit) op" where
  "create_journal env name meta =
     bindS (create_tx_file env name td_journal td_journal_update) (\<lambda>_.
     bindS (write_tx_file env name td_journal_update (journal_create meta)) (\<lambda>_.
     bindS (sync_tx env) (\<lambda>_. sync_tx env)))"

text \<open>An append of \<open>Journal\<close> on the file of the transaction.\<close>

definition journal_write ::
    "host_env \<Rightarrow> string \<Rightarrow> (bytes, journal_error, unit) op \<Rightarrow> (site, io_error, unit) op" where
  "journal_write env name m s =
     (case td_journal (tx_at name s) of
        None \<Rightarrow> (Err Io_NotFound, s)
      | Some file \<Rightarrow> (case m file of
          (Inl _, _) \<Rightarrow> (Err Io_InvalidInput, s)
        | (Inr _, file') \<Rightarrow>
            bindS (write_tx_file env name td_journal_update (drop (length file) file')) (\<lambda>_. sync_tx env) s))"

definition write_commit_marker :: "host_env \<Rightarrow> string \<Rightarrow> digest \<Rightarrow> (site, io_error, unit) op" where
  "write_commit_marker env name transaction =
     bindS (create_tx_file env name td_marker td_marker_update) (\<lambda>_.
     bindS (write_tx_file env name td_marker_update (commit_marker (he_blake3 env) transaction)) (\<lambda>_.
     bindS (sync_tx env) (\<lambda>_. sync_tx env)))"

section \<open>Staging\<close>

definition stage_one :: "host_env \<Rightarrow> blob_files \<Rightarrow> ino \<Rightarrow> operation \<Rightarrow> unit hop" where
  "stage_one env files stage opn =
     (case (case opn of InstallFile _ after slot \<Rightarrow> Some (after, slot)
            | InstallSymlink _ after slot \<Rightarrow> Some (after, slot) | _ \<Rightarrow> None) of
        None \<Rightarrow> returnS ()
      | Some (after, slot) \<Rightarrow> (case content after of
          Some (Blob blob) \<Rightarrow>
            bindS (liftS (map_err CE_Blob (blob_get (he_blake3 env) (he_blob_fault env) blob files))) (\<lambda>bytes.
            if len64 bytes \<noteq> nsize after
            then failS (CE_Blob (BlobCorrupt blob (blob_digest (he_blake3 env) bytes)))
            else
              bindS (internal ''create staged content'' (create_new_file env stage (stage_name slot))) (\<lambda>file.
              bindS (internal ''write staged content'' (write_all env file bytes)) (\<lambda>_.
              bindS (if kind after = File
                     then internal ''set staged file mode'' (chmod env file (mode after)) else returnS ()) (\<lambda>_.
              bindS (internal ''sync staged content'' (sync_at env)) (\<lambda>_.
              if kind after \<noteq> Symlink then returnS ()
              else
                bindS (liftS (map_err CE_Host (validate_symlink_target (op_path opn) bytes))) (\<lambda>target.
                bindS (call ''create symbolic link'' (op_path opn)
                  (symlink_contents env target stage (stage_link_name slot))) (\<lambda>_.
                bindS (see (\<lambda>h. state_matches env h stage (VPath (stage_link_name slot)) (Some after))) (\<lambda>(matches, actual).
                verify matches (op_path opn) (Some after) actual))))))))
        | _ \<Rightarrow> failS (CE_Plan (PlanError (UnmaterializedAfterState (op_path opn))))))"

definition stage_content :: "host_env \<Rightarrow> prepared_plan \<Rightarrow> ino \<Rightarrow> unit cop" where
  "stage_content env plan stage s =
     on_host (forS (pp_operations plan) (stage_one env (s_blobs s) stage)) s"

section \<open>Revalidation\<close>

definition revalidate_read ::
    "host_env \<Rightarrow> commit_config \<Rightarrow> host \<Rightarrow> vpath \<Rightarrow> read_observation \<Rightarrow> commit_error + revalidation_conflict list" where
  "revalidate_read env cfg h path obs =
     bindR (case obs_metadata obs of
         None \<Rightarrow> Ok []
       | Some expected \<Rightarrow> bindR (map_err CE_Host (state_matches env h (h_root h) path expected)) (\<lambda>(matches, actual).
           Ok (if matches then [] else [RC_Metadata path expected actual]))) (\<lambda>c1.
     if c1 \<noteq> [] then Ok c1
     else bindR (case obs_content obs of
         None \<Rightarrow> Ok []
       | Some expected \<Rightarrow> bindR (map_err CE_Host (content_digest env h (h_root h) path)) (\<lambda>actual.
           Ok (if actual = expected then [] else [RC_Content path expected actual]))) (\<lambda>c2.
     if c2 \<noteq> [] then Ok c2
     else case obs_directory obs of
         None \<Rightarrow> Ok []
       | Some expected \<Rightarrow>
           bindR (map_err CE_Host (directory_digest_at env h (h_root h) path (cf_max_dependencies cfg))) (\<lambda>actual.
             Ok (if actual = expected then [] else [RC_Directory path expected actual]))))"

text \<open>The two loops; \<open>cs\<close> are the conflicts found so far.\<close>

fun revalidate_reads ::
    "host_env \<Rightarrow> commit_config \<Rightarrow> host \<Rightarrow> (vpath, read_observation) btree \<Rightarrow> revalidation_conflict list \<Rightarrow>
     commit_error + revalidation_conflict list" where
  "revalidate_reads env cfg h [] cs = Ok cs"
| "revalidate_reads env cfg h ((path, obs) # rest) cs =
     bindR (revalidate_read env cfg h path obs) (\<lambda>new.
       if cf_max_conflicts cfg \<le> length (cs @ new) then Ok (cs @ new)
       else revalidate_reads env cfg h rest (cs @ new))"

fun revalidate_writes ::
    "host_env \<Rightarrow> commit_config \<Rightarrow> host \<Rightarrow> (vpath, write_precondition) btree \<Rightarrow> revalidation_conflict list \<Rightarrow>
     commit_error + revalidation_conflict list" where
  "revalidate_writes env cfg h [] cs = Ok cs"
| "revalidate_writes env cfg h ((path, pre) # rest) cs =
     bindR (map_err CE_Host (state_matches env h (h_root h) path (wp_expected pre))) (\<lambda>(matches, actual).
       if matches then revalidate_writes env cfg h rest cs
       else let cs' = cs @ [RC_Metadata path (wp_expected pre) actual] in
         if cf_max_conflicts cfg \<le> length cs' then Ok cs' else revalidate_writes env cfg h rest cs')"

definition revalidate ::
    "host_env \<Rightarrow> commit_config \<Rightarrow> commit_plan \<Rightarrow> host \<Rightarrow> commit_error + revalidation_conflict list" where
  "revalidate env cfg plan h =
     (let dependency_count = length (pl_read_set plan) + length (pl_write_set plan) in
      if cf_max_dependencies cfg < dependency_count
      then Err (CE_DependencyLimit dependency_count (cf_max_dependencies cfg))
      else bindR (revalidate_reads env cfg h (pl_read_set plan) []) (\<lambda>cs.
        if pl_read_set plan \<noteq> [] \<and> cf_max_conflicts cfg \<le> length cs then Ok cs
        else revalidate_writes env cfg h (pl_write_set plan) cs))"

section \<open>Pinned parent directories\<close>

definition operation_parent :: "operation \<Rightarrow> commit_error + vpath" where
  "operation_parent opn = ok_or (parent (op_path opn)) CE_Panic"

fun operation_parents :: "operation list \<Rightarrow> commit_error + vpath list" where
  "operation_parents [] = Ok []"
| "operation_parents (opn # ops) =
     bindR (operation_parent opn) (\<lambda>p. bindR (operation_parents ops) (\<lambda>ps. Ok (bs_insert p ps)))"

definition open_dir_at :: "host \<Rightarrow> ino \<Rightarrow> vpath \<Rightarrow> io_error + ino" where
  "open_dir_at h d path = bindR (resolve_at h d (components path)) (\<lambda>x.
     if kind_at h x = Some Directory then Ok x else Err Io_NotADirectory)"

text \<open>One round of the loop: the pinned handle, a conflict, or nothing.\<close>

definition pin_parent ::
    "host \<Rightarrow> (vpath, read_observation) btree \<Rightarrow> vpath \<Rightarrow> commit_error + ino option \<times> revalidation_conflict list" where
  "pin_parent h reads par =
     bindR (ok_or (Option.bind (map_of reads par) obs_metadata) CE_Panic) (\<lambda>observed. case observed of
       None \<Rightarrow> Ok (None, [])
     | Some expected \<Rightarrow> (case (if is_root par then Ok (h_root h) else open_dir_at h (h_root h) par) of
         Inl _ \<Rightarrow> bindR (map_err CE_Host (stamp_at h (h_root h) par)) (\<lambda>s.
           Ok (None, [RC_Metadata par (Some expected) (map_option from_stamp s)]))
       | Inr d \<Rightarrow> bindR (map_err CE_Host (stamp_handle h d par)) (\<lambda>stamp.
           if from_stamp stamp \<noteq> expected
           then Ok (None, [RC_Metadata par (Some expected) (Some (from_stamp stamp))])
           else Ok (Some d, []))))"

fun pin_parents ::
    "host \<Rightarrow> (vpath, read_observation) btree \<Rightarrow> vpath list \<Rightarrow>
     commit_error + (vpath, ino) btree \<times> revalidation_conflict list" where
  "pin_parents h reads [] = Ok ([], [])"
| "pin_parents h reads (p # ps) =
     bindR (pin_parent h reads p) (\<lambda>(pin, c). bindR (pin_parents h reads ps) (\<lambda>(pins, cs).
       Ok (case pin of None \<Rightarrow> pins | Some d \<Rightarrow> bt_insert p d pins, c @ cs)))"

definition pin_parent_directories ::
    "commit_plan \<Rightarrow> prepared_plan \<Rightarrow> host \<Rightarrow> commit_error + (vpath, ino) btree" where
  "pin_parent_directories plan prepared h =
     bindR (operation_parents (pp_operations prepared)) (\<lambda>ps.
     bindR (pin_parents h (pl_read_set plan) ps) (\<lambda>(pins, cs).
       if cs = [] then Ok pins else Err (CE_Stale cs)))"

definition validate_pinned_parent :: "vpath \<Rightarrow> ino \<Rightarrow> host \<Rightarrow> commit_error + unit" where
  "validate_pinned_parent path pinned h =
     bindR (map_err CE_Host (stamp_handle h pinned path)) (\<lambda>expected.
     bindR (map_err CE_Host (stamp_at h (h_root h) path)) (\<lambda>actual.
       if is_some_and actual (\<lambda>s. stamp_kind s = Directory \<and> file_id s = file_id expected) then Ok ()
       else Err (CE_Stale [RC_Metadata path (Some (from_stamp expected)) (map_option from_stamp actual)])))"

definition operation_source_witness :: "operation \<Rightarrow> ino \<Rightarrow> ino \<Rightarrow> host \<Rightarrow> commit_error + witness option" where
  "operation_source_witness opn par stage h = (case opn of
     SetFileMode path _ _ \<Rightarrow>
       bindR (map_err (\<lambda>e. CE_Host (HostIo ''pin metadata intent source'' path e))
         (open_file_for_mode h par (leaf_name path))) (\<lambda>file.
       if \<not> is_single_link h file
       then Err (CE_Host (HostIo ''validate metadata source'' path Io_Unsupported))
       else bindR (map_err CE_Host (stamp_handle h file path)) (\<lambda>s. Ok (Some (witness_of s))))
   | SetDirectoryMode path _ _ \<Rightarrow>
       bindR (map_err (\<lambda>e. CE_Host (HostIo ''pin directory metadata intent'' path e))
         (open_real_dir h par (leaf_name path))) (\<lambda>d.
       bindR (map_err CE_Host (stamp_handle h d path)) (\<lambda>s. Ok (Some (witness_of s))))
   | InstallSymlink path _ slot \<Rightarrow>
       bindR (map_err CE_Host (stamp_at h stage (VPath (stage_link_name slot)))) (\<lambda>s. case s of
         None \<Rightarrow> Err (CE_Host (HostIo ''inspect staged symbolic link'' path Io_NotFound))
       | Some stamp \<Rightarrow> Ok (Some (witness_of stamp)))
   | _ \<Rightarrow> Ok None)"

section \<open>The journalled operations\<close>

record progress =
  pg_parents :: "(vpath, ino) btree"
  pg_witnesses :: "witness list"
  pg_stamps :: "(u32, file_stamp) btree"

definition commit_operation ::
    "host_env \<Rightarrow> (fault_point \<Rightarrow> bool) \<Rightarrow> string \<Rightarrow> digest \<Rightarrow> ino \<Rightarrow> ino \<Rightarrow> nat \<Rightarrow> operation \<Rightarrow> progress \<Rightarrow>
     progress cop" where
  "commit_operation env faults name transaction stage quarantine i opn pg =
     (if 2 ^ 32 \<le> i then failS (CE_Plan (PlanError OperationCountOverflow))
      else let index = of_nat i in
       bindS (liftS (operation_parent opn)) (\<lambda>par_path.
       bindS (liftS (ok_or (map_of (pg_parents pg) par_path)
         (CE_InternalIo ''locate pinned commit parent'' Io_InvalidData))) (\<lambda>par.
       bindS (look (operation_source_witness opn par stage)) (\<lambda>source.
       bindS (look (\<lambda>h. map_err CE_Host (stamp_handle h par par_path))) (\<lambda>stamp.
       bindS (internalS ''sync commit intent''
         (journal_write env name (journal_intent (he_blake3 env) index source (witness_of stamp)))) (\<lambda>_.
       bindS (check_fault faults (IntentSynced index)) (\<lambda>_.
       bindS (look (validate_pinned_parent par_path par)) (\<lambda>_.
       bindS (on_host (apply_operation_host env transaction index opn par stage quarantine source)) (\<lambda>ap.
       let parents = (case ap_created ap of None \<Rightarrow> pg_parents pg | Some (p, d) \<Rightarrow> bt_insert p d (pg_parents pg));
           stamps = (case ap_metadata ap of None \<Rightarrow> pg_stamps pg | Some st \<Rightarrow> bt_insert index st (pg_stamps pg)) in
       bindS (check_fault faults (OperationApplied index)) (\<lambda>_.
       bindS (internalS ''sync commit completion'' (journal_write env name
         (case ap_metadata ap of
            Some st \<Rightarrow> journal_metadata_done (he_blake3 env) index st
          | None \<Rightarrow> journal_done (he_blake3 env) index (ap_witness ap)))) (\<lambda>_.
       bindS (check_fault faults (DoneSynced index)) (\<lambda>_.
       returnS \<lparr>pg_parents = parents, pg_witnesses = pg_witnesses pg @ [ap_witness ap], pg_stamps = stamps\<rparr>))))))))))))"

fun commit_operations ::
    "host_env \<Rightarrow> (fault_point \<Rightarrow> bool) \<Rightarrow> string \<Rightarrow> digest \<Rightarrow> ino \<Rightarrow> ino \<Rightarrow> nat \<Rightarrow> operation list \<Rightarrow> progress \<Rightarrow>
     progress cop" where
  "commit_operations env faults name transaction stage quarantine i [] pg = returnS pg"
| "commit_operations env faults name transaction stage quarantine i (opn # ops) pg =
     bindS (commit_operation env faults name transaction stage quarantine i opn pg) (\<lambda>pg'.
       commit_operations env faults name transaction stage quarantine (Suc i) ops pg')"

definition clear_operation_marker ::
    "host_env \<Rightarrow> digest \<Rightarrow> u32 \<Rightarrow> operation \<Rightarrow> (vpath, ino) btree \<Rightarrow> witness \<Rightarrow> unit hop" where
  "clear_operation_marker env transaction index opn parents w = (case opn of
     CreateDirectory path _ \<Rightarrow>
       bindS (liftS (ok_or (map_of parents path)
         (CE_InternalIo ''locate pinned created directory'' Io_InvalidData))) (\<lambda>d.
       bindS (see (\<lambda>h. stamp_handle h d path)) (\<lambda>stamp.
       if witness_of stamp \<noteq> w
       then failS (CE_InternalIo ''created directory ownership witness mismatch'' Io_InvalidData)
       else bindS (call ''verify directory ownership marker'' path
           (\<lambda>h. (directory_owner_matches h d transaction index, h))) (\<lambda>matches.
         if \<not> matches then failS (CE_InternalIo ''directory ownership marker mismatch'' Io_InvalidData)
         else bindS (call ''remove directory ownership marker'' path
             (remove_file_at env d directory_owner_marker)) (\<lambda>_.
           call ''sync directory ownership marker removal'' path (sync_at env)))))
   | _ \<Rightarrow> returnS ())"

definition clear_markers_step ::
    "host_env \<Rightarrow> digest \<Rightarrow> progress \<Rightarrow> nat \<times> operation \<Rightarrow> unit hop" where
  "clear_markers_step env transaction pg = (\<lambda>(i, opn).
     bindS (case opn of
         CreateDirectory path _ \<Rightarrow> (case map_of (pg_parents pg) path of
             Some d \<Rightarrow> (\<lambda>h. (validate_pinned_parent path d h, h))
           | None \<Rightarrow> returnS ())
       | _ \<Rightarrow> returnS ()) (\<lambda>_.
     if 2 ^ 32 \<le> i then failS (CE_Plan (PlanError OperationCountOverflow))
     else clear_operation_marker env transaction (of_nat i) opn (pg_parents pg) (pg_witnesses pg ! i)))"

section \<open>Verification of the final state\<close>

fun verify_directory_modes ::
    "host \<Rightarrow> (u32 \<Rightarrow> witness option) \<Rightarrow> (nat \<times> operation) list \<Rightarrow> commit_error + unit" where
  "verify_directory_modes h completed [] = Ok ()"
| "verify_directory_modes h completed ((i, opn) # ops) =
     bindR (case opn of
         SetDirectoryMode path expected after_mode \<Rightarrow>
           if 2 ^ 32 \<le> i then Err (CE_Plan (PlanError OperationCountOverflow))
           else bindR (map_err CE_Host (stamp_at h (h_root h) path)) (\<lambda>s.
             if is_some_and s (\<lambda>stamp. stamp_mode stamp = after_mode \<and> stamp_kind stamp = Directory \<and>
               completed (of_nat i) = Some (witness_of stamp)) then Ok ()
             else Err (CE_Verification path (Some (directory_state after_mode)) (map_option from_stamp s)))
       | _ \<Rightarrow> Ok ()) (\<lambda>_. verify_directory_modes h completed ops)"

definition metadata_paths :: "prepared_plan \<Rightarrow> (u32, file_stamp) btree \<Rightarrow> (vpath, file_stamp) btree" where
  "metadata_paths plan stamps = fold (\<lambda>(index, stamp) m.
     if unat index < length (pp_operations plan) \<and> is_set_file_mode (pp_operations plan ! unat index)
     then bt_insert (op_path (pp_operations plan ! unat index)) stamp m else m) stamps []"

definition verify_final_state ::
    "host_env \<Rightarrow> host \<Rightarrow> (vpath, file_stamp) btree \<Rightarrow> vpath \<times> node_state option \<Rightarrow> commit_error + unit" where
  "verify_final_state env h stamps = (\<lambda>(path, expected).
     let exact = (case map_of stamps path of Some st \<Rightarrow> Some (from_stamp st) | None \<Rightarrow> expected) in
     bindR (map_err CE_Host (state_matches env h (h_root h) path exact)) (\<lambda>(matches, actual).
     bindR (case (map_of stamps path, expected) of
         (Some st, Some e) \<Rightarrow>
           if is_blob e
           then bindR (map_err (\<lambda>e. CE_Host (HostIo ''pin approved final file'' path e))
                 (open_real_file h (h_root h) (components path))) (\<lambda>file.
             bindR (map_err CE_Host (file_state_matches env h file path e)) (\<lambda>(same, _).
             bindR (map_err CE_Host (stamp_handle h file path)) (\<lambda>now.
             bindR (map_err CE_Host (stamp_at h (h_root h) path)) (\<lambda>at_path.
               Ok (same \<and> now = st \<and> at_path = Some st)))))
           else Ok True
       | _ \<Rightarrow> Ok True) (\<lambda>approved.
       if \<not> matches \<or> \<not> approved then Err (CE_Verification path expected actual) else Ok ())))"

fun verify_final_states ::
    "host_env \<Rightarrow> host \<Rightarrow> (vpath, file_stamp) btree \<Rightarrow> (vpath \<times> node_state option) list \<Rightarrow> commit_error + unit" where
  "verify_final_states env h stamps [] = Ok ()"
| "verify_final_states env h stamps (f # fs) =
     bindR (verify_final_state env h stamps f) (\<lambda>_. verify_final_states env h stamps fs)"

definition verify_final ::
    "host_env \<Rightarrow> prepared_plan \<Rightarrow> (u32, file_stamp) btree \<Rightarrow> (u32 \<Rightarrow> witness option) \<Rightarrow> host \<Rightarrow>
     commit_error + unit" where
  "verify_final env plan stamps completed h =
     bindR (verify_directory_modes h completed (enumerate 0 (pp_operations plan))) (\<lambda>_.
       verify_final_states env h (metadata_paths plan stamps) (pp_final_states plan))"

section \<open>Commit\<close>

record commit_receipt =
  cr_transaction :: digest
  cr_operations :: nat
  cr_verified_paths :: nat
  cr_cleanup_pending :: bool

fun validate_pinned_parents :: "(vpath, ino) btree \<Rightarrow> host \<Rightarrow> commit_error + unit" where
  "validate_pinned_parents [] h = Ok ()"
| "validate_pinned_parents ((path, d) # rest) h =
     bindR (validate_pinned_parent path d h) (\<lambda>_. validate_pinned_parents rest h)"

text \<open>An error of the checks before the commit state, with the transition to \<open>Stale\<close> it may cause.\<close>

definition stale_on :: "host_env \<Rightarrow> digest \<Rightarrow> (commit_error \<Rightarrow> bool) \<Rightarrow> 'a cop \<Rightarrow> 'a cop" where
  "stale_on env transaction stale m s = (case m s of
     (Inr x, s') \<Rightarrow> (Ok x, s')
   | (Inl e, s') \<Rightarrow>
       if stale e then bindS (store_cat env transaction Revalidating Stale) (\<lambda>_. failS e) s' else (Err e, s'))"

definition is_stale_error :: "commit_error \<Rightarrow> bool" where
  "is_stale_error e = (case e of CE_Stale _ \<Rightarrow> True | _ \<Rightarrow> False)"

text \<open>Everything up to the durable commit state: the staged content and the pinned parents.\<close>

definition prepare_commit ::
    "host_env \<Rightarrow> commit_config \<Rightarrow> (fault_point \<Rightarrow> bool) \<Rightarrow> string \<Rightarrow> digest \<Rightarrow> commit_plan \<Rightarrow> prepared_plan \<Rightarrow>
     bytes \<Rightarrow> (ino \<times> ino \<times> (vpath, ino) btree) cop" where
  "prepare_commit env cfg faults name transaction plan prepared encoded =
     bindS (write_plan env name encoded) (\<lambda>_.
     bindS (internalS ''create commit journal''
       (create_journal env name (list_ex is_set_file_mode (pp_operations prepared)))) (\<lambda>_.
     bindS (check_fault faults PlanSynced) (\<lambda>_.
     bindS (internalS ''create commit staging directory'' (open_or_create_dir env name td_stage td_stage_update)) (\<lambda>stage.
     bindS (internalS ''create commit quarantine directory''
       (open_or_create_dir env name td_quarantine td_quarantine_update)) (\<lambda>quarantine.
     bindS (stage_content env prepared stage) (\<lambda>_.
     bindS (internalS ''sync commit staging directory'' (sync_tx env)) (\<lambda>_.
     bindS (internalS ''sync commit quarantine directory'' (sync_tx env)) (\<lambda>_.
     bindS (internalS ''sync transaction directory'' (sync_tx env)) (\<lambda>_.
     bindS (check_fault faults StageSynced) (\<lambda>_.
     bindS (look (revalidate env cfg plan)) (\<lambda>conflicts.
     bindS (stale_on env transaction (\<lambda>_. True)
       (if conflicts \<noteq> [] then failS (CE_Stale conflicts) else returnS ())) (\<lambda>_.
     bindS (stale_on env transaction is_stale_error (look (pin_parent_directories plan prepared))) (\<lambda>pins.
     bindS (check_fault faults Revalidated) (\<lambda>_.
     bindS (stale_on env transaction (\<lambda>_. True) (look (validate_pinned_parents pins))) (\<lambda>_.
     bindS (store_cat env transaction Revalidating Committing) (\<lambda>_.
     bindS (check_fault faults CommitStatePersisted) (\<lambda>_.
     returnS (stage, quarantine, pins))))))))))))))))))"

text \<open>The mutation of the workspace, its verification and the marker.\<close>

definition run_commit ::
    "host_env \<Rightarrow> (fault_point \<Rightarrow> bool) \<Rightarrow> string \<Rightarrow> digest \<Rightarrow> prepared_plan \<Rightarrow> ino \<times> ino \<times> (vpath, ino) btree \<Rightarrow>
     commit_receipt cop" where
  "run_commit env faults name transaction prepared = (\<lambda>(stage, quarantine, pins).
     bindS (commit_operations env faults name transaction stage quarantine 0 (pp_operations prepared)
       \<lparr>pg_parents = pins, pg_witnesses = [], pg_stamps = []\<rparr>) (\<lambda>pg.
     bindS (on_host (forS (rev (enumerate 0 (pp_operations prepared))) (clear_markers_step env transaction pg))) (\<lambda>_.
     bindS (check_fault faults OwnershipMarkersCleared) (\<lambda>_.
     bindS (look (verify_final env prepared (pg_stamps pg)
       (\<lambda>i. if unat i < length (pg_witnesses pg) then Some (pg_witnesses pg ! unat i) else None))) (\<lambda>_.
     bindS (check_fault faults Verified) (\<lambda>_.
     bindS (internalS ''sync commit-complete marker'' (write_commit_marker env name transaction)) (\<lambda>_.
     bindS (check_fault faults CommitMarkerSynced) (\<lambda>_.
     bindS (store_cat env transaction Committing Committed) (\<lambda>_.
     bindS (check_fault faults CommittedStatePersisted) (\<lambda>_.
     returnS \<lparr>cr_transaction = transaction, cr_operations = length (pp_operations prepared),
       cr_verified_paths = length (pp_final_states prepared), cr_cleanup_pending = True\<rparr>))))))))))"

definition prepare_and_commit ::
    "host_env \<Rightarrow> commit_config \<Rightarrow> (fault_point \<Rightarrow> bool) \<Rightarrow> string \<Rightarrow> digest \<Rightarrow> commit_plan \<Rightarrow> prepared_plan \<Rightarrow>
     bytes \<Rightarrow> commit_receipt cop" where
  "prepare_and_commit env cfg faults name transaction plan prepared encoded =
     bindS (prepare_commit env cfg faults name transaction plan prepared encoded)
       (run_commit env faults name transaction prepared)"

definition cleanup_transaction :: "host_env \<Rightarrow> string \<Rightarrow> unit cop" where
  "cleanup_transaction env name s =
     (if map_of (s_dirs s) name = None then (Ok (), s)
      else bindS (internalS ''remove transaction workspace''
        (site_call env (\<lambda>s. s\<lparr>s_dirs := filter (\<lambda>(n, _). n \<noteq> name) (s_dirs s)\<rparr>) (\<lambda>s. s))) (\<lambda>_.
        internalS ''sync transaction cleanup'' (sync_tx env)) s)"

definition cleanup_failed :: "host_env \<Rightarrow> string \<Rightarrow> bool cop" where
  "cleanup_failed env name s = (case cleanup_transaction env name s of
     (Inl _, s') \<Rightarrow> (Ok True, s') | (Inr _, s') \<Rightarrow> (Ok False, s'))"

definition fail_reserved :: "host_env \<Rightarrow> digest \<Rightarrow> commit_error \<Rightarrow> 'a cop" where
  "fail_reserved env transaction e = bindS (store_cat env transaction Reserved Failed) (\<lambda>_. failS e)"

definition prepare_reserved_plan ::
    "host_env \<Rightarrow> commit_config \<Rightarrow> commit_reservation \<Rightarrow> commit_plan \<Rightarrow> (digest \<times> prepared_plan \<times> bytes) cop" where
  "prepare_reserved_plan env cfg reservation plan =
     (let transaction = transaction_id (he_blake3 env) (pl_binding plan);
          reserved = res_transaction reservation in
      if reserved \<noteq> transaction then fail_reserved env reserved (CE_Binding reserved transaction)
      else if res_base reservation \<noteq> base_snapshot (pl_binding plan)
      then fail_reserved env reserved CE_BaseSnapshotBinding
      else case prepare (he_blake3 env) plan (cf_max_operations cfg) (cf_max_path_bytes cfg) of
        Inl PlanPanic \<Rightarrow> failS CE_Panic
      | Inl e \<Rightarrow> fail_reserved env reserved (CE_Plan e)
      | Inr prepared \<Rightarrow> (case encode_plan (he_blake3 env) prepared of
          Inl e \<Rightarrow> fail_reserved env reserved (CE_Plan (PlanError e))
        | Inr encoded \<Rightarrow>
            if cf_max_plan_bytes cfg < length encoded
            then fail_reserved env reserved (CE_PlanSize (length encoded) (cf_max_plan_bytes cfg))
            else returnS (transaction, prepared, encoded)))"

definition create_transaction_workspace :: "host_env \<Rightarrow> string \<Rightarrow> digest \<Rightarrow> unit cop" where
  "create_transaction_workspace env name transaction s =
     (if map_of (s_dirs s) name \<noteq> None then (Err (CE_WorkspaceExists transaction), s)
      else bindS (internalS ''create transaction workspace''
        (site_call env (upd_tx name (\<lambda>_. empty_txdir)) (\<lambda>s. s))) (\<lambda>_.
        internalS ''sync transaction workspace parent'' (sync_tx env)) s)"

definition resolve_commit_result ::
    "host_env \<Rightarrow> digest \<Rightarrow> string \<Rightarrow> prepared_plan \<Rightarrow> commit_error + commit_receipt \<Rightarrow> commit_receipt cop" where
  "resolve_commit_result env transaction name prepared result = (case result of
     Inr receipt \<Rightarrow> bindS (cleanup_failed env name) (\<lambda>pending. returnS (receipt\<lparr>cr_cleanup_pending := pending\<rparr>))
   | Inl e \<Rightarrow>
       bindS (getS (tx_record transaction)) (\<lambda>current. case map_err (\<lambda>_. ()) current of
         Inl _ \<Rightarrow> failS e
       | Inr r \<Rightarrow>
           if rec_state r = Revalidating then
             bindS (ignore_result (store_cat env transaction Revalidating Failed)) (\<lambda>_.
             bindS (ignore_result (cleanup_transaction env name)) (\<lambda>_. failS e))
           else if rec_state r = Committing then
             bindS (ignore_result (store_cat env transaction Committing RecoveryRequired)) (\<lambda>_.
               failS (CE_RecoveryRequired transaction e))
           else if rec_state r = RecoveryRequired then failS (CE_RecoveryRequired transaction e)
           else if rec_state r = Committed then
             bindS (cleanup_failed env name) (\<lambda>pending. returnS \<lparr>cr_transaction = transaction,
               cr_operations = length (pp_operations prepared),
               cr_verified_paths = length (pp_final_states prepared), cr_cleanup_pending = pending\<rparr>)
           else if rec_state r = Stale then
             bindS (ignore_result (cleanup_transaction env name)) (\<lambda>_. failS e)
           else failS e))"

definition commit_with_faults ::
    "host_env \<Rightarrow> commit_config \<Rightarrow> (fault_point \<Rightarrow> bool) \<Rightarrow> commit_reservation \<Rightarrow> commit_plan \<Rightarrow> commit_receipt cop" where
  "commit_with_faults env cfg faults reservation plan =
     bindS (prepare_reserved_plan env cfg reservation plan) (\<lambda>(transaction, prepared, encoded).
     bindS (store_cat env transaction Reserved Revalidating) (\<lambda>_.
     let name = digest_to_string transaction in
     bindS (\<lambda>s. case create_transaction_workspace env name transaction s of
         (Inr _, s') \<Rightarrow> (Ok (), s')
       | (Inl e, s') \<Rightarrow>
           bindS (ignore_result (store_cat env transaction Revalidating Failed)) (\<lambda>_. failS e) s') (\<lambda>_ s.
     case prepare_and_commit env cfg faults name transaction plan prepared encoded s of
       (Inl CE_Panic, s') \<Rightarrow> (Err CE_Panic, s')
     | (result, s') \<Rightarrow> resolve_commit_result env transaction name prepared result s')))"

section \<open>Recovery\<close>

record recovery_report =
  rr_finalized :: nat
  rr_rolled_back :: nat
  rr_cleaned :: nat
  rr_orphaned :: nat
  rr_conflicts :: "recovery_conflict list"

definition empty_report :: recovery_report where
  "empty_report = \<lparr>rr_finalized = 0, rr_rolled_back = 0, rr_cleaned = 0, rr_orphaned = 0, rr_conflicts = []\<rparr>"

definition read_prepared_plan :: "host_env \<Rightarrow> commit_config \<Rightarrow> txdir \<Rightarrow> commit_error + prepared_plan" where
  "read_prepared_plan env cfg d = (case td_plan d of
     None \<Rightarrow> Err (CE_InternalIo ''open durable commit plan'' Io_NotFound)
   | Some bytes \<Rightarrow>
       if cf_max_plan_bytes cfg < length bytes
       then Err (CE_PlanSize (cf_max_plan_bytes cfg + 1) (cf_max_plan_bytes cfg))
       else map_err CE_PlanDecode
         (decode_plan (he_blake3 env) bytes (cf_max_operations cfg) (cf_max_path_bytes cfg)))"

definition read_bounded_journal :: "host_env \<Rightarrow> commit_config \<Rightarrow> txdir \<Rightarrow> commit_error + journal_state" where
  "read_bounded_journal env cfg d = (case td_journal d of
     None \<Rightarrow> Err (CE_InternalIo ''inspect commit journal'' Io_NotFound)
   | Some bytes \<Rightarrow>
       if cf_max_journal_bytes cfg < length bytes
       then Err (CE_PlanSize (length bytes) (cf_max_journal_bytes cfg))
       else map_err CE_Journal (read_journal (he_blake3 env) (cf_max_journal_bytes cfg) (Some bytes)))"

definition add_conflict :: "recovery_report \<Rightarrow> digest \<Rightarrow> string \<Rightarrow> recovery_report" where
  "add_conflict report transaction reason = report\<lparr>rr_conflicts := rr_conflicts report @
     [\<lparr>rc_transaction = transaction, rc_path = None, rc_reason = reason\<rparr>]\<rparr>"

definition state_name :: "tx_state \<Rightarrow> string" where
  "state_name st = (case st of
     Created \<Rightarrow> ''Created'' | Running \<Rightarrow> ''Running'' | VirtualComplete \<Rightarrow> ''VirtualComplete''
   | Denied \<Rightarrow> ''Denied'' | AutoApproved \<Rightarrow> ''AutoApproved'' | PendingApproval \<Rightarrow> ''PendingApproval''
   | Approved \<Rightarrow> ''Approved'' | Reserved \<Rightarrow> ''Reserved'' | Revalidating \<Rightarrow> ''Revalidating''
   | Stale \<Rightarrow> ''Stale'' | Expired \<Rightarrow> ''Expired'' | Failed \<Rightarrow> ''Failed'' | _ \<Rightarrow> [])"

definition recovery_state_reason :: "tx_state \<Rightarrow> bool \<Rightarrow> string" where
  "recovery_state_reason st marker =
     (if marker then
        (if st \<in> {Committing, Committed, RecoveryRequired} then ''valid marker recovery state''
         else if state_name st = [] then ''commit marker exists in an unknown transaction state''
         else ''commit marker exists while transaction is '' @ state_name st)
      else
        (if st \<in> {Reserved, Revalidating, Committing, RecoveryRequired, Failed} then ''valid rollback recovery state''
         else if st = Committed then ''committed transaction has no durable marker''
         else if state_name st = [] then ''recovery journal exists in an unknown transaction state''
         else ''recovery journal exists while transaction is '' @ state_name st))"

text \<open>With a valid marker: check the final state again, then finish the commit.\<close>

definition recover_committed ::
    "host_env \<Rightarrow> commit_config \<Rightarrow> string \<Rightarrow> prepared_plan \<Rightarrow> recovery_report \<Rightarrow> recovery_report cop" where
  "recover_committed env cfg name plan report =
     (let transaction = pp_transaction plan;
          clean = (\<lambda>report. bindS (cleanup_transaction env name) (\<lambda>_.
            returnS (report\<lparr>rr_finalized := rr_finalized report + 1, rr_cleaned := rr_cleaned report + 1\<rparr>))) in
      bindS (getS (tx_at name)) (\<lambda>d.
      bindS (liftS (read_bounded_journal env cfg d)) (\<lambda>journal.
      bindS (getS (\<lambda>s. verify_final env plan (js_metadata journal) (witness_at journal) (s_host s))) (\<lambda>verified.
      case verified of
        Inl _ \<Rightarrow> returnS (add_conflict report transaction
          ''durable commit marker exists but final state no longer verifies'')
      | Inr _ \<Rightarrow>
          bindS (getS (tx_record transaction)) (\<lambda>found. case found of
            Inl (NotFound _) \<Rightarrow> clean (report\<lparr>rr_orphaned := rr_orphaned report + 1\<rparr>)
          | Inl e \<Rightarrow> failS (CE_Store e)
          | Inr r \<Rightarrow>
              if rec_state r = Committing then
                bindS (store_cat env transaction Committing Committed) (\<lambda>_. clean report)
              else if rec_state r = RecoveryRequired then
                bindS (store_cat env transaction RecoveryRequired Committed) (\<lambda>_. clean report)
              else if rec_state r = Committed then clean report
              else returnS (add_conflict report transaction (recovery_state_reason (rec_state r) True)))))))"

text \<open>Without one: roll back, then fail the transaction.\<close>

definition recover_interrupted ::
    "host_env \<Rightarrow> commit_config \<Rightarrow> string \<Rightarrow> prepared_plan \<Rightarrow> recovery_report \<Rightarrow> recovery_report cop" where
  "recover_interrupted env cfg name plan report =
     (let transaction = pp_transaction plan;
          clean = (\<lambda>report. bindS (cleanup_transaction env name) (\<lambda>_.
            returnS (report\<lparr>rr_rolled_back := rr_rolled_back report + 1, rr_cleaned := rr_cleaned report + 1\<rparr>))) in
      bindS (getS (tx_at name)) (\<lambda>d.
      bindS (liftS (read_bounded_journal env cfg d)) (\<lambda>journal.
      bindS (internalS ''open recovery staging directory'' (open_or_create_dir env name td_stage td_stage_update)) (\<lambda>stage.
      bindS (internalS ''open recovery quarantine directory''
        (open_or_create_dir env name td_quarantine td_quarantine_update)) (\<lambda>quarantine.
      bindS (getS (tx_record transaction)) (\<lambda>found.
      bindS (case found of
          Inr r \<Rightarrow> returnS (Some (rec_state r), report)
        | Inl (NotFound _) \<Rightarrow> returnS (None, report\<lparr>rr_orphaned := rr_orphaned report + 1\<rparr>)
        | Inl e \<Rightarrow> failS (CE_Store e)) (\<lambda>(stored, report).
      if stored = Some Committed then
        returnS (add_conflict report transaction ''store says committed but durable commit marker is missing'')
      else
        bindS (if stored = Some Committing
               then store_cat env transaction Committing RecoveryRequired else returnS ()) (\<lambda>_.
        bindS (\<lambda>s. case on_host (rollback env plan journal stage quarantine) s of
            (Inl RecoveryPanic, s') \<Rightarrow> (Err CE_Panic, s')
          | (Inl (Conflict c), s') \<Rightarrow> (Ok (Some c), s')
          | (Inr _, s') \<Rightarrow> (Ok None, s')) (\<lambda>conflict. case conflict of
            Some c \<Rightarrow> returnS (report\<lparr>rr_conflicts := rr_conflicts report @ [c]\<rparr>)
          | None \<Rightarrow> (case stored of
              None \<Rightarrow> clean report
            | Some st \<Rightarrow>
                let current = (if st = Committing then RecoveryRequired else st) in
                if current \<in> {RecoveryRequired, Revalidating, Reserved} then
                  bindS (store_cat env transaction current Failed) (\<lambda>_. clean report)
                else if current = Failed then clean report
                else returnS (add_conflict report transaction (recovery_state_reason current False))))))))))))"

definition recover_one ::
    "host_env \<Rightarrow> commit_config \<Rightarrow> string \<Rightarrow> recovery_report \<Rightarrow> recovery_report cop" where
  "recover_one env cfg name report =
     bindS (getS (tx_at name)) (\<lambda>d.
     bindS (liftS (read_prepared_plan env cfg d)) (\<lambda>plan.
     if name \<noteq> digest_to_string (pp_transaction plan)
     then failS (CE_RecoveryConflict \<lparr>rc_transaction = pp_transaction plan, rc_path = None,
       rc_reason = ''transaction directory name does not match durable plan''\<rparr>)
     else bindS (liftS (map_err CE_Journal
         (has_valid_commit_marker (he_blake3 env) (pp_transaction plan) (td_marker d)))) (\<lambda>marker.
       if marker then recover_committed env cfg name plan report
       else recover_interrupted env cfg name plan report)))"

fun recover_all ::
    "host_env \<Rightarrow> commit_config \<Rightarrow> string list \<Rightarrow> recovery_report \<Rightarrow> recovery_report cop" where
  "recover_all env cfg [] report = returnS report"
| "recover_all env cfg (name # rest) report =
     bindS (recover_one env cfg name report) (\<lambda>report'. recover_all env cfg rest report')"

definition recover :: "host_env \<Rightarrow> commit_config \<Rightarrow> recovery_report cop" where
  "recover env cfg = bindS (getS (\<lambda>s. map fst (s_dirs s))) (\<lambda>transactions. recover_all env cfg transactions empty_report)"

end
