(* ===== verification/CommitWp.thy ===== *)
theory CommitWp
  imports Committer Wp
begin

text \<open>
  Weakest preconditions of the calls the committer makes, and what they keep: the file system below
  the workspace capability apart from the nodes they name, and the transaction store.
\<close>

section \<open>Calls\<close>

lemma wp_host_call [wp_simps]:
  "wp (host_call env f) Q E h =
     (let h' = h\<lparr>h_tick := Suc (h_tick h)\<rparr> in
      if he_stop env (h_tick h) then E Io_Failed h'
      else case f (he_time env (h_tick h)) h' of Inl e \<Rightarrow> E e h' | Inr (x, k) \<Rightarrow> Q x k)"
  by (simp add: wp_def host_call_def Let_def split: sum.splits prod.splits)

lemma wp_observe [wp_simps]:
  "wp (\<lambda>h. (f h, h)) Q E s = (case f s of Inl e \<Rightarrow> E e s | Inr x \<Rightarrow> Q x s)"
  by (simp add: wp_def split: sum.splits)

lemma wp_see [wp_simps]: "wp (see f) Q E h = (case f h of Inl e \<Rightarrow> E (CE_Host e) h | Inr x \<Rightarrow> Q x h)"
  by (simp add: wp_def see_def split: sum.splits)

lemma wp_call [wp_simps]: "wp (call l p m) Q E = wp m Q (\<lambda>e. E (CE_Host (HostIo l p e)))"
  by (simp add: call_def wp_simps)

lemma wp_internal [wp_simps]: "wp (internal l m) Q E = wp m Q (\<lambda>e. E (CE_InternalIo l e))"
  by (simp add: internal_def wp_simps)

lemma wp_internalS [wp_simps]: "wp (internalS l m) Q E = wp m Q (\<lambda>e. E (CE_InternalIo l e))"
  by (simp add: internalS_def wp_simps)

lemma wp_verify [wp_simps]:
  "wp (verify ok p x y) Q E = (\<lambda>h. if ok then Q () h else E (CE_Verification p x y) h)"
  by (simp add: verify_def wp_simps fun_eq_iff)

lemma wp_on_host [wp_simps]:
  "wp (on_host m) Q E s = wp m (\<lambda>x h. Q x (s\<lparr>s_host := h\<rparr>)) (\<lambda>e h. E e (s\<lparr>s_host := h\<rparr>)) (s_host s)"
  by (simp add: wp_def on_host_def split: prod.splits sum.splits)

lemma wp_look [wp_simps]: "wp (look f) Q E s = (case f (s_host s) of Inl e \<Rightarrow> E e s | Inr x \<Rightarrow> Q x s)"
  by (simp add: wp_def look_def split: sum.splits)

lemma wp_site_call [wp_simps]:
  "wp (site_call env whole torn) Q E s =
     (let s' = s\<lparr>s_host := (s_host s)\<lparr>h_tick := Suc (h_tick (s_host s))\<rparr>\<rparr> in
      if he_stop env (h_tick (s_host s)) then E Io_Failed (torn s') else Q () (whole s'))"
  by (simp add: wp_def site_call_def Let_def)

lemma wp_check_fault [wp_simps]:
  "wp (check_fault faults p) Q E = (\<lambda>s. if faults p then E (CE_FaultInjected p) s else Q () s)"
  by (simp add: check_fault_def wp_simps fun_eq_iff)

section \<open>Names of an updated file system\<close>

lemma map_of_drop [simp]: "map_of (filter (\<lambda>(k, _). k \<noteq> n) m) = (map_of m)(n := None)"
  by (induction m) auto

lemma inodes_upd_inode: "h_inodes (upd_inode x f h) = (h_inodes h)(x := map_option f (h_inodes h x))"
  by (simp add: upd_inode_def)

lemma root_tick_updates [simp]:
  "h_root (upd_inode x f h) = h_root h" "h_tick (upd_inode x f h) = h_tick h"
  "h_root (new_inode x i h) = h_root h" "h_tick (new_inode x i h) = h_tick h"
  by (simp_all add: upd_inode_def new_inode_def)

text \<open>Observations do not depend on the clock.\<close>

lemma tick_irrelevant [simp]:
  "named (h\<lparr>h_tick := t\<rparr>) = named h" "kind_at (h\<lparr>h_tick := t\<rparr>) = kind_at h"
  by (simp_all add: named_def kind_at_def fun_eq_iff)

lemma resolve_tick [simp]: "resolve_at (h\<lparr>h_tick := t\<rparr>) d cs = resolve_at h d cs"
  by (induction cs arbitrary: d) (simp_all split: option.splits)

section \<open>What a step leaves alone\<close>

text \<open>The root, and every inode of \<open>T\<close>.\<close>

definition old_kept :: "(ino \<Rightarrow> inode option) \<Rightarrow> ino \<Rightarrow> host \<Rightarrow> bool" where
  "old_kept T r h \<longleftrightarrow> h_root h = r \<and> (\<forall>x. T x \<noteq> None \<longrightarrow> h_inodes h x = T x)"

lemma old_kept_tick [simp]: "old_kept T r (h\<lparr>h_tick := t\<rparr>) = old_kept T r h"
  by (simp add: old_kept_def)

lemma old_kept_upd: "old_kept T r h \<Longrightarrow> T x = None \<Longrightarrow> old_kept T r (upd_inode x f h)"
  by (auto simp: old_kept_def inodes_upd_inode)

lemma old_kept_new: "old_kept T r h \<Longrightarrow> T x = None \<Longrightarrow> old_kept T r (new_inode x i h)"
  by (auto simp: old_kept_def new_inode_def)

lemmas old_kept_updates = old_kept_upd old_kept_new

lemma wp_create_at:
  assumes "old_kept T r h" "T d = None" "\<forall>t. T (he_alloc env t) = None"
  shows "wp (create_at env d n k m data) (\<lambda>x h. T x = None \<and> old_kept T r h) (\<lambda>_. old_kept T r) h"
  using assms by (simp add: create_at_def wp_def host_call_def Let_def set_name_def old_kept_updates)

lemma wp_write_all: "old_kept T r h \<Longrightarrow> T x = None \<Longrightarrow>
    wp (write_all env x data) (\<lambda>_. old_kept T r) (\<lambda>_. old_kept T r) h"
  by (simp add: wp_def write_all_def Let_def old_kept_updates)

lemma wp_chmod: "old_kept T r h \<Longrightarrow> T x = None \<Longrightarrow>
    wp (chmod env x m) (\<lambda>_. old_kept T r) (\<lambda>_. old_kept T r) h"
  by (simp add: chmod_def wp_simps Let_def old_kept_updates)

lemma wp_stage_one:
  assumes "old_kept T r h" "T stage = None" "\<forall>t. T (he_alloc env t) = None"
  shows "wp (stage_one env files stage opn) (\<lambda>_. old_kept T r) (\<lambda>_. old_kept T r) h"
  using assms
  by (auto simp: stage_one_def create_new_file_def symlink_contents_def sync_at_def wp_simps Let_def
      split: option.splits operation.splits content_version.splits sum.splits
      intro!: wp_use[OF wp_create_at] wp_use[OF wp_write_all] wp_use[OF wp_chmod])

text \<open>For a transaction: the directories it stages in are new too.\<close>

definition before_commit :: "(ino \<Rightarrow> inode option) \<Rightarrow> ino \<Rightarrow> string \<Rightarrow> site \<Rightarrow> bool" where
  "before_commit T r name s \<longleftrightarrow> old_kept T r (s_host s) \<and>
     (\<forall>d. td_stage (tx_at name s) = Some d \<or> td_quarantine (tx_at name s) = Some d \<longrightarrow> T d = None)"

lemma tx_at_upd_tx [simp]: "tx_at name (upd_tx name f s) = f (tx_at name s)"
  by (simp add: tx_at_def upd_tx_def)

lemma site_updates [simp]:
  "s_host (upd_tx name f s) = s_host s" "s_store (upd_tx name f s) = s_store s"
  "s_blobs (upd_tx name f s) = s_blobs s"
  "tx_at name (s\<lparr>s_host := h\<rparr>) = tx_at name s" "tx_at name (s\<lparr>s_store := st\<rparr>) = tx_at name s"
  by (simp_all add: upd_tx_def tx_at_def)

lemma before_commit_updates:
  "before_commit T r name s \<Longrightarrow> before_commit T r name (s\<lparr>s_host := (s_host s)\<lparr>h_tick := t\<rparr>\<rparr>)"
  "before_commit T r name s \<Longrightarrow> before_commit T r name (s\<lparr>s_store := st\<rparr>)"
  "before_commit T r name s \<Longrightarrow> before_commit T r name (upd_tx name (td_plan_update f) s)"
  "before_commit T r name s \<Longrightarrow> before_commit T r name (upd_tx name (td_journal_update f) s)"
  "before_commit T r name s \<Longrightarrow> before_commit T r name (upd_tx name (td_marker_update f) s)"
  by (auto simp: before_commit_def)

lemma keeps_before_commit [keeps_intros]:
  "keeps (before_commit T r name) (look f)"
  "keeps (before_commit T r name) (sync_tx env)"
  "keeps (before_commit T r name) (store_cat env i x y)"
  "keeps (before_commit T r name) (create_tx_file env name td_plan td_plan_update)"
  "keeps (before_commit T r name) (create_tx_file env name td_journal td_journal_update)"
  "keeps (before_commit T r name) (write_tx_file env name td_plan_update bs)"
  "keeps (before_commit T r name) (write_tx_file env name td_journal_update bs)"
  by (auto simp: keeps_def look_def sync_tx_def store_cat_def create_tx_file_def write_tx_file_def site_call_def
      Let_def before_commit_updates split: sum.splits prod.splits)

lemma keeps_internalS [keeps_intros]: "keeps I m \<Longrightarrow> keeps I (internalS l m)"
  by (simp add: internalS_def keeps_map_errS)

lemma keeps_check_fault [keeps_intros]: "keeps I (check_fault faults p)"
  by (simp add: check_fault_def keeps_intros)

lemma keeps_stale_on [keeps_intros]:
  assumes "keeps I m" "keeps I (store_cat env i Revalidating Stale)"
  shows "keeps I (stale_on env i stale m)"
proof (unfold keeps_def, intro allI impI)
  fix s assume "I s"
  then have m: "I (snd (m s))" by (rule keepsD[OF assms(1)])
  have c: "keeps I (bindS (store_cat env i Revalidating Stale) (\<lambda>_. failS e))" for e
    by (intro keeps_intros assms(2))
  show "I (snd (stale_on env i stale m s))"
    using m keepsD[OF c] by (auto simp: stale_on_def split: prod.splits sum.splits)
qed

lemma wp_keeps: "keeps I m \<Longrightarrow> I s \<Longrightarrow> wp m (\<lambda>_. I) (\<lambda>_. I) s"
  by (simp add: keeps_wp)

lemma wp_open_or_create:
  assumes "before_commit T r name s" "\<forall>t. T (he_alloc env t) = None"
  shows "wp (open_or_create_dir env name td_stage td_stage_update)
      (\<lambda>d t. T d = None \<and> before_commit T r name t) (\<lambda>_. before_commit T r name) s"
    and "wp (open_or_create_dir env name td_quarantine td_quarantine_update)
      (\<lambda>d t. T d = None \<and> before_commit T r name t) (\<lambda>_. before_commit T r name) s"
  using assms
  by (auto simp: open_or_create_dir_def site_call_def wp_def bindS_def Let_def before_commit_def old_kept_new
      split: option.splits)

lemma wp_stage_content:
  assumes "before_commit T r name s" "T stage = None" "\<forall>t. T (he_alloc env t) = None"
  shows "wp (stage_content env plan stage) (\<lambda>_. before_commit T r name) (\<lambda>_. before_commit T r name) s"
proof -
  have "wp (forS (pp_operations plan) (stage_one env (s_blobs s) stage)) (\<lambda>_. old_kept T r) (\<lambda>_. old_kept T r)
      (s_host s)"
    by (rule wp_forS[where I = "\<lambda>_. old_kept T r"])
       (use assms in \<open>auto simp: before_commit_def intro: wp_stage_one\<close>)
  then show ?thesis using assms(1)
    by (auto simp: stage_content_def wp_def on_host_def before_commit_def split: prod.splits sum.splits)
qed

text \<open>One step of a sequence that keeps \<open>I\<close> on errors.\<close>

lemma wp_seq:
  "wp m P (\<lambda>_. I) s \<Longrightarrow> (\<And>x t. P x t \<Longrightarrow> wp (f x) Q (\<lambda>_. I) t) \<Longrightarrow> wp (bindS m f) Q (\<lambda>_. I) s"
  by (auto simp: wp_bindS intro: wp_mono)

lemma wp_seq_keeps:
  "keeps I m \<Longrightarrow> I s \<Longrightarrow> (\<And>x t. I t \<Longrightarrow> wp (f x) Q (\<lambda>_. I) t) \<Longrightarrow> wp (bindS m f) Q (\<lambda>_. I) s"
  by (rule wp_seq[OF wp_keeps])

lemma wp_internalS_keep: "wp m P (\<lambda>_. I) s \<Longrightarrow> wp (internalS l m) P (\<lambda>_. I) s"
  by (simp add: wp_internalS)

lemma wp_prepare_commit:
  assumes start: "before_commit T r name s" and new: "\<forall>t. T (he_alloc env t) = None"
  shows "wp (prepare_commit env cfg faults name tx plan prepared encoded)
    (\<lambda>_. before_commit T r name) (\<lambda>_. before_commit T r name) s"
proof -
  let ?I = "before_commit T r name"
  have front: "keeps ?I (write_plan env name encoded)" "keeps ?I (create_journal env name m)" for m
    unfolding write_plan_def create_journal_def by (intro keeps_intros)+
  show ?thesis
    unfolding prepare_commit_def
    apply (rule wp_seq[OF wp_keeps[OF front(1) start]])
    apply (rule wp_seq[OF wp_keeps[OF keeps_internalS[OF front(2)]]], assumption)
    apply (rule wp_seq[OF wp_keeps[OF keeps_check_fault]], assumption)
    apply (rule wp_seq[OF wp_internalS_keep[OF wp_open_or_create(1)[OF _ new]]], assumption, elim conjE)
    apply (rule wp_seq[OF wp_internalS_keep[OF wp_open_or_create(2)[OF _ new]]], assumption, elim conjE)
    apply (rule wp_seq[OF wp_stage_content[OF _ _ new]], assumption, assumption)
    apply (rule wp_keeps)
     apply (rule keeps_intros | assumption)+
    done
qed

end
