(* ===== verification/CommitDone.thy ===== *)
theory CommitDone
  imports CommitWp
begin

text \<open>
  What the outcome of a commit says about the workspace: after a receipt every change of the reviewed
  difference is on the file system, and after an error that does not ask for recovery nothing of it is.
\<close>

section \<open>The state of a path\<close>

definition installed :: "host_env \<Rightarrow> host \<Rightarrow> vpath \<Rightarrow> node_state option \<Rightarrow> bool" where
  "installed env h p after = (case after of
     None \<Rightarrow> stamp_at h (h_root h) p = Ok None
   | Some st \<Rightarrow> (case resolve_at h (h_root h) (components p) of
       Inl _ \<Rightarrow> False
     | Inr x \<Rightarrow> (case h_inodes h x of
         None \<Rightarrow> False
       | Some i \<Rightarrow> i_kind i = kind st \<and> i_mode i AND 0xFFF = mode st \<and>
           (kind st \<noteq> Directory \<longrightarrow> (case content st of
              Some (Blob b) \<Rightarrow> blob_digest (he_blake3 env) (i_data i) = b \<and> len64 (i_data i) = nsize st
            | _ \<Rightarrow> True)))))"

definition same_tree :: "host \<Rightarrow> host \<Rightarrow> bool" where
  "same_tree h h' \<longleftrightarrow> h_inodes h' = h_inodes h \<and> h_root h' = h_root h"

lemma same_tree_refl [simp]: "same_tree h h" "same_tree h (h'\<lparr>h_tick := t\<rparr>) = same_tree h h'"
  by (simp_all add: same_tree_def)

lemma stamp_at_tick [simp]: "stamp_at (h\<lparr>h_tick := t\<rparr>) d p = stamp_at h d p"
  by (simp add: stamp_at_def cong: sum.case_cong)

lemma installed_tick: "installed env (h\<lparr>h_tick := t\<rparr>) p a = installed env h p a"
  by (simp add: installed_def cong: sum.case_cong option.case_cong)

lemma same_treeE: "same_tree h h' \<Longrightarrow> (\<And>t. h' = h\<lparr>h_tick := t\<rparr> \<Longrightarrow> P) \<Longrightarrow> P"
  by (metis (full_types) host.surjective host.update_convs(3) old.unit.exhaust same_tree_def)

lemma installed_same_tree: "same_tree h h' \<Longrightarrow> installed env h' p a = installed env h p a"
  by (erule same_treeE) (simp add: installed_tick)

text \<open>What the checks of \<open>verify_final\<close> establish.\<close>

lemma stamp_at_Some:
  "stamp_at h d p = Inr (Some st) \<longleftrightarrow>
     (\<exists>x i. resolve_at h d (components p) = Inr x \<and> h_inodes h x = Some i \<and> st = inode_stamp x i)"
  by (auto simp: stamp_at_def split: sum.splits io_error.splits option.splits)

lemma stamp_at_of: "stamp_at h d p = Inr (Some st) \<Longrightarrow>
    (\<And>x i. resolve_at h d (components p) = Inr x \<Longrightarrow> h_inodes h x = Some i \<Longrightarrow> st = inode_stamp x i \<Longrightarrow> P) \<Longrightarrow> P"
  by (auto simp: stamp_at_Some)

lemma matches_present:
  assumes "state_matches env h d p (Some e) = Inr (True, a)"
  obtains x i where "stamp_at h d p = Inr (Some (inode_stamp x i))"
    "resolve_at h d (components p) = Inr x" "h_inodes h x = Some i"
proof (cases "stamp_at h d p")
  case (Inr r)
  then obtain st where "stamp_at h d p = Inr (Some st)" using assms by (cases r) (simp_all add: state_matches_def)
  then show ?thesis using that by (metis stamp_at_of)
qed (use assms in \<open>simp add: state_matches_def\<close>)

lemma blob_state_eq:
  "st = file_state b n m \<longleftrightarrow> kind st = File \<and> nsize st = n \<and> mode st = m \<and> content st = Some (Blob b)"
  "st = symlink_state b n m \<longleftrightarrow> kind st = Symlink \<and> nsize st = n \<and> mode st = m \<and> content st = Some (Blob b)"
  "file_state b n m = st \<longleftrightarrow> kind st = File \<and> nsize st = n \<and> mode st = m \<and> content st = Some (Blob b)"
  "symlink_state b n m = st \<longleftrightarrow> kind st = Symlink \<and> nsize st = n \<and> mode st = m \<and> content st = Some (Blob b)"
  by (auto simp: file_state_def symlink_state_def)

lemma matches_blob:
  assumes "state_matches env h (h_root h) p (Some st) = Inr (True, a)" "is_blob st"
  shows "installed env h p (Some st)"
proof -
  obtain b where b: "content st = Some (Blob b)"
    using assms(2) by (auto simp: is_blob_def split: option.splits content_version.splits)
  show ?thesis
    by (rule matches_present[OF assms(1)])
       (use assms(1) b in \<open>auto simp: state_matches_def installed_def bindR_Inr_iff inode_stamp_def
        from_stamp_def stable_content_def Let_def blob_state_eq split: if_splits node_kind.splits\<close>)
qed

lemma matches_stamp:
  assumes "state_matches env h (h_root h) p (Some (from_stamp s)) = Inr (True, a)" "\<not> is_blob st"
    "stamp_kind s = kind st" "stamp_mode s = mode st"
  shows "installed env h p (Some st)"
  by (rule matches_present[OF assms(1)])
     (use assms in \<open>auto simp: state_matches_def installed_def inode_stamp_def from_stamp_def is_blob_def
      split: option.splits content_version.splits\<close>)

lemma matches_directory:
  assumes "state_matches env h (h_root h) p (Some (directory_state (mode st))) = Inr (True, a)" "kind st = Directory"
  shows "installed env h p (Some st)"
  by (rule matches_present[OF assms(1)])
     (use assms in \<open>auto simp: state_matches_def installed_def inode_stamp_def from_stamp_def directory_state_def
      split: if_splits\<close>)

lemma matches_none:
  assumes "state_matches env h (h_root h) p None = Inr (True, a)"
  shows "installed env h p None"
proof (cases "stamp_at h (h_root h) p")
  case (Inr r)
  then show ?thesis using assms by (cases r) (simp_all add: state_matches_def installed_def)
qed (use assms in \<open>simp add: state_matches_def\<close>)

lemma pinned_blob:
  assumes "open_real_file h (h_root h) (components p) = Inr x" "file_state_matches env h x p st = Inr (True, a)" "is_blob st"
  shows "installed env h p (Some st)"
  using assms
  by (auto simp: installed_def open_real_file_def file_state_matches_def bindR_Inr_iff stamp_handle_def inode_stamp_def
      kind_at_def blob_state_eq blob_digest_def is_blob_def Let_def split: option.splits if_splits content_version.splits)

section \<open>Mode changes recorded by the operation loop\<close>

text \<open>The stamps of the completed mode changes, after \<open>i\<close> operations.\<close>

definition stamps_ok :: "operation list \<Rightarrow> nat \<Rightarrow> (u32, file_stamp) btree \<Rightarrow> bool" where
  "stamps_ok ops i stamps \<longleftrightarrow> bt_ok stamps \<and>
     (\<forall>k st p x m. map_of stamps k = Some st \<and> unat k < length ops \<and> ops ! unat k = SetFileMode p x m \<longrightarrow>
        stamp_kind st = File \<and> stamp_mode st = m) \<and>
     (\<forall>j < i. j < 2 ^ 32 \<and> (is_set_file_mode (ops ! j) \<longrightarrow> map_of stamps (of_nat j) \<noteq> None))"

lemma is_set_file_mode_iff: "is_set_file_mode opn \<longleftrightarrow> (\<exists>p x m. opn = SetFileMode p x m)"
  by (cases opn) (auto simp: is_set_file_mode_def)

text \<open>What an operation returns, whatever its calls do.\<close>

definition yields :: "('a \<Rightarrow> bool) \<Rightarrow> ('s, 'e, 'a) op \<Rightarrow> bool" where
  "yields P m \<longleftrightarrow> (\<forall>s x t. m s = (Inr x, t) \<longrightarrow> P x)"

named_theorems yields_intros \<open>rules for the values of operations\<close>

lemma yields_rules [yields_intros]:
  "P x \<Longrightarrow> yields P (returnS x)"
  "(\<And>x. yields P (f x)) \<Longrightarrow> yields P (bindS m f)"
  "(\<And>a b. yields P (g a b)) \<Longrightarrow> yields P (case z of (a, b) \<Rightarrow> g a b)"
  "(\<And>y. yields P (l y)) \<Longrightarrow> yields P (let y = v in l y)"
  by (auto simp: yields_def bindS_Inr split: prod.splits)

lemma yields_verify: "(ok \<Longrightarrow> yields P m) \<Longrightarrow> yields P (bindS (verify ok p x y) (\<lambda>_. m))"
  by (auto simp: yields_def bindS_Inr verify_def)

lemma set_file_mode_stamp:
  "wp (apply_set_file_mode env path expected m par source)
     (\<lambda>ap _. \<exists>st. ap_metadata ap = Some st \<and> stamp_kind st = File \<and> stamp_mode st = m) (\<lambda>_ _. True) h"
  by (auto simp: apply_set_file_mode_def wp_simps Let_def chmod_def sync_at_def open_file_for_mode_def open_real_file_def
      stamp_handle_def inodes_upd_inode inode_stamp_def kind_at_def bindR_Inr_iff
      split: sum.splits option.splits if_splits)

lemma apply_mode_stamp:
  "wp (apply_operation_host env tx k opn par stage quarantine source)
     (\<lambda>ap _. case opn of SetFileMode p x m \<Rightarrow>
          \<exists>st. ap_metadata ap = Some st \<and> stamp_kind st = File \<and> stamp_mode st = m
        | _ \<Rightarrow> ap_metadata ap = None) (\<lambda>_ _. True) h"
proof -
  have "yields (\<lambda>ap. ap_metadata ap = None) (apply_operation_host env tx k opn par stage quarantine source)"
    if "\<not> is_set_file_mode opn"
    using that
    by (cases opn)
       (simp_all add: is_set_file_mode_def apply_quarantine_def apply_create_directory_def apply_install_file_def
         apply_install_symlink_def apply_set_directory_mode_def applied_def yields_intros)
  then show ?thesis using set_file_mode_stamp
    by (cases opn) (auto simp: wp_runs yields_def is_set_file_mode_def)
qed

section \<open>The transaction store during a commit\<close>

text \<open>No step but a transition touches the store.\<close>

abbreviation store_is :: "memory_store \<Rightarrow> site \<Rightarrow> bool" where
  "store_is st \<equiv> (\<lambda>s. s_store s = st)"

lemma keeps_store_site_call:
  "(\<And>s. s_store (g s) = s_store s) \<Longrightarrow> (\<And>s. s_store (h s) = s_store s) \<Longrightarrow> keeps (store_is st) (site_call env g h)"
  by (simp add: keeps_def site_call_def Let_def)

lemma keeps_store [keeps_intros]:
  "keeps (store_is st) (on_host m)"
  "keeps (store_is st) (look f)"
  "keeps (store_is st) (sync_tx env)"
  "keeps (store_is st) (create_tx_file env name field upd)"
  "keeps (store_is st) (write_tx_file env name upd bs)"
proof -
  show "keeps (store_is st) (on_host m)" "keeps (store_is st) (look f)"
    by (simp_all add: keeps_def on_host_def look_def split: prod.splits)
  show "keeps (store_is st) (sync_tx env)"
    unfolding sync_tx_def by (rule keeps_store_site_call) simp_all
  have "keeps (store_is st) (site_call env (upd_tx name (upd (\<lambda>_. Some []))) (\<lambda>s. s))"
    by (rule keeps_store_site_call) simp_all
  then show "keeps (store_is st) (create_tx_file env name field upd)"
    by (auto simp: create_tx_file_def keeps_def)
  have "keeps (store_is st) (site_call env (upd_tx name f) (upd_tx name g))" for f g
    by (rule keeps_store_site_call) simp_all
  then show "keeps (store_is st) (write_tx_file env name upd bs)"
    by (auto simp: write_tx_file_def keeps_def)
qed

lemma keeps_store_journal [keeps_intros]: "keeps (store_is st) (journal_write env name m)"
proof -
  have "keeps (store_is st) (bindS (write_tx_file env name td_journal_update bs) (\<lambda>_. sync_tx env))" for bs
    by (intro keeps_intros)
  then show ?thesis by (auto simp: keeps_def journal_write_def split: option.splits prod.splits sum.splits)
qed

lemma stamps_ok_next:
  assumes "stamps_ok ops i stamps" "i < 2 ^ 32"
  shows "\<not> is_set_file_mode (ops ! i) \<Longrightarrow> stamps_ok ops (Suc i) stamps"
    and "ops ! i = SetFileMode p x m \<Longrightarrow> stamp_kind st = File \<Longrightarrow> stamp_mode st = m \<Longrightarrow>
      stamps_ok ops (Suc i) (bt_insert (of_nat i) st stamps)"
  using assms by (auto simp: stamps_ok_def less_Suc_eq unat_of_nat)

lemma wp_apply_in_site:
  "wp (on_host (apply_operation_host env tx k opn par stage quarantine source))
     (\<lambda>ap t. s_store t = st \<and> (case opn of SetFileMode p x m \<Rightarrow>
          \<exists>st. ap_metadata ap = Some st \<and> stamp_kind st = File \<and> stamp_mode st = m
        | _ \<Rightarrow> ap_metadata ap = None)) (\<lambda>_ t. s_store t = st) s"
  if "s_store s = st"
  using that by (auto simp: wp_on_host intro: wp_use[OF apply_mode_stamp])

lemma wp_commit_operation:
  assumes "stamps_ok ops i (pg_stamps pg)" "s_store s = st"
  shows "wp (commit_operation env faults name tx stage quarantine i (ops ! i) pg)
    (\<lambda>pg' t. stamps_ok ops (Suc i) (pg_stamps pg') \<and> s_store t = st) (\<lambda>_. store_is st) s"
proof (cases "2 ^ 32 \<le> i")
  case False
  have i: "i < 2 ^ 32" using False by simp
  note next_ok = stamps_ok_next[OF assms(1) i] and step = wp_seq_keeps[where I = "store_is st"]
  have final: "stamps_ok ops (Suc i) (case ap_metadata ap of None \<Rightarrow> pg_stamps pg | Some st \<Rightarrow> bt_insert (of_nat i) st (pg_stamps pg))"
    if "case ops ! i of SetFileMode p x m \<Rightarrow> \<exists>st. ap_metadata ap = Some st \<and> stamp_kind st = File \<and> stamp_mode st = m
        | _ \<Rightarrow> ap_metadata ap = None" for ap
    using that by (cases "ops ! i") (auto simp: is_set_file_mode_def intro: next_ok)
  show ?thesis
    unfolding commit_operation_def if_not_P[OF False] Let_def
    apply (rule step, rule keeps_liftS, rule assms(2))
    apply (rule step, rule keeps_liftS, assumption)
    apply (rule step, rule keeps_store(2), assumption)
    apply (rule step, rule keeps_store(2), assumption)
    apply (rule step, rule keeps_internalS[OF keeps_store_journal], assumption)
    apply (rule step, rule keeps_check_fault, assumption)
    apply (rule step, rule keeps_store(2), assumption)
    apply (rule wp_seq[OF wp_apply_in_site], assumption, elim conjE)
    apply (rule step, rule keeps_check_fault, assumption)
    apply (rule step, rule keeps_internalS[OF keeps_store_journal], assumption)
    apply (rule step, rule keeps_check_fault, assumption)
    apply (simp add: wp_simps final)
    done
qed (use assms(2) in \<open>simp add: commit_operation_def wp_simps\<close>)

lemma wp_commit_operations:
  assumes "stamps_ok (done_ops @ ops) (length done_ops) (pg_stamps pg)" "s_store s = st"
  shows "wp (commit_operations env faults name tx stage quarantine (length done_ops) ops pg)
    (\<lambda>pg' t. stamps_ok (done_ops @ ops) (length (done_ops @ ops)) (pg_stamps pg') \<and> s_store t = st)
    (\<lambda>_. store_is st) s"
  using assms
proof (induction ops arbitrary: done_ops pg s)
  case (Cons opn ops)
  have "wp (commit_operation env faults name tx stage quarantine (length done_ops) opn pg)
    (\<lambda>pg' t. stamps_ok (done_ops @ opn # ops) (Suc (length done_ops)) (pg_stamps pg') \<and> s_store t = st) (\<lambda>_. store_is st) s"
    using wp_commit_operation[OF Cons.prems, of env faults name tx stage quarantine] by simp
  then show ?case using Cons.IH[of "done_ops @ [opn]"] by (auto intro!: wp_seq)
qed (simp add: wp_simps)

section \<open>Verification\<close>

lemma fold_insert_some:
  "map_of (fold (\<lambda>(k, v) m. if P k then bt_insert (f k) v m else m) xs acc) q = Some v \<Longrightarrow>
     map_of acc q = Some v \<or> (\<exists>k. (k, v) \<in> set xs \<and> P k \<and> f k = q)"
  by (induction xs arbitrary: acc) (fastforce split: if_splits)+

lemma fold_insert_none:
  "map_of (fold (\<lambda>(k, v) m. if P k then bt_insert (f k) v m else m) xs acc) q = None \<Longrightarrow>
     map_of acc q = None \<and> (\<forall>k v. (k, v) \<in> set xs \<longrightarrow> P k \<longrightarrow> f k \<noteq> q)"
proof (induction xs arbitrary: acc)
  case (Cons x xs)
  obtain j w where x: "x = (j, w)" by (cases x)
  show ?case
  proof (cases "P j")
    case True
    then show ?thesis using Cons.IH[of "bt_insert (f j) w acc"] Cons.prems x by (auto split: if_splits)
  next
    case False
    then show ?thesis using Cons.IH[of acc] Cons.prems x by auto
  qed
qed simp

lemma metadata_paths_some:
  assumes "map_of (metadata_paths pr stamps) p = Some st" "stamps_ok (pp_operations pr) n stamps"
  shows "stamp_kind st = File \<and> (\<exists>x. SetFileMode p x (stamp_mode st) \<in> set (pp_operations pr))"
proof -
  let ?ops = "pp_operations pr"
  obtain k where k: "(k, st) \<in> set stamps" "unat k < length ?ops" "is_set_file_mode (?ops ! unat k)"
    "op_path (?ops ! unat k) = p"
    using fold_insert_some[OF assms(1)[unfolded metadata_paths_def]] by auto
  obtain x m where op: "?ops ! unat k = SetFileMode p x m" using k(3,4) by (auto simp: is_set_file_mode_iff)
  have "map_of stamps k = Some st" using k(1) assms(2) by (simp add: stamps_ok_def bt_entry_iff)
  then have "stamp_kind st = File" "stamp_mode st = m" using assms(2) k(2) op unfolding stamps_ok_def by blast+
  then show ?thesis using nth_mem[OF k(2)] op by auto
qed

lemma metadata_paths_none:
  assumes "map_of (metadata_paths pr stamps) p = None" "stamps_ok (pp_operations pr) (length (pp_operations pr)) stamps"
  shows "SetFileMode p x m \<notin> set (pp_operations pr)"
proof
  let ?ops = "pp_operations pr"
  assume "SetFileMode p x m \<in> set ?ops"
  then obtain j where j: "j < length ?ops" "?ops ! j = SetFileMode p x m" by (metis in_set_conv_nth)
  then obtain st where "map_of stamps (of_nat j) = Some st" and b: "j < 2 ^ 32"
    using assms(2) unfolding stamps_ok_def by (force simp: is_set_file_mode_def)
  then have "(of_nat j, st) \<in> set stamps" by (auto dest: map_of_SomeD)
  moreover have "unat (of_nat j :: u32) = j" using b by (simp add: unat_of_nat)
  ultimately show False
    using fold_insert_none[OF assms(1)[unfolded metadata_paths_def]] j by (force simp: is_set_file_mode_def)
qed

lemma verify_final_states_all:
  "verify_final_states env h stamps fs = Inr () \<longleftrightarrow> (\<forall>f \<in> set fs. verify_final_state env h stamps f = Inr ())"
  by (induction fs) (auto simp: bindR_Inr_iff)

text \<open>The reviewed changes, each under its own path, and what the plan does with an entry.\<close>

lemma file_mode_class:
  "entry_class e = FileMode \<longleftrightarrow> (\<exists>a. entry_after e = Some a \<and> kind a = File \<and>
     is_some_and (entry_before e) (\<lambda>b. content_equivalent b a))"
  by (auto simp: entry_class_def split: option.splits node_kind.splits)

lemma mode_operation_entry:
  assumes "prepare blake3 plan mo mp = Inr pr" "SetFileMode p x m \<in> set (pp_operations pr)"
  shows "\<exists>e \<in> set (cd_entries (pl_diff plan)). entry_path e = p \<and>
    (\<exists>a. entry_after e = Some a \<and> kind a = File \<and> mode a = m)"
proof -
  let ?es = "cd_entries (pl_diff plan)"
  obtain quars l where q: "\<forall>opn \<in> set quars. is_quarantine opn" and l: "lowered_ok ?es l"
    and ops: "pp_operations pr = by_depth op_path (lo_access l) @ quars @
       (map (\<lambda>(p, a). CreateDirectory p a) (by_depth fst (created_directories ?es)) @
        lo_operations l @ by_depth_down op_path (lo_modes l))"
    by (rule prepare_parts[OF assms(1) refl]) metis
  have "\<exists>e \<in> set ?es. lowers e (SetFileMode p x m)"
    using assms(2) q l ops lower_all_op unfolding lowered_ok_def
    by (fastforce simp: is_quarantine_def)
  then show ?thesis by (auto simp: file_mode_class)
qed

lemma kept_content_mode_operation:
  assumes "prepare blake3 plan mo mp = Inr pr" "e \<in> set (cd_entries (pl_diff plan))" "entry_after e = Some a"
    "kind a \<noteq> Directory" "\<not> is_blob a" "\<not> unmaterialized_after e"
  shows "\<exists>x m. SetFileMode (entry_path e) x m \<in> set (pp_operations pr)"
proof -
  let ?es = "cd_entries (pl_diff plan)"
  obtain quars l where l: "lowered_ok ?es l"
    and ops: "pp_operations pr = by_depth op_path (lo_access l) @ quars @
       (map (\<lambda>(p, a). CreateDirectory p a) (by_depth fst (created_directories ?es)) @
        lo_operations l @ by_depth_down op_path (lo_modes l))"
    by (rule prepare_parts[OF assms(1) refl]) metis
  have c: "entry_class e = FileMode"
    using assms(3-6) kept_file
    by (auto simp: file_mode_class unmaterialized_after_def is_some_and_def[of "Some a"])
  have "\<exists>opn \<in> set (lo_operations l). lowers e opn"
    by (rule lower_all_entry[where P = "\<lambda>c. c = Install \<or> c = FileMode", OF _ assms(2)])
       (use l c in \<open>auto simp: lowered_ok_def\<close>)
  then obtain opn where opn: "opn \<in> set (lo_operations l)" "lowers e opn" by blast
  have "\<exists>x m. opn = SetFileMode (entry_path e) x m"
    using c opn(2) by (cases opn) simp_all
  then show ?thesis using opn(1) ops by auto
qed

lemma verified_installed:
  assumes prep: "prepare blake3 plan mo mp = Inr pr" and e: "e \<in> set (cd_entries (pl_diff plan))"
    and dist: "distinct (map entry_path (cd_entries (pl_diff plan)))" and un: "\<not> unmaterialized_after e"
    and st: "stamps_ok (pp_operations pr) (length (pp_operations pr)) stamps"
    and ver: "verify_final env pr stamps c h = Inr ()"
  shows "installed env h (entry_path e) (entry_after e)"
proof -
  let ?p = "entry_path e" and ?M = "metadata_paths pr stamps"
  have "pp_final_states pr = map final_entry (cd_entries (pl_diff plan))"
    by (rule prepare_parts[OF prep refl]) metis
  then have v: "verify_final_state env h ?M (final_entry e) = Inr ()"
    using ver e by (auto simp: verify_final_def bindR_Inr_iff verify_final_states_all)
  have own: "\<exists>a. entry_after e = Some a \<and> kind a = File \<and> mode a = stamp_mode s \<and> stamp_kind s = File"
    if "map_of ?M ?p = Some s" for s
    using metadata_paths_some[OF that st] mode_operation_entry[OF prep] e dist
    by (force simp: distinct_map dest: inj_onD)
  show ?thesis
  proof (cases "map_of ?M ?p")
    case None
    have blob: "is_blob a" if "entry_after e = Some a" "kind a \<noteq> Directory" for a
      using kept_content_mode_operation[OF prep e that _ un] metadata_paths_none[OF None st] by blast
    show ?thesis
      using v None blob
      by (cases "entry_after e")
         (auto simp: verify_final_state_def final_entry_def bindR_Inr_iff Let_def split: if_splits
           intro: matches_none matches_blob matches_directory)
  next
    case (Some s)
    then obtain a where a: "entry_after e = Some a" "kind a = File" "mode a = stamp_mode s" "stamp_kind s = File"
      using own by blast
    show ?thesis
    proof (cases "is_blob a")
      case True
      then show ?thesis using v Some a
        by (auto simp: verify_final_state_def final_entry_def bindR_Inr_iff Let_def split: if_splits
            intro: pinned_blob)
    next
      case False
      then show ?thesis using v Some a
        by (auto simp: verify_final_state_def final_entry_def bindR_Inr_iff Let_def split: if_splits
            intro: matches_stamp)
    qed
  qed
qed

section \<open>From the commit state to the receipt\<close>

definition stored :: "digest \<Rightarrow> tx_state \<Rightarrow> site \<Rightarrow> bool" where
  "stored i st s \<longleftrightarrow> \<not> poisoned (s_store s) \<and> map_option rec_state (mem_lookup (s_store s) i) = Some st"

lemma stored_store: "s_store t = s_store s \<Longrightarrow> stored i st t = stored i st s"
  by (simp add: stored_def)

lemma wp_store_cat:
  "wp (store_cat env i e n)
     (\<lambda>_ t. stored i e s \<and> stored i n t \<and> same_tree (s_host s) (s_host t))
     (\<lambda>_ t. s_store t = s_store s \<and> same_tree (s_host s) (s_host t)) s"
  by (auto simp: wp_def store_cat_def Let_def mem_cat_apply stored_def mem_lookup_def split: option.splits)

definition all_installed :: "host_env \<Rightarrow> commit_plan \<Rightarrow> site \<Rightarrow> bool" where
  "all_installed env plan s \<longleftrightarrow>
     (\<forall>e \<in> set (cd_entries (pl_diff plan)). installed env (s_host s) (entry_path e) (entry_after e))"

lemma all_installed_tree:
  "same_tree (s_host s) (s_host t) \<Longrightarrow> all_installed env plan t = all_installed env plan s"
  by (simp add: all_installed_def installed_same_tree)

text \<open>The steps that touch neither the store nor the tree.\<close>

abbreviation settled :: "site \<Rightarrow> site \<Rightarrow> bool" where
  "settled s \<equiv> (\<lambda>t. s_store t = s_store s \<and> same_tree (s_host s) (s_host t))"

lemma keeps_settled_call:
  "(\<And>s. s_store (g s) = s_store s \<and> s_host (g s) = s_host s) \<Longrightarrow>
   (\<And>s. s_store (h s) = s_store s \<and> s_host (h s) = s_host s) \<Longrightarrow> keeps (settled z) (site_call env g h)"
  by (simp add: keeps_def site_call_def Let_def)

lemma keeps_settled [keeps_intros]:
  "keeps (settled z) (look f)"
  "keeps (settled z) (sync_tx env)"
  "keeps (settled z) (create_tx_file env name field upd)"
  "keeps (settled z) (write_tx_file env name upd bs)"
proof -
  show "keeps (settled z) (look f)" by (simp add: keeps_def look_def)
  show "keeps (settled z) (sync_tx env)"
    unfolding sync_tx_def by (rule keeps_settled_call) simp_all
  have "keeps (settled z) (site_call env (upd_tx name (upd (\<lambda>_. Some []))) (\<lambda>s. s))"
    by (rule keeps_settled_call) simp_all
  then show "keeps (settled z) (create_tx_file env name field upd)"
    by (auto simp: create_tx_file_def keeps_def)
  have "keeps (settled z) (site_call env (upd_tx name f) (upd_tx name g))" for f g
    by (rule keeps_settled_call) simp_all
  then show "keeps (settled z) (write_tx_file env name upd bs)"
    by (auto simp: write_tx_file_def keeps_def)
qed

lemma keeps_settled_marker: "keeps (settled z) (internalS l (write_commit_marker env name tx))"
  unfolding write_commit_marker_def by (intro keeps_intros)

lemma wp_run_commit:
  assumes prep: "prepare blake3 plan mo mp = Inr pr"
    and dist: "distinct (map entry_path (cd_entries (pl_diff plan)))"
    and un: "\<forall>e \<in> set (cd_entries (pl_diff plan)). \<not> unmaterialized_after e"
    and state: "stored tx Committing s"
  shows "wp (run_commit env faults name tx pr args)
    (\<lambda>_ t. stored tx Committed t \<and> all_installed env plan t)
    (\<lambda>_ t. stored tx Committing t \<or> stored tx Committed t \<and> all_installed env plan t) s"
proof -
  let ?I = "\<lambda>t. stored tx Committing t \<or> stored tx Committed t \<and> all_installed env plan t"
  have weak: "wp m P (\<lambda>_. ?I) t" if "wp m P (\<lambda>_. store_is (s_store s)) t" for m :: "'z cop" and P t
    by (rule wp_mono[OF that]) (use state in \<open>auto simp: stored_def\<close>)
  have st0: "stamps_ok (pp_operations pr) 0 []" by (simp add: stamps_ok_def)
  have verified: "all_installed env plan t"
    if "stamps_ok (pp_operations pr) (length (pp_operations pr)) stamps"
      "verify_final env pr stamps c (s_host t) = Inr ()" for t stamps c
    using verified_installed[OF prep _ dist _ that] un by (auto simp: all_installed_def)
  have tail: "wp (bindS (check_fault faults Verified) (\<lambda>_.
      bindS (internalS ''sync commit-complete marker'' (write_commit_marker env name tx)) (\<lambda>_.
      bindS (check_fault faults CommitMarkerSynced) (\<lambda>_.
      bindS (store_cat env tx Committing Committed) (\<lambda>_.
      bindS (check_fault faults CommittedStatePersisted) (\<lambda>_. returnS r)))))) 
      (\<lambda>_ t. stored tx Committed t \<and> all_installed env plan t) (\<lambda>_. ?I) z"
    if z: "s_store z = s_store s" "all_installed env plan z" for z :: site and r :: commit_receipt
  proof -
    have I: "?I t" if "settled z t" for t using that z(1) state by (simp add: stored_def)
    have keep: "wp m (\<lambda>_. settled z) (\<lambda>_. ?I) t" if "keeps (settled z) m" "settled z t" for m :: "'y cop" and t
      by (rule wp_mono[OF wp_keeps[OF that]]) (simp_all add: I)
    have commit: "wp (store_cat env tx Committing Committed)
        (\<lambda>_ t. stored tx Committed t \<and> all_installed env plan t) (\<lambda>_. ?I) t" if t: "settled z t" for t
    proof (rule wp_mono[OF wp_store_cat])
      fix u assume "stored tx Committing t \<and> stored tx Committed u \<and> same_tree (s_host t) (s_host u)"
      then show "stored tx Committed u \<and> all_installed env plan u"
        using t z(2) all_installed_tree[of z t env plan] all_installed_tree[of t u env plan] by simp
    next
      fix u assume "settled t u"
      then show "?I u" using I[OF t] stored_store all_installed_tree by blast
    qed
    show ?thesis
      apply (rule wp_seq[OF keep], rule keeps_check_fault, simp)
      apply (rule wp_seq[OF keep], rule keeps_settled_marker, assumption)
      apply (rule wp_seq[OF keep], rule keeps_check_fault, assumption)
      apply (rule wp_seq[OF commit], assumption)
      apply (auto simp: wp_simps)
      done
  qed
  have ops: "wp (commit_operations env faults name tx stage quarantine 0 (pp_operations pr) pg)
      (\<lambda>pg' t. stamps_ok (pp_operations pr) (length (pp_operations pr)) (pg_stamps pg') \<and> s_store t = s_store s)
      (\<lambda>_. ?I) s" if "pg_stamps pg = []" for stage quarantine pg
    using wp_commit_operations[where done_ops = "[]" and ops = "pp_operations pr" and pg = pg] st0 that
    by (intro weak) simp
  obtain stage quarantine pins where args: "args = (stage, quarantine, pins)" by (cases args)
  show ?thesis
    unfolding run_commit_def args prod.case
    apply (rule wp_seq[OF ops], simp, elim conjE)
    apply (rule wp_seq[OF weak[OF wp_keeps[OF keeps_store(1)]]], assumption)
    apply (rule wp_seq[OF weak[OF wp_keeps[OF keeps_check_fault]]], assumption)
    apply (simp add: wp_bindS wp_look split: sum.split)
    apply (intro conjI allI impI)
    subgoal using state by (simp add: stored_def)
    subgoal using tail verified by (simp add: wp_bindS)
    done
qed

section \<open>The whole commit\<close>

lemma wp_triv: "wp m (\<lambda>_ _. True) (\<lambda>_ _. True) s"
  by (simp add: wp_runs)

text \<open>Before the commit state the store does not say that the transaction is committed.\<close>

abbreviation uncommitted :: "digest \<Rightarrow> site \<Rightarrow> bool" where
  "uncommitted i \<equiv> (\<lambda>s. \<not> stored i Committed s)"

lemma keeps_uncommitted_store:
  assumes "\<And>st. keeps (store_is st) m"
  shows "keeps (uncommitted i) m"
proof (unfold keeps_def, intro allI impI)
  fix s assume "\<not> stored i Committed s"
  moreover have "s_store (snd (m s)) = s_store s" using keepsD[OF assms] by blast
  ultimately show "\<not> stored i Committed (snd (m s))" by (simp add: stored_def)
qed

lemma keeps_uncommitted_cat [keeps_intros]: "n \<noteq> Committed \<Longrightarrow> keeps (uncommitted i) (store_cat env i x n)"
  by (auto simp: keeps_def store_cat_def Let_def mem_cat_apply stored_def mem_lookup_def split: option.splits)

lemma keeps_store_more:
  "keeps (store_is st) (open_or_create_dir env name field upd)"
  "keeps (store_is st) (stage_content env pr stage)"
proof -
  have "keeps (store_is st) (bindS (site_call env (\<lambda>s. upd_tx name f (s\<lparr>s_host := g s\<rparr>)) (\<lambda>s. s)) (\<lambda>_. returnS x))"
    for f g and x :: ino
    by (intro keeps_intros keeps_store_site_call) simp_all
  then show "keeps (store_is st) (open_or_create_dir env name field upd)"
    by (auto simp: open_or_create_dir_def keeps_def Let_def split: option.splits)
  have "s_store (snd (on_host m s)) = s_store s" for m :: "(host, commit_error, unit) op" and s
    by (simp add: on_host_def split: prod.splits)
  then show "keeps (store_is st) (stage_content env pr stage)"
    by (simp add: keeps_def stage_content_def)
qed

lemma keeps_uncommitted_prepare:
  "keeps (uncommitted tx) (prepare_commit env cfg faults name tx plan pr encoded)"
  unfolding prepare_commit_def write_plan_def create_journal_def
  by (intro keeps_bindS keeps_internalS keeps_check_fault keeps_liftS keeps_returnS keeps_stale_on keeps_if keeps_failS
      keeps_uncommitted_cat) (simp_all add: keeps_uncommitted_store keeps_store keeps_store_more)

lemma prepare_commit_state:
  "wp (prepare_commit env cfg faults name tx plan pr encoded) (\<lambda>_. stored tx Committing) (\<lambda>_ _. True) s"
  unfolding prepare_commit_def
  apply (rule wp_seq[OF wp_triv], rule wp_seq[OF wp_triv], rule wp_seq[OF wp_triv], rule wp_seq[OF wp_triv],
      rule wp_seq[OF wp_triv], rule wp_seq[OF wp_triv], rule wp_seq[OF wp_triv], rule wp_seq[OF wp_triv],
      rule wp_seq[OF wp_triv], rule wp_seq[OF wp_triv], rule wp_seq[OF wp_triv], rule wp_seq[OF wp_triv],
      rule wp_seq[OF wp_triv], rule wp_seq[OF wp_triv], rule wp_seq[OF wp_triv])
  apply (rule wp_seq[where P = "\<lambda>_. stored tx Committing"])
   apply (rule wp_mono[OF wp_store_cat]; simp)
  apply (simp add: wp_simps)
  done

text \<open>\<open>kept T r\<close>: the nodes of \<open>T\<close> are as they were.\<close>

abbreviation kept :: "(ino \<Rightarrow> inode option) \<Rightarrow> ino \<Rightarrow> site \<Rightarrow> bool" where
  "kept T r \<equiv> (\<lambda>s. old_kept T r (s_host s))"

lemma kept_same_tree: "same_tree (s_host s) (s_host t) \<Longrightarrow> kept T r t = kept T r s"
  by (simp add: same_tree_def old_kept_def)

lemma keeps_kept [keeps_intros]:
  "keeps (kept T r) (store_cat env i e n)"
  "keeps (kept T r) (cleanup_transaction env name)"
  "keeps (kept T r) (create_transaction_workspace env name tx)"
  by (auto simp: keeps_def store_cat_def Let_def cleanup_transaction_def create_transaction_workspace_def bindS_def
      internalS_def map_errS_def site_call_def sync_tx_def split: prod.splits sum.splits)

lemma keeps_ignore [keeps_intros]: "keeps I m \<Longrightarrow> keeps I (ignore_result m)"
  by (simp add: keeps_def ignore_result_def)

lemma keeps_cleanup_failed [keeps_intros]: "keeps I (cleanup_transaction env name) \<Longrightarrow> keeps I (cleanup_failed env name)"
  by (auto simp: keeps_def cleanup_failed_def split: prod.splits sum.splits)

lemma wp_prepare_reserved:
  assumes "kept T r s"
  shows "wp (prepare_reserved_plan env cfg res plan)
    (\<lambda>(tx, pr, enc) t. tx = transaction_id (he_blake3 env) (pl_binding plan) \<and>
       prepare (he_blake3 env) plan (cf_max_operations cfg) (cf_max_path_bytes cfg) = Inr pr \<and> kept T r t)
    (\<lambda>_. kept T r) s"
proof -
  have f: "wp (fail_reserved env i e) Q (\<lambda>_. kept T r) s" for i e Q
    unfolding fail_reserved_def
    by (rule wp_seq[OF wp_keeps[OF keeps_kept(1) assms]]) (simp add: wp_simps)
  show ?thesis
    using f assms
    by (auto simp: prepare_reserved_plan_def Let_def wp_simps split: sum.split plan_stop.split)
qed

lemma wp_create_workspace:
  assumes "kept T r s" "stored tx st s"
  shows "wp (create_transaction_workspace env name tx)
    (\<lambda>_ t. before_commit T r name t \<and> stored tx st t) (\<lambda>_. kept T r) s"
  using assms
  by (auto simp: create_transaction_workspace_def wp_def bindS_def internalS_def map_errS_def site_call_def sync_tx_def
      Let_def before_commit_def empty_txdir_def stored_def split: if_splits)

text \<open>What happens to the outcome of \<open>prepare_and_commit\<close>.\<close>

lemma wp_cleanup_failed: "wp (cleanup_failed env name) (\<lambda>_. settled s) (\<lambda>_ _. False) s"
  by (auto simp: cleanup_failed_def cleanup_transaction_def wp_def bindS_def internalS_def map_errS_def site_call_def
      sync_tx_def Let_def split: prod.splits sum.splits if_splits)

lemma wp_ignore_result: "wp (ignore_result m) Q E s = Q () (snd (m s))"
  by (simp add: wp_def ignore_result_def)

lemma tx_record_stored: "stored tx st s \<Longrightarrow> \<exists>r. tx_record tx s = Inr r \<and> rec_state r = st"
  by (auto simp: stored_def tx_record_def mem_get_def mem_find_apply)

lemma settled_outcome:
  "settled s t \<Longrightarrow> stored tx st s \<and> all_installed env plan s \<Longrightarrow> stored tx st t \<and> all_installed env plan t"
  using all_installed_tree[of s t env plan] by (simp add: stored_def)

lemma wp_receipt:
  assumes "stored tx Committed s \<and> all_installed env plan s"
  shows "wp (bindS (cleanup_failed env name) (\<lambda>pending. returnS (f pending)))
    (\<lambda>_ t. stored tx Committed t \<and> all_installed env plan t) E s"
proof -
  have "wp (cleanup_failed env name) (\<lambda>_ t. stored tx Committed t \<and> all_installed env plan t) E s"
    by (rule wp_mono[OF wp_cleanup_failed settled_outcome]) (use assms in simp_all)
  then show ?thesis by (simp add: wp_bindS wp_basic)
qed

lemma wp_resolve_ok:
  assumes "stored tx Committed s \<and> all_installed env plan s"
  shows "wp (resolve_commit_result env tx name pr (Inr receipt))
    (\<lambda>_ t. stored tx Committed t \<and> all_installed env plan t) E s"
  using wp_receipt[OF assms] by (simp add: resolve_commit_result_def)

lemma wp_resolve_committed:
  assumes "stored tx Committed s \<and> all_installed env plan s"
  shows "wp (resolve_commit_result env tx name pr (Inl e))
    (\<lambda>_ t. stored tx Committed t \<and> all_installed env plan t) E s"
proof -
  obtain r where "tx_record tx s = Inr r" "rec_state r = Committed" using tx_record_stored assms by blast
  then show ?thesis
    using wp_receipt[OF assms] by (simp add: resolve_commit_result_def wp_bindS[of "getS _"] wp_basic)
qed

lemma wp_resolve_committing:
  assumes "stored tx Committing s"
  shows "wp (resolve_commit_result env tx name pr (Inl e)) Q
    (\<lambda>e' t. e' = CE_RecoveryRequired tx e \<and> (stored tx Committing t \<or> stored tx RecoveryRequired t)) s"
proof -
  obtain r where r: "tx_record tx s = Inr r" "rec_state r = Committing" using tx_record_stored assms by blast
  have "stored tx Committing (snd (store_cat env tx Committing RecoveryRequired s)) \<or>
      stored tx RecoveryRequired (snd (store_cat env tx Committing RecoveryRequired s))"
    using wp_store_cat[of env tx Committing RecoveryRequired s] assms
    by (auto simp: wp_def stored_def split: prod.splits sum.splits)
  then show ?thesis using r by (simp add: resolve_commit_result_def wp_bindS wp_basic wp_ignore_result)
qed

lemma wp_resolve_kept:
  assumes "kept T r s" "\<not> stored tx Committed s"
  shows "wp (resolve_commit_result env tx name pr (Inl e)) Q (\<lambda>_. kept T r) s"
proof (cases "tx_record tx s")
  case (Inr rec)
  then have nc: "rec_state rec \<noteq> Committed" using assms(2)
    by (auto simp: tx_record_def mem_get_def mem_find_apply stored_def split: if_splits option.splits)
  have cat: "kept T r (snd (store_cat env tx x y t))" and clean: "kept T r (snd (cleanup_transaction env name t))"
    if "kept T r t" for x y t
    using keepsD[OF keeps_kept(1) that] keepsD[OF keeps_kept(2) that] by auto
  show ?thesis
    using Inr nc assms(1) cat clean
    by (auto simp: resolve_commit_result_def wp_bindS wp_basic wp_ignore_result)
qed (use assms(1) in \<open>simp add: resolve_commit_result_def wp_bindS wp_basic\<close>)

lemma wp_outcome:
  assumes "wp m P F s" "\<And>x t. P x t \<Longrightarrow> wp (resolve_commit_result env tx name pr (Inr x)) Q E t"
    and "\<And>e t. F e t \<Longrightarrow> wp (resolve_commit_result env tx name pr (Inl e)) Q E t" "\<And>t. E CE_Panic t"
  shows "wp (\<lambda>s. case m s of
      (Inl CE_Panic, s') \<Rightarrow> (Err CE_Panic, s')
    | (result, s') \<Rightarrow> resolve_commit_result env tx name pr result s') Q E s"
proof (cases "m s")
  case (Pair result s')
  show ?thesis
  proof (cases result)
    case (Inl e)
    then have "wp (resolve_commit_result env tx name pr (Inl e)) Q E s'" using assms(1,3) Pair by (simp add: wp_def)
    then show ?thesis using Pair Inl assms(4) by (cases e) (simp_all add: wp_def)
  next
    case (Inr x)
    then have "wp (resolve_commit_result env tx name pr (Inr x)) Q E s'" using assms(1,2) Pair by (simp add: wp_def)
    then show ?thesis using Pair Inr by (simp add: wp_def)
  qed
qed

lemma wp_otherwise:
  assumes "wp m (\<lambda>_. B) (\<lambda>_. K) s" "keeps K c"
  shows "wp (\<lambda>s. case m s of (Inr _, s') \<Rightarrow> (Ok (), s')
      | (Inl e, s') \<Rightarrow> bindS (ignore_result c) (\<lambda>_. failS e) s') (\<lambda>_. B) (\<lambda>_. K) s"
  using assms(1) keepsD[OF assms(2)]
  by (auto simp: wp_def bindS_def ignore_result_def split: prod.splits sum.splits)

lemma new_plan_entries:
  assumes "commit_plan_new blake3 b d reads writes = Inr plan"
  shows "cd_entries (pl_diff plan) = cd_entries d" "\<forall>e \<in> set (cd_entries d). \<not> unmaterialized_after e"
proof -
  obtain reserved where "check_plan_entries reads writes reserved (cd_entries d) = Inr ()" and p: "pl_diff plan = d"
    using assms by (auto simp: commit_plan_new_def bindR_Inr_iff split: if_splits sum.splits)
  then show "\<forall>e \<in> set (cd_entries d). \<not> unmaterialized_after e"
    by (auto simp: check_plan_entries_all elim!: check_plan_entryD)
  show "cd_entries (pl_diff plan) = cd_entries d" using p by simp
qed

text \<open>
  After a receipt the changes are there; after an error that does not ask for recovery, the nodes of
  the workspace are the old ones; otherwise the store asks for recovery.
\<close>

lemma commit_outcome:
  assumes new: "commit_plan_new (he_blake3 env) b d reads writes = Inr plan"
    and dist: "distinct (map entry_path (cd_entries d))"
    and fresh: "\<forall>t. h_inodes (s_host s) (he_alloc env t) = None"
    and tx: "tx = transaction_id (he_blake3 env) (pl_binding plan)"
  shows "wp (commit_with_faults env cfg faults res plan)
    (\<lambda>_ t. stored tx Committed t \<and> all_installed env plan t)
    (\<lambda>e t. e = CE_Panic \<or> kept (h_inodes (s_host s)) (h_root (s_host s)) t \<or>
       (\<exists>c. e = CE_RecoveryRequired tx c) \<and> (stored tx Committing t \<or> stored tx RecoveryRequired t)) s"
    (is "wp _ ?Q ?E s")
proof -
  let ?T = "h_inodes (s_host s)" and ?r = "h_root (s_host s)" and ?name = "digest_to_string tx"
  let ?K = "kept ?T ?r" and ?C = "\<lambda>t. stored tx Committed t \<and> all_installed env plan t"
  have start: "?K s" by (simp add: old_kept_def)
  note entries = new_plan_entries[OF new]
  have run: "wp (prepare_and_commit env cfg faults ?name tx plan pr encoded) (\<lambda>_. ?C)
      (\<lambda>_ t. ?K t \<and> uncommitted tx t \<or> stored tx Committing t \<or> ?C t) t"
    if "before_commit ?T ?r ?name t" "stored tx Revalidating t"
      "prepare (he_blake3 env) plan (cf_max_operations cfg) (cf_max_path_bytes cfg) = Inr pr" for t pr encoded
  proof -
    have un: "uncommitted tx t" using that(2) by (auto simp: stored_def)
    have "wp (prepare_commit env cfg faults ?name tx plan pr encoded) (\<lambda>_. stored tx Committing)
      (\<lambda>_ t. ?K t \<and> uncommitted tx t \<or> stored tx Committing t \<or> ?C t) t"
      by (rule wp_mono[OF wp_conj[OF wp_conj[OF wp_prepare_commit[OF that(1) fresh]
            wp_keeps[OF keeps_uncommitted_prepare un]] prepare_commit_state]])
         (simp_all add: before_commit_def)
    moreover have "wp (run_commit env faults ?name tx pr x) (\<lambda>_. ?C)
      (\<lambda>_ t. ?K t \<and> uncommitted tx t \<or> stored tx Committing t \<or> ?C t) u" if "stored tx Committing u" for u x
      by (rule wp_mono[OF wp_run_commit[OF \<open>prepare _ _ _ _ = Inr pr\<close> _ _ that]])
         (use dist entries in auto)
    ultimately show ?thesis unfolding prepare_and_commit_def by (rule wp_seq)
  qed
  have resolved: "wp (\<lambda>u. case prepare_and_commit env cfg faults ?name tx plan pr encoded u of
      (Inl CE_Panic, u') \<Rightarrow> (Err CE_Panic, u')
    | (result, u') \<Rightarrow> resolve_commit_result env tx ?name pr result u') ?Q ?E t"
    if "before_commit ?T ?r ?name t \<and> stored tx Revalidating t"
      "prepare (he_blake3 env) plan (cf_max_operations cfg) (cf_max_path_bytes cfg) = Inr pr" for t pr encoded
  proof (rule wp_outcome[OF run])
    fix e u assume "?K u \<and> uncommitted tx u \<or> stored tx Committing u \<or> ?C u"
    then consider "?K u" "uncommitted tx u" | "stored tx Committing u" | "?C u" by blast
    then show "wp (resolve_commit_result env tx ?name pr (Inl e)) ?Q ?E u"
    proof cases
      case 1
      then show ?thesis by (rule wp_mono[OF wp_resolve_kept]) simp_all
    next
      case 2
      then show ?thesis by (rule wp_mono[OF wp_resolve_committing]) simp_all
    next
      case 3
      then show ?thesis by (rule wp_resolve_committed)
    qed
  qed (use that wp_resolve_ok in auto)
  have after: "wp (bindS (store_cat env tx Reserved Revalidating) (\<lambda>_.
     bindS (\<lambda>s. case create_transaction_workspace env ?name tx s of
         (Inr _, s') \<Rightarrow> (Ok (), s')
       | (Inl e, s') \<Rightarrow> bindS (ignore_result (store_cat env tx Revalidating Failed)) (\<lambda>_. failS e) s') (\<lambda>_ s.
     case prepare_and_commit env cfg faults ?name tx plan pr encoded s of
       (Inl CE_Panic, s') \<Rightarrow> (Err CE_Panic, s')
     | (result, s') \<Rightarrow> resolve_commit_result env tx ?name pr result s'))) ?Q ?E t"
    if "prepare (he_blake3 env) plan (cf_max_operations cfg) (cf_max_path_bytes cfg) = Inr pr" "?K t" for t pr encoded
  proof -
    let ?W = "\<lambda>s. case create_transaction_workspace env ?name tx s of (Inr _, s') \<Rightarrow> (Ok (), s')
       | (Inl e, s') \<Rightarrow> bindS (ignore_result (store_cat env tx Revalidating Failed)) (\<lambda>_. failS e) s'"
    have ws: "wp ?W (\<lambda>_ u. before_commit ?T ?r ?name u \<and> stored tx Revalidating u) (\<lambda>_. ?K) u"
      if "?K u" "stored tx Revalidating u" for u
      by (rule wp_otherwise[OF wp_create_workspace[OF that] keeps_kept(1)])
    have cat: "wp (store_cat env tx Reserved Revalidating) (\<lambda>_ u. ?K u \<and> stored tx Revalidating u) (\<lambda>_. ?K) t"
      by (rule wp_mono[OF wp_store_cat]) (use that(2) kept_same_tree in blast)+
    show ?thesis
      unfolding wp_bindS
      apply (rule wp_mono[OF cat])
      subgoal by (rule wp_mono[OF ws]) (use resolved[OF _ that(1)] in auto)
      subgoal by blast
      done
  qed
  show ?thesis
    unfolding commit_with_faults_def Let_def wp_bindS[of "prepare_reserved_plan _ _ _ _"]
    by (rule wp_mono[OF wp_prepare_reserved[OF start]]) (use after tx in \<open>auto simp: Let_def\<close>)
qed

end
