(* ===== verification/Budget.thy ===== *)
theory Budget
  imports Evidence
begin

text \<open>
  The work ledger of one guest execution and the arbitration between cancellation and commit
  (\<open>crates/vsh-execution/src/budget.rs\<close>, \<open>cancellation.rs\<close>).  A \<open>Duration\<close> is its number of
  nanoseconds.
\<close>

section \<open>Limits and counters\<close>

record execution_limits =
  max_program_bytes :: usize
  max_duration :: nat
  max_recursion_depth :: usize
  max_memory_bytes :: usize
  max_os_calls :: u64
  max_read_bytes :: u64
  max_write_bytes :: u64
  max_io_call_bytes :: usize
  max_path_bytes :: usize
  max_directory_entries :: u64
  xl_evidence_records :: u64
  xl_evidence_bytes :: u64
  max_output_bytes :: usize
  max_result_bytes :: usize
  max_exception_bytes :: usize

definition default_execution_limits :: execution_limits where
  "default_execution_limits =
     \<lparr>max_program_bytes = 1024 * 1024, max_duration = 1000000000, max_recursion_depth = 512,
      max_memory_bytes = 256 * 1024 * 1024, max_os_calls = 10000, max_read_bytes = 64 * 1024 * 1024,
      max_write_bytes = 64 * 1024 * 1024, max_io_call_bytes = 4 * 1024 * 1024, max_path_bytes = 16 * 1024,
      max_directory_entries = 100000, xl_evidence_records = 250000, xl_evidence_bytes = 64 * 1024 * 1024,
      max_output_bytes = 1024 * 1024, max_result_bytes = 1024 * 1024, max_exception_bytes = 256 * 1024\<rparr>"

text \<open>Each limit failure carries the limit and the attempted amount.\<close>

datatype execution_limit_exceeded =
  XL_ProgramBytes u64 u64
| XL_OsCalls u64 u64
| XL_ReadBytes u64 u64
| XL_WriteBytes u64 u64
| XL_ReadCallBytes u64 u64
| XL_WriteCallBytes u64 u64
| XL_PathBytes u64 u64
| XL_DirectoryEntries u64 u64
| XL_EvidenceRecords u64 u64
| XL_EvidenceBytes u64 u64
| XL_OutputBytes u64 u64
| XL_ResultBytes u64 u64
| XL_ExceptionBytes u64 u64

record execution_stats =
  st_os_calls :: u64
  st_read_bytes :: u64
  st_write_bytes :: u64
  st_directory_entries :: u64
  st_output_bytes :: usize
  st_denied_accesses :: u64
  st_result_bytes :: u64

definition empty_stats :: execution_stats where
  "empty_stats = \<lparr>st_os_calls = 0, st_read_bytes = 0, st_write_bytes = 0, st_directory_entries = 0,
     st_output_bytes = 0, st_denied_accesses = 0, st_result_bytes = 0\<rparr>"

record execution_budget =
  xb_limits :: execution_limits
  xb_stats :: execution_stats

definition budget_new :: "execution_limits \<Rightarrow> execution_budget" where
  "budget_new limits = \<lparr>xb_limits = limits, xb_stats = empty_stats\<rparr>"

type_synonym 'a budget_op = "(execution_budget, execution_limit_exceeded, 'a) op"

definition check_program_bytes :: "execution_limits \<Rightarrow> usize \<Rightarrow> execution_limit_exceeded + unit" where
  "check_program_bytes limits n =
     (if max_program_bytes limits < n then Err (XL_ProgramBytes (max_program_bytes limits) n) else Ok ())"

definition evidence_limits_of :: "execution_limits \<Rightarrow> evidence_limits" where
  "evidence_limits_of limits =
     \<lparr>max_evidence_records = xl_evidence_records limits, max_evidence_bytes = xl_evidence_bytes limits\<rparr>"

section \<open>Charges\<close>

text \<open>\<open>charge\<close>: the counter with the amount added, or the error with what was attempted.\<close>

definition charge :: "u64 \<Rightarrow> u64 \<Rightarrow> u64 \<Rightarrow> (u64 \<Rightarrow> u64 \<Rightarrow> 'e) \<Rightarrow> 'e + u64" where
  "charge used amount limit err = (case checked_add used amount of
     None \<Rightarrow> Err (err limit u64_max)
   | Some attempted \<Rightarrow> if limit < attempted then Err (err limit attempted) else Ok attempted)"

definition charge_os_call :: "unit budget_op" where
  "charge_os_call b = (case charge (st_os_calls (xb_stats b)) 1 (max_os_calls (xb_limits b)) XL_OsCalls of
     Inl e \<Rightarrow> (Err e, b)
   | Inr n \<Rightarrow> (Ok (), b\<lparr>xb_stats := (xb_stats b)\<lparr>st_os_calls := n\<rparr>\<rparr>))"

definition charge_read :: "u64 \<Rightarrow> unit budget_op" where
  "charge_read n b =
     (if max_io_call_bytes (xb_limits b) < n
      then (Err (XL_ReadCallBytes (max_io_call_bytes (xb_limits b)) n), b)
      else case charge (st_read_bytes (xb_stats b)) n (max_read_bytes (xb_limits b)) XL_ReadBytes of
        Inl e \<Rightarrow> (Err e, b)
      | Inr m \<Rightarrow> (Ok (), b\<lparr>xb_stats := (xb_stats b)\<lparr>st_read_bytes := m\<rparr>\<rparr>))"

definition charge_write :: "usize \<Rightarrow> unit budget_op" where
  "charge_write n b =
     (if max_io_call_bytes (xb_limits b) < n
      then (Err (XL_WriteCallBytes (max_io_call_bytes (xb_limits b)) n), b)
      else case charge (st_write_bytes (xb_stats b)) n (max_write_bytes (xb_limits b)) XL_WriteBytes of
        Inl e \<Rightarrow> (Err e, b)
      | Inr m \<Rightarrow> (Ok (), b\<lparr>xb_stats := (xb_stats b)\<lparr>st_write_bytes := m\<rparr>\<rparr>))"

definition charge_directory_entries :: "usize \<Rightarrow> unit budget_op" where
  "charge_directory_entries n b =
     (case charge (st_directory_entries (xb_stats b)) n (max_directory_entries (xb_limits b)) XL_DirectoryEntries of
        Inl e \<Rightarrow> (Err e, b)
      | Inr m \<Rightarrow> (Ok (), b\<lparr>xb_stats := (xb_stats b)\<lparr>st_directory_entries := m\<rparr>\<rparr>))"

definition charge_output :: "usize \<Rightarrow> unit budget_op" where
  "charge_output n b =
     (let attempted = saturating_add (st_output_bytes (xb_stats b)) n in
      if max_output_bytes (xb_limits b) < attempted
      then (Err (XL_OutputBytes (max_output_bytes (xb_limits b)) attempted), b)
      else (Ok (), b\<lparr>xb_stats := (xb_stats b)\<lparr>st_output_bytes := attempted\<rparr>\<rparr>))"

definition record_denial :: "execution_budget \<Rightarrow> execution_budget" where
  "record_denial b = b\<lparr>xb_stats := (xb_stats b)\<lparr>st_denied_accesses :=
     saturating_add (st_denied_accesses (xb_stats b)) 1\<rparr>\<rparr>"

section \<open>The ledger never exceeds its limits\<close>

definition within_limits :: "execution_budget \<Rightarrow> bool" where
  "within_limits b \<longleftrightarrow>
     st_os_calls (xb_stats b) \<le> max_os_calls (xb_limits b) \<and>
     st_read_bytes (xb_stats b) \<le> max_read_bytes (xb_limits b) \<and>
     st_write_bytes (xb_stats b) \<le> max_write_bytes (xb_limits b) \<and>
     st_directory_entries (xb_stats b) \<le> max_directory_entries (xb_limits b) \<and>
     st_output_bytes (xb_stats b) \<le> max_output_bytes (xb_limits b)"

text \<open>Limits are fixed, counters only grow, and the limits are still respected.\<close>

definition spends :: "execution_budget \<Rightarrow> execution_budget \<Rightarrow> bool" where
  "spends b c \<longleftrightarrow> xb_limits c = xb_limits b \<and> (within_limits b \<longrightarrow> within_limits c) \<and>
     st_os_calls (xb_stats b) \<le> st_os_calls (xb_stats c) \<and>
     st_read_bytes (xb_stats b) \<le> st_read_bytes (xb_stats c) \<and>
     st_write_bytes (xb_stats b) \<le> st_write_bytes (xb_stats c) \<and>
     st_directory_entries (xb_stats b) \<le> st_directory_entries (xb_stats c) \<and>
     st_output_bytes (xb_stats b) \<le> st_output_bytes (xb_stats c)"

lemma spends_refl [simp]: "spends b b"
  by (simp add: spends_def)

lemma spends_trans: "spends a b \<Longrightarrow> spends b c \<Longrightarrow> spends a c"
  by (auto simp: spends_def)

lemma within_new: "within_limits (budget_new limits)"
  by (simp add: within_limits_def budget_new_def empty_stats_def)

lemma charge_Inr:
  assumes "charge used amount limit err = Inr n"
  shows "unat n = unat used + unat amount \<and> n \<le> limit \<and> used \<le> n"
proof -
  have n: "checked_add used amount = Some n" "n \<le> limit"
    using assms by (auto simp: charge_def not_less split: option.splits if_splits)
  then show ?thesis using checked_add_Some[OF n(1)] by (simp add: word_le_nat_alt)
qed

lemma charge_Inl_iff:
  "(\<exists>e. charge used amount limit err = Inl e) \<longleftrightarrow> unat limit < unat used + unat amount"
proof (cases "checked_add used amount")
  case None
  then have "2 ^ 64 \<le> unat used + unat amount" by (simp add: checked_add_None_iff)
  moreover have "unat limit < 2 ^ 64" using unsigned_less[where w=limit, where ?'a=nat] by simp
  ultimately show ?thesis using None by (simp add: charge_def)
next
  case (Some n)
  then show ?thesis using checked_add_Some[OF Some]
    by (simp add: charge_def word_less_nat_alt)
qed

lemma saturating_add_ge: "a \<le> saturating_add a (b :: 'a::len word)"
proof -
  have "unat a < 2 ^ LENGTH('a)" by (rule unsigned_less)
  then have "unat a \<le> 2 ^ LENGTH('a) - 1" by linarith
  then show ?thesis by (simp add: word_le_nat_alt unat_saturating_add)
qed

lemma charges_spend:
  "spends b (snd (charge_os_call b))" "spends b (snd (charge_read n b))"
  "spends b (snd (charge_write m b))" "spends b (snd (charge_directory_entries k b))"
  "spends b (snd (charge_output l b))" "spends b (record_denial b)"
  by (auto simp: spends_def within_limits_def charge_os_call_def charge_read_def charge_write_def
      charge_directory_entries_def charge_output_def record_denial_def Let_def not_less saturating_add_ge
      dest!: charge_Inr split: sum.splits)

section \<open>Cancellation\<close>

text \<open>
  The shared byte: 0 is undecided, 1 cancelled, 2 commit entered.  Every operation is one atomic
  access, so a history of a shared handle is a sequence of operations.
\<close>

datatype cancel_op = Op_Cancel | Op_IsCancelled | Op_EnterCommit | Op_CommitEntered

definition cancel :: "u8 \<Rightarrow> bool \<times> u8" where
  "cancel s = (if s = 0 then (True, 1) else (s = 1, s))"

definition is_cancelled :: "u8 \<Rightarrow> bool" where "is_cancelled s \<longleftrightarrow> s = 1"

definition enter_commit :: "u8 \<Rightarrow> bool \<times> u8" where
  "enter_commit s = (if s = 0 then (True, 2) else (False, s))"

definition commit_entered :: "u8 \<Rightarrow> bool" where "commit_entered s \<longleftrightarrow> s = 2"

fun cancel_step :: "cancel_op \<Rightarrow> u8 \<Rightarrow> bool \<times> u8" where
  "cancel_step Op_Cancel s = cancel s"
| "cancel_step Op_IsCancelled s = (is_cancelled s, s)"
| "cancel_step Op_EnterCommit s = enter_commit s"
| "cancel_step Op_CommitEntered s = (commit_entered s, s)"

fun cancel_run :: "cancel_op list \<Rightarrow> u8 \<Rightarrow> (cancel_op \<times> bool) list \<times> u8" where
  "cancel_run [] s = ([], s)"
| "cancel_run (a # as) s =
     (case cancel_step a s of (r, t) \<Rightarrow> (case cancel_run as t of (rs, u) \<Rightarrow> ((a, r) # rs, u)))"

lemma cancel_step_states:
  "s \<in> {0, 1, 2} \<Longrightarrow> snd (cancel_step a s) \<in> {0, 1, 2} \<and> (s \<noteq> 0 \<longrightarrow> snd (cancel_step a s) = s)"
  by (cases a) (auto simp: cancel_def enter_commit_def)

lemma cancel_run_decided:
  "cancel_run as s = (rs, t) \<Longrightarrow> s = 1 \<Longrightarrow> t = 1 \<and> (\<forall>(a, r) \<in> set rs. r = (a \<in> {Op_Cancel, Op_IsCancelled}))"
  "cancel_run as s = (rs, t) \<Longrightarrow> s = 2 \<Longrightarrow> t = 2 \<and> (\<forall>(a, r) \<in> set rs. r = (a = Op_CommitEntered))"
  by (induction as arbitrary: s rs t)
     (auto split: prod.splits elim!: cancel_step.elims
       simp: cancel_def is_cancelled_def enter_commit_def commit_entered_def)

end
