(* ===== verification/VirtualRoot.thy ===== *)
theory VirtualRoot
  imports Paths
begin

text \<open>
  The absolute namespace a guest sees (\<open>crates/vsh-execution/src/path.rs\<close>): validation of the
  configured prefix, the map from guest paths to virtual paths, and its inverse.  A \<open>VirtualRoot\<close>
  is its canonical absolute text.
\<close>

section \<open>Operations\<close>

datatype virtual_root = VirtualRoot (root_str: string)

datatype virtual_root_error =
  VR_NotAbsolute | VR_ParentComponent | VR_NulByte | VR_PlatformSeparator | VR_PlatformPrefix

datatype virtual_path_error =
  VP_Empty | VP_NulByte | VP_EscapesAbsoluteRoot | VP_OutsideRoot | VP_InvalidRelative vpath_error

text \<open>Here a component that starts with a letter and a colon has a platform prefix.\<close>

definition drive_prefixed :: "string \<Rightarrow> bool" where
  "drive_prefixed c \<longleftrightarrow> 2 \<le> length c \<and> is_ascii_alphabetic (c ! 0) \<and> c ! 1 = CHR '':''"

fun root_components :: "string list \<Rightarrow> string list \<Rightarrow> virtual_root_error + string list" where
  "root_components acc [] = Ok acc"
| "root_components acc (c # rest) =
     (if c = '''' \<or> c = ''.'' then root_components acc rest
      else if c = ''..'' then Err VR_ParentComponent
      else if drive_prefixed c then Err VR_PlatformPrefix
      else root_components (acc @ [c]) rest)"

definition absolute_str :: "string list \<Rightarrow> string" where
  "absolute_str acc = (if acc = [] then ''/'' else slash # join_with slash acc)"

definition virtual_root_new :: "string \<Rightarrow> virtual_root_error + virtual_root" where
  "virtual_root_new absolute =
     (if nul \<in> set absolute then Err VR_NulByte
      else if absolute = [] \<or> hd absolute \<noteq> slash then Err VR_NotAbsolute
      else if backslash \<in> set absolute then Err VR_PlatformSeparator
      else bindR (root_components [] (split_on slash absolute)) (\<lambda>cs. Ok (VirtualRoot (absolute_str cs))))"

definition default_virtual_root :: virtual_root where
  "default_virtual_root = VirtualRoot ''/workspace''"

fun absolute_components :: "string list \<Rightarrow> string list \<Rightarrow> virtual_path_error + string list" where
  "absolute_components acc [] = Ok acc"
| "absolute_components acc (c # rest) =
     (if c = '''' \<or> c = ''.'' then absolute_components acc rest
      else if c = ''..'' then
        (if acc = [] then Err VP_EscapesAbsoluteRoot
         else absolute_components (butlast acc) rest)
      else absolute_components (acc @ [c]) rest)"

definition normalize_absolute :: "string \<Rightarrow> virtual_path_error + string" where
  "normalize_absolute input =
     bindR (absolute_components [] (split_on slash input)) (\<lambda>cs. Ok (absolute_str cs))"

text \<open>What follows the root in a normalized absolute path.\<close>

definition relative_in :: "virtual_root \<Rightarrow> string \<Rightarrow> virtual_path_error + string" where
  "relative_in r absolute =
     (if root_str r = ''/''
      then Ok (case strip_prefix ''/'' absolute of Some s \<Rightarrow> s | None \<Rightarrow> absolute)
      else if absolute = root_str r then Ok []
      else ok_or (Option.bind (strip_prefix (root_str r) absolute) (strip_prefix [slash])) VP_OutsideRoot)"

definition map_path :: "virtual_root \<Rightarrow> string \<Rightarrow> virtual_path_error + vpath" where
  "map_path r input =
     (if input = [] then Err VP_Empty
      else if nul \<in> set input then Err VP_NulByte
      else let portable = portable_str input in
        if hd portable = slash then
          bindR (normalize_absolute portable) (\<lambda>absolute.
          bindR (relative_in r absolute) (\<lambda>relative. if relative = [] then Ok root
               else map_err VP_InvalidRelative (parse relative)))
        else map_err VP_InvalidRelative (parse portable))"

definition present :: "virtual_root \<Rightarrow> vpath \<Rightarrow> string" where
  "present r p =
     (if is_root p then root_str r
      else if root_str r = ''/'' then slash # as_str p
      else root_str r @ slash # as_str p)"

section \<open>The namespace in components\<close>

text \<open>A root the constructor accepts, by its components.\<close>

definition root_of :: "virtual_root \<Rightarrow> string list \<Rightarrow> bool" where
  "root_of r cs \<longleftrightarrow> root_str r = absolute_str cs \<and> list_all comp_ok cs"

lemma root_components_ok:
  "root_components acc cs = Ok out \<Longrightarrow> list_all comp_ok acc \<Longrightarrow>
   \<forall>c \<in> set cs. slash \<notin> set c \<and> backslash \<notin> set c \<and> nul \<notin> set c \<Longrightarrow> list_all comp_ok out"
proof (induction acc cs rule: root_components.induct)
  case (2 acc c rest)
  then show ?case by (auto simp: comp_ok_def split: if_splits)
qed simp

lemma virtual_root_ok:
  assumes "virtual_root_new s = Ok r"
  obtains cs where "root_of r cs"
proof -
  obtain cs where cs: "root_components [] (split_on slash s) = Ok cs" "r = VirtualRoot (absolute_str cs)"
    and s: "nul \<notin> set s" "backslash \<notin> set s"
    using assms by (auto simp: virtual_root_new_def bindR_Inr_iff split: if_splits)
  have "list_all comp_ok cs"
    by (rule root_components_ok[OF cs(1)]) (use s set_in_split_on split_on_free in \<open>fastforce+\<close>)
  then show ?thesis using that cs(2) by (simp add: root_of_def)
qed

lemma absolute_is_norm:
  "absolute_components acc cs = Ok out \<longleftrightarrow> norm_components acc cs = Ok out"
  by (induction acc cs rule: absolute_components.induct) auto

lemma absolute_str_eq:
  assumes "list_all comp_ok cs" "list_all comp_ok ds"
  shows "absolute_str cs = absolute_str ds \<longleftrightarrow> cs = ds"
proof -
  have ne: "join_with slash es \<noteq> []" if "list_all comp_ok es" "es \<noteq> []" for es
    using that by (auto simp: join_with_eq_Nil comp_ok_def)
  have inj: "cs = ds" if "join_with slash cs = join_with slash ds" "cs \<noteq> []" "ds \<noteq> []"
  proof -
    have "split_on slash (join_with slash es) = es" if "list_all comp_ok es" "es \<noteq> []" for es
      by (rule split_join_with) (use that in \<open>auto simp: list_all_iff comp_ok_def\<close>)
    then show ?thesis using that assms by metis
  qed
  show ?thesis
    using inj ne[OF assms(1)] ne[OF assms(2)] by (cases "cs = []"; cases "ds = []") (auto simp: absolute_str_def)
qed

text \<open>What is left of a normalized absolute path below the root.\<close>

lemma relative_iff:
  assumes r: "root_of r rs" and cs: "list_all comp_ok cs"
  shows "relative_in r (absolute_str cs) = Ok rel \<longleftrightarrow> (\<exists>ds. cs = rs @ ds \<and> rel = join_with slash ds)"
proof (cases "rs = []")
  case True
  then have "root_str r = [slash]" using r by (simp add: root_of_def absolute_str_def)
  moreover have "strip_prefix [slash] (absolute_str cs) = Some (join_with slash cs)"
    by (simp add: absolute_str_def)
  ultimately show ?thesis using True by (auto simp: relative_in_def)
next
  case False
  have rs: "list_all comp_ok rs" and root: "root_str r = slash # join_with slash rs"
    using r False by (auto simp: root_of_def absolute_str_def)
  have noslash: "root_str r \<noteq> ''/''"
    using root False rs by (cases rs) (auto simp: join_with_eq_Nil comp_ok_def)
  have plain: "split_on slash (join_with slash es) = es" if "list_all comp_ok es" "es \<noteq> []" for es
    by (rule split_join_with) (use that in \<open>auto simp: list_all_iff comp_ok_def\<close>)
  have down: "cs = rs @ split_on slash rel" if "absolute_str cs = root_str r @ slash # rel"
  proof -
    have ne: "cs \<noteq> []" using that root by (auto simp: absolute_str_def)
    then have "split_on slash (join_with slash cs) = split_on slash (join_with slash rs @ slash # rel)"
      using that root by (simp add: absolute_str_def)
    then show ?thesis by (simp add: plain[OF cs ne] plain[OF rs False] split_on_append)
  qed
  have same: "absolute_str cs = root_str r \<longleftrightarrow> cs = rs"
    using absolute_str_eq[OF cs rs] r by (simp add: root_of_def)
  show ?thesis
  proof
    assume a: "relative_in r (absolute_str cs) = Ok rel"
    show "\<exists>ds. cs = rs @ ds \<and> rel = join_with slash ds"
    proof (cases "absolute_str cs = root_str r")
      case True
      then show ?thesis using a noslash same by (simp add: relative_in_def)
    next
      case diff: False
      then obtain sfx where sfx: "strip_prefix (root_str r) (absolute_str cs) = Some sfx"
        "strip_prefix [slash] sfx = Some rel"
        using a noslash by (auto simp: relative_in_def bind_eq_Some_conv simp del: strip_prefix.simps)
      then have "absolute_str cs = root_str r @ slash # rel"
        by (simp only: strip_prefix_Some_iff) simp
      from down[OF this] show ?thesis by (intro exI[of _ "split_on slash rel"]) simp
    qed
  next
    assume "\<exists>ds. cs = rs @ ds \<and> rel = join_with slash ds"
    then obtain ds where ds: "cs = rs @ ds" "rel = join_with slash ds" by blast
    show "relative_in r (absolute_str cs) = Ok rel"
    proof (cases "ds = []")
      case True
      then show ?thesis using ds noslash same by (simp add: relative_in_def)
    next
      case ne: False
      have eq: "absolute_str cs = root_str r @ slash # rel"
        using ds False root ne by (simp add: absolute_str_def join_with_append)
      then have "strip_prefix (root_str r) (absolute_str cs) = Some (slash # rel)"
        by (simp only: strip_prefix_Some_iff)
      then show ?thesis using noslash eq by (simp add: relative_in_def)
    qed
  qed
qed

text \<open>
  An absolute path is accepted when it normalizes to components below the root's, and then names
  what is left; a relative path is parsed as it is.
\<close>

lemma norm_comps:
  assumes "nul \<notin> set s" "norm_components [] (split_on slash (portable_str s)) = Ok cs"
  shows "list_all comp_ok cs"
  by (rule norm_components_ok[OF assms(2)])
     (use assms(1) set_in_split_on split_on_free portable_str_chars in \<open>fastforce+\<close>)

lemma parse_joined:
  assumes ok: "list_all comp_ok ds" and ne: "ds \<noteq> []"
  shows "parse (join_with slash ds) = Ok p \<longleftrightarrow> no_drive ds \<and> p = of_components ds"
proof (cases "no_drive ds")
  case True
  then show ?thesis using normalize_components[OF ok ne] by (auto simp: parse_def)
next
  case False
  let ?s = "join_with slash ds"
  have "split_on slash ?s = ds"
    by (rule split_join_with) (use ok ne in \<open>auto simp: list_all_iff comp_ok_def\<close>)
  moreover have "backslash \<notin> set ?s"
    using ok join_with_chars[of backslash slash ds] by (auto simp: list_all_iff comp_ok_def)
  ultimately have "parse ?s = Ok p \<Longrightarrow> False" using False ne
    by (simp add: parse_def normalize_eq_ref normalize_ref_def hd_split_portable no_drive_def split: if_splits)
  then show ?thesis using False by blast
qed

lemma map_path_absolute:
  assumes r: "root_of r rs" and s: "s \<noteq> []" "nul \<notin> set s" "hd (portable_str s) = slash"
  shows "map_path r s = Ok p \<longleftrightarrow>
    norm_components [] (split_on slash (portable_str s)) = Ok (rs @ components p) \<and>
    vpath_ok p \<and> no_drive (components p)"
proof -
  define named where "named rel \<longleftrightarrow> (if rel = [] then p = root else parse rel = Ok p)" for rel
  have only_root: "(if rel = [] then Ok root else map_err VP_InvalidRelative (parse rel)) = Ok p \<longleftrightarrow> named rel" for rel
    by (cases "rel = []") (simp_all add: named_def eq_commute[of root])
  have "map_path r s = Ok p \<longleftrightarrow>
      (\<exists>a. normalize_absolute (portable_str s) = Ok a \<and> (\<exists>rel. relative_in r a = Ok rel \<and> named rel))"
    using s by (simp add: map_path_def bindR_Inr_iff only_root)
  also have "\<dots> \<longleftrightarrow> (\<exists>cs. norm_components [] (split_on slash (portable_str s)) = Ok cs \<and>
      (\<exists>rel. relative_in r (absolute_str cs) = Ok rel \<and> named rel))"
    unfolding normalize_absolute_def bindR_Inr_iff absolute_is_norm sum.inject by blast
  also have "\<dots> \<longleftrightarrow> (\<exists>cs. norm_components [] (split_on slash (portable_str s)) = Ok cs \<and>
      (\<exists>ds. cs = rs @ ds \<and> named (join_with slash ds)))"
  proof (intro ex_cong conj_cong refl)
    fix cs assume "norm_components [] (split_on slash (portable_str s)) = Ok cs"
    note iff = relative_iff[OF r norm_comps[OF s(2) this]]
    show "(\<exists>rel. relative_in r (absolute_str cs) = Ok rel \<and> named rel) \<longleftrightarrow>
        (\<exists>ds. cs = rs @ ds \<and> named (join_with slash ds))"
      unfolding iff by fast
  qed
  finally have step: "map_path r s = Ok p \<longleftrightarrow> (\<exists>cs. norm_components [] (split_on slash (portable_str s)) = Ok cs \<and>
      (\<exists>ds. cs = rs @ ds \<and> named (join_with slash ds)))" .
  have tail: "named (join_with slash ds) \<longleftrightarrow> p = of_components ds \<and> no_drive ds" if "list_all comp_ok ds" for ds
    using that parse_joined[OF that]
    by (cases "ds = []") (auto simp: named_def join_with_eq_Nil of_components_def no_drive_def comp_ok_def)
  have ok: "list_all comp_ok ds" if "norm_components [] (split_on slash (portable_str s)) = Ok (rs @ ds)" for ds
    using norm_comps[OF s(2) that] by simp
  show ?thesis
  proof
    assume "map_path r s = Ok p"
    then obtain ds where "norm_components [] (split_on slash (portable_str s)) = Ok (rs @ ds)"
      "p = of_components ds" "no_drive ds" "list_all comp_ok ds"
      using step tail ok by blast
    then show "norm_components [] (split_on slash (portable_str s)) = Ok (rs @ components p) \<and>
      vpath_ok p \<and> no_drive (components p)"
      by (simp add: vpath_ok_of_components)
  next
    assume a: "norm_components [] (split_on slash (portable_str s)) = Ok (rs @ components p) \<and>
      vpath_ok p \<and> no_drive (components p)"
    then have "named (join_with slash (components p))" using tail[of "components p"] by (simp add: vpath_ok_def)
    then show "map_path r s = Ok p" using step a by blast
  qed
qed

lemma present_portable:
  assumes "root_of r rs" "vpath_ok p"
  shows "present r p = absolute_str (rs @ components p)"
proof (cases "p = root")
  case True
  then show ?thesis using assms by (simp add: present_def root_of_def)
next
  case False
  have "root_str r = ''/'' \<longleftrightarrow> rs = []"
    using assms(1) absolute_str_eq[of rs "[]"] by (simp add: root_of_def absolute_str_def)
  then show ?thesis using False assms
    by (auto simp: present_def root_of_def absolute_str_def is_root_iff as_str_join components_not_Nil join_with_append)
qed

lemma split_absolute:
  assumes "list_all comp_ok cs"
  shows "norm_components [] (split_on slash (absolute_str cs)) = Ok cs"
proof -
  have "split_on slash (absolute_str cs) = (if cs = [] then [[], []] else [] # cs)"
    using assms split_join_with[of cs slash] comp_ok_slash by (auto simp: absolute_str_def list_all_iff)
  moreover have "list_all plain_comp cs" using assms by (auto simp: list_all_iff comp_ok_def)
  ultimately show ?thesis by (simp add: norm_components_plain)
qed

lemma map_present:
  assumes "root_of r rs" "vpath_ok p" "no_drive (components p)"
  shows "map_path r (present r p) = Ok p"
proof -
  let ?s = "absolute_str (rs @ components p)"
  have ok: "list_all comp_ok (rs @ components p)" using assms by (simp add: root_of_def vpath_ok_def)
  have chars: "x \<noteq> slash \<Longrightarrow> x \<in> set ?s \<Longrightarrow> \<exists>c \<in> set (rs @ components p). x \<in> set c" for x
    using join_with_chars[of x slash "rs @ components p"] by (auto simp: absolute_str_def split: if_splits)
  have bs: "backslash \<notin> set ?s" "nul \<notin> set ?s"
    using chars[of backslash] chars[of nul] ok by (auto simp: list_all_iff comp_ok_def)
  have hd: "?s \<noteq> []" "hd ?s = slash" by (auto simp: absolute_str_def)
  show ?thesis
    unfolding present_portable[OF assms(1,2)]
    using map_path_absolute[OF assms(1), of ?s p] hd bs split_absolute[OF ok] assms(2,3)
    by (simp add: hd_split_portable)
qed

lemma map_path_ok: "map_path r s = Ok p \<Longrightarrow> vpath_ok p"
  by (auto simp: map_path_def Let_def bindR_Inr_iff parse_def dest: normalize_ok split: if_splits)

end
