(* ===== verification/Gateway.thy ===== *)
theory Gateway
  imports Budget Policy VfsDiff
begin

text \<open>
  The filesystem gateway of the guest adapters (\<open>crates/vsh-execution/src/gateway.rs\<close> and
  \<open>gateway/{open,walk,copy}.rs\<close>): every operation checks the capability policy and the work ledger
  before it reaches the virtual filesystem.  Traversals keep their stack of pending paths in a
  vector; their loops end because every pushed path was charged as a directory entry.
\<close>

section \<open>State and errors\<close>

record fs_gateway =
  gw_fs :: virtual_fs
  gw_policy :: call_policy
  gw_budget :: execution_budget
  gw_origin :: effect_origin

datatype gateway_error =
  GW_InvalidOperation string "vpath option"
| GW_Policy denied_access
| GW_Limit execution_limit_exceeded
| GW_Filesystem vfs_error

text \<open>The environment of the filesystem, and the sizes of two more types.\<close>

record gateway_env =
  ge_vfs :: environment
  sz_denied :: nat
  sz_copy :: nat

type_synonym 'a gw_op = "(fs_gateway, gateway_error, 'a) op"

text \<open>\<open>From<VfsError>\<close>\<close>

definition from_vfs :: "vfs_error \<Rightarrow> gateway_error" where
  "from_vfs e = (case e of
     EvidenceLimit (EvRecords limit attempted) \<Rightarrow> GW_Limit (XL_EvidenceRecords limit attempted)
   | EvidenceLimit (EvBytes limit attempted) \<Rightarrow> GW_Limit (XL_EvidenceBytes limit attempted)
   | _ \<Rightarrow> GW_Filesystem e)"

definition check_path_bytes :: "string \<Rightarrow> execution_limits \<Rightarrow> execution_limit_exceeded + unit" where
  "check_path_bytes raw limits =
     (if max_path_bytes limits < len64 raw then Err (XL_PathBytes (max_path_bytes limits) (len64 raw)) else Ok ())"

fun authorize_path :: "call_policy \<Rightarrow> vpath \<Rightarrow> access_kind list \<Rightarrow> denied_access + unit" where
  "authorize_path pol p [] = Ok ()"
| "authorize_path pol p (a # as) = bindR (authorize pol p a) (\<lambda>_. authorize_path pol p as)"

definition gateway_new :: "virtual_fs \<Rightarrow> call_policy \<Rightarrow> execution_budget \<Rightarrow> effect_origin \<Rightarrow> fs_gateway" where
  "gateway_new v pol b orig =
     \<lparr>gw_fs = limit_evidence (evidence_limits_of (xb_limits b)) v, gw_policy = pol, gw_budget = b,
      gw_origin = orig\<rparr>"

text \<open>A denial the adapter keeps is charged to the evidence; the state is the filesystem and the list.\<close>

definition retain_denial ::
    "gateway_env \<Rightarrow> execution_limits \<Rightarrow> denied_access \<Rightarrow> (virtual_fs \<times> denied_access list, gateway_error, unit) op" where
  "retain_denial env limits denial = (\<lambda>(v, ds).
     let v = limit_evidence (evidence_limits_of limits) v;
         total = length (as_str (da_path denial)) + length (da_rule denial) + 2 * sz_denied env;
         n = (if total < 2 ^ 64 then of_nat total else u64_max) in
     case reserve_adapter_evidence n v of
       (Inl e, v') \<Rightarrow> (Err (from_vfs e), v', ds)
     | (Inr _, v') \<Rightarrow> (case grow_bounded (ge_vfs env) (length ds) of
         Inl f \<Rightarrow> (case stop_evidence EvAllocation v' of
             (Inl e, v'') \<Rightarrow> (Err (from_vfs e), v'', ds)
           | (Inr u, v'') \<Rightarrow> (Ok u, v'', ds))
       | Inr _ \<Rightarrow> (Ok (), v', ds @ [denial])))"

section \<open>Access to the filesystem\<close>

definition gw_authorize :: "vpath \<Rightarrow> access_kind list \<Rightarrow> fs_gateway \<Rightarrow> gateway_error + unit" where
  "gw_authorize p accesses g =
     bindR (map_err from_vfs (fst (check_evidence (gw_fs g)))) (\<lambda>_ :: unit.
     bindR (map_err GW_Limit (check_path_bytes (as_str p) (xb_limits (gw_budget g)))) (\<lambda>_.
       map_err GW_Policy (authorize_path (gw_policy g) p accesses)))"

definition require_access :: "vpath \<Rightarrow> access_kind list \<Rightarrow> unit gw_op" where
  "require_access p accesses g = (gw_authorize p accesses g, g)"

definition with_effect_origin :: "effect_origin \<Rightarrow> 'a vfs_op \<Rightarrow> 'a vfs_op" where
  "with_effect_origin orig m v = (case m (v\<lparr>vf_origin := orig\<rparr>) of (r, v') \<Rightarrow> (r, v'\<lparr>vf_origin := vf_origin v\<rparr>))"

definition gw_apply :: "'a vfs_op \<Rightarrow> 'a gw_op" where
  "gw_apply m g = (case bindS check_evidence (\<lambda>_. with_effect_origin (gw_origin g) m) (gw_fs g) of
     (r, v) \<Rightarrow> (map_err from_vfs r, g\<lparr>gw_fs := v\<rparr>))"

definition gw_charge :: "unit budget_op \<Rightarrow> unit gw_op" where
  "gw_charge m g = (case m (gw_budget g) of (r, b) \<Rightarrow> (map_err GW_Limit r, g\<lparr>gw_budget := b\<rparr>))"

definition gw_fail :: "vfs_error \<Rightarrow> 'a gw_op" where
  "gw_fail e = failS (from_vfs e)"

text \<open>\<open>reserve_buffer::<T>\<close> with the size of \<open>T\<close>.\<close>

definition reserve_buffer :: "nat \<Rightarrow> evidence_buffer \<Rightarrow> nat \<Rightarrow> evidence_buffer gw_op" where
  "reserve_buffer sz buf path_bytes g =
     (let total = path_bytes + 4 * sz; n = (if total < 2 ^ 64 then of_nat total else u64_max) in
      case on_evidence (ev_reserve_buffer buf n) (gw_fs g) of
        (r, v) \<Rightarrow> (map_err from_vfs r, g\<lparr>gw_fs := v\<rparr>))"

definition reserve_path :: "gateway_env \<Rightarrow> evidence_buffer \<Rightarrow> vpath \<Rightarrow> evidence_buffer gw_op" where
  "reserve_path env buf p = reserve_buffer (sz_path (ge_vfs env)) buf (length (as_str p))"

definition is_not_found :: "gateway_error \<Rightarrow> bool" where
  "is_not_found e \<longleftrightarrow> (case e of GW_Filesystem (Vfs_NotFound _) \<Rightarrow> True | _ \<Rightarrow> False)"

text \<open>The state at a path, or nothing when the path is missing.\<close>

definition metadata_if_present :: "gateway_env \<Rightarrow> vpath \<Rightarrow> node_state option gw_op" where
  "metadata_if_present env p g = (case gw_apply (metadata (ge_vfs env) p) g of
     (Inr st, g') \<Rightarrow> (Ok (Some st), g')
   | (Inl e, g') \<Rightarrow> if is_not_found e then (Ok None, g') else (Err e, g'))"

section \<open>Observations\<close>

definition gw_metadata :: "gateway_env \<Rightarrow> vpath \<Rightarrow> node_state gw_op" where
  "gw_metadata env p =
     bindS (require_access p [Acc_MetadataRead]) (\<lambda>_. gw_apply (metadata (ge_vfs env) p))"

definition gw_read :: "gateway_env \<Rightarrow> vpath \<Rightarrow> bytes gw_op" where
  "gw_read env p =
     bindS (require_access p [Acc_ContentRead]) (\<lambda>_.
     bindS (gw_apply (metadata (ge_vfs env) p)) (\<lambda>st.
     if kind st \<noteq> File then gw_fail (NotFile p (kind st))
     else bindS (gw_charge (charge_read (nsize st))) (\<lambda>_. gw_apply (read (ge_vfs env) p))))"

definition gw_read_link :: "gateway_env \<Rightarrow> vpath \<Rightarrow> bytes gw_op" where
  "gw_read_link env p =
     bindS (require_access p [Acc_ContentRead]) (\<lambda>_.
     bindS (gw_apply (metadata (ge_vfs env) p)) (\<lambda>st.
     if kind st \<noteq> Symlink then gw_fail (NotSymlink p (kind st))
     else bindS (gw_charge (charge_read (nsize st))) (\<lambda>_. gw_apply (read_link (ge_vfs env) p))))"

definition list_authorized_children :: "gateway_env \<Rightarrow> vpath \<Rightarrow> vpath list gw_op" where
  "list_authorized_children env p g =
     (let used = st_directory_entries (xb_stats (gw_budget g));
          limit = max_directory_entries (xb_limits (gw_budget g));
          remaining = unat (saturating_sub limit used) in
      case gw_apply (read_dir_with_limit (ge_vfs env) p remaining) g of
        (Inl (GW_Filesystem (DirectoryEntryLimit _ _ attempted)), g') \<Rightarrow>
          (Err (GW_Limit (XL_DirectoryEntries limit (saturating_add used (of_nat attempted)))), g')
      | (Inl (GW_Filesystem e), g') \<Rightarrow> (Err (from_vfs e), g')
      | (Inl e, g') \<Rightarrow> (Err e, g')
      | (Inr cs, g') \<Rightarrow>
          bindS (gw_charge (charge_directory_entries (len64 cs))) (\<lambda>_. returnS cs) g')"

definition gw_read_dir :: "gateway_env \<Rightarrow> vpath \<Rightarrow> vpath list gw_op" where
  "gw_read_dir env p =
     bindS (require_access p [Acc_DirectoryRead]) (\<lambda>_.
     bindS (list_authorized_children env p) (\<lambda>cs.
     bindS (getS gw_policy) (\<lambda>pol.
       returnS (filter (\<lambda>c. authorize pol c Acc_MetadataRead = Ok ()) cs))))"

section \<open>Mutations\<close>

definition gw_write :: "gateway_env \<Rightarrow> vpath \<Rightarrow> bytes \<Rightarrow> unit gw_op" where
  "gw_write env p b =
     bindS (gw_charge (charge_write (len64 b))) (\<lambda>_.
     bindS (require_access p [Acc_Create, Acc_Modify]) (\<lambda>_. gw_apply (write_file (ge_vfs env) p b)))"

definition gw_append :: "gateway_env \<Rightarrow> vpath \<Rightarrow> bytes \<Rightarrow> unit gw_op" where
  "gw_append env p b =
     bindS (gw_charge (charge_write (len64 b))) (\<lambda>_.
     bindS (require_access p [Acc_Create, Acc_Modify]) (\<lambda>_.
     bindS (metadata_if_present env p) (\<lambda>found. case found of
       Some st \<Rightarrow>
         if kind st = File then
           bindS (gw_charge (charge_read (nsize st))) (\<lambda>_. gw_apply (append (ge_vfs env) p b))
         else gw_fail (NotFile p (kind st))
     | None \<Rightarrow> gw_apply (write_file (ge_vfs env) p b))))"

definition gw_mkdir :: "gateway_env \<Rightarrow> vpath \<Rightarrow> u32 \<Rightarrow> unit gw_op" where
  "gw_mkdir env p m =
     bindS (require_access p [Acc_Create]) (\<lambda>_. gw_apply (mkdir (ge_vfs env) p m))"

definition gw_set_mode :: "gateway_env \<Rightarrow> vpath \<Rightarrow> u32 \<Rightarrow> unit gw_op" where
  "gw_set_mode env p m =
     bindS (require_access p [Acc_MetadataRead, Acc_Modify]) (\<lambda>_. gw_apply (set_mode (ge_vfs env) p m))"

definition gw_unlink :: "gateway_env \<Rightarrow> vpath \<Rightarrow> unit gw_op" where
  "gw_unlink env p =
     bindS (require_access p [Acc_Delete]) (\<lambda>_. gw_apply (unlink (ge_vfs env) p))"

definition gw_rmdir :: "gateway_env \<Rightarrow> vpath \<Rightarrow> unit gw_op" where
  "gw_rmdir env p =
     bindS (require_access p [Acc_Delete, Acc_DirectoryRead]) (\<lambda>_.
     if is_root p then gw_fail RootMutation
     else bindS (list_authorized_children env p) (\<lambda>cs.
       if cs \<noteq> [] then gw_fail (DirectoryNotEmpty p) else gw_apply (rmdir (ge_vfs env) p)))"

section \<open>Directories with their ancestors\<close>

text \<open>The walk from a path up to the root.\<close>

lemma parent_smaller:
  assumes "parent p = Some q" "\<not> is_root p"
  shows "(if is_root q then 0 else Suc (length (as_str q))) < (if is_root p then 0 else Suc (length (as_str p)))"
proof (cases "rsplit_once slash (as_str p)")
  case None
  then show ?thesis using assms by (auto simp: parent_def is_root_def)
next
  case (Some lr)
  then obtain l r where lr: "rsplit_once slash (as_str p) = Some (l, r)" by (cases lr) auto
  have "length l < length (as_str p)" using rsplit_once_Some[OF lr] by simp
  then show ?thesis using assms lr by (auto simp: parent_def)
qed

definition climb :: "vpath option \<Rightarrow> nat" where
  "climb x = (case x of None \<Rightarrow> 0 | Some p \<Rightarrow> Suc (if is_root p then 0 else Suc (length (as_str p))))"

lemma climb_parent: "climb (parent p) < climb (Some p)"
  using parent_smaller[of p] by (cases "parent p") (auto simp: climb_def parent_def split: if_splits)

function authorize_ancestors :: "fs_gateway \<Rightarrow> vpath option \<Rightarrow> gateway_error + unit" where
  "authorize_ancestors g None = Ok ()"
| "authorize_ancestors g (Some c) =
     (if is_root c then Ok ()
      else case gw_authorize c [Acc_Create, Acc_Modify] g of
        Inl e \<Rightarrow> Err e
      | Inr _ \<Rightarrow> authorize_ancestors g (parent c))"
  by pat_completeness auto
termination by (relation "measure (\<lambda>(_, c). climb c)") (simp_all add: climb_parent)

text \<open>The missing ancestors, nearest first.\<close>

function missing_ancestors ::
    "gateway_env \<Rightarrow> evidence_buffer \<Rightarrow> vpath list \<Rightarrow> vpath option \<Rightarrow> vpath list gw_op" where
  "missing_ancestors env buf missing None g = (Ok missing, g)"
| "missing_ancestors env buf missing (Some p) g = (case metadata_if_present env p g of
     (Inl e, g') \<Rightarrow> (Err e, g')
   | (Inr (Some st), g') \<Rightarrow>
       if kind st = Directory then (Ok missing, g') else gw_fail (NotDirectory p (kind st)) g'
   | (Inr None, g') \<Rightarrow> (case reserve_path env buf p g' of
       (Inl e, g'') \<Rightarrow> (Err e, g'')
     | (Inr buf', g'') \<Rightarrow> missing_ancestors env buf' (missing @ [p]) (parent p) g''))"
  by pat_completeness auto
termination by (relation "measure (\<lambda>(_, _, _, c, _). climb c)") (simp_all add: climb_parent)

definition gw_mkdir_options :: "gateway_env \<Rightarrow> vpath \<Rightarrow> u32 \<Rightarrow> bool \<Rightarrow> bool \<Rightarrow> unit gw_op" where
  "gw_mkdir_options env p m parents exist_ok =
     bindS (require_access p [Acc_Create, Acc_Modify]) (\<lambda>_.
     bindS (if parents then (\<lambda>g. (authorize_ancestors g (parent p), g)) else returnS ()) (\<lambda>_.
     bindS (metadata_if_present env p) (\<lambda>found. case found of
       Some st \<Rightarrow> if exist_ok \<and> kind st = Directory then returnS () else gw_fail (AlreadyExists p)
     | None \<Rightarrow>
         if \<not> parents then gw_apply (mkdir (ge_vfs env) p m)
         else
           bindS (reserve_path env 0 p) (\<lambda>buf.
           bindS (missing_ancestors env buf [p] (parent p)) (\<lambda>missing.
             forS (rev missing) (\<lambda>d. gw_apply (mkdir (ge_vfs env) d m)))))))"

section \<open>Traversals\<close>

text \<open>What is left of the directory-entry budget, and the paths still to visit.\<close>

definition walk_measure :: "fs_gateway \<Rightarrow> vpath list \<Rightarrow> nat" where
  "walk_measure g pending =
     unat (max_directory_entries (xb_limits (gw_budget g))) - unat (st_directory_entries (xb_stats (gw_budget g))) +
     length pending"

abbreviation same_entries :: "fs_gateway \<Rightarrow> fs_gateway \<Rightarrow> bool" where
  "same_entries g h \<equiv> xb_limits (gw_budget h) = xb_limits (gw_budget g) \<and>
     st_directory_entries (xb_stats (gw_budget h)) = st_directory_entries (xb_stats (gw_budget g))"

lemma budget_apply [simp]: "gw_budget (snd (gw_apply m g)) = gw_budget g"
  by (simp add: gw_apply_def split: prod.split)

lemma budget_reserve [simp]: "gw_budget (snd (reserve_buffer sz buf n g)) = gw_budget g"
  by (simp add: reserve_buffer_def Let_def split: prod.split)

lemma budget_reserve_path [simp]: "gw_budget (snd (reserve_path env buf p g)) = gw_budget g"
  by (simp add: reserve_path_def)

lemma reads_keep_entries: "same_entries g (snd (gw_charge (charge_read n) g))"
  by (simp add: gw_charge_def charge_read_def split: prod.split sum.split)

lemma writes_keep_entries: "same_entries g (snd (gw_charge (charge_write n) g))"
  by (simp add: gw_charge_def charge_write_def split: prod.split sum.split)

lemma gw_apply_Inr:
  assumes "gw_apply m g = (Inr x, h)"
  shows "\<exists>v. m ((gw_fs g)\<lparr>vf_origin := gw_origin g\<rparr>) = (Inr x, v) \<and>
    h = g\<lparr>gw_fs := v\<lparr>vf_origin := vf_origin (gw_fs g)\<rparr>\<rparr>"
proof -
  obtain v where v: "bindS check_evidence (\<lambda>_. with_effect_origin (gw_origin g) m) (gw_fs g) = (Inr x, v)"
    "h = g\<lparr>gw_fs := v\<rparr>"
    using assms by (auto simp: gw_apply_def split: prod.splits)
  then have "with_effect_origin (gw_origin g) m (gw_fs g) = (Inr x, v)"
    by (auto simp: bindS_Inr check_evidence_def)
  then show ?thesis using v(2) by (auto simp: with_effect_origin_def split: prod.splits)
qed

lemma read_dir_length:
  assumes "read_dir_with_limit env p limit v = (Inr cs, u)"
  shows "length cs \<le> limit"
proof -
  obtain v1 v2 where "stop_on_evidence (collect_children env p limit (vf_evidence v1) 0 [] (visible_children v1 p)) v1
      = (Inr cs, v2)"
    using assms unfolding read_dir_with_limit_def bindS_Inr by (fastforce simp: bindS_Inr)
  then have "collect_children env p limit (vf_evidence v1) 0 [] (visible_children v1 p) = Inr cs"
    by (auto simp: stop_on_evidence_def split: sum.splits vfs_error.splits)
  from collect_children_Inr[OF this] show ?thesis by force
qed

text \<open>A listing is paid for entry by entry.\<close>

lemma list_children_charged:
  assumes "list_authorized_children env p g = (Inr cs, h)"
  shows "walk_measure h (pending @ cs) \<le> walk_measure g pending"
proof -
  obtain g1 where read: "gw_apply (read_dir_with_limit (ge_vfs env) p (unat (saturating_sub
      (max_directory_entries (xb_limits (gw_budget g))) (st_directory_entries (xb_stats (gw_budget g)))))) g = (Inr cs, g1)"
    and charge: "gw_charge (charge_directory_entries (len64 cs)) g1 = (Inr (), h)"
    using assms by (auto simp: list_authorized_children_def Let_def bindS_def
        split: prod.splits sum.splits gateway_error.splits vfs_error.splits)
  have b1: "gw_budget g1 = gw_budget g" using read by (metis budget_apply snd_conv)
  let ?used = "st_directory_entries (xb_stats (gw_budget g))" and ?limit = "max_directory_entries (xb_limits (gw_budget g))"
  have len: "length cs < 2 ^ 64"
  proof -
    have "length cs \<le> unat (saturating_sub ?limit ?used)"
      using gw_apply_Inr[OF read] read_dir_length by blast
    also have "\<dots> < 2 ^ 64" using unsigned_less[where w="saturating_sub ?limit ?used", where ?'a=nat] by simp
    finally show ?thesis .
  qed
  obtain n where n: "charge ?used (len64 cs) ?limit XL_DirectoryEntries = Inr n"
    "st_directory_entries (xb_stats (gw_budget h)) = n" "xb_limits (gw_budget h) = xb_limits (gw_budget g)"
    using charge b1 by (auto simp: gw_charge_def charge_directory_entries_def split: sum.splits)
  then show ?thesis using charge_Inr[OF n(1)] unat_len64[OF len] by (simp add: walk_measure_def word_le_nat_alt)
qed

text \<open>
  The loop body shared by \<open>remove_tree\<close> and \<open>rename\<close>: every child is checked, its metadata read, and
  directories are pushed.  The check reads the gateway only.
\<close>

fun scan_children :: "gateway_env \<Rightarrow> (vpath \<Rightarrow> fs_gateway \<Rightarrow> gateway_error + unit) \<Rightarrow> evidence_buffer \<Rightarrow> vpath list \<Rightarrow>
    vpath list \<Rightarrow> (evidence_buffer \<times> vpath list) gw_op" where
  "scan_children env check buf pending [] = returnS (buf, pending)"
| "scan_children env check buf pending (c # cs) =
     bindS (\<lambda>g. (check c g, g)) (\<lambda>_.
     bindS (gw_apply (metadata (ge_vfs env) c)) (\<lambda>st.
     if kind st = Directory then
       bindS (reserve_path env buf c) (\<lambda>buf'. scan_children env check buf' (pending @ [c]) cs)
     else scan_children env check buf pending cs))"

definition scan_directory :: "gateway_env \<Rightarrow> access_kind list \<Rightarrow> (vpath \<Rightarrow> fs_gateway \<Rightarrow> gateway_error + unit) \<Rightarrow>
    evidence_buffer \<Rightarrow> vpath list \<Rightarrow> vpath \<Rightarrow> (evidence_buffer \<times> vpath list) gw_op" where
  "scan_directory env accesses check buf pending d =
     bindS (require_access d accesses) (\<lambda>_.
     bindS (list_authorized_children env d) (\<lambda>cs. scan_children env check buf pending cs))"

lemma scan_children_measure:
  "scan_children env check buf pending cs g = (Inr (buf', pending'), h) \<Longrightarrow>
   gw_budget h = gw_budget g \<and> length pending' \<le> length pending + length cs"
proof (induction env check buf pending cs arbitrary: g rule: scan_children.induct)
  case (2 env check buf pending c cs)
  obtain st g1 where st: "gw_apply (metadata (ge_vfs env) c) g = (Inr st, g1)"
    using 2(3) by (auto simp: bindS_Inr)
  then have b: "gw_budget g1 = gw_budget g" by (metis budget_apply snd_conv)
  show ?case
  proof (cases "kind st = Directory")
    case True
    then obtain buf1 g2 where r: "reserve_path env buf c g1 = (Inr buf1, g2)"
      "scan_children env check buf1 (pending @ [c]) cs g2 = (Inr (buf', pending'), h)"
      using 2(3) st by (auto simp: bindS_Inr)
    have "gw_budget g2 = gw_budget g1" using r(1) by (metis budget_reserve_path snd_conv)
    then show ?thesis using 2(1)[OF True r(2)] b by simp
  next
    case False
    then show ?thesis using 2(2)[OF False, of g1] 2(3) st b by (auto simp: bindS_Inr)
  qed
qed simp

lemma scan_directory_measure:
  assumes "scan_directory env accesses check buf pending d g = (Inr (buf', pending'), h)"
  shows "walk_measure h pending' \<le> walk_measure g pending"
proof -
  obtain cs g1 where cs: "list_authorized_children env d g = (Inr cs, g1)"
    and scan: "scan_children env check buf pending cs g1 = (Inr (buf', pending'), h)"
    using assms by (auto simp: scan_directory_def bindS_Inr require_access_def)
  show ?thesis
    using scan_children_measure[OF scan] list_children_charged[OF cs, of pending] by (simp add: walk_measure_def)
qed

lemma walk_measure_pop: "pending \<noteq> [] \<Longrightarrow> walk_measure g (butlast pending) < walk_measure g pending"
  by (cases pending rule: rev_cases) (simp_all add: walk_measure_def)

lemma scan_directory_less:
  "pending \<noteq> [] \<Longrightarrow> (Inr (buf', pending'), h) = scan_directory env accesses check buf (butlast pending) (last pending) g \<Longrightarrow>
   walk_measure h pending' < walk_measure g pending"
  using scan_directory_measure[OF sym] walk_measure_pop by (metis order.strict_trans1)

function scan_directories :: "gateway_env \<Rightarrow> access_kind list \<Rightarrow> (vpath \<Rightarrow> fs_gateway \<Rightarrow> gateway_error + unit) \<Rightarrow>
    evidence_buffer \<Rightarrow> vpath list \<Rightarrow> unit gw_op" where
  "scan_directories env accesses check buf pending g =
     (if pending = [] then (Ok (), g)
      else case scan_directory env accesses check buf (butlast pending) (last pending) g of
        (Inl e, g') \<Rightarrow> (Err e, g')
      | (Inr (buf', pending'), g') \<Rightarrow> scan_directories env accesses check buf' pending' g')"
  by pat_completeness auto
termination
  by (relation "measure (\<lambda>(_, _, _, _, pending, g). walk_measure g pending)")
     (auto intro: scan_directory_less)

declare scan_directories.simps [simp del]

definition gw_remove_tree :: "gateway_env \<Rightarrow> vpath \<Rightarrow> unit gw_op" where
  "gw_remove_tree env p =
     bindS (reserve_path env 0 p) (\<lambda>buf.
     bindS (scan_directories env [Acc_Delete, Acc_DirectoryRead] (\<lambda>c. gw_authorize c [Acc_Delete]) buf [p]) (\<lambda>_.
       gw_apply (remove_tree (ge_vfs env) p)))"

definition gw_remove :: "gateway_env \<Rightarrow> vpath \<Rightarrow> bool \<Rightarrow> bool \<Rightarrow> unit gw_op" where
  "gw_remove env p recursive missing_ok =
     bindS (require_access p [Acc_Delete]) (\<lambda>_.
     bindS (\<lambda>g. case gw_apply (metadata (ge_vfs env) p) g of
         (Inr st, g') \<Rightarrow> (Ok (Some st), g')
       | (Inl e, g') \<Rightarrow> if missing_ok \<and> is_not_found e then (Ok None, g') else (Err e, g')) (\<lambda>found. case found of
       None \<Rightarrow> returnS ()
     | Some st \<Rightarrow>
         if kind st \<noteq> Directory then gw_apply (unlink (ge_vfs env) p)
         else if recursive then gw_remove_tree env p
         else gw_rmdir env p))"

text \<open>\<open>child.rebase(source, destination)\<close> with its errors, then the capability of the target.\<close>

definition rebase_target :: "vpath \<Rightarrow> vpath \<Rightarrow> vpath \<Rightarrow> gateway_error + vpath" where
  "rebase_target c source destination =
     bindR (map_err (\<lambda>e. from_vfs (Vfs_Path e)) (rebase c source destination)) (\<lambda>t.
       ok_or t (from_vfs (InvalidRename c destination)))"

definition rename_check :: "vpath \<Rightarrow> vpath \<Rightarrow> vpath \<Rightarrow> fs_gateway \<Rightarrow> gateway_error + unit" where
  "rename_check source destination c g =
     bindR (gw_authorize c [Acc_RenameSource] g) (\<lambda>_.
     bindR (rebase_target c source destination) (\<lambda>target.
       gw_authorize target [Acc_RenameDestination] g))"

definition gw_rename :: "gateway_env \<Rightarrow> vpath \<Rightarrow> vpath \<Rightarrow> unit gw_op" where
  "gw_rename env source destination =
     bindS (require_access source [Acc_RenameSource]) (\<lambda>_.
     bindS (require_access destination [Acc_RenameDestination]) (\<lambda>_.
     if is_root source \<or> is_root destination then gw_fail RootMutation
     else if source \<noteq> destination \<and> (is_within source destination \<or> is_within destination source)
     then gw_fail (InvalidRename source destination)
     else
     bindS (if source = destination then returnS ()
       else
         bindS (gw_apply (metadata (ge_vfs env) source)) (\<lambda>st.
         if kind st = Directory then
           bindS (reserve_path env 0 source) (\<lambda>buf.
             scan_directories env [Acc_DirectoryRead] (rename_check source destination) buf [source])
         else returnS ())) (\<lambda>_.
     gw_apply (rename (ge_vfs env) source destination))))"

section \<open>Preparing an open\<close>

datatype open_mode =
  Open_Read | Open_ReadUpdate | Open_Write | Open_WriteUpdate | Open_Append | Open_AppendUpdate

fun open_accesses :: "open_mode \<Rightarrow> access_kind list" where
  "open_accesses Open_Read = [Acc_ContentRead]"
| "open_accesses Open_ReadUpdate = [Acc_ContentRead, Acc_Create, Acc_Modify]"
| "open_accesses Open_WriteUpdate = [Acc_ContentRead, Acc_Create, Acc_Modify]"
| "open_accesses Open_AppendUpdate = [Acc_ContentRead, Acc_Create, Acc_Modify]"
| "open_accesses Open_Write = [Acc_Create, Acc_Modify]"
| "open_accesses Open_Append = [Acc_Create, Acc_Modify]"

definition prepare_open :: "gateway_env \<Rightarrow> vpath \<Rightarrow> open_mode \<Rightarrow> unit gw_op" where
  "prepare_open env p m =
     bindS (require_access p (open_accesses m)) (\<lambda>_.
     if m \<in> {Open_Read, Open_ReadUpdate} then
       bindS (gw_apply (metadata (ge_vfs env) p)) (\<lambda>st.
         if kind st \<noteq> File then gw_fail (NotFile p (kind st)) else returnS ())
     else if m \<in> {Open_Write, Open_WriteUpdate} then gw_apply (write_file (ge_vfs env) p [])
     else
       bindS (metadata_if_present env p) (\<lambda>found. case found of
         Some st \<Rightarrow> if kind st = File then returnS () else gw_fail (NotFile p (kind st))
       | None \<Rightarrow> gw_apply (write_file (ge_vfs env) p [])))"

section \<open>Visiting\<close>

text \<open>
  A visitor may read the observed node any number of times before it answers; it cannot do anything
  else to the gateway.
\<close>

datatype 'r visit = VisitDone 'r | VisitRead "gateway_error + bytes \<Rightarrow> 'r visit"

definition observed_read :: "gateway_env \<Rightarrow> vpath \<Rightarrow> node_state \<Rightarrow> bytes gw_op" where
  "observed_read env p st =
     (if kind st \<noteq> File then gw_fail (NotFile p (kind st))
      else
        bindS (require_access p [Acc_ContentRead]) (\<lambda>_.
        bindS (gw_charge (charge_read (nsize st))) (\<lambda>_. gw_apply (read (ge_vfs env) p))))"

primrec run_visit :: "gateway_env \<Rightarrow> vpath \<Rightarrow> node_state \<Rightarrow> 'r visit \<Rightarrow> fs_gateway \<Rightarrow> 'r \<times> fs_gateway" where
  "run_visit env p st (VisitDone r) = (\<lambda>g. (r, g))"
| "run_visit env p st (VisitRead k) = (\<lambda>g. case observed_read env p st g of (x, g') \<Rightarrow> run_visit env p st (k x) g')"

definition observe :: "gateway_env \<Rightarrow> vpath \<Rightarrow> (node_state \<Rightarrow> 'r visit) \<Rightarrow> 'r gw_op" where
  "observe env p f g = (case gw_metadata env p g of
     (Inl e, g') \<Rightarrow> (Err e, g')
   | (Inr st, g') \<Rightarrow> (case run_visit env p st (f st) g' of (r, g'') \<Rightarrow> (Ok r, g'')))"

fun reserve_paths :: "gateway_env \<Rightarrow> evidence_buffer \<Rightarrow> vpath list \<Rightarrow> evidence_buffer gw_op" where
  "reserve_paths env buf [] = returnS buf"
| "reserve_paths env buf (c # cs) = bindS (reserve_path env buf c) (\<lambda>buf'. reserve_paths env buf' cs)"

text \<open>The children of one directory, reserved and in the order of the stack.\<close>

definition walk_children :: "gateway_env \<Rightarrow> evidence_buffer \<Rightarrow> vpath \<Rightarrow> (evidence_buffer \<times> vpath list) gw_op" where
  "walk_children env buf d =
     bindS (list_authorized_children env d) (\<lambda>cs.
     bindS (reserve_paths env buf cs) (\<lambda>buf'. returnS (buf', rev cs)))"

text \<open>One round: nothing more to do here, stop, or the children to push.\<close>

definition walk_node :: "gateway_env \<Rightarrow> (gateway_error \<Rightarrow> 'e) \<Rightarrow> ('v \<Rightarrow> vpath \<Rightarrow> node_state \<Rightarrow> ('v \<times> ('e + bool)) visit) \<Rightarrow>
    'v \<Rightarrow> evidence_buffer \<Rightarrow> vpath \<Rightarrow> fs_gateway \<Rightarrow> ('v \<times> ('e + (evidence_buffer \<times> vpath list) option)) \<times> fs_gateway" where
  "walk_node env into visit v buf p g = (case gw_authorize p [Acc_MetadataRead] g of
     Inl (GW_Policy _) \<Rightarrow> ((v, Ok (Some (buf, []))), g)
   | Inl e \<Rightarrow> ((v, Err (into e)), g)
   | Inr _ \<Rightarrow> (case gw_apply (metadata (ge_vfs env) p) g of
       (Inl e, g') \<Rightarrow> ((v, Err (into e)), g')
     | (Inr st, g') \<Rightarrow> (case run_visit env p st (visit v p st) g' of
         ((v', Inl e), g'') \<Rightarrow> ((v', Err e), g'')
       | ((v', Inr continue), g'') \<Rightarrow>
           if \<not> continue then ((v', Ok None), g'')
           else if kind st = Directory \<and> authorize (gw_policy g'') p Acc_DirectoryRead = Ok ()
           then (case walk_children env buf p g'' of
             (Inl e, h) \<Rightarrow> ((v', Err (into e)), h)
           | (Inr r, h) \<Rightarrow> ((v', Ok (Some r)), h))
           else ((v', Ok (Some (buf, []))), g''))))"

lemma reserve_paths_budget: "gw_budget (snd (reserve_paths env buf cs g)) = gw_budget g"
proof (induction cs arbitrary: buf g)
  case (Cons c cs)
  then show ?case
    using budget_reserve_path[of env buf c g]
    by (auto simp: bindS_def simp del: budget_reserve_path split: prod.splits sum.splits)
qed simp

lemma walk_children_measure:
  assumes "walk_children env buf d g = (Inr (buf', cs), h)"
  shows "walk_measure h (pending @ cs) \<le> walk_measure g pending"
proof -
  obtain ds g1 where ds: "list_authorized_children env d g = (Inr ds, g1)"
    and r: "reserve_paths env buf ds g1 = (Inr buf', h)" "cs = rev ds"
    using assms by (auto simp: walk_children_def bindS_Inr)
  have "gw_budget h = gw_budget g1" using reserve_paths_budget[of env buf ds g1] r(1) by simp
  then show ?thesis using list_children_charged[OF ds, of pending] r(2) by (simp add: walk_measure_def)
qed

lemma observed_read_entries: "same_entries g (snd (observed_read env p st g))"
proof -
  have "same_entries g (snd (gw_charge (charge_read n) g)) \<Longrightarrow>
      same_entries g (snd (bindS (gw_charge (charge_read n)) (\<lambda>_. gw_apply m) g))" for n m
    using budget_apply[of m "snd (gw_charge (charge_read n) g)"]
    by (auto simp: bindS_def simp del: budget_apply split: prod.splits sum.splits)
  moreover have "bindS (require_access p as) f g = (case gw_authorize p as g of Inl e \<Rightarrow> (Err e, g) | Inr x \<Rightarrow> f x g)"
    for as and f :: "unit \<Rightarrow> bytes gw_op"
    by (simp add: bindS_def require_access_def split: sum.split)
  ultimately show ?thesis using reads_keep_entries
    by (auto simp: observed_read_def gw_fail_def split: sum.split)
qed

lemma run_visit_entries: "same_entries g (snd (run_visit env p st x g))"
proof (induction x arbitrary: g)
  case (VisitRead k)
  obtain y g1 where y: "observed_read env p st g = (y, g1)" by fastforce
  then have "same_entries g g1" using observed_read_entries by (metis snd_conv)
  then show ?case using VisitRead[OF rangeI] y by simp
qed simp

lemma walk_node_measure:
  assumes "walk_node env into visit v buf p g = ((v', Inr (Some (buf', cs))), h)"
  shows "walk_measure h (pending @ cs) \<le> walk_measure g pending"
proof (cases "gw_authorize p [Acc_MetadataRead] g")
  case (Inl e)
  then show ?thesis using assms by (auto simp: walk_node_def walk_measure_def split: gateway_error.splits)
next
  case (Inr u)
  obtain st g1 where st: "gw_apply (metadata (ge_vfs env) p) g = (Inr st, g1)"
    using assms Inr by (auto simp: walk_node_def split: prod.splits sum.splits)
  obtain x g2 where x: "run_visit env p st (visit v p st) g1 = ((v', x), g2)"
    using assms Inr st by (auto simp: walk_node_def split: prod.splits sum.splits if_splits)
  have "gw_budget g1 = gw_budget g" using st by (metis budget_apply snd_conv)
  moreover have "same_entries g1 g2" using run_visit_entries[where g=g1 and env=env and p=p and st=st and x="visit v p st"] x by simp
  ultimately have same: "same_entries g g2" by simp
  then have le: "walk_measure g2 pending = walk_measure g pending" by (simp add: walk_measure_def)
  have "walk_children env buf p g2 = (Inr (buf', cs), h) \<or> h = g2 \<and> cs = []"
    using assms Inr st x by (auto simp: walk_node_def split: prod.splits sum.splits if_splits)
  then show ?thesis using walk_children_measure[of env buf p g2 buf' cs h pending] le by auto
qed

lemma walk_node_less:
  assumes "pending \<noteq> []" "((v', Inr (Some (buf', cs))), h) = walk_node env into visit v buf (last pending) g"
  shows "walk_measure h (butlast pending @ cs) < walk_measure g pending"
  by (rule le_less_trans[OF walk_node_measure[OF assms(2)[symmetric]] walk_measure_pop[OF assms(1)]])

function walk_pending :: "gateway_env \<Rightarrow> (gateway_error \<Rightarrow> 'e) \<Rightarrow>
    ('v \<Rightarrow> vpath \<Rightarrow> node_state \<Rightarrow> ('v \<times> ('e + bool)) visit) \<Rightarrow> 'v \<Rightarrow> evidence_buffer \<Rightarrow> vpath list \<Rightarrow> fs_gateway \<Rightarrow>
    ('v \<times> ('e + unit)) \<times> fs_gateway" where
  "walk_pending env into visit v buf pending g =
     (if pending = [] then ((v, Ok ()), g)
      else case walk_node env into visit v buf (last pending) g of
        ((v', Inl e), g') \<Rightarrow> ((v', Err e), g')
      | ((v', Inr None), g') \<Rightarrow> ((v', Ok ()), g')
      | ((v', Inr (Some (buf', cs))), g') \<Rightarrow> walk_pending env into visit v' buf' (butlast pending @ cs) g')"
  by pat_completeness auto
termination
  by (relation "measure (\<lambda>(_, _, _, _, _, pending, g). walk_measure g pending)")
     (auto intro: walk_node_less)

declare walk_pending.simps [simp del]

definition walk_visible :: "gateway_env \<Rightarrow> (gateway_error \<Rightarrow> 'e) \<Rightarrow>
    ('v \<Rightarrow> vpath \<Rightarrow> node_state \<Rightarrow> ('v \<times> ('e + bool)) visit) \<Rightarrow> 'v \<Rightarrow> vpath \<Rightarrow> fs_gateway \<Rightarrow>
    ('v \<times> ('e + unit)) \<times> fs_gateway" where
  "walk_visible env into visit v p g =
     (case bindS (gw_metadata env p) (\<lambda>st.
        if kind st \<noteq> Directory then gw_fail (NotDirectory p (kind st))
        else bindS (require_access p [Acc_DirectoryRead]) (\<lambda>_. walk_children env 0 p)) g of
        (Inl e, g') \<Rightarrow> ((v, Err (into e)), g')
      | (Inr (buf, pending), g') \<Rightarrow> walk_pending env into visit v buf pending g')"

end
