(* ===== verification/GatewayCopy.thy ===== *)
theory GatewayCopy
  imports Gateway
begin

text \<open>
  Copying a file or a directory tree through the gateway (\<open>crates/vsh-execution/src/gateway/copy.rs\<close>):
  the tree is read and every target authorized before anything is created.
\<close>

datatype copy_entry = CopyDirectory vpath u32 | CopyFile vpath bytes

fun copy_destination :: "copy_entry \<Rightarrow> vpath" where
  "copy_destination (CopyDirectory d _) = d"
| "copy_destination (CopyFile d _) = d"

definition gw_invalid :: "string \<Rightarrow> vpath option \<Rightarrow> 'a gw_op" where
  "gw_invalid reason p = failS (GW_InvalidOperation reason p)"

definition copy_file :: "gateway_env \<Rightarrow> vpath \<Rightarrow> vpath \<Rightarrow> node_state \<Rightarrow> bool \<Rightarrow> unit gw_op" where
  "copy_file env source destination st overwrite =
     bindS (metadata_if_present env destination) (\<lambda>found.
     bindS (case found of
         None \<Rightarrow> returnS ()
       | Some dst \<Rightarrow>
           if \<not> overwrite then gw_fail (AlreadyExists destination)
           else if kind dst = Directory then gw_fail (IsDirectory destination)
           else returnS ()) (\<lambda>_.
     bindS (require_access source [Acc_ContentRead]) (\<lambda>_.
     bindS (gw_charge (charge_read (nsize st))) (\<lambda>_.
     bindS (gw_apply (read (ge_vfs env) source)) (\<lambda>b.
     bindS (gw_charge (charge_write (len64 b))) (\<lambda>_.
       gw_apply (write_file (ge_vfs env) destination b)))))))"

text \<open>One child of a directory being copied: its entry, and whether its own children are to follow.\<close>

definition copy_child :: "gateway_env \<Rightarrow> vpath \<Rightarrow> vpath \<Rightarrow> evidence_buffer \<Rightarrow> vpath \<Rightarrow>
    (evidence_buffer \<times> copy_entry \<times> bool) gw_op" where
  "copy_child env source destination buf c =
     bindS (require_access c [Acc_MetadataRead]) (\<lambda>_.
     bindS (gw_apply (metadata (ge_vfs env) c)) (\<lambda>st.
     bindS (reserve_buffer (sz_copy env) buf
       (min (length (as_str c) + length (as_str destination) + 1) (2 ^ 64 - 1))) (\<lambda>buf.
     bindS (liftS (rebase_target c source destination)) (\<lambda>target.
     bindS (require_access target [Acc_Create, Acc_Modify]) (\<lambda>_.
     case kind st of
       Directory \<Rightarrow> bindS (reserve_path env buf c) (\<lambda>buf. returnS (buf, CopyDirectory target (mode st), True))
     | File \<Rightarrow>
         bindS (require_access c [Acc_ContentRead]) (\<lambda>_.
         bindS (gw_charge (charge_read (nsize st))) (\<lambda>_.
         bindS (gw_apply (read (ge_vfs env) c)) (\<lambda>b.
         bindS (gw_charge (charge_write (len64 b))) (\<lambda>_. returnS (buf, CopyFile target b, False)))))
     | Symlink \<Rightarrow> gw_invalid ''does not copy symbolic link'' (Some c))))))"

fun copy_children :: "gateway_env \<Rightarrow> vpath \<Rightarrow> vpath \<Rightarrow> evidence_buffer \<Rightarrow> vpath list \<Rightarrow> copy_entry list \<Rightarrow> vpath list \<Rightarrow>
    (evidence_buffer \<times> vpath list \<times> copy_entry list) gw_op" where
  "copy_children env source destination buf pending entries [] = returnS (buf, pending, entries)"
| "copy_children env source destination buf pending entries (c # cs) =
     bindS (copy_child env source destination buf c) (\<lambda>(buf', e, push).
       copy_children env source destination buf' (if push then pending @ [c] else pending) (entries @ [e]) cs)"

definition copy_directory :: "gateway_env \<Rightarrow> vpath \<Rightarrow> vpath \<Rightarrow> evidence_buffer \<Rightarrow> vpath list \<Rightarrow> copy_entry list \<Rightarrow> vpath \<Rightarrow>
    (evidence_buffer \<times> vpath list \<times> copy_entry list) gw_op" where
  "copy_directory env source destination buf pending entries d =
     bindS (require_access d [Acc_DirectoryRead]) (\<lambda>_.
     bindS (list_authorized_children env d) (\<lambda>cs.
       copy_children env source destination buf pending entries cs))"

section \<open>The loop ends\<close>

text \<open>Every step but a listing leaves the directory-entry budget alone.\<close>

definition entries_kept :: "'a gw_op \<Rightarrow> bool" where
  "entries_kept m \<longleftrightarrow> rel_kept (\<lambda>g h. same_entries g h) m"

named_theorems entry_intros

lemma entries_kept_bindS [entry_intros]:
  "entries_kept m \<Longrightarrow> (\<And>x. entries_kept (f x)) \<Longrightarrow> entries_kept (bindS m f)"
  unfolding entries_kept_def by (rule rel_kept_bindS) auto

lemma entries_kept_basic [entry_intros]:
  "entries_kept (returnS x)" "entries_kept (failS e)" "entries_kept (gw_fail f)" "entries_kept (gw_invalid r p)"
  "entries_kept (liftS y)" "entries_kept (require_access q as)" "entries_kept (gw_apply m)"
  "entries_kept (reserve_buffer sz buf k)" "entries_kept (reserve_path env buf q)"
  "entries_kept (gw_charge (charge_read n))" "entries_kept (gw_charge (charge_write n))"
  using reads_keep_entries writes_keep_entries
  by (simp_all add: entries_kept_def rel_kept_def gw_fail_def gw_invalid_def require_access_def)

lemma entries_kept_child: "entries_kept (copy_child env source destination buf c)"
  unfolding copy_child_def by (intro entry_intros) (auto intro!: entry_intros split: node_kind.split)

lemma copy_children_measure:
  "copy_children env source destination buf pending entries cs g = (Inr (buf', pending', entries'), h) \<Longrightarrow>
   same_entries g h \<and> length pending' \<le> length pending + length cs"
proof (induction env source destination buf pending entries cs arbitrary: g rule: copy_children.induct)
  case (2 env source destination buf pending entries c cs)
  obtain buf1 e push g1 where child: "copy_child env source destination buf c g = (Inr (buf1, e, push), g1)"
    and rest: "copy_children env source destination buf1 (if push then pending @ [c] else pending) (entries @ [e]) cs g1
      = (Inr (buf', pending', entries'), h)"
    using 2(2) by (auto simp: bindS_Inr)
  have "same_entries g g1"
  proof -
    have "\<forall>s. same_entries s (snd (copy_child env source destination buf c s))"
      using entries_kept_child[of env source destination buf c] by (simp add: entries_kept_def rel_kept_def)
    from this[rule_format, of g] show ?thesis by (simp add: child)
  qed
  then show ?case using 2(1)[OF rest] by (simp split: if_splits)
qed simp

lemma copy_directory_less:
  assumes "pending \<noteq> []" "(Inr (buf', pending', entries'), h) = copy_directory env source destination buf (butlast pending) entries (last pending) g"
  shows "walk_measure h pending' < walk_measure g pending"
proof -
  obtain cs g1 where cs: "list_authorized_children env (last pending) g = (Inr cs, g1)"
    and rest: "copy_children env source destination buf (butlast pending) entries cs g1 = (Inr (buf', pending', entries'), h)"
    using assms(2)[symmetric] by (auto simp: copy_directory_def bindS_Inr require_access_def)
  have "walk_measure h pending' \<le> walk_measure g (butlast pending)"
    using copy_children_measure[OF rest] list_children_charged[OF cs, of "butlast pending"] by (simp add: walk_measure_def)
  then show ?thesis using walk_measure_pop[OF assms(1)] by (rule le_less_trans)
qed

function copy_directories :: "gateway_env \<Rightarrow> vpath \<Rightarrow> vpath \<Rightarrow> evidence_buffer \<Rightarrow> vpath list \<Rightarrow> copy_entry list \<Rightarrow>
    copy_entry list gw_op" where
  "copy_directories env source destination buf pending entries g =
     (if pending = [] then (Ok entries, g)
      else case copy_directory env source destination buf (butlast pending) entries (last pending) g of
        (Inl e, g') \<Rightarrow> (Err e, g')
      | (Inr (buf', pending', entries'), g') \<Rightarrow> copy_directories env source destination buf' pending' entries' g')"
  by pat_completeness auto
termination
  by (relation "measure (\<lambda>(_, _, _, _, pending, _, g). walk_measure g pending)")
     (auto intro: copy_directory_less)

declare copy_directories.simps [simp del]

section \<open>Copying\<close>

text \<open>\<open>sort_by_key\<close> is stable; the key is the number of separators.\<close>

definition entry_depth :: "copy_entry \<Rightarrow> nat" where
  "entry_depth e = length (filter (\<lambda>c. c = slash) (as_str (copy_destination e)))"

definition create_entry :: "gateway_env \<Rightarrow> copy_entry \<Rightarrow> unit gw_op" where
  "create_entry env e = (case e of
     CopyDirectory d m \<Rightarrow> gw_apply (mkdir (ge_vfs env) d m)
   | CopyFile d b \<Rightarrow> gw_apply (write_file (ge_vfs env) d b))"

definition copy_tree :: "gateway_env \<Rightarrow> vpath \<Rightarrow> vpath \<Rightarrow> node_state \<Rightarrow> bool \<Rightarrow> unit gw_op" where
  "copy_tree env source destination st overwrite =
     bindS (metadata_if_present env destination) (\<lambda>found.
     bindS (case found of
         None \<Rightarrow> returnS ()
       | Some _ \<Rightarrow>
           if \<not> overwrite then gw_fail (AlreadyExists destination)
           else gw_invalid ''cannot merge or overwrite a directory tree'' None) (\<lambda>_.
     bindS (reserve_buffer (sz_copy env) 0 (length (as_str destination))) (\<lambda>buf.
     bindS (reserve_path env buf source) (\<lambda>buf.
     bindS (copy_directories env source destination buf [source] [CopyDirectory destination (mode st)]) (\<lambda>entries.
       forS (sort_key entry_depth entries) (create_entry env))))))"

definition gw_copy :: "gateway_env \<Rightarrow> vpath \<Rightarrow> vpath \<Rightarrow> bool \<Rightarrow> bool \<Rightarrow> unit gw_op" where
  "gw_copy env source destination recursive overwrite =
     bindS (require_access source [Acc_MetadataRead]) (\<lambda>_.
     bindS (require_access destination [Acc_Create, Acc_Modify]) (\<lambda>_.
     if is_within destination source
     then gw_invalid ''destination cannot be inside its source'' None
     else case parent destination of
       None \<Rightarrow> gw_fail RootMutation
     | Some par \<Rightarrow>
         bindS (gw_apply (metadata (ge_vfs env) par)) (\<lambda>st.
         if kind st \<noteq> Directory then gw_fail (NotDirectory par (kind st))
         else
         bindS (gw_apply (metadata (ge_vfs env) source)) (\<lambda>st.
         case kind st of
           File \<Rightarrow> copy_file env source destination st overwrite
         | Directory \<Rightarrow>
             if recursive then copy_tree env source destination st overwrite
             else gw_invalid ''source is a directory; pass recursive=True'' None
         | Symlink \<Rightarrow> gw_invalid ''does not copy symbolic links'' None))))"

end
