(* ===== verification/GatewayInv.thy ===== *)
theory GatewayInv
  imports GatewayCopy
begin

text \<open>
  What the gateway guarantees whatever the guest asks for: the virtual filesystem keeps its
  invariant, only paths whose change the policy allows are changed, a denied request does not reach
  the filesystem, and the work ledger stays within its limits.
\<close>

section \<open>Requests\<close>

datatype gw_call =
  GMetadata vpath | GRead vpath | GReadLink vpath | GReadDir vpath
| GWrite vpath bytes | GAppend vpath bytes | GMkdir vpath u32 | GMkdirOptions vpath u32 bool bool
| GSetMode vpath u32 | GUnlink vpath | GRmdir vpath | GRemove vpath bool bool | GRemoveTree vpath
| GRename vpath vpath | GOpen vpath open_mode | GCopy vpath vpath bool bool
| GWalk vpath "vpath \<Rightarrow> node_state \<Rightarrow> (unit \<times> (gateway_error + bool)) visit"

fun gw_exec :: "gateway_env \<Rightarrow> gw_call \<Rightarrow> unit gw_op" where
  "gw_exec env (GMetadata p) = ignore (gw_metadata env p)"
| "gw_exec env (GRead p) = ignore (gw_read env p)"
| "gw_exec env (GReadLink p) = ignore (gw_read_link env p)"
| "gw_exec env (GReadDir p) = ignore (gw_read_dir env p)"
| "gw_exec env (GWrite p b) = gw_write env p b"
| "gw_exec env (GAppend p b) = gw_append env p b"
| "gw_exec env (GMkdir p m) = gw_mkdir env p m"
| "gw_exec env (GMkdirOptions p m parents exist_ok) = gw_mkdir_options env p m parents exist_ok"
| "gw_exec env (GSetMode p m) = gw_set_mode env p m"
| "gw_exec env (GUnlink p) = gw_unlink env p"
| "gw_exec env (GRmdir p) = gw_rmdir env p"
| "gw_exec env (GRemove p recursive missing_ok) = gw_remove env p recursive missing_ok"
| "gw_exec env (GRemoveTree p) = gw_remove_tree env p"
| "gw_exec env (GRename p q) = gw_rename env p q"
| "gw_exec env (GOpen p m) = prepare_open env p m"
| "gw_exec env (GCopy p q recursive overwrite) = gw_copy env p q recursive overwrite"
| "gw_exec env (GWalk p f) = (\<lambda>g. case walk_visible env (\<lambda>e. e) (\<lambda>_. f) () p g of ((_, r), h) \<Rightarrow> (r, h))"

fun gw_paths :: "gw_call \<Rightarrow> vpath list" where
  "gw_paths (GRename p q) = [p, q]"
| "gw_paths (GCopy p q _ _) = [p, q]"
| "gw_paths (GMetadata p) = [p]" | "gw_paths (GRead p) = [p]" | "gw_paths (GReadLink p) = [p]"
| "gw_paths (GReadDir p) = [p]" | "gw_paths (GWrite p _) = [p]" | "gw_paths (GAppend p _) = [p]"
| "gw_paths (GMkdir p _) = [p]" | "gw_paths (GMkdirOptions p _ _ _) = [p]" | "gw_paths (GSetMode p _) = [p]"
| "gw_paths (GUnlink p) = [p]" | "gw_paths (GRmdir p) = [p]" | "gw_paths (GRemove p _ _) = [p]"
| "gw_paths (GRemoveTree p) = [p]" | "gw_paths (GOpen p _) = [p]" | "gw_paths (GWalk p _) = [p]"

section \<open>States of the gateway\<close>

definition gw_inv :: "gateway_env \<Rightarrow> fs_gateway \<Rightarrow> bool" where
  "gw_inv env g \<longleftrightarrow> vfs_inv (ge_vfs env) (gw_fs g)"

abbreviation files_of :: "fs_gateway \<Rightarrow> files" where "files_of g \<equiv> lookup (gw_fs g)"

text \<open>A step that leaves the files alone.\<close>

definition still :: "gateway_env \<Rightarrow> fs_gateway \<Rightarrow> fs_gateway \<Rightarrow> bool" where
  "still env g h \<longleftrightarrow> gw_inv env h \<and> fs_advances (gw_fs g) (gw_fs h) \<and> gw_policy h = gw_policy g \<and>
     files_of h = files_of g"

text \<open>A step after which the files are related to those before, unless the evidence has run out.\<close>

definition moves :: "gateway_env \<Rightarrow> (files \<Rightarrow> files \<Rightarrow> bool) \<Rightarrow> fs_gateway \<Rightarrow> fs_gateway \<Rightarrow> bool" where
  "moves env R g h \<longleftrightarrow> gw_inv env h \<and> fs_advances (gw_fs g) (gw_fs h) \<and> gw_policy h = gw_policy g \<and>
     (ev_failure (vf_evidence (gw_fs h)) = None \<longrightarrow> R (files_of g) (files_of h))"

lemma still_refl: "gw_inv env g \<Longrightarrow> still env g g"
  by (simp add: still_def)

lemma still_trans: "still env a b \<Longrightarrow> still env b c \<Longrightarrow> still env a c"
  by (auto simp: still_def intro: fs_advances_trans)

lemma still_inv: "still env a b \<Longrightarrow> gw_inv env b"
  by (simp add: still_def)

lemma advances_failure:
  "fs_advances v t \<Longrightarrow> ev_failure (vf_evidence t) = None \<Longrightarrow> ev_failure (vf_evidence v) = None"
  by (metis ev_grows_def fs_advances_def)

lemma moves_still: "still env a b \<Longrightarrow> moves env R b c \<Longrightarrow> moves env R a c"
  by (auto simp: still_def moves_def intro: fs_advances_trans)

lemma moves_trans:
  "moves env P a b \<Longrightarrow> moves env Q b c \<Longrightarrow> (\<And>x y z. P x y \<Longrightarrow> Q y z \<Longrightarrow> R x z) \<Longrightarrow> moves env R a c"
  using advances_failure[of "gw_fs b" "gw_fs c"] by (auto simp: moves_def intro: fs_advances_trans)

lemma still_moves: "still env a b \<Longrightarrow> (\<And>x. R x x) \<Longrightarrow> moves env R a b"
  by (simp add: still_def moves_def)

lemma moves_mono: "moves env P a b \<Longrightarrow> (\<And>x y. P x y \<Longrightarrow> R x y) \<Longrightarrow> moves env R a b"
  by (auto simp: moves_def)

section \<open>Basic steps\<close>

lemma origin_updates [simp]:
  "lookup (v\<lparr>vf_origin := x\<rparr>) = lookup v" "base_node (v\<lparr>vf_origin := x\<rparr>) = base_node v"
  "vfs_inv env (v\<lparr>vf_origin := x\<rparr>) = vfs_inv env v"
proof -
  show l: "lookup (v\<lparr>vf_origin := x\<rparr>) = lookup v" by (rule lookup_cong; simp)
  show b: "base_node (v\<lparr>vf_origin := x\<rparr>) = base_node v" by (simp add: base_node_def fun_eq_iff)
  show "vfs_inv env (v\<lparr>vf_origin := x\<rparr>) = vfs_inv env v"
    by (simp add: vfs_inv_def obs_sound_def writes_sound_def overlay_recorded_def events_ok_def
        base_expected_def has_metadata_def l b)
qed

lemma advances_origin [simp]:
  "fs_advances (v\<lparr>vf_origin := x\<rparr>) t = fs_advances v t" "fs_advances v (t\<lparr>vf_origin := x\<rparr>) = fs_advances v t"
  by (simp_all add: fs_advances_def has_metadata_def)

lemma gw_authorize_Inr: "gw_authorize p as g = Inr u \<Longrightarrow> \<forall>a \<in> set as. authorize (gw_policy g) p a = Inr ()"
proof -
  have "authorize_path pol p as = Inr u \<Longrightarrow> \<forall>a \<in> set as. authorize pol p a = Inr ()" for pol u
    by (induction as) (auto simp: bindR_Inr_iff)
  then show "gw_authorize p as g = Inr u \<Longrightarrow> \<forall>a \<in> set as. authorize (gw_policy g) p a = Inr ()"
    by (auto simp: gw_authorize_def bindR_Inr_iff)
qed

lemma wp_require_access:
  assumes "gw_inv env g"
  shows "wp (require_access p as) (\<lambda>_ h. h = g \<and> (\<forall>a \<in> set as. authorize (gw_policy g) p a = Inr ()))
    (\<lambda>_ h. h = g) g"
  using gw_authorize_Inr[of p as g] by (auto simp: wp_def require_access_def split: sum.split)

lemma wp_gw_apply:
  assumes "gw_inv env g"
    and m: "wp m (\<lambda>x t. vfs_inv (ge_vfs env) t \<and> fs_advances v t \<and> Q x (lookup t))
      (\<lambda>e t. vfs_inv (ge_vfs env) t \<and> fs_advances v t \<and> E t) v"
    and v: "v = (gw_fs g)\<lparr>vf_origin := gw_origin g\<rparr>"
  shows "wp (gw_apply m) (\<lambda>x h. gw_inv env h \<and> fs_advances (gw_fs g) (gw_fs h) \<and> gw_policy h = gw_policy g \<and>
      Q x (files_of h))
    (\<lambda>e h. gw_inv env h \<and> fs_advances (gw_fs g) (gw_fs h) \<and> gw_policy h = gw_policy g \<and>
      (h = g \<or> (\<exists>t. E t \<and> lookup t = files_of h \<and> vf_evidence t = vf_evidence (gw_fs h)))) g"
proof (cases "ev_check (vf_evidence (gw_fs g))")
  case (Inl f)
  then show ?thesis using assms(1) by (simp add: wp_def gw_apply_def bindS_def check_evidence_def)
next
  case (Inr u)
  obtain r t where rt: "m v = (r, t)" by fastforce
  have run: "gw_apply m g = (map_err from_vfs r, g\<lparr>gw_fs := t\<lparr>vf_origin := vf_origin (gw_fs g)\<rparr>\<rparr>)"
    using Inr rt v by (simp add: gw_apply_def bindS_def check_evidence_def ev_check_def with_effect_origin_def)
  have "case r of Inr x \<Rightarrow> vfs_inv (ge_vfs env) t \<and> fs_advances v t \<and> Q x (lookup t)
      | Inl e \<Rightarrow> vfs_inv (ge_vfs env) t \<and> fs_advances v t \<and> E t"
    using m rt by (simp add: wp_def)
  then show ?thesis using v by (cases r) (auto simp: wp_def run gw_inv_def)
qed

text \<open>A read of the filesystem.\<close>

lemma wp_gw_read:
  assumes "gw_inv env g"
    and "\<And>v. v = (gw_fs g)\<lparr>vf_origin := gw_origin g\<rparr> \<Longrightarrow>
      wp m (\<lambda>x t. quiet (ge_vfs env) v t \<and> Q x) (\<lambda>e t. quiet (ge_vfs env) v t) v"
  shows "wp (gw_apply m) (\<lambda>x h. still env g h \<and> Q x) (\<lambda>e h. still env g h) g"
proof -
  let ?v = "(gw_fs g)\<lparr>vf_origin := gw_origin g\<rparr>"
  have same: "lookup t = files_of g" if "quiet (ge_vfs env) ?v t" for t using quiet_lookup[OF that] by simp
  have "wp m (\<lambda>x t. vfs_inv (ge_vfs env) t \<and> fs_advances ?v t \<and> (lookup t = files_of g \<and> Q x))
      (\<lambda>e t. vfs_inv (ge_vfs env) t \<and> fs_advances ?v t \<and> lookup t = files_of g) ?v"
    by (rule wp_mono[OF assms(2)[OF refl]]) (auto simp: same, auto simp: quiet_def)
  from wp_gw_apply[OF assms(1) this refl] show ?thesis
    by (rule wp_mono) (auto simp: still_def)
qed

lemma wp_gw_metadata:
  assumes "gw_inv env g" "vpath_ok p"
  shows "wp (gw_apply (metadata (ge_vfs env) p))
    (\<lambda>st h. still env g h \<and> (\<exists>r. files_of g p = Some r \<and> kind st = kind (state_of (res_node r))))
    (\<lambda>_ h. still env g h) g"
  by (rule wp_gw_read[OF assms(1)])
     (use assms in \<open>auto simp: gw_inv_def quiet_books intro!: wp_mono[OF wp_metadata]\<close>)

lemma wp_metadata_if_present:
  assumes "gw_inv env g" "vpath_ok p"
  shows "wp (metadata_if_present env p)
    (\<lambda>found h. still env g h \<and> (\<forall>st. found = Some st \<longrightarrow>
      (\<exists>r. files_of g p = Some r \<and> kind st = kind (state_of (res_node r)))))
    (\<lambda>_ h. still env g h) g"
  using wp_gw_metadata[OF assms] by (auto simp: wp_def metadata_if_present_def split: prod.splits sum.splits)

lemma wp_gw_content:
  assumes "gw_inv env g" "vpath_ok p"
  shows "wp (gw_apply (read (ge_vfs env) p)) (\<lambda>_ h. still env g h) (\<lambda>_ h. still env g h) g"
    and "wp (gw_apply (read_link (ge_vfs env) p)) (\<lambda>_ h. still env g h) (\<lambda>_ h. still env g h) g"
proof -
  have r: "wp (read_content (ge_vfs env) k w p) (\<lambda>_ t. quiet (ge_vfs env) v t \<and> True)
      (\<lambda>_ t. quiet (ge_vfs env) v t) v" if "v = (gw_fs g)\<lparr>vf_origin := gw_origin g\<rparr>" for v k w
    by (rule wp_mono[OF wp_read_content]) (use assms that in \<open>auto simp: gw_inv_def\<close>)
  show "wp (gw_apply (read (ge_vfs env) p)) (\<lambda>_ h. still env g h) (\<lambda>_ h. still env g h) g"
    "wp (gw_apply (read_link (ge_vfs env) p)) (\<lambda>_ h. still env g h) (\<lambda>_ h. still env g h) g"
    unfolding read_def read_link_def by (rule wp_mono[OF wp_gw_read[OF assms(1) r]]; simp)+
qed

lemma wp_gw_charge:
  "gw_inv env g \<Longrightarrow> wp (gw_charge m) (\<lambda>_ h. still env g h) (\<lambda>_ h. still env g h) g"
  by (auto simp: wp_def gw_charge_def still_def gw_inv_def split: prod.splits sum.splits)

lemma wp_reserve_buffer:
  assumes "gw_inv env g"
  shows "wp (reserve_buffer sz buf n) (\<lambda>_ h. still env g h) (\<lambda>_ h. still env g h) g"
proof -
  define k where "k = (if n + 4 * sz < 2 ^ 64 then of_nat (n + 4 * sz) else u64_max)"
  obtain r b where rb: "ev_reserve_buffer buf k (vf_evidence (gw_fs g)) = (r, b)" by fastforce
  have "ev_grows (vf_evidence (gw_fs g)) b" "ev_ok (vf_evidence (gw_fs g)) \<Longrightarrow> ev_ok b"
    using ev_reserve_buffer_grows[of "vf_evidence (gw_fs g)" buf k] ev_reserve_buffer_ok[of "vf_evidence (gw_fs g)" buf k]
    by (simp_all add: rb)
  then have "books (ge_vfs env) (gw_fs g) ((gw_fs g)\<lparr>vf_evidence := b\<rparr>)"
    using assms by (intro books_evidence) (auto simp: gw_inv_def vfs_inv_def)
  moreover have "reserve_buffer sz buf n g =
      (map_err from_vfs (map_err EvidenceLimit r), g\<lparr>gw_fs := (gw_fs g)\<lparr>vf_evidence := b\<rparr>\<rparr>)"
    unfolding reserve_buffer_def Let_def k_def[symmetric] by (simp add: on_evidence_def rb)
  ultimately show ?thesis by (cases r) (auto simp: wp_def still_def gw_inv_def books_def)
qed

lemma wp_reserve_path:
  "gw_inv env g \<Longrightarrow> wp (reserve_path env buf p) (\<lambda>_ h. still env g h) (\<lambda>_ h. still env g h) g"
  unfolding reserve_path_def by (rule wp_reserve_buffer)

lemma wp_list_children:
  assumes "gw_inv env g" "vpath_ok p"
  shows "wp (list_authorized_children env p)
    (\<lambda>cs h. still env g h \<and> is_dir (files_of g p) \<and>
      set cs = {c. files_of g c \<noteq> None \<and> c \<noteq> root \<and> parent_of c = p})
    (\<lambda>_ h. still env g h) g"
proof -
  let ?n = "unat (saturating_sub (max_directory_entries (xb_limits (gw_budget g)))
    (st_directory_entries (xb_stats (gw_budget g))))"
  have list: "wp (gw_apply (read_dir_with_limit (ge_vfs env) p ?n))
    (\<lambda>cs h. still env g h \<and> is_dir (files_of g p) \<and>
      set cs = {c. files_of g c \<noteq> None \<and> c \<noteq> root \<and> parent_of c = p}) (\<lambda>_ h. still env g h) g"
    by (rule wp_gw_read[OF assms(1)])
       (use assms in \<open>auto simp: gw_inv_def quiet_books intro!: wp_mono[OF wp_read_dir]\<close>)
  have charge: "wp (bindS (gw_charge m) (\<lambda>_. returnS cs)) (\<lambda>ds h. ds = cs \<and> still env g h) (\<lambda>_ h. still env g h) k"
    if "still env g k" for m k and cs :: "vpath list"
    unfolding wp_simps
    by (rule wp_mono[OF wp_gw_charge[OF still_inv[OF that]]]) (auto intro: still_trans[OF that])
  show ?thesis
  proof (cases "gw_apply (read_dir_with_limit (ge_vfs env) p ?n) g")
    case (Pair r k)
    show ?thesis
    proof (cases r)
      case (Inl e)
      then have "still env g k" using list Pair by (simp add: wp_def)
      then show ?thesis using Pair Inl
        by (auto simp: wp_def list_authorized_children_def Let_def split: gateway_error.split vfs_error.split)
    next
      case (Inr cs)
      then have k: "still env g k" "is_dir (files_of g p)"
          "set cs = {c. files_of g c \<noteq> None \<and> c \<noteq> root \<and> parent_of c = p}"
        using list Pair by (simp_all add: wp_def)
      have "list_authorized_children env p g = bindS (gw_charge (charge_directory_entries (len64 cs))) (\<lambda>_. returnS cs) k"
        using Pair Inr by (simp add: list_authorized_children_def Let_def)
      then have "wp (list_authorized_children env p) Q E g =
          wp (bindS (gw_charge (charge_directory_entries (len64 cs))) (\<lambda>_. returnS cs)) Q E k" for Q E
        by (simp add: wp_def)
      then show ?thesis using wp_mono[OF charge[OF k(1)]] k by simp
    qed
  qed
qed

section \<open>Traversals\<close>

text \<open>A node below a directory lies under one of its children.\<close>

lemma below_child:
  assumes "tree m" "vpath_ok d" "m q \<noteq> None" "is_within q d" "q \<noteq> d"
  shows "\<exists>c. m c \<noteq> None \<and> c \<noteq> root \<and> parent_of c = d \<and> is_within q c"
proof -
  have "vpath_ok q" using assms(1,3) by (auto simp: tree_def)
  then show ?thesis using assms(3-5)
  proof (induction rule: ancestor_induct)
    case root
    then show ?case using is_within_cases[of root d] assms(2) by auto
  next
    case (step q)
    show ?case
    proof (cases "parent_of q = d")
      case True
      then show ?thesis using step by (intro exI[of _ q]) (simp add: is_within_def)
    next
      case False
      have "m (parent_of q) \<noteq> None"
        using is_dir_not_None[OF tree_parent[OF assms(1) step.prems(1) step.hyps(2)]] .
      moreover have "is_within (parent_of q) d" using is_within_cases[OF step.hyps(1)] step.prems assms(2) by blast
      ultimately obtain c where c: "m c \<noteq> None" "c \<noteq> root" "parent_of c = d" "is_within (parent_of q) c"
        using step.IH False by blast
      then have "vpath_ok c" using assms(1) by (auto simp: tree_def)
      then have "is_within q c" using is_within_cases[OF step.hyps(1)] c(4) step.hyps(2) by blast
      then show ?thesis using c by blast
    qed
  qed
qed

lemma wp_scan_children:
  assumes "gw_inv env g" "\<And>c h. gw_policy h = gw_policy g \<Longrightarrow> check c h = Inr () \<Longrightarrow> P c"
    and "\<forall>c \<in> set cs. vpath_ok c"
  shows "wp (scan_children env check buf pending cs)
    (\<lambda>(buf', pending') h. still env g h \<and> (\<forall>c \<in> set cs. P c) \<and>
      set pending' = set pending \<union> {c \<in> set cs. is_dir (files_of g c)})
    (\<lambda>_ h. still env g h) g"
  using assms
proof (induction cs arbitrary: buf pending g)
  case Nil
  then show ?case using still_refl by (auto simp: wp_simps)
next
  case (Cons c cs)
  have ok: "vpath_ok c" "\<forall>c \<in> set cs. vpath_ok c" using Cons.prems(3) by simp_all
  have go: "wp (scan_children env check b ps cs)
      (\<lambda>(buf', pending') h. still env g h \<and> (\<forall>c \<in> set cs. P c) \<and>
        set pending' = set ps \<union> {c \<in> set cs. is_dir (files_of g c)})
      (\<lambda>_ h. still env g h) k" if k: "still env g k" for b ps k
  proof -
    have k': "gw_policy k = gw_policy g" "files_of k = files_of g" using k by (simp_all add: still_def)
    show ?thesis
      by (rule wp_mono[OF Cons.IH[OF still_inv[OF k] _ ok(2)]])
         (use Cons.prems(2) k' still_trans[OF k] in \<open>auto simp: k'\<close>)
  qed
  have rest: "wp (if kind st = Directory
        then bindS (reserve_path env buf c) (\<lambda>buf'. scan_children env check buf' (pending @ [c]) cs)
        else scan_children env check buf pending cs)
      (\<lambda>(buf', pending') h. still env g h \<and> (\<forall>c \<in> set cs. P c) \<and>
        set pending' = set pending \<union> {c' \<in> set (c # cs). is_dir (files_of g c')})
      (\<lambda>_ h. still env g h) k"
    if k: "still env g k" and r: "files_of g c = Some r" "kind st = kind (state_of (res_node r))" for k st r
  proof (cases "kind st = Directory")
    case True
    have "wp (scan_children env check b (pending @ [c]) cs)
        (\<lambda>(buf', pending') h. still env g h \<and> (\<forall>c \<in> set cs. P c) \<and>
          set pending' = set pending \<union> {c' \<in> set (c # cs). is_dir (files_of g c')})
        (\<lambda>_ h. still env g h) l" if "still env k l" for b l
      by (rule wp_mono[OF go[OF still_trans[OF k that]]]) (use True r in auto)
    then show ?thesis
      unfolding if_P[OF True] wp_bindS
      by (intro wp_use[OF wp_reserve_path[OF still_inv[OF k]]]) (auto intro: still_trans[OF k])
  next
    case False
    show ?thesis unfolding if_not_P[OF False] by (rule wp_mono[OF go[OF k]]) (use False r in auto)
  qed
  show ?case
  proof (cases "check c g")
    case (Inl e)
    then show ?thesis using still_refl[OF Cons.prems(1)] by (simp add: wp_def bindS_def)
  next
    case (Inr u)
    then have Pc: "P c" using Cons.prems(2) by simp
    have "wp (bindS (gw_apply (metadata (ge_vfs env) c)) (\<lambda>st.
        if kind st = Directory then
          bindS (reserve_path env buf c) (\<lambda>buf'. scan_children env check buf' (pending @ [c]) cs)
        else scan_children env check buf pending cs))
      (\<lambda>(buf', pending') h. still env g h \<and> (\<forall>c \<in> set (c # cs). P c) \<and>
        set pending' = set pending \<union> {c' \<in> set (c # cs). is_dir (files_of g c')})
      (\<lambda>_ h. still env g h) g"
      unfolding wp_bindS
    proof (rule wp_use[OF wp_gw_metadata[OF Cons.prems(1) ok(1)]], intro allI impI, elim conjE exE)
      fix st k r assume k: "still env g k" "files_of g c = Some r" "kind st = kind (state_of (res_node r))"
      show "wp (if kind st = Directory
          then bindS (reserve_path env buf c) (\<lambda>buf'. scan_children env check buf' (pending @ [c]) cs)
          else scan_children env check buf pending cs)
        (\<lambda>(buf', pending') h. still env g h \<and> (\<forall>c \<in> set (c # cs). P c) \<and>
          set pending' = set pending \<union> {c' \<in> set (c # cs). is_dir (files_of g c')})
        (\<lambda>_ h. still env g h) k"
        by (rule wp_mono[OF rest[OF k]]) (use Pc in auto)
    qed simp
    then show ?thesis using Inr by (simp add: wp_def bindS_def)
  qed
qed

text \<open>A finished scan was allowed to enter the directories it started from and has checked every node below them.\<close>

lemma wp_scan_directories:
  assumes "gw_inv env g" "\<And>c h. gw_policy h = gw_policy g \<Longrightarrow> check c h = Inr () \<Longrightarrow> P c"
    and "\<forall>d \<in> set pending. vpath_ok d"
  shows "wp (scan_directories env as check buf pending)
    (\<lambda>_ h. still env g h \<and> (\<forall>d \<in> set pending. (\<forall>a \<in> set as. authorize (gw_policy g) d a = Inr ()) \<and>
      (\<forall>q. files_of g q \<noteq> None \<longrightarrow> is_within q d \<longrightarrow> q \<noteq> d \<longrightarrow> P q)))
    (\<lambda>_ h. still env g h) g"
  using assms
proof (induction env as check buf pending g rule: scan_directories.induct)
  case (1 env as check buf pending g)
  let ?enter = "\<lambda>g d. \<forall>a \<in> set as. authorize (gw_policy g) d a = Inr ()"
  let ?below = "\<lambda>g d. \<forall>q. files_of g q \<noteq> None \<longrightarrow> is_within q d \<longrightarrow> q \<noteq> d \<longrightarrow> P q"
  show ?case
  proof (cases "pending = []")
    case True
    then show ?thesis using still_refl[OF 1(2)]
      by (simp add: wp_def) (subst scan_directories.simps, simp)+
  next
    case False
    let ?d = "last pending"
    have d: "vpath_ok ?d" using 1(4) False by simp
    have tree: "tree (files_of g)" using 1(2) vfs_inv_tree by (simp add: gw_inv_def)
    have scan: "wp (scan_directory env as check buf (butlast pending) ?d)
      (\<lambda>(buf', pending') h. still env g h \<and> ?enter g ?d \<and>
        (\<forall>c. files_of g c \<noteq> None \<and> c \<noteq> root \<and> parent_of c = ?d \<longrightarrow> P c) \<and>
        set pending' = set (butlast pending) \<union> {c. c \<noteq> root \<and> parent_of c = ?d \<and> is_dir (files_of g c)})
      (\<lambda>_ h. still env g h) g"
    proof -
      have kids: "wp (scan_children env check buf (butlast pending) cs)
        (\<lambda>(buf', pending') h. still env g h \<and>
          (\<forall>c. files_of g c \<noteq> None \<and> c \<noteq> root \<and> parent_of c = ?d \<longrightarrow> P c) \<and>
          set pending' = set (butlast pending) \<union> {c. c \<noteq> root \<and> parent_of c = ?d \<and> is_dir (files_of g c)})
        (\<lambda>_ h. still env g h) k"
        if k: "still env g k" and cs: "set cs = {c. files_of g c \<noteq> None \<and> c \<noteq> root \<and> parent_of c = ?d}" for cs k
      proof -
        have k': "gw_policy k = gw_policy g" "files_of k = files_of g" using k by (simp_all add: still_def)
        have "\<forall>c \<in> set cs. vpath_ok c" using tree cs by (auto simp: tree_def)
        moreover have "\<And>c h. gw_policy h = gw_policy k \<Longrightarrow> check c h = Inr () \<Longrightarrow> P c" using 1(3) k'(1) by simp
        ultimately show ?thesis
          by (intro wp_mono[OF wp_scan_children[OF still_inv[OF k], of check P]])
             (use cs k' still_trans[OF k] in \<open>auto dest: is_dir_not_None\<close>)
      qed
      show ?thesis
        unfolding scan_directory_def wp_bindS
        by (rule wp_use[OF wp_require_access[OF 1(2)]]; intro allI impI)
           (use still_refl[OF 1(2)] in \<open>auto intro!: wp_use[OF wp_list_children[OF 1(2) d]] kids simp del: not_None_eq\<close>)
    qed
    obtain r k where rk: "scan_directory env as check buf (butlast pending) ?d g = (r, k)" by fastforce
    show ?thesis
    proof (cases r)
      case (Inl e)
      then show ?thesis using scan rk False by (simp add: wp_def) (subst scan_directories.simps, simp)
    next
      case (Inr bp)
      obtain buf' pending' where bp: "bp = (buf', pending')" by fastforce
      then have k: "still env g k" and enter: "?enter g ?d" and kids: "\<forall>c. files_of g c \<noteq> None \<and> c \<noteq> root \<and> parent_of c = ?d \<longrightarrow> P c"
        and pend: "set pending' = set (butlast pending) \<union> {c. c \<noteq> root \<and> parent_of c = ?d \<and> is_dir (files_of g c)}"
        using scan rk Inr by (simp_all add: wp_def)
      have k': "gw_policy k = gw_policy g" "files_of k = files_of g" using k by (simp_all add: still_def)
      have ok: "\<forall>d \<in> set pending'. vpath_ok d"
        using pend 1(4) tree is_dir_not_None by (auto simp: tree_def dest: in_set_butlastD)
      have IH: "wp (scan_directories env as check buf' pending')
          (\<lambda>_ h. still env k h \<and> (\<forall>d \<in> set pending'. ?enter k d \<and> ?below k d)) (\<lambda>_ h. still env k h) k"
        by (rule 1(1)[OF False rk[symmetric] Inr bp[symmetric] still_inv[OF k] _ ok]) (use 1(3) k' in auto)
      have below: "?below g ?d" if "\<forall>d \<in> set pending'. ?below g d"
      proof (intro allI impI)
        fix q assume q: "files_of g q \<noteq> None" "is_within q ?d" "q \<noteq> ?d"
        from below_child[OF tree d q] obtain c
          where c: "files_of g c \<noteq> None" "c \<noteq> root" "parent_of c = ?d" "is_within q c" by blast
        have "vpath_ok c" using c(1) tree by (auto simp: tree_def)
        then have "q \<noteq> c \<Longrightarrow> c \<in> set pending'"
          using tree_ancestor[OF tree q(1) _ c(4)] pend c by auto
        then show "P q" using that kids c q(1) by blast
      qed
      have split: "set pending \<subseteq> insert ?d (set (butlast pending))"
        using False by (cases pending rule: rev_cases) auto
      have "wp (scan_directories env as check buf pending) Q E g = wp (scan_directories env as check buf' pending') Q E k" for Q E
        using False rk Inr bp by (simp add: wp_def) (subst scan_directories.simps, simp)
      moreover have "wp (scan_directories env as check buf' pending')
          (\<lambda>_ h. still env g h \<and> (\<forall>d \<in> set pending. ?enter g d \<and> ?below g d)) (\<lambda>_ h. still env g h) k"
      proof (rule wp_mono[OF IH], elim conjE)
        fix h assume h: "still env k h" "\<forall>d \<in> set pending'. ?enter k d \<and> ?below k d"
        then have all: "\<forall>d \<in> set pending'. ?enter g d \<and> ?below g d" by (simp only: k')
        then have down: "\<forall>d \<in> set pending'. ?below g d" by simp
        have "?enter g d \<and> ?below g d" if "d \<in> set pending" for d
        proof (cases "d = ?d")
          case True
          show ?thesis unfolding True using enter below[OF down] by (rule conjI)
        next
          case False
          then have "d \<in> set pending'" using subsetD[OF split that] pend by auto
          then show ?thesis by (rule bspec[OF all])
        qed
        then show "still env g h \<and> (\<forall>d \<in> set pending. ?enter g d \<and> ?below g d)" using still_trans[OF k h(1)] by blast
      qed (rule still_trans[OF k])
      ultimately show ?thesis by simp
    qed
  qed
qed

section \<open>Mutations\<close>

text \<open>
  What the policy has to allow for the node at a path to change: a creation, a removal, or another
  node in its place.
\<close>

definition grants :: "call_policy \<Rightarrow> vpath \<Rightarrow> access_kind \<Rightarrow> bool" where
  "grants pol p a \<longleftrightarrow> authorize pol p a = Ok ()"

definition lawful :: "call_policy \<Rightarrow> files \<Rightarrow> files \<Rightarrow> bool" where
  "lawful pol m m' \<longleftrightarrow> (\<forall>p. m' p = m p \<or> (case (m p, m' p) of
     (None, _) \<Rightarrow> grants pol p Acc_Create \<or> grants pol p Acc_RenameDestination
   | (_, None) \<Rightarrow> grants pol p Acc_Delete \<or> grants pol p Acc_RenameSource \<or> grants pol p Acc_RenameDestination
   | _ \<Rightarrow> grants pol p Acc_Modify \<or> grants pol p Acc_RenameDestination))"

lemma lawful_refl [simp]: "lawful pol m m"
  by (simp add: lawful_def)

text \<open>Only paths that may be created and modified are changed, and none is removed.\<close>

definition only_puts :: "call_policy \<Rightarrow> files \<Rightarrow> files \<Rightarrow> bool" where
  "only_puts pol m m' \<longleftrightarrow> (\<forall>p. m' p = m p \<or> m' p \<noteq> None \<and> grants pol p Acc_Create \<and> grants pol p Acc_Modify)"

lemma only_puts_refl [simp]: "only_puts pol m m"
  by (simp add: only_puts_def)

lemma only_puts_trans: "only_puts pol a b \<Longrightarrow> only_puts pol b c \<Longrightarrow> only_puts pol a c"
  unfolding only_puts_def by metis

lemma only_puts_lawful: "only_puts pol m m' \<Longrightarrow> lawful pol m m'"
  unfolding only_puts_def lawful_def by (elim all_forward) (auto split: option.splits)

lemma only_puts_upd: "grants pol p Acc_Create \<Longrightarrow> grants pol p Acc_Modify \<Longrightarrow> only_puts pol m (m(p \<mapsto> x))"
  by (simp add: only_puts_def)

text \<open>A mutation of the filesystem whose error is clean.\<close>

lemma wp_gw_change:
  assumes g: "gw_inv env g"
    and m: "\<And>v. vfs_inv (ge_vfs env) v \<Longrightarrow> lookup v = files_of g \<Longrightarrow>
      wp m (\<lambda>_ t. vfs_inv (ge_vfs env) t \<and> fs_advances v t \<and> R (files_of g) (lookup t))
        (\<lambda>e t. clean_error (ge_vfs env) v e t \<or> vfs_inv (ge_vfs env) t \<and> fs_advances v t \<and> R (files_of g) (lookup t)) v"
    and R: "R (files_of g) (files_of g)"
  shows "wp (gw_apply m) (\<lambda>_ h. moves env R g h) (\<lambda>_ h. moves env R g h) g"
proof -
  let ?v = "(gw_fs g)\<lparr>vf_origin := gw_origin g\<rparr>"
  have "wp m (\<lambda>_ t. vfs_inv (ge_vfs env) t \<and> fs_advances ?v t \<and> R (files_of g) (lookup t))
      (\<lambda>e t. vfs_inv (ge_vfs env) t \<and> fs_advances ?v t \<and>
        (ev_failure (vf_evidence t) = None \<longrightarrow> R (files_of g) (lookup t))) ?v"
    by (rule wp_mono[OF m]) (use g R in \<open>auto simp: gw_inv_def clean_error_def ev_fail_def\<close>)
  from wp_gw_apply[OF g this refl] show ?thesis
    by (rule wp_mono) (use R in \<open>auto simp: moves_def\<close>)
qed

lemma wp_gw_write_file:
  assumes "gw_inv env g" "vpath_ok p" "grants (gw_policy g) p Acc_Create" "grants (gw_policy g) p Acc_Modify"
  shows "wp (gw_apply (write_file (ge_vfs env) p b)) (\<lambda>_ h. moves env (only_puts (gw_policy g)) g h)
    (\<lambda>_ h. moves env (only_puts (gw_policy g)) g h) g"
  by (rule wp_gw_change[OF assms(1)], rule wp_mono[OF wp_write_file[OF _ assms(2)]])
     (auto simp: sets_def intro: only_puts_upd[OF assms(3,4)])

lemma wp_gw_append_file:
  assumes "gw_inv env g" "vpath_ok p" "grants (gw_policy g) p Acc_Create" "grants (gw_policy g) p Acc_Modify"
  shows "wp (gw_apply (append (ge_vfs env) p b)) (\<lambda>_ h. moves env (only_puts (gw_policy g)) g h)
    (\<lambda>_ h. moves env (only_puts (gw_policy g)) g h) g"
  by (rule wp_gw_change[OF assms(1)], rule wp_mono[OF wp_append[OF _ assms(2)]])
     (auto intro: only_puts_upd[OF assms(3,4)])

text \<open>The root exists, so nothing has to be allowed for creating it.\<close>

lemma wp_gw_mkdir_put:
  assumes "gw_inv env g" "vpath_ok p"
    and "p \<noteq> root \<Longrightarrow> grants (gw_policy g) p Acc_Create \<and> grants (gw_policy g) p Acc_Modify"
  shows "wp (gw_apply (mkdir (ge_vfs env) p m)) (\<lambda>_ h. moves env (only_puts (gw_policy g)) g h)
    (\<lambda>_ h. moves env (only_puts (gw_policy g)) g h) g"
  by (rule wp_gw_change[OF assms(1)], rule wp_mono[OF wp_mkdir[OF _ assms(2)]])
     (use assms(3) in \<open>auto simp: sets_def intro: only_puts_upd\<close>)

lemma wp_gw_mkdir_new:
  assumes "gw_inv env g" "vpath_ok p" "grants (gw_policy g) p Acc_Create"
  shows "wp (gw_apply (mkdir (ge_vfs env) p m)) (\<lambda>_ h. moves env (lawful (gw_policy g)) g h)
    (\<lambda>_ h. moves env (lawful (gw_policy g)) g h) g"
  by (rule wp_gw_change[OF assms(1)], rule wp_mono[OF wp_mkdir[OF _ assms(2)]])
     (use assms(3) in \<open>auto simp: sets_def lawful_def\<close>)

lemma wp_gw_set_mode:
  assumes "gw_inv env g" "vpath_ok p" "grants (gw_policy g) p Acc_Modify"
  shows "wp (gw_apply (set_mode (ge_vfs env) p m)) (\<lambda>_ h. moves env (lawful (gw_policy g)) g h)
    (\<lambda>_ h. moves env (lawful (gw_policy g)) g h) g"
proof (rule wp_gw_change[OF assms(1)])
  fix v assume v: "vfs_inv (ge_vfs env) v" "lookup v = files_of g"
  show "wp (set_mode (ge_vfs env) p m)
      (\<lambda>_ t. vfs_inv (ge_vfs env) t \<and> fs_advances v t \<and> lawful (gw_policy g) (files_of g) (lookup t))
      (\<lambda>e t. clean_error (ge_vfs env) v e t \<or> vfs_inv (ge_vfs env) t \<and> fs_advances v t \<and>
        lawful (gw_policy g) (files_of g) (lookup t)) v"
    by (rule wp_mono[OF wp_set_mode[OF v(1) assms(2)]])
       (use assms(3) v(2) quiet_lookup in \<open>auto simp: sets_def quiet_def lawful_def\<close>)
qed simp

lemma wp_gw_unlink:
  assumes "gw_inv env g" "vpath_ok p" "grants (gw_policy g) p Acc_Delete"
  shows "wp (gw_apply (unlink (ge_vfs env) p)) (\<lambda>_ h. moves env (lawful (gw_policy g)) g h)
    (\<lambda>_ h. moves env (lawful (gw_policy g)) g h) g"
  by (rule wp_gw_change[OF assms(1)], rule wp_mono[OF wp_unlink[OF _ assms(2)]])
     (use assms(3) in \<open>auto simp: sets_def lawful_def split: option.splits\<close>)

lemma wp_gw_rmdir_empty:
  assumes "gw_inv env g" "vpath_ok p" "grants (gw_policy g) p Acc_Delete"
  shows "wp (gw_apply (rmdir (ge_vfs env) p)) (\<lambda>_ h. moves env (lawful (gw_policy g)) g h)
    (\<lambda>_ h. moves env (lawful (gw_policy g)) g h) g"
  by (rule wp_gw_change[OF assms(1)], rule wp_mono[OF wp_rmdir[OF _ assms(2)]])
     (use assms(3) in \<open>auto simp: sets_def lawful_def split: option.splits\<close>)

lemma wp_gw_remove_files:
  assumes "gw_inv env g" "vpath_ok p"
    and "\<forall>q. files_of g q \<noteq> None \<longrightarrow> is_within q p \<longrightarrow> grants (gw_policy g) q Acc_Delete"
  shows "wp (gw_apply (remove_tree (ge_vfs env) p)) (\<lambda>_ h. moves env (lawful (gw_policy g)) g h)
    (\<lambda>_ h. moves env (lawful (gw_policy g)) g h) g"
  by (rule wp_gw_change[OF assms(1)], rule wp_mono[OF wp_remove_tree[OF _ assms(2)]])
     (use assms(3) in \<open>auto simp: lawful_def split: option.splits\<close>)

text \<open>A node that moves leaves a path it may leave, and arrives at one it may enter.\<close>

lemma wp_gw_rename_files:
  assumes g: "gw_inv env g" and ok: "vpath_ok a" "vpath_ok b"
    and leave: "grants (gw_policy g) a Acc_RenameSource" and enter: "grants (gw_policy g) b Acc_RenameDestination"
    and below: "a \<noteq> b \<Longrightarrow> \<forall>q. files_of g q \<noteq> None \<longrightarrow> is_within q a \<longrightarrow> q \<noteq> a \<longrightarrow>
      grants (gw_policy g) q Acc_RenameSource \<and> grants (gw_policy g) (move_path a b q) Acc_RenameDestination"
  shows "wp (gw_apply (rename (ge_vfs env) a b)) (\<lambda>_ h. moves env (lawful (gw_policy g)) g h)
    (\<lambda>_ h. moves env (lawful (gw_policy g)) g h) g"
proof (rule wp_gw_change[OF g])
  fix v assume v: "vfs_inv (ge_vfs env) v" "lookup v = files_of g"
  let ?L = "lawful (gw_policy g) (files_of g)"
  have tree: "tree (files_of g)" using g vfs_inv_tree by (simp add: gw_inv_def)
  have gone: "?L ((files_of g)(b := None))" using enter by (auto simp: lawful_def split: option.splits)
  have move: "?L (moved (files_of g) a b)"
    if ab: "a \<noteq> root" "b \<noteq> root" "a \<noteq> b" "\<not> is_within a b" "\<forall>x. is_within x b \<and> x \<noteq> b \<longrightarrow> files_of g x = None"
    unfolding lawful_def
  proof
    fix p
    show "moved (files_of g) a b p = files_of g p \<or> (case (files_of g p, moved (files_of g) a b p) of
        (None, _) \<Rightarrow> grants (gw_policy g) p Acc_Create \<or> grants (gw_policy g) p Acc_RenameDestination
      | (_, None) \<Rightarrow> grants (gw_policy g) p Acc_Delete \<or> grants (gw_policy g) p Acc_RenameSource \<or>
          grants (gw_policy g) p Acc_RenameDestination
      | _ \<Rightarrow> grants (gw_policy g) p Acc_Modify \<or> grants (gw_policy g) p Acc_RenameDestination)"
    proof (cases "is_within p b")
      case True
      show ?thesis
      proof (cases "p = b")
        case True
        then show ?thesis using enter by (auto split: option.splits)
      next
        case False
        then have none: "files_of g p = None" using ab(5) True by blast
        show ?thesis
        proof (cases "moved (files_of g) a b p")
          case (Some r)
          let ?q = "move_path b a p"
          have p: "vpath_ok p" and q: "files_of g ?q = Some r" using Some True by (auto simp: moved_def split: if_splits)
          have "is_within ?q a" using move_path_within[OF ok(1) p] .
          moreover have home: "move_path a b ?q = p" by (rule move_path_back[OF ok(2,1) p True])
          moreover have "?q \<noteq> a" using home False move_path_self[OF ok] by metis
          ultimately have "grants (gw_policy g) p Acc_RenameDestination" using below[OF ab(3)] q by (metis option.distinct(1))
          then show ?thesis using none Some by simp
        qed (simp add: none)
      qed
    next
      case outside: False
      show ?thesis
      proof (cases "is_within p a \<and> files_of g p \<noteq> None")
        case True
        then have "grants (gw_policy g) p Acc_RenameSource" using below[OF ab(3)] leave by (cases "p = a") auto
        then show ?thesis using True outside by (auto simp: moved_def split: option.splits)
      qed (use outside in \<open>auto simp: moved_def\<close>)
    qed
  qed
  show "wp (rename (ge_vfs env) a b) (\<lambda>_ t. vfs_inv (ge_vfs env) t \<and> fs_advances v t \<and> ?L (lookup t))
      (\<lambda>e t. clean_error (ge_vfs env) v e t \<or> vfs_inv (ge_vfs env) t \<and> fs_advances v t \<and> ?L (lookup t)) v"
    by (rule wp_mono[OF wp_rename[OF v(1) ok]])
       (use v move gone in \<open>auto simp: rename_error_def clean_error_def is_within_def\<close>)
qed simp

end
