(* ===== verification/GatewaySafe.thy ===== *)
theory GatewaySafe
  imports GatewayInv
begin

text \<open>
  Every request of a guest, from its first check to its last effect: the paths whose node changed are
  paths the policy let change, and the ledger of work stays within its limits.
\<close>

section \<open>Requests step by step\<close>

abbreviation runs :: "gateway_env \<Rightarrow> (files \<Rightarrow> files \<Rightarrow> bool) \<Rightarrow> 'a gw_op \<Rightarrow> fs_gateway \<Rightarrow> bool" where
  "runs env R m g \<equiv> wp m (\<lambda>_ h. moves env R g h) (\<lambda>_ h. moves env R g h) g"

lemma runs_access:
  assumes "gw_inv env g" "\<And>x. R x x"
    and "\<forall>a \<in> set as. grants (gw_policy g) p a \<Longrightarrow> runs env R (f ()) g"
  shows "runs env R (bindS (require_access p as) f) g"
proof -
  have refl: "moves env R g g" using still_moves[OF still_refl[OF assms(1)] assms(2)] .
  show ?thesis
    unfolding wp_bindS by (rule wp_use[OF wp_require_access[OF assms(1)]]) (use assms(3) refl in \<open>auto simp: grants_def\<close>)
qed

lemma runs_still:
  assumes "wp m (\<lambda>x k. still env g k \<and> Q x) (\<lambda>_ k. still env g k) g" "\<And>x. R x x"
    and "\<And>x k. still env g k \<Longrightarrow> gw_inv env k \<Longrightarrow> gw_policy k = gw_policy g \<Longrightarrow> files_of k = files_of g \<Longrightarrow> Q x \<Longrightarrow>
      runs env R (f x) k"
  shows "runs env R (bindS m f) g"
  unfolding wp_bindS
proof (rule wp_use[OF assms(1)]; intro allI impI; (elim conjE)?)
  fix x k assume k: "still env g k" "Q x"
  have k': "gw_inv env k" "gw_policy k = gw_policy g" "files_of k = files_of g"
    using k(1) by (simp_all add: still_def)
  show "wp (f x) (\<lambda>_ h. moves env R g h) (\<lambda>_ h. moves env R g h) k"
    by (rule wp_mono[OF assms(3)[OF k(1) k' k(2)]]) (auto intro: moves_still[OF k(1)])
next
  fix e k assume "still env g k"
  then show "moves env R g k" using still_moves assms(2) by blast
qed

lemma runs_still': 
  assumes "wp m (\<lambda>_ k. still env g k) (\<lambda>_ k. still env g k) g" "\<And>x. R x x"
    and "\<And>x k. still env g k \<Longrightarrow> gw_inv env k \<Longrightarrow> gw_policy k = gw_policy g \<Longrightarrow> files_of k = files_of g \<Longrightarrow> runs env R (f x) k"
  shows "runs env R (bindS m f) g"
proof -
  have "wp m (\<lambda>x k. still env g k \<and> True) (\<lambda>_ k. still env g k) g" using assms(1) by simp
  then show ?thesis by (rule runs_still[where R=R]) (use assms(2,3) in auto)
qed

lemma runs_of_still: "wp m (\<lambda>_ k. still env g k) (\<lambda>_ k. still env g k) g \<Longrightarrow> (\<And>x. R x x) \<Longrightarrow> runs env R m g"
  by (rule wp_mono, assumption) (auto intro: still_moves)

lemma runs_end:
  assumes "gw_inv env g" "\<And>x. R x x"
  shows "runs env R (returnS x) g" "runs env R (failS e) g" "runs env R (gw_fail f) g" "runs env R (gw_invalid r p) g"
  using still_moves[OF still_refl[OF assms(1)], of R] assms(2) by (simp_all add: wp_simps gw_fail_def gw_invalid_def)

lemma runs_mono: "runs env P m g \<Longrightarrow> (\<And>x y. P x y \<Longrightarrow> R x y) \<Longrightarrow> runs env R m g"
  by (rule wp_mono, assumption) (auto intro: moves_mono)

lemma runs_puts: "runs env (only_puts pol) m g \<Longrightarrow> runs env (lawful pol) m g"
  by (rule runs_mono[where P="only_puts pol"]) (auto intro: only_puts_lawful)

lemma runs_forS:
  assumes "gw_inv env g" "gw_policy g = pol"
    and "\<And>x k. x \<in> set xs \<Longrightarrow> gw_inv env k \<Longrightarrow> gw_policy k = pol \<Longrightarrow> runs env (only_puts pol) (f x) k"
  shows "runs env (only_puts pol) (forS xs f) g"
  using assms
proof (induction xs arbitrary: g)
  case Nil
  then show ?case unfolding forS.simps by (intro runs_end(1)) auto
next
  case (Cons x xs)
  have "wp (forS xs f) (\<lambda>_ h. moves env (only_puts pol) g h) (\<lambda>_ h. moves env (only_puts pol) g h) k"
    if k: "moves env (only_puts pol) g k" for k
  proof -
    have k': "gw_inv env k" "gw_policy k = pol" using k Cons.prems(2) by (auto simp: moves_def)
    show ?thesis
      by (rule wp_mono[OF Cons.IH[OF k']])
         (use Cons.prems(3) in \<open>auto intro: moves_trans[OF k] only_puts_trans\<close>)
  qed
  then show ?case
    unfolding forS.simps wp_bindS by (intro wp_use[OF Cons.prems(3)[OF _ Cons.prems(1,2)]]) auto
qed

lemma runs_charge:
  "gw_inv env g \<Longrightarrow> (\<And>x. R x x) \<Longrightarrow>
   (\<And>k. gw_inv env k \<Longrightarrow> gw_policy k = gw_policy g \<Longrightarrow> files_of k = files_of g \<Longrightarrow> runs env R (f ()) k) \<Longrightarrow>
   runs env R (bindS (gw_charge m) f) g"
  by (rule runs_still'[OF wp_gw_charge]) auto

section \<open>Simple requests\<close>

lemma runs_gw_metadata: "gw_inv env g \<Longrightarrow> vpath_ok p \<Longrightarrow> runs env (lawful pol) (gw_metadata env p) g"
  unfolding gw_metadata_def
  by (rule runs_access, assumption, simp, rule runs_of_still) (auto intro: wp_mono[OF wp_gw_metadata])

lemma runs_gw_read:
  assumes "gw_inv env g" "vpath_ok p"
  shows "runs env (lawful pol) (gw_read env p) g" "runs env (lawful pol) (gw_read_link env p) g"
proof -
  have tail: "runs env (lawful pol) (if kind st \<noteq> k then gw_fail e
      else bindS (gw_charge (charge_read (nsize st))) (\<lambda>_. gw_apply m)) h"
    if "gw_inv env h" "\<And>k. gw_inv env k \<Longrightarrow> runs env (lawful pol) (gw_apply m) k" for st k e m h
    using that by (cases "kind st = k") (auto intro!: runs_charge runs_end)
  have content: "runs env (lawful pol) (gw_apply (read (ge_vfs env) p)) k"
    "runs env (lawful pol) (gw_apply (read_link (ge_vfs env) p)) k" if "gw_inv env k" for k
    using runs_of_still[OF wp_gw_content(1)[OF that assms(2)]] runs_of_still[OF wp_gw_content(2)[OF that assms(2)]] by simp_all
  show "runs env (lawful pol) (gw_read env p) g"
    unfolding gw_read_def
    by (intro runs_access[OF assms(1)] runs_still[OF wp_gw_metadata[OF assms]] tail content) auto
  show "runs env (lawful pol) (gw_read_link env p) g"
    unfolding gw_read_link_def
    by (intro runs_access[OF assms(1)] runs_still[OF wp_gw_metadata[OF assms]] tail content) auto
qed

lemma runs_gw_read_dir:
  assumes "gw_inv env g" "vpath_ok p" shows "runs env (lawful pol) (gw_read_dir env p) g"
  unfolding gw_read_dir_def
  by (intro runs_access[OF assms(1)] runs_still[OF wp_list_children[OF assms]])
     (auto simp: wp_simps intro: still_moves still_refl)

lemma runs_gw_write:
  assumes "gw_inv env g" "vpath_ok p" "gw_policy g = pol"
  shows "runs env (lawful pol) (gw_write env p b) g"
  unfolding gw_write_def
  by (intro runs_charge[OF assms(1)] runs_access runs_puts)
     (use assms wp_gw_write_file in auto)

lemma runs_put_file:
  assumes "gw_inv env g" "vpath_ok p" "gw_policy g = pol" "grants pol p Acc_Create" "grants pol p Acc_Modify"
  shows "runs env (lawful pol) (gw_apply (write_file (ge_vfs env) p b)) g"
    "runs env (lawful pol) (gw_apply (append (ge_vfs env) p b)) g"
  using wp_gw_write_file wp_gw_append_file assms by (auto intro!: runs_puts)

lemma runs_gw_append:
  assumes "gw_inv env g" "vpath_ok p" "gw_policy g = pol"
  shows "runs env (lawful pol) (gw_append env p b) g"
  unfolding gw_append_def
proof (intro runs_charge[OF assms(1)] runs_access; (simp; fail)?)
  fix k assume k: "gw_inv env k" "gw_policy k = gw_policy g"
    and a: "\<forall>a \<in> set [Acc_Create, Acc_Modify]. grants (gw_policy k) p a"
  then have gr: "grants pol p Acc_Create" "grants pol p Acc_Modify" using assms(3) by auto
  show "runs env (lawful pol) (bindS (metadata_if_present env p) (\<lambda>found. case found of
       Some st \<Rightarrow>
         if kind st = File then
           bindS (gw_charge (charge_read (nsize st))) (\<lambda>_. gw_apply (append (ge_vfs env) p b))
         else gw_fail (NotFile p (kind st))
     | None \<Rightarrow> gw_apply (write_file (ge_vfs env) p b))) k"
    by (rule runs_still[OF wp_metadata_if_present[OF k(1) assms(2)]])
       (use k assms gr in \<open>auto intro!: runs_charge runs_end runs_put_file split: option.split\<close>)
qed

lemma runs_gw_mkdir:
  assumes "gw_inv env g" "vpath_ok p" "gw_policy g = pol" shows "runs env (lawful pol) (gw_mkdir env p m) g"
  unfolding gw_mkdir_def
  by (intro runs_access[OF assms(1)]) (use wp_gw_mkdir_new[OF assms(1,2)] assms(3) in auto)

lemma runs_gw_set_mode:
  assumes "gw_inv env g" "vpath_ok p" "gw_policy g = pol" shows "runs env (lawful pol) (gw_set_mode env p m) g"
  unfolding gw_set_mode_def
  by (intro runs_access[OF assms(1)]) (use wp_gw_set_mode[OF assms(1,2)] assms(3) in auto)

lemma runs_gw_unlink:
  assumes "gw_inv env g" "vpath_ok p" "gw_policy g = pol" shows "runs env (lawful pol) (gw_unlink env p) g"
  unfolding gw_unlink_def
  by (intro runs_access[OF assms(1)]) (use wp_gw_unlink[OF assms(1,2)] assms(3) in auto)

lemma runs_gw_rmdir:
  assumes "gw_inv env g" "vpath_ok p" "gw_policy g = pol" shows "runs env (lawful pol) (gw_rmdir env p) g"
  unfolding gw_rmdir_def
proof (intro runs_access[OF assms(1)], simp)
  assume a: "\<forall>a \<in> set [Acc_Delete, Acc_DirectoryRead]. grants (gw_policy g) p a"
  have "runs env (lawful pol) (bindS (list_authorized_children env p) (\<lambda>cs.
       if cs \<noteq> [] then gw_fail (DirectoryNotEmpty p) else gw_apply (rmdir (ge_vfs env) p))) g"
  proof (rule runs_still[OF wp_list_children[OF assms(1,2)]])
    fix cs k assume k: "gw_inv env k" "gw_policy k = gw_policy g"
    then show "runs env (lawful pol) (if cs \<noteq> [] then gw_fail (DirectoryNotEmpty p) else gw_apply (rmdir (ge_vfs env) p)) k"
      using wp_gw_rmdir_empty[OF k(1) assms(2)] a assms(3) by (auto intro: runs_end)
  qed simp
  then show "runs env (lawful pol) (if is_root p then gw_fail RootMutation
     else bindS (list_authorized_children env p) (\<lambda>cs.
       if cs \<noteq> [] then gw_fail (DirectoryNotEmpty p) else gw_apply (rmdir (ge_vfs env) p))) g"
    using assms(1) by (auto intro: runs_end)
qed

lemma runs_prepare_open:
  assumes "gw_inv env g" "vpath_ok p" "gw_policy g = pol" shows "runs env (lawful pol) (prepare_open env p m) g"
  unfolding prepare_open_def
proof (intro runs_access[OF assms(1)], simp)
  assume a: "\<forall>a \<in> set (open_accesses m). grants (gw_policy g) p a"
  then have gr: "m \<notin> {Open_Read, Open_ReadUpdate} \<Longrightarrow> grants pol p Acc_Create \<and> grants pol p Acc_Modify"
    using assms(3) by (cases m) auto
  have "runs env (lawful pol) (bindS (gw_apply (metadata (ge_vfs env) p)) (\<lambda>st.
         if kind st \<noteq> File then gw_fail (NotFile p (kind st)) else returnS ())) g"
    by (rule runs_still[OF wp_gw_metadata[OF assms(1,2)]]) (auto intro: runs_end)
  moreover have "runs env (lawful pol) (bindS (metadata_if_present env p) (\<lambda>found. case found of
         Some st \<Rightarrow> if kind st = File then returnS () else gw_fail (NotFile p (kind st))
       | None \<Rightarrow> gw_apply (write_file (ge_vfs env) p []))) g" if "m \<notin> {Open_Read, Open_ReadUpdate}"
    by (rule runs_still[OF wp_metadata_if_present[OF assms(1,2)]])
       (use gr[OF that] assms in \<open>auto intro!: runs_end runs_put_file split: option.split\<close>)
  ultimately show "runs env (lawful pol) (if m \<in> {Open_Read, Open_ReadUpdate} then
       bindS (gw_apply (metadata (ge_vfs env) p)) (\<lambda>st.
         if kind st \<noteq> File then gw_fail (NotFile p (kind st)) else returnS ())
     else if m \<in> {Open_Write, Open_WriteUpdate} then gw_apply (write_file (ge_vfs env) p [])
     else
       bindS (metadata_if_present env p) (\<lambda>found. case found of
         Some st \<Rightarrow> if kind st = File then returnS () else gw_fail (NotFile p (kind st))
       | None \<Rightarrow> gw_apply (write_file (ge_vfs env) p []))) g"
    using gr assms runs_put_file(1) by auto
qed

section \<open>Trees\<close>

lemma runs_gw_remove_tree:
  assumes g: "gw_inv env g" "vpath_ok p" "gw_policy g = pol"
  shows "runs env (lawful pol) (gw_remove_tree env p) g"
  unfolding gw_remove_tree_def
proof (rule runs_still'[OF wp_reserve_path[OF g(1)]])
  fix buf k assume k: "gw_inv env k" "gw_policy k = gw_policy g" "files_of k = files_of g"
  let ?P = "\<lambda>q. grants pol q Acc_Delete"
  have scan: "wp (scan_directories env [Acc_Delete, Acc_DirectoryRead] (\<lambda>c. gw_authorize c [Acc_Delete]) buf [p])
    (\<lambda>_ h. still env k h \<and> (\<forall>d \<in> set [p].
      (\<forall>a \<in> set [Acc_Delete, Acc_DirectoryRead]. authorize (gw_policy k) d a = Inr ()) \<and>
      (\<forall>q. files_of k q \<noteq> None \<longrightarrow> is_within q d \<longrightarrow> q \<noteq> d \<longrightarrow> ?P q)))
    (\<lambda>_ h. still env k h) k"
  proof (rule wp_scan_directories[OF k(1)])
    fix c h assume "gw_policy h = gw_policy k" "gw_authorize c [Acc_Delete] h = Inr ()"
    then show "?P c" using gw_authorize_Inr[of c "[Acc_Delete]" h] k(2) g(3) by (simp add: grants_def)
  qed (simp add: g(2))
  show "runs env (lawful pol) (bindS (scan_directories env [Acc_Delete, Acc_DirectoryRead]
      (\<lambda>c. gw_authorize c [Acc_Delete]) buf [p]) (\<lambda>_. gw_apply (remove_tree (ge_vfs env) p))) k"
  proof (rule runs_still[OF scan])
    fix x l assume l: "gw_inv env l" "gw_policy l = gw_policy k" "files_of l = files_of k"
      and below: "\<forall>d \<in> set [p].
        (\<forall>a \<in> set [Acc_Delete, Acc_DirectoryRead]. authorize (gw_policy k) d a = Inr ()) \<and>
        (\<forall>q. files_of k q \<noteq> None \<longrightarrow> is_within q d \<longrightarrow> q \<noteq> d \<longrightarrow> ?P q)"
    have "?P p" using below k(2) g(3) by (simp add: grants_def)
    then have "\<forall>q. files_of l q \<noteq> None \<longrightarrow> is_within q p \<longrightarrow> grants (gw_policy l) q Acc_Delete"
      using below l k g(3) by auto
    from wp_gw_remove_files[OF l(1) g(2) this]
    show "runs env (lawful pol) (gw_apply (remove_tree (ge_vfs env) p)) l" using l(2) k(2) g(3) by simp
  qed simp
qed simp

lemma runs_gw_remove:
  assumes g: "gw_inv env g" "vpath_ok p" "gw_policy g = pol"
  shows "runs env (lawful pol) (gw_remove env p recursive missing_ok) g"
  unfolding gw_remove_def
proof (rule runs_access[OF g(1)], simp)
  assume "\<forall>a \<in> set [Acc_Delete]. grants (gw_policy g) p a"
  then have gr: "grants pol p Acc_Delete" using g(3) by simp
  have meta: "wp (\<lambda>g. case gw_apply (metadata (ge_vfs env) p) g of
         (Inr st, g') \<Rightarrow> (Ok (Some st), g')
       | (Inl e, g') \<Rightarrow> if missing_ok \<and> is_not_found e then (Ok None, g') else (Err e, g'))
      (\<lambda>_ h. still env g h) (\<lambda>_ h. still env g h) g"
    using wp_gw_metadata[OF g(1,2)] by (auto simp: wp_def split: prod.splits sum.splits)
  show "runs env (lawful pol) (bindS (\<lambda>g. case gw_apply (metadata (ge_vfs env) p) g of
         (Inr st, g') \<Rightarrow> (Ok (Some st), g')
       | (Inl e, g') \<Rightarrow> if missing_ok \<and> is_not_found e then (Ok None, g') else (Err e, g')) (\<lambda>found. case found of
       None \<Rightarrow> returnS ()
     | Some st \<Rightarrow>
         if kind st \<noteq> Directory then gw_apply (unlink (ge_vfs env) p)
         else if recursive then gw_remove_tree env p
         else gw_rmdir env p)) g"
  proof (rule runs_still'[OF meta])
    fix found k assume k: "gw_inv env k" "gw_policy k = gw_policy g"
    then have pol: "gw_policy k = pol" using g(3) by simp
    show "runs env (lawful pol) (case found of
       None \<Rightarrow> returnS ()
     | Some st \<Rightarrow>
         if kind st \<noteq> Directory then gw_apply (unlink (ge_vfs env) p)
         else if recursive then gw_remove_tree env p
         else gw_rmdir env p) k"
      using wp_gw_unlink[OF k(1) g(2)] runs_gw_remove_tree[OF k(1) g(2) pol] runs_gw_rmdir[OF k(1) g(2) pol] gr pol
      by (auto intro: runs_end(1)[OF k(1)] split: option.split)
  qed simp
qed

lemma runs_gw_rename:
  assumes g: "gw_inv env g" "vpath_ok a" "vpath_ok b" "gw_policy g = pol"
  shows "runs env (lawful pol) (gw_rename env a b) g"
  unfolding gw_rename_def
proof (rule runs_access[OF g(1)], simp, rule runs_access[OF g(1)], simp)
  assume "\<forall>x \<in> set [Acc_RenameSource]. grants (gw_policy g) a x" "\<forall>x \<in> set [Acc_RenameDestination]. grants (gw_policy g) b x"
  then have gr: "grants pol a Acc_RenameSource" "grants pol b Acc_RenameDestination" using g(4) by simp_all
  let ?P = "\<lambda>q. grants pol q Acc_RenameSource \<and> (\<exists>t. rebase_target q a b = Inr t \<and> grants pol t Acc_RenameDestination)"
  let ?below = "\<forall>q. files_of g q \<noteq> None \<longrightarrow> is_within q a \<longrightarrow> q \<noteq> a \<longrightarrow> ?P q"
  have tree: "tree (files_of g)" using g(1) vfs_inv_tree by (simp add: gw_inv_def)
  let ?scan = "bindS (gw_apply (metadata (ge_vfs env) a)) (\<lambda>st.
         if kind st = Directory then
           bindS (reserve_path env 0 a) (\<lambda>buf.
             scan_directories env [Acc_DirectoryRead] (rename_check a b) buf [a])
         else returnS ())"
  have dir: "wp (bindS (reserve_path env 0 a) (\<lambda>buf.
        scan_directories env [Acc_DirectoryRead] (rename_check a b) buf [a]))
      (\<lambda>_ h. still env g h \<and> ?below) (\<lambda>_ h. still env g h) k" if k: "still env g k" for k
  proof -
    have "wp (scan_directories env [Acc_DirectoryRead] (rename_check a b) buf [a])
      (\<lambda>_ h. still env g h \<and> ?below) (\<lambda>_ h. still env g h) l" if l: "still env g l" for buf l
    proof -
      have l': "gw_inv env l" "gw_policy l = pol" "files_of l = files_of g" using l g(4) by (simp_all add: still_def)
      have "wp (scan_directories env [Acc_DirectoryRead] (rename_check a b) buf [a])
        (\<lambda>_ h. still env l h \<and> (\<forall>d \<in> set [a].
          (\<forall>x \<in> set [Acc_DirectoryRead]. authorize (gw_policy l) d x = Inr ()) \<and>
          (\<forall>q. files_of l q \<noteq> None \<longrightarrow> is_within q d \<longrightarrow> q \<noteq> d \<longrightarrow> ?P q)))
        (\<lambda>_ h. still env l h) l"
      proof (rule wp_scan_directories[OF l'(1)])
        fix c h assume "gw_policy h = gw_policy l" "rename_check a b c h = Inr ()"
        then show "?P c" using l'(2) gw_authorize_Inr by (fastforce simp: rename_check_def bindR_Inr_iff grants_def)
      qed (simp add: g(2))
      then show ?thesis by (rule wp_mono) (use still_trans[OF l] l'(3) in auto)
    qed
    then show ?thesis
      unfolding wp_bindS
      by (intro wp_use[OF wp_reserve_path[OF still_inv[OF k]]]) (auto intro: still_trans[OF k])
  qed
  have scan: "wp ?scan (\<lambda>_ h. still env g h \<and> ?below) (\<lambda>_ h. still env g h) g"
    unfolding wp_bindS
  proof (rule wp_use[OF wp_gw_metadata[OF g(1,2)]]; intro allI impI; (elim conjE exE)?)
    fix st k r assume k: "still env g k" and r: "files_of g a = Some r" "kind st = kind (state_of (res_node r))"
    show "wp (if kind st = Directory then bindS (reserve_path env 0 a) (\<lambda>buf.
             scan_directories env [Acc_DirectoryRead] (rename_check a b) buf [a])
         else returnS ()) (\<lambda>_ h. still env g h \<and> ?below) (\<lambda>_ h. still env g h) k"
    proof (cases "kind st = Directory")
      case True
      then show ?thesis using dir[OF k] by simp
    next
      case False
      then have "\<not> is_dir (files_of g a)" using r by simp
      note leaf = tree_childless[OF tree g(2) this]
      have "?below"
      proof (intro allI impI)
        fix q assume "files_of g q \<noteq> None" "is_within q a" "q \<noteq> a"
        with leaf[of q] show "?P q" by simp
      qed
      then show ?thesis using False k by (simp add: wp_simps)
    qed
  qed
  have move: "runs env (lawful pol) (gw_apply (rename (ge_vfs env) a b)) k"
    if k: "gw_inv env k" "gw_policy k = gw_policy g" "files_of k = files_of g" and below: "a \<noteq> b \<Longrightarrow> ?below"
      and b: "b \<noteq> root" for k
  proof -
    have pol: "gw_policy k = pol" using k(2) g(4) by simp
    have "runs env (lawful (gw_policy k)) (gw_apply (rename (ge_vfs env) a b)) k"
    proof (rule wp_gw_rename_files[OF k(1) g(2,3)])
      show "\<forall>q. files_of k q \<noteq> None \<longrightarrow> is_within q a \<longrightarrow> q \<noteq> a \<longrightarrow>
          grants (gw_policy k) q Acc_RenameSource \<and> grants (gw_policy k) (move_path a b q) Acc_RenameDestination"
        if "a \<noteq> b"
      proof (intro allI impI)
        fix q assume q: "files_of k q \<noteq> None" "is_within q a" "q \<noteq> a"
        have "vpath_ok q" using q(1) k(3) tree by (auto simp: tree_def)
        then have "rebase_target q a b = Inr t \<Longrightarrow> t = move_path a b q" for t
          using rebase_Some[OF _ g(2,3) b q(2)] by (auto simp: rebase_target_def bindR_Inr_iff)
        then show "grants (gw_policy k) q Acc_RenameSource \<and> grants (gw_policy k) (move_path a b q) Acc_RenameDestination"
          using below[OF that] q k(3) pol by auto
      qed
    qed (use gr pol in auto)
    then show ?thesis using pol by simp
  qed
  show "runs env (lawful pol) (if is_root a \<or> is_root b then gw_fail RootMutation
     else if a \<noteq> b \<and> (is_within a b \<or> is_within b a) then gw_fail (InvalidRename a b)
     else bindS (if a = b then returnS () else ?scan) (\<lambda>_. gw_apply (rename (ge_vfs env) a b))) g"
  proof (cases "is_root a \<or> is_root b \<or> a \<noteq> b \<and> (is_within a b \<or> is_within b a)")
    case True
    have "runs env (lawful pol) (gw_fail e :: unit gw_op) g" for e by (rule runs_end(3)[OF g(1)]) simp
    then show ?thesis using True by auto
  next
    case False
    have "runs env (lawful pol) (bindS (if a = b then returnS () else ?scan) (\<lambda>_. gw_apply (rename (ge_vfs env) a b))) g"
    proof (cases "a = b")
      case True
      then show ?thesis using move[OF g(1)] False by (simp add: is_root_iff)
    next
      case ab: False
      have "runs env (lawful pol) (bindS ?scan (\<lambda>_. gw_apply (rename (ge_vfs env) a b))) g"
        by (rule runs_still[OF scan]) (use move False in \<open>auto simp: is_root_iff\<close>)
      then show ?thesis using ab by simp
    qed
    then show ?thesis using False by auto
  qed
qed

section \<open>Directories with their ancestors\<close>

text \<open>A path that may be created and modified; the root needs nothing.\<close>

abbreviation may_put :: "call_policy \<Rightarrow> vpath \<Rightarrow> bool" where
  "may_put pol p \<equiv> vpath_ok p \<and> (p \<noteq> root \<longrightarrow> grants pol p Acc_Create \<and> grants pol p Acc_Modify)"

lemma may_put_parent: "vpath_ok p \<Longrightarrow> \<forall>q. parent p = Some q \<longrightarrow> vpath_ok q"
  using parent_ok by blast

lemma wp_missing_ancestors:
  assumes "gw_inv env g" "gw_policy g = pol" "authorize_ancestors g0 c = Ok ()" "gw_policy g0 = pol"
    and "\<forall>p. c = Some p \<longrightarrow> vpath_ok p" "\<forall>p \<in> set missing. may_put pol p"
  shows "wp (missing_ancestors env buf missing c)
    (\<lambda>out h. still env g h \<and> (\<forall>p \<in> set out. may_put pol p)) (\<lambda>_ h. still env g h) g"
  using assms
proof (induction env buf missing c g rule: missing_ancestors.induct)
  case (1 env buf missing g)
  then show ?case using still_refl by (simp add: wp_def)
next
  case (2 env buf missing p g)
  have p: "vpath_ok p" using 2(6) by simp
  obtain r k where rk: "metadata_if_present env p g = (r, k)" by fastforce
  have k: "still env g k" using wp_metadata_if_present[OF 2(2) p] rk by (auto simp: wp_def split: sum.splits)
  then have k': "gw_inv env k" "gw_policy k = pol" using 2(3) by (simp_all add: still_def)
  show ?case
  proof (cases "\<exists>u. r = Inr None \<and> u = ()")
    case True
    then have r: "r = Inr None" by simp
    obtain s l where sl: "reserve_path env buf p k = (s, l)" by fastforce
    have "still env k l" using wp_reserve_path[OF k'(1), of buf p] sl by (auto simp: wp_def split: sum.splits)
    then have l: "still env g l" "gw_inv env l" "gw_policy l = pol"
      using still_trans[OF k] k'(2) by (auto simp: still_def)
    show ?thesis
    proof (cases s)
      case (Inl e)
      then show ?thesis using rk r sl l(1) by (simp add: wp_def)
    next
      case (Inr buf')
      have put: "may_put pol p" and up: "authorize_ancestors g0 (parent p) = Ok ()"
        using 2(4) p 2(5) gw_authorize_Inr[of p "[Acc_Create, Acc_Modify]" g0]
        by (auto simp: is_root_iff grants_def split: if_splits sum.splits)
      have "wp (missing_ancestors env buf' (missing @ [p]) (parent p))
          (\<lambda>out h. still env l h \<and> (\<forall>p \<in> set out. may_put pol p)) (\<lambda>_ h. still env l h) l"
        by (rule 2(1)[OF rk[symmetric] r refl sl[symmetric] Inr l(2,3) up 2(5) may_put_parent[OF p]])
           (use put 2(7) in auto)
      then show ?thesis using rk r sl Inr still_trans[OF l(1)] by (auto simp: wp_def split: prod.splits sum.splits)
    qed
  next
    case False
    then show ?thesis using rk k 2(7)
      by (auto simp: wp_def gw_fail_def split: sum.splits option.splits)
  qed
qed

lemma runs_gw_mkdir_options:
  assumes g: "gw_inv env g" "vpath_ok p" "gw_policy g = pol"
  shows "runs env (lawful pol) (gw_mkdir_options env p m parents exist_ok) g"
  unfolding gw_mkdir_options_def
proof (rule runs_puts, rule runs_access[OF g(1)], simp)
  assume "\<forall>a \<in> set [Acc_Create, Acc_Modify]. grants (gw_policy g) p a"
  then have gr: "grants pol p Acc_Create" "grants pol p Acc_Modify" using g(3) by simp_all
  let ?auth = "if parents then (\<lambda>g. (authorize_ancestors g (parent p), g)) else returnS ()"
  have auth: "wp ?auth (\<lambda>_ k. still env g k \<and> (parents \<longrightarrow> authorize_ancestors g (parent p) = Ok ()))
      (\<lambda>_ k. still env g k) g"
    using still_refl[OF g(1)] by (auto simp: wp_def split: sum.split)
  show "runs env (only_puts pol) (bindS ?auth (\<lambda>_.
     bindS (metadata_if_present env p) (\<lambda>found. case found of
       Some st \<Rightarrow> if exist_ok \<and> kind st = Directory then returnS () else gw_fail (AlreadyExists p)
     | None \<Rightarrow>
         if \<not> parents then gw_apply (mkdir (ge_vfs env) p m)
         else
           bindS (reserve_path env 0 p) (\<lambda>buf.
           bindS (missing_ancestors env buf [p] (parent p)) (\<lambda>missing.
             forS (rev missing) (\<lambda>d. gw_apply (mkdir (ge_vfs env) d m))))))) g"
  proof (rule runs_still[OF auth], simp)
    fix u k assume k: "gw_inv env k" "gw_policy k = gw_policy g"
      and anc: "parents \<longrightarrow> authorize_ancestors g (parent p) = Ok ()"
    have put: "runs env (only_puts pol) (gw_apply (mkdir (ge_vfs env) d m)) l"
      if "gw_inv env l" "gw_policy l = pol" "may_put pol d" for l d
      using wp_gw_mkdir_put[OF that(1)] that by auto
    have up: "runs env (only_puts pol) (bindS (reserve_path env 0 p) (\<lambda>buf.
           bindS (missing_ancestors env buf [p] (parent p)) (\<lambda>missing.
             forS (rev missing) (\<lambda>d. gw_apply (mkdir (ge_vfs env) d m))))) l"
      if l: "gw_inv env l" "gw_policy l = pol" and "parents" for l
    proof (rule runs_still'[OF wp_reserve_path[OF l(1)]], simp)
      fix buf h assume h: "gw_inv env h" "gw_policy h = gw_policy l"
      show "runs env (only_puts pol) (bindS (missing_ancestors env buf [p] (parent p)) (\<lambda>missing.
             forS (rev missing) (\<lambda>d. gw_apply (mkdir (ge_vfs env) d m)))) h"
      proof (rule runs_still[where R="only_puts pol"])
        show "wp (missing_ancestors env buf [p] (parent p)) (\<lambda>out k. still env h k \<and> (\<forall>p \<in> set out. may_put pol p))
          (\<lambda>_ k. still env h k) h"
          by (rule wp_missing_ancestors[OF h(1), of pol g])
             (use h l(2) g anc that gr may_put_parent[OF g(2)] in auto)
      next
        fix out j assume "gw_inv env j" "gw_policy j = gw_policy h" "\<forall>p \<in> set out. may_put pol p"
        then show "runs env (only_puts pol) (forS (rev out) (\<lambda>d. gw_apply (mkdir (ge_vfs env) d m))) j"
          using h l by (intro runs_forS put) auto
      qed simp
    qed
    show "runs env (only_puts pol) (bindS (metadata_if_present env p) (\<lambda>found. case found of
       Some st \<Rightarrow> if exist_ok \<and> kind st = Directory then returnS () else gw_fail (AlreadyExists p)
     | None \<Rightarrow>
         if \<not> parents then gw_apply (mkdir (ge_vfs env) p m)
         else
           bindS (reserve_path env 0 p) (\<lambda>buf.
           bindS (missing_ancestors env buf [p] (parent p)) (\<lambda>missing.
             forS (rev missing) (\<lambda>d. gw_apply (mkdir (ge_vfs env) d m)))))) k"
    proof (rule runs_still[OF wp_metadata_if_present[OF k(1) g(2)]], simp)
      fix found l assume l: "gw_inv env l" "gw_policy l = gw_policy k"
      then have pol: "gw_policy l = pol" using k g(3) by simp
      have "may_put pol p" using g(2) gr by simp
      then show "runs env (only_puts pol) (case found of
       Some st \<Rightarrow> if exist_ok \<and> kind st = Directory then returnS () else gw_fail (AlreadyExists p)
     | None \<Rightarrow>
         if \<not> parents then gw_apply (mkdir (ge_vfs env) p m)
         else
           bindS (reserve_path env 0 p) (\<lambda>buf.
           bindS (missing_ancestors env buf [p] (parent p)) (\<lambda>missing.
             forS (rev missing) (\<lambda>d. gw_apply (mkdir (ge_vfs env) d m))))) l"
        using put[OF l(1) pol] up[OF l(1) pol]
        by (cases found) (auto intro: runs_end(1)[OF l(1)] runs_end(3)[OF l(1)])
    qed
  qed
qed

section \<open>Copies\<close>

abbreviation entry_may_put :: "call_policy \<Rightarrow> copy_entry \<Rightarrow> bool" where
  "entry_may_put pol e \<equiv> vpath_ok (copy_destination e) \<and> grants pol (copy_destination e) Acc_Create \<and>
     grants pol (copy_destination e) Acc_Modify"

lemma wp_still_bind:
  assumes "wp m (\<lambda>x k. still env g k \<and> P x) (\<lambda>_ k. still env g k) g"
    and "\<And>x k. still env g k \<Longrightarrow> gw_inv env k \<Longrightarrow> gw_policy k = gw_policy g \<Longrightarrow> files_of k = files_of g \<Longrightarrow> P x \<Longrightarrow>
      wp (f x) (\<lambda>y h. still env k h \<and> Q y) (\<lambda>_ h. still env k h) k"
  shows "wp (bindS m f) (\<lambda>y h. still env g h \<and> Q y) (\<lambda>_ h. still env g h) g"
  unfolding wp_bindS
proof (rule wp_use[OF assms(1)]; intro allI impI; (elim conjE)?)
  fix x k assume k: "still env g k" "P x"
  have k': "gw_inv env k" "gw_policy k = gw_policy g" "files_of k = files_of g" using k(1) by (simp_all add: still_def)
  show "wp (f x) (\<lambda>y h. still env g h \<and> Q y) (\<lambda>_ h. still env g h) k"
    by (rule wp_mono[OF assms(2)[OF k(1) k' k(2)]]) (auto intro: still_trans[OF k(1)])
qed simp

lemma wp_still_access:
  assumes "gw_inv env g"
    and "\<forall>a \<in> set as. grants (gw_policy g) p a \<Longrightarrow> wp (f ()) (\<lambda>y h. still env g h \<and> Q y) (\<lambda>_ h. still env g h) g"
  shows "wp (bindS (require_access p as) f) (\<lambda>y h. still env g h \<and> Q y) (\<lambda>_ h. still env g h) g"
  unfolding wp_bindS
  by (rule wp_use[OF wp_require_access[OF assms(1)]]) (use assms(2) still_refl[OF assms(1)] in \<open>auto simp: grants_def\<close>)

lemma wp_copy_child:
  assumes g: "gw_inv env g" "gw_policy g = pol" and ok: "vpath_ok c" "vpath_ok b"
  shows "wp (copy_child env a b buf c)
    (\<lambda>x h. still env g h \<and> (case x of (buf', e, push) \<Rightarrow> entry_may_put pol e)) (\<lambda>_ h. still env g h) g"
proof -
  have tail: "wp (case kind st of
       Directory \<Rightarrow> bindS (reserve_path env buf' c) (\<lambda>buf''. returnS (buf'', CopyDirectory t (mode st), True))
     | File \<Rightarrow>
         bindS (require_access c [Acc_ContentRead]) (\<lambda>_.
         bindS (gw_charge (charge_read (nsize st))) (\<lambda>_.
         bindS (gw_apply (read (ge_vfs env) c)) (\<lambda>b.
         bindS (gw_charge (charge_write (len64 b))) (\<lambda>_. returnS (buf', CopyFile t b, False)))))
     | Symlink \<Rightarrow> gw_invalid r (Some c))
    (\<lambda>x h. still env k h \<and> (case x of (buf', e, push) \<Rightarrow> entry_may_put pol e)) (\<lambda>_ h. still env k h) k"
    if k: "gw_inv env k" and t: "vpath_ok t" "grants pol t Acc_Create" "grants pol t Acc_Modify" for st buf' t r k
  proof (cases "kind st")
    case Directory
    have "wp (reserve_path env buf' c) (\<lambda>_ h. still env k h \<and> True) (\<lambda>_ h. still env k h) k"
      using wp_reserve_path[OF k] by simp
    then show ?thesis unfolding Directory node_kind.case
      by (rule wp_still_bind) (use t still_refl in \<open>auto simp: wp_simps\<close>)
  next
    case File
    have charge: "wp (gw_charge m) (\<lambda>_ h. still env l h \<and> True) (\<lambda>_ h. still env l h) l"
      and content: "wp (gw_apply (read (ge_vfs env) c)) (\<lambda>_ h. still env l h \<and> True) (\<lambda>_ h. still env l h) l"
      if "gw_inv env l" for l m
      using wp_gw_charge[OF that] wp_gw_content(1)[OF that ok(1)] by simp_all
    show ?thesis unfolding File node_kind.case
      by (intro wp_still_access[OF k] wp_still_bind[OF charge] wp_still_bind[OF content]; assumption?)
         (use t still_refl k in \<open>auto simp: wp_simps\<close>)
  next
    case Symlink
    then show ?thesis using still_refl[OF k] by (simp add: gw_invalid_def wp_simps)
  qed
  show ?thesis
    unfolding copy_child_def
  proof (rule wp_still_access[OF g(1)], rule wp_still_bind[OF wp_gw_metadata[OF g(1) ok(1)]])
    fix st k assume k: "gw_inv env k" "gw_policy k = gw_policy g"
    have res: "wp (reserve_buffer sz buf n) (\<lambda>_ h. still env k h \<and> True) (\<lambda>_ h. still env k h) k" for sz n
      using wp_reserve_buffer[OF k(1)] by simp
    show "wp (bindS (reserve_buffer (sz_copy env) buf
       (min (length (as_str c) + length (as_str b) + 1) (2 ^ 64 - 1))) (\<lambda>buf.
     bindS (liftS (rebase_target c a b)) (\<lambda>target.
     bindS (require_access target [Acc_Create, Acc_Modify]) (\<lambda>_.
     case kind st of
       Directory \<Rightarrow> bindS (reserve_path env buf c) (\<lambda>buf. returnS (buf, CopyDirectory target (mode st), True))
     | File \<Rightarrow>
         bindS (require_access c [Acc_ContentRead]) (\<lambda>_.
         bindS (gw_charge (charge_read (nsize st))) (\<lambda>_.
         bindS (gw_apply (read (ge_vfs env) c)) (\<lambda>b.
         bindS (gw_charge (charge_write (len64 b))) (\<lambda>_. returnS (buf, CopyFile target b, False)))))
     | Symlink \<Rightarrow> gw_invalid ''does not copy symbolic link'' (Some c)))))
      (\<lambda>x h. still env k h \<and> (case x of (buf', e, push) \<Rightarrow> entry_may_put pol e)) (\<lambda>_ h. still env k h) k"
    proof (rule wp_still_bind[OF res])
      fix buf' l assume l: "gw_inv env l" "gw_policy l = gw_policy k"
      have lift: "wp (liftS (rebase_target c a b)) (\<lambda>t h. still env l h \<and> vpath_ok t) (\<lambda>_ h. still env l h) l"
        using still_refl[OF l(1)] rebase_ok[OF ok(2)]
        by (auto simp: wp_simps rebase_target_def bindR_Inr_iff split: sum.split)
      show "wp (bindS (liftS (rebase_target c a b)) (\<lambda>target.
     bindS (require_access target [Acc_Create, Acc_Modify]) (\<lambda>_.
     case kind st of
       Directory \<Rightarrow> bindS (reserve_path env buf' c) (\<lambda>buf. returnS (buf, CopyDirectory target (mode st), True))
     | File \<Rightarrow>
         bindS (require_access c [Acc_ContentRead]) (\<lambda>_.
         bindS (gw_charge (charge_read (nsize st))) (\<lambda>_.
         bindS (gw_apply (read (ge_vfs env) c)) (\<lambda>b.
         bindS (gw_charge (charge_write (len64 b))) (\<lambda>_. returnS (buf', CopyFile target b, False)))))
     | Symlink \<Rightarrow> gw_invalid ''does not copy symbolic link'' (Some c))))
      (\<lambda>x h. still env l h \<and> (case x of (buf', e, push) \<Rightarrow> entry_may_put pol e)) (\<lambda>_ h. still env l h) l"
      proof (rule wp_still_bind[OF lift], rule wp_still_access, assumption)
        fix t j assume j: "gw_inv env j" "gw_policy j = gw_policy l" and t: "vpath_ok t"
          and acc: "\<forall>x \<in> set [Acc_Create, Acc_Modify]. grants (gw_policy j) t x"
        have "grants pol t Acc_Create" "grants pol t Acc_Modify" using acc j l k g(2) by simp_all
        from tail[OF j(1) t this] show "wp (case kind st of
       Directory \<Rightarrow> bindS (reserve_path env buf' c) (\<lambda>buf. returnS (buf, CopyDirectory t (mode st), True))
     | File \<Rightarrow>
         bindS (require_access c [Acc_ContentRead]) (\<lambda>_.
         bindS (gw_charge (charge_read (nsize st))) (\<lambda>_.
         bindS (gw_apply (read (ge_vfs env) c)) (\<lambda>b.
         bindS (gw_charge (charge_write (len64 b))) (\<lambda>_. returnS (buf', CopyFile t b, False)))))
     | Symlink \<Rightarrow> gw_invalid ''does not copy symbolic link'' (Some c))
      (\<lambda>x h. still env j h \<and> (case x of (buf', e, push) \<Rightarrow> entry_may_put pol e)) (\<lambda>_ h. still env j h) j" .
      qed
    qed
  qed
qed

lemma wp_copy_children:
  assumes "gw_inv env g" "gw_policy g = pol" "\<forall>c \<in> set cs. vpath_ok c" "vpath_ok b"
    and "\<forall>d \<in> set pending. vpath_ok d" "\<forall>e \<in> set entries. entry_may_put pol e"
  shows "wp (copy_children env a b buf pending entries cs)
    (\<lambda>x h. still env g h \<and> (case x of (buf', pending', entries') \<Rightarrow>
      (\<forall>d \<in> set pending'. vpath_ok d) \<and> (\<forall>e \<in> set entries'. entry_may_put pol e))) (\<lambda>_ h. still env g h) g"
  using assms
proof (induction cs arbitrary: g buf pending entries)
  case Nil
  then show ?case using still_refl by (simp add: wp_simps)
next
  case (Cons c cs)
  have ok: "vpath_ok c" "\<forall>c \<in> set cs. vpath_ok c" using Cons.prems(3) by simp_all
  show ?case
    unfolding copy_children.simps
  proof (rule wp_still_bind[OF wp_copy_child[OF Cons.prems(1,2) ok(1) Cons.prems(4)]])
    fix x :: "evidence_buffer \<times> copy_entry \<times> bool" and k
    assume k: "gw_inv env k" "gw_policy k = gw_policy g"
      and x: "case x of (buf', e, push) \<Rightarrow> entry_may_put pol e"
    obtain buf1 e1 push1 where e: "x = (buf1, e1, push1)" by (cases x)
    show "wp (case x of (buf', e, push) \<Rightarrow> copy_children env a b buf' (if push then pending @ [c] else pending) (entries @ [e]) cs)
      (\<lambda>y h. still env k h \<and> (case y of (buf', pending', entries') \<Rightarrow>
      (\<forall>d \<in> set pending'. vpath_ok d) \<and> (\<forall>e \<in> set entries'. entry_may_put pol e))) (\<lambda>_ h. still env k h) k"
      unfolding e prod.case
      by (rule Cons.IH[OF k(1) _ ok(2) Cons.prems(4)]) (use k Cons.prems ok x e in auto)
  qed
qed

lemma wp_copy_directories:
  assumes "gw_inv env g" "gw_policy g = pol" "vpath_ok b"
    and "\<forall>d \<in> set pending. vpath_ok d" "\<forall>e \<in> set entries. entry_may_put pol e"
  shows "wp (copy_directories env a b buf pending entries)
    (\<lambda>out h. still env g h \<and> (\<forall>e \<in> set out. entry_may_put pol e)) (\<lambda>_ h. still env g h) g"
  using assms
proof (induction env a b buf pending entries g rule: copy_directories.induct)
  case (1 env a b buf pending entries g)
  show ?case
  proof (cases "pending = []")
    case True
    then show ?thesis using still_refl[OF 1(2)] 1(6) by (simp add: wp_def) (subst copy_directories.simps, simp)+
  next
    case False
    have d: "vpath_ok (last pending)" "\<forall>d \<in> set (butlast pending). vpath_ok d"
      using 1(5) False by (auto dest: in_set_butlastD)
    let ?out = "\<lambda>x. case x of (buf', pending', entries') \<Rightarrow>
      (\<forall>d \<in> set pending'. vpath_ok d) \<and> (\<forall>e \<in> set entries'. entry_may_put pol e)"
    have dir: "wp (copy_directory env a b buf (butlast pending) entries (last pending))
        (\<lambda>x h. still env g h \<and> ?out x) (\<lambda>_ h. still env g h) g"
      unfolding copy_directory_def
    proof (rule wp_still_access[OF 1(2)], rule wp_still_bind[OF wp_list_children[OF 1(2) d(1)]], elim conjE)
      fix cs k assume k: "gw_inv env k" "gw_policy k = gw_policy g" "files_of k = files_of g"
        and cs: "set cs = {c. files_of g c \<noteq> None \<and> c \<noteq> root \<and> parent_of c = last pending}"
      have "tree (files_of g)" using 1(2) vfs_inv_tree by (simp add: gw_inv_def)
      then have "\<forall>c \<in> set cs. vpath_ok c" using cs by (auto simp: tree_def)
      then show "wp (copy_children env a b buf (butlast pending) entries cs)
          (\<lambda>x h. still env k h \<and> ?out x) (\<lambda>_ h. still env k h) k"
        by (intro wp_copy_children) (use k 1 d in auto)
    qed
    obtain r k where rk: "copy_directory env a b buf (butlast pending) entries (last pending) g = (r, k)" by fastforce
    show ?thesis
    proof (cases r)
      case (Inl e)
      then show ?thesis using dir rk False by (simp add: wp_def) (subst copy_directories.simps, simp)
    next
      case (Inr x)
      obtain buf' pending' entries' where x: "x = (buf', pending', entries')" by (cases x)
      have k: "still env g k" and out: "\<forall>d \<in> set pending'. vpath_ok d" "\<forall>e \<in> set entries'. entry_may_put pol e"
        using dir rk Inr x by (simp_all add: wp_def)
      have k': "gw_inv env k" "gw_policy k = pol" using k 1(3) by (simp_all add: still_def)
      have "wp (copy_directories env a b buf pending entries) Q E g = wp (copy_directories env a b buf' pending' entries') Q E k" for Q E
        using False rk Inr x by (simp add: wp_def) (subst copy_directories.simps, simp)
      moreover have "wp (copy_directories env a b buf' pending' entries')
          (\<lambda>out h. still env k h \<and> (\<forall>e \<in> set out. entry_may_put pol e)) (\<lambda>_ h. still env k h) k"
        by (rule 1(1)[OF False rk[symmetric] Inr x[symmetric] refl k' 1(4) out])
      ultimately show ?thesis by (auto elim!: wp_mono intro: still_trans[OF k])
    qed
  qed
qed

lemma runs_create_entry:
  assumes "gw_inv env k" "gw_policy k = pol" "entry_may_put pol e"
  shows "runs env (only_puts pol) (create_entry env e) k"
  using wp_gw_mkdir_put[OF assms(1)] wp_gw_write_file[OF assms(1)] assms
  by (cases e) (auto simp: create_entry_def)

lemma runs_copy_file:
  assumes g: "gw_inv env g" "vpath_ok a" "vpath_ok b" "gw_policy g = pol"
    and gr: "grants pol b Acc_Create" "grants pol b Acc_Modify"
  shows "runs env (lawful pol) (copy_file env a b st overwrite) g"
  unfolding copy_file_def
proof (rule runs_still[OF wp_metadata_if_present[OF g(1,3)]], simp)
  fix found k assume k: "gw_inv env k" "gw_policy k = gw_policy g"
  have found: "wp (case found of
         None \<Rightarrow> returnS ()
       | Some dst \<Rightarrow>
           if \<not> overwrite then gw_fail (AlreadyExists b)
           else if kind dst = Directory then gw_fail (IsDirectory b)
           else returnS ()) (\<lambda>_ h. still env k h) (\<lambda>_ h. still env k h) k"
    using still_refl[OF k(1)] by (auto simp: wp_simps gw_fail_def split: option.split)
  show "runs env (lawful pol) (bindS (case found of
         None \<Rightarrow> returnS ()
       | Some dst \<Rightarrow>
           if \<not> overwrite then gw_fail (AlreadyExists b)
           else if kind dst = Directory then gw_fail (IsDirectory b)
           else returnS ()) (\<lambda>_.
     bindS (require_access a [Acc_ContentRead]) (\<lambda>_.
     bindS (gw_charge (charge_read (nsize st))) (\<lambda>_.
     bindS (gw_apply (read (ge_vfs env) a)) (\<lambda>x.
     bindS (gw_charge (charge_write (len64 x))) (\<lambda>_.
       gw_apply (write_file (ge_vfs env) b x))))))) k"
    by (intro runs_still'[OF found] runs_access runs_charge runs_still'[OF wp_gw_content(1)] runs_put_file(1))
       (use g gr k in auto)
qed

lemma runs_copy_tree:
  assumes g: "gw_inv env g" "vpath_ok a" "vpath_ok b" "gw_policy g = pol"
    and gr: "grants pol b Acc_Create" "grants pol b Acc_Modify"
  shows "runs env (lawful pol) (copy_tree env a b st overwrite) g"
  unfolding copy_tree_def
proof (rule runs_still[OF wp_metadata_if_present[OF g(1,3)]], simp)
  fix found k assume k: "gw_inv env k" "gw_policy k = gw_policy g"
  have found: "wp (case found of
         None \<Rightarrow> returnS ()
       | Some _ \<Rightarrow>
           if \<not> overwrite then gw_fail (AlreadyExists b)
           else gw_invalid r None) (\<lambda>_ h. still env k h) (\<lambda>_ h. still env k h) k" for r
    using still_refl[OF k(1)] by (auto simp: wp_simps gw_fail_def gw_invalid_def split: option.split)
  show "runs env (lawful pol) (bindS (case found of
         None \<Rightarrow> returnS ()
       | Some _ \<Rightarrow>
           if \<not> overwrite then gw_fail (AlreadyExists b)
           else gw_invalid ''cannot merge or overwrite a directory tree'' None) (\<lambda>_.
     bindS (reserve_buffer (sz_copy env) 0 (length (as_str b))) (\<lambda>buf.
     bindS (reserve_path env buf a) (\<lambda>buf.
     bindS (copy_directories env a b buf [a] [CopyDirectory b (mode st)]) (\<lambda>entries.
       forS (sort_key entry_depth entries) (create_entry env)))))) k"
  proof (intro runs_still'[OF found] runs_still'[OF wp_reserve_buffer] runs_still'[OF wp_reserve_path], simp_all)
    fix buf l assume l: "gw_inv env l" "gw_policy l = gw_policy k"
    then have pol: "gw_policy l = pol" using k g(4) by simp
    show "runs env (lawful pol) (bindS (copy_directories env a b buf [a] [CopyDirectory b (mode st)]) (\<lambda>entries.
       forS (sort_key entry_depth entries) (create_entry env))) l"
    proof (rule runs_still[OF wp_copy_directories[OF l(1) pol g(3)]])
      fix entries j assume j: "gw_inv env j" "gw_policy j = gw_policy l" "\<forall>e \<in> set entries. entry_may_put pol e"
      show "runs env (lawful pol) (forS (sort_key entry_depth entries) (create_entry env)) j"
        by (rule runs_puts, rule runs_forS) (use j pol runs_create_entry in auto)
    qed (use g gr in auto)
  qed
qed

lemma runs_gw_copy:
  assumes g: "gw_inv env g" "vpath_ok a" "vpath_ok b" "gw_policy g = pol"
  shows "runs env (lawful pol) (gw_copy env a b recursive overwrite) g"
  unfolding gw_copy_def
proof (rule runs_access[OF g(1)], simp, rule runs_access[OF g(1)], simp)
  assume "\<forall>x \<in> set [Acc_Create, Acc_Modify]. grants (gw_policy g) b x"
  then have gr: "grants pol b Acc_Create" "grants pol b Acc_Modify" using g(4) by simp_all
  have tail: "runs env (lawful pol) (bindS (gw_apply (metadata (ge_vfs env) par)) (\<lambda>st.
         if kind st \<noteq> Directory then gw_fail (NotDirectory par (kind st))
         else
         bindS (gw_apply (metadata (ge_vfs env) a)) (\<lambda>st.
         case kind st of
           File \<Rightarrow> copy_file env a b st overwrite
         | Directory \<Rightarrow>
             if recursive then copy_tree env a b st overwrite
             else gw_invalid r1 None
         | Symlink \<Rightarrow> gw_invalid r2 None))) g" if "vpath_ok par" for par r1 r2
  proof (rule runs_still[OF wp_gw_metadata[OF g(1) that]], simp)
    fix st k assume k: "gw_inv env k" "gw_policy k = gw_policy g"
    then have pol: "gw_policy k = pol" using g(4) by simp
    have "runs env (lawful pol) (bindS (gw_apply (metadata (ge_vfs env) a)) (\<lambda>st.
         case kind st of
           File \<Rightarrow> copy_file env a b st overwrite
         | Directory \<Rightarrow>
             if recursive then copy_tree env a b st overwrite
             else gw_invalid r1 None
         | Symlink \<Rightarrow> gw_invalid r2 None)) k"
    proof (rule runs_still[OF wp_gw_metadata[OF k(1) g(2)]], simp)
      fix st l assume l: "gw_inv env l" "gw_policy l = gw_policy k"
      then have "gw_policy l = pol" using pol by simp
      then show "runs env (lawful pol) (case kind st of
           File \<Rightarrow> copy_file env a b st overwrite
         | Directory \<Rightarrow>
             if recursive then copy_tree env a b st overwrite
             else gw_invalid r1 None
         | Symlink \<Rightarrow> gw_invalid r2 None) l"
        using runs_copy_file[OF l(1) g(2,3) _ gr] runs_copy_tree[OF l(1) g(2,3) _ gr]
        by (cases "kind st") (auto intro: runs_end(4)[OF l(1)])
    qed
    then show "runs env (lawful pol) (if kind st \<noteq> Directory then gw_fail (NotDirectory par (kind st))
         else
         bindS (gw_apply (metadata (ge_vfs env) a)) (\<lambda>st.
         case kind st of
           File \<Rightarrow> copy_file env a b st overwrite
         | Directory \<Rightarrow>
             if recursive then copy_tree env a b st overwrite
             else gw_invalid r1 None
         | Symlink \<Rightarrow> gw_invalid r2 None)) k"
      by (auto intro: runs_end(3)[OF k(1)])
  qed
  show "runs env (lawful pol) (if is_within b a
     then gw_invalid ''destination cannot be inside its source'' None
     else case parent b of
       None \<Rightarrow> gw_fail RootMutation
     | Some par \<Rightarrow>
         bindS (gw_apply (metadata (ge_vfs env) par)) (\<lambda>st.
         if kind st \<noteq> Directory then gw_fail (NotDirectory par (kind st))
         else
         bindS (gw_apply (metadata (ge_vfs env) a)) (\<lambda>st.
         case kind st of
           File \<Rightarrow> copy_file env a b st overwrite
         | Directory \<Rightarrow>
             if recursive then copy_tree env a b st overwrite
             else gw_invalid ''source is a directory; pass recursive=True'' None
         | Symlink \<Rightarrow> gw_invalid ''does not copy symbolic links'' None))) g"
    using tail parent_ok[OF g(3)]
    by (auto intro: runs_end(3,4)[OF g(1)] split: option.split)
qed

section \<open>Walks\<close>

lemma still_observed_read:
  assumes "gw_inv env g" "vpath_ok p" shows "still env g (snd (observed_read env p st g))"
proof -
  have "wp (observed_read env p st) (\<lambda>_ h. still env g h \<and> True) (\<lambda>_ h. still env g h) g"
  proof (cases "kind st = File")
    case True
    have charge: "wp (gw_charge m) (\<lambda>_ h. still env l h \<and> True) (\<lambda>_ h. still env l h) l" if "gw_inv env l" for l m
      using wp_gw_charge[OF that] by simp
    have read: "wp (gw_apply (read (ge_vfs env) p)) (\<lambda>_ h. still env l h \<and> True) (\<lambda>_ h. still env l h) l"
      if "gw_inv env l" for l using wp_gw_content(1)[OF that assms(2)] by simp
    have "wp (bindS (require_access p [Acc_ContentRead]) (\<lambda>_. bindS (gw_charge (charge_read (nsize st)))
        (\<lambda>_. gw_apply (read (ge_vfs env) p)))) (\<lambda>_ h. still env g h \<and> True) (\<lambda>_ h. still env g h) g"
      by (rule wp_still_access[OF assms(1)], rule wp_still_bind[OF charge[OF assms(1)]], rule read)
    then show ?thesis using True by (simp add: observed_read_def)
  qed (use still_refl[OF assms(1)] in \<open>simp add: observed_read_def gw_fail_def wp_simps\<close>)
  then show ?thesis by (auto simp: wp_def split: prod.splits sum.splits)
qed

lemma still_run_visit:
  assumes "gw_inv env g" "vpath_ok p" shows "still env g (snd (run_visit env p st x g))"
  using assms(1)
proof (induction x arbitrary: g)
  case (VisitDone r)
  then show ?case using still_refl by simp
next
  case (VisitRead k)
  obtain y h where y: "observed_read env p st g = (y, h)" by fastforce
  then have h: "still env g h" using still_observed_read[OF VisitRead(2) assms(2), of st] by simp
  have "still env h (snd (run_visit env p st (k y) h))" by (rule VisitRead(1)[OF rangeI still_inv[OF h]])
  then show ?case using y still_trans[OF h] by simp
qed

lemma wp_reserve_paths:
  "gw_inv env g \<Longrightarrow> wp (reserve_paths env buf cs) (\<lambda>_ h. still env g h \<and> True) (\<lambda>_ h. still env g h) g"
proof (induction cs arbitrary: buf g)
  case (Cons c cs)
  have "wp (reserve_path env buf c) (\<lambda>_ h. still env g h \<and> True) (\<lambda>_ h. still env g h) g"
    using wp_reserve_path[OF Cons(2)] by simp
  then show ?case unfolding reserve_paths.simps by (rule wp_still_bind) (use Cons(1) in auto)
qed (simp add: wp_simps still_refl)

lemma wp_walk_children:
  assumes "gw_inv env g" "vpath_ok d"
  shows "wp (walk_children env buf d) (\<lambda>x h. still env g h \<and> (\<forall>c \<in> set (snd x). vpath_ok c)) (\<lambda>_ h. still env g h) g"
  unfolding walk_children_def
proof (rule wp_still_bind[OF wp_list_children[OF assms]], elim conjE)
  fix cs k assume k: "gw_inv env k"
    and cs: "set cs = {c. files_of g c \<noteq> None \<and> c \<noteq> root \<and> parent_of c = d}"
  have "tree (files_of g)" using assms(1) vfs_inv_tree by (simp add: gw_inv_def)
  then have "\<forall>c \<in> set cs. vpath_ok c" using cs by (auto simp: tree_def)
  then show "wp (bindS (reserve_paths env buf cs) (\<lambda>buf'. returnS (buf', rev cs)))
      (\<lambda>x h. still env k h \<and> (\<forall>c \<in> set (snd x). vpath_ok c)) (\<lambda>_ h. still env k h) k"
    by (intro wp_still_bind[OF wp_reserve_paths[OF k]]) (simp add: wp_simps still_refl)
qed

lemma still_walk_node:
  assumes "gw_inv env g" "vpath_ok p" "walk_node env into visit v buf p g = ((v', r), h)"
  shows "still env g h \<and> (\<forall>buf' cs. r = Inr (Some (buf', cs)) \<longrightarrow> (\<forall>c \<in> set cs. vpath_ok c))"
proof (cases "gw_authorize p [Acc_MetadataRead] g")
  case (Inl e)
  then show ?thesis using assms(3) still_refl[OF assms(1)] by (auto simp: walk_node_def split: gateway_error.splits)
next
  case (Inr u)
  obtain x k where xk: "gw_apply (metadata (ge_vfs env) p) g = (x, k)" by fastforce
  then have k: "still env g k" using wp_gw_metadata[OF assms(1,2)] by (auto simp: wp_def split: sum.splits)
  show ?thesis
  proof (cases x)
    case (Inl e)
    then show ?thesis using assms(3) Inr xk k by (auto simp: walk_node_def)
  next
    case ok: (Inr st)
    obtain w c l where l: "run_visit env p st (visit v p st) k = ((w, c), l)" by (metis prod.exhaust)
    then have kl: "still env k l" using still_run_visit[OF still_inv[OF k] assms(2), of st "visit v p st"] by simp
    then have gl: "still env g l" using still_trans[OF k] by blast
    obtain y j where yj: "walk_children env buf p l = (y, j)" by fastforce
    then have j: "still env g j" "\<And>z. y = Inr z \<Longrightarrow> \<forall>c \<in> set (snd z). vpath_ok c"
      using wp_walk_children[OF still_inv[OF gl] assms(2), of buf] still_trans[OF gl]
      by (auto simp: wp_def split: sum.splits)
    show ?thesis
      using assms(3) Inr xk ok l gl yj j
      by (auto simp: walk_node_def split: sum.splits if_splits)
  qed
qed

lemma still_walk_pending:
  "gw_inv env g \<Longrightarrow> \<forall>p \<in> set pending. vpath_ok p \<Longrightarrow> still env g (snd (walk_pending env into visit v buf pending g))"
proof (induction env into visit v buf pending g rule: walk_pending.induct)
  case (1 env into visit v buf pending g)
  show ?case
  proof (cases "pending = []")
    case True
    then show ?thesis using still_refl[OF 1(2)] by (subst walk_pending.simps) simp
  next
    case False
    obtain v' r h where h: "walk_node env into visit v buf (last pending) g = ((v', r), h)" by (metis prod.exhaust)
    have node: "still env g h" "\<And>buf' cs. r = Inr (Some (buf', cs)) \<Longrightarrow> \<forall>c \<in> set cs. vpath_ok c"
      using still_walk_node[OF 1(2) _ h] 1(3) False by auto
    show ?thesis
    proof (cases "\<exists>buf' cs. r = Inr (Some (buf', cs))")
      case True
      then obtain buf' cs where r: "r = Inr (Some (buf', cs))" by blast
      have "\<forall>p \<in> set (butlast pending @ cs). vpath_ok p" using node(2)[OF r] 1(3) by (auto dest: in_set_butlastD)
      then have "still env h (snd (walk_pending env into visit v' buf' (butlast pending @ cs) h))"
        using 1(1)[OF False h[symmetric] refl r refl refl still_inv[OF node(1)]] by blast
      then show ?thesis
        using h r False still_trans[OF node(1)] by (subst walk_pending.simps) simp
    next
      case no: False
      then show ?thesis using h False node(1)
        by (subst walk_pending.simps) (auto split: sum.split option.split)
    qed
  qed
qed

lemma still_walk_visible:
  assumes "gw_inv env g" "vpath_ok p" shows "still env g (snd (walk_visible env into visit v p g))"
proof -
  let ?m = "bindS (gw_metadata env p) (\<lambda>st.
        if kind st \<noteq> Directory then gw_fail (NotDirectory p (kind st))
        else bindS (require_access p [Acc_DirectoryRead]) (\<lambda>_. walk_children env 0 p))"
  have "wp ?m (\<lambda>x h. still env g h \<and> (\<forall>c \<in> set (snd x). vpath_ok c)) (\<lambda>_ h. still env g h) g"
  proof (rule wp_still_bind)
    show "wp (gw_metadata env p) (\<lambda>_ h. still env g h \<and> True) (\<lambda>_ h. still env g h) g"
      unfolding gw_metadata_def
      by (rule wp_still_access[OF assms(1)], rule wp_mono[OF wp_gw_metadata[OF assms]]) auto
  next
    fix st k assume k: "gw_inv env k"
    show "wp (if kind st \<noteq> Directory then gw_fail (NotDirectory p (kind st))
        else bindS (require_access p [Acc_DirectoryRead]) (\<lambda>_. walk_children env 0 p))
      (\<lambda>x h. still env k h \<and> (\<forall>c \<in> set (snd x). vpath_ok c)) (\<lambda>_ h. still env k h) k"
      using still_refl[OF k] wp_walk_children[OF k assms(2)]
      by (auto simp: gw_fail_def wp_simps(2) intro: wp_still_access[OF k])
  qed
  moreover have "still env g (snd (walk_pending env into visit v buf pending h))"
    if "still env g h" "\<forall>c \<in> set pending. vpath_ok c" for buf pending h
    using still_trans[OF that(1) still_walk_pending[OF still_inv[OF that(1)] that(2)]] .
  ultimately show ?thesis
    by (auto simp: walk_visible_def wp_def split: prod.splits sum.splits)
qed

section \<open>All requests\<close>

lemma ignore_runs: "runs env R m g \<Longrightarrow> runs env R (ignore m) g"
  by (simp add: ignore_def wp_simps)

lemma runs_walk:
  assumes "gw_inv env g" "vpath_ok p" shows "runs env (lawful pol) (gw_exec env (GWalk p f)) g"
proof -
  have "still env g (snd (walk_visible env (\<lambda>e. e) (\<lambda>_. f) () p g))" by (rule still_walk_visible[OF assms])
  then show ?thesis by (auto simp: wp_def intro: still_moves split: prod.split sum.split)
qed

lemma runs_gw_exec:
  assumes g: "gw_inv env g" "\<forall>p \<in> set (gw_paths c). vpath_ok p"
  shows "runs env (lawful (gw_policy g)) (gw_exec env c) g"
proof (cases c)
  case (GWalk p f)
  then show ?thesis using runs_walk[OF g(1)] g(2) by (simp del: gw_exec.simps)
qed (use g in \<open>auto intro!: ignore_runs runs_gw_metadata runs_gw_read runs_gw_read_dir runs_gw_write
    runs_gw_append runs_gw_mkdir runs_gw_mkdir_options runs_gw_set_mode runs_gw_unlink runs_gw_rmdir
    runs_gw_remove runs_gw_remove_tree runs_gw_rename runs_prepare_open runs_gw_copy\<close>)

end
