(* ===== verification/GatewayLedger.thy ===== *)
theory GatewayLedger
  imports GatewaySafe
begin

text \<open>
  The ledger of a request: what a request spends stays within the limits, the policy and the origin
  of a gateway are fixed, and a request whose first accesses are denied does not reach the
  filesystem.
\<close>

section \<open>Spending\<close>

definition ledger :: "fs_gateway \<Rightarrow> fs_gateway \<Rightarrow> bool" where
  "ledger g h \<longleftrightarrow> spends (gw_budget g) (gw_budget h) \<and> gw_policy h = gw_policy g \<and> gw_origin h = gw_origin g"

lemma ledger_refl [simp]: "ledger g g"
  by (simp add: ledger_def)

lemma ledger_trans: "ledger a b \<Longrightarrow> ledger b c \<Longrightarrow> ledger a c"
  by (auto simp: ledger_def intro: spends_trans)

definition thrifty :: "'a gw_op \<Rightarrow> bool" where
  "thrifty m \<longleftrightarrow> rel_kept ledger m"

lemma thriftyD: "thrifty m \<Longrightarrow> m g = (r, h) \<Longrightarrow> ledger g h"
  unfolding thrifty_def rel_kept_def by (metis snd_conv)

named_theorems thrifty_intros

lemma thrifty_bindS [thrifty_intros]:
  "thrifty m \<Longrightarrow> (\<And>x. thrifty (f x)) \<Longrightarrow> thrifty (bindS m f)"
  unfolding thrifty_def by (rule rel_kept_bindS) (auto intro: ledger_trans)

lemma thrifty_basic [thrifty_intros]:
  "thrifty (returnS x)" "thrifty (failS e)" "thrifty (gw_fail f)" "thrifty (gw_invalid r p)"
  "thrifty (liftS y)" "thrifty (require_access q as)" "thrifty (gw_apply m)" "thrifty (getS sel)"
  "thrifty (reserve_buffer sz buf k)" "thrifty (reserve_path env buf q)" "thrifty (\<lambda>g. (check g, g))"
  "thrifty (gw_charge (charge_read n))" "thrifty (gw_charge (charge_write n))"
  "thrifty (gw_charge (charge_directory_entries n))"
  by (simp_all add: thrifty_def rel_kept_def gw_fail_def gw_invalid_def require_access_def ledger_def gw_apply_def
      reserve_path_def reserve_buffer_def Let_def gw_charge_def charges_spend getS_def split: prod.split)
     (metis charges_spend snd_conv)+

lemma thrifty_metadata_if_present [thrifty_intros]: "thrifty (metadata_if_present env p)"
  using thriftyD[OF thrifty_basic(7)]
  by (auto simp: thrifty_def rel_kept_def metadata_if_present_def split: prod.splits sum.splits)

lemma thrifty_list_children [thrifty_intros]: "thrifty (list_authorized_children env p)"
proof -
  have tail: "ledger g (snd (bindS (gw_charge (charge_directory_entries n)) (\<lambda>_. returnS cs) h))"
    if "ledger g h" for g h n and cs :: "vpath list"
  proof -
    have "thrifty (bindS (gw_charge (charge_directory_entries n)) (\<lambda>_. returnS cs))" by (intro thrifty_intros)
    then show ?thesis using that ledger_trans by (auto simp: thrifty_def rel_kept_def)
  qed
  show ?thesis
    using thriftyD[OF thrifty_basic(7)] tail
    by (auto simp: thrifty_def rel_kept_def list_authorized_children_def Let_def
        split: prod.splits sum.splits gateway_error.split vfs_error.split)
qed

lemma thrifty_forS [thrifty_intros]: "(\<And>x. thrifty (f x)) \<Longrightarrow> thrifty (forS xs f)"
  by (induction xs) (auto intro!: thrifty_intros)

lemma thrifty_missing_ancestors [thrifty_intros]: "thrifty (missing_ancestors env buf missing c)"
proof -
  have "ledger g (snd (missing_ancestors env buf missing c g))" for g
  proof (induction env buf missing c g rule: missing_ancestors.induct)
    case (2 env buf missing p g)
    obtain x k where x: "metadata_if_present env p g = (x, k)" by fastforce
    have k: "ledger g k" using thriftyD[OF thrifty_metadata_if_present x] .
    obtain y l where y: "reserve_path env buf p k = (y, l)" by fastforce
    have l: "ledger g l" using ledger_trans[OF k thriftyD[OF thrifty_basic(10) y]] .
    show ?case
    proof (cases "\<exists>buf'. x = Inr None \<and> y = Inr buf'")
      case True
      then obtain buf' where xy: "x = Inr None" "y = Inr buf'" by blast
      show ?thesis using 2[OF x[symmetric] xy(1) refl y[symmetric] xy(2)] ledger_trans[OF l] x y xy by simp
    next
      case False
      then show ?thesis using x y k l
        by (auto simp: gw_fail_def split: sum.split option.split)
    qed
  qed simp
  then show ?thesis by (simp add: thrifty_def rel_kept_def)
qed

lemma thrifty_scan_children [thrifty_intros]: "thrifty (scan_children env check buf pending cs)"
  by (induction env check buf pending cs rule: scan_children.induct) (auto intro!: thrifty_intros)

lemma thrifty_scan_directory: "thrifty (scan_directory env as check buf pending d)"
  unfolding scan_directory_def by (intro thrifty_intros)

lemma thrifty_scan_directories [thrifty_intros]: "thrifty (scan_directories env as check buf pending)"
proof -
  have "ledger g (snd (scan_directories env as check buf pending g))" for g
  proof (induction env as check buf pending g rule: scan_directories.induct)
    case (1 env as check buf pending g)
    obtain r k where rk: "scan_directory env as check buf (butlast pending) (last pending) g = (r, k)" by fastforce
    have k: "ledger g k" using thriftyD[OF thrifty_scan_directory rk] .
    show ?case
    proof (cases "pending = [] \<or> isl r")
      case True
      then show ?thesis using rk k by (subst scan_directories.simps) (auto split: sum.split)
    next
      case False
      then obtain buf' pending' where r: "r = Inr (buf', pending')" by (cases r) auto
      have "ledger k (snd (scan_directories env as check buf' pending' k))"
        by (rule 1[OF _ rk[symmetric] r refl]) (use False in simp)
      then show ?thesis using rk r False ledger_trans[OF k] by (subst scan_directories.simps) simp
    qed
  qed
  then show ?thesis by (simp add: thrifty_def rel_kept_def)
qed

lemma thrifty_copy_child [thrifty_intros]: "thrifty (copy_child env a b buf c)"
  unfolding copy_child_def by (intro thrifty_intros) (auto intro!: thrifty_intros split: node_kind.split)

lemma thrifty_copy_children [thrifty_intros]: "thrifty (copy_children env a b buf pending entries cs)"
  by (induction env a b buf pending entries cs rule: copy_children.induct)
     (auto intro!: thrifty_intros split: prod.split)

lemma thrifty_copy_directory: "thrifty (copy_directory env a b buf pending entries d)"
  unfolding copy_directory_def by (intro thrifty_intros)

lemma thrifty_copy_directories [thrifty_intros]: "thrifty (copy_directories env a b buf pending entries)"
proof -
  have "ledger g (snd (copy_directories env a b buf pending entries g))" for g
  proof (induction env a b buf pending entries g rule: copy_directories.induct)
    case (1 env a b buf pending entries g)
    obtain r k where rk: "copy_directory env a b buf (butlast pending) entries (last pending) g = (r, k)" by fastforce
    have k: "ledger g k" using thriftyD[OF thrifty_copy_directory rk] .
    show ?case
    proof (cases "pending = [] \<or> isl r")
      case True
      then show ?thesis using rk k by (subst copy_directories.simps) (auto split: sum.split)
    next
      case False
      then obtain buf' pending' entries' where r: "r = Inr (buf', pending', entries')" by (cases r) auto
      have "ledger k (snd (copy_directories env a b buf' pending' entries' k))"
        by (rule 1[OF _ rk[symmetric] r refl refl]) (use False in simp)
      then show ?thesis using rk r False ledger_trans[OF k] by (subst copy_directories.simps) simp
    qed
  qed
  then show ?thesis by (simp add: thrifty_def rel_kept_def)
qed

lemma thrifty_create_entry [thrifty_intros]: "thrifty (create_entry env e)"
  by (cases e) (auto simp: create_entry_def intro!: thrifty_intros)

lemma thrifty_reserve_paths [thrifty_intros]: "thrifty (reserve_paths env buf cs)"
  by (induction env buf cs rule: reserve_paths.induct) (auto intro!: thrifty_intros)

lemma thrifty_observed_read: "thrifty (observed_read env p st)"
  by (auto simp: observed_read_def intro!: thrifty_intros)

lemma ledger_run_visit: "ledger g (snd (run_visit env p st x g))"
proof (induction x arbitrary: g)
  case (VisitRead k)
  obtain y h where y: "observed_read env p st g = (y, h)" by fastforce
  show ?case using VisitRead[OF rangeI] y ledger_trans[OF thriftyD[OF thrifty_observed_read y]] by simp
qed simp

lemma thrifty_walk_children [thrifty_intros]: "thrifty (walk_children env buf d)"
  unfolding walk_children_def by (intro thrifty_intros)

lemma ledger_walk_node:
  assumes "walk_node env into visit v buf p g = (r, h)" shows "ledger g h"
proof -
  obtain x k where x: "gw_apply (metadata (ge_vfs env) p) g = (x, k)" by fastforce
  have k: "ledger g k" using thriftyD[OF thrifty_basic(7) x] .
  show ?thesis
  proof (cases "gw_authorize p [Acc_MetadataRead] g")
    case (Inl e)
    then show ?thesis using assms by (auto simp: walk_node_def split: gateway_error.splits)
  next
    case (Inr u)
    show ?thesis
    proof (cases x)
      case (Inl e)
      then show ?thesis using assms Inr x k by (simp add: walk_node_def)
    next
      case st: (Inr st)
      obtain w c l where l: "run_visit env p st (visit v p st) k = ((w, c), l)" by (metis prod.exhaust)
      then have gl: "ledger g l" using ledger_trans[OF k] ledger_run_visit[of k env p st "visit v p st"] by simp
      obtain y j where y: "walk_children env buf p l = (y, j)" by fastforce
      have "ledger g j" using ledger_trans[OF gl thriftyD[OF thrifty_walk_children y]] .
      then show ?thesis using assms Inr x st l gl y by (auto simp: walk_node_def split: sum.splits if_splits)
    qed
  qed
qed

lemma ledger_walk_pending: "ledger g (snd (walk_pending env into visit v buf pending g))"
proof (induction env into visit v buf pending g rule: walk_pending.induct)
  case (1 env into visit v buf pending g)
  obtain v' r h where h: "walk_node env into visit v buf (last pending) g = ((v', r), h)" by (metis prod.exhaust)
  have node: "ledger g h" using ledger_walk_node[OF h] .
  show ?case
  proof (cases "pending \<noteq> [] \<and> (\<exists>buf' cs. r = Inr (Some (buf', cs)))")
    case True
    then obtain buf' cs where r: "r = Inr (Some (buf', cs))" and ne: "pending \<noteq> []" by blast
    have "ledger h (snd (walk_pending env into visit v' buf' (butlast pending @ cs) h))"
      using 1[OF ne h[symmetric] refl r refl refl] .
    then show ?thesis using h r ne ledger_trans[OF node] by (subst walk_pending.simps) simp
  next
    case False
    then show ?thesis using h node by (subst walk_pending.simps) (auto split: sum.split option.split)
  qed
qed

lemma ledger_walk_visible: "ledger g (snd (walk_visible env into visit v p g))"
proof -
  let ?m = "bindS (gw_metadata env p) (\<lambda>st.
        if kind st \<noteq> Directory then gw_fail (NotDirectory p (kind st))
        else bindS (require_access p [Acc_DirectoryRead]) (\<lambda>_. walk_children env 0 p))"
  have m: "thrifty ?m" unfolding gw_metadata_def by (auto intro!: thrifty_intros)
  obtain r h where r: "?m g = (r, h)" by fastforce
  have "ledger g h" using thriftyD[OF m r] .
  then show ?thesis
    using r ledger_trans[OF _ ledger_walk_pending] by (auto simp: walk_visible_def split: sum.split)
qed

text \<open>No request overdraws the ledger or changes what the gateway may do.\<close>

lemma thrifty_ignore: "thrifty m \<Longrightarrow> thrifty (ignore m)"
  unfolding ignore_def by (intro thrifty_intros)

lemma thrifty_remove: "thrifty (gw_remove env p recursive missing_ok)"
proof -
  have found: "thrifty (\<lambda>g. case gw_apply (metadata (ge_vfs env) p) g of
         (Inr st, g') \<Rightarrow> (Ok (Some st), g')
       | (Inl e, g') \<Rightarrow> if missing_ok \<and> is_not_found e then (Ok None, g') else (Err e, g'))"
    using thriftyD[OF thrifty_basic(7)] by (auto simp: thrifty_def rel_kept_def split: prod.splits sum.splits)
  show ?thesis
    unfolding gw_remove_def gw_remove_tree_def gw_rmdir_def
    by (intro thrifty_intros found) (auto intro!: thrifty_intros split: option.split)
qed

lemma thrifty_copy: "thrifty (gw_copy env a b recursive overwrite)"
  unfolding gw_copy_def copy_file_def copy_tree_def
  by (auto intro!: thrifty_intros split: option.split node_kind.split)

lemma thrifty_gw_exec: "thrifty (gw_exec env c)"
proof (cases c)
  case (GWalk p f)
  have "ledger s (snd (walk_visible env (\<lambda>e. e) (\<lambda>_. f) () p s))" for s by (rule ledger_walk_visible)
  then show ?thesis unfolding GWalk thrifty_def rel_kept_def by (auto split: prod.split) (metis snd_conv)
qed (auto simp: gw_metadata_def gw_read_def gw_read_link_def gw_read_dir_def gw_write_def gw_append_def gw_mkdir_def
    gw_mkdir_options_def gw_set_mode_def gw_unlink_def gw_rmdir_def gw_remove_tree_def gw_rename_def prepare_open_def
    intro!: thrifty_ignore thrifty_intros thrifty_remove thrifty_copy split: option.split)

section \<open>Denied requests\<close>

text \<open>What a request asks of the policy before anything else.\<close>

fun gw_demands :: "gw_call \<Rightarrow> (vpath \<times> access_kind) list" where
  "gw_demands (GMetadata p) = [(p, Acc_MetadataRead)]"
| "gw_demands (GRead p) = [(p, Acc_ContentRead)]"
| "gw_demands (GReadLink p) = [(p, Acc_ContentRead)]"
| "gw_demands (GReadDir p) = [(p, Acc_DirectoryRead)]"
| "gw_demands (GWrite p _) = [(p, Acc_Create), (p, Acc_Modify)]"
| "gw_demands (GAppend p _) = [(p, Acc_Create), (p, Acc_Modify)]"
| "gw_demands (GMkdir p _) = [(p, Acc_Create)]"
| "gw_demands (GMkdirOptions p _ _ _) = [(p, Acc_Create), (p, Acc_Modify)]"
| "gw_demands (GSetMode p _) = [(p, Acc_MetadataRead), (p, Acc_Modify)]"
| "gw_demands (GUnlink p) = [(p, Acc_Delete)]"
| "gw_demands (GRmdir p) = [(p, Acc_Delete), (p, Acc_DirectoryRead)]"
| "gw_demands (GRemove p _ _) = [(p, Acc_Delete)]"
| "gw_demands (GRemoveTree p) = [(p, Acc_Delete), (p, Acc_DirectoryRead)]"
| "gw_demands (GRename p q) = [(p, Acc_RenameSource), (q, Acc_RenameDestination)]"
| "gw_demands (GOpen p m) = map (Pair p) (open_accesses m)"
| "gw_demands (GCopy p q _ _) = [(p, Acc_MetadataRead), (q, Acc_Create), (q, Acc_Modify)]"
| "gw_demands (GWalk p _) = [(p, Acc_MetadataRead)]"

text \<open>A step that fails without reaching the filesystem: at most the evidence is charged.\<close>

definition barred :: "'a gw_op \<Rightarrow> fs_gateway \<Rightarrow> bool" where
  "barred m g \<longleftrightarrow> isl (fst (m g)) \<and>
     gw_fs (snd (m g)) = (gw_fs g)\<lparr>vf_evidence := vf_evidence (gw_fs (snd (m g)))\<rparr>"

lemma barred_here:
  assumes "a \<in> set as" "\<not> grants (gw_policy g) p a" shows "barred (bindS (require_access p as) f) g"
proof -
  have "gw_authorize p as g \<noteq> Inr u" for u using gw_authorize_Inr[of p as g u] assms by (auto simp: grants_def)
  then obtain e where "gw_authorize p as g = Inl e" by (cases "gw_authorize p as g") auto
  then show ?thesis by (simp add: barred_def bindS_def require_access_def)
qed

lemma barred_later:
  assumes "\<And>r h. m g = (r, h) \<Longrightarrow> gw_fs h = (gw_fs g)\<lparr>vf_evidence := vf_evidence (gw_fs h)\<rparr>"
    and "\<And>x h. m g = (Inr x, h) \<Longrightarrow> barred (f x) h"
  shows "barred (bindS m f) g"
proof -
  obtain r h where m: "m g = (r, h)" by fastforce
  show ?thesis
  proof (cases r)
    case (Inl e)
    then show ?thesis using m assms(1)[OF m] by (simp add: barred_def bindS_def)
  next
    case (Inr x)
    have run: "bindS m f g = f x h" using m Inr by (simp add: bindS_def)
    have "barred (f x) h" using assms(2) m Inr by simp
    then have b: "isl (fst (f x h))" "gw_fs (snd (f x h)) = (gw_fs h)\<lparr>vf_evidence := vf_evidence (gw_fs (snd (f x h)))\<rparr>"
      by (simp_all add: barred_def)
    have "gw_fs (snd (f x h)) = (gw_fs g)\<lparr>vf_evidence := vf_evidence (gw_fs (snd (f x h)))\<rparr>"
      by (subst b(2), subst assms(1)[OF m]) simp
    then show ?thesis using b(1) run by (simp add: barred_def)
  qed
qed

lemma barred_after_access: "barred (f ()) g \<Longrightarrow> barred (bindS (require_access p as) f) g"
  by (rule barred_later) (auto simp: require_access_def)

lemma barred_after_charge:
  assumes "\<And>h. gw_policy h = gw_policy g \<Longrightarrow> barred (f ()) h" shows "barred (bindS (gw_charge m) f) g"
  by (rule barred_later) (use assms in \<open>auto simp: gw_charge_def split: prod.splits\<close>)

lemma barred_ignore: "barred m g \<Longrightarrow> barred (ignore m) g"
  by (auto simp: barred_def ignore_def bindS_def split: prod.splits sum.splits)

lemma barred_remove_tree:
  assumes "a \<in> {Acc_Delete, Acc_DirectoryRead}" "\<not> grants (gw_policy g) p a" shows "barred (gw_remove_tree env p) g"
  unfolding gw_remove_tree_def
proof (rule barred_later)
  show "gw_fs h = (gw_fs g)\<lparr>vf_evidence := vf_evidence (gw_fs h)\<rparr>" if "reserve_path env 0 p g = (r, h)" for r h
    using that by (auto simp: reserve_path_def reserve_buffer_def Let_def on_evidence_def split: prod.splits)
  fix buf h assume h: "reserve_path env 0 p g = (Inr buf, h)"
  have pol: "gw_policy h = gw_policy g" using thriftyD[OF thrifty_basic(10) h] by (simp add: ledger_def)
  have scan: "barred (scan_directories env [Acc_Delete, Acc_DirectoryRead] check buf [p]) h" for check
  proof -
    have first: "barred (scan_directory env [Acc_Delete, Acc_DirectoryRead] check buf [] p) h"
      unfolding scan_directory_def by (rule barred_here[of a]) (use assms pol in auto)
    then obtain e k where "scan_directory env [Acc_Delete, Acc_DirectoryRead] check buf [] p h = (Inl e, k)"
      by (cases "scan_directory env [Acc_Delete, Acc_DirectoryRead] check buf [] p h") (auto simp: barred_def isl_def)
    moreover from this have "scan_directories env [Acc_Delete, Acc_DirectoryRead] check buf [p] h = (Inl e, k)"
      by (subst scan_directories.simps) simp
    ultimately show ?thesis using first by (simp add: barred_def)
  qed
  show "barred (bindS (scan_directories env [Acc_Delete, Acc_DirectoryRead] (\<lambda>c. gw_authorize c [Acc_Delete]) buf [p])
      (\<lambda>_. gw_apply (remove_tree (ge_vfs env) p))) h"
  proof (rule barred_later)
    fix r k
    assume "scan_directories env [Acc_Delete, Acc_DirectoryRead] (\<lambda>c. gw_authorize c [Acc_Delete]) buf [p] h = (r, k)"
    then show "gw_fs k = (gw_fs h)\<lparr>vf_evidence := vf_evidence (gw_fs k)\<rparr>"
      using scan[of "\<lambda>c. gw_authorize c [Acc_Delete]"] by (simp add: barred_def)
  next
    fix x k
    assume "scan_directories env [Acc_Delete, Acc_DirectoryRead] (\<lambda>c. gw_authorize c [Acc_Delete]) buf [p] h = (Inr x, k)"
    then show "barred (gw_apply (remove_tree (ge_vfs env) p)) k"
      using scan[of "\<lambda>c. gw_authorize c [Acc_Delete]"] by (simp add: barred_def)
  qed
qed

lemma barred_gw_exec:
  assumes "(p, a) \<in> set (gw_demands c)" "\<not> grants (gw_policy g) p a"
  shows "barred (gw_exec env c) g"
proof (cases c)
  case (GWalk q f)
  let ?m = "bindS (gw_metadata env p) (\<lambda>st.
        if kind st \<noteq> Directory then gw_fail (NotDirectory p (kind st))
        else bindS (require_access p [Acc_DirectoryRead]) (\<lambda>_. walk_children env 0 p))"
  have pq: "p = q" "a = Acc_MetadataRead" using assms(1) GWalk by simp_all
  have "barred (gw_metadata env p) g" unfolding gw_metadata_def by (rule barred_here) (use assms pq in auto)
  then have m: "barred ?m g" by (intro barred_later) (auto simp: barred_def)
  then obtain e k where "?m g = (Inl e, k)" by (cases "?m g") (auto simp: barred_def isl_def)
  then show ?thesis using m unfolding GWalk pq(1)[symmetric] by (simp add: barred_def walk_visible_def)
next
  case (GRemoveTree q)
  then show ?thesis using barred_remove_tree[of a g p env] assms by auto
next
  case (GWrite q b)
  then show ?thesis using assms by (auto simp: gw_write_def intro!: barred_after_charge barred_here[of a])
next
  case (GAppend q b)
  then show ?thesis using assms by (auto simp: gw_append_def intro!: barred_after_charge barred_here[of a])
next
  case (GRename q r)
  then consider "p = q" "a = Acc_RenameSource" | "p = r" "a = Acc_RenameDestination" using assms(1) by auto
  then show ?thesis
  proof cases
    case 1
    then show ?thesis
      unfolding GRename gw_exec.simps gw_rename_def by (intro barred_here[of a]) (use assms(2) in auto)
  next
    case 2
    then show ?thesis
      unfolding GRename gw_exec.simps gw_rename_def
      by (intro barred_after_access barred_here[of a _ _ r]) (use assms(2) in auto)
  qed
next
  case (GCopy q r x y)
  then consider "p = q" "a = Acc_MetadataRead" | "p = r" "a \<in> {Acc_Create, Acc_Modify}" using assms(1) by auto
  then show ?thesis
  proof cases
    case 1
    then show ?thesis
      unfolding GCopy gw_exec.simps gw_copy_def by (intro barred_here[of a]) (use assms(2) in auto)
  next
    case 2
    then show ?thesis
      unfolding GCopy gw_exec.simps gw_copy_def
      by (intro barred_after_access barred_here[of a _ _ r]) (use assms(2) in auto)
  qed
qed (use assms in \<open>auto simp: gw_metadata_def gw_read_def gw_read_link_def gw_read_dir_def gw_mkdir_def
    gw_mkdir_options_def gw_set_mode_def gw_unlink_def gw_rmdir_def gw_remove_def prepare_open_def
    intro!: barred_ignore barred_here[of a]\<close>)

section \<open>Sessions\<close>

text \<open>A guest sends requests one after another, whatever they answer.\<close>

fun gw_session :: "gateway_env \<Rightarrow> gw_call list \<Rightarrow> fs_gateway \<Rightarrow> fs_gateway" where
  "gw_session env [] g = g"
| "gw_session env (c # cs) g = gw_session env cs (snd (gw_exec env c g))"

text \<open>The policy lets nothing be done to the node at a path.\<close>

definition untouchable :: "call_policy \<Rightarrow> vpath \<Rightarrow> bool" where
  "untouchable pol p \<longleftrightarrow>
     (\<forall>a \<in> {Acc_Create, Acc_Modify, Acc_Delete, Acc_RenameSource, Acc_RenameDestination}. \<not> grants pol p a)"

definition spares :: "call_policy \<Rightarrow> files \<Rightarrow> files \<Rightarrow> bool" where
  "spares pol m m' \<longleftrightarrow> (\<forall>p. untouchable pol p \<longrightarrow> m' p = m p)"

lemma lawful_spares: "lawful pol m m' \<Longrightarrow> spares pol m m'"
  unfolding lawful_def spares_def untouchable_def by (elim all_forward) (auto split: option.splits)

lemma session_moves:
  assumes "gw_inv env g" "\<forall>c \<in> set cs. \<forall>p \<in> set (gw_paths c). vpath_ok p"
  shows "moves env (spares (gw_policy g)) g (gw_session env cs g)"
  using assms
proof (induction cs arbitrary: g)
  case Nil
  then show ?case using still_moves[OF still_refl] by (simp add: spares_def)
next
  case (Cons c cs)
  obtain r h where h: "gw_exec env c g = (r, h)" by fastforce
  have "moves env (lawful (gw_policy g)) g h"
    using runs_gw_exec[OF Cons.prems(1), of c] Cons.prems(2) h by (auto simp: wp_def split: sum.splits)
  then have first: "moves env (spares (gw_policy g)) g h" by (rule moves_mono) (rule lawful_spares)
  have h': "gw_inv env h" "gw_policy h = gw_policy g" using first by (simp_all add: moves_def)
  have "moves env (spares (gw_policy g)) h (gw_session env cs h)" using Cons.IH[OF h'(1)] Cons.prems(2) h'(2) by simp
  then have "moves env (spares (gw_policy g)) g (gw_session env cs h)"
    by (rule moves_trans[OF first]) (simp add: spares_def)
  then show ?case using h by simp
qed

lemma session_ledger: "ledger g (gw_session env cs g)"
proof (induction cs arbitrary: g)
  case (Cons c cs)
  have "ledger g (snd (gw_exec env c g))" using thrifty_gw_exec[of env c] by (simp add: thrifty_def rel_kept_def)
  then show ?case using ledger_trans[OF _ Cons] by simp
qed simp

end
