(* ===== verification/Artifact.thy ===== *)
theory Artifact
  imports Reader Risk Budget Committer
begin

text \<open>
  Pending transactions as durable artifacts (\<open>crates/vbash/src/artifact.rs\<close>): everything that waits
  for an approval is encoded into one content-addressed byte string.  The encoder counts and bounds
  what it writes and feeds the evidence part to a hash; the decoder bounds every length by the
  configured limits and by what is left.  The result value of a Monty program and its postcard
  codec are third-party code and parameters here.
\<close>

section \<open>What is stored\<close>

record artifact_limits =
  al_max_bytes :: nat
  al_max_value_bytes :: nat
  al_max_stdout_bytes :: nat
  al_max_entries :: nat
  al_max_dependencies :: nat
  al_max_path_bytes :: nat
  al_max_intent_bytes :: nat
  al_max_effects :: nat
  al_max_ephemeral_entries :: nat
  al_max_ephemeral_bytes :: nat

definition default_artifact_limits :: artifact_limits where
  "default_artifact_limits = \<lparr>al_max_bytes = 128 * 1024 * 1024, al_max_value_bytes = 16 * 1024 * 1024,
     al_max_stdout_bytes = 16 * 1024 * 1024, al_max_entries = 100000, al_max_dependencies = 250000,
     al_max_path_bytes = 16 * 1024, al_max_intent_bytes = 64 * 1024, al_max_effects = 250000,
     al_max_ephemeral_entries = 64, al_max_ephemeral_bytes = 128 * 1024 * 1024\<rparr>"

record bash_result =
  br_profile :: string
  br_exit_code :: "32 word"
  br_stdout :: bytes
  br_stderr :: bytes

text \<open>\<open>'v\<close> is the value a Monty program returns.\<close>

datatype 'v execution_output = MontyOutput 'v string | BashOutput bash_result

datatype runtime_decision = DecidedDenied deny_manifest | DecidedAuto | DecidedPending risk_manifest

record stage_timings =
  tm_snapshot :: u64
  tm_execute :: u64
  tm_diff :: u64
  tm_policy :: u64
  tm_bind_and_store :: u64
  tm_commit :: u64
  tm_total :: u64

record 'v receipt =
  rcp_transaction :: digest
  rcp_base_snapshot :: digest
  rcp_state :: tx_state
  rcp_decision :: runtime_decision
  rcp_diff :: digest
  rcp_changed_paths :: nat
  rcp_changes :: "diff_entry list"
  rcp_output :: "'v execution_output"
  rcp_execution :: execution_stats
  rcp_timings :: stage_timings
  rcp_commit :: "commit_receipt option"

record review_evidence =
  rv_intent :: "string option"
  rv_metrics :: risk_metrics
  rv_effects :: "effect_event list"
  rv_complete :: bool
  rv_truncated :: bool

record 'v pending_transaction =
  pt_binding :: transaction_binding
  pt_diff :: canonical_diff
  pt_read_set :: "(vpath, read_observation) btree"
  pt_write_set :: "(vpath, write_precondition) btree"
  pt_review :: review_evidence
  pt_receipt :: "'v receipt"

datatype artifact_error =
  AE_Limit string nat nat
| AE_Allocation string nat
| AE_Corrupt nat string
| AE_ValueCodec string string
| AE_Unsupported string
| AE_BindingMismatch
| AE_EvidenceMismatch
| AE_Panic

text \<open>
  The hash, and the codec of result values: the size it announces, the chunks it pushes and how it
  ends, and what it takes from the front of some bytes.
\<close>

record 'v codec_env =
  ce_blake3 :: "bytes \<Rightarrow> digest"
  ce_size :: "'v \<Rightarrow> string + nat"
  ce_chunks :: "'v \<Rightarrow> bytes list"
  ce_failure :: "'v \<Rightarrow> string option"
  ce_take :: "bytes \<Rightarrow> string + ('v \<times> bytes)"

section \<open>The encoder\<close>

text \<open>A hasher behind a buffer of 4096 bytes.\<close>

record hash_sink =
  hs_hashed :: bytes
  hs_buffer :: bytes

definition hs_new :: hash_sink where
  "hs_new = \<lparr>hs_hashed = str_bytes ''vsh'' @ [0] @ str_bytes ''execution-evidence-v1'' @ [0], hs_buffer = []\<rparr>"

definition hs_extend :: "bytes \<Rightarrow> hash_sink \<Rightarrow> hash_sink" where
  "hs_extend bs h =
     (let (h, bs) =
        (if hs_buffer h \<noteq> [] then
           let n = min (length bs) (4096 - length (hs_buffer h)); buffer = hs_buffer h @ take n bs in
           (if length buffer = 4096 then \<lparr>hs_hashed = hs_hashed h @ buffer, hs_buffer = []\<rparr>
            else h\<lparr>hs_buffer := buffer\<rparr>, drop n bs)
         else (h, bs)) in
      if 4096 \<le> length bs then h\<lparr>hs_hashed := hs_hashed h @ bs\<rparr>
      else if bs \<noteq> [] then h\<lparr>hs_buffer := bs\<rparr> else h)"

definition hs_finish :: "(bytes \<Rightarrow> digest) \<Rightarrow> hash_sink \<Rightarrow> digest" where
  "hs_finish blake3 h = blake3 (hs_hashed h @ hs_buffer h)"

text \<open>\<open>en_alloc\<close> answers whether the retained bytes may grow to a length.\<close>

record encoder =
  en_bytes :: bytes
  en_hasher :: "hash_sink option"
  en_retain :: bool
  en_digest_active :: bool
  en_observed :: nat
  en_maximum :: nat
  en_seal_offset :: "nat option"
  en_alloc :: "nat \<Rightarrow> bool"

type_synonym enc = "(encoder, artifact_error, unit) op"

definition encoder_new :: "(nat \<Rightarrow> bool) \<Rightarrow> nat \<Rightarrow> encoder" where
  "encoder_new alloc maximum = \<lparr>en_bytes = [], en_hasher = None, en_retain = True, en_digest_active = False,
     en_observed = 0, en_maximum = maximum, en_seal_offset = None, en_alloc = alloc\<rparr>"

definition encoder_hashing :: "(nat \<Rightarrow> bool) \<Rightarrow> nat \<Rightarrow> encoder" where
  "encoder_hashing alloc maximum = (encoder_new alloc maximum)
     \<lparr>en_hasher := Some hs_new, en_retain := False, en_digest_active := True\<rparr>"

definition encoder_counting :: "(nat \<Rightarrow> bool) \<Rightarrow> nat \<Rightarrow> encoder" where
  "encoder_counting alloc maximum = (encoder_new alloc maximum)\<lparr>en_retain := False\<rparr>"

definition extend_from_slice :: "bytes \<Rightarrow> enc" where
  "extend_from_slice bs e =
     (let required = en_observed e + length bs in
      if 2 ^ 64 \<le> required then (Err (AE_Limit ''pending artifact'' (2 ^ 64 - 1) (en_maximum e)), e)
      else if en_maximum e < required then (Err (AE_Limit ''pending artifact'' required (en_maximum e)), e)
      else
        let e = (if en_digest_active e then e\<lparr>en_hasher := map_option (hs_extend bs) (en_hasher e)\<rparr> else e) in
        if \<not> en_retain e then (Ok (), e\<lparr>en_observed := required\<rparr>)
        else if \<not> en_alloc e required then (Err (AE_Allocation ''pending artifact'' required), e)
        else (Ok (), e\<lparr>en_bytes := en_bytes e @ bs, en_observed := required\<rparr>))"

definition push :: "u8 \<Rightarrow> enc" where
  "push b = extend_from_slice [b]"

fun steps :: "('s, 'e, unit) op list \<Rightarrow> ('s, 'e, unit) op" where
  "steps [] = returnS ()"
| "steps (m # ms) = bindS m (\<lambda>_. steps ms)"

definition encode_len :: "nat \<Rightarrow> enc" where
  "encode_len n = (if n < 2 ^ 64 then extend_from_slice (u64_bytes (of_nat n))
     else failS (AE_Unsupported ''host length cannot be encoded''))"

definition encode_bytes_artifact :: "bytes \<Rightarrow> enc" where
  "encode_bytes_artifact bs = steps [encode_len (length bs), extend_from_slice bs]"

definition limited :: "string \<Rightarrow> nat \<Rightarrow> nat \<Rightarrow> enc" where
  "limited field observed maximum =
     (if maximum < observed then failS (AE_Limit field observed maximum) else returnS ())"

section \<open>Encoders\<close>

fun node_kind_tag :: "node_kind \<Rightarrow> u8" where
  "node_kind_tag File = 1" | "node_kind_tag Directory = 2" | "node_kind_tag Symlink = 3"

fun diff_kind_tag :: "diff_kind \<Rightarrow> u8" where
  "diff_kind_tag DCreate = 1" | "diff_kind_tag DDelete = 2" | "diff_kind_tag DModify = 3"
| "diff_kind_tag DMetadataChange = 4"

fun risk_flag_tag :: "risk_flag \<Rightarrow> u8" where
  "risk_flag_tag Flag_Mutation = 1" | "risk_flag_tag Flag_Deletion = 2" | "risk_flag_tag Flag_Rename = 3"
| "risk_flag_tag Flag_ExecutableChange = 4" | "risk_flag_tag Flag_SymlinkChange = 5"
| "risk_flag_tag Flag_LargeTouchedSet = 6" | "risk_flag_tag Flag_LargeByteChange = 7"
| "risk_flag_tag Flag_PermissionChange = 8"

fun effect_origin_tag :: "effect_origin \<Rightarrow> u8" where
  "effect_origin_tag FromVirtualFs = 1" | "effect_origin_tag FromMontyOsCall = 2"
| "effect_origin_tag FromMontyToolCall = 3" | "effect_origin_tag FromBashCall = 4"

definition encode_optional_digest_artifact :: "digest option \<Rightarrow> enc" where
  "encode_optional_digest_artifact d = (case d of None \<Rightarrow> push 0 | Some d \<Rightarrow> steps [push 1, extend_from_slice (as_bytes d)])"

definition encode_stamp_artifact :: "file_stamp \<Rightarrow> enc" where
  "encode_stamp_artifact st = steps
     [push (node_kind_tag (stamp_kind st)), extend_from_slice (u64_bytes (stamp_size st)),
      extend_from_slice (u32_bytes (stamp_mode st)), extend_from_slice (i128_bytes (mtime_ns st)),
      (case ctime_ns st of None \<Rightarrow> push 0 | Some c \<Rightarrow> steps [push 1, extend_from_slice (i128_bytes c)]),
      extend_from_slice (u64_bytes (high (file_id st))), extend_from_slice (u64_bytes (low (file_id st)))]"

definition encode_state_artifact :: "node_state \<Rightarrow> enc" where
  "encode_state_artifact s = steps
     [push (node_kind_tag (kind s)), extend_from_slice (u64_bytes (nsize s)), extend_from_slice (u32_bytes (mode s)),
      (case content s of
         None \<Rightarrow> push 0
       | Some (Blob blob) \<Rightarrow> steps [push 1, extend_from_slice (as_bytes blob)]
       | Some (Stamp stamp) \<Rightarrow> steps [push 2, encode_stamp_artifact stamp])]"

definition encode_optional_state_artifact :: "node_state option \<Rightarrow> enc" where
  "encode_optional_state_artifact s =
     (case s of None \<Rightarrow> push 0 | Some s \<Rightarrow> steps [push 1, encode_state_artifact s])"

definition encode_path_artifact :: "artifact_limits \<Rightarrow> vpath \<Rightarrow> enc" where
  "encode_path_artifact limits p = steps
     [limited ''path'' (length (as_str p)) (al_max_path_bytes limits), encode_bytes_artifact (str_bytes (as_str p))]"

fun encode_effect :: "artifact_limits \<Rightarrow> effect \<Rightarrow> enc" where
  "encode_effect l (MetadataRead p s) = steps [push 1, encode_path_artifact l p, encode_optional_state_artifact s]"
| "encode_effect l (ContentRead p blob) = steps [push 2, encode_path_artifact l p, extend_from_slice (as_bytes blob)]"
| "encode_effect l (DirectoryRead p d) = steps [push 3, encode_path_artifact l p, extend_from_slice (as_bytes d)]"
| "encode_effect l (Create p a) = steps [push 4, encode_path_artifact l p, encode_state_artifact a]"
| "encode_effect l (ModifyContent p b a) =
     steps [push 5, encode_path_artifact l p, encode_state_artifact b, encode_state_artifact a]"
| "encode_effect l (Delete p b) = steps [push 6, encode_path_artifact l p, encode_state_artifact b]"
| "encode_effect l (ModifyMetadata p b a) =
     steps [push 8, encode_path_artifact l p, encode_state_artifact b, encode_state_artifact a]"
| "encode_effect l (Rename p q b a) =
     steps [push 7, encode_path_artifact l p, encode_path_artifact l q, encode_state_artifact b, encode_state_artifact a]"

definition encode_risk_metrics :: "risk_metrics \<Rightarrow> enc" where
  "encode_risk_metrics m = steps
     [encode_len (touched_paths m), encode_len (created_paths m), encode_len (modified_paths m),
      encode_len (deleted_paths m), encode_len (renamed_paths m), extend_from_slice (u64_bytes (changed_bytes m)),
      extend_from_slice (u16_bytes (delete_ratio_bps m)), encode_len (executable_changes m),
      encode_len (symlink_changes m)]"

definition encode_risk_manifest :: "risk_manifest \<Rightarrow> enc" where
  "encode_risk_manifest m = steps
     [encode_risk_metrics (rm_metrics m), encode_len (length (rm_flags m)),
      forS (rm_flags m) (\<lambda>f. push (risk_flag_tag f)), extend_from_slice (as_bytes (rm_policy m))]"

definition encode_decision :: "runtime_decision \<Rightarrow> enc" where
  "encode_decision d = (case d of
     DecidedAuto \<Rightarrow> push 1
   | DecidedPending m \<Rightarrow> steps [push 2, encode_risk_manifest m]
   | DecidedDenied _ \<Rightarrow> failS (AE_Unsupported ''denied transactions cannot be pending''))"

fun access_tag :: "access_kind \<Rightarrow> u8" where
  "access_tag Acc_MetadataRead = 1" | "access_tag Acc_ContentRead = 2" | "access_tag Acc_DirectoryRead = 3"
| "access_tag Acc_Create = 4" | "access_tag Acc_Modify = 5" | "access_tag Acc_Delete = 6"
| "access_tag Acc_RenameSource = 7" | "access_tag Acc_RenameDestination = 8"

definition encode_denied_access :: "artifact_limits \<Rightarrow> u8 \<Rightarrow> denied_access \<Rightarrow> enc" where
  "encode_denied_access l tag a = steps
     [push tag, encode_path_artifact l (da_path a), push (access_tag (da_access a)),
      encode_bytes_artifact (str_bytes (da_rule a))]"

fun encode_deny_reason :: "artifact_limits \<Rightarrow> deny_reason \<Rightarrow> enc" where
  "encode_deny_reason l (ProtectedAccessAttempt a) = encode_denied_access l 1 a"
| "encode_deny_reason l (ProtectedMutation a) = encode_denied_access l 2 a"
| "encode_deny_reason l (TouchedPathLimit limit observed) = steps [push 3, encode_len limit, encode_len observed]"
| "encode_deny_reason l (DeletePathLimit limit observed) = steps [push 5, encode_len limit, encode_len observed]"
| "encode_deny_reason l (ChangedByteLimit limit observed) =
     steps [push 4, extend_from_slice (u64_bytes limit), extend_from_slice (u64_bytes observed)]"
| "encode_deny_reason l (DeleteRatioLimit limit observed) =
     steps [push 6, extend_from_slice (u16_bytes limit), extend_from_slice (u16_bytes observed)]"

definition encode_execution_stats :: "execution_stats \<Rightarrow> enc" where
  "encode_execution_stats s = steps
     [extend_from_slice (u64_bytes (st_os_calls s)), extend_from_slice (u64_bytes (st_read_bytes s)),
      extend_from_slice (u64_bytes (st_write_bytes s)), extend_from_slice (u64_bytes (st_directory_entries s)),
      encode_len (unat (st_output_bytes s)), extend_from_slice (u64_bytes (st_denied_accesses s)),
      extend_from_slice (u64_bytes (st_result_bytes s))]"

definition encode_timings :: "stage_timings \<Rightarrow> enc" where
  "encode_timings t = steps (map (\<lambda>n. extend_from_slice (u64_bytes n))
     [tm_snapshot t, tm_execute t, tm_diff t, tm_policy t, tm_bind_and_store t, tm_commit t, tm_total t])"

definition encode_binding :: "transaction_binding \<Rightarrow> enc" where
  "encode_binding b = steps
     [extend_from_slice (as_bytes (base_snapshot b)), extend_from_slice (as_bytes (diff b)),
      extend_from_slice (as_bytes (read_set b)), extend_from_slice (as_bytes (write_set b)),
      extend_from_slice (as_bytes (program b)), extend_from_slice (as_bytes (policy b)),
      extend_from_slice (as_bytes (runtime_config b)), encode_optional_digest_artifact (intent b),
      (if invocation b \<noteq> None \<or> commit_hook b \<noteq> None
       then steps [encode_optional_digest_artifact (invocation b), encode_optional_digest_artifact (commit_hook b)] else returnS ()),
      (case execution_evidence b of Some d \<Rightarrow> extend_from_slice (as_bytes d) | None \<Rightarrow> returnS ())]"

definition check_bash_output_limits :: "bash_result \<Rightarrow> artifact_limits \<Rightarrow> ('s, artifact_error, unit) op" where
  "check_bash_output_limits r l =
     (let total = min (length (br_stdout r) + length (br_stderr r)) (2 ^ 64 - 1) in
      if 128 < length (br_profile r) then failS (AE_Limit ''Bash profile'' (length (br_profile r)) 128)
      else if al_max_value_bytes l < 4 then failS (AE_Limit ''result value'' 4 (al_max_value_bytes l))
      else if al_max_stdout_bytes l < total then failS (AE_Limit ''stdout/stderr'' total (al_max_stdout_bytes l))
      else returnS ())"

text \<open>Serializing a value: its chunks reach the encoder until it refuses one.\<close>

definition encode_value :: "'v codec_env \<Rightarrow> 'v \<Rightarrow> enc" where
  "encode_value env v = steps
     [forS (ce_chunks env v) extend_from_slice,
      (case ce_failure env v of None \<Rightarrow> returnS () | Some detail \<Rightarrow> failS (AE_ValueCodec ''encode'' detail))]"

definition encode_execution_output :: "'v codec_env \<Rightarrow> artifact_limits \<Rightarrow> bool \<Rightarrow> 'v execution_output \<Rightarrow> enc" where
  "encode_execution_output env l modern out = (case out of
     BashOutput r \<Rightarrow>
       if \<not> modern then failS (AE_Unsupported ''Bash output requires a version-three artifact'')
       else if br_exit_code r \<noteq> 0
       then failS (AE_Unsupported ''failed Bash output cannot become a pending transaction'')
       else steps
         [check_bash_output_limits r l, extend_from_slice [2, 1], encode_bytes_artifact (str_bytes (br_profile r)),
          extend_from_slice (u32_bytes (br_exit_code r)), encode_bytes_artifact (br_stdout r), encode_bytes_artifact (br_stderr r)]
   | MontyOutput v stdout \<Rightarrow>
       steps
         [(if modern then steps [push 1, push 1] else returnS ()),
          (case ce_size env v of
             Inl detail \<Rightarrow> failS (AE_ValueCodec ''size'' detail)
           | Inr n \<Rightarrow> steps [limited ''result value'' n (al_max_value_bytes l), encode_len n]),
          encode_value env v,
          limited ''stdout'' (length stdout) (al_max_stdout_bytes l), encode_bytes_artifact (str_bytes stdout)])"

definition encode_review :: "artifact_limits \<Rightarrow> review_evidence \<Rightarrow> enc" where
  "encode_review l r = steps
     [(case rv_intent r of
         None \<Rightarrow> push 0
       | Some t \<Rightarrow> steps [limited ''intent'' (length t) (al_max_intent_bytes l), push 1, encode_bytes_artifact (str_bytes t)]),
      encode_risk_metrics (rv_metrics r),
      limited ''review effects'' (length (rv_effects r)) (al_max_effects l), encode_len (length (rv_effects r)),
      forS (rv_effects r) (\<lambda>ev. steps
        [extend_from_slice (u64_bytes (ev_sequence ev)), push (effect_origin_tag (ev_origin ev)),
         encode_effect l (ev_effect ev)]),
      push (if rv_complete r then 1 else 0), push (if rv_truncated r then 1 else 0)]"

definition capture_review :: "(nat \<Rightarrow> bool) \<Rightarrow> artifact_limits \<Rightarrow> string option \<Rightarrow> risk_metrics \<Rightarrow> effect_event list \<Rightarrow>
    artifact_error + review_evidence" where
  "capture_review alloc l intent_text metrics effects =
     (let r = \<lparr>rv_intent = intent_text, rv_metrics = metrics, rv_effects = effects, rv_complete = True,
        rv_truncated = False\<rparr> in
      bindR (fst (encode_review l r (encoder_counting alloc (al_max_bytes l)))) (\<lambda>_. Ok r))"

section \<open>Writing and sealing\<close>

text \<open>What the evidence digest covers; denied transactions have one too.\<close>

definition evidence_steps :: "'v codec_env \<Rightarrow> artifact_limits \<Rightarrow> 'v execution_output \<Rightarrow> execution_stats \<Rightarrow>
    review_evidence \<Rightarrow> runtime_decision \<Rightarrow> enc" where
  "evidence_steps env l out stats review decision = steps
     [push 1, encode_review l review,
      (case decision of
         DecidedDenied m \<Rightarrow> steps [push 3, encode_risk_metrics (dm_metrics m),
           extend_from_slice (as_bytes (dm_policy m)), encode_deny_reason l (dm_reason m)]
       | _ \<Rightarrow> encode_decision decision),
      encode_execution_output env l True out, encode_execution_stats stats]"

definition execution_evidence_digest :: "'v codec_env \<Rightarrow> (nat \<Rightarrow> bool) \<Rightarrow> artifact_limits \<Rightarrow> 'v execution_output \<Rightarrow>
    execution_stats \<Rightarrow> review_evidence \<Rightarrow> runtime_decision \<Rightarrow> artifact_error + digest" where
  "execution_evidence_digest env alloc l out stats review decision =
     (case evidence_steps env l out stats review decision (encoder_hashing alloc (al_max_bytes l)) of
        (Inl e, _) \<Rightarrow> Err e
      | (Inr _, e) \<Rightarrow> (case en_hasher e of Some h \<Rightarrow> Ok (hs_finish (ce_blake3 env) h) | None \<Rightarrow> Err AE_Panic))"

definition review_bound :: "(bytes \<Rightarrow> digest) \<Rightarrow> transaction_binding \<Rightarrow> review_evidence \<Rightarrow> bool" where
  "review_bound blake3 b r \<longleftrightarrow> rv_complete r \<and> \<not> rv_truncated r \<and>
     intent b = map_option (intent_digest blake3) (rv_intent r)"

definition validate_execution_evidence :: "'v codec_env \<Rightarrow> (nat \<Rightarrow> bool) \<Rightarrow> artifact_limits \<Rightarrow> 'v pending_transaction \<Rightarrow>
    artifact_error + unit" where
  "validate_execution_evidence env alloc l a = (case execution_evidence (pt_binding a) of
     None \<Rightarrow> Ok ()
   | Some expected \<Rightarrow>
       if \<not> review_bound (ce_blake3 env) (pt_binding a) (pt_review a) then Err AE_EvidenceMismatch
       else bindR (execution_evidence_digest env alloc l (rcp_output (pt_receipt a)) (rcp_execution (pt_receipt a))
           (pt_review a) (rcp_decision (pt_receipt a))) (\<lambda>d.
         if expected \<noteq> d then Err AE_EvidenceMismatch else Ok ()))"

definition encode_receipt_evidence :: "'v codec_env \<Rightarrow> artifact_limits \<Rightarrow> 'v pending_transaction \<Rightarrow> bool \<Rightarrow>
    (encoder, artifact_error, digest option) op" where
  "encode_receipt_evidence env l a create_seal =
     (let modern = create_seal \<or> execution_evidence (pt_binding a) \<noteq> None; r = pt_receipt a in
      bindS (if modern then
          (if \<not> review_bound (ce_blake3 env) (pt_binding a) (pt_review a) then failS AE_EvidenceMismatch
           else modifyS (\<lambda>e. e\<lparr>en_hasher := Some (hs_extend [1] hs_new), en_digest_active := True\<rparr>))
        else returnS ()) (\<lambda>_.
      bindS (encode_review l (pt_review a)) (\<lambda>_.
      bindS (modifyS (en_digest_active_update (\<lambda>_. False))) (\<lambda>_.
      bindS (push (if rcp_changes r \<noteq> [] then 1 else 0)) (\<lambda>_.
      bindS (modifyS (en_digest_active_update (\<lambda>_. modern))) (\<lambda>_.
      bindS (steps [encode_decision (rcp_decision r), encode_execution_output env l modern (rcp_output r),
        encode_execution_stats (rcp_execution r)]) (\<lambda>_.
      bindS (modifyS (en_digest_active_update (\<lambda>_. False))) (\<lambda>_.
      bindS (if modern then
          bindS (getS en_hasher) (\<lambda>hasher. case hasher of
            None \<Rightarrow> failS AE_Panic
          | Some h \<Rightarrow>
              bindS (modifyS (en_hasher_update (\<lambda>_. None))) (\<lambda>_.
              if \<not> create_seal \<and> Some (hs_finish (ce_blake3 env) h) \<noteq> execution_evidence (pt_binding a)
              then failS AE_EvidenceMismatch
              else returnS (Some (hs_finish (ce_blake3 env) h))))
        else returnS None) (\<lambda>digest.
      bindS (encode_timings (rcp_timings r)) (\<lambda>_. returnS digest))))))))))"

definition artifact_magic :: "nat \<Rightarrow> bytes" where
  "artifact_magic version = str_bytes (''VSHPND0'' @ [char_of (48 + version)])"

text \<open>Effects, risks and bindings that the older formats cannot express.\<close>

definition needs_modern :: "'v pending_transaction \<Rightarrow> bool" where
  "needs_modern a \<longleftrightarrow>
     list_ex (\<lambda>ev. (case ev_effect ev of ModifyMetadata _ _ _ \<Rightarrow> True | _ \<Rightarrow> False) \<or> ev_origin ev = FromBashCall)
       (rv_effects (pt_review a)) \<or>
     (case rcp_decision (pt_receipt a) of
        DecidedPending m \<Rightarrow> Flag_PermissionChange \<in> set (rm_flags m) | _ \<Rightarrow> False)"

definition encode_observation :: "artifact_limits \<Rightarrow> vpath \<times> read_observation \<Rightarrow> enc" where
  "encode_observation l = (\<lambda>(p, obs). steps
     [encode_path_artifact l p,
      (case obs_metadata obs of
         None \<Rightarrow> push 0
       | Some None \<Rightarrow> push 1
       | Some (Some s) \<Rightarrow> steps [push 2, encode_state_artifact s]),
      encode_optional_digest_artifact (obs_content obs), encode_optional_digest_artifact (obs_directory obs)])"

definition encode_dependencies :: "artifact_limits \<Rightarrow> 'v pending_transaction \<Rightarrow> enc" where
  "encode_dependencies l a = steps
     [limited ''diff entries'' (length (cd_entries (pt_diff a))) (al_max_entries l),
      encode_len (length (cd_entries (pt_diff a))),
      forS (cd_entries (pt_diff a)) (\<lambda>e. steps
        [encode_path_artifact l (entry_path e), encode_optional_state_artifact (entry_before e),
         encode_optional_state_artifact (entry_after e), push (diff_kind_tag (entry_kind e))]),
      limited ''read dependencies'' (length (pt_read_set a)) (al_max_dependencies l),
      encode_len (length (pt_read_set a)), forS (pt_read_set a) (encode_observation l),
      limited ''write dependencies'' (length (pt_write_set a)) (al_max_dependencies l),
      encode_len (length (pt_write_set a)),
      forS (pt_write_set a) (\<lambda>(p, w). steps
        [encode_path_artifact l p, encode_optional_state_artifact (wp_expected w)])]"

definition artifact_version :: "bool \<Rightarrow> transaction_binding \<Rightarrow> artifact_error + nat" where
  "artifact_version modern b =
     (if invocation b \<noteq> None \<or> commit_hook b \<noteq> None then
        (if \<not> modern then Err (AE_Unsupported ''invocation binding requires sealed execution evidence'') else Ok 4)
      else if modern then Ok 3 else Ok 2)"

definition write_pending_fields :: "'v codec_env \<Rightarrow> artifact_limits \<Rightarrow> 'v pending_transaction \<Rightarrow> bool \<Rightarrow>
    (encoder, artifact_error, digest option) op" where
  "write_pending_fields env l a create_seal =
     (let modern = create_seal \<or> execution_evidence (pt_binding a) \<noteq> None in
      if \<not> modern \<and> needs_modern a
      then failS (AE_Unsupported ''metadata effects require the version-three execution artifact'')
      else
      bindS (liftS (artifact_version modern (pt_binding a))) (\<lambda>version.
      bindS (extend_from_slice (artifact_magic version)) (\<lambda>_.
      bindS (if create_seal then
          bindS (encode_binding ((pt_binding a)\<lparr>execution_evidence := Some 0\<rparr>)) (\<lambda>_.
            modifyS (\<lambda>e. e\<lparr>en_seal_offset := Some (en_observed e - 32)\<rparr>))
        else encode_binding (pt_binding a)) (\<lambda>_.
      bindS (encode_receipt_evidence env l a create_seal) (\<lambda>digest.
      bindS (encode_dependencies l a) (\<lambda>_. returnS digest))))))"

definition encode_pending :: "'v codec_env \<Rightarrow> (nat \<Rightarrow> bool) \<Rightarrow> artifact_limits \<Rightarrow> 'v pending_transaction \<Rightarrow>
    artifact_error + bytes" where
  "encode_pending env alloc l a =
     (case write_pending_fields env l a False (encoder_new alloc (al_max_bytes l)) of
        (Inl e, _) \<Rightarrow> Err e | (Inr _, e) \<Rightarrow> Ok (en_bytes e))"

text \<open>The binding and the identity of the receipt after sealing.\<close>

definition sealed :: "'v codec_env \<Rightarrow> digest \<Rightarrow> 'v pending_transaction \<Rightarrow> 'v pending_transaction" where
  "sealed env d a =
     (let b = (pt_binding a)\<lparr>execution_evidence := Some d\<rparr> in
      a\<lparr>pt_binding := b, pt_receipt := (pt_receipt a)\<lparr>rcp_transaction := transaction_id (ce_blake3 env) b\<rparr>\<rparr>)"

definition seal_pending_and_size :: "'v codec_env \<Rightarrow> (nat \<Rightarrow> bool) \<Rightarrow> artifact_limits \<Rightarrow> 'v pending_transaction \<Rightarrow>
    (artifact_error + nat) \<times> 'v pending_transaction" where
  "seal_pending_and_size env alloc l a =
     (if execution_evidence (pt_binding a) \<noteq> None then (Err AE_EvidenceMismatch, a)
      else case write_pending_fields env l a True (encoder_counting alloc (al_max_bytes l)) of
        (Inl e, _) \<Rightarrow> (Err e, a)
      | (Inr None, _) \<Rightarrow> (Err AE_Panic, a)
      | (Inr (Some d), e) \<Rightarrow> (Ok (en_observed e), sealed env d a))"

definition seal_pending_and_encode :: "'v codec_env \<Rightarrow> (nat \<Rightarrow> bool) \<Rightarrow> artifact_limits \<Rightarrow> 'v pending_transaction \<Rightarrow>
    (artifact_error + bytes) \<times> 'v pending_transaction" where
  "seal_pending_and_encode env alloc l a =
     (if execution_evidence (pt_binding a) \<noteq> None then (Err AE_EvidenceMismatch, a)
      else case write_pending_fields env l a True (encoder_new alloc (al_max_bytes l)) of
        (Inl e, _) \<Rightarrow> (Err e, a)
      | (Inr None, _) \<Rightarrow> (Err AE_Panic, a)
      | (Inr (Some d), e) \<Rightarrow> (case en_seal_offset e of
          None \<Rightarrow> (Err AE_Panic, a)
        | Some at \<Rightarrow>
            (Ok (take at (en_bytes e) @ as_bytes d @ drop (at + 32) (en_bytes e)), sealed env d a)))"

section \<open>The decoder\<close>

record artifact_decoder = reader +
  ad_modern :: bool
  ad_invocation :: bool
  ad_alloc :: "nat \<Rightarrow> bool"

type_synonym 'a dec = "(artifact_decoder, artifact_error, 'a) op"

definition ad_corrupt :: "string \<Rightarrow> 'a dec" where
  "ad_corrupt reason d = (Err (AE_Corrupt (rd_offset d) reason), d)"

definition ad_take :: "nat \<Rightarrow> bytes dec" where
  "ad_take count d =
     (let end = rd_offset d + count in
      if 2 ^ 64 \<le> end then ad_corrupt ''artifact offset overflow'' d
      else if length (rd_bytes d) < end then ad_corrupt ''truncated pending artifact'' d
      else (Ok (take count (drop (rd_offset d) (rd_bytes d))), d\<lparr>rd_offset := end\<rparr>))"

definition ad_byte :: "u8 dec" where "ad_byte = bindS (ad_take 1) (\<lambda>bs. returnS (hd bs))"
definition ad_u16 :: "u16 dec" where "ad_u16 = bindS (ad_take 2) (\<lambda>bs. returnS (le_word bs))"
definition ad_u32 :: "u32 dec" where "ad_u32 = bindS (ad_take 4) (\<lambda>bs. returnS (le_word bs))"
definition ad_u64 :: "u64 dec" where "ad_u64 = bindS (ad_take 8) (\<lambda>bs. returnS (le_word bs))"
definition ad_i128 :: "i128 dec" where "ad_i128 = bindS (ad_take 16) (\<lambda>bs. returnS (le_word bs))"
definition ad_digest :: "digest dec" where "ad_digest = bindS (ad_take 32) (\<lambda>bs. returnS (from_bytes bs))"
definition ad_usize :: "nat dec" where "ad_usize = bindS ad_u64 (\<lambda>n. returnS (unat n))"

definition ad_length :: "nat \<Rightarrow> string \<Rightarrow> nat dec" where
  "ad_length maximum field =
     bindS ad_usize (\<lambda>n. if maximum < n then failS (AE_Limit field n maximum) else returnS n)"

definition collection_length :: "nat \<Rightarrow> nat \<Rightarrow> string \<Rightarrow> nat dec" where
  "collection_length maximum minimum_entry_bytes field =
     bindS (ad_length maximum field) (\<lambda>count.
     bindS (getS (\<lambda>d. length (rd_bytes d) - rd_offset d)) (\<lambda>left.
     if left div minimum_entry_bytes < count then ad_corrupt ''collection length exceeds remaining artifact bytes''
     else returnS count))"

definition length_prefixed :: "nat \<Rightarrow> string \<Rightarrow> bytes dec" where
  "length_prefixed maximum field = bindS (ad_length maximum field) ad_take"

definition ad_string :: "nat \<Rightarrow> string \<Rightarrow> string dec" where
  "ad_string maximum field =
     bindS (length_prefixed maximum field) (\<lambda>bs.
     if utf8_ok bs then returnS (bytes_str bs) else ad_corrupt ''artifact string is not UTF-8'')"

definition ad_path :: "artifact_limits \<Rightarrow> vpath dec" where
  "ad_path l =
     bindS (ad_string (al_max_path_bytes l) ''path'') (\<lambda>s. case parse s of
       Inl _ \<Rightarrow> ad_corrupt ''artifact path is invalid'' | Inr p \<Rightarrow> returnS p)"

definition bounded_vec :: "nat \<Rightarrow> string \<Rightarrow> unit dec" where
  "bounded_vec count field =
     bindS (getS (\<lambda>d. ad_alloc d count)) (\<lambda>fits.
     if fits then returnS () else failS (AE_Allocation field count))"

definition ad_finish :: "unit dec" where
  "ad_finish = bindS (getS (\<lambda>d. rd_offset d = length (rd_bytes d))) (\<lambda>done.
     if done then returnS () else ad_corrupt ''trailing pending-artifact bytes'')"

definition tagged :: "'a option \<Rightarrow> string \<Rightarrow> 'a dec" where
  "tagged x reason = (case x of Some a \<Rightarrow> returnS a | None \<Rightarrow> ad_corrupt reason)"

definition decode_node_kind :: "u8 \<Rightarrow> node_kind option" where
  "decode_node_kind t =
     (if t = 1 then Some File else if t = 2 then Some Directory else if t = 3 then Some Symlink else None)"

definition decode_diff_kind :: "u8 \<Rightarrow> diff_kind option" where
  "decode_diff_kind t = (if t = 1 then Some DCreate else if t = 2 then Some DDelete
     else if t = 3 then Some DModify else if t = 4 then Some DMetadataChange else None)"

definition decode_risk_flag :: "u8 \<Rightarrow> risk_flag option" where
  "decode_risk_flag t = (if t = 1 then Some Flag_Mutation else if t = 2 then Some Flag_Deletion
     else if t = 3 then Some Flag_Rename else if t = 4 then Some Flag_ExecutableChange
     else if t = 5 then Some Flag_SymlinkChange else if t = 6 then Some Flag_LargeTouchedSet
     else if t = 7 then Some Flag_LargeByteChange else if t = 8 then Some Flag_PermissionChange else None)"

definition decode_effect_origin :: "u8 \<Rightarrow> effect_origin option" where
  "decode_effect_origin t = (if t = 1 then Some FromVirtualFs else if t = 2 then Some FromMontyOsCall
     else if t = 3 then Some FromMontyToolCall else if t = 4 then Some FromBashCall else None)"

section \<open>Decoders\<close>

definition decode_stamp_artifact :: "file_stamp dec" where
  "decode_stamp_artifact =
     bindS ad_byte (\<lambda>tag. bindS (tagged (decode_node_kind tag) ''unknown stamp node-kind tag'') (\<lambda>k.
     bindS ad_u64 (\<lambda>sz. bindS ad_u32 (\<lambda>m. bindS ad_i128 (\<lambda>mtime.
     bindS ad_byte (\<lambda>flag.
     bindS (if flag = 0 then returnS None
            else if flag = 1 then bindS ad_i128 (\<lambda>c. returnS (Some c))
            else ad_corrupt ''unknown optional ctime tag'') (\<lambda>ctime.
     bindS ad_u64 (\<lambda>hi. bindS ad_u64 (\<lambda>lo.
     returnS \<lparr>stamp_kind = k, stamp_size = sz, stamp_mode = m, mtime_ns = mtime, ctime_ns = ctime,
       file_id = \<lparr>high = hi, low = lo\<rparr>\<rparr>)))))))))"

definition decode_state_artifact :: "bool \<Rightarrow> node_state dec" where
  "decode_state_artifact virtual_state =
     bindS ad_byte (\<lambda>tag. bindS (tagged (decode_node_kind tag) ''unknown node-kind tag'') (\<lambda>k.
     bindS ad_u64 (\<lambda>sz. bindS ad_u32 (\<lambda>m. bindS ad_byte (\<lambda>version.
     if version = 0 \<and> k = Directory \<and> sz = 0 then returnS (directory_state m)
     else if version = 1 \<and> k = File then bindS ad_digest (\<lambda>blob. returnS (file_state blob sz m))
     else if version = 1 \<and> k = Symlink then bindS ad_digest (\<lambda>blob. returnS (symlink_state blob sz m))
     else if version = 2 then
       bindS decode_stamp_artifact (\<lambda>stamp.
       bindS (getS ad_modern) (\<lambda>modern.
       let virtual_mode = modern \<and> virtual_state \<and> k \<in> {File, Directory} \<and> m AND NOT 0x1FF = 0 in
       if stamp_kind stamp \<noteq> k \<or> stamp_size stamp \<noteq> sz \<or> stamp_mode stamp \<noteq> m \<and> \<not> virtual_mode
       then ad_corrupt ''node state and metadata stamp disagree''
       else returnS (with_mode (from_stamp stamp) m)))
     else ad_corrupt ''invalid node content encoding'')))))"

definition decode_optional_state_artifact :: "bool \<Rightarrow> node_state option dec" where
  "decode_optional_state_artifact virtual_state =
     bindS ad_byte (\<lambda>tag.
     if tag = 0 then returnS None
     else if tag = 1 then bindS (decode_state_artifact virtual_state) (\<lambda>s. returnS (Some s))
     else ad_corrupt ''unknown optional-state tag'')"

definition decode_optional_digest :: "digest option dec" where
  "decode_optional_digest =
     bindS ad_byte (\<lambda>tag.
     if tag = 0 then returnS None
     else if tag = 1 then bindS ad_digest (\<lambda>d. returnS (Some d))
     else ad_corrupt ''unknown optional-digest tag'')"

definition decode_bool :: "string \<Rightarrow> bool dec" where
  "decode_bool field =
     bindS ad_byte (\<lambda>tag. if tag = 0 then returnS False else if tag = 1 then returnS True else ad_corrupt field)"

definition decode_effect :: "artifact_limits \<Rightarrow> effect dec" where
  "decode_effect l =
     bindS ad_byte (\<lambda>tag. bindS (getS ad_modern) (\<lambda>modern.
     if tag = 1 then bindS (ad_path l) (\<lambda>p. bindS (decode_optional_state_artifact True) (\<lambda>s. returnS (MetadataRead p s)))
     else if tag = 2 then bindS (ad_path l) (\<lambda>p. bindS ad_digest (\<lambda>d. returnS (ContentRead p d)))
     else if tag = 3 then bindS (ad_path l) (\<lambda>p. bindS ad_digest (\<lambda>d. returnS (DirectoryRead p d)))
     else if tag = 4 then bindS (ad_path l) (\<lambda>p. bindS (decode_state_artifact True) (\<lambda>a. returnS (Create p a)))
     else if tag = 5 then bindS (ad_path l) (\<lambda>p. bindS (decode_state_artifact True) (\<lambda>b.
       bindS (decode_state_artifact True) (\<lambda>a. returnS (ModifyContent p b a))))
     else if tag = 6 then bindS (ad_path l) (\<lambda>p. bindS (decode_state_artifact True) (\<lambda>b. returnS (Delete p b)))
     else if tag = 8 \<and> modern then bindS (ad_path l) (\<lambda>p. bindS (decode_state_artifact True) (\<lambda>b.
       bindS (decode_state_artifact True) (\<lambda>a. returnS (ModifyMetadata p b a))))
     else if tag = 7 then bindS (ad_path l) (\<lambda>p. bindS (ad_path l) (\<lambda>q. bindS (decode_state_artifact True) (\<lambda>b.
       bindS (decode_state_artifact True) (\<lambda>a. returnS (Rename p q b a)))))
     else ad_corrupt ''unknown effect tag''))"

definition decode_risk_metrics :: "risk_metrics dec" where
  "decode_risk_metrics =
     bindS ad_usize (\<lambda>touched. bindS ad_usize (\<lambda>created. bindS ad_usize (\<lambda>modified.
     bindS ad_usize (\<lambda>deleted. bindS ad_usize (\<lambda>renamed. bindS ad_u64 (\<lambda>changed. bindS ad_u16 (\<lambda>ratio.
     bindS ad_usize (\<lambda>executable. bindS ad_usize (\<lambda>symlinks.
     returnS \<lparr>touched_paths = touched, created_paths = created, modified_paths = modified,
       deleted_paths = deleted, renamed_paths = renamed, changed_bytes = changed, delete_ratio_bps = ratio,
       executable_changes = executable, symlink_changes = symlinks\<rparr>)))))))))"

text \<open>\<open>windows(2).all(..)\<close>\<close>

fun strictly_increasing :: "'a::linorder list \<Rightarrow> bool" where
  "strictly_increasing (x # y # xs) \<longleftrightarrow> x < y \<and> strictly_increasing (y # xs)"
| "strictly_increasing _ \<longleftrightarrow> True"

definition decode_risk_manifest :: "risk_manifest dec" where
  "decode_risk_manifest =
     bindS decode_risk_metrics (\<lambda>metrics.
     bindS (collection_length 32 1 ''risk flags'') (\<lambda>count.
     bindS (bounded_vec count ''risk flags'') (\<lambda>_.
     bindS (rd_many count
       (bindS ad_byte (\<lambda>tag. bindS (tagged (decode_risk_flag tag) ''unknown risk-flag tag'') (\<lambda>flag.
        bindS (getS ad_modern) (\<lambda>modern.
        if \<not> modern \<and> flag = Flag_PermissionChange then ad_corrupt ''permission risk in a legacy artifact''
        else returnS flag))))) (\<lambda>flags.
     if \<not> strictly_increasing flags then ad_corrupt ''risk flags are not strictly ordered''
     else bindS ad_digest (\<lambda>d. returnS \<lparr>rm_metrics = metrics, rm_flags = flags, rm_policy = d\<rparr>)))))"

definition decode_decision :: "runtime_decision dec" where
  "decode_decision =
     bindS ad_byte (\<lambda>tag.
     if tag = 1 then returnS DecidedAuto
     else if tag = 2 then bindS decode_risk_manifest (\<lambda>m. returnS (DecidedPending m))
     else ad_corrupt ''unknown runtime-decision tag'')"

definition decode_execution_stats :: "execution_stats dec" where
  "decode_execution_stats =
     bindS ad_u64 (\<lambda>os. bindS ad_u64 (\<lambda>r. bindS ad_u64 (\<lambda>w. bindS ad_u64 (\<lambda>ds. bindS ad_usize (\<lambda>out.
     bindS ad_u64 (\<lambda>denied_count. bindS ad_u64 (\<lambda>result_size.
     returnS \<lparr>st_os_calls = os, st_read_bytes = r, st_write_bytes = w, st_directory_entries = ds,
       st_output_bytes = of_nat out, st_denied_accesses = denied_count, st_result_bytes = result_size\<rparr>)))))))"

definition decode_timings :: "stage_timings dec" where
  "decode_timings =
     bindS ad_u64 (\<lambda>a. bindS ad_u64 (\<lambda>b. bindS ad_u64 (\<lambda>c. bindS ad_u64 (\<lambda>d. bindS ad_u64 (\<lambda>e.
     bindS ad_u64 (\<lambda>f. bindS ad_u64 (\<lambda>g.
     returnS \<lparr>tm_snapshot = a, tm_execute = b, tm_diff = c, tm_policy = d, tm_bind_and_store = e,
       tm_commit = f, tm_total = g\<rparr>)))))))"

definition decode_bash_output :: "artifact_limits \<Rightarrow> 'v execution_output dec" where
  "decode_bash_output l =
     (if al_max_value_bytes l < 4 then failS (AE_Limit ''Bash status'' 4 (al_max_value_bytes l))
      else bindS (ad_string 128 ''Bash profile'') (\<lambda>profile.
      bindS ad_u32 (\<lambda>exit_code.
      if exit_code \<noteq> 0 then ad_corrupt ''failed Bash output in pending artifact''
      else bindS (length_prefixed (al_max_stdout_bytes l) ''stdout'') (\<lambda>stdout.
      bindS (bounded_vec (length stdout) ''stdout'') (\<lambda>_.
      bindS (length_prefixed (al_max_stdout_bytes l - length stdout) ''stderr'') (\<lambda>stderr.
      bindS (bounded_vec (length stderr) ''stderr'') (\<lambda>_.
      let r = \<lparr>br_profile = profile, br_exit_code = exit_code, br_stdout = stdout, br_stderr = stderr\<rparr> in
      bindS (check_bash_output_limits r l) (\<lambda>_. returnS (BashOutput r)))))))))"

definition decode_monty_output :: "'v codec_env \<Rightarrow> artifact_limits \<Rightarrow> 'v execution_output dec" where
  "decode_monty_output env l =
     bindS (length_prefixed (al_max_value_bytes l) ''result value'') (\<lambda>bs. case ce_take env bs of
       Inl detail \<Rightarrow> failS (AE_ValueCodec ''decode'' detail)
     | Inr (v, rest) \<Rightarrow>
         if rest \<noteq> [] then ad_corrupt ''trailing result-value bytes''
         else bindS (ad_string (al_max_stdout_bytes l) ''stdout'') (\<lambda>stdout. returnS (MontyOutput v stdout)))"

definition decode_execution_output :: "'v codec_env \<Rightarrow> artifact_limits \<Rightarrow> 'v execution_output dec" where
  "decode_execution_output env l =
     bindS (getS ad_modern) (\<lambda>modern.
     bindS (if modern then
         bindS ad_byte (\<lambda>tag.
         if tag \<noteq> 1 \<and> tag \<noteq> 2 then ad_corrupt ''unknown or incomplete execution output''
         else bindS ad_byte (\<lambda>complete.
           if complete \<noteq> 1 then ad_corrupt ''unknown or incomplete execution output'' else returnS tag))
       else returnS 1) (\<lambda>tag.
     if tag = 2 then decode_bash_output l else decode_monty_output env l))"

definition decode_event :: "artifact_limits \<Rightarrow> effect_event dec" where
  "decode_event l =
     bindS ad_u64 (\<lambda>n.
     bindS ad_byte (\<lambda>tag. bindS (tagged (decode_effect_origin tag) ''unknown effect-origin tag'') (\<lambda>orig.
     bindS (getS ad_modern) (\<lambda>modern.
     if \<not> modern \<and> orig = FromBashCall then ad_corrupt ''Bash origin in a legacy Monty artifact''
     else bindS (decode_effect l) (\<lambda>e. returnS \<lparr>ev_sequence = n, ev_origin = orig, ev_effect = e\<rparr>)))))"

definition decode_review :: "artifact_limits \<Rightarrow> review_evidence dec" where
  "decode_review l =
     bindS ad_byte (\<lambda>tag.
     bindS (if tag = 0 then returnS None
            else if tag = 1 then bindS (ad_string (al_max_intent_bytes l) ''intent'') (\<lambda>t. returnS (Some t))
            else ad_corrupt ''unknown optional-intent tag'') (\<lambda>intent_text.
     bindS decode_risk_metrics (\<lambda>metrics.
     bindS (collection_length (al_max_effects l) 19 ''review effects'') (\<lambda>count.
     bindS (bounded_vec count ''review effects'') (\<lambda>_.
     bindS (rd_many count (decode_event l)) (\<lambda>effects.
     if \<not> strictly_increasing (map ev_sequence effects)
     then ad_corrupt ''effect sequences are not strictly increasing''
     else bindS (decode_bool ''evidence-complete'') (\<lambda>complete.
     bindS (decode_bool ''evidence-truncated'') (\<lambda>truncated.
     returnS \<lparr>rv_intent = intent_text, rv_metrics = metrics, rv_effects = effects, rv_complete = complete,
       rv_truncated = truncated\<rparr>))))))))"

definition decode_binding :: "transaction_binding dec" where
  "decode_binding =
     bindS ad_digest (\<lambda>base. bindS ad_digest (\<lambda>df. bindS ad_digest (\<lambda>rs. bindS ad_digest (\<lambda>ws.
     bindS ad_digest (\<lambda>pr. bindS ad_digest (\<lambda>po. bindS ad_digest (\<lambda>rc.
     bindS decode_optional_digest (\<lambda>it.
     bindS (getS ad_invocation) (\<lambda>hooked.
     bindS (if hooked then decode_optional_digest else returnS None) (\<lambda>iv.
     bindS (if hooked then decode_optional_digest else returnS None) (\<lambda>ch.
     bindS (getS ad_modern) (\<lambda>modern.
     bindS (if modern then bindS ad_digest (\<lambda>d. returnS (Some d)) else returnS None) (\<lambda>ev.
     returnS \<lparr>base_snapshot = base, diff = df, read_set = rs, write_set = ws, program = pr, policy = po,
       runtime_config = rc, intent = it, invocation = iv, commit_hook = ch, execution_evidence = ev\<rparr>)))))))))))))"

definition decode_entry :: "artifact_limits \<Rightarrow> diff_entry dec" where
  "decode_entry l =
     bindS (ad_path l) (\<lambda>p.
     bindS (decode_optional_state_artifact False) (\<lambda>before.
     bindS (decode_optional_state_artifact True) (\<lambda>after.
     bindS ad_byte (\<lambda>tag. bindS (tagged (decode_diff_kind tag) ''unknown diff-kind tag'') (\<lambda>k.
     returnS \<lparr>entry_path = p, entry_before = before, entry_after = after, entry_kind = k\<rparr>)))))"

definition decode_diff :: "(bytes \<Rightarrow> digest) \<Rightarrow> artifact_limits \<Rightarrow> canonical_diff dec" where
  "decode_diff blake3 l =
     bindS (collection_length (al_max_entries l) 11 ''diff entries'') (\<lambda>count.
     bindS (bounded_vec count ''diff entries'') (\<lambda>_.
     bindS (rd_many count (decode_entry l)) (\<lambda>entries. case from_entries blake3 entries of
       Inl _ \<Rightarrow> ad_corrupt ''decoded diff is not canonical'' | Inr d \<Rightarrow> returnS d)))"

fun insert_all :: "nat \<Rightarrow> (vpath \<times> 'a) dec \<Rightarrow> string \<Rightarrow> (vpath, 'a) btree \<Rightarrow> (vpath, 'a) btree dec" where
  "insert_all 0 m reason acc = returnS acc"
| "insert_all (Suc n) m reason acc = bindS m (\<lambda>(p, x).
     if bt_contains acc p then ad_corrupt reason else insert_all n m reason (bt_insert p x acc))"

definition decode_observation :: "artifact_limits \<Rightarrow> (vpath \<times> read_observation) dec" where
  "decode_observation l =
     bindS (ad_path l) (\<lambda>p.
     bindS ad_byte (\<lambda>tag.
     bindS (if tag = 0 then returnS None
            else if tag = 1 then returnS (Some None)
            else if tag = 2 then bindS (decode_state_artifact False) (\<lambda>s. returnS (Some (Some s)))
            else ad_corrupt ''unknown metadata-observation tag'') (\<lambda>meta.
     bindS decode_optional_digest (\<lambda>cont_digest.
     bindS decode_optional_digest (\<lambda>dir_digest.
     returnS (p, \<lparr>obs_metadata = meta, obs_content = cont_digest, obs_directory = dir_digest\<rparr>))))))"

definition decode_read_set :: "artifact_limits \<Rightarrow> (vpath, read_observation) btree dec" where
  "decode_read_set l =
     bindS (collection_length (al_max_dependencies l) 11 ''read dependencies'') (\<lambda>count.
       insert_all count (decode_observation l) ''duplicate read dependency'' [])"

definition decode_precondition :: "artifact_limits \<Rightarrow> (vpath \<times> write_precondition) dec" where
  "decode_precondition l =
     bindS (ad_path l) (\<lambda>p. bindS (decode_optional_state_artifact False) (\<lambda>s. returnS (p, \<lparr>wp_expected = s\<rparr>)))"

definition decode_write_set :: "artifact_limits \<Rightarrow> (vpath, write_precondition) btree dec" where
  "decode_write_set l =
     bindS (collection_length (al_max_dependencies l) 9 ''write dependencies'') (\<lambda>count.
       insert_all count (decode_precondition l) ''duplicate write dependency'' [])"

text \<open>The header sets the two flags of the decoder.\<close>

definition decode_magic :: "nat dec" where
  "decode_magic =
     bindS (ad_take 8) (\<lambda>magic.
     if magic = artifact_magic 4 then
       bindS (modifyS (\<lambda>d. d\<lparr>ad_invocation := True, ad_modern := True\<rparr>)) (\<lambda>_. returnS 4)
     else if magic = artifact_magic 3 then bindS (modifyS (\<lambda>d. d\<lparr>ad_modern := True\<rparr>)) (\<lambda>_. returnS 3)
     else if magic = artifact_magic 2 then returnS 2
     else if magic = artifact_magic 1 then returnS 1
     else ad_corrupt ''invalid pending-artifact header'')"

definition default_metrics :: risk_metrics where
  "default_metrics = \<lparr>touched_paths = 0, created_paths = 0, modified_paths = 0, deleted_paths = 0,
     renamed_paths = 0, changed_bytes = 0, delete_ratio_bps = 0, executable_changes = 0, symlink_changes = 0\<rparr>"

text \<open>What a legacy artifact without review evidence stands for.\<close>

definition legacy_review :: "runtime_decision \<Rightarrow> review_evidence" where
  "legacy_review decision =
     \<lparr>rv_intent = None, rv_metrics = (case decision of DecidedPending m \<Rightarrow> rm_metrics m | _ \<Rightarrow> default_metrics),
      rv_effects = [], rv_complete = False, rv_truncated = False\<rparr>"

definition decode_fields :: "'v codec_env \<Rightarrow> artifact_limits \<Rightarrow> 'v pending_transaction dec" where
  "decode_fields env l =
     bindS decode_magic (\<lambda>version.
     bindS decode_binding (\<lambda>b.
     bindS (if version = 1 then returnS None else bindS (decode_review l) (\<lambda>r. returnS (Some r))) (\<lambda>review.
     bindS ad_byte (\<lambda>detail.
     if detail \<noteq> 0 \<and> detail \<noteq> 1 then ad_corrupt ''invalid receipt-detail tag''
     else bindS decode_decision (\<lambda>decision.
     bindS (decode_execution_output env l) (\<lambda>out.
     bindS decode_execution_stats (\<lambda>stats.
     bindS decode_timings (\<lambda>timings.
     bindS (decode_diff (ce_blake3 env) l) (\<lambda>d.
     bindS (decode_read_set l) (\<lambda>reads.
     bindS (decode_write_set l) (\<lambda>writes.
     bindS ad_finish (\<lambda>_.
     if diff b \<noteq> cd_digest d \<or> read_set b \<noteq> read_set_digest (ce_blake3 env) reads \<or>
       write_set b \<noteq> write_set_digest (ce_blake3 env) writes
     then failS AE_BindingMismatch
     else
     bindS (case decision of
         DecidedAuto \<Rightarrow> returnS AutoApproved
       | DecidedPending _ \<Rightarrow> returnS PendingApproval
       | DecidedDenied _ \<Rightarrow> ad_corrupt ''denied artifact is pending'') (\<lambda>state.
     returnS \<lparr>pt_binding = b, pt_diff = d, pt_read_set = reads, pt_write_set = writes,
       pt_review = (case review of Some r \<Rightarrow> r | None \<Rightarrow> legacy_review decision),
       pt_receipt = \<lparr>rcp_transaction = transaction_id (ce_blake3 env) b, rcp_base_snapshot = base_snapshot b,
         rcp_state = state, rcp_decision = decision, rcp_diff = cd_digest d,
         rcp_changed_paths = length (cd_entries d), rcp_changes = (if detail = 1 then cd_entries d else []),
         rcp_output = out, rcp_execution = stats, rcp_timings = timings, rcp_commit = None\<rparr>\<rparr>)))))))))))))"

definition decode_pending :: "'v codec_env \<Rightarrow> (nat \<Rightarrow> bool) \<Rightarrow> artifact_limits \<Rightarrow> bytes \<Rightarrow>
    artifact_error + 'v pending_transaction" where
  "decode_pending env alloc l bs =
     (if al_max_bytes l < length bs then Err (AE_Limit ''pending artifact'' (length bs) (al_max_bytes l))
      else bindR (fst (decode_fields env l \<lparr>rd_bytes = bs, rd_offset = 0, ad_modern = False, ad_invocation = False,
          ad_alloc = alloc\<rparr>)) (\<lambda>a.
        bindR (validate_execution_evidence env alloc l a) (\<lambda>_. Ok a)))"

end
