(* ===== verification/ArtifactTrip.thy ===== *)
theory ArtifactTrip
  imports Artifact
begin

text \<open>
  Artifacts survive: what is encoded is what is decoded, sealing in one pass writes the bytes the
  verified codec writes, and counting counts them.  \<open>produces m out\<close> says what an encoder emits
  whatever the encoder's state; \<open>carries\<close> joins it with the decoder that reads it back.
\<close>

section \<open>What an encoder emits\<close>

definition hs_stream :: "hash_sink \<Rightarrow> bytes" where
  "hs_stream h = hs_hashed h @ hs_buffer h"

definition hs_ok :: "hash_sink \<Rightarrow> bool" where
  "hs_ok h \<longleftrightarrow> length (hs_buffer h) < 4096"

lemma hs_new_ok [simp]: "hs_ok hs_new"
  by (simp add: hs_ok_def hs_new_def)

text \<open>The buffered hasher hashes the concatenation of what it was given.\<close>

lemma hs_extend_stream:
  assumes "hs_ok h"
  shows "hs_ok (hs_extend bs h) \<and> hs_stream (hs_extend bs h) = hs_stream h @ bs"
proof -
  define n where "n = min (length bs) (4096 - length (hs_buffer h))"
  show ?thesis
  proof (cases "hs_buffer h = []")
    case True
    then show ?thesis by (simp add: hs_extend_def hs_ok_def hs_stream_def Let_def)
  next
    case buffered: False
    show ?thesis
    proof (cases "length (hs_buffer h @ take n bs) = 4096")
      case True
      then have "hs_extend bs h = (let g = \<lparr>hs_hashed = hs_hashed h @ hs_buffer h @ take n bs, hs_buffer = []\<rparr> in
          if 4096 \<le> length (drop n bs) then g\<lparr>hs_hashed := hs_hashed g @ drop n bs\<rparr>
          else if drop n bs \<noteq> [] then g\<lparr>hs_buffer := drop n bs\<rparr> else g)"
        using buffered by (simp add: hs_extend_def Let_def n_def)
      then show ?thesis by (simp add: hs_ok_def hs_stream_def Let_def)
    next
      case False
      have "length bs \<le> 4096 - length (hs_buffer h)"
      proof (rule ccontr)
        assume "\<not> ?thesis"
        then show False using False assms by (simp add: n_def hs_ok_def)
      qed
      then have all: "drop n bs = []" "take n bs = bs" by (simp_all add: n_def)
      then have "hs_extend bs h = h\<lparr>hs_buffer := hs_buffer h @ bs\<rparr>"
        using buffered False by (simp add: hs_extend_def Let_def n_def)
      then show ?thesis using False all(2) assms
        by (auto simp: hs_ok_def hs_stream_def n_def min_def split: if_splits)
    qed
  qed
qed

definition encoder_ok :: "encoder \<Rightarrow> bool" where
  "encoder_ok e \<longleftrightarrow> (\<forall>h. en_hasher e = Some h \<longrightarrow> hs_ok h)"

definition emitted :: "bytes \<Rightarrow> encoder \<Rightarrow> encoder \<Rightarrow> bool" where
  "emitted x e e' \<longleftrightarrow> en_bytes e' = (if en_retain e then en_bytes e @ x else en_bytes e) \<and>
     en_observed e' = en_observed e + length x \<and> en_retain e' = en_retain e \<and>
     en_digest_active e' = en_digest_active e \<and> en_maximum e' = en_maximum e \<and>
     en_seal_offset e' = en_seal_offset e \<and> en_alloc e' = en_alloc e \<and> encoder_ok e' \<and>
     map_option hs_stream (en_hasher e') =
       map_option (\<lambda>h. hs_stream h @ (if en_digest_active e then x else [])) (en_hasher e) \<and>
     (en_observed e \<le> en_maximum e \<longrightarrow> en_observed e' \<le> en_maximum e)"

lemma emitted_nil: "encoder_ok e \<Longrightarrow> emitted [] e e"
  by (cases "en_hasher e") (auto simp: emitted_def)

lemma emitted_trans: "emitted x a b \<Longrightarrow> emitted y b c \<Longrightarrow> emitted (x @ y) a c"
  by (cases "en_hasher a"; cases "en_hasher b"; cases "en_hasher c") (auto simp: emitted_def)

text \<open>
  An encoder that succeeds emits these bytes; it does succeed when they fit and memory lasts.
  \<open>Inl ()\<close>: it refuses its argument.
\<close>

definition produces :: "enc \<Rightarrow> unit + bytes \<Rightarrow> bool" where
  "produces m out \<longleftrightarrow> (\<forall>e. encoder_ok e \<longrightarrow>
     (\<forall>u e'. m e = (Inr u, e') \<longrightarrow> (\<exists>x. out = Inr x \<and> emitted x e e')) \<and>
     (\<forall>x. out = Inr x \<longrightarrow> en_observed e + length x \<le> en_maximum e \<longrightarrow> en_maximum e < 2 ^ 64 \<longrightarrow>
        (\<forall>n. en_alloc e n) \<longrightarrow> (\<exists>e'. m e = (Inr (), e'))))"

lemma produces_run:
  assumes "produces m out" "encoder_ok e" "m e = (Inr u, e')"
  obtains x where "out = Inr x" "emitted x e e'"
  using assms unfolding produces_def by blast

lemma produces_ok:
  assumes "produces m (Inr x)" "encoder_ok e" "en_observed e + length x \<le> en_maximum e" "en_maximum e < 2 ^ 64"
    "\<forall>n. en_alloc e n"
  obtains e' where "m e = (Inr (), e')" "emitted x e e'"
  using assms unfolding produces_def by (metis old.sum.inject(2))

lemma produces_extend: "produces (extend_from_slice bs) (Inr bs)"
proof -
  have "emitted bs e e'" if "encoder_ok e" "extend_from_slice bs e = (Inr u, e')" for e e' u
  proof (cases "en_hasher e")
    case None
    then show ?thesis using that
      by (auto simp: extend_from_slice_def Let_def emitted_def encoder_ok_def split: if_splits)
  next
    case (Some h)
    then have "hs_ok h" using that(1) by (simp add: encoder_ok_def)
    then show ?thesis using that Some hs_extend_stream[of h bs]
      by (auto simp: extend_from_slice_def Let_def emitted_def encoder_ok_def split: if_splits)
  qed
  moreover have "\<exists>e'. extend_from_slice bs e = (Inr (), e')"
    if "en_observed e + length bs \<le> en_maximum e" "en_maximum e < 2 ^ 64" "\<forall>n. en_alloc e n" for e
    using that by (auto simp: extend_from_slice_def Let_def)
  ultimately show ?thesis unfolding produces_def by blast
qed

lemma produces_nil: "produces (returnS ()) (Inr [])"
  using emitted_nil by (auto simp: produces_def)

lemma produces_refuse: "produces (failS e) (Inl ())"
  by (simp add: produces_def)

definition joined :: "unit + bytes \<Rightarrow> unit + bytes \<Rightarrow> unit + bytes" where
  "joined a b = bindR a (\<lambda>x. bindR b (\<lambda>y. Inr (x @ y)))"

lemma joined_simps [simp]:
  "joined (Inr x) (Inr y) = Inr (x @ y)" "joined (Inl u) b = Inl u" "joined a (Inl u) = Inl ()"
  by (simp_all add: joined_def bindR_def split: sum.split)

lemma joined_Inr: "joined a b = Inr z \<longleftrightarrow> (\<exists>x y. a = Inr x \<and> b = Inr y \<and> z = x @ y)"
  by (cases a; cases b) auto

lemma produces_bindS:
  assumes "produces m a" "produces n b"
  shows "produces (bindS m (\<lambda>_. n)) (joined a b)"
  unfolding produces_def
proof (intro allI impI conjI)
  fix e u e' assume e: "encoder_ok e" "bindS m (\<lambda>_. n) e = (Inr u, e')"
  then obtain v f where f: "m e = (Inr v, f)" "n f = (Inr u, e')" by (auto simp: bindS_Inr)
  obtain x where x: "a = Inr x" "emitted x e f" using produces_run[OF assms(1) e(1) f(1)] .
  have "encoder_ok f" using x(2) by (simp add: emitted_def)
  then obtain y where y: "b = Inr y" "emitted y f e'" using produces_run[OF assms(2) _ f(2)] by blast
  show "\<exists>z. joined a b = Inr z \<and> emitted z e e'" using x y emitted_trans by auto
next
  fix e z
  assume h: "encoder_ok e" "joined a b = Inr z" "en_observed e + length z \<le> en_maximum e" "en_maximum e < 2 ^ 64"
    "\<forall>n. en_alloc e n"
  then obtain x y where xy: "a = Inr x" "b = Inr y" "z = x @ y" by (auto simp: joined_Inr)
  obtain f where f: "m e = (Inr (), f)" "emitted x e f"
    by (rule produces_ok[OF assms(1)[unfolded xy(1)] h(1) _ h(4,5)]) (use h(3) xy in simp)
  obtain e' where "n f = (Inr (), e')"
    by (rule produces_ok[OF assms(2)[unfolded xy(2)], of f]) (use f(2) h xy(3) in \<open>auto simp: emitted_def\<close>)
  then show "\<exists>e'. bindS m (\<lambda>_. n) e = (Inr (), e')" using f(1) by (auto simp: bindS_Inr)
qed

lemma produces_Cons: "produces m a \<Longrightarrow> produces (steps ms) b \<Longrightarrow> produces (steps (m # ms)) (joined a b)"
  by (simp add: produces_bindS)

lemma bindS_returnS [simp]: "bindS m returnS = m"
  by (rule ext) (auto simp: bindS_def returnS_def split: prod.splits sum.splits)

lemma produces_same: "produces m a \<Longrightarrow> a = b \<Longrightarrow> produces m b"
  by simp

section \<open>Encoders and their decoders\<close>

text \<open>The flags a decoder runs under.\<close>

definition flags :: "bool \<Rightarrow> bool \<Rightarrow> _ \<Rightarrow> bool" where
  "flags modern iv m \<longleftrightarrow> m = artifact_decoder.fields modern iv (\<lambda>_. True)"

lemma flags_iff: "flags modern iv (reader.more r) \<longleftrightarrow>
    ad_modern r = modern \<and> ad_invocation r = iv \<and> ad_alloc r = (\<lambda>_. True)"
  by (cases r) (auto simp: flags_def artifact_decoder.defs)

text \<open>What the encoder emits has at least \<open>k\<close> bytes and is read back as \<open>v\<close>.\<close>

definition carries :: "bool \<Rightarrow> bool \<Rightarrow> nat \<Rightarrow> enc \<Rightarrow> 'a dec \<Rightarrow> 'a \<Rightarrow> bool" where
  "carries modern iv k m d v \<longleftrightarrow>
     (\<exists>out. produces m out \<and> (\<forall>x. out = Inr x \<longrightarrow> k \<le> length x \<and> reads_in (flags modern iv) d x v))"

lemma carries_more: "carries mo iv k m d v \<Longrightarrow> j \<le> k \<Longrightarrow> carries mo iv j m d v"
  unfolding carries_def by force

lemma carriesI: "produces m (Inr x) \<Longrightarrow> k \<le> length x \<Longrightarrow> reads_in (flags mo iv) d x v \<Longrightarrow> carries mo iv k m d v"
  unfolding carries_def by blast

lemma carries_refuse: "carries mo iv k (failS e) d v"
  unfolding carries_def using produces_refuse by blast

lemma carries_nil: "v = w \<Longrightarrow> carries mo iv 0 (steps []) (returnS v) w"
  by (rule carriesI[OF produces_nil[folded steps.simps(1)]]) (simp_all add: reads_returnS)

lemma carries_bindS:
  assumes "carries mo iv j m d v" "carries mo iv k n (f v) w"
  shows "carries mo iv (j + k) (bindS m (\<lambda>_. n)) (bindS d f) w"
proof -
  obtain a b where a: "produces m a" "\<forall>x. a = Inr x \<longrightarrow> j \<le> length x \<and> reads_in (flags mo iv) d x v"
    and b: "produces n b" "\<forall>x. b = Inr x \<longrightarrow> k \<le> length x \<and> reads_in (flags mo iv) (f v) x w"
    using assms unfolding carries_def by blast
  show ?thesis
    unfolding carries_def
    by (intro exI[of _ "joined a b"] conjI produces_bindS[OF a(1) b(1)])
       (use a(2) b(2) in \<open>auto simp: joined_Inr intro: reads_bindS\<close>)
qed

lemma carries_Cons:
  "carries mo iv j m d v \<Longrightarrow> carries mo iv k (steps ms) (f v) w \<Longrightarrow>
   carries mo iv (j + k) (steps (m # ms)) (bindS d f) w"
  by (simp add: carries_bindS del: bindS_simps)

lemma carries_assoc:
  "carries mo iv k m (bindS d (\<lambda>x. bindS (f x) g)) v \<Longrightarrow> carries mo iv k m (bindS (bindS d f) g) v"
  by (simp add: bindS_assoc)

lemma carries_ignore: "carries mo iv k (steps ms) d v \<Longrightarrow> carries mo iv k (steps (returnS () # ms)) d v"
  unfolding carries_def by simp

lemma carries_limited:
  assumes "observed \<le> maximum \<Longrightarrow> carries mo iv k (steps ms) d v"
  shows "carries mo iv k (steps (limited field observed maximum # ms)) d v"
proof (cases "observed \<le> maximum")
  case True
  then show ?thesis using assms by (simp add: limited_def)
next
  case False
  then have "steps (limited field observed maximum # ms) = failS (AE_Limit field observed maximum)"
    by (simp add: limited_def)
  then show ?thesis using carries_refuse by simp
qed

lemma carries_flat: "carries mo iv k (steps (ms @ ns)) d v \<Longrightarrow> carries mo iv k (steps (steps ms # ns)) d v"
proof -
  have "steps (ms @ ns) = bindS (steps ms) (\<lambda>_. steps ns)" for ms ns :: "enc list"
    by (induction ms) (simp_all del: opS_apply add: bindS_assoc)
  then show "carries mo iv k (steps (ms @ ns)) d v \<Longrightarrow> ?thesis" by simp
qed

lemma carries_getS:
  "carries mo iv k m (f mo) v \<Longrightarrow> carries mo iv k m (bindS (getS ad_modern) f) v"
  "carries mo iv k m (g iv) v \<Longrightarrow> carries mo iv k m (bindS (getS ad_invocation) g) v"
  unfolding carries_def reads_in_def by (auto simp: flags_iff bindS_def)

lemma carries_tagged:
  "x = Some a \<Longrightarrow> carries mo iv k m (f a) v \<Longrightarrow> carries mo iv k m (bindS (tagged x reason) f) v"
  by (simp add: tagged_def)

lemma carries_bounded: "carries mo iv k m (f ()) v \<Longrightarrow> carries mo iv k m (bindS (bounded_vec n field) f) v"
  unfolding carries_def reads_in_def by (auto simp: flags_iff bindS_def bounded_vec_def)

section \<open>Words, lengths and strings\<close>

lemma reads_ad_take: "length x = n \<Longrightarrow> reads_in C (ad_take n) x x"
  unfolding reads_in_def
proof (intro allI impI)
  fix r :: artifact_decoder and rest :: bytes
  assume h: "length x = n" "C (reader.more r)" "length (rd_bytes r) < 2 ^ 64" "rd_offset r \<le> length (rd_bytes r)"
    "drop (rd_offset r) (rd_bytes r) = x @ rest"
  have "rd_offset r + n \<le> length (rd_bytes r)" using reads_end[OF h(4,5)] h(1) by simp
  moreover have "take n (drop (rd_offset r) (rd_bytes r)) = x" using h(1,5) by simp
  ultimately show "ad_take n r = (Ok x, r\<lparr>rd_offset := rd_offset r + length x\<rparr>)"
    using h(1,3) by (simp add: ad_take_def)
qed

lemma carries_raw: "reads_in (flags mo iv) d x v \<Longrightarrow> carries mo iv (length x) (extend_from_slice x) d v"
  by (rule carriesI[OF produces_extend]) simp_all

lemma carries_byte: "carries mo iv 1 (push b) ad_byte b"
proof -
  have "reads_in (flags mo iv) ad_byte [b] b"
    unfolding ad_byte_def by (rule reads_bindS_last[OF reads_ad_take]) simp_all
  from carries_raw[OF this] show ?thesis by (simp add: push_def)
qed

lemma carries_words:
  "carries mo iv 2 (extend_from_slice (u16_bytes a)) ad_u16 a"
  "carries mo iv 4 (extend_from_slice (u32_bytes b)) ad_u32 b"
  "carries mo iv 8 (extend_from_slice (u64_bytes c)) ad_u64 c"
  "carries mo iv 16 (extend_from_slice (i128_bytes e)) ad_i128 e"
  "carries mo iv 32 (extend_from_slice (as_bytes h)) ad_digest h"
proof -
  have "reads_in (flags mo iv) ad_u16 (u16_bytes a) a" "reads_in (flags mo iv) ad_u32 (u32_bytes b) b"
    "reads_in (flags mo iv) ad_u64 (u64_bytes c) c" "reads_in (flags mo iv) ad_i128 (i128_bytes e) e"
    "reads_in (flags mo iv) ad_digest (as_bytes h) h"
    unfolding ad_u16_def ad_u32_def ad_u64_def ad_i128_def ad_digest_def
    by (rule reads_bindS_last[OF reads_ad_take]; simp)+
  from this[THEN carries_raw] show
    "carries mo iv 2 (extend_from_slice (u16_bytes a)) ad_u16 a"
    "carries mo iv 4 (extend_from_slice (u32_bytes b)) ad_u32 b"
    "carries mo iv 8 (extend_from_slice (u64_bytes c)) ad_u64 c"
    "carries mo iv 16 (extend_from_slice (i128_bytes e)) ad_i128 e"
    "carries mo iv 32 (extend_from_slice (as_bytes h)) ad_digest h" by simp_all
qed

lemma carries_usize: "carries mo iv 8 (encode_len n) ad_usize n"
proof (cases "n < 2 ^ 64")
  case True
  have "carries mo iv (8 + 0) (steps [extend_from_slice (u64_bytes (of_nat n))])
      (bindS ad_u64 (\<lambda>m. returnS (unat m))) n"
    by (rule carries_Cons[where v = "of_nat n", OF carries_words(3)], rule carries_nil)
       (use True in \<open>simp add: unat_of_nat take_bit_nat_eq_self\<close>)
  then show ?thesis using True by (simp del: opS_apply add: encode_len_def ad_usize_def)
next
  case False
  then show ?thesis using carries_refuse by (simp add: encode_len_def)
qed

lemma carries_length:
  assumes "n \<le> maximum" shows "carries mo iv 8 (encode_len n) (ad_length maximum field) n"
proof -
  have "carries mo iv (8 + 0) (steps [encode_len n])
      (bindS ad_usize (\<lambda>n. if maximum < n then failS (AE_Limit field n maximum) else returnS n)) n"
    by (rule carries_Cons[where v = n, OF carries_usize]) (use assms in \<open>simp del: opS_apply steps.simps add: carries_nil\<close>)
  then show ?thesis by (simp del: opS_apply add: ad_length_def)
qed

lemma carries_prefixed:
  assumes "length bs \<le> maximum" shows "carries mo iv 8 (encode_bytes_artifact bs) (length_prefixed maximum field) bs"
proof -
  have raw: "carries mo iv 0 (extend_from_slice bs) (ad_take (length bs)) bs"
    by (rule carries_more[OF carries_raw[OF reads_ad_take]]) simp_all
  have "carries mo iv (8 + 0) (bindS (encode_len (length bs)) (\<lambda>_. extend_from_slice bs))
      (bindS (ad_length maximum field) ad_take) bs"
    by (rule carries_bindS[where f = ad_take and v = "length bs", OF carries_length[OF assms] raw])
  then show ?thesis by (simp add: encode_bytes_artifact_def length_prefixed_def)
qed

lemma carries_string:
  assumes "length s \<le> maximum" "utf8_ok (str_bytes s)"
  shows "carries mo iv 8 (encode_bytes_artifact (str_bytes s)) (ad_string maximum field) s"
proof -
  have "carries mo iv (8 + 0) (steps [encode_bytes_artifact (str_bytes s)]) (ad_string maximum field) s"
    unfolding ad_string_def
    by (rule carries_Cons[where v = "str_bytes s", OF carries_prefixed])
       (use assms in \<open>simp_all del: opS_apply steps.simps add: carries_nil\<close>)
  then show ?thesis by (simp del: opS_apply)
qed

text \<open>A counted collection: the decoder checks that the entries can fit into what is left.\<close>

lemma carries_collection:
  assumes "n \<le> maximum" "0 < least" "least * n \<le> k" "carries mo iv k (steps ms) (f n) v"
  shows "carries mo iv (8 + k) (steps (encode_len n # ms)) (bindS (collection_length maximum least field) f) v"
proof -
  obtain a where a: "produces (encode_len n) a"
      "\<forall>x. a = Inr x \<longrightarrow> 8 \<le> length x \<and> reads_in (flags mo iv) (ad_length maximum field) x n"
    using carries_length[OF assms(1)] unfolding carries_def by blast
  obtain b where b: "produces (steps ms) b" "\<forall>y. b = Inr y \<longrightarrow> k \<le> length y \<and> reads_in (flags mo iv) (f n) y v"
    using assms(4) unfolding carries_def by blast
  have tail: "reads_in (flags mo iv) (bindS (getS (\<lambda>d. length (rd_bytes d) - rd_offset d)) (\<lambda>left.
      bindS (if left div least < n then ad_corrupt reason else returnS n) f)) y v"
    if y: "k \<le> length y" "reads_in (flags mo iv) (f n) y v" for y reason
    unfolding reads_in_def
  proof (intro allI impI)
    fix r :: artifact_decoder and rest :: bytes
    assume r: "flags mo iv (reader.more r)" "length (rd_bytes r) < 2 ^ 64" "rd_offset r \<le> length (rd_bytes r)"
      "drop (rd_offset r) (rd_bytes r) = y @ rest"
    have "least * n \<le> length (rd_bytes r) - rd_offset r" using assms(3) y(1) arg_cong[OF r(4), of length] by simp
    then have "n * least div least \<le> (length (rd_bytes r) - rd_offset r) div least"
      by (intro div_le_mono) (simp add: mult.commute)
    then have room: "\<not> (length (rd_bytes r) - rd_offset r) div least < n" using assms(2) by simp
    have "f n r = (Ok v, r\<lparr>rd_offset := rd_offset r + length y\<rparr>)" using y(2) r unfolding reads_in_def by blast
    then show "bindS (getS (\<lambda>d. length (rd_bytes d) - rd_offset d)) (\<lambda>left.
        bindS (if left div least < n then ad_corrupt reason else returnS n) f) r =
        (Ok v, r\<lparr>rd_offset := rd_offset r + length y\<rparr>)"
      using room by (simp add: bindS_def)
  qed
  have "reads_in (flags mo iv) (bindS (collection_length maximum least field) f) (x @ y) v"
    if "a = Inr x" "b = Inr y" for x y
    unfolding collection_length_def bindS_assoc
    by (rule reads_bindS) (use that a(2) b(2) tail in blast)+
  then show ?thesis
    unfolding carries_def
    using a(2) b(2) produces_Cons[OF a(1) b(1)] by (intro exI[of _ "joined a b"]) (auto simp: joined_Inr)
qed

lemma carries_many:
  assumes "\<forall>x \<in> set xs. carries mo iv k (m x) d x"
  shows "carries mo iv (k * length xs) (forS xs m) (rd_many (length xs) d) xs"
  using assms
proof (induction xs)
  case Nil
  then show ?case using carries_nil[of "[]" "[]" mo iv] by (simp del: opS_apply)
next
  case (Cons x xs)
  have "carries mo iv (k + (k * length xs + 0)) (bindS (m x) (\<lambda>_. steps [forS xs m]))
      (bindS d (\<lambda>x. bindS (rd_many (length xs) d) (\<lambda>xs. returnS (x # xs)))) (x # xs)"
    by (rule carries_bindS[of _ _ _ _ _ x], use Cons.prems in simp,
        rule carries_Cons[OF Cons.IH], use Cons.prems in simp, rule carries_nil) simp
  then show ?case by (simp del: opS_apply)
qed

section \<open>Paths, digests and states\<close>

lemma carries_push:
  "carries mo iv k (steps ms) (f b) v \<Longrightarrow> carries mo iv (1 + k) (steps (push b # ms)) (bindS ad_byte f) v"
  by (rule carries_Cons[OF carries_byte])

lemma carries_last:
  assumes "carries mo iv k m d v" "f v = returnS w"
  shows "carries mo iv k (steps [m]) (bindS d f) w"
proof -
  have "carries mo iv (k + 0) (steps [m]) (bindS d f) w"
    by (rule carries_Cons[OF assms(1)], unfold assms(2), rule carries_nil) (rule refl)
  then show ?thesis by simp
qed

lemma carries_one: "carries mo iv k m d v \<Longrightarrow> carries mo iv k (steps [m]) d v"
  by (simp del: opS_apply)

lemma carries_optional:
  assumes "\<And>a. x = Some a \<Longrightarrow> carries mo iv k (m a) d a"
  shows "carries mo iv 1 (case x of None \<Rightarrow> push 0 | Some a \<Rightarrow> steps [push 1, m a])
    (bindS ad_byte (\<lambda>t. if t = 0 then returnS None
       else if t = 1 then bindS d (\<lambda>a. returnS (Some a)) else ad_corrupt reason)) x"
proof (cases x)
  case None
  have "carries mo iv 1 (steps [push 0]) (bindS ad_byte (\<lambda>t. if t = 0 then returnS None
       else if t = 1 then bindS d (\<lambda>a. returnS (Some a)) else ad_corrupt reason)) None"
    by (rule carries_last[OF carries_byte]) simp
  then show ?thesis using None by (simp del: opS_apply)
next
  case (Some a)
  have "carries mo iv (1 + k) (steps [push 1, m a]) (bindS ad_byte (\<lambda>t. if t = 0 then returnS None
       else if t = 1 then bindS d (\<lambda>a. returnS (Some a)) else ad_corrupt reason)) (Some a)"
    apply (rule carries_push)
    apply (simp only: if_True if_False one_neq_zero refl)
    apply (rule carries_last[OF assms[OF Some]])
    apply (rule refl)
    done
  then show ?thesis using Some carries_more by fastforce
qed

lemmas carries_head = carries_push carries_words[THEN carries_Cons] carries_usize[THEN carries_Cons]

definition path_writable :: "vpath \<Rightarrow> bool" where
  "path_writable p \<longleftrightarrow> parse (as_str p) = Ok p \<and> utf8_ok (str_bytes (as_str p))"

lemma carries_path:
  assumes "path_writable p" shows "carries mo iv 8 (encode_path_artifact l p) (ad_path l) p"
  unfolding encode_path_artifact_def ad_path_def
  by (rule carries_limited, rule carries_last[OF carries_string])
     (use assms in \<open>simp_all add: path_writable_def\<close>)

lemma carries_optional_digest: "carries mo iv 1 (encode_optional_digest_artifact x) decode_optional_digest x"
  unfolding encode_optional_digest_artifact_def decode_optional_digest_def
  by (rule carries_optional[OF carries_words(5)])

lemma decode_node_kind_tag [simp]: "decode_node_kind (node_kind_tag k) = Some k"
  by (cases k) (simp_all add: decode_node_kind_def)

lemma carries_stamp: "carries mo iv 1 (encode_stamp_artifact st) decode_stamp_artifact st"
proof -
  have ctime: "carries mo iv 1 (case c of None \<Rightarrow> push 0 | Some c \<Rightarrow> steps [push 1, extend_from_slice (i128_bytes c)])
      (bindS ad_byte (\<lambda>flag. if flag = 0 then returnS None
         else if flag = 1 then bindS ad_i128 (\<lambda>c. returnS (Some c)) else ad_corrupt reason)) c" for c reason
    by (rule carries_optional[OF carries_words(4)])
  have "\<exists>k. carries mo iv (1 + k) (encode_stamp_artifact st) decode_stamp_artifact st"
    unfolding encode_stamp_artifact_def decode_stamp_artifact_def
    apply (rule exI, rule carries_push, rule carries_tagged, rule decode_node_kind_tag)
    apply (rule carries_head)+
    apply (subst bindS_assoc[symmetric])
    apply (rule carries_Cons[OF ctime])
    apply (rule carries_head)+
    apply (rule carries_nil)
    apply (auto intro!: file_stamp.equality platform_file_id.equality)
    done
  then show ?thesis using carries_more by fastforce
qed

text \<open>
  The states an artifact can hold; \<open>virtual\<close> marks those of the virtual tree, whose mode may differ
  from the one in the stamp.
\<close>

definition state_writable :: "bool \<Rightarrow> node_state \<Rightarrow> bool" where
  "state_writable virtual s \<longleftrightarrow> (case content s of
     None \<Rightarrow> kind s = Directory \<and> nsize s = 0
   | Some (Blob _) \<Rightarrow> kind s \<noteq> Directory
   | Some (Stamp st) \<Rightarrow> stamp_kind st = kind s \<and> stamp_size st = nsize s \<and>
       (stamp_mode st = mode s \<or> virtual \<and> kind s \<noteq> Symlink \<and> mode s AND NOT 0x1FF = 0))"

lemma carries_state:
  assumes "state_writable (mo \<and> virtual) s"
  shows "carries mo iv 1 (encode_state_artifact s) (decode_state_artifact virtual) s"
proof -
  have "\<exists>k. carries mo iv (1 + k) (encode_state_artifact s) (decode_state_artifact virtual) s"
  proof (cases "content s")
    case None
    then have s: "kind s = Directory" "nsize s = 0" "directory_state (mode s) = s"
      using assms by (auto simp: state_writable_def directory_state_def)
    show ?thesis
      unfolding encode_state_artifact_def decode_state_artifact_def None option.case
      apply (rule exI, rule carries_push, rule carries_tagged, rule decode_node_kind_tag)
      apply (rule carries_head)+
      using s apply (simp del: opS_apply steps.simps)
      apply (rule carries_nil, rule refl)
      done
  next
    case (Some c)
    show ?thesis
    proof (cases c)
      case (Blob b)
      then have k: "kind s = File \<or> kind s = Symlink"
        using assms Some by (cases "kind s") (simp_all add: state_writable_def)
      then have st: "kind s = File \<and> file_state b (nsize s) (mode s) = s \<or>
        kind s = Symlink \<and> symlink_state b (nsize s) (mode s) = s"
        using Some Blob by (auto simp: file_state_def symlink_state_def)
      show ?thesis
        unfolding encode_state_artifact_def decode_state_artifact_def Some Blob option.case content_version.case
        apply (rule exI, rule carries_push, rule carries_tagged, rule decode_node_kind_tag)
        apply (rule carries_head)+
        apply (rule carries_flat, unfold append.simps)
        apply (rule carries_push)
        using st apply (auto simp del: opS_apply steps.simps intro!: carries_last carries_words(5))
        done
    next
      case (Stamp st)
      have s: "stamp_kind st = kind s" "stamp_size st = nsize s" "with_mode (from_stamp st) (mode s) = s"
        "stamp_mode st = mode s \<or> mo \<and> virtual \<and> kind s \<noteq> Symlink \<and> mode s AND NOT 0x1FF = 0"
        using assms Some Stamp by (auto simp: state_writable_def with_mode_def from_stamp_def)
      have k: "kind s \<noteq> Symlink \<Longrightarrow> kind s \<in> {File, Directory}" by (cases "kind s") auto
      show ?thesis
        unfolding encode_state_artifact_def decode_state_artifact_def Some Stamp option.case content_version.case
        apply (rule exI, rule carries_push, rule carries_tagged, rule decode_node_kind_tag)
        apply (rule carries_head)+
        apply (rule carries_flat, unfold append.simps)
        apply (rule carries_push)
        apply (simp del: opS_apply steps.simps)
        apply (rule carries_Cons[OF carries_stamp])
        apply (rule carries_getS)
        using s k apply (auto simp del: opS_apply steps.simps simp: Let_def intro!: carries_nil)
        done
    qed
  qed
  then show ?thesis using carries_more by fastforce
qed

lemma carries_optional_state:
  assumes "\<And>a. s = Some a \<Longrightarrow> state_writable (mo \<and> virtual) a"
  shows "carries mo iv 1 (encode_optional_state_artifact s) (decode_optional_state_artifact virtual) s"
  unfolding encode_optional_state_artifact_def decode_optional_state_artifact_def
  by (rule carries_optional[OF carries_state[OF assms]])

end
