(* ===== verification/ArtifactFields.thy ===== *)
theory ArtifactFields
  imports ArtifactTrip
begin

text \<open>
  The fields of an artifact (\<open>crates/vbash/src/artifact.rs\<close>): what each of them must satisfy to be
  read back, and that its decoder reads what its encoder wrote.
\<close>

section \<open>Effects and risk\<close>

fun effect_writable :: "bool \<Rightarrow> effect \<Rightarrow> bool" where
  "effect_writable mo (MetadataRead p s) \<longleftrightarrow> path_writable p \<and> (\<forall>a. s = Some a \<longrightarrow> state_writable mo a)"
| "effect_writable mo (ContentRead p _) \<longleftrightarrow> path_writable p"
| "effect_writable mo (DirectoryRead p _) \<longleftrightarrow> path_writable p"
| "effect_writable mo (Create p a) \<longleftrightarrow> path_writable p \<and> state_writable mo a"
| "effect_writable mo (ModifyContent p b a) \<longleftrightarrow> path_writable p \<and> state_writable mo b \<and> state_writable mo a"
| "effect_writable mo (ModifyMetadata p b a) \<longleftrightarrow> mo \<and> path_writable p \<and> state_writable mo b \<and> state_writable mo a"
| "effect_writable mo (Delete p b) \<longleftrightarrow> path_writable p \<and> state_writable mo b"
| "effect_writable mo (Rename p q b a) \<longleftrightarrow> path_writable p \<and> path_writable q \<and> state_writable mo b \<and> state_writable mo a"

lemma carries_virtual:
  "state_writable mo s \<Longrightarrow> carries mo iv 1 (encode_state_artifact s) (decode_state_artifact True) s"
  by (rule carries_state) simp

lemma carries_optional_virtual:
  "(\<And>a. s = Some a \<Longrightarrow> state_writable mo a) \<Longrightarrow>
   carries mo iv 1 (encode_optional_state_artifact s) (decode_optional_state_artifact True) s"
  by (rule carries_optional_state) simp

lemmas carries_field = carries_path[THEN carries_Cons] carries_virtual[THEN carries_Cons]
  carries_optional_virtual[THEN carries_Cons]

lemma carries_effect:
  assumes "effect_writable mo e"
  shows "carries mo iv 10 (encode_effect l e) (decode_effect l) e"
proof -
  have "\<exists>k. 9 \<le> k \<and> carries mo iv (1 + k) (encode_effect l e) (decode_effect l) e"
    using assms
    apply (cases e)
    apply (simp_all only: encode_effect.simps effect_writable.simps decode_effect_def)
    apply ((elim conjE)?, intro exI conjI[rotated], rule carries_push, rule carries_getS,
        simp del: opS_apply steps.simps bindS_simps,
        ((rule carries_field carries_words(5)[THEN carries_Cons], blast?)+)[1], rule carries_nil, rule refl, simp)+
    done
  then show ?thesis using carries_more by fastforce
qed

lemma carries_metrics: "carries mo iv 1 (encode_risk_metrics m) decode_risk_metrics m"
proof -
  have "carries mo iv (8 + (8 + (8 + (8 + (8 + (8 + (2 + (8 + (8 + 0))))))))) (encode_risk_metrics m) decode_risk_metrics m"
    unfolding encode_risk_metrics_def decode_risk_metrics_def
    by (rule carries_head)+ (rule carries_nil, simp)
  then show ?thesis by (rule carries_more) simp
qed

definition manifest_writable :: "bool \<Rightarrow> risk_manifest \<Rightarrow> bool" where
  "manifest_writable mo m \<longleftrightarrow> strictly_increasing (rm_flags m) \<and> length (rm_flags m) \<le> 32 \<and>
     (mo \<or> Flag_PermissionChange \<notin> set (rm_flags m))"

lemma decode_risk_flag_tag [simp]: "decode_risk_flag (risk_flag_tag f) = Some f"
  by (cases f) (simp_all add: decode_risk_flag_def)

lemma carries_flag:
  assumes "mo \<or> f \<noteq> Flag_PermissionChange"
  shows "carries mo iv 1 (push (risk_flag_tag f))
    (bindS ad_byte (\<lambda>tag. bindS (tagged (decode_risk_flag tag) r) (\<lambda>flag. bindS (getS ad_modern) (\<lambda>modern.
       if \<not> modern \<and> flag = Flag_PermissionChange then ad_corrupt r' else returnS flag)))) f"
proof -
  have keep: "(\<not> mo \<and> f = Flag_PermissionChange) = False" using assms by blast
  have "carries mo iv (1 + 0) (steps [push (risk_flag_tag f)])
    (bindS ad_byte (\<lambda>tag. bindS (tagged (decode_risk_flag tag) r) (\<lambda>flag. bindS (getS ad_modern) (\<lambda>modern.
       if \<not> modern \<and> flag = Flag_PermissionChange then ad_corrupt r' else returnS flag)))) f"
    apply (rule carries_push, rule carries_tagged, rule decode_risk_flag_tag, rule carries_getS)
    apply (unfold keep if_False)
    apply (rule carries_nil, rule refl)
    done
  then show ?thesis by (simp del: opS_apply)
qed

lemma carries_manifest:
  assumes "manifest_writable mo m"
  shows "carries mo iv 1 (encode_risk_manifest m) decode_risk_manifest m"
proof -
  have m: "strictly_increasing (rm_flags m)" "length (rm_flags m) \<le> 32"
    "\<forall>f \<in> set (rm_flags m). mo \<or> f \<noteq> Flag_PermissionChange"
    using assms by (auto simp: manifest_writable_def)
  have "carries mo iv (1 + (8 + (1 * length (rm_flags m) + (32 + 0)))) (encode_risk_manifest m) decode_risk_manifest m"
    unfolding encode_risk_manifest_def decode_risk_manifest_def
    apply (rule carries_Cons[OF carries_metrics])
    apply (rule carries_collection[OF m(2)], simp, simp)
    apply (rule carries_bounded)
    apply (rule carries_Cons[OF carries_many])
    using m(3) carries_flag apply blast
    apply (simp only: m(1) simp_thms if_False)
    apply (rule carries_head, rule carries_nil)
    apply simp
    done
  then show ?thesis by (rule carries_more) simp
qed

fun decision_writable :: "bool \<Rightarrow> runtime_decision \<Rightarrow> bool" where
  "decision_writable mo (DecidedPending m) \<longleftrightarrow> manifest_writable mo m"
| "decision_writable mo _ \<longleftrightarrow> True"

lemma carries_decision:
  assumes "decision_writable mo d"
  shows "carries mo iv 1 (encode_decision d) decode_decision d"
proof (cases d)
  case (DecidedDenied m)
  then show ?thesis using carries_refuse by (simp add: encode_decision_def)
next
  case DecidedAuto
  have "carries mo iv 1 (steps [push 1]) decode_decision DecidedAuto"
    unfolding decode_decision_def by (rule carries_last[OF carries_byte]) simp
  then show ?thesis by (simp del: opS_apply add: DecidedAuto encode_decision_def)
next
  case (DecidedPending m)
  have "carries mo iv (1 + 1) (steps [push 2, encode_risk_manifest m]) decode_decision (DecidedPending m)"
    unfolding decode_decision_def
    apply (rule carries_push)
    apply (simp del: opS_apply steps.simps One_nat_def)
    apply (rule carries_last[OF carries_manifest])
    using assms DecidedPending by simp_all
  then show ?thesis by (simp del: opS_apply steps.simps add: DecidedPending encode_decision_def carries_more)
qed

section \<open>Results and counters\<close>

text \<open>
  What the artifact relies on in the codec of result values: a value it announces and serializes
  without an error fills the announced size and is taken back whole.
\<close>

definition value_law :: "'v codec_env \<Rightarrow> 'v \<Rightarrow> bool" where
  "value_law env v \<longleftrightarrow> (\<forall>n. ce_size env v = Inr n \<longrightarrow> ce_failure env v = None \<longrightarrow>
     length (concat (ce_chunks env v)) = n \<and> ce_take env (concat (ce_chunks env v)) = Inr (v, []))"

fun output_writable :: "'v codec_env \<Rightarrow> 'v execution_output \<Rightarrow> bool" where
  "output_writable env (MontyOutput v stdout) \<longleftrightarrow> value_law env v \<and> utf8_ok (str_bytes stdout)"
| "output_writable env (BashOutput r) \<longleftrightarrow> utf8_ok (str_bytes (br_profile r)) \<and>
     length (br_stdout r) + length (br_stderr r) < 2 ^ 64"

lemma produces_chunks: "produces (forS xs extend_from_slice) (Inr (concat xs))"
proof (induction xs)
  case Nil
  then show ?case using produces_nil by (simp del: opS_apply)
next
  case (Cons x xs)
  show ?case using produces_bindS[OF produces_extend Cons.IH, of x] by (simp del: opS_apply)
qed

lemma produces_stop: "produces m (Inl ()) \<Longrightarrow> produces (steps (m # ms)) (Inl ())"
  by (fastforce simp: produces_def bindS_Inr)

lemma carries_stop: "produces m (Inl ()) \<Longrightarrow> carries mo iv k (steps (m # ms)) d v"
  unfolding carries_def using produces_stop by blast

lemma reads_byte: "reads_in C ad_byte [b] b"
  unfolding ad_byte_def by (rule reads_bindS_last[OF reads_ad_take]) simp_all

lemma carries_output_tag:
  fixes t :: u8
  assumes "t = 1 \<or> t = 2" "produces m (Inr [t, 1])"
  shows "carries mo iv 2 m (bindS ad_byte (\<lambda>tag. if tag \<noteq> 1 \<and> tag \<noteq> 2 then ad_corrupt r
      else bindS ad_byte (\<lambda>complete. if complete \<noteq> 1 then ad_corrupt r else returnS tag))) t"
proof -
  have "reads_in (flags mo iv) (bindS ad_byte (\<lambda>tag. if tag \<noteq> 1 \<and> tag \<noteq> 2 then ad_corrupt r
      else bindS ad_byte (\<lambda>complete. if complete \<noteq> 1 then ad_corrupt r else returnS tag))) ([t] @ [1]) t"
    apply (rule reads_bindS[where a = t, OF reads_byte])
    using assms(1) apply (auto simp del: opS_apply intro!: reads_bindS_last[OF reads_byte])
    done
  then show ?thesis by (intro carriesI[OF assms(2)]) simp_all
qed

text \<open>A length and the chunks of a value, read as one prefixed string.\<close>

lemma carries_value:
  assumes "value_law env v" "ce_size env v = Inr n" "n \<le> maximum"
    "ce_take env (concat (ce_chunks env v)) = Inr (v, []) \<Longrightarrow> carries mo iv k (steps ms) (f (concat (ce_chunks env v))) w"
  shows "carries mo iv 0 (steps (encode_len n # encode_value env v # ms)) (bindS (length_prefixed maximum field) f) w"
proof -
  let ?x = "concat (ce_chunks env v)"
  have tail: "carries mo iv 0 (steps (encode_value env v # ms)) (bindS (ad_take n) f) w"
  proof (cases "ce_failure env v")
    case (Some e)
    have "produces (encode_value env v) (Inl ())"
      using produces_bindS[OF produces_chunks produces_refuse, of "ce_chunks env v" "AE_ValueCodec ''encode'' e"] Some
      by (simp del: opS_apply add: encode_value_def)
    then show ?thesis by (rule carries_stop)
  next
    case None
    have x: "length ?x = n" "ce_take env ?x = Inr (v, [])" using assms None by (simp_all add: value_law_def)
    have "produces (encode_value env v) (Inr ?x)"
      using produces_chunks[of "ce_chunks env v"] None by (simp del: opS_apply add: encode_value_def)
    then have raw: "carries mo iv 0 (encode_value env v) (ad_take n) ?x"
      by (rule carriesI) (simp_all add: x reads_ad_take)
    show ?thesis by (rule carries_more, rule carries_Cons[where f = f, OF raw assms(4)[OF x(2)]]) simp
  qed
  show ?thesis
    unfolding length_prefixed_def bindS_assoc
    by (rule carries_more, rule carries_Cons[OF carries_length[OF assms(3)]], rule tail) simp
qed

lemma carries_monty:
  assumes "value_law env v" "utf8_ok (str_bytes stdout)"
  shows "carries mo iv 0 (encode_execution_output env l mo (MontyOutput v stdout)) (decode_execution_output env l)
    (MontyOutput v stdout)"
proof -
  have body: "carries mo iv 0 (steps
      [(case ce_size env v of Inl detail \<Rightarrow> failS (AE_ValueCodec ''size'' detail)
        | Inr n \<Rightarrow> steps [limited ''result value'' n (al_max_value_bytes l), encode_len n]),
       encode_value env v, limited ''stdout'' (length stdout) (al_max_stdout_bytes l),
       encode_bytes_artifact (str_bytes stdout)])
    (decode_monty_output env l) (MontyOutput v stdout)"
  proof (cases "ce_size env v")
    case (Inl e)
    then show ?thesis using carries_stop[OF produces_refuse] by (simp del: steps.simps)
  next
    case (Inr n)
    have "carries mo iv 8 (steps [limited ''stdout'' (length stdout) (al_max_stdout_bytes l), encode_bytes_artifact (str_bytes stdout)])
        (bindS (ad_string (al_max_stdout_bytes l) ''stdout'') (\<lambda>stdout. returnS (MontyOutput v stdout))) (MontyOutput v stdout)"
      by (rule carries_limited, rule carries_last[OF carries_string]) (use assms(2) in simp_all)
    then show ?thesis
      unfolding Inr sum.case decode_monty_output_def
      apply -
      apply (rule carries_flat, unfold append.simps)
      apply (rule carries_limited)
      apply (rule carries_value[OF assms(1) Inr], assumption)
      apply (simp del: opS_apply steps.simps)
      done
  qed
  show ?thesis
  proof (cases mo)
    case True
    have "produces (steps [push 1, push 1]) (Inr [1, 1])"
      using produces_bindS[OF produces_extend produces_extend, of "[1]" "[1]"] by (simp del: opS_apply add: push_def)
    then have t: "carries True iv 2 (steps [push 1, push 1]) (bindS ad_byte (\<lambda>tag. if tag \<noteq> 1 \<and> tag \<noteq> 2 then ad_corrupt r
      else bindS ad_byte (\<lambda>complete. if complete \<noteq> 1 then ad_corrupt r else returnS tag))) 1" for r
      by (rule carries_output_tag[OF disjI1[OF refl]])
    show ?thesis
      unfolding encode_execution_output_def decode_execution_output_def execution_output.case
      apply (rule carries_getS)
      apply (simp only: True if_True)
      apply (rule carries_more, rule carries_Cons[OF t])
      using body apply (simp del: opS_apply steps.simps add: True)
      apply simp
      done
  next
    case False
    show ?thesis
      unfolding encode_execution_output_def decode_execution_output_def execution_output.case
      apply (rule carries_getS)
      apply (simp only: False if_False)
      apply (rule carries_ignore)
      using body apply (simp del: opS_apply steps.simps add: False)
      done
  qed
qed

definition bash_fits :: "bash_result \<Rightarrow> artifact_limits \<Rightarrow> bool" where
  "bash_fits r l \<longleftrightarrow> length (br_profile r) \<le> 128 \<and> 4 \<le> al_max_value_bytes l \<and>
     min (length (br_stdout r) + length (br_stderr r)) (2 ^ 64 - 1) \<le> al_max_stdout_bytes l"

lemma check_bash_fits: "bash_fits r l \<Longrightarrow> check_bash_output_limits r l = returnS ()"
  by (auto simp: bash_fits_def check_bash_output_limits_def Let_def simp del: opS_apply)

lemma check_bash_refused: "\<not> bash_fits r l \<Longrightarrow> \<exists>e. check_bash_output_limits r l = failS e"
  by (auto simp: bash_fits_def check_bash_output_limits_def Let_def simp del: opS_apply)

lemma carries_bash:
  assumes "utf8_ok (str_bytes (br_profile r))" "length (br_stdout r) + length (br_stderr r) < 2 ^ 64"
  shows "carries mo iv 0 (encode_execution_output env l mo (BashOutput r)) (decode_execution_output env l) (BashOutput r)"
proof (cases "mo \<and> br_exit_code r = 0")
  case False
  then have "\<exists>e. encode_execution_output env l mo (BashOutput r) = failS e"
    by (auto simp: encode_execution_output_def)
  then show ?thesis using carries_refuse by fastforce
next
  case ok: True
  show ?thesis
  proof (cases "bash_fits r l")
    case False
    then obtain e where "(check_bash_output_limits r l :: enc) = failS e" using check_bash_refused by blast
    then show ?thesis using ok carries_stop[OF produces_refuse]
      by (simp del: opS_apply steps.simps add: encode_execution_output_def)
  next
    case fits: True
    have t: "carries True iv 2 (extend_from_slice [2, 1]) (bindS ad_byte (\<lambda>tag. if tag \<noteq> 1 \<and> tag \<noteq> 2 then ad_corrupt r
      else bindS ad_byte (\<lambda>complete. if complete \<noteq> 1 then ad_corrupt r else returnS tag))) 2" for r
      by (rule carries_output_tag[OF disjI2[OF refl] produces_extend])
    have out: "length (br_stdout r) + length (br_stderr r) \<le> al_max_stdout_bytes l"
      "length (br_profile r) \<le> 128" "\<not> al_max_value_bytes l < 4"
      using fits assms(2) by (auto simp: bash_fits_def)
    have bash: "carries mo iv (8 + (4 + (8 + (8 + 0)))) (steps
        [encode_bytes_artifact (str_bytes (br_profile r)),
          extend_from_slice (u32_bytes (br_exit_code r)), encode_bytes_artifact (br_stdout r), encode_bytes_artifact (br_stderr r)])
        (decode_bash_output l) (BashOutput r)"
      unfolding decode_bash_output_def
      apply (simp only: out(3) if_False)
      apply (rule carries_Cons[OF carries_string], use out in simp, use assms in simp)
      apply (rule carries_head)
      apply (simp only: ok if_False simp_thms)
      apply (rule carries_Cons[OF carries_prefixed], use out in simp)
      apply (rule carries_bounded)
      apply (rule carries_Cons[OF carries_prefixed], use out in simp)
      apply (rule carries_bounded)
      apply (insert fits ok, simp only: Let_def)
      apply (subgoal_tac "\<lparr>br_profile = br_profile r, br_exit_code = br_exit_code r, br_stdout = br_stdout r,
          br_stderr = br_stderr r\<rparr> = r")
      apply (simp only: check_bash_fits bindS_simps)
      apply (rule carries_nil, rule refl)
      apply simp
      done
    show ?thesis
      unfolding encode_execution_output_def decode_execution_output_def execution_output.case check_bash_fits[OF fits]
      apply (rule carries_getS)
      apply (insert ok, elim conjE, simp only: if_True if_False simp_thms)
      apply (rule carries_ignore)
      apply (rule carries_more, rule carries_Cons[OF t])
      using bash ok apply (simp del: opS_apply steps.simps)
      apply simp
      done
  qed
qed

lemma carries_output:
  "output_writable env out \<Longrightarrow>
   carries mo iv 0 (encode_execution_output env l mo out) (decode_execution_output env l) out"
  by (cases out) (simp_all add: carries_monty carries_bash)

lemma carries_stats: "carries mo iv 0 (encode_execution_stats s) decode_execution_stats s"
  unfolding encode_execution_stats_def decode_execution_stats_def
  apply (rule carries_more)
  apply (rule carries_head)+
  apply (rule carries_nil)
  by simp_all

lemma carries_timings: "carries mo iv 0 (encode_timings t) decode_timings t"
  unfolding encode_timings_def decode_timings_def list.map
  apply (rule carries_more)
  apply (rule carries_head)+
  apply (rule carries_nil)
  by simp_all

section \<open>Review, binding and dependencies\<close>

lemma decode_effect_origin_tag [simp]: "decode_effect_origin (effect_origin_tag x) = Some x"
  by (cases x) (simp_all add: decode_effect_origin_def)

lemma decode_diff_kind_tag [simp]: "decode_diff_kind (diff_kind_tag x) = Some x"
  by (cases x) (simp_all add: decode_diff_kind_def)

definition event_writable :: "bool \<Rightarrow> effect_event \<Rightarrow> bool" where
  "event_writable mo ev \<longleftrightarrow> effect_writable mo (ev_effect ev) \<and> (mo \<or> ev_origin ev \<noteq> FromBashCall)"

lemma carries_event:
  assumes "event_writable mo ev"
  shows "carries mo iv 19 (steps [extend_from_slice (u64_bytes (ev_sequence ev)),
      push (effect_origin_tag (ev_origin ev)), encode_effect l (ev_effect ev)]) (decode_event l) ev"
proof -
  have keep: "(\<not> mo \<and> ev_origin ev = FromBashCall) = False" and e: "effect_writable mo (ev_effect ev)"
    using assms by (auto simp: event_writable_def)
  show ?thesis
    unfolding decode_event_def
    apply (rule carries_more)
    apply (rule carries_head)+
    apply (rule carries_tagged, rule decode_effect_origin_tag, rule carries_getS)
    apply (unfold keep if_False)
    apply (rule carries_last[OF carries_effect[OF e]])
    by (cases ev) simp_all
qed

definition review_writable :: "bool \<Rightarrow> review_evidence \<Rightarrow> bool" where
  "review_writable mo r \<longleftrightarrow> (\<forall>t. rv_intent r = Some t \<longrightarrow> utf8_ok (str_bytes t)) \<and>
     (\<forall>ev \<in> set (rv_effects r). event_writable mo ev) \<and> strictly_increasing (map ev_sequence (rv_effects r))"

lemma carries_intent:
  assumes "\<And>t. x = Some t \<Longrightarrow> utf8_ok (str_bytes t)"
  shows "carries mo iv 1
    (case x of None \<Rightarrow> push 0
     | Some t \<Rightarrow> steps [limited field (length t) (al_max_intent_bytes l), push 1, encode_bytes_artifact (str_bytes t)])
    (bindS ad_byte (\<lambda>tag. if tag = 0 then returnS None
       else if tag = 1 then bindS (ad_string (al_max_intent_bytes l) field) (\<lambda>t. returnS (Some t))
       else ad_corrupt r)) x"
proof (cases x)
  case None
  have "carries mo iv 1 (steps [push 0]) (bindS ad_byte (\<lambda>tag. if tag = 0 then returnS None
       else if tag = 1 then bindS (ad_string (al_max_intent_bytes l) field) (\<lambda>t. returnS (Some t))
       else ad_corrupt r)) None"
    by (rule carries_last[OF carries_byte]) simp
  then show ?thesis using None by (simp del: opS_apply)
next
  case (Some t)
  have "carries mo iv 1
    (steps [limited field (length t) (al_max_intent_bytes l), push 1, encode_bytes_artifact (str_bytes t)])
    (bindS ad_byte (\<lambda>tag. if tag = 0 then returnS None
       else if tag = 1 then bindS (ad_string (al_max_intent_bytes l) field) (\<lambda>t. returnS (Some t))
       else ad_corrupt r)) (Some t)"
    apply (rule carries_limited)
    apply (rule carries_more, rule carries_push)
    apply (simp del: opS_apply steps.simps One_nat_def)
    apply (rule carries_last[OF carries_string])
    using assms[OF Some] by simp_all
  then show ?thesis by (simp only: Some option.case)
qed

lemma carries_bool: "carries mo iv 1 (push (if b then 1 else 0)) (decode_bool field) b"
proof -
  have "carries mo iv 1 (steps [push (if b then 1 else 0)]) (decode_bool field) b"
    unfolding decode_bool_def by (rule carries_last[OF carries_byte]) simp
  then show ?thesis by (simp del: opS_apply)
qed

lemma carries_review:
  assumes "review_writable mo r"
  shows "carries mo iv 0 (encode_review l r) (decode_review l) r"
proof -
  have r: "\<And>t. rv_intent r = Some t \<Longrightarrow> utf8_ok (str_bytes t)"
    "\<forall>ev \<in> set (rv_effects r). carries mo iv 19 (steps [extend_from_slice (u64_bytes (ev_sequence ev)),
      push (effect_origin_tag (ev_origin ev)), encode_effect l (ev_effect ev)]) (decode_event l) ev"
    "(\<not> strictly_increasing (map ev_sequence (rv_effects r))) = False"
    using assms carries_event by (auto simp: review_writable_def)
  show ?thesis
    unfolding encode_review_def decode_review_def
    apply (rule carries_more)
    apply (subst bindS_assoc[symmetric])
    apply (rule carries_Cons[OF carries_intent[OF r(1)]], assumption)
    apply (rule carries_Cons[OF carries_metrics])
    apply (rule carries_limited)
    apply (rule carries_collection, assumption, simp, rule order.refl)
    apply (rule carries_bounded)
    apply (rule carries_more, rule carries_Cons[OF carries_many[OF r(2)]])
    apply (unfold r(3) if_False)
    apply (rule carries_Cons[OF carries_bool])
    apply (rule carries_last[OF carries_bool])
    by (cases r) simp_all
qed

definition binding_flags :: "bool \<Rightarrow> bool \<Rightarrow> transaction_binding \<Rightarrow> bool" where
  "binding_flags mo iv b \<longleftrightarrow> mo = (execution_evidence b \<noteq> None) \<and>
     iv = (invocation b \<noteq> None \<or> commit_hook b \<noteq> None)"

lemma carries_binding:
  assumes "binding_flags mo iv b"
  shows "carries mo iv 0 (encode_binding b) decode_binding b"
proof -
  have b: "\<lparr>base_snapshot = base_snapshot b, diff = diff b, read_set = read_set b, write_set = write_set b,
      program = program b, policy = policy b, runtime_config = runtime_config b, intent = intent b,
      invocation = invocation b, commit_hook = commit_hook b, execution_evidence = execution_evidence b\<rparr> = b"
    by simp
  have iv: "iv = (invocation b \<noteq> None \<or> commit_hook b \<noteq> None)" using assms by (simp add: binding_flags_def)
  let ?seal = "case execution_evidence b of Some d \<Rightarrow> extend_from_slice (as_bytes d) | None \<Rightarrow> returnS ()"
  let ?rest = "\<lambda>iv' ch. bindS (getS ad_modern) (\<lambda>modern.
      bindS (if modern then bindS ad_digest (\<lambda>d. returnS (Some d)) else returnS None) (\<lambda>ev.
      returnS \<lparr>base_snapshot = base_snapshot b, diff = diff b, read_set = read_set b, write_set = write_set b,
        program = program b, policy = policy b, runtime_config = runtime_config b, intent = intent b,
        invocation = iv', commit_hook = ch, execution_evidence = ev\<rparr>))"
  have tail: "carries mo iv 0 (steps [?seal]) (?rest (invocation b) (commit_hook b)) b"
  proof (cases "execution_evidence b")
    case None
    then have "\<not> mo" using assms by (simp add: binding_flags_def)
    then show ?thesis
      apply -
      apply (rule carries_getS, unfold None option.case, rule carries_ignore)
      apply (simp only: if_False bindS_simps)
      apply (rule carries_nil)
      using b[unfolded None] by simp
  next
    case (Some d)
    then have "mo" using assms by (simp add: binding_flags_def)
    then show ?thesis
      apply -
      apply (rule carries_getS, unfold Some option.case)
      apply (simp only: if_True bindS_assoc bindS_simps)
      apply (rule carries_more, rule carries_last[OF carries_words(5)])
      using b[unfolded Some] by (simp_all del: opS_apply)
  qed
  have "carries mo iv 0 (steps
      [(if iv then steps [encode_optional_digest_artifact (invocation b), encode_optional_digest_artifact (commit_hook b)] else returnS ()),
       ?seal])
     (bindS (if iv then decode_optional_digest else returnS None) (\<lambda>iv'.
      bindS (if iv then decode_optional_digest else returnS None) (?rest iv'))) b"
  proof (cases iv)
    case True
    then show ?thesis
      apply (simp only: if_True)
      apply (rule carries_flat, unfold append.simps)
      apply (rule carries_more, rule carries_Cons[OF carries_optional_digest],
          rule carries_Cons[OF carries_optional_digest])
      using tail by simp_all
  next
    case False
    then show ?thesis
      apply (simp only: if_False bindS_simps)
      apply (rule carries_ignore)
      using tail False iv by simp
  qed
  then show ?thesis
    unfolding encode_binding_def decode_binding_def iv[symmetric]
    apply -
    apply (rule carries_more)
    apply (rule carries_head)+
    apply (rule carries_Cons[OF carries_optional_digest])
    apply (rule carries_getS)
    by simp_all
qed

section \<open>Differences and dependencies\<close>

definition entry_writable :: "bool \<Rightarrow> diff_entry \<Rightarrow> bool" where
  "entry_writable mo e \<longleftrightarrow> path_writable (entry_path e) \<and>
     (\<forall>s. entry_before e = Some s \<longrightarrow> state_writable False s) \<and> (\<forall>s. entry_after e = Some s \<longrightarrow> state_writable mo s)"

lemma carries_entry:
  assumes "entry_writable mo e"
  shows "carries mo iv 11 (steps [encode_path_artifact l (entry_path e), encode_optional_state_artifact (entry_before e),
         encode_optional_state_artifact (entry_after e), push (diff_kind_tag (entry_kind e))]) (decode_entry l) e"
proof -
  have e: "path_writable (entry_path e)" "\<And>s. entry_before e = Some s \<Longrightarrow> state_writable (mo \<and> False) s"
      "\<And>s. entry_after e = Some s \<Longrightarrow> state_writable (mo \<and> True) s"
    using assms by (auto simp: entry_writable_def)
  show ?thesis
    unfolding decode_entry_def
    apply (rule carries_more)
    apply (rule carries_Cons[OF carries_path[OF e(1)]])
    apply (rule carries_Cons[OF carries_optional_state[OF e(2)]], assumption)
    apply (rule carries_Cons[OF carries_optional_state[OF e(3)]], assumption)
    apply (rule carries_push, rule carries_tagged, rule decode_diff_kind_tag, rule carries_nil)
    by (cases e) simp_all
qed

lemma carries_diff:
  assumes "\<forall>e \<in> set (cd_entries d). entry_writable mo e" "from_entries blake3 (cd_entries d) = Inr d'"
  shows "carries mo iv 0 (steps
     [limited field (length (cd_entries d)) (al_max_entries l),
      encode_len (length (cd_entries d)),
      forS (cd_entries d) (\<lambda>e. steps
        [encode_path_artifact l (entry_path e), encode_optional_state_artifact (entry_before e),
         encode_optional_state_artifact (entry_after e), push (diff_kind_tag (entry_kind e))])])
     (decode_diff blake3 l) d'"
  unfolding decode_diff_def
  apply (rule carries_limited)
  apply (rule carries_more)
  apply (rule carries_collection, assumption, simp, rule order.refl)
  apply (rule carries_bounded)
  apply (rule carries_more, rule carries_last[OF carries_many])
  using assms carries_entry by auto

text \<open>Entries inserted in the order of their keys, as a map iterates, build the map.\<close>

lemma bt_insert_end: "\<forall>j \<in> fst ` set m. j < k \<Longrightarrow> bt_insert k v m = m @ [(k, v)]"
  by (induction m) auto

lemma carries_inserts:
  assumes "\<forall>x \<in> set xs. carries mo iv k (m x) d x" "bt_ok (acc @ xs)"
  shows "carries mo iv (k * length xs) (forS xs m) (insert_all (length xs) d reason acc) (acc @ xs)"
  using assms
proof (induction xs arbitrary: acc)
  case Nil
  then show ?case using carries_nil[of acc acc mo iv] by (simp del: opS_apply)
next
  case (Cons x xs)
  obtain p v where x: "x = (p, v)" by (cases x)
  have below: "\<forall>j \<in> fst ` set acc. j < p" using Cons.prems(2) by (auto simp: x bt_ok_def sorted_wrt_append)
  then have new: "\<not> bt_contains acc p" by (auto simp: bt_contains_def map_of_eq_None_iff)
  have "carries mo iv (k * length xs) (forS xs m) (insert_all (length xs) d reason (acc @ [x])) ((acc @ [x]) @ xs)"
    using Cons.IH[of "acc @ [x]"] Cons.prems by simp
  then have rest: "carries mo iv (k * length xs) (steps [forS xs m])
      ((\<lambda>(p, x). if bt_contains acc p then ad_corrupt reason
        else insert_all (length xs) d reason (bt_insert p x acc)) x) (acc @ x # xs)"
    using new bt_insert_end[OF below] by (simp del: opS_apply add: x)
  have "carries mo iv (k + k * length xs) (bindS (m x) (\<lambda>_. steps [forS xs m]))
      (bindS d (\<lambda>(p, x). if bt_contains acc p then ad_corrupt reason
        else insert_all (length xs) d reason (bt_insert p x acc))) (acc @ x # xs)"
    by (rule carries_bindS[of _ _ _ _ _ x], use Cons.prems in simp, rule rest)
  then show ?case by (simp del: opS_apply)
qed

definition observation_writable :: "vpath \<times> read_observation \<Rightarrow> bool" where
  "observation_writable = (\<lambda>(p, obs). path_writable p \<and>
     (\<forall>s. obs_metadata obs = Some (Some s) \<longrightarrow> state_writable False s))"

definition precondition_writable :: "vpath \<times> write_precondition \<Rightarrow> bool" where
  "precondition_writable = (\<lambda>(p, w). path_writable p \<and> (\<forall>s. wp_expected w = Some s \<longrightarrow> state_writable False s))"

lemma carries_observation:
  assumes "observation_writable x"
  shows "carries mo iv 11 (encode_observation l x) (decode_observation l) x"
proof -
  obtain p obs where x: "x = (p, obs)" by (cases x)
  have p: "path_writable p" and s: "\<And>s. obs_metadata obs = Some (Some s) \<Longrightarrow> state_writable (mo \<and> False) s"
    using assms by (auto simp: x observation_writable_def)
  have meta: "carries mo iv 1 (case obs_metadata obs of None \<Rightarrow> push 0 | Some None \<Rightarrow> push 1
       | Some (Some s) \<Rightarrow> steps [push 2, encode_state_artifact s])
      (bindS ad_byte (\<lambda>tag. if tag = 0 then returnS None
            else if tag = 1 then returnS (Some None)
            else if tag = 2 then bindS (decode_state_artifact False) (\<lambda>s. returnS (Some (Some s)))
            else ad_corrupt r)) (obs_metadata obs)" (is "carries _ _ _ _ ?d _") for r
  proof -
    have "carries mo iv 1 (steps [push 0]) ?d None" "carries mo iv 1 (steps [push 1]) ?d (Some None)"
      by (rule carries_last[OF carries_byte], simp)+
    moreover have "carries mo iv 1 (steps [push 2, encode_state_artifact s]) ?d (Some (Some s))"
      if "obs_metadata obs = Some (Some s)" for s
      apply (rule carries_more, rule carries_push)
      apply (simp del: opS_apply steps.simps One_nat_def)
      apply (rule carries_last[OF carries_state[OF s[OF that]]])
      by simp_all
    ultimately show ?thesis by (auto simp del: opS_apply split: option.split)
  qed
  show ?thesis
    unfolding x encode_observation_def decode_observation_def prod.case
    apply (rule carries_more)
    apply (rule carries_Cons[OF carries_path[OF p]])
    apply (subst bindS_assoc[symmetric])
    apply (rule carries_Cons[OF meta])
    apply (rule carries_Cons[OF carries_optional_digest])
    apply (rule carries_last[OF carries_optional_digest])
    by (cases obs) simp_all
qed

lemma carries_precondition:
  assumes "precondition_writable x"
  shows "carries mo iv 9 (case x of (p, w) \<Rightarrow> steps
        [encode_path_artifact l p, encode_optional_state_artifact (wp_expected w)]) (decode_precondition l) x"
proof -
  obtain p w where x: "x = (p, w)" by (cases x)
  have p: "path_writable p" and s: "\<And>s. wp_expected w = Some s \<Longrightarrow> state_writable (mo \<and> False) s"
    using assms by (auto simp: x precondition_writable_def)
  show ?thesis
    unfolding x decode_precondition_def prod.case
    apply (rule carries_more)
    apply (rule carries_Cons[OF carries_path[OF p]])
    apply (rule carries_last[OF carries_optional_state[OF s]], assumption)
    by (cases w) simp_all
qed

lemma carries_read_set:
  assumes "\<forall>x \<in> set m. observation_writable x" "bt_ok m"
  shows "carries mo iv 0 (steps [limited field (length m) (al_max_dependencies l), encode_len (length m),
     forS m (encode_observation l)]) (decode_read_set l) m"
  unfolding decode_read_set_def
  apply (rule carries_limited, rule carries_more)
  apply (rule carries_collection, assumption, simp, rule order.refl)
  apply (rule carries_one)
  using carries_inserts[of m mo iv 11 "encode_observation l" "decode_observation l" "[]"] assms carries_observation
  by auto

lemma carries_write_set:
  assumes "\<forall>x \<in> set m. precondition_writable x" "bt_ok m"
  shows "carries mo iv 0 (steps [limited field (length m) (al_max_dependencies l), encode_len (length m),
     forS m (\<lambda>(p, w). steps [encode_path_artifact l p, encode_optional_state_artifact (wp_expected w)])])
     (decode_write_set l) m"
  unfolding decode_write_set_def
  apply (rule carries_limited, rule carries_more)
  apply (rule carries_collection, assumption, simp, rule order.refl)
  apply (rule carries_one)
  using carries_inserts[of m mo iv 9 "\<lambda>(p, w). steps [encode_path_artifact l p, encode_optional_state_artifact (wp_expected w)]"
      "decode_precondition l" "[]"] assms carries_precondition
  by auto

end
