(* ===== verification/ArtifactSeal.thy ===== *)
theory ArtifactSeal
  imports ArtifactFields
begin

text \<open>
  Whole artifacts: writing and sealing are runs over one encoder whose hasher is switched on and
  off; each run is the concatenation of what its parts emit.  From it follows that the sealing pass
  agrees with the verified codec (\<open>seal_agrees\<close>): same bytes, same size, evidence that validates.
\<close>

section \<open>Every encoder emits a fixed string\<close>

definition emits :: "enc \<Rightarrow> bool" where
  "emits m \<longleftrightarrow> (\<exists>out. produces m out)"

named_theorems emits_intros \<open>encoders whose bytes do not depend on the encoder\<close>

lemma emits_basic [emits_intros]:
  "emits (extend_from_slice bs)" "emits (returnS ())" "emits (failS e)" "emits (push b)"
  unfolding emits_def push_def using produces_extend produces_nil produces_refuse by blast+

lemma emits_bindS [emits_intros]: "emits m \<Longrightarrow> emits n \<Longrightarrow> emits (bindS m (\<lambda>_. n))"
  unfolding emits_def using produces_bindS by blast

lemma emits_steps [emits_intros]: "(\<And>m. m \<in> set ms \<Longrightarrow> emits m) \<Longrightarrow> emits (steps ms)"
  by (induction ms) (auto simp del: opS_apply intro: emits_basic emits_bindS)

lemma emits_forS [emits_intros]: "(\<And>x. x \<in> set xs \<Longrightarrow> emits (m x)) \<Longrightarrow> emits (forS xs m)"
  by (induction xs) (auto simp del: opS_apply intro: emits_basic emits_bindS)

lemma emits_numbers [emits_intros]:
  "emits (encode_len n)" "emits (limited field observed maximum)" "emits (check_bash_output_limits r l)"
  by (auto simp: encode_len_def limited_def check_bash_output_limits_def Let_def simp del: opS_apply
      intro: emits_intros)

lemma emits_bytes [emits_intros]: "emits (encode_bytes_artifact bs)"
  unfolding encode_bytes_artifact_def by (rule emits_intros) (auto intro: emits_intros)

lemma emits_values [emits_intros]:
  "emits (encode_optional_digest_artifact x)" "emits (encode_stamp_artifact st)"
  "emits (encode_path_artifact l p)" "emits (encode_risk_metrics m)"
  "emits (encode_execution_stats s)" "emits (encode_timings t)"
  unfolding encode_optional_digest_artifact_def encode_stamp_artifact_def
    encode_path_artifact_def encode_risk_metrics_def encode_execution_stats_def encode_timings_def
  by (auto intro!: emits_intros split: option.split)

lemma emits_state [emits_intros]: "emits (encode_state_artifact s)" "emits (encode_optional_state_artifact x)"
  unfolding encode_optional_state_artifact_def encode_state_artifact_def
  by (auto intro!: emits_intros split: option.split content_version.split)

lemma emits_effect [emits_intros]: "emits (encode_effect l e)"
  by (cases e) (auto simp del: steps.simps intro!: emits_intros)

lemma emits_parts [emits_intros]:
  "emits (encode_risk_manifest m)" "emits (encode_value env v)" "emits (encode_observation l x)"
  unfolding encode_risk_manifest_def encode_value_def encode_observation_def
  by (auto intro!: emits_intros split: option.split prod.split)

lemma emits_fields [emits_intros]:
  "emits (encode_decision d)" "emits (encode_execution_output env l mo out)" "emits (encode_review l r)"
  "emits (encode_dependencies l a)"
  unfolding encode_decision_def encode_execution_output_def encode_review_def encode_dependencies_def
  by (auto simp del: opS_apply intro!: emits_intros split: option.split prod.split runtime_decision.split
      execution_output.split sum.split)

section \<open>Runs\<close>

definition advance :: "bytes \<Rightarrow> encoder \<Rightarrow> encoder" where
  "advance x e = e\<lparr>en_bytes := (if en_retain e then en_bytes e @ x else en_bytes e),
     en_observed := en_observed e + length x\<rparr>"

lemma emitted_advance:
  assumes "emitted x e e'" shows "e' = (advance x e)\<lparr>en_hasher := en_hasher e'\<rparr>"
  using assms by (cases e; cases e') (simp add: emitted_def advance_def)

lemma advance_append: "advance (x @ y) e = advance y (advance x e)"
  by (cases e) (simp add: advance_def)

text \<open>An encoder that hashes nothing, and one that hashes.\<close>

lemma emitted_plain: "emitted x e e' \<Longrightarrow> en_hasher e = None \<Longrightarrow> e' = advance x e"
  using emitted_advance[of x e e'] by (cases e; cases e') (simp add: emitted_def advance_def)

lemma advance_simps [simp]:
  "en_hasher (advance x e) = en_hasher e" "en_digest_active (advance x e) = en_digest_active e"
  "en_maximum (advance x e) = en_maximum e" "en_alloc (advance x e) = en_alloc e"
  "en_observed (advance x e) = en_observed e + length x" "en_seal_offset (advance x e) = en_seal_offset e"
  "en_retain (advance x e) = en_retain e"
  "advance x (e\<lparr>en_hasher := h\<rparr>) = (advance x e)\<lparr>en_hasher := h\<rparr>"
  "advance x (e\<lparr>en_digest_active := b\<rparr>) = (advance x e)\<lparr>en_digest_active := b\<rparr>"
  "advance x (e\<lparr>en_seal_offset := so\<rparr>) = (advance x e)\<lparr>en_seal_offset := so\<rparr>"
  by (cases e; simp add: advance_def)+

definition hashed :: "encoder \<Rightarrow> bytes option" where
  "hashed e = map_option hs_stream (en_hasher e)"

lemma hashed_simps [simp]:
  "hashed (e\<lparr>en_digest_active := b\<rparr>) = hashed e" "hashed (e\<lparr>en_hasher := h\<rparr>) = map_option hs_stream h"
  "hashed (advance x e) = hashed e"
  by (simp_all add: hashed_def)

lemma emitted_hashed:
  "emitted x e e' \<Longrightarrow> hashed e' = map_option (\<lambda>s. s @ (if en_digest_active e then x else [])) (hashed e)"
  by (cases "en_hasher e") (simp_all add: emitted_def hashed_def)

lemma emitted_active: "emitted x e e' \<Longrightarrow> en_digest_active e' = en_digest_active e"
  by (simp add: emitted_def)

lemma emitted_quiet:
  "emitted x e e' \<Longrightarrow>
   e'\<lparr>en_digest_active := b, en_hasher := None\<rparr> = advance x (e\<lparr>en_digest_active := b, en_hasher := None\<rparr>)"
  by (cases e; cases e') (simp add: emitted_def advance_def)

lemma encoder_ok_update [simp]:
  "encoder_ok (e\<lparr>en_digest_active := b\<rparr>) = encoder_ok e" "encoder_ok (e\<lparr>en_hasher := None\<rparr>)"
  "encoder_ok (e\<lparr>en_hasher := Some h\<rparr>) = hs_ok h"
  "encoder_ok (e\<lparr>en_hasher := Some h, en_digest_active := b\<rparr>) = hs_ok h"
  "encoder_ok (e\<lparr>en_seal_offset := so\<rparr>) = encoder_ok e"
  by (auto simp: encoder_ok_def)

lemma encoder_ok_plain: "en_hasher e = None \<Longrightarrow> encoder_ok e"
  by (simp add: encoder_ok_def)

definition room :: "nat \<Rightarrow> encoder \<Rightarrow> bool" where
  "room n e \<longleftrightarrow> en_observed e + n \<le> en_maximum e \<and> en_maximum e < 2 ^ 64 \<and> (\<forall>n. en_alloc e n)"

lemma room_simps [simp]:
  "room n (e\<lparr>en_digest_active := b\<rparr>) = room n e" "room n (e\<lparr>en_hasher := h\<rparr>) = room n e"
  "room n (e\<lparr>en_seal_offset := so\<rparr>) = room n e"
  by (simp_all add: room_def)

lemma room_advance: "room (length x + n) e \<Longrightarrow> room n (advance x e)"
  by (simp add: room_def)

lemma produces_room:
  assumes "produces m (Inr x)" "encoder_ok e" "room (length x + n) e"
  shows "\<exists>e'. m e = (Inr (), e') \<and> emitted x e e' \<and> room n e' \<and> encoder_ok e'"
proof -
  obtain e' where e': "m e = (Inr (), e')" "emitted x e e'"
    by (rule produces_ok[OF assms(1,2)]) (use assms(3) in \<open>auto simp: room_def\<close>)
  then have "room n e'" using assms(3) by (auto simp: room_def emitted_def)
  then show ?thesis using e' by (auto simp: emitted_def)
qed

definition within :: "encoder \<Rightarrow> bool" where
  "within e \<longleftrightarrow> en_observed e \<le> en_maximum e"

lemma within_simps [simp]:
  "within (e\<lparr>en_digest_active := b\<rparr>) = within e" "within (e\<lparr>en_hasher := h\<rparr>) = within e"
  "within (e\<lparr>en_seal_offset := so\<rparr>) = within e"
  by (simp_all add: within_def)

lemma emitted_within: "emitted x e e' \<Longrightarrow> within e \<Longrightarrow> within e'"
  by (simp add: emitted_def within_def)

lemma hs_finish_stream: "hs_finish blake3 h = blake3 (hs_stream h)"
  by (simp add: hs_finish_def hs_stream_def)

definition evidence_hash :: "(bytes \<Rightarrow> digest) \<Rightarrow> bytes \<Rightarrow> digest" where
  "evidence_hash blake3 x = blake3 (hs_stream hs_new @ [1] @ x)"

lemma evidence_start: "hs_ok (hs_extend [1] hs_new)" "hs_stream (hs_extend [1] hs_new) = hs_stream hs_new @ [1]"
  using hs_extend_stream[OF hs_new_ok, of "[1]"] by simp_all

definition evidence_on :: "'v pending_transaction \<Rightarrow> bool \<Rightarrow> bool" where
  "evidence_on a seal \<longleftrightarrow> seal \<or> execution_evidence (pt_binding a) \<noteq> None"

definition receipt_tail :: "'v codec_env \<Rightarrow> artifact_limits \<Rightarrow> bool \<Rightarrow> 'v pending_transaction \<Rightarrow> enc" where
  "receipt_tail env l mo a = steps [encode_decision (rcp_decision (pt_receipt a)),
     encode_execution_output env l mo (rcp_output (pt_receipt a)),
     encode_execution_stats (rcp_execution (pt_receipt a))]"

definition detail_byte :: "'v pending_transaction \<Rightarrow> u8" where
  "detail_byte a = (if rcp_changes (pt_receipt a) \<noteq> [] then 1 else 0)"

definition evidence_begun :: "bool \<Rightarrow> encoder \<Rightarrow> encoder" where
  "evidence_begun mo e = (if mo then e\<lparr>en_hasher := Some (hs_extend [1] hs_new), en_digest_active := True\<rparr> else e)"

lemma bindS_unit_Inr:
  "bindS m (\<lambda>_::unit. n) s = (Inr y, t) \<longleftrightarrow> (\<exists>u. m s = (Inr (), u) \<and> n u = (Inr y, t))"
  by (auto simp: bindS_Inr)

lemma bindS_stateful: "bindS (modifyS f) k s = k () (f s)" "bindS (getS g) h s = h (g s) s"
  by (simp_all add: bindS_def)

definition evidence_end :: "'v codec_env \<Rightarrow> 'v pending_transaction \<Rightarrow> bool \<Rightarrow>
    (encoder, artifact_error, digest option) op" where
  "evidence_end env a seal = bindS (getS en_hasher) (\<lambda>hasher. case hasher of
       None \<Rightarrow> failS AE_Panic
     | Some h \<Rightarrow>
         bindS (modifyS (en_hasher_update (\<lambda>_. None))) (\<lambda>_.
         if \<not> seal \<and> Some (hs_finish (ce_blake3 env) h) \<noteq> execution_evidence (pt_binding a)
         then failS AE_EvidenceMismatch
         else returnS (Some (hs_finish (ce_blake3 env) h))))"

lemma evidence_end_iff:
  "evidence_end env a seal s = (Inr x, t) \<longleftrightarrow>
    (\<exists>h. en_hasher s = Some h \<and> x = Some (hs_finish (ce_blake3 env) h) \<and>
      (\<not> seal \<longrightarrow> x = execution_evidence (pt_binding a))) \<and> t = s\<lparr>en_hasher := None\<rparr>"
  by (auto simp: evidence_end_def bindS_stateful split: option.split)

lemma receipt_run_iff:
  "encode_receipt_evidence env l a seal e = (Inr dg, e') \<longleftrightarrow>
    (evidence_on a seal \<longrightarrow> review_bound (ce_blake3 env) (pt_binding a) (pt_review a)) \<and>
    (\<exists>e1 e2 e3. encode_review l (pt_review a) (evidence_begun (evidence_on a seal) e) = (Inr (), e1) \<and>
       push (detail_byte a) (e1\<lparr>en_digest_active := False\<rparr>) = (Inr (), e2) \<and>
       receipt_tail env l (evidence_on a seal) a (e2\<lparr>en_digest_active := evidence_on a seal\<rparr>) = (Inr (), e3) \<and>
       (if evidence_on a seal then
          (\<exists>h. en_hasher e3 = Some h \<and> dg = Some (hs_finish (ce_blake3 env) h) \<and>
             (\<not> seal \<longrightarrow> dg = execution_evidence (pt_binding a))) \<and>
          encode_timings (rcp_timings (pt_receipt a)) (e3\<lparr>en_digest_active := False, en_hasher := None\<rparr>) = (Inr (), e')
        else dg = None \<and> encode_timings (rcp_timings (pt_receipt a)) (e3\<lparr>en_digest_active := False\<rparr>) = (Inr (), e')))"
proof (cases "evidence_on a seal")
  case True
  show ?thesis
  proof (cases "review_bound (ce_blake3 env) (pt_binding a) (pt_review a)")
    case False
    then show ?thesis
      unfolding encode_receipt_evidence_def Let_def
      unfolding evidence_on_def[symmetric] using True by simp
  next
    case bound: True
    show ?thesis
      unfolding encode_receipt_evidence_def Let_def
      unfolding evidence_on_def[symmetric] receipt_tail_def[symmetric] detail_byte_def[symmetric]
        evidence_end_def[symmetric]
      using bound True
      by (simp add: evidence_begun_def bindS_stateful bindS_unit_Inr bindS_Inr[of "evidence_end _ _ _"]
          bindS_Inr[of "encode_timings _"] evidence_end_iff)
  qed
next
  case False
  show ?thesis
    unfolding encode_receipt_evidence_def Let_def
    unfolding evidence_on_def[symmetric] receipt_tail_def[symmetric] detail_byte_def[symmetric]
    using False by (simp add: bindS_stateful bindS_unit_Inr evidence_begun_def) blast
qed

lemma evidence_begun_simps:
  "en_digest_active (evidence_begun mo e) = (mo \<or> en_digest_active e)"
  "en_hasher e = None \<Longrightarrow> hashed (evidence_begun mo e) = (if mo then Some (hs_stream hs_new @ [1]) else None)"
  "en_hasher e = None \<Longrightarrow> \<not> en_digest_active e \<Longrightarrow>
     (evidence_begun mo e)\<lparr>en_digest_active := False, en_hasher := None\<rparr> = e"
  "en_hasher e = None \<Longrightarrow> encoder_ok (evidence_begun mo e)"
  using evidence_start by (simp_all add: evidence_begun_def hashed_def encoder_ok_plain)

lemma receipt_states:
  assumes e: "en_hasher e = None" "\<not> en_digest_active e"
    and m: "emitted x1 (evidence_begun mo e) e1" "emitted [b] (e1\<lparr>en_digest_active := False\<rparr>) e2"
      "emitted x2 (e2\<lparr>en_digest_active := mo\<rparr>) e3"
  shows "e3\<lparr>en_digest_active := False, en_hasher := None\<rparr> = advance (x1 @ [b] @ x2) e"
    "hashed e3 = (if mo then Some (hs_stream hs_new @ [1] @ x1 @ x2) else None)"
proof -
  have "e3\<lparr>en_digest_active := False, en_hasher := None\<rparr> =
      advance x2 (e2\<lparr>en_digest_active := False, en_hasher := None\<rparr>)"
    using emitted_quiet[OF m(3), of False] by simp
  also have "e2\<lparr>en_digest_active := False, en_hasher := None\<rparr> =
      advance [b] (e1\<lparr>en_digest_active := False, en_hasher := None\<rparr>)"
    using emitted_quiet[OF m(2), of False] by simp
  also have "e1\<lparr>en_digest_active := False, en_hasher := None\<rparr> = advance x1 e"
    using emitted_quiet[OF m(1), of False] evidence_begun_simps(3)[OF e] by simp
  finally show "e3\<lparr>en_digest_active := False, en_hasher := None\<rparr> = advance (x1 @ [b] @ x2) e"
    by (simp only: advance_append)
  show "hashed e3 = (if mo then Some (hs_stream hs_new @ [1] @ x1 @ x2) else None)"
    using m[THEN emitted_hashed] e by (simp add: evidence_begun_simps)
qed

lemma receipt_forward:
  assumes w: "produces (encode_review l (pt_review a)) o1" "produces (receipt_tail env l (evidence_on a seal) a) o2"
      "produces (encode_timings (rcp_timings (pt_receipt a))) o3"
    and e: "en_hasher e = None" "\<not> en_digest_active e"
    and run: "encode_receipt_evidence env l a seal e = (Inr dg, e')"
  obtains x1 x2 x3 where "o1 = Inr x1" "o2 = Inr x2" "o3 = Inr x3"
    "e' = advance (x1 @ [detail_byte a] @ x2 @ x3) e"
    "dg = (if evidence_on a seal then Some (evidence_hash (ce_blake3 env) (x1 @ x2)) else None)"
    "evidence_on a seal \<longrightarrow> review_bound (ce_blake3 env) (pt_binding a) (pt_review a)"
    "evidence_on a seal \<and> \<not> seal \<longrightarrow> dg = execution_evidence (pt_binding a)"
    "within e \<longrightarrow> within e'" "\<forall>m. rcp_decision (pt_receipt a) \<noteq> DecidedDenied m"
proof -
  let ?m = "evidence_on a seal"
  obtain e1 e2 e3 where r: "encode_review l (pt_review a) (evidence_begun ?m e) = (Inr (), e1)"
      "push (detail_byte a) (e1\<lparr>en_digest_active := False\<rparr>) = (Inr (), e2)"
      "receipt_tail env l ?m a (e2\<lparr>en_digest_active := ?m\<rparr>) = (Inr (), e3)"
    and bound: "?m \<longrightarrow> review_bound (ce_blake3 env) (pt_binding a) (pt_review a)"
    and fin: "if ?m then (\<exists>h. en_hasher e3 = Some h \<and> dg = Some (hs_finish (ce_blake3 env) h) \<and>
             (\<not> seal \<longrightarrow> dg = execution_evidence (pt_binding a))) \<and>
          encode_timings (rcp_timings (pt_receipt a)) (e3\<lparr>en_digest_active := False, en_hasher := None\<rparr>) = (Inr (), e')
        else dg = None \<and> encode_timings (rcp_timings (pt_receipt a)) (e3\<lparr>en_digest_active := False\<rparr>) = (Inr (), e')"
    using run[unfolded receipt_run_iff] by blast
  obtain x1 where x1: "o1 = Inr x1" "emitted x1 (evidence_begun ?m e) e1"
    by (rule produces_run[OF w(1) evidence_begun_simps(4)[OF e(1)] r(1)])
  have "encoder_ok e1" using x1(2) by (simp add: emitted_def)
  then obtain y where "emitted y (e1\<lparr>en_digest_active := False\<rparr>) e2" "y = [detail_byte a]"
    using produces_run[OF produces_extend _ r(2)[unfolded push_def]] by force
  then have y: "emitted [detail_byte a] (e1\<lparr>en_digest_active := False\<rparr>) e2" by simp
  have "encoder_ok e2" using y by (simp add: emitted_def)
  then obtain x2 where x2: "o2 = Inr x2" "emitted x2 (e2\<lparr>en_digest_active := ?m\<rparr>) e3"
    using produces_run[OF w(2) _ r(3)] by force
  note st = receipt_states[OF e x1(2) y x2(2)]
  have "\<not> ?m \<Longrightarrow> e3\<lparr>en_digest_active := False\<rparr> = e3\<lparr>en_digest_active := False, en_hasher := None\<rparr>"
    using st(2) by (cases e3) (simp add: hashed_def)
  then have final: "encode_timings (rcp_timings (pt_receipt a)) (advance (x1 @ [detail_byte a] @ x2) e) = (Inr (), e')"
    using fin st(1) by (cases ?m) auto
  obtain x3 where x3: "o3 = Inr x3" "emitted x3 (advance (x1 @ [detail_byte a] @ x2) e) e'"
    by (rule produces_run[OF w(3) _ final]) (use e in \<open>simp_all add: encoder_ok_plain\<close>)
  show thesis
  proof (rule that[OF x1(1) x2(1) x3(1)])
    show "e' = advance (x1 @ [detail_byte a] @ x2 @ x3) e"
      using emitted_plain[OF x3(2)] e by (simp add: advance_append[symmetric])
    show "dg = (if ?m then Some (evidence_hash (ce_blake3 env) (x1 @ x2)) else None)"
      using fin st(2) by (auto simp: hs_finish_stream evidence_hash_def hashed_def)
    show "within e \<longrightarrow> within e'"
    proof
      assume "within e"
      then have "within (evidence_begun ?m e)" by (simp add: evidence_begun_def)
      then have "within (e3\<lparr>en_digest_active := False, en_hasher := None\<rparr>)"
        using emitted_within[OF x1(2)] emitted_within[OF y] emitted_within[OF x2(2)] by simp
      then show "within e'" using emitted_within[OF x3(2)] st(1) by simp
    qed
    show "\<forall>m. rcp_decision (pt_receipt a) \<noteq> DecidedDenied m"
      using r(3) by (auto simp: receipt_tail_def encode_decision_def)
  qed (use bound fin in auto)
qed

lemma receipt_backward:
  assumes w: "produces (encode_review l (pt_review a)) (Inr x1)"
      "produces (receipt_tail env l (evidence_on a seal) a) (Inr x2)"
      "produces (encode_timings (rcp_timings (pt_receipt a))) (Inr x3)"
    and e: "en_hasher e = None" "\<not> en_digest_active e"
    and space: "room (length (x1 @ [detail_byte a] @ x2 @ x3)) e"
    and bound: "evidence_on a seal \<longrightarrow> review_bound (ce_blake3 env) (pt_binding a) (pt_review a)"
      "evidence_on a seal \<and> \<not> seal \<longrightarrow>
         Some (evidence_hash (ce_blake3 env) (x1 @ x2)) = execution_evidence (pt_binding a)"
  shows "encode_receipt_evidence env l a seal e =
    (Inr (if evidence_on a seal then Some (evidence_hash (ce_blake3 env) (x1 @ x2)) else None),
     advance (x1 @ [detail_byte a] @ x2 @ x3) e)"
proof -
  let ?m = "evidence_on a seal"
  have r0: "room (length x1 + (length [detail_byte a] + (length x2 + length x3))) (evidence_begun ?m e)"
    using space by (auto simp: evidence_begun_def room_def)
  obtain e1 where e1: "encode_review l (pt_review a) (evidence_begun ?m e) = (Inr (), e1)"
      "emitted x1 (evidence_begun ?m e) e1"
    and r1: "room (length [detail_byte a] + (length x2 + length x3)) e1" "encoder_ok e1"
    using produces_room[OF w(1) evidence_begun_simps(4)[OF e(1)] r0] by blast
  obtain e2 where e2: "push (detail_byte a) (e1\<lparr>en_digest_active := False\<rparr>) = (Inr (), e2)"
      "emitted [detail_byte a] (e1\<lparr>en_digest_active := False\<rparr>) e2"
    and r2: "room (length x2 + length x3) e2" "encoder_ok e2"
    unfolding push_def
    using produces_room[OF produces_extend, of "e1\<lparr>en_digest_active := False\<rparr>" "[detail_byte a]"] r1 by auto
  obtain e3 where e3: "receipt_tail env l ?m a (e2\<lparr>en_digest_active := ?m\<rparr>) = (Inr (), e3)"
      "emitted x2 (e2\<lparr>en_digest_active := ?m\<rparr>) e3"
    using produces_room[OF w(2), of "e2\<lparr>en_digest_active := ?m\<rparr>"] r2 by auto
  note st = receipt_states[OF e e1(2) e2(2) e3(2)]
  have r3: "room (length x3 + 0) (advance (x1 @ [detail_byte a] @ x2) e)"
    using space by (auto simp: room_def)
  obtain e4 where e4: "encode_timings (rcp_timings (pt_receipt a)) (advance (x1 @ [detail_byte a] @ x2) e) = (Inr (), e4)"
    using produces_room[OF w(3) encoder_ok_plain r3] e by auto
  have "\<exists>dg. encode_receipt_evidence env l a seal e = (Inr dg, e4)"
  proof (cases ?m)
    case True
    then obtain h where h: "en_hasher e3 = Some h" "hs_stream h = hs_stream hs_new @ [1] @ x1 @ x2"
      using st(2) by (auto simp: hashed_def)
    have "hs_finish (ce_blake3 env) h = evidence_hash (ce_blake3 env) (x1 @ x2)"
      by (simp add: hs_finish_stream evidence_hash_def h(2))
    then show ?thesis
      unfolding receipt_run_iff using True bound e1(1) e2(1) e3(1) e4 st(1) h(1) by auto
  next
    case False
    then have "e3\<lparr>en_digest_active := False\<rparr> = e3\<lparr>en_digest_active := False, en_hasher := None\<rparr>"
      using st(2) by (cases e3) (simp add: hashed_def)
    then show ?thesis
      unfolding receipt_run_iff using False bound e1(1) e2(1) e3(1) e4 st(1) by auto
  qed
  then obtain dg where run: "encode_receipt_evidence env l a seal e = (Inr dg, e4)" by blast
  show ?thesis
    by (rule receipt_forward[OF w e run]) (simp add: run)
qed

section \<open>Whole artifacts\<close>

definition written_binding :: "'v pending_transaction \<Rightarrow> bool \<Rightarrow> transaction_binding" where
  "written_binding a seal = (if seal then (pt_binding a)\<lparr>execution_evidence := Some 0\<rparr> else pt_binding a)"

lemma fields_run_iff:
  "write_pending_fields env l a seal e = (Inr dg, e') \<longleftrightarrow>
    (evidence_on a seal \<or> \<not> needs_modern a) \<and>
    (\<exists>v e1 e2 e3. artifact_version (evidence_on a seal) (pt_binding a) = Inr v \<and>
       extend_from_slice (artifact_magic v) e = (Inr (), e1) \<and>
       encode_binding (written_binding a seal) e1 = (Inr (), e2) \<and>
       encode_receipt_evidence env l a seal
         (if seal then e2\<lparr>en_seal_offset := Some (en_observed e2 - 32)\<rparr> else e2) = (Inr dg, e3) \<and>
       encode_dependencies l a e3 = (Inr (), e'))"
  unfolding write_pending_fields_def Let_def
  unfolding evidence_on_def[symmetric]
  by (cases "artifact_version (evidence_on a seal) (pt_binding a)")
    (auto simp: bindS_Inr bindS_stateful bindS_unit_Inr written_binding_def)

definition parts :: "'v codec_env \<Rightarrow> artifact_limits \<Rightarrow> 'v pending_transaction \<Rightarrow> bool \<Rightarrow>
    bytes \<Rightarrow> bytes \<Rightarrow> bytes \<Rightarrow> bytes \<Rightarrow> bool" where
  "parts env l a mo x1 x2 x3 x4 \<longleftrightarrow> produces (encode_review l (pt_review a)) (Inr x1) \<and>
     produces (receipt_tail env l mo a) (Inr x2) \<and>
     produces (encode_timings (rcp_timings (pt_receipt a))) (Inr x3) \<and>
     produces (encode_dependencies l a) (Inr x4)"

definition body_of :: "'v pending_transaction \<Rightarrow> bytes \<Rightarrow> bytes \<Rightarrow> bytes \<Rightarrow> bytes \<Rightarrow> bytes" where
  "body_of a x1 x2 x3 x4 = x1 @ [detail_byte a] @ x2 @ x3 @ x4"

lemma artifact_magic_length [simp]: "length (artifact_magic v) = 8"
  by (simp add: artifact_magic_def)

lemma emits_tail: "emits (receipt_tail env l mo a)"
  unfolding receipt_tail_def by (auto intro!: emits_intros)

lemma fields_forward:
  assumes wb: "produces (encode_binding (written_binding a seal)) ob"
    and e: "en_hasher e = None" "\<not> en_digest_active e"
    and run: "write_pending_fields env l a seal e = (Inr dg, e')"
  obtains v xb x1 x2 x3 x4 where "within e \<longrightarrow> within e'" "\<forall>m. rcp_decision (pt_receipt a) \<noteq> DecidedDenied m" "evidence_on a seal \<or> \<not> needs_modern a"
    "artifact_version (evidence_on a seal) (pt_binding a) = Inr v" "ob = Inr xb"
    "parts env l a (evidence_on a seal) x1 x2 x3 x4"
    "e' = (advance (artifact_magic v @ xb @ body_of a x1 x2 x3 x4) e)
      \<lparr>en_seal_offset := (if seal then Some (en_observed e + 8 + length xb - 32) else en_seal_offset e)\<rparr>"
    "dg = (if evidence_on a seal then Some (evidence_hash (ce_blake3 env) (x1 @ x2)) else None)"
    "evidence_on a seal \<longrightarrow> review_bound (ce_blake3 env) (pt_binding a) (pt_review a)"
    "evidence_on a seal \<and> \<not> seal \<longrightarrow> dg = execution_evidence (pt_binding a)"
proof -
  obtain v e1 e2 e3 where r: "extend_from_slice (artifact_magic v) e = (Inr (), e1)"
      "encode_binding (written_binding a seal) e1 = (Inr (), e2)"
      "encode_receipt_evidence env l a seal
         (if seal then e2\<lparr>en_seal_offset := Some (en_observed e2 - 32)\<rparr> else e2) = (Inr dg, e3)"
      "encode_dependencies l a e3 = (Inr (), e')"
    and v: "artifact_version (evidence_on a seal) (pt_binding a) = Inr v" "evidence_on a seal \<or> \<not> needs_modern a"
    using run[unfolded fields_run_iff] by blast
  obtain o1 o2 o3 o4 where w: "produces (encode_review l (pt_review a)) o1"
      "produces (receipt_tail env l (evidence_on a seal) a) o2"
      "produces (encode_timings (rcp_timings (pt_receipt a))) o3" "produces (encode_dependencies l a) o4"
    using emits_tail emits_fields(3,4) emits_values(6) unfolding emits_def by metis
  obtain y where "emitted y e e1" "y = artifact_magic v"
    using produces_run[OF produces_extend encoder_ok_plain[OF e(1)] r(1)] by force
  then have e1: "e1 = advance (artifact_magic v) e" using emitted_plain e(1) by blast
  obtain xb where xb: "ob = Inr xb" "emitted xb e1 e2"
    by (rule produces_run[OF wb _ r(2)]) (use e e1 in \<open>simp_all add: encoder_ok_plain\<close>)
  have e2: "e2 = advance (artifact_magic v @ xb) e"
    using emitted_plain[OF xb(2)] e e1 by (simp add: advance_append)
  let ?e2 = "if seal then e2\<lparr>en_seal_offset := Some (en_observed e2 - 32)\<rparr> else e2"
  have plain: "en_hasher ?e2 = None" "\<not> en_digest_active ?e2" using e2 e by simp_all
  obtain x1 x2 x3 where x: "o1 = Inr x1" "o2 = Inr x2" "o3 = Inr x3"
      "e3 = advance (x1 @ [detail_byte a] @ x2 @ x3) ?e2"
    and dg: "dg = (if evidence_on a seal then Some (evidence_hash (ce_blake3 env) (x1 @ x2)) else None)"
      "evidence_on a seal \<longrightarrow> review_bound (ce_blake3 env) (pt_binding a) (pt_review a)"
      "evidence_on a seal \<and> \<not> seal \<longrightarrow> dg = execution_evidence (pt_binding a)"
    and more: "within ?e2 \<longrightarrow> within e3" "\<forall>m. rcp_decision (pt_receipt a) \<noteq> DecidedDenied m"
    by (rule receipt_forward[OF w(1-3) plain r(3)])
  obtain x4 where x4: "o4 = Inr x4" "emitted x4 e3 e'"
    by (rule produces_run[OF w(4) _ r(4)]) (use plain x(4) in \<open>simp_all add: encoder_ok_plain\<close>)
  have "e' = advance (body_of a x1 x2 x3 x4) ?e2"
    using emitted_plain[OF x4(2)] plain x(4) by (simp add: body_of_def advance_append[symmetric])
  then have "e' = (advance (artifact_magic v @ xb @ body_of a x1 x2 x3 x4) e)
      \<lparr>en_seal_offset := (if seal then Some (en_observed e + 8 + length xb - 32) else en_seal_offset e)\<rparr>"
    by (cases e) (simp add: e2 advance_def)
  moreover have "within e \<longrightarrow> within e'"
    using emitted_within[OF \<open>emitted y e e1\<close>] emitted_within[OF xb(2)] more(1) emitted_within[OF x4(2)] by simp
  moreover have "parts env l a (evidence_on a seal) x1 x2 x3 x4"
    using w x x4(1) by (simp add: parts_def)
  ultimately show thesis using that more(2) v xb(1) dg by blast
qed

lemma fields_backward:
  assumes wb: "produces (encode_binding (written_binding a seal)) (Inr xb)"
    and w: "parts env l a (evidence_on a seal) x1 x2 x3 x4"
    and e: "en_hasher e = None" "\<not> en_digest_active e"
    and v: "evidence_on a seal \<or> \<not> needs_modern a" "artifact_version (evidence_on a seal) (pt_binding a) = Inr v"
    and space: "room (length (artifact_magic v @ xb @ body_of a x1 x2 x3 x4)) e"
    and bound: "evidence_on a seal \<longrightarrow> review_bound (ce_blake3 env) (pt_binding a) (pt_review a)"
      "evidence_on a seal \<and> \<not> seal \<longrightarrow>
         Some (evidence_hash (ce_blake3 env) (x1 @ x2)) = execution_evidence (pt_binding a)"
  shows "write_pending_fields env l a seal e =
    (Inr (if evidence_on a seal then Some (evidence_hash (ce_blake3 env) (x1 @ x2)) else None),
     (advance (artifact_magic v @ xb @ body_of a x1 x2 x3 x4) e)
      \<lparr>en_seal_offset := (if seal then Some (en_observed e + 8 + length xb - 32) else en_seal_offset e)\<rparr>)"
proof -
  have r0: "room (length (artifact_magic v) + (length xb + length (body_of a x1 x2 x3 x4))) e"
    using space by simp
  obtain e1 where e1: "extend_from_slice (artifact_magic v) e = (Inr (), e1)" "emitted (artifact_magic v) e e1"
    and r1: "room (length xb + length (body_of a x1 x2 x3 x4)) e1" "encoder_ok e1"
    using produces_room[OF produces_extend encoder_ok_plain[OF e(1)] r0] by blast
  have a1: "e1 = advance (artifact_magic v) e" using emitted_plain[OF e1(2) e(1)] .
  obtain e2 where e2: "encode_binding (written_binding a seal) e1 = (Inr (), e2)" "emitted xb e1 e2"
    and r2: "room (length (body_of a x1 x2 x3 x4)) e2"
    using produces_room[OF wb r1(2,1)] by blast
  have a2: "e2 = advance (artifact_magic v @ xb) e"
    using emitted_plain[OF e2(2)] e a1 by (simp add: advance_append)
  let ?e2 = "if seal then e2\<lparr>en_seal_offset := Some (en_observed e2 - 32)\<rparr> else e2"
  let ?e3 = "advance (x1 @ [detail_byte a] @ x2 @ x3) ?e2"
  have plain: "en_hasher ?e2 = None" "\<not> en_digest_active ?e2" using a2 e by simp_all
  have r3: "room (length (x1 @ [detail_byte a] @ x2 @ x3) + length x4) ?e2"
    using r2 by (simp add: body_of_def add.assoc)
  then have "room (length (x1 @ [detail_byte a] @ x2 @ x3)) ?e2" by (simp add: room_def)
  then have e3: "encode_receipt_evidence env l a seal ?e2 =
      (Inr (if evidence_on a seal then Some (evidence_hash (ce_blake3 env) (x1 @ x2)) else None), ?e3)"
    using w by (intro receipt_backward[OF _ _ _ plain _ bound]) (simp_all add: parts_def)
  have "room (length x4 + 0) ?e3" using room_advance[OF r3] by simp
  then obtain e4 where e4: "encode_dependencies l a ?e3 = (Inr (), e4)" "emitted x4 ?e3 e4"
    using produces_room[OF _ encoder_ok_plain, of "encode_dependencies l a" x4 ?e3 0] w plain by (auto simp: parts_def)
  have "e4 = advance (body_of a x1 x2 x3 x4) ?e2"
    using emitted_plain[OF e4(2)] plain by (simp add: body_of_def advance_append[symmetric])
  also have "\<dots> = (advance (artifact_magic v @ xb @ body_of a x1 x2 x3 x4) e)
      \<lparr>en_seal_offset := (if seal then Some (en_observed e + 8 + length xb - 32) else en_seal_offset e)\<rparr>"
    by (cases e) (simp add: a2 advance_def)
  finally show ?thesis using v e1(1) e2(1) e3 e4(1) unfolding fields_run_iff by blast
qed

lemma produces_unique:
  assumes "produces m (Inr x)" "produces m out" "length x < 2 ^ 64"
  shows "out = Inr x"
proof -
  let ?e = "encoder_new (\<lambda>_. True) (length x)"
  have e: "encoder_ok ?e" "room (length x + 0) ?e" "en_bytes ?e = []" "en_retain ?e"
    using assms(3) by (simp_all add: encoder_new_def encoder_ok_def room_def)
  obtain e' where e': "m ?e = (Inr (), e')" "emitted x ?e e'" using produces_room[OF assms(1) e(1,2)] by blast
  obtain y where "out = Inr y" "emitted y ?e e'" by (rule produces_run[OF assms(2) e(1) e'(1)])
  then show ?thesis using e'(2) e(3,4) by (simp add: emitted_def)
qed

lemma carries_reads:
  "carries mo iv k m d v \<Longrightarrow> produces m (Inr x) \<Longrightarrow> length x < 2 ^ 64 \<Longrightarrow> reads_in (flags mo iv) d x v"
  unfolding carries_def using produces_unique by blast

lemma produces_split:
  assumes "produces (steps (m # ms)) (Inr x)" "length x < 2 ^ 64" "emits m" "emits (steps ms)"
  obtains y z where "x = y @ z" "produces m (Inr y)" "produces (steps ms) (Inr z)"
proof -
  obtain o1 o2 where o: "produces m o1" "produces (steps ms) o2" using assms(3,4) by (auto simp: emits_def)
  have "joined o1 o2 = Inr x" using produces_unique[OF assms(1) produces_Cons[OF o] assms(2)] .
  then show thesis using that o by (auto simp: joined_Inr)
qed

section \<open>The evidence of a sealed artifact\<close>

lemma evidence_digest_of_parts:
  assumes "parts env l a True x1 x2 x3 x4" "\<forall>m. rcp_decision (pt_receipt a) \<noteq> DecidedDenied m"
    and "1 + length x1 + length x2 \<le> al_max_bytes l" "al_max_bytes l < 2 ^ 64" "\<forall>n. alloc n"
  shows "execution_evidence_digest env alloc l (rcp_output (pt_receipt a)) (rcp_execution (pt_receipt a))
    (pt_review a) (rcp_decision (pt_receipt a)) = Inr (evidence_hash (ce_blake3 env) (x1 @ x2))"
proof -
  let ?e = "encoder_hashing alloc (al_max_bytes l)"
  have "evidence_steps env l (rcp_output (pt_receipt a)) (rcp_execution (pt_receipt a)) (pt_review a)
      (rcp_decision (pt_receipt a)) = bindS (push 1) (\<lambda>_. bindS (encode_review l (pt_review a)) (\<lambda>_. receipt_tail env l True a))"
    using assms(2) by (simp del: opS_apply add: evidence_steps_def receipt_tail_def split: runtime_decision.split)
  then have p: "produces (evidence_steps env l (rcp_output (pt_receipt a)) (rcp_execution (pt_receipt a)) (pt_review a)
      (rcp_decision (pt_receipt a))) (Inr ([1] @ x1 @ x2))"
    using produces_bindS[OF produces_extend produces_bindS, of _ _ _ _ "[1]"] assms(1)
    unfolding parts_def push_def by (metis joined_simps(1))
  have e: "encoder_ok ?e" "room (length ([1] @ x1 @ x2) + 0) ?e" "en_hasher ?e = Some hs_new" "en_digest_active ?e"
    using assms(3-5) by (simp_all add: encoder_hashing_def encoder_new_def encoder_ok_def room_def)
  obtain e' where e': "evidence_steps env l (rcp_output (pt_receipt a)) (rcp_execution (pt_receipt a)) (pt_review a)
      (rcp_decision (pt_receipt a)) ?e = (Inr (), e')" "emitted ([1] @ x1 @ x2) ?e e'"
    using produces_room[OF p e(1,2)] by blast
  have "hashed e' = Some (hs_stream hs_new @ [1] @ x1 @ x2)"
    using emitted_hashed[OF e'(2)] e(3,4) by (simp add: hashed_def)
  then show ?thesis
    by (auto simp: execution_evidence_digest_def e'(1) hashed_def hs_finish_stream evidence_hash_def)
qed

lemma binding_slot:
  "\<exists>slot. \<forall>d. produces (encode_binding (b\<lparr>execution_evidence := Some d\<rparr>)) (joined slot (Inr (as_bytes d)))"
proof -
  define pre where "pre = steps
     [extend_from_slice (as_bytes (base_snapshot b)), extend_from_slice (as_bytes (diff b)),
      extend_from_slice (as_bytes (read_set b)), extend_from_slice (as_bytes (write_set b)),
      extend_from_slice (as_bytes (program b)), extend_from_slice (as_bytes (policy b)),
      extend_from_slice (as_bytes (runtime_config b)), encode_optional_digest_artifact (intent b),
      (if invocation b \<noteq> None \<or> commit_hook b \<noteq> None
       then steps [encode_optional_digest_artifact (invocation b), encode_optional_digest_artifact (commit_hook b)]
       else returnS ())]"
  have "emits pre" unfolding pre_def by (auto intro!: emits_intros simp del: opS_apply)
  then obtain slot where "produces pre slot" by (auto simp: emits_def)
  moreover have "encode_binding (b\<lparr>execution_evidence := Some d\<rparr>) = bindS pre (\<lambda>_. extend_from_slice (as_bytes d))" for d
    by (simp del: opS_apply add: encode_binding_def pre_def bindS_assoc)
  ultimately show ?thesis using produces_bindS[OF _ produces_extend] by (intro exI[of _ slot]) simp
qed

lemma seal_agrees:
  assumes alloc: "\<forall>n. alloc n" and small: "al_max_bytes l < 2 ^ 64"
    and run: "seal_pending_and_encode env alloc l a = (Inr bs, a')"
  shows "encode_pending env alloc l a' = Inr bs \<and> seal_pending_and_size env alloc l a = (Inr (length bs), a') \<and>
    validate_execution_evidence env alloc l a' = Inr () \<and> length bs \<le> al_max_bytes l"
proof -
  let ?e = "encoder_new alloc (al_max_bytes l)"
  have none: "execution_evidence (pt_binding a) = None"
    using run by (auto simp: seal_pending_and_encode_def split: if_splits)
  obtain dg e' so where w: "write_pending_fields env l a True ?e = (Inr (Some dg), e')" and so: "en_seal_offset e' = Some so"
    and bs: "bs = take so (en_bytes e') @ as_bytes dg @ drop (so + 32) (en_bytes e')" and a': "a' = sealed env dg a"
    using run none unfolding seal_pending_and_encode_def
    by (auto split: prod.splits sum.splits option.splits)
  obtain slot where slot: "\<forall>d. produces (encode_binding ((pt_binding a)\<lparr>execution_evidence := Some d\<rparr>)) (joined slot (Inr (as_bytes d)))"
    using binding_slot by blast
  have on: "evidence_on a True" "evidence_on a' False" by (simp_all add: evidence_on_def a' sealed_def Let_def)
  have plain: "en_hasher ?e = None" "\<not> en_digest_active ?e" "within ?e" "en_observed ?e = 0" "en_bytes ?e = []" "en_retain ?e"
    by (simp_all add: encoder_new_def within_def)
  obtain v xb x1 x2 x3 x4 where fw: "within ?e \<longrightarrow> within e'" "\<forall>m. rcp_decision (pt_receipt a) \<noteq> DecidedDenied m"
      "artifact_version True (pt_binding a) = Inr v" "joined slot (Inr (as_bytes 0)) = Inr xb"
      "parts env l a True x1 x2 x3 x4"
      "e' = (advance (artifact_magic v @ xb @ body_of a x1 x2 x3 x4) ?e)\<lparr>en_seal_offset := Some (0 + 8 + length xb - 32)\<rparr>"
      "dg = evidence_hash (ce_blake3 env) (x1 @ x2)"
      "review_bound (ce_blake3 env) (pt_binding a) (pt_review a)"
    by (rule fields_forward[OF _ plain(1,2) w, of "joined slot (Inr (as_bytes 0))"])
       (use slot[rule_format, of 0] on(1) plain(4) in \<open>simp_all add: written_binding_def\<close>)
  obtain p where p: "slot = Inr p" "xb = p @ as_bytes 0" using fw(4) by (auto simp: joined_Inr)
  define bytes where "bytes = artifact_magic v @ p @ as_bytes dg @ body_of a x1 x2 x3 x4"
  have "bs = bytes" unfolding bs using so fw(6) plain(5,6) by (auto simp: advance_def bytes_def p(2))
  have len: "length bytes \<le> al_max_bytes l"
    using fw(1,6) plain(3) by (simp add: within_def encoder_new_def bytes_def p(2))
  have a'_simps: "written_binding a' False = (pt_binding a)\<lparr>execution_evidence := Some dg\<rparr>"
      "pt_binding a' = (pt_binding a)\<lparr>execution_evidence := Some dg\<rparr>" "pt_review a' = pt_review a"
      "rcp_output (pt_receipt a') = rcp_output (pt_receipt a)" "rcp_execution (pt_receipt a') = rcp_execution (pt_receipt a)"
      "rcp_decision (pt_receipt a') = rcp_decision (pt_receipt a)" "body_of a' = body_of a"
      "parts env l a' True = parts env l a True"
    by (simp_all add: a' sealed_def Let_def written_binding_def parts_def receipt_tail_def encode_dependencies_def
        body_of_def detail_byte_def fun_eq_iff)
  have v: "artifact_version True (pt_binding a') = Inr v" using fw(3) by (simp add: a'_simps(2) artifact_version_def)
  have bound: "review_bound (ce_blake3 env) (pt_binding a') (pt_review a')"
    using fw(8) by (simp add: a'_simps review_bound_def)
  have slot': "produces (encode_binding (written_binding a' False)) (Inr (p @ as_bytes dg))"
    using slot[rule_format, of dg] by (simp add: a'_simps(1) p(1))
  have "write_pending_fields env l a' False ?e = (Inr (Some dg), advance bytes ?e)"
  proof -
    have w': "parts env l a' (evidence_on a' False) x1 x2 x3 x4" using fw(5) on(2) a'_simps(8) by simp
    have space: "room (length (artifact_magic v @ (p @ as_bytes dg) @ body_of a' x1 x2 x3 x4)) ?e"
      using len alloc small by (simp add: a'_simps(7) room_def encoder_new_def bytes_def)
    have hash: "Some (evidence_hash (ce_blake3 env) (x1 @ x2)) = execution_evidence (pt_binding a')"
      by (simp add: a'_simps(2) fw(7))
    have "write_pending_fields env l a' False ?e = (Inr (Some dg),
        (advance (artifact_magic v @ (p @ as_bytes dg) @ body_of a' x1 x2 x3 x4) ?e)\<lparr>en_seal_offset := en_seal_offset ?e\<rparr>)"
      using fields_backward[OF slot' w' plain(1,2) disjI1[OF on(2)] _ space] v bound hash on(2) fw(7) by simp
    then show ?thesis by (simp add: a'_simps(7) bytes_def)
  qed
  then have encode: "encode_pending env alloc l a' = Inr bs"
    using plain(5,6) \<open>bs = bytes\<close> by (simp add: encode_pending_def advance_def)
  let ?c = "encoder_counting alloc (al_max_bytes l)"
  have "write_pending_fields env l a True ?c = (Inr (Some dg), (advance (artifact_magic v @ xb @ body_of a x1 x2 x3 x4) ?c)
      \<lparr>en_seal_offset := Some (0 + 8 + length xb - 32)\<rparr>)"
  proof -
    have slot0: "produces (encode_binding (written_binding a True)) (Inr xb)"
      using slot[rule_format, of 0] by (simp add: written_binding_def p)
    have space: "room (length (artifact_magic v @ xb @ body_of a x1 x2 x3 x4)) ?c"
      using len alloc small by (simp add: p(2) room_def encoder_counting_def encoder_new_def bytes_def)
    have c: "en_hasher ?c = None" "\<not> en_digest_active ?c" "en_observed ?c = 0"
      by (simp_all add: encoder_counting_def encoder_new_def)
    show ?thesis
      using fields_backward[OF slot0 _ c(1,2) _ _ space] fw(3,5,7,8) on(1) c(3) by simp
  qed
  then have size: "seal_pending_and_size env alloc l a = (Inr (length bs), a')"
    using none \<open>bs = bytes\<close> by (simp add: seal_pending_and_size_def a' encoder_counting_def encoder_new_def bytes_def p(2))
  have "length x1 + length x2 + 1 \<le> al_max_bytes l" using len by (simp add: bytes_def body_of_def)
  then have "execution_evidence_digest env alloc l (rcp_output (pt_receipt a)) (rcp_execution (pt_receipt a))
      (pt_review a) (rcp_decision (pt_receipt a)) = Inr dg"
    using evidence_digest_of_parts[OF fw(5,2) _ small alloc] fw(7) by simp
  then have "validate_execution_evidence env alloc l a' = Inr ()"
    using bound by (simp add: validate_execution_evidence_def a'_simps(2-6))
  then show ?thesis using encode size len \<open>bs = bytes\<close> by simp
qed

end
