(* ===== verification/ArtifactRead.thy ===== *)
theory ArtifactRead
  imports ArtifactSeal
begin

text \<open>
  Reading artifacts back: the round trip (\<open>pending_reads_back\<close>), what every decoded artifact satisfies
  (\<open>decoded_is_bound\<close>), and that what fits is written (\<open>fields_fit\<close>).
\<close>

section \<open>The round trip\<close>

text \<open>What an artifact must satisfy to be read back: it can be written, and its receipt says what it holds.\<close>

definition pending_writable :: "'v codec_env \<Rightarrow> 'v pending_transaction \<Rightarrow> bool" where
  "pending_writable env a \<longleftrightarrow> (let mo = execution_evidence (pt_binding a) \<noteq> None in
     review_writable mo (pt_review a) \<and> decision_writable mo (rcp_decision (pt_receipt a)) \<and>
     output_writable env (rcp_output (pt_receipt a)) \<and>
     (\<forall>e \<in> set (cd_entries (pt_diff a)). entry_writable mo e) \<and>
     (\<forall>x \<in> set (pt_read_set a). observation_writable x) \<and> bt_ok (pt_read_set a) \<and>
     (\<forall>x \<in> set (pt_write_set a). precondition_writable x) \<and> bt_ok (pt_write_set a))"

definition pending_consistent :: "(bytes \<Rightarrow> digest) \<Rightarrow> 'v pending_transaction \<Rightarrow> bool" where
  "pending_consistent blake3 a \<longleftrightarrow> (let b = pt_binding a; r = pt_receipt a; d = pt_diff a in
     diff b = cd_digest d \<and> read_set b = read_set_digest blake3 (pt_read_set a) \<and>
     write_set b = write_set_digest blake3 (pt_write_set a) \<and>
     rcp_transaction r = transaction_id blake3 b \<and> rcp_base_snapshot r = base_snapshot b \<and>
     rcp_state r = (case rcp_decision r of DecidedAuto \<Rightarrow> AutoApproved | _ \<Rightarrow> PendingApproval) \<and>
     rcp_diff r = cd_digest d \<and> rcp_changed_paths r = length (cd_entries d) \<and>
     (rcp_changes r = [] \<or> rcp_changes r = cd_entries d) \<and> rcp_commit r = None)"

lemma ends_returnS: "res = Inr a \<Longrightarrow> ends_in C (returnS a) [] res"
  by (simp add: ends_in_def)

lemma ends_finish:
  assumes "ends_in C (f ()) [] res" shows "ends_in C (bindS ad_finish f) [] res"
  unfolding ends_in_def
proof (intro allI impI)
  fix r :: artifact_decoder
  assume r: "C (reader.more r)" "length (rd_bytes r) < 2 ^ 64" "rd_offset r \<le> length (rd_bytes r)"
    "drop (rd_offset r) (rd_bytes r) = []"
  then have "fst (f () r) = res" using assms unfolding ends_in_def by blast
  moreover have "ad_finish r = (Inr (), r)" using r(3,4) by (simp add: ad_finish_def bindS_def)
  ultimately show "fst (bindS ad_finish f r) = res" by (simp add: bindS_def)
qed

lemma ends_getS:
  "ends_in (flags mo iv) (f mo) x res \<Longrightarrow> ends_in (flags mo iv) (bindS (getS ad_modern) f) x res"
  unfolding ends_in_def by (auto simp: flags_iff bindS_def)

text \<open>The header sets the flags.\<close>

lemma magic_distinct:
  "artifact_magic 3 \<noteq> artifact_magic 4" "artifact_magic 2 \<noteq> artifact_magic 4" "artifact_magic 2 \<noteq> artifact_magic 3"
  by code_simp+

lemma decode_magic_run:
  assumes "artifact_version mo b = Inr v" "iv = (invocation b \<noteq> None \<or> commit_hook b \<noteq> None)"
    "length (artifact_magic v @ x) < 2 ^ 64"
  shows "v \<noteq> 1 \<and> decode_magic \<lparr>rd_bytes = artifact_magic v @ x, rd_offset = 0, ad_modern = False, ad_invocation = False,
      ad_alloc = alloc\<rparr> = (Inr v, \<lparr>rd_bytes = artifact_magic v @ x, rd_offset = 8, ad_modern = mo, ad_invocation = iv,
      ad_alloc = alloc\<rparr>)"
proof -
  have v: "v = (if iv then 4 else if mo then 3 else 2)" "iv \<longrightarrow> mo"
    using assms(1,2) by (auto simp: artifact_version_def split: if_splits)
  have "ad_take 8 \<lparr>rd_bytes = artifact_magic v @ x, rd_offset = 0, ad_modern = False, ad_invocation = False,
      ad_alloc = alloc\<rparr> = (Inr (artifact_magic v), \<lparr>rd_bytes = artifact_magic v @ x, rd_offset = 8, ad_modern = False,
      ad_invocation = False, ad_alloc = alloc\<rparr>)"
    using assms(3) by (simp add: ad_take_def Let_def)
  then show ?thesis
    using v magic_distinct by (cases iv; cases mo) (auto simp: decode_magic_def bindS_def)
qed

lemma ends_from:
  assumes "m r = (Inr v, r')" "C (reader.more r')" "length (rd_bytes r') < 2 ^ 64" "rd_offset r' \<le> length (rd_bytes r')"
    and "ends_in C (f v) (drop (rd_offset r') (rd_bytes r')) res"
  shows "fst (bindS m f r) = res"
  using assms by (simp add: ends_in_def bindS_def)

lemma tail_reads:
  assumes "produces (receipt_tail env l mo a) (Inr x2)" "length x2 < 2 ^ 64"
    "decision_writable mo (rcp_decision (pt_receipt a))" "output_writable env (rcp_output (pt_receipt a))"
  obtains y1 y2 y3 where "x2 = y1 @ y2 @ y3"
    "reads_in (flags mo iv) decode_decision y1 (rcp_decision (pt_receipt a))"
    "reads_in (flags mo iv) (decode_execution_output env l) y2 (rcp_output (pt_receipt a))"
    "reads_in (flags mo iv) decode_execution_stats y3 (rcp_execution (pt_receipt a))"
proof -
  obtain y1 y23 where 1: "x2 = y1 @ y23" "produces (encode_decision (rcp_decision (pt_receipt a))) (Inr y1)"
      "produces (steps [encode_execution_output env l mo (rcp_output (pt_receipt a)), encode_execution_stats (rcp_execution (pt_receipt a))]) (Inr y23)"
    by (rule produces_split[OF assms(1)[unfolded receipt_tail_def] assms(2)]) (auto intro!: emits_intros)
  have s1: "length y23 < 2 ^ 64" using assms(2) 1(1) by simp
  obtain y2 y3 where 2: "y23 = y2 @ y3" "produces (encode_execution_output env l mo (rcp_output (pt_receipt a))) (Inr y2)"
      "produces (steps [encode_execution_stats (rcp_execution (pt_receipt a))]) (Inr y3)"
    by (rule produces_split[OF 1(3) s1]) (auto intro!: emits_intros)
  show thesis
  proof (rule that)
    show "x2 = y1 @ y2 @ y3" using 1 2 by simp
    show "reads_in (flags mo iv) decode_decision y1 (rcp_decision (pt_receipt a))"
      by (rule carries_reads[OF carries_decision 1(2)]) (use assms 1 in simp_all)
    show "reads_in (flags mo iv) (decode_execution_output env l) y2 (rcp_output (pt_receipt a))"
      by (rule carries_reads[OF carries_output 2(2)]) (use assms 1 2 in simp_all)
    show "reads_in (flags mo iv) decode_execution_stats y3 (rcp_execution (pt_receipt a))"
      by (rule carries_reads[OF carries_one[OF carries_stats] 2(3)]) (use assms(2) 1 2 in simp)
  qed
qed

lemma dependencies_read:
  assumes "produces (encode_dependencies l a) (Inr x4)" "length x4 < 2 ^ 64"
    "\<forall>e \<in> set (cd_entries (pt_diff a)). entry_writable mo e"
    "(\<forall>x \<in> set (pt_read_set a). observation_writable x) \<and> bt_ok (pt_read_set a) \<and>
     (\<forall>x \<in> set (pt_write_set a). precondition_writable x) \<and> bt_ok (pt_write_set a)"
    "from_entries blake3 (cd_entries (pt_diff a)) = Inr d'"
  obtains z1 z2 z3 where "x4 = z1 @ z2 @ z3"
    "reads_in (flags mo iv) (decode_diff blake3 l) z1 d'"
    "reads_in (flags mo iv) (decode_read_set l) z2 (pt_read_set a)"
    "reads_in (flags mo iv) (decode_write_set l) z3 (pt_write_set a)"
proof -
  let ?A = "steps [limited ''diff entries'' (length (cd_entries (pt_diff a))) (al_max_entries l),
    encode_len (length (cd_entries (pt_diff a))), forS (cd_entries (pt_diff a)) (\<lambda>e. steps
      [encode_path_artifact l (entry_path e), encode_optional_state_artifact (entry_before e),
       encode_optional_state_artifact (entry_after e), push (diff_kind_tag (entry_kind e))])]"
  let ?B = "steps [limited ''read dependencies'' (length (pt_read_set a)) (al_max_dependencies l),
    encode_len (length (pt_read_set a)), forS (pt_read_set a) (encode_observation l)]"
  let ?C = "steps [limited ''write dependencies'' (length (pt_write_set a)) (al_max_dependencies l),
    encode_len (length (pt_write_set a)), forS (pt_write_set a) (\<lambda>(p, w). steps
      [encode_path_artifact l p, encode_optional_state_artifact (wp_expected w)])]"
  have "encode_dependencies l a = steps [?A, ?B, ?C]"
    by (simp del: opS_apply add: encode_dependencies_def bindS_assoc)
  then have t: "produces (steps [?A, ?B, ?C]) (Inr x4)" using assms(1) by (simp only:)
  have em: "emits ?A" "emits ?B" "emits ?C" by (auto intro!: emits_intros)
  obtain z1 z23 where 1: "x4 = z1 @ z23" "produces ?A (Inr z1)" "produces (steps [?B, ?C]) (Inr z23)"
    by (rule produces_split[OF t assms(2) em(1)]) (use em in \<open>auto intro!: emits_steps simp del: steps.simps\<close>)
  have s1: "length z23 < 2 ^ 64" using assms(2) 1(1) by simp
  obtain z2 z3 where 2: "z23 = z2 @ z3" "produces ?B (Inr z2)" "produces (steps [?C]) (Inr z3)"
    by (rule produces_split[OF 1(3) s1 em(2)]) (use em in \<open>auto intro!: emits_steps simp del: steps.simps\<close>)
  show thesis
  proof (rule that)
    show "x4 = z1 @ z2 @ z3" using 1 2 by simp
    show "reads_in (flags mo iv) (decode_diff (blake3) l) z1 d'"
      by (rule carries_reads[OF carries_diff 1(2)]) (use assms 1 in simp_all)
    show "reads_in (flags mo iv) (decode_read_set l) z2 (pt_read_set a)"
      by (rule carries_reads[OF carries_read_set 2(2)]) (use assms 1 2 in simp_all)
    show "reads_in (flags mo iv) (decode_write_set l) z3 (pt_write_set a)"
      by (rule carries_reads[OF carries_one[OF carries_write_set] 2(3)]) (use assms 1 2 in simp_all)
  qed
qed

text \<open>The fields after the header, each read from its own part of the bytes.\<close>

lemma fields_read:
  fixes a :: "'v pending_transaction"
  assumes writable: "pending_writable env a" and consistent: "pending_consistent (ce_blake3 env) a"
    and canonical: "from_entries (ce_blake3 env) (cd_entries (pt_diff a)) = Inr d'" "cd_digest d' = cd_digest (pt_diff a)"
    and mo: "mo = (execution_evidence (pt_binding a) \<noteq> None)"
    and iv: "iv = (invocation (pt_binding a) \<noteq> None \<or> commit_hook (pt_binding a) \<noteq> None)"
    and live: "\<forall>m. rcp_decision (pt_receipt a) \<noteq> DecidedDenied m"
    and v: "artifact_version mo (pt_binding a) = Inr v"
    and xb: "produces (encode_binding (pt_binding a)) (Inr xb)" and w: "parts env l a mo x1 x2 x3 x4"
    and short: "length (artifact_magic v @ xb @ body_of a x1 x2 x3 x4) < 2 ^ 64"
  shows "fst (decode_fields env l \<lparr>rd_bytes = artifact_magic v @ xb @ body_of a x1 x2 x3 x4, rd_offset = 0,
    ad_modern = False, ad_invocation = False, ad_alloc = (\<lambda>_. True)\<rparr>) = Inr (a\<lparr>pt_diff := d'\<rparr>)"
proof -
  let ?d = "pt_diff a" and ?r = "pt_receipt a" and ?b = "pt_binding a"
  note wr = writable[unfolded pending_writable_def Let_def, folded mo]
  have small: "length xb < 2 ^ 64" "length x1 < 2 ^ 64" "length x2 < 2 ^ 64" "length x3 < 2 ^ 64" "length x4 < 2 ^ 64"
    using short by (simp_all add: body_of_def)
  have r_bind: "reads_in (flags mo iv) decode_binding xb ?b"
    by (rule carries_reads[OF carries_binding xb small(1)]) (simp add: binding_flags_def mo iv)
  have r_review: "reads_in (flags mo iv) (decode_review l) x1 (pt_review a)"
    by (rule carries_reads[OF carries_review _ small(2)]) (use wr w in \<open>simp_all add: parts_def\<close>)
  have r_times: "reads_in (flags mo iv) decode_timings x3 (rcp_timings ?r)"
    by (rule carries_reads[OF carries_timings _ small(4)]) (use w in \<open>simp add: parts_def\<close>)
  obtain y1 y2 y3 where y: "x2 = y1 @ y2 @ y3"
      "reads_in (flags mo iv) decode_decision y1 (rcp_decision ?r)"
      "reads_in (flags mo iv) (decode_execution_output env l) y2 (rcp_output ?r)"
      "reads_in (flags mo iv) decode_execution_stats y3 (rcp_execution ?r)"
    using tail_reads[OF _ small(3), of env l mo a iv] wr w unfolding parts_def by blast
  obtain z1 z2 z3 where z: "x4 = z1 @ z2 @ z3"
      "reads_in (flags mo iv) (decode_diff (ce_blake3 env) l) z1 d'"
      "reads_in (flags mo iv) (decode_read_set l) z2 (pt_read_set a)"
      "reads_in (flags mo iv) (decode_write_set l) z3 (pt_write_set a)"
    using dependencies_read[OF _ small(5) _ _ canonical(1), of l mo iv] wr w unfolding parts_def by blast
  note magic = decode_magic_run[OF v iv short, of "\<lambda>_. True"]
  have rest: "drop 8 (artifact_magic v @ xb @ body_of a x1 x2 x3 x4) =
      xb @ x1 @ [detail_byte a] @ y1 @ y2 @ y3 @ x3 @ z1 @ z2 @ z3 @ []"
    by (simp add: body_of_def y(1) z(1))
  have entries: "cd_entries d' = cd_entries ?d"
    using canonical(1) by (auto simp: from_entries_def bindR_def split: sum.splits)
  note co = consistent[unfolded pending_consistent_def Let_def]
  have detail: "(detail_byte a \<noteq> 0 \<and> detail_byte a \<noteq> 1) = False" by (simp add: detail_byte_def)
  have digests: "(diff ?b \<noteq> cd_digest d' \<or> read_set ?b \<noteq> read_set_digest (ce_blake3 env) (pt_read_set a) \<or>
      write_set ?b \<noteq> write_set_digest (ce_blake3 env) (pt_write_set a)) = False"
    using co canonical(2) by simp
  have state: "(case rcp_decision ?r of DecidedAuto \<Rightarrow> returnS AutoApproved
      | DecidedPending _ \<Rightarrow> returnS PendingApproval
      | DecidedDenied _ \<Rightarrow> ad_corrupt ''denied artifact is pending'') = (returnS (rcp_state ?r) :: tx_state dec)"
    using co live by (simp del: opS_apply split: runtime_decision.split)
  have "(if detail_byte a = 1 then cd_entries d' else []) = rcp_changes ?r"
    using co entries by (auto simp: detail_byte_def)
  then have result: "Inr \<lparr>pt_binding = ?b, pt_diff = d', pt_read_set = pt_read_set a, pt_write_set = pt_write_set a,
       pt_review = pt_review a,
       pt_receipt = \<lparr>rcp_transaction = transaction_id (ce_blake3 env) ?b, rcp_base_snapshot = base_snapshot ?b,
         rcp_state = rcp_state ?r, rcp_decision = rcp_decision ?r, rcp_diff = cd_digest d',
         rcp_changed_paths = length (cd_entries d'), rcp_changes = (if detail_byte a = 1 then cd_entries d' else []),
         rcp_output = rcp_output ?r, rcp_execution = rcp_execution ?r, rcp_timings = rcp_timings ?r,
         rcp_commit = None\<rparr>\<rparr> = Inr (a\<lparr>pt_diff := d'\<rparr>)"
    using co canonical(2) entries by (cases a; cases ?r) simp
  show ?thesis
    unfolding decode_fields_def
    apply (rule ends_from[where C = "flags mo iv"], rule magic[THEN conjunct2])
    apply (simp add: flags_iff[symmetric] flags_def artifact_decoder.defs)
    using short apply simp
    apply simp
    apply (unfold reader.simps artifact_decoder.simps rest)
    apply (rule ends_bindS[OF r_bind])
    apply (simp only: magic[THEN conjunct1] if_False simp_thms)
    apply (rule ends_bindS[OF reads_bindS_last[OF r_review refl]])
    apply (rule ends_bindS[OF reads_byte])
    apply (simp only: detail if_False)
    apply (rule ends_bindS[OF y(2)], rule ends_bindS[OF y(3)], rule ends_bindS[OF y(4)], rule ends_bindS[OF r_times])
    apply (rule ends_bindS[OF z(2)], rule ends_bindS[OF z(3)], rule ends_bindS[OF z(4)], rule ends_finish)
    apply (simp only: digests if_False)
    apply (simp only: state bindS_simps)
    apply (rule ends_returnS)
    apply (simp only: option.case result)
    done
qed

lemma pending_reads_back:
  assumes "\<forall>n. alloc n" "al_max_bytes l < 2 ^ 64" "pending_writable env a" "pending_consistent (ce_blake3 env) a"
    and "from_entries (ce_blake3 env) (cd_entries (pt_diff a)) = Inr d'" "cd_digest d' = cd_digest (pt_diff a)"
    and "encode_pending env alloc l a = Inr bs"
  shows "decode_pending env (\<lambda>_. True) l bs = Inr (a\<lparr>pt_diff := d'\<rparr>)"
proof -
  let ?e = "encoder_new alloc (al_max_bytes l)"
  have e: "en_hasher ?e = None" "\<not> en_digest_active ?e" "within ?e" "en_observed ?e = 0" "en_bytes ?e = []" "en_retain ?e"
    "en_maximum ?e = al_max_bytes l"
    by (simp_all add: encoder_new_def within_def)
  obtain dg e' where run: "write_pending_fields env l a False ?e = (Inr dg, e')" and bs: "bs = en_bytes e'"
    using assms(7) by (auto simp: encode_pending_def split: prod.splits sum.splits)
  let ?m = "evidence_on a False"
  have m: "?m = (execution_evidence (pt_binding a) \<noteq> None)" by (simp add: evidence_on_def)
  have "emits (encode_binding (pt_binding a))"
    unfolding encode_binding_def by (auto intro!: emits_intros simp del: opS_apply split: option.split)
  then obtain ob where ob: "produces (encode_binding (written_binding a False)) ob"
    by (auto simp: emits_def written_binding_def)
  obtain v xb x1 x2 x3 x4 where fw: "within ?e \<longrightarrow> within e'" "\<forall>m. rcp_decision (pt_receipt a) \<noteq> DecidedDenied m"
      "artifact_version ?m (pt_binding a) = Inr v" "ob = Inr xb" "parts env l a ?m x1 x2 x3 x4"
      "e' = (advance (artifact_magic v @ xb @ body_of a x1 x2 x3 x4) ?e)\<lparr>en_seal_offset := en_seal_offset ?e\<rparr>"
      "dg = (if ?m then Some (evidence_hash (ce_blake3 env) (x1 @ x2)) else None)"
      "?m \<longrightarrow> review_bound (ce_blake3 env) (pt_binding a) (pt_review a)"
      "?m \<longrightarrow> dg = execution_evidence (pt_binding a)"
    by (rule fields_forward[OF ob e(1,2) run]) auto
  have bytes: "bs = artifact_magic v @ xb @ body_of a x1 x2 x3 x4" using fw(6) e by (simp add: bs advance_def)
  have len: "length bs \<le> al_max_bytes l" using fw(1,6) e by (simp add: within_def bytes)
  have fields: "fst (decode_fields env l \<lparr>rd_bytes = bs, rd_offset = 0, ad_modern = False, ad_invocation = False,
      ad_alloc = (\<lambda>_. True)\<rparr>) = Inr (a\<lparr>pt_diff := d'\<rparr>)"
    unfolding bytes
    by (rule fields_read[OF assms(3-6) m refl fw(2,3) _ fw(5)])
      (use ob fw(4) len assms(2) in \<open>simp_all add: written_binding_def bytes[symmetric]\<close>)
  have "validate_execution_evidence env (\<lambda>_. True) l (a\<lparr>pt_diff := d'\<rparr>) = Inr ()"
  proof (cases "execution_evidence (pt_binding a)")
    case None
    then show ?thesis by (simp add: validate_execution_evidence_def)
  next
    case (Some d)
    then have on: "?m" by (simp add: m)
    have "1 + length x1 + length x2 \<le> al_max_bytes l" using len by (simp add: bytes body_of_def)
    then have "execution_evidence_digest env (\<lambda>_. True) l (rcp_output (pt_receipt a)) (rcp_execution (pt_receipt a))
        (pt_review a) (rcp_decision (pt_receipt a)) = Inr d"
      using evidence_digest_of_parts[OF _ fw(2) _ assms(2), of env x1 x2 x3 x4] fw(5,7,9) on Some by auto
    then show ?thesis using fw(8) on Some by (simp add: validate_execution_evidence_def)
  qed
  then show ?thesis using fields len by (simp add: decode_pending_def)
qed

section \<open>Decoded artifacts\<close>

lemma decode_diff_canonical:
  "decode_diff blake3 l r = (Inr d, r') \<Longrightarrow> from_entries blake3 (cd_entries d) = Inr d"
  by (auto simp: decode_diff_def bindS_Inr ad_corrupt_def from_entries_def bindR_def split: sum.splits)

lemma if_failS_Inr: "(if c then failS e else m) s = (Inr x, t) \<longleftrightarrow> \<not> c \<and> m s = (Inr x, t)"
  by simp

lemma if_corrupt_Inr: "(if c then ad_corrupt e else m) s = (Inr x, t) \<longleftrightarrow> \<not> c \<and> m s = (Inr x, t)"
  by (simp add: ad_corrupt_def)

lemma decode_fields_bound:
  assumes "decode_fields env l r = (Inr a, r')"
  shows "pending_consistent (ce_blake3 env) a \<and> from_entries (ce_blake3 env) (cd_entries (pt_diff a)) = Inr (pt_diff a)"
proof -
  obtain b review detail decision out stats timings d reads writes state u1 u2 u3 u4 where
      d: "decode_diff (ce_blake3 env) l u1 = (Inr d, u2)"
    and digests: "diff b = cd_digest d" "read_set b = read_set_digest (ce_blake3 env) reads"
      "write_set b = write_set_digest (ce_blake3 env) writes"
    and state: "(case decision of DecidedAuto \<Rightarrow> returnS AutoApproved
       | DecidedPending _ \<Rightarrow> returnS PendingApproval
       | DecidedDenied _ \<Rightarrow> ad_corrupt ''denied artifact is pending'') u3 = (Inr state, u4)"
    and a: "a = \<lparr>pt_binding = b, pt_diff = d, pt_read_set = reads, pt_write_set = writes,
       pt_review = (case review of Some r \<Rightarrow> r | None \<Rightarrow> legacy_review decision),
       pt_receipt = \<lparr>rcp_transaction = transaction_id (ce_blake3 env) b, rcp_base_snapshot = base_snapshot b,
         rcp_state = state, rcp_decision = decision, rcp_diff = cd_digest d,
         rcp_changed_paths = length (cd_entries d), rcp_changes = (if detail = (1 :: u8) then cd_entries d else []),
         rcp_output = out, rcp_execution = stats, rcp_timings = timings, rcp_commit = None\<rparr>\<rparr>"
    using assms unfolding decode_fields_def bindS_Inr if_failS_Inr if_corrupt_Inr opS_apply(1) prod.inject sum.inject
    by blast
  have "state = (case decision of DecidedAuto \<Rightarrow> AutoApproved | _ \<Rightarrow> PendingApproval)"
    using state by (auto simp: ad_corrupt_def split: runtime_decision.splits)
  then show ?thesis
    using decode_diff_canonical[OF d] digests by (simp add: a pending_consistent_def)
qed

lemma decoded_is_bound:
  assumes "decode_pending env alloc l bs = Inr a"
  shows "pending_consistent (ce_blake3 env) a \<and> from_entries (ce_blake3 env) (cd_entries (pt_diff a)) = Inr (pt_diff a) \<and>
    validate_execution_evidence env alloc l a = Inr () \<and> length bs \<le> al_max_bytes l"
proof -
  obtain r' where "decode_fields env l \<lparr>rd_bytes = bs, rd_offset = 0, ad_modern = False, ad_invocation = False,
      ad_alloc = alloc\<rparr> = (Inr a, r')"
    and "validate_execution_evidence env alloc l a = Inr ()" "length bs \<le> al_max_bytes l"
    using assms by (auto simp: decode_pending_def bindR_def split: if_splits sum.splits)
      (metis prod.collapse)
  then show ?thesis using decode_fields_bound by blast
qed

section \<open>Artifacts that fit are encoded\<close>

text \<open>\<open>fills n m\<close>: the encoder accepts its argument and writes at most \<open>n\<close> bytes.\<close>

definition fills :: "nat \<Rightarrow> enc \<Rightarrow> bool" where
  "fills n m \<longleftrightarrow> (\<exists>x. produces m (Inr x) \<and> length x \<le> n)"

named_theorems fills_intros \<open>sizes of encodings\<close>

lemma fills_more: "fills m e \<Longrightarrow> m \<le> n \<Longrightarrow> fills n e"
  unfolding fills_def by fastforce

lemma fills_basic [fills_intros]:
  "fills (length bs) (extend_from_slice bs)" "fills 0 (returnS ())" "fills 1 (push b)"
  unfolding fills_def push_def using produces_extend produces_nil by fastforce+

lemma fills_bindS [fills_intros]: "fills j m \<Longrightarrow> fills k n \<Longrightarrow> fills (j + k) (bindS m (\<lambda>_. n))"
  unfolding fills_def using produces_bindS by (metis add_mono joined_simps(1) length_append)

lemma fills_numbers [fills_intros]:
  "n < 2 ^ 64 \<Longrightarrow> fills 8 (encode_len n)" "observed \<le> maximum \<Longrightarrow> fills 0 (limited field observed maximum)"
  using fills_basic(1)[of "u64_bytes (of_nat n)"] fills_basic(2)
  by (simp_all del: opS_apply add: encode_len_def limited_def)

lemma fills_bytes [fills_intros]: "length bs < 2 ^ 64 \<Longrightarrow> fills (8 + length bs) (encode_bytes_artifact bs)"
  using fills_bindS[OF fills_numbers(1) fills_basic(1)] by (simp del: opS_apply add: encode_bytes_artifact_def)

lemma fields_fit:
  assumes "fills n0 (encode_binding (written_binding a seal))" "fills n1 (encode_review l (pt_review a))"
    and "fills n2 (receipt_tail env l (evidence_on a seal) a)" "fills n3 (encode_timings (rcp_timings (pt_receipt a)))"
    and "fills n4 (encode_dependencies l a)"
    and "8 + n0 + n1 + 1 + n2 + n3 + n4 \<le> al_max_bytes l" "al_max_bytes l < 2 ^ 64" "\<forall>n. alloc n"
    and "evidence_on a seal"
    and "review_bound (ce_blake3 env) (pt_binding a) (pt_review a)"
    and "\<not> seal \<longrightarrow> (\<forall>x. Some (evidence_hash (ce_blake3 env) x) = execution_evidence (pt_binding a))"
  shows "\<exists>d e'. write_pending_fields env l a seal (encoder_new alloc (al_max_bytes l)) = (Inr (Some d), e') \<and>
    (seal \<longrightarrow> en_seal_offset e' \<noteq> None)"
proof -
  let ?e = "encoder_new alloc (al_max_bytes l)"
  obtain x0 x1 x2 x3 x4 where x: "produces (encode_binding (written_binding a seal)) (Inr x0)"
      "parts env l a (evidence_on a seal) x1 x2 x3 x4"
      "length x0 \<le> n0" "length x1 \<le> n1" "length x2 \<le> n2" "length x3 \<le> n3" "length x4 \<le> n4"
    using assms(1-5) unfolding fills_def parts_def by auto
  have "\<exists>v. artifact_version (evidence_on a seal) (pt_binding a) = Inr v"
    using assms(9) by (auto simp: artifact_version_def)
  then obtain v where v: "artifact_version (evidence_on a seal) (pt_binding a) = Inr v" ..
  have "room (length (artifact_magic v @ x0 @ body_of a x1 x2 x3 x4)) ?e"
    using assms(6-8) x(3-7) by (simp add: room_def encoder_new_def body_of_def)
  from fields_backward[OF x(1,2) _ _ disjI1[OF assms(9)] v this] assms(9-11)
  show ?thesis by (auto simp: encoder_new_def)
qed

end
