(* ===== verification/Spec2Isabelle.thy ===== *)
theory Spec2Isabelle
  imports Prelude OrdMap Codec Paths Types DirDigest TxState Store Persist PersistLog PersistInv
    FileStore FileRefine Evidence Blobs Snapshot Vfs Wp VfsTree VfsInv VfsOps VfsMove VfsDiff
    Glob Policy Risk Reader Plan PlanTree PlanCodec PlanStored Journal Host Commit Committer CommitWp CommitDone
    Budget VirtualRoot Gateway GatewayCopy GatewayInv GatewaySafe GatewayLedger
    Artifact ArtifactTrip ArtifactFields ArtifactSeal ArtifactRead
begin

text \<open>
  A model of \<open>vsh\<close>, a transactional shell: programs run against a virtual copy of a workspace, the
  difference they make is reviewed, approved under a policy, and committed to the real files by a
  journalled commit.  The development follows the crates under \<open>src/crates\<close> bottom up:
  a session (\<open>Gateway\<close>) works on a virtual filesystem (\<open>Vfs\<close>), its difference and evidence are judged
  (\<open>Risk\<close>), what has to wait is stored (\<open>Artifact\<close>, \<open>Store\<close>), what is approved is planned (\<open>Plan\<close>) and
  committed (\<open>Committer\<close>).

  \<^bold>\<open>Parts and theories.\<close>
  \<^item> \<open>Prelude\<close>, \<open>OrdMap\<close>, \<open>Wp\<close>: Rust vocabulary.  \<open>Result\<close> is a sum, a method on \<open>&mut self\<close> is a
    function from the state to result and new state (\<open>op\<close>, \<open>bindS\<close> is the question mark), integers
    are words, \<open>BTreeMap\<close> is the list of its entries in key order (locale \<open>ordered_map\<close>).  \<open>Wp\<close>
    computes weakest preconditions with one postcondition per exit.
  \<^item> \<open>Codec\<close>: little-endian words, digests, and the interface of canonical encoders
    (\<open>prefix_code\<close>, \<open>codec\<close>); every encoder of the model is an interpretation.
  \<^item> \<open>Paths\<close>, \<open>Types\<close>, \<open>DirDigest\<close>, \<open>TxState\<close> (\<open>vsh-types\<close>): \<open>VPath\<close> and its arithmetic against lists of
    components, node states and their encoding, the streamed directory digest, transaction
    bindings, the life cycle of a transaction.
  \<^item> \<open>Store\<close> (\<open>vsh-store/src/lib.rs\<close>): records, grants, the trait \<open>TransactionStore\<close> as the locale
    \<open>transaction_store\<close>, and the memory store.  \<open>Persist\<close>, \<open>PersistLog\<close> (\<open>persistent.rs\<close>): the file
    format, the double control slot, the append-only log, replay, compaction.  \<open>PersistInv\<close>,
    \<open>FileStore\<close>, \<open>FileRefine\<close>: the invariant over disk and handles, the interpretation of the locale
    on the durable store, its refinement of the memory store, crashes.  \<open>Blobs\<close>: the
    content-addressed store.
  \<^item> \<open>Evidence\<close>, \<open>Snapshot\<close>, \<open>Vfs\<close> (\<open>vsh-vfs\<close>): evidence budget, immutable base snapshots with lazily
    captured content, the copy-on-write filesystem.  \<open>VfsTree\<close> shows that on reachable states the
    overlay lookup is a tree and the shadowing walk hides nothing; \<open>VfsInv\<close> the bookkeeping
    operations, \<open>VfsOps\<close>, \<open>VfsMove\<close> every operation as an update of that tree, \<open>VfsDiff\<close> the canonical
    diff and the transaction as a state machine.
  \<^item> \<open>Glob\<close>, \<open>Policy\<close>, \<open>Risk\<close> (\<open>vsh-policy\<close>): the pattern language with its two matching loops against the
    plain recursive relation, capability rules and their canonical form, what the default rules
    protect, risk metrics and the transaction decision, the digests and the transaction binding.
  \<^item> \<open>Plan\<close>, \<open>PlanTree\<close>, \<open>PlanCodec\<close>, \<open>PlanStored\<close> (\<open>vsh-commit/src/plan.rs\<close>): validation of a reviewed
    transaction and its lowering to an ordered list of host operations; what those operations do to
    a tree of states; the plan file with its reader, and when recovery can read what was written.
  \<^item> \<open>Journal\<close> (\<open>vsh-commit/src/journal.rs\<close>): the bytes of intents, completions and the commit marker, and
    their replay; the state of any prefix of a journal is the state of its complete records.
  \<^item> \<open>Reader\<close>: readers of stored bytes and the relation \<open>reads_in\<close> between what was written and what is read,
    shared by the plan file and the artifacts.
  \<^item> \<open>Host\<close>, \<open>Commit\<close>, \<open>Committer\<close> (\<open>vsh-commit/src/committer.rs\<close>, \<open>host.rs\<close>): the file system below the
    workspace as inodes; every call that changes it goes through \<open>host_call\<close>, where the environment may
    stop the run.  \<open>Commit\<close> has the operations and their reversal, \<open>Committer\<close> staging, revalidation,
    pinned parents, the journalled commit, the marker and recovery.  The record of the transaction is
    in the memory store, which the durable store refines.  \<open>CommitWp\<close> and \<open>CommitDone\<close>: after a receipt
    every change of the reviewed difference is on the file system (\<open>commit_receipt_installs\<close>), after an
    error that does not ask for recovery nothing of it is (\<open>commit_error_leaves_workspace\<close>).
  \<^item> \<open>Budget\<close>, \<open>VirtualRoot\<close>, \<open>Gateway\<close>, \<open>GatewayCopy\<close> (\<open>vsh-execution\<close>): the limits of a session and their
    counters, the paths a guest names, every request of the gateway with its authorization; copies and
    walks are bounded by the directory entries the session may still read, which is their measure.
    \<open>GatewayInv\<close>, \<open>GatewaySafe\<close>, \<open>GatewayLedger\<close>: whatever is requested, the filesystem invariant holds, only
    authorized paths change, a denied request changes nothing, counters never pass their limits.
  \<^item> \<open>Artifact\<close> (\<open>vbash/src/artifact.rs\<close>): pending transactions as durable bytes; encoder with counting,
    bounding and hashing, decoder with its limits, the four versions of the format, sealing.
    \<open>ArtifactTrip\<close> relates each encoder to its decoder (\<open>carries\<close>: what is written, how long it is at
    least, what is read back), \<open>ArtifactFields\<close> does so field by field, \<open>ArtifactSeal\<close> follows the hasher
    over a whole run and shows that sealing in one pass writes what the verified codec writes,
    \<open>ArtifactRead\<close> has the round trip and what every decoded artifact satisfies.

  \<^bold>\<open>Abstractions.\<close>  BLAKE3 is the parameter \<open>blake3\<close>; nothing is assumed of it, except that a zeroed
  control slot does not verify (\<open>zero_slot_invalid\<close>).  Struct sizes and the allocator's answers are
  fields of \<open>environment\<close>, as is the host's loader of lazy content (a function of the number of
  loads, since the host may change between two).  Disks are byte strings; a crash leaves a prefix of
  the bytes being written.  Paths satisfy \<open>vpath_ok\<close>, which \<open>parse_canonical\<close> establishes.

  \<^bold>\<open>Fuel and bounds.\<close>  Loops are structural or have a measure (bytes left in the log, ancestors of a
  path), so nothing is cut off by fuel; a
  traversal of the gateway is measured by the directory entries its budget leaves.  Lengths are compared with the widths the code uses
  (\<open>2 ^ 64\<close> for \<open>usize\<close>), with saturating and checked arithmetic written out.

  \<^bold>\<open>Not modelled.\<close>  Host I/O (capability directories, file locks, process spawning, RPC), the external
  interpreters (Monty, Bashkit), Python bindings, error messages, and the lock poisoning of threads
  that panic.  The effect sequence number is a 64-bit word that would panic on overflow in the
  code; it wraps in the model, after more effects than the evidence budget can hold.
  Of \<open>vbash/src/runtime.rs\<close> only the
  records it stores are modelled: it composes the parts above with the interpreters, the blob
  directory, commit hooks and clocks.  In the committer, permission checks, the directory pinning of
  \<open>vsh-store/src/directory.rs\<close>, the opening and locking of a workspace and the race of two commits
  are outside.  In the gateway, the visitor of a traversal is a strategy that may read the node it is
  shown.  Whether memory can be reserved is a parameter of the encoders and decoders of artifacts
  (\<open>en_alloc\<close>, \<open>ad_alloc\<close>); the codec of Monty result values is third-party code, of which the round
  trip asks \<open>value_law\<close>.
\<close>

section \<open>Concrete stores for the witnesses\<close>

definition example_hash :: "bytes \<Rightarrow> digest" where "example_hash _ = 1"

definition example_config :: file_store_config where
  "example_config = \<lparr>max_log_bytes = 4096, max_records = 8\<rparr>"

definition example_store :: shared_store where
  "example_store =
     (\<lparr>control_file = initialize_control_slots example_hash, log_file = log_magic,
       alternate_log_file = []\<rparr>, \<lambda>_. synced example_hash example_config first_control [])"

lemma example_config_ok: "config_ok example_config"
  by (simp add: config_ok_def validate_config_def example_config_def header_bytes_def)

lemma example_zero_slot: "zero_slot_invalid example_hash"
proof -
  have "as_bytes (1 :: digest) \<noteq> as_bytes 0" by simp
  moreover have "as_bytes (0 :: digest) = replicate digest_bytes 0"
    by (simp add: digest_bytes_def) code_simp
  ultimately show ?thesis by (simp add: zero_slot_invalid_def example_hash_def blob_digest_def)
qed

lemma example_inv: "file_inv example_hash example_config example_store"
  using initial_inv(1)[OF example_config_ok example_zero_slot open_empty[OF example_config_ok example_zero_slot]]
  by (simp add: example_store_def)

section \<open>Properties of the transaction store\<close>

text \<open>
  C1: over any interleaving of operations by any number of processes on the same files, at most
  one reservation of a transaction succeeds.
\<close>

theorem file_reservation_once:
  assumes "file_inv blake3 config s" "list_all (op_ok (grant_ok blake3)) ops"
  shows "wins (freserve blake3 config)
    (exec_op (fcreate blake3 config) (fget blake3 config) (fcat blake3 config)
      (fapprove blake3 config) (freserve blake3 config)) i ops s \<le> 1"
  using assms by (rule fstore.wins_at_most_once)

theorem file_reservation_once_witness:
  "wins (freserve example_hash example_config)
    (exec_op (fcreate example_hash example_config) (fget example_hash example_config)
      (fcat example_hash example_config) (fapprove example_hash example_config)
      (freserve example_hash example_config)) 5
    [(0, OpCreate (new_record 5 6)), (1, OpReserve 5 0)] example_store \<le> 1"
  by (rule file_reservation_once[OF example_inv]) (simp add: op_ok_def new_record_def)

text \<open>
  C2: every operation of the durable store either is refused by the storage layer and leaves the
  contents as they were, or returns the result of the in-memory store and makes its change.
\<close>

theorem file_refines_memory:
  assumes "file_inv blake3 config s" "op_ok (grant_ok blake3) (k, opn)"
    and "mem_lookup m = file_lookup blake3 config s" "\<not> poisoned m"
  shows "agrees blake3 config s (file_op blake3 config k opn s) (memory_op opn m)"
  using assms by (rule file_op_agrees)

theorem file_refines_memory_witness:
  "agrees example_hash example_config example_store
     (file_op example_hash example_config 3 (OpCreate (new_record 5 6)) example_store)
     (memory_op (OpCreate (new_record 5 6)) mem_empty)"
proof (rule file_refines_memory[OF example_inv])
  show "op_ok (grant_ok example_hash) (3, OpCreate (new_record 5 6))"
    by (simp add: op_ok_def new_record_def)
  show "mem_lookup mem_empty = file_lookup example_hash example_config example_store"
    using initial_inv(2)[OF example_config_ok example_zero_slot
        open_empty[OF example_config_ok example_zero_slot]]
    by (simp add: mem_lookup_def mem_empty_def example_store_def)
qed (simp add: mem_empty_def)


text \<open>
  C3: a crash in the middle of appending a frame loses that record only: whatever part of the
  frame reached the disk, the store is still well-formed and its contents are those from before.
\<close>

theorem append_crash_safe:
  assumes "file_inv blake3 config s" "up_to_date blake3 s k c"
    and "write_record_frame blake3 config r (ps_offset (snd s k)) (log_of (slot c) (fst s)) = (Inr n, log)"
    and "length (log_of (slot c) (fst s)) \<le> j" "j < length log"
  shows "file_inv blake3 config (set_log (slot c) (take j log) (fst s), snd s) \<and>
    file_lookup blake3 config (set_log (slot c) (take j log) (fst s), snd s) = file_lookup blake3 config s"
  using assms by (rule append_crash)

lemma example_up_to_date: "up_to_date example_hash example_store 0 first_control"
  using read_initial_control[OF example_zero_slot]
  by (simp add: up_to_date_def example_store_def synced_def log_of_def first_control_def
      log_bytes_def)

lemma example_write:
  "write_record_frame example_hash example_config (new_record 5 6) header_bytes log_magic =
     (Inr 111, log_magic @ frame example_hash (new_record 5 6))"
  by (simp add: write_record_frame_def validate_record_def new_record_def length_encode_record
      size_defs sat_add_def example_config_def write_at_def frame_def Let_def)

theorem append_crash_safe_witness:
  "file_inv example_hash example_config
     (set_log 0 (take 50 (log_magic @ frame example_hash (new_record 5 6))) (fst example_store),
      snd example_store)"
proof -
  have log: "log_of (slot first_control) (fst example_store) = log_magic"
    by (simp add: log_of_def first_control_def example_store_def)
  have off: "ps_offset (snd example_store 0) = header_bytes"
    by (simp add: example_store_def synced_def log_bytes_def)
  have "length (frame example_hash (new_record 5 6)) = 103"
    by (simp add: length_frame length_encode_record new_record_def size_defs)
  then have "header_bytes \<le> 50" "50 < length (log_magic @ frame example_hash (new_record 5 6))"
    by (simp_all add: header_bytes_def)
  then show ?thesis
    using append_crash_safe[OF example_inv example_up_to_date, unfolded log off, OF example_write, of 50]
    by (simp add: first_control_def)
qed




text \<open>
  C5: a record that the store may hold is read back from its payload as it was written.
\<close>

theorem record_payload_roundtrip:
  assumes "record_ok blake3 r"
  shows "decode_record blake3 (encode_record r) offset = Inr r"
  using assms by (rule decode_encode_record)

theorem record_payload_roundtrip_witness:
  "decode_record example_hash (encode_record (new_record 5 6)) 8 = Inr (new_record 5 6)"
  by (rule record_payload_roundtrip) (simp add: record_ok_def validate_record_def new_record_def)

text \<open>
  C6: replaying a log, with an interrupted append at its end, gives exactly the records of its
  history, cuts the torn tail off and leaves the offset at the end of the log.
\<close>

theorem replay_recovers_history:
  assumes "list_all (record_ok blake3) h" "replay (max_records config) (ps_records st) h = Some rs"
    and "ps_offset st = length pre" "torn t"
  shows "refresh_loop blake3 config (length (pre @ frames blake3 h @ t)) (pre @ frames blake3 h @ t, st) =
    (Inr (), pre @ frames blake3 h,
     st\<lparr>ps_records := rs, ps_offset := length (pre @ frames blake3 h)\<rparr>)"
  using assms by (rule refresh_loop_frames)

theorem replay_recovers_history_witness:
  "refresh_loop example_hash example_config
     (length (log_magic @ frames example_hash [new_record 5 6] @ [67, 0, 0]))
     (log_magic @ frames example_hash [new_record 5 6] @ [67, 0, 0],
      synced example_hash example_config first_control []) =
   (Inr (), log_magic @ frames example_hash [new_record 5 6],
    (synced example_hash example_config first_control [])
      \<lparr>ps_records := [(5, new_record 5 6)],
       ps_offset := length (log_magic @ frames example_hash [new_record 5 6])\<rparr>)"
  by (rule replay_recovers_history)
     (simp_all add: record_ok_def validate_record_def new_record_def synced_def contents_def
       apply_replayed_record_def example_config_def log_bytes_def torn_def)

lemma open_joins_store:
  assumes "file_inv blake3 config s" "file_open blake3 config (fst s) = (r, d)"
  shows "\<exists>st. r = Inr st \<and> file_inv blake3 config (d, (snd s)(k := st)) \<and>
    file_lookup blake3 config (d, (snd s)(k := st)) = file_lookup blake3 config s \<and>
    map_of (ps_records st) = file_lookup blake3 config s"
  using open_joins[OF assms, of k] by metis

theorem open_joins_store_witness:
  "\<exists>st. fst (file_open example_hash example_config (fst example_store)) = Inr st"
  using open_joins_store[OF example_inv, of "fst (file_open example_hash example_config (fst example_store))"
      "snd (file_open example_hash example_config (fst example_store))" 0] by auto

text \<open>
  C7: the history of a transaction record that reached a commit phase went through a virtual
  completion, an approval decision and a reservation; a manual approval was pending before.
\<close>

theorem commit_needs_approval:
  assumes "tx_run h"
  shows "commit_history h"
  using assms by (rule tx_run_commit_history)

theorem commit_needs_approval_witness:
  "commit_history [Reserved, AutoApproved, VirtualComplete, Running, Created]"
  by (rule commit_needs_approval)
     (intro tx_run.intros, simp_all add: can_transition_to_def)

text \<open>
  C8: no state is visited twice, so a record makes at most ten transitions.
\<close>

theorem lifecycle_terminates:
  assumes "tx_run h"
  shows "distinct h \<and> length h \<le> 11"
  using tx_run_distinct[OF assms] tx_run_length[OF assms] tx_rank_le[of "hd h"] by simp

theorem lifecycle_terminates_witness:
  "distinct [Rejected, PendingApproval, VirtualComplete, Running, Created]"
  using lifecycle_terminates[of "[Rejected, PendingApproval, VirtualComplete, Running, Created]"]
  by (simp add: tx_run.intros can_transition_to_def)


section \<open>Properties of paths, digests and snapshots\<close>

text \<open>
  C9: the canonical bytes a transaction identity is hashed from determine the whole binding:
  domain, every digest and every optional part.
\<close>

theorem transaction_binding_injective:
  "transaction_message a = transaction_message b \<longleftrightarrow> a = b"
  using transaction_message_inj by blast

text \<open>
  C10: the fast path of normalization changes nothing: parsing gives the result of the plain
  component loop on every input, errors included.
\<close>

theorem parse_is_reference:
  "parse input = normalize_ref input"
  by (simp add: parse_def normalize_eq_ref)

lemma escapes_root_exactly:
  "norm_components [] cs = Inl e \<longleftrightarrow> e = Path_EscapesRoot \<and> climbs 0 cs"
  using norm_components_Err_iff[of "[]"] by simp

text \<open>
  C11: a parsed path is canonical, and parsing its text again gives the same path unless its
  first component reads as a drive prefix.
\<close>

theorem parse_canonical:
  assumes "parse s = Inr p"
  shows "vpath_ok p \<and> (no_drive (components p) \<longrightarrow> parse (as_str p) = Inr p)"
  using assms normalize_ok parse_canonical_path by (auto simp: parse_def)

theorem parse_canonical_witness: "vpath_ok (VPath ''a/b'')"
  using parse_canonical[of "''a/./b''" "VPath ''a/b''"]
  by (simp add: parse_def normalize_def is_windows_prefix_def)

lemma within_is_prefix:
  assumes "vpath_ok p" "vpath_ok a"
  shows "is_within p a \<longleftrightarrow> prefix (components a) (components p)"
  using assms by (rule is_within_iff_prefix)

theorem within_is_prefix_witness:
  "\<not> is_within (VPath ''a-b'') (VPath ''a'')"
  using within_is_prefix[of "VPath ''a-b''" "VPath ''a''"]
  by (simp add: vpath_ok_def components_def is_root_def comp_ok_def)

lemma rebase_replaces_prefix:
  assumes "vpath_ok p" "vpath_ok source" "vpath_ok target"
    and "no_drive (components target @ drop (length (components source)) (components p))"
  shows "rebase p source target =
    (if prefix (components source) (components p)
     then Inr (Some (of_components (components target @ drop (length (components source)) (components p))))
     else Inr None)"
  using assms rebase_components rebase_outside by simp

theorem rebase_replaces_prefix_witness:
  "rebase (VPath ''a/b'') (VPath ''a'') (VPath ''c'') = Inr (Some (VPath ''c/b''))"
  using rebase_replaces_prefix[of "VPath ''a/b''" "VPath ''a''" "VPath ''c''"]
  by (simp add: vpath_ok_def components_def is_root_def comp_ok_def no_drive_def
      is_windows_prefix_def of_components_def)

text \<open>
  C12: streaming a listing through the 4096-byte buffer gives the digest of its whole canonical
  encoding.
\<close>

theorem listing_digest_streams:
  assumes "length (concat (map entry_bytes es)) < 2 ^ 64"
  shows "digest_entries blake3 es =
    Some (directory_digest_canonical blake3 (concat (map entry_bytes es)))"
  using assms by (rule digest_entries_canonical)

theorem listing_digest_streams_witness:
  "digest_entries example_hash [] = Some (directory_digest_canonical example_hash [])"
  using listing_digest_streams[of "[]" example_hash] by simp

lemma digest_text_parses: "decode_digest (digest_to_string d) = Inr d"
  by (rule digest_text_roundtrip)



lemma snapshot_build:
  assumes "bt_ok nodes" "list_all vpath_ok (bt_keys nodes)" "is_directory nodes root"
  shows "(\<forall>p \<in> set (bt_keys nodes). p \<noteq> root \<longrightarrow> is_directory nodes (parent_of p)) \<longleftrightarrow>
    (\<exists>b. build blake3 nodes = Inr b \<and> snap_ok b \<and> bs_nodes b = nodes)"
proof
  assume "\<forall>p \<in> set (bt_keys nodes). p \<noteq> root \<longrightarrow> is_directory nodes (parent_of p)"
  from build_total[OF this] show "\<exists>b. build blake3 nodes = Inr b \<and> snap_ok b \<and> bs_nodes b = nodes"
    using build_ok[OF _ assms] by blast
qed (auto simp: snap_ok_def)

theorem snapshot_build_witness: "\<exists>b. build example_hash builder_new = Inr b \<and> snap_ok b"
  using snapshot_build[of builder_new example_hash]
  by (auto simp: builder_new_def bt_ok_def is_directory_def directory_node_def directory_state_def)

lemma evidence_bounded:
  "ev_grows b (snd (ev_reserve rs bs b)) \<and> ev_ok (snd (ev_reserve rs bs b)) \<and>
   ev_grows b (snd (ev_reserve_buffer buf bs b)) \<and> ev_ok (ev_limit l b)"
  using ev_reserve_grows ev_reserve_ok ev_reserve_buffer_grows ev_limit_ok by blast

section \<open>Properties of the virtual filesystem\<close>

text \<open>A transaction over an empty workspace, for the witnesses.\<close>

definition example_env :: environment where
  "example_env = \<lparr>env_blake3 = example_hash, env_fault = (\<lambda>_. False), env_load = (\<lambda>_ _ _. Inl []),
     env_alloc = (\<lambda>_. True), sz_usize = 8, sz_path = 24, sz_resolved = 64, sz_read = 64, sz_write = 64,
     sz_overlay = 64, sz_node = 64, sz_effect = 64\<rparr>"

definition example_world :: world where
  "example_world = \<lparr>blobs = Map.empty, cells = (\<lambda>_. \<lparr>lz_expected = \<lparr>stamp_kind = File,
     stamp_size = 0, stamp_mode = 0, mtime_ns = 0, ctime_ns = None, file_id = \<lparr>high = 0, low = 0\<rparr>\<rparr>,
     lz_captured = None\<rparr>), next_cell = 0, loads = 0\<rparr>"

definition example_base :: base_snapshot where
  "example_base = \<lparr>bs_id = 1, bs_nodes = builder_new, bs_children = []\<rparr>"

definition example_fs :: virtual_fs where
  "example_fs = vfs_new example_base example_world"

lemma example_base_ok: "snap_ok example_base"
  by (auto simp: snap_ok_def example_base_def builder_new_def bt_ok_def is_directory_def
      directory_node_def directory_state_def direct_children_def)

lemma example_fs_inv: "vfs_inv example_env example_fs"
  unfolding example_fs_def by (rule vfs_inv_new[OF example_base_ok])

lemma example_paths: "vpath_ok (VPath ''a'')" "vpath_ok (VPath ''b'')"
  by (simp_all add: vpath_ok_def components_def is_root_def comp_ok_def)

lemmas run_simps = bindS_def check_evidence_def ev_check_def ensure_mutable_def is_root_def
  require_parent_def require_directory_def record_metadata_def update_read_entry_def has_metadata_def
  on_evidence_def ev_reserve_def Let_def exceeds_def checked_add_def unwrap_max_def accounted_bytes_def
  get_or_insert_def empty_observation_def base_expected_def base_node_def resolve_def
  resolve_unshadowed_def current_state_def node_state_in_def in_world_def store_put_def blob_put_def
  push_effect_def grow_bounded_def vector_full_def record_write_def overlay_insert_def bt_contains_def
  materialized_node_def file_state_def parent_def parent_str_def map_errS_def expected_state_def
  entry_exists_def verify_existing_def blob_digest_def less_vpath_def shadowed.simps blocks_def
  is_within_def visible_subtree_def subtree_candidates_def subtree_keys_def prefix_range_def
  dir_prefix_def rebase_checked_def rebase_def relative_to_def ev_reserve_buffer_def len64_def

lemmas example_simps = example_env_def example_fs_def vfs_new_def example_base_def builder_new_def
  root_def directory_node_def directory_state_def example_world_def default_budget_def
  default_limits_def default_usage_def example_hash_def

text \<open>
  C14: whatever operations a program performs, failing ones included, the transaction stays over
  the same base and keeps its invariant: the visible nodes form a tree, every overlay entry has a
  write precondition, every recorded expectation is the state of the base, the effects are
  numbered in order, and the evidence is within its limits.
\<close>

theorem transaction_invariant:
  assumes "reachable env b v" "snap_ok b"
  shows "vfs_inv env v \<and> vf_base v = b"
  using assms by (rule reachable_inv)

theorem transaction_invariant_witness:
  "vf_base (snd (vfs_exec example_env (CallMkdir (VPath ''a'') 1)
     (limit_evidence default_limits (vfs_new example_base example_world)))) = example_base"
  using transaction_invariant[OF reachable.call[OF reachable.start] example_base_ok,
      of "CallMkdir (VPath ''a'') 1" example_env default_limits example_world] example_paths by simp

text \<open>
  C15: a failing operation leaves the visible files as they were, unless the evidence budget is
  exhausted (and with it the transaction); the exception is a rename to a name that reads as a
  drive prefix, which may have removed its destination.
\<close>

theorem failures_are_clean:
  assumes "vfs_inv env v" "call_ok c" "vfs_exec env c v = (Inl e, t)" "drive_target c = None"
  shows "lookup t = lookup v \<or> (\<exists>f. e = EvidenceLimit f \<and> ev_failure (vf_evidence t) = Some f)"
  using wp_Inl[OF wp_exec[OF assms(1,2)] assms(3)] assms(4) by (auto simp: call_error_def ev_fail_def)

lemma run_split: "fst x = r \<Longrightarrow> x = (r, snd x)"
  by auto

lemma example_unlink: "fst (vfs_exec example_env (CallUnlink (VPath ''a'')) example_fs)
    = Inl (Vfs_NotFound (VPath ''a''))"
  by (simp add: unlink_def run_simps example_simps)

theorem failures_are_clean_witness:
  "lookup (snd (vfs_exec example_env (CallUnlink (VPath ''a'')) example_fs)) = lookup example_fs"
  using failures_are_clean[OF example_fs_inv _ run_split[OF example_unlink]] example_paths by simp

text \<open>
  C16: when the evidence budget has failed, every operation returns that failure and changes
  nothing, and neither a diff nor the evidence of the transaction can be taken.
\<close>

theorem exhausted_evidence_stops:
  assumes "ev_failure (vf_evidence v) = Some f"
  shows "vfs_exec env c v = (Inl (EvidenceLimit f), v) \<and>
    canonical_diff_op env v = (Inl (EvidenceLimit f), v) \<and> into_evidence v = Inl (EvidenceLimit f)"
  using stopped_exec[OF assms] assms
  by (simp add: canonical_diff_op_def stopped_check into_evidence_def check_evidence_def ev_check_def)

theorem exhausted_evidence_stops_witness:
  "vfs_exec example_env CallDiff (example_fs\<lparr>vf_evidence := default_budget\<lparr>ev_failure := Some EvAllocation\<rparr>\<rparr>) =
    (Inl (EvidenceLimit EvAllocation),
     example_fs\<lparr>vf_evidence := default_budget\<lparr>ev_failure := Some EvAllocation\<rparr>\<rparr>)"
  using exhausted_evidence_stops[of "example_fs\<lparr>vf_evidence := default_budget\<lparr>ev_failure := Some EvAllocation\<rparr>\<rparr>"
      EvAllocation example_env CallDiff] by simp

text \<open>
  C17: a read after a write returns content with the written content's digest, and the write
  changed no other path.
\<close>

theorem reads_own_writes:
  assumes "vfs_inv env v" "vpath_ok p" "write_file env p b v = (Inr x, t)" "read env p t = (Inr c, u)"
  shows "env_blake3 env c = env_blake3 env b \<and> (\<forall>q. q \<noteq> p \<longrightarrow> lookup u q = lookup v q)"
  using read_your_writes[OF assms] by blast

lemma example_write_read:
  "fst (write_file example_env (VPath ''a'') [1] example_fs) = Inr ()"
  "fst (read example_env (VPath ''a'') (snd (write_file example_env (VPath ''a'') [1] example_fs))) = Inr [1]"
  by (simp_all add: write_file_def read_def read_content_def node_read_def store_get_def blob_get_def
      blob_get_bounded_def run_simps example_simps)

theorem reads_own_writes_witness:
  "lookup (snd (read example_env (VPath ''a'') (snd (write_file example_env (VPath ''a'') [1] example_fs))))
     (VPath ''b'') = None"
proof -
  have "lookup example_fs (VPath ''b'') = None"
    by (simp add: resolve_unshadowed_def base_node_def example_simps)
  then show ?thesis
    using reads_own_writes[OF example_fs_inv example_paths(1) run_split[OF example_write_read(1)]
        run_split[OF example_write_read(2)]] by simp
qed

text \<open>
  C18: a successful rename of different paths moves the subtree: the nodes below the source are
  found below the destination under the same relative names, the source and everything that was
  at the destination are gone, every other path is untouched.
\<close>

theorem rename_moves_subtree:
  assumes "vfs_inv env v" "vpath_ok a" "vpath_ok b" "rename env a b v = (Inr x, t)" "a \<noteq> b"
  shows "lookup v a \<noteq> None \<and> lookup t = moved (lookup v) a b \<and> vfs_inv env t"
  using wp_Inr[OF wp_rename[OF assms(1-3)] assms(4)] assms(5) by blast

lemma example_rename:
  "fst (mkdir example_env (VPath ''a'') 1 example_fs) = Inr ()"
  "fst (rename example_env (VPath ''a'') (VPath ''b'')
     (snd (mkdir example_env (VPath ''a'') 1 example_fs))) = Inr ()"
  by (simp_all add: mkdir_def rename_def run_simps example_simps)

lemma example_mkdir_inv: "vfs_inv example_env (snd (mkdir example_env (VPath ''a'') 1 example_fs))"
  using wp_Inr[OF wp_mkdir[OF example_fs_inv example_paths(1)] run_split[OF example_rename(1)]]
  by (simp add: sets_def)

theorem rename_moves_subtree_witness:
  "lookup (snd (rename example_env (VPath ''a'') (VPath ''b'')
     (snd (mkdir example_env (VPath ''a'') 1 example_fs)))) (VPath ''a'') = None"
proof -
  have "moved m (VPath ''a'') (VPath ''b'') (VPath ''a'') = None" for m
    by (simp add: moved_def is_within_def is_root_def)
  then show ?thesis
    using rename_moves_subtree[OF example_mkdir_inv example_paths run_split[OF example_rename(2)]] by simp
qed

text \<open>
  C19: a directory that was removed with its contents and created again is empty: no node of the
  base comes back.
\<close>

theorem removed_tree_stays_removed:
  assumes "vfs_inv env v" "vpath_ok p" "remove_tree env p v = (Inr x, t)" "mkdir env p m t = (Inr y, u)"
  shows "visible_children u p = []"
  using assms by (rule removed_is_gone)

lemma example_remove:
  "fst (remove_tree example_env (VPath ''a'') (snd (mkdir example_env (VPath ''a'') 1 example_fs))) = Inr ()"
  "fst (mkdir example_env (VPath ''a'') 1 (snd (remove_tree example_env (VPath ''a'')
     (snd (mkdir example_env (VPath ''a'') 1 example_fs))))) = Inr ()"
  by (simp_all add: mkdir_def remove_tree_def run_simps example_simps)

theorem removed_tree_stays_removed_witness:
  "visible_children (snd (mkdir example_env (VPath ''a'') 1 (snd (remove_tree example_env (VPath ''a'')
     (snd (mkdir example_env (VPath ''a'') 1 example_fs)))))) (VPath ''a'') = []"
  using removed_tree_stays_removed[OF example_mkdir_inv example_paths(1) run_split[OF example_remove(1)]
      run_split[OF example_remove(2)]] .

text \<open>
  C20: a listing of a directory is the ordered list of exactly its visible children, within the
  limit of the caller.
\<close>

theorem listing_is_exact:
  assumes "vfs_inv env v" "vpath_ok p" "read_dir_with_limit env p limit v = (Inr cs, t)"
  shows "sorted_wrt (<) cs \<and> length cs \<le> limit \<and>
    set cs = {c. lookup v c \<noteq> None \<and> c \<noteq> root \<and> parent_of c = p} \<and> lookup t = lookup v"
  using wp_Inr[OF wp_read_dir[OF assms(1,2)] assms(3)] books_lookup by blast

lemma example_listing: "fst (read_dir_with_limit example_env root 5 example_fs) = Inr []"
  by (simp add: read_dir_with_limit_def visible_children_def direct_children_def stop_on_evidence_def
      run_simps example_simps)

theorem listing_is_exact_witness:
  "{c. lookup example_fs c \<noteq> None \<and> c \<noteq> root \<and> parent_of c = root} = {}"
  using listing_is_exact[OF example_fs_inv vpath_ok_root run_split[OF example_listing]] by simp

text \<open>
  C21: the canonical diff lists, in path order and each with a recorded write precondition,
  exactly the paths whose state differs from the base, with the right kind; every path without an
  entry looks as it does in the base.
\<close>

theorem canonical_diff_exact:
  assumes "vfs_inv env v" "canonical_diff_op env v = (Inr d, t)"
  shows "diff_ok env v (vf_world t) d"
  using wp_Inr[OF wp_canonical_diff[OF assms(1)] assms(2)] by blast

lemma example_diff: "\<exists>d. fst (canonical_diff_op example_env example_fs) = Inr d"
  by (simp add: canonical_diff_op_def diff_candidates_def bs_extend_def diff_entries_def
      run_simps example_simps)

theorem canonical_diff_exact_witness:
  "\<exists>d w. fst (canonical_diff_op example_env example_fs) = Inr d \<and> diff_ok example_env example_fs w d"
  using example_diff canonical_diff_exact[OF example_fs_inv run_split] by blast

text \<open>C22: a produced diff passes the validation of decoded diffs, with the same digest.\<close>

theorem canonical_diff_decodes:
  assumes "vfs_inv env v" "canonical_diff_op env v = (Inr d, t)"
  shows "\<exists>d'. from_entries (env_blake3 env) (cd_entries d) = Inr d' \<and>
    cd_entries d' = cd_entries d \<and> cd_digest d' = cd_digest d"
  using wp_Inr[OF wp_canonical_diff[OF assms(1)] assms(2)] diff_ok_decodes by blast

theorem canonical_diff_decodes_witness:
  "\<exists>d d'. fst (canonical_diff_op example_env example_fs) = Inr d \<and>
     from_entries (env_blake3 example_env) (cd_entries d) = Inr d'"
  using example_diff canonical_diff_decodes[OF example_fs_inv run_split] by blast

section \<open>Properties of the policy\<close>

text \<open>
  C23: a compiled pattern matches a path exactly when its denotation does: the two retry loops and
  the shortcuts for literals, single wildcards and base names change nothing, and a pattern of one
  component applies at any depth.
\<close>

theorem pattern_language:
  assumes "compile_pattern source = Inr pp" "vpath_ok p"
  shows "pattern_matches pp p (file_name p) \<longleftrightarrow> path_glob (denoted source) (components p)"
  using assms by (rule pattern_matches_denoted)

lemma example_pattern: "\<exists>pp. compile_pattern ''src/**/*.rs'' = Inr pp"
  by (simp add: compile_pattern_def)

lemma example_source_file: "vpath_ok (VPath ''src/a/b.rs'')"
  "components (VPath ''src/a/b.rs'') = [''src'', ''a'', ''b.rs'']"
  by (simp_all add: vpath_ok_def components_def is_root_def comp_ok_def)

theorem pattern_language_witness:
  "\<exists>pp. compile_pattern ''src/**/*.rs'' = Inr pp \<and>
     pattern_matches pp (VPath ''src/a/b.rs'') (file_name (VPath ''src/a/b.rs''))"
proof -
  obtain pp where pp: "compile_pattern ''src/**/*.rs'' = Inr pp" using example_pattern by blast
  have "path_glob (denoted ''src/**/*.rs'') [''src'', ''a'', ''b.rs'']" by code_simp
  then show ?thesis
    using pattern_language[OF pp example_source_file(1)] pp unfolding example_source_file(2) by blast
qed

text \<open>
  C24: sorting the rules and merging those of one pattern keeps what the list denies, and the
  canonical list depends on the set of rules only, not on their order or repetitions.
\<close>

theorem rules_canonical:
  assumes "\<forall>r \<in> set rules. rule_ok r" "vpath_ok p" "set rules' = set rules"
  shows "((\<exists>d. authorize (call_policy_new rules) p a = Inl d) \<longleftrightarrow> denies rules p a) \<and>
    call_policy_new rules' = call_policy_new rules"
proof
  show "(\<exists>d. authorize (call_policy_new rules) p a = Inl d) \<longleftrightarrow> denies rules p a"
    using authorize_Inl_iff[OF call_policy_ok[OF assms(1)] assms(2)] call_policy_denies by simp
  show "call_policy_new rules' = call_policy_new rules"
    by (rule call_policy_set_eq) (use assms in simp_all)
qed

theorem rules_canonical_witness:
  "\<exists>r s. protected_rule_new ''a/*'' access_reads = Inr r \<and> protected_rule_new ''a/*'' access_mutations = Inr s \<and>
     call_policy_new [s, r, s] = call_policy_new [r, s] \<and>
     (\<exists>d. authorize (call_policy_new [s, r, s]) (VPath ''a/b'') Acc_Delete = Inl d)"
proof -
  have c: "compiles ''a/*''" by code_simp
  obtain r s where rs: "protected_rule_new ''a/*'' access_reads = Inr r"
      "protected_rule_new ''a/*'' access_mutations = Inr s"
    using compiles_rule[OF c] by metis
  have ok: "rule_ok r" "rule_source r = ''a/*''" "rule_ok s" "rule_source s = ''a/*''"
      "denied s = access_mutations"
    using protected_rule_new_ok[OF rs(1)] protected_rule_new_ok[OF rs(2)] by simp_all
  have p: "vpath_ok (VPath ''a/b'')" "components (VPath ''a/b'') = [''a'', ''b'']"
    by (simp_all add: vpath_ok_def components_def is_root_def comp_ok_def)
  have "path_glob (denoted ''a/*'') [''a'', ''b'']" by code_simp
  then have "denies [r, s] (VPath ''a/b'') Acc_Delete"
    using ok p by (simp add: denies_def access_contains_mutations is_mutation_def)
  moreover have "set [s, r, s] = set [r, s]" "\<forall>x \<in> set [r, s]. rule_ok x" using ok by auto
  ultimately show ?thesis
    using rules_canonical[of "[r, s]" "VPath ''a/b''" "[s, r, s]" Acc_Delete] p rs by metis
qed

definition protected_by_default :: "access_kind \<Rightarrow> string list \<Rightarrow> bool" where
  "protected_by_default a cs \<longleftrightarrow> (\<exists>c \<in> set cs. secret_component c) \<or>
     cs \<noteq> [] \<and> (secret_name (last cs) \<or> runtime_name (last cs) \<or> hd cs = ''.vsh-runtime'' \<or>
       is_mutation a \<and> (last cs = ''.git'' \<or> hd cs = ''.git''))"

text \<open>
  C25: what the default rules protect, exactly: every access to a secret component or file name and
  to the runtime's own directory, and mutations of \<open>.git\<close> by name or below a top-level \<open>.git\<close>.
\<close>

theorem default_protection:
  assumes "secure_default = Some rules" "vpath_ok p"
  shows "(\<exists>d. authorize rules p a = Inl d) \<longleftrightarrow> protected_by_default a (components p)"
  unfolding authorize_Inl_iff[OF secure_default_denies(1)[OF assms(1)] assms(2)]
    secure_default_denies(2)[OF assms(1)] set_append bex_Un secrets_denoted runtime_denoted
    git_denoted protected_by_default_def
  by blast

theorem default_protection_witness:
  "\<exists>rules. secure_default = Some rules \<and>
     (\<exists>d. authorize rules (VPath ''.git/config'') Acc_Modify = Inl d) \<and>
     \<not> (\<exists>d. authorize rules (VPath ''.git/config'') Acc_ContentRead = Inl d)"
proof -
  obtain rules where rules: "secure_default = Some rules" by (rule secure_default_rules)
  have p: "vpath_ok (VPath ''.git/config'')" "components (VPath ''.git/config'') = [''.git'', ''config'']"
    by (simp_all add: vpath_ok_def components_def is_root_def comp_ok_def)
  show ?thesis
    using rules default_protection[OF rules p(1), of Acc_Modify] default_protection[OF rules p(1), of Acc_ContentRead]
    unfolding p(2)
    by (auto simp: protected_by_default_def secret_component_def secret_name_def runtime_name_def
        is_mutation_def suffix_def prefix_def)
qed

text \<open>
  C26: a transaction is denied exactly when an access was refused, a changed path is protected or a
  limit is exceeded, and approved without review exactly when in addition the difference is empty or
  carries no risk.
\<close>

theorem decision_exact:
  "((\<exists>d. evaluate p i = Deny d) \<longleftrightarrow>
     refused p i \<or> over_limits (tp_thresholds p) (snd (evaluate_with_metrics p i))) \<and>
   (evaluate p i = AutoApprove \<longleftrightarrow>
     \<not> (refused p i \<or> over_limits (tp_thresholds p) (snd (evaluate_with_metrics p i)) \<or>
       cd_entries (pi_diff i) \<noteq> [] \<and> risky p (snd (evaluate_with_metrics p i)) (cd_entries (pi_diff i))))"
  using severity_cases[of p i] by (cases "evaluate p i") (auto simp: evaluate_with_metrics_def Let_def split: if_splits)

text \<open>
  C27: a stricter profile never decides more leniently, and the two stricter ones never approve a
  change without review.
\<close>

theorem presets_monotone:
  assumes "preset blake3 a = Some p" "preset blake3 b = Some q" "strictness a \<le> strictness b"
  shows "severity (evaluate p i) \<le> severity (evaluate q i) \<and>
    (b \<noteq> Balanced \<longrightarrow> cd_entries (pi_diff i) \<noteq> [] \<longrightarrow> evaluate q i \<noteq> AutoApprove)"
proof
  let ?m = "from_evidence (cd_entries (pi_diff i)) (pi_effects i) (pi_base_node_count i)"
  note p = preset_policy[OF assms(1)] and q = preset_policy[OF assms(2)]
  have "tp_call_policy p = tp_call_policy q" using p(3) q(3) by (metis option.inject)
  then have "refused p i = refused q i" by (simp add: refused_def)
  moreover have "over_limits (tp_thresholds p) ?m \<Longrightarrow> over_limits (tp_thresholds q) ?m"
    using over_limits_mono[OF assms(3)] p(2) q(2) by simp
  moreover have "risky p ?m es \<Longrightarrow> risky q ?m es" for es
    using risky_mono[OF assms(3) p(1) q(1) p(2) q(2)] .
  ultimately show "severity (evaluate p i) \<le> severity (evaluate q i)"
    unfolding severity_cases Let_def by auto
  show "b \<noteq> Balanced \<longrightarrow> cd_entries (pi_diff i) \<noteq> [] \<longrightarrow> evaluate q i \<noteq> AutoApprove"
    using decision_exact[of q i] q(1) by (auto simp: risky_def)
qed

definition example_input :: policy_input where
  "example_input = \<lparr>pi_diff = \<lparr>cd_entries = [\<lparr>entry_path = VPath ''a'',
       entry_before = Some (directory_state 0x1FF), entry_after = None, entry_kind = DDelete\<rparr>],
     cd_digest = 3, cd_metrics = \<lparr>candidate_paths = 1, expanded_delete_paths = 0, changed_paths = 1,
       materialized_after_bytes = 0\<rparr>\<rparr>,
     pi_effects = [], pi_denied_accesses = [], pi_base_node_count = 9\<rparr>"

theorem presets_monotone_witness:
  "\<exists>p q. preset example_hash Balanced = Some p \<and> preset example_hash Paranoid = Some q \<and>
     severity (evaluate p example_input) \<le> severity (evaluate q example_input) \<and>
     evaluate q example_input \<noteq> AutoApprove"
proof -
  obtain p q where pq: "preset example_hash Balanced = Some p" "preset example_hash Paranoid = Some q"
    using preset_exists by metis
  then show ?thesis using presets_monotone[OF pq, of example_input] by (auto simp: example_input_def)
qed

lemma metrics_exact:
  assumes "m = from_evidence es effects b" "length es * 10000 < 2 ^ 64"
  shows "touched_paths m = length es \<and> created_paths m + deleted_paths m + modified_paths m = length es \<and>
    deleted_paths m = length (filter (\<lambda>e. entry_kind e = DDelete) es) \<and>
    unat (changed_bytes m) = min (sum_list (map content_bytes es)) (2 ^ 64 - 1) \<and>
    unat (delete_ratio_bps m) = (if b \<le> 1 then 0 else min (deleted_paths m * 10000 div (b - 1)) 10000)"
proof -
  let ?f = "fold count_entry es (zero_metrics\<lparr>touched_paths := length es\<rparr>)"
  let ?n = "\<lambda>P. length (filter P es)"
  have m: "m = ?f\<lparr>renamed_paths := length (filter is_rename effects),
      delete_ratio_bps := delete_ratio (deleted_paths ?f) b\<rparr>"
    using assms(1) by (simp add: from_evidence_def Let_def)
  have deleted: "deleted_paths ?f = ?n (\<lambda>e. entry_kind e = DDelete)"
    by (simp add: fold_count_entry zero_metrics_def)
  then have "deleted_paths ?f * 10000 < 2 ^ 64"
    using assms(2) length_filter_le[of "\<lambda>e. entry_kind e = DDelete" es] by linarith
  then have ratio: "unat (delete_ratio (deleted_paths ?f) b) =
      (if b \<le> 1 then 0 else min (deleted_paths ?f * 10000 div (b - 1)) 10000)"
    by (rule delete_ratio_eq)
  have "?n (\<lambda>e. entry_kind e = DCreate) + ?n (\<lambda>e. entry_kind e = DDelete) +
      ?n (\<lambda>e. entry_kind e = DModify \<or> entry_kind e = DMetadataChange) = length es"
  proof (induction es)
    case (Cons e es)
    then show ?case by (cases "entry_kind e") auto
  qed simp
  moreover have "unat (changed_bytes ?f) = min (sum_list (map content_bytes es)) (2 ^ 64 - 1)"
    by (simp add: fold_changed_bytes zero_metrics_def)
  ultimately show ?thesis using deleted ratio unfolding m by (simp add: fold_count_entry zero_metrics_def)
qed

theorem metrics_exact_witness:
  "unat (delete_ratio_bps (from_evidence
     [\<lparr>entry_path = VPath ''a'', entry_before = None, entry_after = None, entry_kind = DDelete\<rparr>] [] 5)) = 2500"
  using metrics_exact[OF refl, of "[\<lparr>entry_path = VPath ''a'', entry_before = None, entry_after = None, entry_kind = DDelete\<rparr>]" "[]" 5]
  by simp






section \<open>Observations on the code\<close>

text \<open>A drive prefix behind a dot component is accepted, and its canonical text is not a path.\<close>

lemma parse_drive_component:
  "parse ''./C:'' = Inr (VPath ''C:'')" "parse ''C:'' = Inl Path_PlatformPrefix"
  by (simp_all add: parse_def normalize_def is_windows_prefix_def is_ascii_alphabetic_def)

text \<open>Renaming a directory with children over an empty directory of that name loses it.\<close>

definition example_drive_fs :: virtual_fs where
  "example_drive_fs = snd (mkdir example_env (VPath ''C:'') 1
     (snd (mkdir example_env (VPath ''a/b'') 1 (snd (mkdir example_env (VPath ''a'') 1 example_fs)))))"

lemma rename_to_drive_loses_destination:
  "fst (rename example_env (VPath ''a'') (VPath ''C:'') example_drive_fs) = Inl (Vfs_Path Path_PlatformPrefix)"
  "lookup example_drive_fs (VPath ''C:'') \<noteq> None"
  "lookup (snd (rename example_env (VPath ''a'') (VPath ''C:'') example_drive_fs)) (VPath ''C:'') = None"
  by (simp_all add: example_drive_fs_def mkdir_def rename_def rename_target_def visible_children_def
      direct_children_def overlay_children_def join_def normalize_def is_windows_prefix_def
      is_ascii_alphabetic_def run_simps example_simps)

text \<open>
  A pending approval may expire by the transition relation, and the memory store lets it; the
  durable store refuses to write the expired record because it has no grant.
\<close>

lemma expiry_without_grant_diverges:
  assumes "rec_state r = PendingApproval" "rec_approval r = None"
  shows "transition r Expired = Inr (r\<lparr>rec_state := Expired\<rparr>)"
    "validate_record (r\<lparr>rec_state := Expired\<rparr>) offset
      = Inl (corrupt offset ''manual approval state lacks its grant'')"
  using assms by (simp_all add: transition_def can_transition_to_def validate_record_def)

section \<open>Commit plans\<close>

text \<open>A plan that removes the directory \<open>d\<close> with the file in it and creates \<open>g\<close>.\<close>

definition example_before :: "(vpath \<times> node_state) list" where
  "example_before = [(root, directory_state 0x1ED), (VPath ''d'', directory_state 0x1ED),
     (VPath ''d/f'', file_state 7 3 0x1A4)]"

definition example_later :: "(vpath \<times> node_state) list" where
  "example_later = [(root, directory_state 0x1ED), (VPath ''g'', file_state 9 4 0x1A4)]"

definition example_diff :: canonical_diff where
  "example_diff = \<lparr>cd_entries = map (\<lambda>p. \<lparr>entry_path = p, entry_before = map_of example_before p,
       entry_after = map_of example_later p,
       entry_kind = (if map_of example_later p = None then DDelete else DCreate)\<rparr>)
       [VPath ''d'', VPath ''d/f'', VPath ''g''],
     cd_digest = 1, cd_metrics = \<lparr>candidate_paths = 3, expanded_delete_paths = 2, changed_paths = 3,
       materialized_after_bytes = 4\<rparr>\<rparr>"

definition example_reads :: "(vpath, read_observation) btree" where
  "example_reads = map (\<lambda>p. (p, \<lparr>obs_metadata = Some (map_of example_before p), obs_content = None,
     obs_directory = None\<rparr>)) [root, VPath ''d'']"

definition example_writes :: "(vpath, write_precondition) btree" where
  "example_writes = map (\<lambda>p. (p, \<lparr>wp_expected = map_of example_before p\<rparr>))
     [VPath ''d'', VPath ''d/f'', VPath ''g'']"

definition example_binding :: transaction_binding where
  "example_binding = \<lparr>base_snapshot = 2, diff = 1, read_set = 1, write_set = 1, program = 3, policy = 4,
     runtime_config = 5, intent = None, invocation = None, commit_hook = None, execution_evidence = None\<rparr>"




lemma example_entries: "cd_entries example_diff =
   [\<lparr>entry_path = VPath ''d'', entry_before = Some (directory_state 0x1ED), entry_after = None, entry_kind = DDelete\<rparr>,
    \<lparr>entry_path = VPath ''d/f'', entry_before = Some (file_state 7 3 0x1A4), entry_after = None, entry_kind = DDelete\<rparr>,
    \<lparr>entry_path = VPath ''g'', entry_before = None, entry_after = Some (file_state 9 4 0x1A4), entry_kind = DCreate\<rparr>]"
  by code_simp









section \<open>The commit journal\<close>

text \<open>
  C31: whatever prefix of a journal a crash leaves, replay gives exactly the state of its complete
  records and reports a partial one: an intent is known for the completed operations and at most the
  next one, and a witness exactly for the completed ones.
\<close>

theorem journal_crash_safe:
  assumes "journal_run v2 es (empty_journal, 0) = Some (st, n)"
    and "k < length (journal_frame blake3 (event_payload e))"
    and "file = journal_file blake3 v2 es @ take k (journal_frame blake3 (event_payload e))"
    and "length file \<le> maximum"
  shows "read_journal blake3 maximum (Some file) = Inr (st\<lparr>js_torn_tail := 0 < k\<rparr>) \<and>
    (\<forall>i. has_intent st i \<longleftrightarrow> i < n \<or> js_pending st = Some i) \<and>
    (\<forall>i. witness_at st i \<noteq> None \<longleftrightarrow> i < n) \<and> (js_pending st = None \<or> js_pending st = Some n)"
  using read_journal_replays[OF assms] journal_run_shape[OF assms(1) empty_journal_shape]
  by (simp add: journal_shape_def)

definition example_witness :: witness where
  "example_witness = \<lparr>wit_kind = File, wit_file_id = \<lparr>high = 1, low = 7\<rparr>\<rparr>"

theorem journal_crash_safe_witness:
  "\<exists>st. read_journal example_hash 1000 (Some (journal_file example_hash False
      [JIntent 0 None example_witness, JDone 0 example_witness] @
      take 10 (journal_frame example_hash (event_payload (JIntent 1 None example_witness))))) = Inr st \<and>
    js_torn_tail st \<and> has_intent st 0 \<and> witness_at st 0 = Some example_witness"
proof -
  let ?es = "[JIntent 0 None example_witness, JDone 0 example_witness]"
  let ?e = "JIntent 1 None example_witness"
  obtain st where st: "journal_run False ?es (empty_journal, 0) = Some (st, 1)"
    "has_intent st 0" "witness_at st 0 = Some example_witness"
    by (simp add: empty_journal_def complete_record_def has_intent_def witness_at_def bt_contains_def)
  have frame: "10 < length (journal_frame example_hash (event_payload ?e))"
    by (simp add: journal_frame_def length_payloads)
  have "length (journal_file example_hash False ?es @ take 10 (journal_frame example_hash (event_payload ?e))) \<le> 1000"
    by (simp add: journal_file_def journal_create_def journal_magic_def journal_frame_def length_payloads)
  from journal_crash_safe[OF st(1) frame refl this] st(2,3) show ?thesis
    by (auto simp: has_intent_def witness_at_def)
qed

section \<open>Commits\<close>

text \<open>A workspace with one file \<open>g\<close>, and a reviewed plan that removes it.\<close>

definition example_root :: ino where "example_root = \<lparr>high = 0, low = 1\<rparr>"
definition example_file :: ino where "example_file = \<lparr>high = 0, low = 2\<rparr>"

definition example_nodes :: "ino \<Rightarrow> inode option" where
  "example_nodes = [example_root \<mapsto> \<lparr>i_kind = Directory, i_mode = 0x1ED, i_mtime = 0, i_ctime = 0, i_links = 1,
       i_data = [], i_names = [(''g'', example_file)]\<rparr>,
     example_file \<mapsto> \<lparr>i_kind = File, i_mode = 0x1A4, i_mtime = 0, i_ctime = 0, i_links = 1, i_data = [1, 2, 3],
       i_names = []\<rparr>]"

definition example_host_env :: host_env where
  "example_host_env = \<lparr>he_blake3 = example_hash, he_alloc = (\<lambda>t. \<lparr>high = 1, low = of_nat t\<rparr>), he_time = (\<lambda>_. 1),
     he_stop = (\<lambda>_. False), he_torn = (\<lambda>_. 0), he_dir_mode = 0x1ED, he_blob_fault = (\<lambda>_. False)\<rparr>"

definition example_state :: "ino \<Rightarrow> node_state" where
  "example_state x = from_stamp (inode_stamp x (the (example_nodes x)))"

definition example_removal :: canonical_diff where
  "example_removal = \<lparr>cd_entries = [\<lparr>entry_path = VPath ''g'', entry_before = Some (example_state example_file),
       entry_after = None, entry_kind = DDelete\<rparr>],
     cd_digest = 1, cd_metrics = \<lparr>candidate_paths = 1, expanded_delete_paths = 0, changed_paths = 1,
       materialized_after_bytes = 0\<rparr>\<rparr>"

definition example_removal_reads :: "(vpath, read_observation) btree" where
  "example_removal_reads = [(root, \<lparr>obs_metadata = Some (Some (example_state example_root)), obs_content = None,
     obs_directory = None\<rparr>)]"

definition example_removal_writes :: "(vpath, write_precondition) btree" where
  "example_removal_writes = [(VPath ''g'', \<lparr>wp_expected = Some (example_state example_file)\<rparr>)]"

definition example_removal_plan :: commit_plan where
  "example_removal_plan = \<lparr>pl_binding = example_binding, pl_diff = example_removal,
     pl_read_set = example_removal_reads, pl_write_set = example_removal_writes\<rparr>"

definition example_site :: site where
  "example_site = \<lparr>s_host = \<lparr>h_inodes = example_nodes, h_root = example_root, h_tick = 0\<rparr>,
     s_store = \<lparr>records = [(1, \<lparr>rec_id = 1, rec_base = 2, rec_state = Reserved, rec_artifact = None,
       rec_approval = None\<rparr>)], poisoned = False\<rparr>,
     s_blobs = (\<lambda>_. None), s_dirs = []\<rparr>"

definition example_reservation :: commit_reservation where
  "example_reservation = \<lparr>res_transaction = 1, res_base = 2\<rparr>"

lemma example_removal_plan_new:
  "commit_plan_new example_hash example_binding example_removal example_removal_reads example_removal_writes
    = Inr example_removal_plan"
proof -
  have d: "read_set_digest example_hash r = 1" "write_set_digest example_hash w = 1" for r w
    by (simp_all add: read_set_digest_def read_set_digest_canonical_def write_set_digest_def
      write_set_digest_canonical_def domain_hash_def example_hash_def)
  have p: "parse runtime_directory = Inr (VPath ''.vsh-runtime'')" by code_simp
  have "check_plan_entries example_removal_reads example_removal_writes (VPath ''.vsh-runtime'')
      (cd_entries example_removal) = Inr ()"
    by (simp add: example_removal_def example_removal_reads_def example_removal_writes_def check_plan_entry_def
      is_root_def is_within_def parent_def root_def is_none_or_def unmaterialized_after_def unsupported_metadata_def
      is_some_and_def unsupported_mode_def Let_def)
  then show ?thesis
    by (simp add: commit_plan_new_def d p example_binding_def example_removal_plan_def example_removal_def)
qed


definition example_removal_prepared :: prepared_plan where
  "example_removal_prepared = \<lparr>pp_transaction = 1, pp_base_snapshot = 2,
     pp_operations = [Quarantine (VPath ''g'') (example_state example_file) 0],
     pp_final_states = [(VPath ''g'', None)]\<rparr>"

lemma example_removal_prepare:
  "prepare example_hash example_removal_plan 100000 16384 = Inr example_removal_prepared"
  by (simp add: prepare_def example_removal_plan_def example_removal_def destructive_roots_def destructive_paths_def
    is_some_and_def destructive_change_def by_depth_def by_depth_down_def example_removal_writes_def expected_at_def next_slot_def
    checked_add_def created_directories_def final_entry_def example_removal_prepared_def transaction_id_def domain_hash_def
    example_hash_def example_binding_def)

lemma example_removal_encoded:
  obtains bs where "encode_plan example_hash example_removal_prepared = Inr bs" "length bs < 1000"
proof -
  have "\<exists>bs. encode_plan example_hash example_removal_prepared = Inr bs \<and> length bs < 1000"
    by (simp add: encode_plan_def example_removal_prepared_def encode_path_plan_def encode_final_def Let_def
      encode_state_plan_def encode_optional_state_plan_def plan_magic_def plan_magic_v2_def encode_stamp_plan_def
      example_state_def from_stamp_def inode_stamp_def example_nodes_def example_file_def example_root_def)
  then show thesis using that by blast
qed


lemmas example_commit_simps =
  example_host_env_def default_commit_config_def example_reservation_def example_binding_def
  example_site_def example_removal_prepare[unfolded example_removal_plan_def]

lemma example_tx: "transaction_id example_hash b = 1"
  by (simp add: transaction_id_def domain_hash_def example_hash_def)

lemma example_reserved:
  assumes "encode_plan example_hash example_removal_prepared = Inr bs" "length bs < 1000"
  shows "prepare_reserved_plan example_host_env default_commit_config example_reservation example_removal_plan s =
    (Inr (1, example_removal_prepared, bs), s)"
  using assms example_removal_prepare
  by (simp add: prepare_reserved_plan_def Let_def example_host_env_def default_commit_config_def example_reservation_def
     example_tx) (simp add: example_removal_plan_def example_binding_def)

lemma example_leaf: "leaf_path (VPath ''g'') = Inr (VPath ''g'')" "leaf_name (VPath ''g'') = ''g''"
  "slot_name 0 = ''00000000''"
  by code_simp+

lemma example_commit_paths: "components (VPath ''g'') = [''g'']" "components root = []" "is_root root" "parent (VPath ''g'') = Some root"
  "components (VPath ''00000000'') = [''00000000'']"
  by code_simp+

lemmas example_run = bindS_apply store_cat_def mem_cat_apply mem_lookup_def can_transition_to_def Let_def
  create_transaction_workspace_def internalS_def map_errS_def site_call_def sync_tx_def upd_tx_def tx_at_def
  empty_txdir_def write_plan_def create_tx_file_def write_tx_file_def create_journal_def check_fault_def
  open_or_create_dir_def stage_content_def on_host_def stage_one_def look_def stale_on_def
  example_host_env_def example_site_def example_removal_prepared_def new_inode_def is_set_file_mode_def
  revalidate_def revalidate_read_def state_matches_def stamp_at_def example_removal_plan_def example_commit_paths
  pin_parent_directories_def pin_parent_def operation_parent_def validate_pinned_parent_def stamp_handle_def
  example_removal_reads_def example_removal_writes_def default_commit_config_def example_state_def from_stamp_def
  inode_stamp_def example_nodes_def example_root_def example_file_def named_def kind_at_def bs_insert_def is_some_and_def
  insort_insert_key_def run_commit_def commit_operation_def operation_source_witness_def journal_write_def journal_intent_def
  journal_done_def append_record_def length_payloads apply_quarantine_def example_leaf quarantine_name_def see_def verify_def
  call_def internal_def rename_at_def host_call_def sync_at_def relocated_state_matches_def expect_stamp_def applied_def
  set_name_def drop_name_def add_links_def upd_inode_def witness_of_def clear_markers_step_def clear_operation_marker_def
  verify_final_def verify_final_state_def metadata_paths_def write_commit_marker_def actual_at_def

lemma example_commit:
  "\<exists>receipt t. commit_with_faults example_host_env default_commit_config (\<lambda>_. False) example_reservation
     example_removal_plan example_site = (Inr receipt, t)"
proof -
  obtain bs where bs: "encode_plan example_hash example_removal_prepared = Inr bs" "length bs < 1000"
    by (rule example_removal_encoded)
  show ?thesis
    apply (simp add: commit_with_faults_def bindS_apply[of "prepare_reserved_plan _ _ _ _"] example_reserved[OF bs] Let_def)
    apply (simp add: prepare_and_commit_def prepare_commit_def resolve_commit_result_def cleanup_failed_def cleanup_transaction_def example_run)
    done
qed


lemma example_removal_entries:
  "distinct (map entry_path (cd_entries example_removal))"
  "\<forall>t. h_inodes (s_host example_site) (he_alloc example_host_env t) = None" "he_blake3 example_host_env = example_hash"
  by (simp_all add: example_removal_def example_site_def example_host_env_def example_nodes_def example_root_def
    example_file_def)

text \<open>
  C32: after a receipt the store says committed, and every change of the reviewed difference is on the
  file system: removed paths are gone, and the others have their kind, mode and content, for any
  environment, any stops and any faults that still let the commit return a receipt.
\<close>

theorem commit_receipt_installs:
  assumes "commit_plan_new (he_blake3 env) binding d reads writes = Inr plan"
    and "distinct (map entry_path (cd_entries d))" "\<forall>t. h_inodes (s_host s) (he_alloc env t) = None"
    and "commit_with_faults env cfg faults reservation plan s = (Inr receipt, t)"
  shows "stored (transaction_id (he_blake3 env) (pl_binding plan)) Committed t \<and>
    (\<forall>e \<in> set (cd_entries d). installed env (s_host t) (entry_path e) (entry_after e))"
  using wp_Inr[OF commit_outcome[OF assms(1-3) refl] assms(4)] new_plan_entries(1)[OF assms(1)]
  by (simp add: all_installed_def)

theorem commit_receipt_installs_witness:
  "\<exists>receipt t. commit_with_faults example_host_env default_commit_config (\<lambda>_. False) example_reservation
     example_removal_plan example_site = (Inr receipt, t) \<and>
     stored 1 Committed t \<and> installed example_host_env (s_host t) (VPath ''g'') None"
proof -
  obtain receipt t where run: "commit_with_faults example_host_env default_commit_config (\<lambda>_. False)
      example_reservation example_removal_plan example_site = (Inr receipt, t)"
    using example_commit by blast
  from commit_receipt_installs[OF example_removal_plan_new[folded example_removal_entries(3)] example_removal_entries(1,2) run]
  show ?thesis using run
    by (intro exI[of _ receipt] exI[of _ t]) (simp add: example_removal_entries(3) example_tx example_removal_def)
qed



section \<open>The execution gateway\<close>

text \<open>A gateway over the empty workspace whose policy protects one path, for the witnesses.\<close>

definition example_gateway_env :: gateway_env where
  "example_gateway_env = \<lparr>ge_vfs = example_env, sz_denied = 64, sz_copy = 64\<rparr>"

definition example_rules :: call_policy where
  "example_rules = (case protected_rule_new ''b'' access_mutations of Inr r \<Rightarrow> call_policy_new [r] | Inl _ \<Rightarrow> [])"

definition example_gateway :: fs_gateway where
  "example_gateway = gateway_new example_fs example_rules (budget_new default_execution_limits) FromMontyToolCall"

lemma example_grants:
  "authorize example_rules (VPath ''a'') Acc_Create = Inr ()"
  "\<forall>a \<in> {Acc_Create, Acc_Modify, Acc_Delete, Acc_RenameSource, Acc_RenameDestination}.
     isl (authorize example_rules (VPath ''b'') a)"
  by code_simp+

lemma example_gateway_inv: "gw_inv example_gateway_env example_gateway"
  by (simp add: gw_inv_def example_gateway_env_def example_gateway_def gateway_new_def vfs_inv_limit example_fs_inv)

lemma example_gateway_policy: "gw_policy example_gateway = example_rules"
  by (simp add: example_gateway_def gateway_new_def)

lemma example_mkdir_request:
  "fst (gw_exec example_gateway_env (GMkdir (VPath ''a'') 1) example_gateway) = Inr ()"
  "ev_failure (vf_evidence (gw_fs (snd (gw_exec example_gateway_env (GMkdir (VPath ''a'') 1) example_gateway)))) = None"
  by (simp_all add: gw_mkdir_def require_access_def gw_authorize_def gw_apply_def with_effect_origin_def
      check_path_bytes_def example_grants example_gateway_def gateway_new_def example_gateway_env_def
      default_execution_limits_def budget_new_def limit_evidence_def ev_limit_def evidence_limits_of_def
      mkdir_def run_simps example_simps)

text \<open>
  C34: a request that does not exhaust the evidence leaves the transaction in its invariant, and every
  node it created, changed or removed is at a path for which the policy allows that kind of access;
  trees that are removed, renamed or copied included.
\<close>

theorem gateway_confines:
  assumes "gw_inv env g" "\<forall>p \<in> set (gw_paths c). vpath_ok p" "gw_exec env c g = (r, h)"
    and "ev_failure (vf_evidence (gw_fs h)) = None"
  shows "gw_inv env h \<and> lawful (gw_policy g) (lookup (gw_fs g)) (lookup (gw_fs h))"
  using runs_gw_exec[OF assms(1,2)] assms(3,4) by (auto simp: wp_def moves_def split: sum.splits)

theorem gateway_confines_witness:
  "\<exists>h. gw_exec example_gateway_env (GMkdir (VPath ''a'') 1) example_gateway = (Inr (), h) \<and>
     lawful example_rules (lookup (gw_fs example_gateway)) (lookup (gw_fs h))"
  using gateway_confines[OF example_gateway_inv _ run_split[OF example_mkdir_request(1)] example_mkdir_request(2)]
    example_paths run_split[OF example_mkdir_request(1)]
  by (intro exI[of _ "snd (gw_exec example_gateway_env (GMkdir (VPath ''a'') 1) example_gateway)"])
     (simp add: example_gateway_policy del: gw_exec.simps)

text \<open>
  C35: a request for which the policy denies one of its first accesses fails, and of the virtual
  filesystem at most the evidence ledger has changed.
\<close>

theorem denied_request_stops:
  assumes "(p, a) \<in> set (gw_demands c)" "authorize (gw_policy g) p a = Inl d" "gw_exec env c g = (r, h)"
  shows "(\<exists>e. r = Inl e) \<and> gw_fs h = (gw_fs g)\<lparr>vf_evidence := vf_evidence (gw_fs h)\<rparr>"
  using barred_gw_exec[OF assms(1), of g env] assms(2,3) by (auto simp: grants_def barred_def isl_def)

theorem denied_request_stops_witness:
  "\<exists>e h. gw_exec example_gateway_env (GWrite (VPath ''b'') [1]) example_gateway = (Inl e, h) \<and>
     lookup (gw_fs h) (VPath ''b'') = lookup (gw_fs example_gateway) (VPath ''b'')"
proof -
  let ?c = "GWrite (VPath ''b'') [1]"
  obtain r h where run: "gw_exec example_gateway_env ?c example_gateway = (r, h)" by fastforce
  obtain d where "authorize (gw_policy example_gateway) (VPath ''b'') Acc_Create = Inl d"
    using example_grants(2) by (auto simp: example_gateway_policy isl_def)
  from denied_request_stops[OF _ this run] obtain e
    where e: "r = Inl e" "gw_fs h = (gw_fs example_gateway)\<lparr>vf_evidence := vf_evidence (gw_fs h)\<rparr>" by auto
  have "lookup ((gw_fs example_gateway)\<lparr>vf_evidence := b\<rparr>) = lookup (gw_fs example_gateway)" for b
    by (rule lookup_cong; simp)
  then have "lookup (gw_fs h) = lookup (gw_fs example_gateway)" by (subst e(2))
  then show ?thesis using run e(1) by (intro exI[of _ e] exI[of _ h]) simp
qed

text \<open>
  C36: whatever a guest requests, one request after another and errors included, no counter passes
  its limit, the limits, the policy and the origin of the effects stay as they were, and (while the
  evidence lasts) a path for which the policy denies every kind of mutation keeps its node.
\<close>

theorem session_within_limits:
  assumes "gw_inv env g" "within_limits (gw_budget g)" "\<forall>c \<in> set cs. \<forall>p \<in> set (gw_paths c). vpath_ok p"
    and "ev_failure (vf_evidence (gw_fs (gw_session env cs g))) = None" "untouchable (gw_policy g) q"
  shows "within_limits (gw_budget (gw_session env cs g)) \<and>
    xb_limits (gw_budget (gw_session env cs g)) = xb_limits (gw_budget g) \<and>
    gw_policy (gw_session env cs g) = gw_policy g \<and> gw_origin (gw_session env cs g) = gw_origin g \<and>
    lookup (gw_fs (gw_session env cs g)) q = lookup (gw_fs g) q"
  using session_moves[OF assms(1,3)] session_ledger[of g env cs] assms(2,4,5)
  by (auto simp: moves_def spares_def ledger_def spends_def)

lemma example_untouchable: "untouchable example_rules (VPath ''b'')"
  using example_grants(2) by (auto simp: untouchable_def grants_def)

lemma example_session:
  "ev_failure (vf_evidence (gw_fs (gw_session example_gateway_env [GMkdir (VPath ''a'') 1, GUnlink (VPath ''b'')]
     example_gateway))) = None"
proof -
  obtain h where h: "gw_exec example_gateway_env (GMkdir (VPath ''a'') 1) example_gateway = (Inr (), h)"
    "ev_failure (vf_evidence (gw_fs h)) = None"
    using run_split[OF example_mkdir_request(1)] example_mkdir_request(2) by blast
  have "gw_policy h = example_rules"
    using thriftyD[OF thrifty_gw_exec h(1)] by (simp add: ledger_def example_gateway_policy)
  then obtain d where "authorize (gw_policy h) (VPath ''b'') Acc_Delete = Inl d"
    using example_grants(2) by (auto simp: isl_def)
  then have "gw_unlink example_gateway_env (VPath ''b'') h = (fst (gw_unlink example_gateway_env (VPath ''b'') h), h)"
    by (auto simp: gw_unlink_def bindS_def require_access_def gw_authorize_def bindR_def split: sum.split)
  then show ?thesis using h by simp (metis snd_conv)
qed

theorem session_within_limits_witness:
  "within_limits (gw_budget (gw_session example_gateway_env [GMkdir (VPath ''a'') 1, GUnlink (VPath ''b'')] example_gateway)) \<and>
   lookup (gw_fs (gw_session example_gateway_env [GMkdir (VPath ''a'') 1, GUnlink (VPath ''b'')] example_gateway)) (VPath ''b'') =
     lookup (gw_fs example_gateway) (VPath ''b'')"
proof -
  have "within_limits (gw_budget example_gateway)" by (simp add: example_gateway_def gateway_new_def within_new)
  from session_within_limits[OF example_gateway_inv this _ example_session] show ?thesis
    using example_untouchable example_paths by (simp add: example_gateway_policy del: gw_session.simps)
qed



section \<open>Pending artifacts\<close>

text \<open>A codec of result values that are bytes, and an artifact with a difference, a review and a result.\<close>

definition example_codec :: "bytes codec_env" where
  "example_codec = \<lparr>ce_blake3 = example_hash, ce_size = (\<lambda>v. Inr (length v)), ce_chunks = (\<lambda>v. [v]),
     ce_failure = (\<lambda>_. None), ce_take = (\<lambda>bs. Inr (bs, []))\<rparr>"

definition example_unsealed :: "bytes pending_transaction" where
  "example_unsealed = \<lparr>pt_binding = example_binding, pt_diff = example_diff, pt_read_set = example_reads,
     pt_write_set = example_writes,
     pt_review = \<lparr>rv_intent = None, rv_metrics = default_metrics,
       rv_effects = [\<lparr>ev_sequence = 1, ev_origin = FromMontyOsCall, ev_effect = Delete (VPath ''d'') (directory_state 0x1ED)\<rparr>],
       rv_complete = True, rv_truncated = False\<rparr>,
     pt_receipt = \<lparr>rcp_transaction = 1, rcp_base_snapshot = 2, rcp_state = AutoApproved, rcp_decision = DecidedAuto,
       rcp_diff = 1, rcp_changed_paths = 3, rcp_changes = cd_entries example_diff,
       rcp_output = MontyOutput [5, 6] ''ok'', rcp_execution = empty_stats,
       rcp_timings = \<lparr>tm_snapshot = 1, tm_execute = 2, tm_diff = 3, tm_policy = 4, tm_bind_and_store = 5, tm_commit = 6,
         tm_total = 21\<rparr>, rcp_commit = None\<rparr>\<rparr>"

definition example_artifact :: "bytes pending_transaction" where
  "example_artifact = sealed example_codec 1 example_unsealed"

lemma example_writable_paths: "path_writable (VPath ''d'')" "path_writable (VPath [CHR ''d'', slash, CHR ''f''])"
    "path_writable (VPath ''g'')" "path_writable root"
  unfolding path_writable_def by code_simp+

lemma example_digests: "read_set_digest example_hash r = 1" "write_set_digest example_hash w = 1"
    "transaction_id example_hash b = 1" "diff_digest example_hash x = 1" "evidence_hash example_hash y = 1"
  by (simp_all add: read_set_digest_def read_set_digest_canonical_def write_set_digest_def
      write_set_digest_canonical_def domain_hash_def example_hash_def transaction_id_def diff_digest_def
      evidence_hash_def)

lemma example_artifact_parts:
  "pt_binding example_artifact = example_binding\<lparr>execution_evidence := Some 1\<rparr>"
  "pt_diff example_artifact = example_diff" "pt_read_set example_artifact = example_reads"
  "pt_write_set example_artifact = example_writes" "pt_review example_artifact = pt_review example_unsealed"
  "pt_receipt example_artifact = pt_receipt example_unsealed"
  by (simp_all add: example_artifact_def sealed_def Let_def example_unsealed_def example_codec_def example_digests)

lemma example_fills:
  "fills 300 (encode_binding (example_binding\<lparr>execution_evidence := Some d\<rparr>))"
  "fills 200 (encode_review default_artifact_limits (pt_review example_unsealed))"
  "fills 200 (receipt_tail example_codec default_artifact_limits True example_unsealed)"
  "fills 56 (encode_timings (rcp_timings (pt_receipt example_unsealed)))"
  "fills 1000 (encode_dependencies default_artifact_limits example_unsealed)"
proof -
  show "fills 300 (encode_binding (example_binding\<lparr>execution_evidence := Some d\<rparr>))"
    apply (rule fills_more)
    apply (simp del: opS_apply steps.simps add: example_binding_def encode_binding_def encode_optional_digest_artifact_def)
    apply (unfold steps.simps)
    apply (rule fills_intros)+
    by simp
  show "fills 200 (encode_review default_artifact_limits (pt_review example_unsealed))"
    apply (rule fills_more)
    apply (simp del: opS_apply steps.simps add: example_unsealed_def encode_review_def
        encode_risk_metrics_def encode_path_artifact_def encode_state_artifact_def directory_state_def)
    apply (unfold steps.simps)
    apply (rule fills_intros | simp add: default_artifact_limits_def default_metrics_def)+
    done
  show "fills 200 (receipt_tail example_codec default_artifact_limits True example_unsealed)"
    apply (rule fills_more)
    apply (simp del: opS_apply steps.simps add: example_unsealed_def receipt_tail_def
        encode_decision_def encode_execution_output_def encode_execution_stats_def encode_value_def example_codec_def)
    apply (unfold steps.simps forS.simps)
    apply (rule fills_intros | simp add: default_artifact_limits_def empty_stats_def)+
    done
  show "fills 56 (encode_timings (rcp_timings (pt_receipt example_unsealed)))"
    apply (rule fills_more)
    apply (simp del: opS_apply steps.simps add: example_unsealed_def encode_timings_def)
    apply (unfold steps.simps)
    apply (rule fills_intros)+
    by simp
  show "fills 1000 (encode_dependencies default_artifact_limits example_unsealed)"
    apply (rule fills_more)
    apply (simp del: opS_apply steps.simps add: example_unsealed_def encode_dependencies_def example_entries
        example_reads_def example_writes_def example_before_def encode_observation_def encode_path_artifact_def
        encode_state_artifact_def encode_optional_state_artifact_def encode_optional_digest_artifact_def
        directory_state_def file_state_def root_def)
    apply (unfold steps.simps)
    apply (rule fills_intros | simp add: default_artifact_limits_def)+
    done
qed

lemma example_seals: "\<exists>bs d. seal_pending_and_encode example_codec (\<lambda>_. True) default_artifact_limits example_unsealed =
    (Inr bs, sealed example_codec d example_unsealed)"
proof -
  have f: "fills 300 (encode_binding (written_binding example_unsealed True))"
    "fills 200 (receipt_tail example_codec default_artifact_limits (evidence_on example_unsealed True) example_unsealed)"
    using example_fills(1)[of 0] example_fills(3) by (simp_all add: written_binding_def evidence_on_def example_unsealed_def)
  have "\<exists>d e'. write_pending_fields example_codec default_artifact_limits example_unsealed True
      (encoder_new (\<lambda>_. True) (al_max_bytes default_artifact_limits)) = (Inr (Some d), e') \<and> (True \<longrightarrow> en_seal_offset e' \<noteq> None)"
    by (rule fields_fit[OF f(1) example_fills(2) f(2) example_fills(4,5)])
      (simp_all add: default_artifact_limits_def evidence_on_def review_bound_def example_unsealed_def example_binding_def)
  moreover have "execution_evidence (pt_binding example_unsealed) = None"
    by (simp add: example_unsealed_def example_binding_def)
  ultimately show ?thesis by (auto simp: seal_pending_and_encode_def)
qed

lemma example_encodes: "\<exists>bs. encode_pending example_codec (\<lambda>_. True) default_artifact_limits example_artifact = Inr bs"
proof -
  have f: "fills 300 (encode_binding (written_binding example_artifact False))"
    "fills 200 (receipt_tail example_codec default_artifact_limits (evidence_on example_artifact False) example_artifact)"
    "fills 1000 (encode_dependencies default_artifact_limits example_artifact)"
    using example_fills(1)[of 1] example_fills(3,5)
    by (simp_all add: written_binding_def evidence_on_def example_artifact_parts receipt_tail_def encode_dependencies_def)
      (simp_all add: example_unsealed_def)
  have "\<exists>d e'. write_pending_fields example_codec default_artifact_limits example_artifact False
      (encoder_new (\<lambda>_. True) (al_max_bytes default_artifact_limits)) = (Inr (Some d), e') \<and> (False \<longrightarrow> en_seal_offset e' \<noteq> None)"
    by (rule fields_fit[OF f(1) _ f(2) _ f(3), of 200 56])
      (use example_fills(2,4) in \<open>simp_all add: example_artifact_parts\<close>,
       simp_all add: default_artifact_limits_def evidence_on_def review_bound_def example_unsealed_def example_binding_def
        example_artifact_parts example_codec_def example_digests)
  then show ?thesis by (auto simp: encode_pending_def)
qed

lemma example_artifact_writable: "pending_writable example_codec example_artifact"
proof -
  have r: "review_writable True (pt_review example_unsealed)" "decision_writable True (rcp_decision (pt_receipt example_unsealed))"
    "output_writable example_codec (rcp_output (pt_receipt example_unsealed))"
    by (simp_all add: review_writable_def example_unsealed_def event_writable_def example_writable_paths state_writable_def
        directory_state_def example_codec_def value_law_def) (code_simp)
  have e: "\<forall>e \<in> set (cd_entries example_diff). entry_writable True e" "\<forall>x \<in> set example_reads. observation_writable x"
    "\<forall>x \<in> set example_writes. precondition_writable x"
    by (simp_all add: example_entries entry_writable_def example_writable_paths state_writable_def directory_state_def file_state_def
        example_reads_def example_writes_def observation_writable_def precondition_writable_def example_before_def
        root_def) (use example_writable_paths(4) in \<open>simp add: root_def\<close>)
  have "bt_ok example_reads" "bt_ok example_writes" by code_simp+
  then show ?thesis using r e by (simp add: pending_writable_def Let_def example_artifact_parts)
qed

lemma example_artifact_consistent: "pending_consistent example_hash example_artifact"
  unfolding pending_consistent_def Let_def example_artifact_parts
  by (simp add: example_unsealed_def example_binding_def example_diff_def example_digests)

lemma example_canonical: "\<exists>d. from_entries example_hash (cd_entries example_diff) = Inr d \<and> cd_digest d = 1"
proof -
  have order: "\<not> VPath [CHR ''d'', slash, CHR ''f''] \<le> VPath ''d''" "\<not> VPath ''g'' \<le> VPath [CHR ''d'', slash, CHR ''f'']"
    "\<not> is_root (VPath ''d'')" "\<not> is_root (VPath [CHR ''d'', slash, CHR ''f''])" "\<not> is_root (VPath ''g'')"
    by code_simp+
  have "\<exists>n. check_entries None 0 (cd_entries example_diff) = Inr n"
    by (simp add: example_entries order)
  then show ?thesis by (auto simp: from_entries_def example_digests)
qed

text \<open>
  C38: an artifact that can be written and whose receipt says what it holds survives the store:
  whenever \<open>encode_pending\<close> produces bytes, \<open>decode_pending\<close> reads the same artifact back from them,
  with the difference rebuilt from its entries and the sealed evidence verified again.  The codec of
  result values is only asked to give back the values it serialized (\<open>value_law\<close>, part of
  \<open>pending_writable\<close>).
\<close>

theorem pending_roundtrip:
  assumes "\<forall>n. alloc n" "al_max_bytes l < 2 ^ 64" "pending_writable env a" "pending_consistent (ce_blake3 env) a"
    and "from_entries (ce_blake3 env) (cd_entries (pt_diff a)) = Inr d'" "cd_digest d' = cd_digest (pt_diff a)"
    and "encode_pending env alloc l a = Inr bs"
  shows "decode_pending env (\<lambda>_. True) l bs = Inr (a\<lparr>pt_diff := d'\<rparr>)"
  by (rule pending_reads_back[OF assms])

theorem pending_roundtrip_witness:
  "\<exists>bs d. encode_pending example_codec (\<lambda>_. True) default_artifact_limits example_artifact = Inr bs \<and>
     decode_pending example_codec (\<lambda>_. True) default_artifact_limits bs = Inr (example_artifact\<lparr>pt_diff := d\<rparr>)"
proof -
  obtain bs where bs: "encode_pending example_codec (\<lambda>_. True) default_artifact_limits example_artifact = Inr bs"
    using example_encodes by blast
  obtain d where d: "from_entries example_hash (cd_entries example_diff) = Inr d" "cd_digest d = 1"
    using example_canonical by blast
  have "decode_pending example_codec (\<lambda>_. True) default_artifact_limits bs = Inr (example_artifact\<lparr>pt_diff := d\<rparr>)"
    by (rule pending_roundtrip[OF _ _ example_artifact_writable _ _ _ bs])
      (use example_artifact_consistent d in
        \<open>simp_all add: default_artifact_limits_def example_codec_def example_artifact_parts example_diff_def\<close>)
  then show ?thesis using bs by blast
qed

text \<open>
  C39: sealing a fresh transaction in one pass agrees with the verified codec: the bytes of
  \<open>seal_pending_and_encode\<close>, with the digest patched into the slot of the binding, are those
  \<open>encode_pending\<close> writes for the sealed artifact; \<open>seal_pending_and_size\<close> announces their number and
  leaves the same artifact; the sealed evidence validates.
\<close>

theorem seal_matches_codec:
  assumes "\<forall>n. alloc n" "al_max_bytes l < 2 ^ 64" "seal_pending_and_encode env alloc l a = (Inr bs, a')"
  shows "encode_pending env alloc l a' = Inr bs \<and> seal_pending_and_size env alloc l a = (Inr (length bs), a') \<and>
    validate_execution_evidence env alloc l a' = Inr () \<and> length bs \<le> al_max_bytes l"
  by (rule seal_agrees[OF assms])

theorem seal_matches_codec_witness:
  "\<exists>bs a'. seal_pending_and_encode example_codec (\<lambda>_. True) default_artifact_limits example_unsealed = (Inr bs, a') \<and>
     encode_pending example_codec (\<lambda>_. True) default_artifact_limits a' = Inr bs"
proof -
  obtain bs d where "seal_pending_and_encode example_codec (\<lambda>_. True) default_artifact_limits example_unsealed =
      (Inr bs, sealed example_codec d example_unsealed)"
    using example_seals by blast
  then show ?thesis
    using seal_matches_codec[of "\<lambda>_. True" default_artifact_limits example_codec example_unsealed bs]
    by (auto simp: default_artifact_limits_def)
qed

text \<open>
  C40: whatever bytes were stored, an artifact that decodes is bound: its difference is canonical, its
  difference, read set and write set have the digests of its binding, its receipt carries the
  identity of that binding and a state that awaits a commit, its review and result are the sealed
  ones, and it is within the configured size.
\<close>

theorem decoded_artifact_bound:
  assumes "decode_pending env alloc l bs = Inr a"
  shows "pending_consistent (ce_blake3 env) a \<and>
    from_entries (ce_blake3 env) (cd_entries (pt_diff a)) = Inr (pt_diff a) \<and>
    validate_execution_evidence env alloc l a = Inr () \<and> length bs \<le> al_max_bytes l"
  by (rule decoded_is_bound[OF assms])

theorem decoded_artifact_bound_witness:
  "\<exists>bs a. decode_pending example_codec (\<lambda>_. True) default_artifact_limits bs = Inr a \<and>
     pending_consistent (ce_blake3 example_codec) a"
proof -
  obtain bs where bs: "encode_pending example_codec (\<lambda>_. True) default_artifact_limits example_artifact = Inr bs"
    using example_encodes by blast
  obtain d where d: "from_entries example_hash (cd_entries example_diff) = Inr d" "cd_digest d = 1"
    using example_canonical by blast
  have "decode_pending example_codec (\<lambda>_. True) default_artifact_limits bs = Inr (example_artifact\<lparr>pt_diff := d\<rparr>)"
    by (rule pending_reads_back[OF _ _ example_artifact_writable _ _ _ bs])
      (use example_artifact_consistent d in
        \<open>simp_all add: default_artifact_limits_def example_codec_def example_artifact_parts example_diff_def\<close>)
  then show ?thesis using decoded_artifact_bound by blast
qed

end
